(* ===== verification/Prelude.thy ===== *)
theory Prelude
  imports Complex_Main "HOL-Library.Word" "HOL-Library.AList" "HOL-Library.Multiset"
begin

text \<open>
  The shared vocabulary of the development: the Go values the components are made of
  (time, durations, byte slices, strings, maps), the helper functions of the Go standard
  library they call, and the generic lemmas and interface locales that carry the proofs of
  the component theories.

  \<^item> \<open>time.Time\<close> is the number of nanoseconds since Go's zero time, so \<open>IsZero\<close> is
    \<open>t = 0\<close>; \<open>UTC()\<close> does not change the instant and is the identity.
    \<open>time.Duration\<close> is a number of nanoseconds. \<open>Sub\<close> saturates at the 64-bit range
    as the library's does. An operation that reads the clock takes the reading as an argument.
  \<^item> a Go map is an association list with distinct keys. Iteration order is the list order,
    and every theorem quantifies over the list, so it holds for every iteration order.
  \<^item> a Go string is a list of bytes. \<open>TrimSpace\<close>, \<open>ToLower\<close>, \<open>ToUpper\<close> and
    \<open>EqualFold\<close> are modelled on ASCII; bytes above 127 are kept as they are.
  \<^item> \<open>float64\<close> is the field of rationals: exact arithmetic, no rounding.
\<close>

section \<open>Collections of facts\<close>

named_theorems go_simps \<open>unfolding rules of the Go vocabulary\<close>
named_theorems inv_intros \<open>preservation facts for the component invariants\<close>

section \<open>Time and integers\<close>

type_synonym time = int
type_synonym duration = int
type_synonym uint64 = "64 word"
type_synonym float64 = rat

abbreviation (input) zero_time :: time where
  "zero_time \<equiv> 0"

abbreviation (input) is_zero_time :: "time \<Rightarrow> bool" where
  "is_zero_time t \<equiv> t = 0"

abbreviation (input) nanosecond :: duration where "nanosecond \<equiv> 1"
abbreviation (input) millisecond :: duration where "millisecond \<equiv> 1000000"
abbreviation (input) second :: duration where "second \<equiv> 1000000000"
abbreviation (input) minute :: duration where "minute \<equiv> 60000000000"
abbreviation (input) hour :: duration where "hour \<equiv> 3600000000000"

definition max_duration :: duration where
  "max_duration = 2 ^ 63 - 1"

definition min_duration :: duration where
  "min_duration = - (2 ^ 63)"

text \<open>\<open>t.Sub(u)\<close>: the difference, saturated to the range of \<open>time.Duration\<close>.\<close>

definition time_sub :: "time \<Rightarrow> time \<Rightarrow> duration" where
  "time_sub t u = max min_duration (min max_duration (t - u))"

text \<open>\<open>t.Add(d)\<close>, \<open>t.Before(u)\<close> and \<open>t.After(u)\<close>.\<close>

definition time_add :: "time \<Rightarrow> duration \<Rightarrow> time" where
  "time_add t d = t + d"

definition time_before :: "time \<Rightarrow> time \<Rightarrow> bool" where
  "time_before t u \<longleftrightarrow> t < u"

definition time_after :: "time \<Rightarrow> time \<Rightarrow> bool" where
  "time_after t u \<longleftrightarrow> t > u"

text \<open>Integer division of Go truncates towards zero.\<close>

definition trunc_div :: "int \<Rightarrow> int \<Rightarrow> int" where
  "trunc_div a b = sgn a * sgn b * (\<bar>a\<bar> div \<bar>b\<bar>)"

text \<open>Conversion of a \<open>float64\<close> to an integer type truncates towards zero.\<close>

definition trunc_float :: "float64 \<Rightarrow> int" where
  "trunc_float x = (if x < 0 then \<lceil>x\<rceil> else \<lfloor>x\<rfloor>)"

section \<open>Maps\<close>

type_synonym ('k, 'v) gomap = "('k \<times> 'v) list"

abbreviation (input) gget :: "('k, 'v) gomap \<Rightarrow> 'k \<Rightarrow> 'v option" where
  "gget m k \<equiv> map_of m k"

abbreviation (input) gput :: "'k \<Rightarrow> 'v \<Rightarrow> ('k, 'v) gomap \<Rightarrow> ('k, 'v) gomap" where
  "gput \<equiv> AList.update"

abbreviation (input) gdel :: "'k \<Rightarrow> ('k, 'v) gomap \<Rightarrow> ('k, 'v) gomap" where
  "gdel \<equiv> AList.delete"

abbreviation (input) gkeys :: "('k, 'v) gomap \<Rightarrow> 'k list" where
  "gkeys m \<equiv> map fst m"

abbreviation (input) gok :: "('k, 'v) gomap \<Rightarrow> bool" where
  "gok m \<equiv> distinct (map fst m)"

text \<open>Applying a function to every value of a map (a loop that writes through the pointers).\<close>

definition gmap_values :: "('v \<Rightarrow> 'w) \<Rightarrow> ('k, 'v) gomap \<Rightarrow> ('k, 'w) gomap" where
  "gmap_values f m = map (\<lambda>(k, v). (k, f v)) m"

text \<open>A read of a map with a default for absent keys (Go's zero value).\<close>

definition gget_default :: "'v \<Rightarrow> ('k, 'v) gomap \<Rightarrow> 'k \<Rightarrow> 'v" where
  "gget_default d m k = (case gget m k of None \<Rightarrow> d | Some v \<Rightarrow> v)"

section \<open>Strings\<close>

definition is_space :: "char \<Rightarrow> bool" where
  "is_space c \<longleftrightarrow> c \<in> set [CHR 0x09, CHR 0x0A, CHR 0x0B, CHR 0x0C, CHR 0x0D, CHR 0x20]"

definition TrimSpace :: "string \<Rightarrow> string" where
  "TrimSpace s = rev (dropWhile is_space (rev (dropWhile is_space s)))"

definition char_in :: "char \<Rightarrow> char \<Rightarrow> char \<Rightarrow> bool" where
  "char_in lo hi c \<longleftrightarrow> of_char lo \<le> (of_char c :: nat) \<and> of_char c \<le> (of_char hi :: nat)"

definition lower_char :: "char \<Rightarrow> char" where
  "lower_char c = (if char_in CHR ''A'' CHR ''Z'' c then char_of (of_char c + 32 :: nat) else c)"

definition upper_char :: "char \<Rightarrow> char" where
  "upper_char c = (if char_in CHR ''a'' CHR ''z'' c then char_of (of_char c - 32 :: nat) else c)"

definition ToLower :: "string \<Rightarrow> string" where
  "ToLower s = map lower_char s"

definition ToUpper :: "string \<Rightarrow> string" where
  "ToUpper s = map upper_char s"

definition EqualFold :: "string \<Rightarrow> string \<Rightarrow> bool" where
  "EqualFold s t \<longleftrightarrow> ToLower s = ToLower t"

definition is_digit :: "char \<Rightarrow> bool" where
  "is_digit c \<longleftrightarrow> char_in CHR ''0'' CHR ''9'' c"

definition digit_val :: "char \<Rightarrow> nat" where
  "digit_val c = of_char c - 48"

definition digit_char :: "nat \<Rightarrow> char" where
  "digit_char d = char_of (48 + d)"

text \<open>Decimal text of a natural number, as \<open>strconv.Itoa\<close> prints it.\<close>

fun nat_text :: "nat \<Rightarrow> string" where
  "nat_text n = (if n < 10 then [digit_char n] else nat_text (n div 10) @ [digit_char (n mod 10)])"

definition Itoa :: "int \<Rightarrow> string" where
  "Itoa i = (if i < 0 then CHR ''-'' # nat_text (nat (- i)) else nat_text (nat i))"

text \<open>The value of a text of decimal digits, most significant digit first.\<close>

definition digits_value :: "string \<Rightarrow> nat" where
  "digits_value s = foldl (\<lambda>n c. 10 * n + digit_val c) 0 s"

text \<open>\<open>strconv.Atoi\<close>: an optional sign, at least one digit, digits only, within 64 bits.\<close>

definition Atoi :: "string \<Rightarrow> int option" where
  "Atoi s =
     (let neg = (s \<noteq> [] \<and> hd s = CHR ''-'');
          body = (if s \<noteq> [] \<and> (hd s = CHR ''-'' \<or> hd s = CHR ''+'') then tl s else s)
      in if body = [] \<or> \<not> list_all is_digit body then None
         else let v = int (digits_value body); r = (if neg then - v else v)
              in if - (2 ^ 63) \<le> r \<and> r < 2 ^ 63 then Some r else None)"

declare nat_text.simps [simp del]

section \<open>Ordering: scans and stable sorting\<close>

text \<open>
  A loop that keeps the best element seen so far, replacing it only by a strictly better
  one, and the stable sort by a strict comparison.
\<close>

fun scan_best :: "('a \<Rightarrow> 'a \<Rightarrow> bool) \<Rightarrow> 'a option \<Rightarrow> 'a list \<Rightarrow> 'a option" where
  "scan_best lt b [] = b"
| "scan_best lt None (x # xs) = scan_best lt (Some x) xs"
| "scan_best lt (Some b) (x # xs) = scan_best lt (Some (if lt x b then x else b)) xs"

fun insert_by :: "('a \<Rightarrow> 'a \<Rightarrow> bool) \<Rightarrow> 'a \<Rightarrow> 'a list \<Rightarrow> 'a list" where
  "insert_by lt x [] = [x]"
| "insert_by lt x (y # ys) = (if lt y x then y # insert_by lt x ys else x # y # ys)"

definition stable_sort :: "('a \<Rightarrow> 'a \<Rightarrow> bool) \<Rightarrow> 'a list \<Rightarrow> 'a list" where
  "stable_sort lt xs = foldr (insert_by lt) xs []"

section \<open>Facts on maps\<close>

declare map_of_eq_Some_iff [simp del] Some_eq_map_of_iff [simp del]

lemma gget_gput [simp]: "gget (gput k v m) k' = (if k' = k then Some v else gget m k')"
  by (simp add: update_conv')

lemma gget_gdel [simp]: "gget (gdel k m) k' = (if k' = k then None else gget m k')"
  by (simp add: delete_conv')

lemma gok_gput [simp, intro]: "gok m \<Longrightarrow> gok (gput k v m)"
  by (rule distinct_update)

lemma gok_gdel [simp, intro]: "gok m \<Longrightarrow> gok (gdel k m)"
  by (rule distinct_delete)

lemma gok_filter [simp, intro]: "gok m \<Longrightarrow> gok (filter P m)"
  by (simp add: distinct_map_filter)

lemma gkeys_gmap_values [simp]: "gkeys (gmap_values f m) = gkeys m"
  by (induction m) (auto simp: gmap_values_def)

lemma gget_gmap_values [simp]: "gget (gmap_values f m) k = map_option f (gget m k)"
  by (induction m) (auto simp: gmap_values_def)

lemma gget_filter:
  "gok m \<Longrightarrow> gget (filter P m) k =
     (case gget m k of None \<Rightarrow> None | Some v \<Rightarrow> if P (k, v) then Some v else None)"
proof (induction m)
  case Nil
  then show ?case by simp
next
  case (Cons p m)
  then have "gget m (fst p) = None" by (simp add: map_of_eq_None_iff)
  with Cons show ?case by (cases p) auto
qed

lemma gget_in_set: "gget m k = Some v \<Longrightarrow> (k, v) \<in> set m"
  by (rule map_of_SomeD)

lemma gget_iff_set: "gok m \<Longrightarrow> gget m k = Some v \<longleftrightarrow> (k, v) \<in> set m"
  by (auto dest: map_of_SomeD)

lemma gget_None_iff: "gget m k = None \<longleftrightarrow> k \<notin> set (gkeys m)"
  by (simp add: map_of_eq_None_iff)

lemma set_gkeys_gput: "set (gkeys (gput k v m)) = insert k (set (gkeys m))"
  by (auto simp: update_keys)

lemma length_gput:
  "length (gput k v m) = (if k \<in> set (gkeys m) then length m else Suc (length m))"
  by (induction m) auto

lemma gdel_notin: "k \<notin> set (gkeys m) \<Longrightarrow> gdel k m = m"
  by (force simp: AList.delete_eq filter_id_conv)

lemma length_gdel: "gok m \<Longrightarrow> length (gdel k m) = (if k \<in> set (gkeys m) then length m - 1 else length m)"
proof (induction m)
  case (Cons p m)
  show ?case
  proof (cases "fst p = k")
    case True
    with Cons.prems show ?thesis by (simp add: gdel_notin)
  next
    case False
    with Cons show ?thesis by (cases m) auto
  qed
qed simp

lemma length_gdel_le: "length (gdel k m) \<le> length m"
  by (rule length_delete_le)

section \<open>Counting\<close>

text \<open>How many entries of a heap or values of a map satisfy a predicate.\<close>

definition count_if :: "('a \<Rightarrow> bool) \<Rightarrow> 'a list \<Rightarrow> nat" where
  "count_if P xs = length (filter P xs)"

definition gcount :: "('v \<Rightarrow> bool) \<Rightarrow> ('k, 'v) gomap \<Rightarrow> nat" where
  "gcount P m = count_if (\<lambda>p. P (snd p)) m"

lemma count_if_simps [simp]:
  "count_if P [] = 0" "count_if P (x # xs) = of_bool (P x) + count_if P xs"
  "count_if P (xs @ ys) = count_if P xs + count_if P ys"
  by (simp_all add: count_if_def)

lemma gcount_simps [simp]: "gcount P [] = 0" "gcount P (p # m) = of_bool (P (snd p)) + gcount P m"
  by (simp_all add: gcount_def)

lemma count_if_update:
  "i < length xs \<Longrightarrow> count_if P (xs[i := x]) + of_bool (P (xs ! i)) = count_if P xs + of_bool (P x)"
proof (induction xs arbitrary: i)
  case (Cons a xs)
  then show ?case using Cons.IH [of "i - 1"] by (cases i) auto
qed simp

lemma count_if_mono: "(\<And>x. x \<in> set xs \<Longrightarrow> P x \<Longrightarrow> Q x) \<Longrightarrow> count_if P xs \<le> count_if Q xs"
  by (induction xs) (auto intro: le_SucI)

lemma count_if_cong: "(\<And>x. x \<in> set xs \<Longrightarrow> P x = Q x) \<Longrightarrow> count_if P xs = count_if Q xs"
  by (induction xs) auto

lemma gcount_gput:
  "gok m \<Longrightarrow> gcount P (gput k v m) + (case gget m k of None \<Rightarrow> 0 | Some w \<Rightarrow> of_bool (P w)) = gcount P m + of_bool (P v)"
  by (induction m) (auto split: option.splits)

lemma gcount_gdel:
  "gok m \<Longrightarrow> gcount P (gdel k m) + (case gget m k of None \<Rightarrow> 0 | Some w \<Rightarrow> of_bool (P w)) = gcount P m"
proof (induction m)
  case (Cons p m)
  then show ?case
    by (cases "fst p = k") (auto simp: gdel_notin map_of_eq_None_iff split: option.splits)
qed simp

section \<open>Facts on strings\<close>

lemma dropWhile_idem [simp]: "dropWhile P (dropWhile P s) = dropWhile P s"
  by (induction s) auto

lemma dropWhile_rev_suffix_id:
  "dropWhile P s = s \<Longrightarrow> dropWhile P (rev (dropWhile P (rev s))) = rev (dropWhile P (rev s))"
proof (cases s)
  case (Cons c cs)
  assume "dropWhile P s = s"
  with Cons have nP: "\<not> P c"
    by (metis dropWhile_eq_Cons_conv list.inject dropWhile_eq_self_iff list.sel(1) list.discI)
  have "dropWhile P (rev s) = dropWhile P (rev cs) @ [c] \<or> dropWhile P (rev s) = [c]"
    using Cons nP by (auto simp: dropWhile_append)
  then show ?thesis using nP by auto
qed simp

lemma TrimSpace_idem [simp]: "TrimSpace (TrimSpace s) = TrimSpace s"
  by (simp add: TrimSpace_def dropWhile_rev_suffix_id)

lemma TrimSpace_Nil [simp]: "TrimSpace [] = []"
  by (simp add: TrimSpace_def)

lemma set_TrimSpace: "set (TrimSpace s) \<subseteq> set s"
  unfolding TrimSpace_def by (auto dest!: set_dropWhileD)

lemma length_TrimSpace: "length (TrimSpace s) \<le> length s"
  unfolding TrimSpace_def
  by (metis length_dropWhile_le length_rev order_trans)

lemma lower_char_idem [simp]: "lower_char (lower_char c) = lower_char c"
proof (cases "char_in CHR ''A'' CHR ''Z'' c")
  case True
  then have "of_char c + 32 < (256::nat)" by (simp add: char_in_def)
  with True show ?thesis by (auto simp: lower_char_def char_in_def)
qed (simp add: lower_char_def)

lemma upper_char_idem [simp]: "upper_char (upper_char c) = upper_char c"
proof (cases "char_in CHR ''a'' CHR ''z'' c")
  case True
  then have "of_char c - 32 < (256::nat)" unfolding char_in_def by auto
  with True show ?thesis by (auto simp: upper_char_def char_in_def)
qed (simp add: upper_char_def)

lemma ToLower_idem [simp]: "ToLower (ToLower s) = ToLower s"
  by (simp add: ToLower_def)

lemma ToUpper_idem [simp]: "ToUpper (ToUpper s) = ToUpper s"
  by (simp add: ToUpper_def)

lemma ToLower_length [simp]: "length (ToLower s) = length s"
  by (simp add: ToLower_def)

lemma ToUpper_length [simp]: "length (ToUpper s) = length s"
  by (simp add: ToUpper_def)

lemma EqualFold_refl [simp]: "EqualFold s s"
  by (simp add: EqualFold_def)

text \<open>Characters compared bit by bit, which is how witnesses evaluate the comparisons.\<close>

fun bits_le :: "bool list \<Rightarrow> bool list \<Rightarrow> bool" where
  "bits_le (x # xs) (y # ys) = (if x = y then bits_le xs ys else y)"
| "bits_le _ _ = True"

primrec msb_first :: "char \<Rightarrow> bool list" where
  "msb_first (Char b0 b1 b2 b3 b4 b5 b6 b7) = [b7, b6, b5, b4, b3, b2, b1, b0]"

fun bits_value :: "bool list \<Rightarrow> nat" where
  "bits_value [] = 0"
| "bits_value (x # xs) = of_bool x * 2 ^ length xs + bits_value xs"

lemma bits_value_less: "bits_value xs < 2 ^ length xs"
  by (induction xs) auto

lemma bits_le_value: "length xs = length ys \<Longrightarrow> bits_le xs ys \<longleftrightarrow> bits_value xs \<le> bits_value ys"
proof (induction xs ys rule: bits_le.induct)
  case (1 x xs y ys)
  then show ?case using bits_value_less [of xs] bits_value_less [of ys] by (cases x; cases y) auto
qed auto

lemma bits_le_char: "bits_le (msb_first a) (msb_first b) \<longleftrightarrow> (of_char a :: nat) \<le> of_char b"
proof -
  have "of_char c = bits_value (msb_first c)" for c by (cases c) (simp add: of_char_def)
  moreover have "length (msb_first c) = 8" for c by (cases c) simp
  ultimately show ?thesis by (simp add: bits_le_value)
qed

lemma char_in_code [code]: "char_in lo hi c \<longleftrightarrow> bits_le (msb_first lo) (msb_first c) \<and> bits_le (msb_first c) (msb_first hi)"
  by (simp add: char_in_def bits_le_char)

lemma lower_char_code [code]:
  "lower_char (Char b0 b1 b2 b3 b4 b5 b6 b7) =
     (if char_in CHR ''A'' CHR ''Z'' (Char b0 b1 b2 b3 b4 b5 b6 b7) then Char b0 b1 b2 b3 b4 True b6 b7 else Char b0 b1 b2 b3 b4 b5 b6 b7)"
  by (cases b5; cases b6; cases b7) (auto simp: lower_char_def char_in_def of_char_def char_of_def bit_Suc_0_iff)

section \<open>Facts on numbers\<close>

lemma time_sub_le_iff: "0 \<le> d \<Longrightarrow> d < max_duration \<Longrightarrow> time_sub t u \<le> d \<longleftrightarrow> t - u \<le> d"
  by (auto simp: time_sub_def min_duration_def max_duration_def)

lemma time_sub_gt_iff: "0 \<le> d \<Longrightarrow> d < max_duration \<Longrightarrow> d < time_sub t u \<longleftrightarrow> d < t - u"
  by (auto simp: time_sub_def min_duration_def max_duration_def)

lemma trunc_float_of_int [simp]: "trunc_float (of_int i) = i"
  by (simp add: trunc_float_def)

lemma trunc_float_between:
  "of_int a \<le> x \<Longrightarrow> x \<le> of_int b \<Longrightarrow> 0 \<le> a \<Longrightarrow> a \<le> trunc_float x \<and> trunc_float x \<le> b"
proof -
  assume h: "of_int a \<le> x" "x \<le> of_int b" "0 \<le> a"
  from h have "0 \<le> x" by (meson of_int_0_le_iff order_trans)
  with h show ?thesis
    by (auto simp: trunc_float_def le_floor_iff) (meson floor_mono floor_of_int order_trans order_refl floor_le_iff of_int_le_iff of_int_floor_le)
qed

section \<open>Facts on scans and sorting\<close>

lemma mset_insert_by [simp]: "mset (insert_by lt x ys) = add_mset x (mset ys)"
  by (induction ys) auto

lemma mset_stable_sort [simp]: "mset (stable_sort lt xs) = mset xs"
  by (induction xs) (auto simp: stable_sort_def)

lemma set_insert_by [simp]: "set (insert_by lt x ys) = insert x (set ys)"
  by (metis mset_insert_by set_mset_add_mset_insert set_mset_mset)

lemma set_stable_sort [simp]: "set (stable_sort lt xs) = set xs"
  by (metis mset_stable_sort set_mset_mset)

lemma length_stable_sort [simp]: "length (stable_sort lt xs) = length xs"
  by (metis mset_stable_sort size_mset)

lemma filter_insert_by:
  "(\<And>a b. P a \<Longrightarrow> P b \<Longrightarrow> \<not> lt a b) \<Longrightarrow>
   filter P (insert_by lt x ys) = (if P x then x # filter P ys else filter P ys)"
  by (induction ys) auto

lemma filter_stable_sort:
  "(\<And>a b. P a \<Longrightarrow> P b \<Longrightarrow> \<not> lt a b) \<Longrightarrow> filter P (stable_sort lt xs) = filter P xs"
  by (induction xs) (simp_all add: stable_sort_def filter_insert_by)

lemma scan_best_None: "scan_best lt None xs = None \<longleftrightarrow> xs = []"
proof -
  have "scan_best lt (Some b) ys \<noteq> None" for b ys
    by (induction ys arbitrary: b) auto
  then show ?thesis by (cases xs) auto
qed

section \<open>Interfaces\<close>

text \<open>
  A strict weak order on the elements a comparison is used on: the contract that the
  selection loop and the sorts rely on.
\<close>

locale strict_weak =
  fixes lt :: "'a \<Rightarrow> 'a \<Rightarrow> bool" and ok :: "'a \<Rightarrow> bool"
  assumes lt_irrefl: "ok x \<Longrightarrow> \<not> lt x x"
    and lt_trans: "ok x \<Longrightarrow> ok y \<Longrightarrow> ok z \<Longrightarrow> lt x y \<Longrightarrow> lt y z \<Longrightarrow> lt x z"
    and lt_neg_trans: "ok x \<Longrightarrow> ok y \<Longrightarrow> ok z \<Longrightarrow> lt x z \<Longrightarrow> lt x y \<or> lt y z"
begin

lemma lt_asym: "ok x \<Longrightarrow> ok y \<Longrightarrow> lt x y \<Longrightarrow> \<not> lt y x"
  using lt_irrefl lt_trans by blast

lemma scan_best_Some:
  assumes "scan_best lt (Some b) xs = Some r" and "ok b" and "\<forall>x \<in> set xs. ok x"
  shows "(r = b \<and> (\<forall>y \<in> set xs. \<not> lt y b)) \<or>
    (\<exists>ys zs. xs = ys @ r # zs \<and> lt r b \<and> (\<forall>y \<in> set ys. lt r y) \<and> (\<forall>z \<in> set zs. \<not> lt z r))"
  using assms
proof (induction xs arbitrary: b)
  case (Cons x xs)
  let ?b = "if lt x b then x else b"
  have IH: "(r = ?b \<and> (\<forall>y \<in> set xs. \<not> lt y ?b)) \<or>
    (\<exists>ys zs. xs = ys @ r # zs \<and> lt r ?b \<and> (\<forall>y \<in> set ys. lt r y) \<and> (\<forall>z \<in> set zs. \<not> lt z r))"
    using Cons.prems by (intro Cons.IH) auto
  from IH show ?case
  proof (elim disjE exE conjE)
    assume h: "r = ?b" "\<forall>y \<in> set xs. \<not> lt y ?b"
    show ?thesis
    proof (cases "lt x b")
      case True
      with h show ?thesis by (intro disjI2 exI [of _ "[]"] exI [of _ xs]) auto
    qed (use h in auto)
  next
    fix ys zs
    assume h: "xs = ys @ r # zs" "lt r ?b" "\<forall>y \<in> set ys. lt r y" "\<forall>z \<in> set zs. \<not> lt z r"
    have ok: "ok r" "ok x" "ok b" using h(1) Cons.prems by auto
    have "lt r b \<and> lt r x"
      using h(2) ok lt_trans [of r x b] lt_neg_trans [of r x b] by (cases "lt x b") auto
    with h show ?thesis by (intro disjI2 exI [of _ "x # ys"] exI [of _ zs]) auto
  qed
qed simp

lemma scan_best_first_minimal:
  assumes "scan_best lt None xs = Some r" and "\<forall>x \<in> set xs. ok x"
  shows "\<exists>ys zs. xs = ys @ r # zs \<and> (\<forall>y \<in> set ys. lt r y) \<and> (\<forall>z \<in> set zs. \<not> lt z r)"
proof (cases xs)
  case (Cons x xs')
  with assms have "scan_best lt (Some x) xs' = Some r" and "ok x" and "\<forall>y \<in> set xs'. ok y"
    by auto
  from scan_best_Some [OF this] Cons show ?thesis
    by (metis append_Cons append_Nil list.set(1) empty_iff set_ConsD)
qed (use assms in simp)

lemma scan_best_minimal:
  assumes "scan_best lt None xs = Some r" and "\<forall>x \<in> set xs. ok x"
  shows "r \<in> set xs \<and> (\<forall>y \<in> set xs. \<not> lt y r)"
proof -
  from scan_best_first_minimal [OF assms] obtain ys zs
    where xs: "xs = ys @ r # zs" and b: "\<forall>y \<in> set ys. lt r y" and a: "\<forall>z \<in> set zs. \<not> lt z r"
    by blast
  have "\<not> lt y r" if "y \<in> set ys" for y
    using that b xs assms(2) lt_asym [of r y] by auto
  with xs a assms(2) lt_irrefl show ?thesis by auto
qed

lemma sorted_insert_by:
  assumes "sorted_wrt (\<lambda>a b. \<not> lt b a) ys" and "ok x" and "\<forall>y \<in> set ys. ok y"
  shows "sorted_wrt (\<lambda>a b. \<not> lt b a) (insert_by lt x ys)"
  using assms
proof (induction ys)
  case (Cons y ys)
  then show ?case
    using lt_asym [of y x] lt_neg_trans [of _ y x] by auto
qed simp

lemma sorted_stable_sort:
  "\<forall>x \<in> set xs. ok x \<Longrightarrow> sorted_wrt (\<lambda>a b. \<not> lt b a) (stable_sort lt xs)"
proof (induction xs)
  case (Cons x xs)
  have "sorted_wrt (\<lambda>a b. \<not> lt b a) (insert_by lt x (stable_sort lt xs))"
    using Cons by (intro sorted_insert_by) auto
  then show ?case by (simp add: stable_sort_def)
qed (simp add: stable_sort_def)

end

text \<open>
  A component driven by events: what one step keeps, every run keeps. The operations of a
  component are the events; a run is any sequence of calls, in any order and with any
  arguments, clock readings included.
\<close>

locale event_system =
  fixes step :: "'s \<Rightarrow> 'e \<Rightarrow> 's" and invar :: "'s \<Rightarrow> bool"
  assumes step_invar: "invar s \<Longrightarrow> invar (step s e)"
begin

lemma run_invar: "invar s \<Longrightarrow> invar (foldl step s es)"
  by (induction es arbitrary: s) (auto intro: step_invar)

end

end
