(* ===== verification/Netip.thy ===== *)
theory Netip
  imports Prelude
begin

text \<open>
  The part of Go's \<open>net/netip\<close> and \<open>net\<close> packages the program calls: addresses,
  address-port pairs and prefixes with their textual forms, the byte-slice addresses
  \<open>net.IP\<close>, and network membership. Addresses are words of their width; \<open>net.IP\<close> is
  an optional byte list, \<open>None\<close> being the nil slice.
\<close>

unbundle bit_operations_syntax

section \<open>Addresses\<close>

datatype addr = InvalidAddr | V4 "32 word" | V6 "128 word" string

record addr_port =
  ap_addr :: addr
  ap_port :: nat

record ip_prefix =
  pfx_addr :: addr
  pfx_bits :: nat

type_synonym byte = "8 word"
type_synonym netIP = "byte list option"

record IPNet =
  net_IP :: "byte list"
  net_Mask :: "byte list"

definition zero_addr_port :: addr_port where
  "zero_addr_port = \<lparr>ap_addr = InvalidAddr, ap_port = 0\<rparr>"

fun addr_valid :: "addr \<Rightarrow> bool" where
  "addr_valid InvalidAddr = False"
| "addr_valid _ = True"

definition addr_port_valid :: "addr_port \<Rightarrow> bool" where
  "addr_port_valid p = addr_valid (ap_addr p)"

fun is4 :: "addr \<Rightarrow> bool" where
  "is4 (V4 _) = True"
| "is4 _ = False"

fun is6 :: "addr \<Rightarrow> bool" where
  "is6 (V6 _ _) = True"
| "is6 _ = False"

fun zone_of :: "addr \<Rightarrow> string" where
  "zone_of (V6 _ z) = z"
| "zone_of _ = []"

fun bit_len :: "addr \<Rightarrow> nat" where
  "bit_len InvalidAddr = 0"
| "bit_len (V4 _) = 32"
| "bit_len (V6 _ _) = 128"

definition is4in6 :: "128 word \<Rightarrow> bool" where
  "is4in6 w \<longleftrightarrow> drop_bit 32 w = 0xffff"

text \<open>\<open>Unmap\<close> turns an IPv4-mapped IPv6 address into the IPv4 address, dropping its zone.\<close>

fun unmap :: "addr \<Rightarrow> addr" where
  "unmap (V6 w z) = (if is4in6 w then V4 (ucast w) else V6 w z)"
| "unmap a = a"

section \<open>Byte slices\<close>

definition word_of_bytes :: "byte list \<Rightarrow> 'a::len word" where
  "word_of_bytes bs = foldl (\<lambda>w b. push_bit 8 w OR ucast b) 0 bs"

definition bytes_of_word :: "nat \<Rightarrow> 'a::len word \<Rightarrow> byte list" where
  "bytes_of_word n w = map (\<lambda>i. ucast (drop_bit (8 * i) w)) (rev [0..<n])"

fun as_slice :: "addr \<Rightarrow> netIP" where
  "as_slice InvalidAddr = None"
| "as_slice (V4 w) = Some (bytes_of_word 4 w)"
| "as_slice (V6 w _) = Some (bytes_of_word 16 w)"

definition addr_from_slice :: "netIP \<Rightarrow> addr option" where
  "addr_from_slice ip =
     (case ip of None \<Rightarrow> None
      | Some bs \<Rightarrow>
          if length bs = 4 then Some (V4 (word_of_bytes bs))
          else if length bs = 16 then Some (V6 (word_of_bytes bs) [])
          else None)"

definition v4_in_v6_prefix :: "byte list" where
  "v4_in_v6_prefix = replicate 10 0 @ [0xff, 0xff]"

text \<open>\<open>net.IP.To4\<close>: the four-byte form, or nil.\<close>

definition to4 :: "byte list \<Rightarrow> byte list option" where
  "to4 bs = (if length bs = 4 then Some bs
             else if length bs = 16 \<and> take 12 bs = v4_in_v6_prefix then Some (drop 12 bs)
             else None)"

definition canon_bytes :: "byte list \<Rightarrow> byte list" where
  "canon_bytes bs = (case to4 bs of Some x \<Rightarrow> x | None \<Rightarrow> bs)"

text \<open>\<open>net.IP.Equal\<close>: an IPv4 address and its IPv4-mapped form are equal.\<close>

definition ip_equal :: "netIP \<Rightarrow> netIP \<Rightarrow> bool" where
  "ip_equal a b =
     (let x = (case a of None \<Rightarrow> [] | Some bs \<Rightarrow> bs); y = (case b of None \<Rightarrow> [] | Some bs \<Rightarrow> bs)
      in if length x = length y then x = y
         else if length x = 4 \<and> length y = 16 then take 12 y = v4_in_v6_prefix \<and> drop 12 y = x
         else if length x = 16 \<and> length y = 4 then take 12 x = v4_in_v6_prefix \<and> drop 12 x = y
         else False)"

section \<open>Printing\<close>

definition hex_digit :: "nat \<Rightarrow> char" where
  "hex_digit d = (if d < 10 then char_of (48 + d) else char_of (87 + d))"

fun hex_text :: "nat \<Rightarrow> string" where
  "hex_text n = (if n < 16 then [hex_digit n] else hex_text (n div 16) @ [hex_digit (n mod 16)])"

declare hex_text.simps [simp del]

definition octets :: "32 word \<Rightarrow> nat list" where
  "octets w = map unat (bytes_of_word 4 w)"

definition join :: "string \<Rightarrow> string list \<Rightarrow> string" where
  "join sep xs = (case xs of [] \<Rightarrow> [] | y # ys \<Rightarrow> y @ concat (map (\<lambda>z. sep @ z) ys))"

definition v4_text :: "32 word \<Rightarrow> string" where
  "v4_text w = join ''.'' (map nat_text (octets w))"

definition hextets :: "128 word \<Rightarrow> nat list" where
  "hextets w = map (\<lambda>i. unat (ucast (drop_bit (16 * i) w) :: 16 word)) (rev [0..<8])"

text \<open>
  The longest run of at least two zero groups, the first one on a tie: its start and end.
  The loop tries every start in order and keeps a strictly longer run.
\<close>

definition zero_run_at :: "nat list \<Rightarrow> nat \<Rightarrow> nat" where
  "zero_run_at gs i = i + length (takeWhile (\<lambda>g. g = 0) (drop i gs))"

definition zero_run :: "nat list \<Rightarrow> (nat \<times> nat) option" where
  "zero_run gs = foldl (\<lambda>best i.
      let j = zero_run_at gs i; l = j - i
      in if 2 \<le> l \<and> (case best of None \<Rightarrow> True | Some (s, e) \<Rightarrow> e - s < l) then Some (i, j) else best)
      None [0..<8]"

definition v6_text :: "128 word \<Rightarrow> string" where
  "v6_text w =
     (let gs = hextets w
      in case zero_run gs of
           None \<Rightarrow> join '':'' (map hex_text gs)
         | Some (s, e) \<Rightarrow>
             join '':'' (map hex_text (take s gs)) @ ''::'' @ join '':'' (map hex_text (drop e gs)))"

definition zone_text :: "string \<Rightarrow> string" where
  "zone_text z = (if z = [] then [] else CHR ''%'' # z)"

fun addr_text :: "addr \<Rightarrow> string" where
  "addr_text InvalidAddr = ''invalid IP''"
| "addr_text (V4 w) = v4_text w"
| "addr_text (V6 w z) =
     (if is4in6 w then ''::ffff:'' @ v4_text (ucast w) @ zone_text z
      else v6_text w @ zone_text z)"

definition addr_port_text :: "addr_port \<Rightarrow> string" where
  "addr_port_text p =
     (case ap_addr p of
        InvalidAddr \<Rightarrow> ''invalid AddrPort''
      | V4 w \<Rightarrow> v4_text w @ '':'' @ nat_text (ap_port p)
      | V6 w z \<Rightarrow> ''['' @ addr_text (V6 w z) @ '']:'' @ nat_text (ap_port p))"

section \<open>Parsing\<close>

text \<open>Splitting at every separator: \<open>strings.Split\<close> for a one-byte separator.\<close>

fun split_on :: "char \<Rightarrow> string \<Rightarrow> string list" where
  "split_on c [] = [[]]"
| "split_on c (x # xs) =
     (if x = c then [] # split_on c xs
      else case split_on c xs of [] \<Rightarrow> [[x]] | p # ps \<Rightarrow> (x # p) # ps)"

text \<open>Cutting at the first and at the last occurrence of a byte.\<close>

definition cut_first :: "char \<Rightarrow> string \<Rightarrow> (string \<times> string) option" where
  "cut_first c s = (if c \<in> set s then Some (takeWhile (\<lambda>x. x \<noteq> c) s, tl (dropWhile (\<lambda>x. x \<noteq> c) s))
                    else None)"

definition cut_last :: "char \<Rightarrow> string \<Rightarrow> (string \<times> string) option" where
  "cut_last c s = (case cut_first c (rev s) of
                     None \<Rightarrow> None
                   | Some (b, a) \<Rightarrow> Some (rev a, rev b))"

definition parse_octet :: "string \<Rightarrow> nat option" where
  "parse_octet s =
     (if s = [] \<or> \<not> list_all is_digit s \<or> (length s > 1 \<and> hd s = CHR ''0'') \<or> digits_value s > 255
      then None else Some (digits_value s))"

definition parse_v4_fields :: "string \<Rightarrow> nat list option" where
  "parse_v4_fields s =
     (let ps = map parse_octet (split_on CHR ''.'' s)
      in if length ps = 4 \<and> None \<notin> set ps then Some (map the ps) else None)"

definition hex_val :: "char \<Rightarrow> nat option" where
  "hex_val c = (if is_digit c then Some (digit_val c)
                else if char_in CHR ''a'' CHR ''f'' c then Some (of_char c - 87)
                else if char_in CHR ''A'' CHR ''F'' c then Some (of_char c - 55)
                else None)"

definition hex_value :: "string \<Rightarrow> nat" where
  "hex_value s = foldl (\<lambda>n c. 16 * n + the (hex_val c)) 0 s"

text \<open>
  The group loop of \<open>parseIPv6\<close>: \<open>bs\<close> are the bytes read so far, \<open>ell\<close> the position
  of the ellipsis, if any. The result is the bytes, the ellipsis and the unread text.
  Every round reads two or four bytes, and the loop stops at sixteen.
\<close>

function v6_groups :: "nat list \<Rightarrow> nat option \<Rightarrow> string \<Rightarrow> (nat list \<times> nat option \<times> string) option" where
  "v6_groups bs ell s =
     (if length bs \<ge> 16 then Some (bs, ell, s)
      else
        let h = takeWhile (\<lambda>c. hex_val c \<noteq> None) s; r = drop (length h) s
        in if h = [] \<or> length h > 4 then None
           else if r \<noteq> [] \<and> hd r = CHR ''.'' then
             (if (ell = None \<and> length bs \<noteq> 12) \<or> length bs + 4 > 16 then None
              else case parse_v4_fields s of None \<Rightarrow> None | Some fs \<Rightarrow> Some (bs @ fs, ell, []))
           else
             let bs' = bs @ [hex_value h div 256, hex_value h mod 256]
             in if r = [] then Some (bs', ell, [])
                else if hd r \<noteq> CHR '':'' \<or> length r = 1 then None
                else let s' = tl r
                     in if hd s' = CHR '':'' then
                          (if ell \<noteq> None then None
                           else if tl s' = [] then Some (bs', Some (length bs'), [])
                           else v6_groups bs' (Some (length bs')) (tl s'))
                        else v6_groups bs' ell s')"
  by pat_completeness auto
termination
  by (relation "measure (\<lambda>(bs, ell, s). 16 - length bs)") auto

declare v6_groups.simps [simp del]

definition parse_v6 :: "string \<Rightarrow> addr option" where
  "parse_v6 inp =
     (let (s, zone, zok) = (case cut_first CHR ''%'' inp of
             None \<Rightarrow> (inp, [], True) | Some (a, z) \<Rightarrow> (a, z, z \<noteq> []));
          lead = (length s \<ge> 2 \<and> take 2 s = ''::'');
          ell = (if lead then Some 0 else None);
          s1 = (if lead then drop 2 s else s)
      in if \<not> zok then None
         else if lead \<and> s1 = [] then Some (V6 0 zone)
         else case v6_groups [] ell s1 of
                None \<Rightarrow> None
              | Some (bs, ell', rest) \<Rightarrow>
                  if rest \<noteq> [] then None
                  else if length bs < 16 then
                    (case ell' of None \<Rightarrow> None
                     | Some e \<Rightarrow> Some (V6 (word_of_bytes (map of_nat
                          (take e bs @ replicate (16 - length bs) 0 @ drop e bs))) zone))
                  else if ell' \<noteq> None then None
                  else Some (V6 (word_of_bytes (map of_nat bs)) zone))"

text \<open>\<open>netip.ParseAddr\<close>: the first of \<open>.\<close>, \<open>:\<close> and \<open>%\<close> decides the family.\<close>

definition ParseAddr :: "string \<Rightarrow> addr option" where
  "ParseAddr s =
     (case dropWhile (\<lambda>c. c \<notin> set ''.:%'') s of
        [] \<Rightarrow> None
      | c # _ \<Rightarrow>
          if c = CHR ''.'' then
            map_option (\<lambda>fs. V4 (word_of_bytes (map of_nat fs))) (parse_v4_fields s)
          else if c = CHR '':'' then parse_v6 s
          else None)"

definition parse_port :: "string \<Rightarrow> nat option" where
  "parse_port s = (if s = [] \<or> \<not> list_all is_digit s \<or> digits_value s > 65535 then None
                   else Some (digits_value s))"

definition ParseAddrPort :: "string \<Rightarrow> addr_port option" where
  "ParseAddrPort s =
     (case cut_last CHR '':'' s of
        None \<Rightarrow> None
      | Some (ip, port) \<Rightarrow>
          if ip = [] \<or> port = [] then None
          else
            let v6 = (hd ip = CHR ''['')
            in if v6 \<and> (length ip < 2 \<or> last ip \<noteq> CHR '']'') then None
               else let host = (if v6 then butlast (tl ip) else ip)
                    in case (parse_port port, ParseAddr host) of
                         (Some n, Some a) \<Rightarrow>
                           if (v6 \<and> is4 a) \<or> (\<not> v6 \<and> is6 a) then None
                           else Some \<lparr>ap_addr = a, ap_port = n\<rparr>
                       | _ \<Rightarrow> None)"

definition ParsePrefix :: "string \<Rightarrow> ip_prefix option" where
  "ParsePrefix s =
     (case cut_last CHR ''/'' s of
        None \<Rightarrow> None
      | Some (ip, bits) \<Rightarrow>
          (case ParseAddr ip of
             None \<Rightarrow> None
           | Some a \<Rightarrow>
               if zone_of a \<noteq> [] then None
               else if length bits > 1 \<and> \<not> char_in CHR ''1'' CHR ''9'' (hd bits) then None
               else (case Atoi bits of
                       None \<Rightarrow> None
                     | Some n \<Rightarrow> if n < 0 \<or> n > int (bit_len a) then None
                                 else Some \<lparr>pfx_addr = a, pfx_bits = nat n\<rparr>)))"

section \<open>Prefixes and networks\<close>

definition prefix_mask :: "nat \<Rightarrow> 'a::len word \<Rightarrow> nat \<Rightarrow> 'a word" where
  "prefix_mask len w n = push_bit (len - n) (drop_bit (len - n) w)"

text \<open>\<open>Prefix.Masked\<close> clears the host bits.\<close>

definition masked :: "ip_prefix \<Rightarrow> ip_prefix" where
  "masked p =
     (case pfx_addr p of
        InvalidAddr \<Rightarrow> p
      | V4 w \<Rightarrow> p\<lparr>pfx_addr := V4 (prefix_mask 32 w (pfx_bits p))\<rparr>
      | V6 w z \<Rightarrow> p\<lparr>pfx_addr := V6 (prefix_mask 128 w (pfx_bits p)) []\<rparr>)"

definition prefix_text :: "ip_prefix \<Rightarrow> string" where
  "prefix_text p = addr_text (pfx_addr p) @ ''/'' @ nat_text (pfx_bits p)"

definition prefix_contains :: "ip_prefix \<Rightarrow> addr \<Rightarrow> bool" where
  "prefix_contains p a \<longleftrightarrow>
     (case (pfx_addr p, a) of
        (V4 v, V4 w) \<Rightarrow> drop_bit (32 - pfx_bits p) v = drop_bit (32 - pfx_bits p) w
      | (V6 v _, V6 w z) \<Rightarrow> z = [] \<and> drop_bit (128 - pfx_bits p) v = drop_bit (128 - pfx_bits p) w
      | _ \<Rightarrow> False)"

text \<open>\<open>net.CIDRMask(ones, bits)\<close> as bytes, and \<open>net.ParseCIDR\<close>.\<close>

definition mask_byte :: "nat \<Rightarrow> byte" where
  "mask_byte n = (if n \<ge> 8 then 255 else push_bit (8 - n) (mask n))"

definition cidr_mask :: "nat \<Rightarrow> nat \<Rightarrow> byte list" where
  "cidr_mask ones bits = map (\<lambda>i. mask_byte (ones - 8 * i)) [0..<bits div 8]"

definition mask_bytes :: "byte list \<Rightarrow> byte list \<Rightarrow> byte list" where
  "mask_bytes bs m = map2 (AND) bs m"

text \<open>
  The network of a parsed CIDR: an IPv4 address keeps its four bytes; an IPv6 address is
  masked with a sixteen-byte mask.
\<close>

definition ParseCIDR :: "string \<Rightarrow> IPNet option" where
  "ParseCIDR s =
     (case cut_first CHR ''/'' s of
        None \<Rightarrow> None
      | Some (ip, m) \<Rightarrow>
          (case ParseAddr ip of
             None \<Rightarrow> None
           | Some a \<Rightarrow>
               if zone_of a \<noteq> [] \<or> m = [] \<or> \<not> list_all is_digit m \<or> digits_value m > bit_len a then None
               else
                 let mk = cidr_mask (digits_value m) (bit_len a); bs = the (as_slice a)
                 in Some \<lparr>net_IP = mask_bytes bs mk, net_Mask = mk\<rparr>))"

text \<open>
  \<open>networkNumberAndMask\<close>: a sixteen-byte network that is IPv4-mapped is compared in its
  four-byte form with the last four bytes of its mask.
\<close>

definition net_number_mask :: "IPNet \<Rightarrow> byte list \<times> byte list" where
  "net_number_mask n =
     (case to4 (net_IP n) of
        Some ip \<Rightarrow> (ip, if length (net_Mask n) = 16 then drop 12 (net_Mask n) else net_Mask n)
      | None \<Rightarrow> (net_IP n, net_Mask n))"

definition net_contains :: "IPNet \<Rightarrow> netIP \<Rightarrow> bool" where
  "net_contains n ip =
     (let (nn, m) = net_number_mask n;
          x = canon_bytes (case ip of None \<Rightarrow> [] | Some bs \<Rightarrow> bs)
      in length x = length nn \<and> mask_bytes nn m = mask_bytes x m)"

text \<open>\<open>net.IP.String\<close>: the four-byte form is printed dotted, nil as \<open><nil>\<close>.\<close>

definition net_ip_text :: "netIP \<Rightarrow> string" where
  "net_ip_text ip =
     (case ip of
        None \<Rightarrow> ''<nil>''
      | Some bs \<Rightarrow>
          if bs = [] then ''<nil>''
          else (case to4 bs of
                  Some x \<Rightarrow> v4_text (word_of_bytes x)
                | None \<Rightarrow> if length bs = 16 then v6_text (word_of_bytes bs)
                          else CHR ''?'' # concat (map (\<lambda>b. [hex_digit (unat b div 16), hex_digit (unat b mod 16)]) bs)))"

lemma ip_equal_refl [simp]: "ip_equal ip ip"
  by (simp add: ip_equal_def)

lemma ip_equal_sym: "ip_equal a b = ip_equal b a"
  by (auto simp: ip_equal_def Let_def)

end
