(* ===== verification/Flow.thy ===== *)
theory Flow
  imports Netip
begin

text \<open>
  Package \<open>internal/flow\<close>: the data of a Flow (\<open>model.go\<close>), its identifier
  (\<open>id.go\<close>), the observer interface and its fan-out (\<open>observer.go\<close>), and the
  lifecycle and in-memory registry (\<open>lifecycle.go\<close>).

  Observer calls are values of \<open>obs_call\<close>; an operation of the lifecycle returns the
  calls it makes, in order. The callbacks a registry entry holds are functions on a world
  state \<open>'w\<close>, since the code calls them after it has released the registry lock. A nil
  registry pointer is \<open>None\<close>.
\<close>

section \<open>Data\<close>

record Meta =
  meta_ID :: string
  meta_Protocol :: string
  meta_ClientAddr :: addr_port
  meta_Listener :: string
  meta_Route :: string
  meta_Upstream :: string
  meta_StartedAt :: time

record BackendTuple =
  bt_Protocol :: string
  bt_BackendKey :: string
  bt_LocalAddr :: addr_port
  bt_RemoteAddr :: addr_port

record Counters =
  ctr_LastActivity :: time
  ctr_BytesUp :: uint64
  ctr_BytesDown :: uint64
  ctr_SegmentsUp :: uint64
  ctr_SegmentsDown :: uint64

record Summary =
  sum_Meta :: Meta
  sum_EndedAt :: time
  sum_LastActivity :: time
  sum_BytesUp :: uint64
  sum_BytesDown :: uint64
  sum_CloseReason :: string

record Rejection =
  rej_Protocol :: string
  rej_ClientAddr :: addr_port
  rej_Listener :: string
  rej_Reason :: string
  rej_MatchedRuleType :: string
  rej_MatchedRuleValue :: string
  rej_RecordedAt :: time

definition ProtocolTCP :: string where "ProtocolTCP = ''tcp''"
definition ProtocolUDP :: string where "ProtocolUDP = ''udp''"

definition zero_counters :: Counters where
  "zero_counters = \<lparr>ctr_LastActivity = 0, ctr_BytesUp = 0, ctr_BytesDown = 0,
     ctr_SegmentsUp = 0, ctr_SegmentsDown = 0\<rparr>"

section \<open>Identifiers\<close>

definition b64_alphabet :: string where
  "b64_alphabet = ''ABCDEFGHIJKLMNOPQRSTUVWXYZabcdefghijklmnopqrstuvwxyz0123456789-_''"

definition b64_char :: "nat \<Rightarrow> char" where
  "b64_char n = b64_alphabet ! n"

text \<open>\<open>base64.RawURLEncoding\<close>: three bytes give four characters, no padding.\<close>

fun b64_raw_url :: "nat list \<Rightarrow> string" where
  "b64_raw_url [] = []"
| "b64_raw_url [a] = [b64_char (a div 4), b64_char ((a mod 4) * 16)]"
| "b64_raw_url [a, b] =
     [b64_char (a div 4), b64_char ((a mod 4) * 16 + b div 16), b64_char ((b mod 16) * 4)]"
| "b64_raw_url (a # b # c # xs) =
     b64_char (a div 4) # b64_char ((a mod 4) * 16 + b div 16) #
     b64_char ((b mod 16) * 4 + c div 64) # b64_char (c mod 64) # b64_raw_url xs"

definition idEntropyBytes :: nat where
  "idEntropyBytes = 16"

text \<open>
  \<open>NewID\<close> on the result of \<open>rand.Read\<close>: \<open>None\<close> is a read error, \<open>Some\<close> the
  sixteen bytes read.
\<close>

definition NewID :: "byte list option \<Rightarrow> string option" where
  "NewID rnd = (case rnd of None \<Rightarrow> None
                | Some raw \<Rightarrow> Some (''f_'' @ b64_raw_url (map unat raw)))"

section \<open>Observers\<close>

datatype obs_call =
    ObsOpen Meta
  | ObsUpdate string Counters
  | ObsClose Summary
  | ObsReject Rejection

text \<open>
  \<open>MultiObserver\<close>: every non-nil observer of the slice receives the call, in order.
  An observer is its step on its own state.
\<close>

definition MultiObserver_call ::
    "('s \<Rightarrow> obs_call \<Rightarrow> 's) option list \<Rightarrow> 's list \<Rightarrow> obs_call \<Rightarrow> 's list" where
  "MultiObserver_call obs ss c =
     map2 (\<lambda>ob s. case ob of None \<Rightarrow> s | Some f \<Rightarrow> f s c) obs ss"

section \<open>The registry of live Flows\<close>

record 'w Controls =
  ctl_Block :: "('w \<Rightarrow> bool \<times> 'w) option"
  ctl_SetLimit :: "(uint64 \<Rightarrow> 'w \<Rightarrow> bool \<times> 'w) option"
  ctl_ClearLimit :: "('w \<Rightarrow> bool \<times> 'w) option"

record 'w registryEntry =
  re_meta :: Meta
  re_closeFn :: "('w \<Rightarrow> 'w) option"
  re_controls :: "'w Controls"

type_synonym 'w FlowRegistry = "(string, 'w registryEntry) gomap"

definition no_controls :: "'w Controls" where
  "no_controls = \<lparr>ctl_Block = None, ctl_SetLimit = None, ctl_ClearLimit = None\<rparr>"

definition NewFlowRegistry :: "'w FlowRegistry" where
  "NewFlowRegistry = []"

definition Register :: "'w FlowRegistry option \<Rightarrow> Meta \<Rightarrow> ('w \<Rightarrow> 'w) option \<Rightarrow> 'w FlowRegistry option" where
  "Register r meta closeFn =
     (case r of None \<Rightarrow> None
      | Some es \<Rightarrow>
          if meta_ID meta = [] then Some es
          else Some (gput (meta_ID meta)
                 \<lparr>re_meta = meta, re_closeFn = closeFn, re_controls = no_controls\<rparr> es))"

definition Unregister :: "'w FlowRegistry option \<Rightarrow> string \<Rightarrow> 'w FlowRegistry option" where
  "Unregister r fid = map_option (gdel fid) r"

definition SetControls :: "'w FlowRegistry option \<Rightarrow> string \<Rightarrow> 'w Controls \<Rightarrow> bool \<times> 'w FlowRegistry option" where
  "SetControls r fid controls =
     (case r of None \<Rightarrow> (False, None)
      | Some es \<Rightarrow>
          if fid = [] then (False, Some es)
          else (case gget es fid of
                  None \<Rightarrow> (False, Some es)
                | Some entry \<Rightarrow> (True, Some (gput fid (entry\<lparr>re_controls := controls\<rparr>) es))))"

definition withControl ::
    "'w FlowRegistry option \<Rightarrow> string \<Rightarrow> ('w Controls \<Rightarrow> ('w \<Rightarrow> bool \<times> 'w) option) \<Rightarrow> 'w \<Rightarrow> bool \<times> 'w" where
  "withControl r fid pick w =
     (case r of None \<Rightarrow> (False, w)
      | Some es \<Rightarrow>
          if fid = [] then (False, w)
          else (case Option.bind (gget es fid) (\<lambda>entry. pick (re_controls entry)) of
                  None \<Rightarrow> (False, w)
                | Some callback \<Rightarrow> callback w))"

definition Registry_Block :: "'w FlowRegistry option \<Rightarrow> string \<Rightarrow> 'w \<Rightarrow> bool \<times> 'w" where
  "Registry_Block r fid w = withControl r fid ctl_Block w"

definition Registry_SetLimit :: "'w FlowRegistry option \<Rightarrow> string \<Rightarrow> uint64 \<Rightarrow> 'w \<Rightarrow> bool \<times> 'w" where
  "Registry_SetLimit r fid rateBPS w =
     withControl r fid (\<lambda>c. map_option (\<lambda>f. f rateBPS) (ctl_SetLimit c)) w"

definition Registry_ClearLimit :: "'w FlowRegistry option \<Rightarrow> string \<Rightarrow> 'w \<Rightarrow> bool \<times> 'w" where
  "Registry_ClearLimit r fid w = withControl r fid ctl_ClearLimit w"

text \<open>The closers are collected under the lock and called after it is released.\<close>

definition matching_closers :: "'w FlowRegistry \<Rightarrow> ('w registryEntry \<Rightarrow> bool) \<Rightarrow> ('w \<Rightarrow> 'w) list" where
  "matching_closers es match =
     List.map_filter (\<lambda>(fid, entry). if match entry then re_closeFn entry else None) es"

definition closeMatching :: "'w FlowRegistry \<Rightarrow> ('w registryEntry \<Rightarrow> bool) \<Rightarrow> 'w \<Rightarrow> 'w" where
  "closeMatching es match w = foldl (\<lambda>w closeFn. closeFn w) w (matching_closers es match)"

definition CloseByUpstream :: "'w FlowRegistry option \<Rightarrow> string \<Rightarrow> 'w \<Rightarrow> 'w" where
  "CloseByUpstream r upstream w =
     (case r of None \<Rightarrow> w
      | Some es \<Rightarrow> closeMatching es (\<lambda>entry. meta_Upstream (re_meta entry) = upstream) w)"

definition CloseAll :: "'w FlowRegistry option \<Rightarrow> 'w \<Rightarrow> 'w" where
  "CloseAll r w = (case r of None \<Rightarrow> w | Some es \<Rightarrow> closeMatching es (\<lambda>_. True) w)"

section \<open>The lifecycle\<close>

record 'w Lifecycle =
  lc_meta :: Meta
  lc_observer :: bool
  lc_closeFn :: "('w \<Rightarrow> 'w) option"
  lc_opened :: bool
  lc_closed :: bool
  lc_counter :: Counters

text \<open>
  A nil observer becomes \<open>NopObserver\<close>, whose calls have no effect: \<open>lc_observer\<close> says
  whether a real observer is attached.
\<close>

definition NewLifecycle :: "time \<Rightarrow> Meta \<Rightarrow> bool \<Rightarrow> ('w \<Rightarrow> 'w) option \<Rightarrow> 'w Lifecycle" where
  "NewLifecycle now meta observer closeFn =
     \<lparr>lc_meta = (if is_zero_time (meta_StartedAt meta) then meta\<lparr>meta_StartedAt := now\<rparr> else meta),
      lc_observer = observer, lc_closeFn = closeFn,
      lc_opened = False, lc_closed = False, lc_counter = zero_counters\<rparr>"

definition observe :: "'w Lifecycle \<Rightarrow> obs_call \<Rightarrow> obs_call list" where
  "observe l c = (if lc_observer l then [c] else [])"

type_synonym 'w lifecycle_state = "'w Lifecycle \<times> 'w FlowRegistry option \<times> obs_call list"

definition Lifecycle_Open :: "'w lifecycle_state \<Rightarrow> 'w lifecycle_state" where
  "Lifecycle_Open st =
     (case st of (l, r, calls) \<Rightarrow>
        if lc_opened l \<or> lc_closed l then (l, r, calls)
        else (l\<lparr>lc_opened := True\<rparr>, Register r (lc_meta l) (lc_closeFn l),
              calls @ observe l (ObsOpen (lc_meta l))))"

definition Lifecycle_AddAt ::
    "time \<Rightarrow> uint64 \<Rightarrow> uint64 \<Rightarrow> uint64 \<Rightarrow> uint64 \<Rightarrow> 'w lifecycle_state \<Rightarrow> 'w lifecycle_state" where
  "Lifecycle_AddAt now bytesUp bytesDown segmentsUp segmentsDown st =
     (case st of (l, r, calls) \<Rightarrow>
        if \<not> lc_opened l \<or> lc_closed l then (l, r, calls)
        else
          let c = \<lparr>ctr_LastActivity = now,
                   ctr_BytesUp = ctr_BytesUp (lc_counter l) + bytesUp,
                   ctr_BytesDown = ctr_BytesDown (lc_counter l) + bytesDown,
                   ctr_SegmentsUp = ctr_SegmentsUp (lc_counter l) + segmentsUp,
                   ctr_SegmentsDown = ctr_SegmentsDown (lc_counter l) + segmentsDown\<rparr>
          in (l\<lparr>lc_counter := c\<rparr>, r, calls @ observe l (ObsUpdate (meta_ID (lc_meta l)) c)))"

definition Lifecycle_Snapshot :: "'w Lifecycle \<Rightarrow> Counters" where
  "Lifecycle_Snapshot l = lc_counter l"

definition Lifecycle_Close :: "time \<Rightarrow> string \<Rightarrow> 'w lifecycle_state \<Rightarrow> 'w lifecycle_state" where
  "Lifecycle_Close now reason st =
     (case st of (l, r, calls) \<Rightarrow>
        if lc_closed l then (l, r, calls)
        else
          let last = ctr_LastActivity (lc_counter l);
              lastActivity = (if is_zero_time last then meta_StartedAt (lc_meta l) else last)
          in (l\<lparr>lc_closed := True\<rparr>, Unregister r (meta_ID (lc_meta l)),
              calls @ observe l (ObsClose
                \<lparr>sum_Meta = lc_meta l, sum_EndedAt = now, sum_LastActivity = lastActivity,
                 sum_BytesUp = ctr_BytesUp (lc_counter l),
                 sum_BytesDown = ctr_BytesDown (lc_counter l), sum_CloseReason = reason\<rparr>)))"

text \<open>The calls a Flow can receive, in any order.\<close>

datatype lifecycle_op =
    OpOpen
  | OpAddAt time uint64 uint64 uint64 uint64
  | OpClose time string

fun lifecycle_step :: "'w lifecycle_state \<Rightarrow> lifecycle_op \<Rightarrow> 'w lifecycle_state" where
  "lifecycle_step st OpOpen = Lifecycle_Open st"
| "lifecycle_step st (OpAddAt now bu bd su sd) = Lifecycle_AddAt now bu bd su sd st"
| "lifecycle_step st (OpClose now reason) = Lifecycle_Close now reason st"

section \<open>Specification of a Flow's calls\<close>

text \<open>
  What the observers of a Flow see: at most one open, then cumulative updates, then at
  most one close. The specification reads the operations only: an update is made for
  every addition between the first open and the first close, and the byte totals are the
  sums of the additions.
\<close>

fun is_close :: "obs_call \<Rightarrow> bool" where
  "is_close (ObsClose _) = True"
| "is_close _ = False"

fun is_open :: "obs_call \<Rightarrow> bool" where
  "is_open (ObsOpen _) = True"
| "is_open _ = False"

fun is_update :: "obs_call \<Rightarrow> bool" where
  "is_update (ObsUpdate _ _) = True"
| "is_update _ = False"

definition calls_well_formed :: "obs_call list \<Rightarrow> bool" where
  "calls_well_formed calls \<longleftrightarrow>
     (\<exists>opens updates closes. calls = opens @ updates @ closes \<and>
        length opens \<le> 1 \<and> list_all is_open opens \<and>
        list_all is_update updates \<and> (updates \<noteq> [] \<longrightarrow> opens \<noteq> []) \<and>
        length closes \<le> 1 \<and> list_all is_close closes)"

fun added_up :: "lifecycle_op list \<Rightarrow> uint64" where
  "added_up [] = 0"
| "added_up (OpAddAt _ bu _ _ _ # ops) = bu + added_up ops"
| "added_up (_ # ops) = added_up ops"

fun added_down :: "lifecycle_op list \<Rightarrow> uint64" where
  "added_down [] = 0"
| "added_down (OpAddAt _ _ bd _ _ # ops) = bd + added_down ops"
| "added_down (_ # ops) = added_down ops"

fun is_add :: "lifecycle_op \<Rightarrow> bool" where
  "is_add (OpAddAt _ _ _ _ _) = True"
| "is_add _ = False"

section \<open>Lemmas on the lifecycle\<close>

lemmas lifecycle_defs =
  Lifecycle_Open_def Lifecycle_AddAt_def Lifecycle_Close_def observe_def

lemma NewLifecycle_simps [simp]:
  "lc_observer (NewLifecycle now meta ob cf) = ob"
  "lc_closeFn (NewLifecycle now meta ob cf) = cf"
  "\<not> lc_opened (NewLifecycle now meta ob cf)"
  "\<not> lc_closed (NewLifecycle now meta ob cf)"
  "lc_counter (NewLifecycle now meta ob cf) = zero_counters"
  "meta_ID (lc_meta (NewLifecycle now meta ob cf)) = meta_ID meta"
  by (simp_all add: NewLifecycle_def)

definition open_calls :: "'w Lifecycle \<Rightarrow> obs_call list" where
  "open_calls l = (if lc_opened l \<and> lc_observer l then [ObsOpen (lc_meta l)] else [])"

definition lifecycle_inv :: "'w lifecycle_state \<Rightarrow> bool" where
  "lifecycle_inv st \<longleftrightarrow>
     (case st of (l, r, calls) \<Rightarrow>
        (\<exists>updates closes. calls = open_calls l @ updates @ closes \<and>
           list_all is_update updates \<and> (updates \<noteq> [] \<longrightarrow> open_calls l \<noteq> []) \<and>
           length closes \<le> 1 \<and> list_all is_close closes \<and> (closes \<noteq> [] \<longrightarrow> lc_closed l)))"

lemma lifecycle_invI:
  "calls = open_calls l @ updates @ closes \<Longrightarrow> list_all is_update updates \<Longrightarrow>
   (updates \<noteq> [] \<longrightarrow> open_calls l \<noteq> []) \<Longrightarrow> length closes \<le> 1 \<Longrightarrow> list_all is_close closes \<Longrightarrow>
   (closes \<noteq> [] \<longrightarrow> lc_closed l) \<Longrightarrow> lifecycle_inv (l, r, calls)"
  unfolding lifecycle_inv_def by auto

lemma lifecycle_inv_new: "lifecycle_inv (NewLifecycle now meta ob cf, r, [])"
  by (rule lifecycle_invI [of _ _ "[]" "[]"]) (auto simp: NewLifecycle_def open_calls_def)

lemma lifecycle_inv_open: "lifecycle_inv (l, r, calls) \<Longrightarrow> lifecycle_inv (Lifecycle_Open (l, r, calls))"
proof (cases "lc_opened l \<or> lc_closed l")
  case False
  assume "lifecycle_inv (l, r, calls)"
  with False have "calls = []" by (auto simp: lifecycle_inv_def open_calls_def)
  with False show ?thesis
    by (auto simp: Lifecycle_Open_def observe_def open_calls_def
        intro!: lifecycle_invI [of _ _ "[]" "[]"])
qed (auto simp: Lifecycle_Open_def)

lemma lifecycle_inv_add:
  "lifecycle_inv (l, r, calls) \<Longrightarrow> lifecycle_inv (Lifecycle_AddAt now bu bd su sd (l, r, calls))"
proof (cases "\<not> lc_opened l \<or> lc_closed l")
  case False
  assume "lifecycle_inv (l, r, calls)"
  then obtain updates closes where c: "calls = open_calls l @ updates @ closes"
    and w: "list_all is_update updates" "updates \<noteq> [] \<longrightarrow> open_calls l \<noteq> []"
      "closes \<noteq> [] \<longrightarrow> lc_closed l"
    by (auto simp: lifecycle_inv_def)
  with False have "closes = []" by auto
  show ?thesis
  proof (cases "lc_observer l")
    case True
    with False c w \<open>closes = []\<close> show ?thesis
      by (auto simp: Lifecycle_AddAt_def Let_def observe_def open_calls_def
          intro!: lifecycle_invI [of _ _ "updates @ [_]" "[]"])
  next
    case unobserved: False
    with False c w \<open>closes = []\<close> show ?thesis
      by (auto simp: Lifecycle_AddAt_def Let_def observe_def open_calls_def
          intro!: lifecycle_invI [of _ _ "[]" "[]"])
  qed
qed (auto simp: Lifecycle_AddAt_def)

lemma lifecycle_inv_close:
  "lifecycle_inv (l, r, calls) \<Longrightarrow> lifecycle_inv (Lifecycle_Close now reason (l, r, calls))"
proof (cases "lc_closed l")
  case False
  assume "lifecycle_inv (l, r, calls)"
  then obtain updates closes where c: "calls = open_calls l @ updates @ closes"
    and w: "list_all is_update updates" "updates \<noteq> [] \<longrightarrow> open_calls l \<noteq> []"
      "closes \<noteq> [] \<longrightarrow> lc_closed l"
    by (auto simp: lifecycle_inv_def)
  with False have closes: "closes = []" by auto
  let ?st = "Lifecycle_Close now reason (l, r, calls)"
  have shape: "?st = (l\<lparr>lc_closed := True\<rparr>, fst (snd ?st), calls @ drop (length calls) (snd (snd ?st)))"
    "length (drop (length calls) (snd (snd ?st))) \<le> 1"
    "list_all is_close (drop (length calls) (snd (snd ?st)))"
    using False by (auto simp: Lifecycle_Close_def Let_def observe_def)
  show ?thesis
    by (subst shape(1), rule lifecycle_invI [of _ _ updates "drop (length calls) (snd (snd ?st))"])
      (use c w closes shape(2,3) in \<open>auto simp: open_calls_def\<close>)
qed (auto simp: Lifecycle_Close_def)

lemma lifecycle_inv_step: "lifecycle_inv st \<Longrightarrow> lifecycle_inv (lifecycle_step st e)"
  by (cases st; cases e) (simp_all add: lifecycle_inv_open lifecycle_inv_add lifecycle_inv_close)

interpretation lifecycle_calls: event_system lifecycle_step lifecycle_inv
  by unfold_locales (rule lifecycle_inv_step)

lemma lifecycle_inv_well_formed: "lifecycle_inv (l, r, calls) \<Longrightarrow> calls_well_formed calls"
proof -
  assume "lifecycle_inv (l, r, calls)"
  then obtain updates closes where "calls = open_calls l @ updates @ closes"
    and "list_all is_update updates" "updates \<noteq> [] \<longrightarrow> open_calls l \<noteq> []"
      "length closes \<le> 1" "list_all is_close closes"
    by (auto simp: lifecycle_inv_def)
  moreover have "length (open_calls l) \<le> 1" "list_all is_open (open_calls l)"
    by (auto simp: open_calls_def)
  ultimately show ?thesis unfolding calls_well_formed_def by blast
qed

text \<open>What the operations leave unchanged, and what a run of additions accumulates.\<close>

lemma step_frame:
  "lifecycle_step (l, r, calls) e = (l', r', calls') \<Longrightarrow>
     lc_meta l' = lc_meta l \<and> lc_observer l' = lc_observer l \<and> lc_closeFn l' = lc_closeFn l \<and>
     (lc_opened l \<longrightarrow> lc_opened l') \<and> (lc_closed l \<longrightarrow> lc_closed l') \<and>
     (\<exists>new. calls' = calls @ new)"
  by (cases e) (auto simp: lifecycle_defs Let_def split: if_splits)

lemma closed_absorbs: "lc_closed l \<Longrightarrow> foldl lifecycle_step (l, r, calls) ops = (l, r, calls)"
proof (induction ops)
  case (Cons e ops)
  then have "lifecycle_step (l, r, calls) e = (l, r, calls)"
    by (cases e) (auto simp: lifecycle_defs)
  with Cons show ?case by simp
qed simp

lemma unopened_adds: "\<not> lc_opened l \<Longrightarrow> list_all is_add ops \<Longrightarrow>
  foldl lifecycle_step (l, r, calls) ops = (l, r, calls)"
proof (induction ops)
  case (Cons e ops)
  then have "lifecycle_step (l, r, calls) e = (l, r, calls)"
    by (cases e) (auto simp: lifecycle_defs)
  with Cons show ?case by simp
qed simp

lemma open_run:
  assumes "lc_opened l" and "\<not> lc_closed l" and "list_all (\<lambda>e. \<forall>t why. e \<noteq> OpClose t why) ops"
  shows "\<exists>c ups. foldl lifecycle_step (l, r, calls) ops = (l\<lparr>lc_counter := c\<rparr>, r, calls @ ups) \<and>
    list_all is_update ups \<and>
    ctr_BytesUp c = ctr_BytesUp (lc_counter l) + added_up ops \<and>
    ctr_BytesDown c = ctr_BytesDown (lc_counter l) + added_down ops"
  using assms
proof (induction ops arbitrary: l calls)
  case Nil
  then show ?case by (auto intro!: exI [of _ "lc_counter l"] exI [of _ "[]"])
next
  case (Cons e ops)
  show ?case
  proof (cases e)
    case OpOpen
    with Cons show ?thesis by (simp add: Lifecycle_Open_def)
  next
    case (OpAddAt now bu bd su sd)
    let ?c = "\<lparr>ctr_LastActivity = now,
       ctr_BytesUp = ctr_BytesUp (lc_counter l) + bu,
       ctr_BytesDown = ctr_BytesDown (lc_counter l) + bd,
       ctr_SegmentsUp = ctr_SegmentsUp (lc_counter l) + su,
       ctr_SegmentsDown = ctr_SegmentsDown (lc_counter l) + sd\<rparr>"
    let ?new = "observe l (ObsUpdate (meta_ID (lc_meta l)) ?c)"
    have step: "lifecycle_step (l, r, calls) e = (l\<lparr>lc_counter := ?c\<rparr>, r, calls @ ?new)"
      using Cons.prems OpAddAt by (simp add: Lifecycle_AddAt_def Let_def)
    obtain c ups where
      run: "foldl lifecycle_step (l\<lparr>lc_counter := ?c\<rparr>, r, calls @ ?new) ops =
          (l\<lparr>lc_counter := ?c, lc_counter := c\<rparr>, r, (calls @ ?new) @ ups)"
      and ups: "list_all is_update ups"
      and up: "ctr_BytesUp c = ctr_BytesUp ?c + added_up ops"
      and down: "ctr_BytesDown c = ctr_BytesDown ?c + added_down ops"
      using Cons.IH [of "l\<lparr>lc_counter := ?c\<rparr>" "calls @ ?new"] Cons.prems by auto
    show ?thesis
      using step run ups up down OpAddAt
      by (intro exI [of _ c] exI [of _ "?new @ ups"])
        (auto simp: observe_def algebra_simps)
  next
    case (OpClose t why)
    with Cons.prems show ?thesis by simp
  qed
qed

lemma filter_close_updates [simp]: "list_all is_update ups \<Longrightarrow> filter is_close ups = []"
  by (induction ups) (auto elim: is_update.elims)

text \<open>The registration of a Flow follows its life.\<close>

definition registered_inv :: "string \<Rightarrow> 'w FlowRegistry \<Rightarrow> 'w lifecycle_state \<Rightarrow> bool" where
  "registered_inv fid es0 st \<longleftrightarrow>
     (case st of (l, r, calls) \<Rightarrow> meta_ID (lc_meta l) = fid \<and>
        (\<exists>es. r = Some es \<and> (gget es fid \<noteq> None \<longleftrightarrow> lc_opened l \<and> \<not> lc_closed l) \<and>
           (\<forall>k. k \<noteq> fid \<longrightarrow> gget es k = gget es0 k)))"

lemma registered_inv_step:
  "fid \<noteq> [] \<Longrightarrow> registered_inv fid es0 st \<Longrightarrow> registered_inv fid es0 (lifecycle_step st e)"
  by (cases st; cases e)
    (auto simp: registered_inv_def lifecycle_defs Let_def Register_def Unregister_def)

section \<open>Lemmas on identifiers\<close>

lemma b64_alphabet_facts: "length b64_alphabet = 64" "distinct b64_alphabet"
  by (simp_all add: b64_alphabet_def)

lemma b64_char_inj: "m < 64 \<Longrightarrow> n < 64 \<Longrightarrow> b64_char m = b64_char n \<longleftrightarrow> m = n"
  by (simp add: b64_char_def nth_eq_iff_index_eq b64_alphabet_facts)

lemma b64_length: "length (b64_raw_url xs) = (4 * length xs + 2) div 3"
  by (induction xs rule: b64_raw_url.induct) auto

lemma digit_pair_inj:
  "(q::nat) < k \<Longrightarrow> q' < k \<Longrightarrow> p * k + q = p' * k + q' \<Longrightarrow> p = p' \<and> q = q'"
proof -
  assume h: "q < k" "q' < k" "p * k + q = p' * k + q'"
  have "(p * k + q) div k = p" using h(1) by simp
  moreover have "(p' * k + q') div k = p'" using h(2) by simp
  ultimately show ?thesis using h(3) by simp
qed

lemma div_mod_inj: "(a::nat) div n = b div n \<Longrightarrow> a mod n = b mod n \<Longrightarrow> a = b"
  by (metis div_mult_mod_eq)

lemma b64_group_inj:
  fixes a b c a' b' c' :: nat
  assumes lt: "b < 256" "c < 256" "b' < 256" "c' < 256"
    and e: "a div 4 = a' div 4" "(a mod 4) * 16 + b div 16 = (a' mod 4) * 16 + b' div 16"
    "(b mod 16) * 4 + c div 64 = (b' mod 16) * 4 + c' div 64" "c mod 64 = c' mod 64"
  shows "a = a' \<and> b = b' \<and> c = c'"
proof -
  have "b div 16 < 16" "b' div 16 < 16" "c div 64 < 4" "c' div 64 < 4"
    using lt by (simp_all add: less_mult_imp_div_less)
  with digit_pair_inj [OF _ _ e(2)] digit_pair_inj [OF _ _ e(3)]
  have "a mod 4 = a' mod 4" "b div 16 = b' div 16" "b mod 16 = b' mod 16" "c div 64 = c' div 64"
    by auto
  with e show ?thesis by (auto intro: div_mod_inj)
qed

lemma b64_sextets:
  fixes a b c :: nat
  assumes "a < 256" "b < 256" "c < 256"
  shows "a div 4 < 64" "(a mod 4) * 16 + b div 16 < 64" "(b mod 16) * 4 + c div 64 < 64" "c mod 64 < 64"
proof -
  have "a mod 4 < 4" "b mod 16 < 16" "b div 16 < 16" "c div 64 < 4"
    using assms by (simp_all add: less_mult_imp_div_less)
  with assms show "(a mod 4) * 16 + b div 16 < 64" "(b mod 16) * 4 + c div 64 < 64" "a div 4 < 64"
    by (auto simp: less_mult_imp_div_less)
qed simp

lemma b64_inj:
  "length xs = length ys \<Longrightarrow> \<forall>x \<in> set xs. x < 256 \<Longrightarrow> \<forall>y \<in> set ys. y < 256 \<Longrightarrow>
   b64_raw_url xs = b64_raw_url ys \<Longrightarrow> xs = ys"
proof (induction xs arbitrary: ys rule: b64_raw_url.induct)
  case 1
  then show ?case by simp
next
  case (2 a)
  then obtain a' where ys: "ys = [a']" by (cases ys) auto
  with 2 have "a < 256" "a' < 256" "a div 4 = a' div 4" "(a mod 4) * 16 = (a' mod 4) * 16"
    using b64_sextets [of a 0 0] b64_sextets [of a' 0 0] by (auto simp: b64_char_inj)
  then have "a div 4 = a' div 4" "a mod 4 = a' mod 4" by auto
  with ys show ?case by (auto intro: div_mod_inj)
next
  case (3 a b)
  from "3.prems"(1) [symmetric] obtain a' b' where ys: "ys = [a', b']"
    by (auto simp: length_Suc_conv)
  with 3 have "a < 256" "a' < 256" "b < 256" "b' < 256" "a div 4 = a' div 4"
    "(a mod 4) * 16 + b div 16 = (a' mod 4) * 16 + b' div 16" "(b mod 16) * 4 = (b' mod 16) * 4"
    using b64_sextets [of a b 0] b64_sextets [of a' b' 0] by (auto simp: b64_char_inj)
  then have "a = a' \<and> b = b' \<and> (0::nat) = 0" by (intro b64_group_inj) auto
  with ys show ?case by simp
next
  case (4 a b c xs)
  from "4.prems"(1) [symmetric] obtain a' b' c' zs where ys: "ys = a' # b' # c' # zs"
    by (auto simp: length_Suc_conv)
  have lt: "a < 256" "b < 256" "c < 256" "a' < 256" "b' < 256" "c' < 256"
    using "4.prems" ys by auto
  have "a = a' \<and> b = b' \<and> c = c'"
    using "4.prems" ys lt b64_sextets [of a b c] b64_sextets [of a' b' c']
    by (intro b64_group_inj) (auto simp: b64_char_inj)
  moreover have "xs = zs"
    using 4 ys by auto
  ultimately show ?case using ys by simp
qed

lemma unat_byte: "unat (b :: byte) < 256"
  using unsigned_less [of b] by simp

lemma inj_unat_map: "map unat xs = map unat (ys :: byte list) \<Longrightarrow> xs = ys"
  by (rule map_injective) (auto simp: inj_def word_unat_eq_iff)

section \<open>Properties\<close>

text \<open>
  C19: whatever calls a Flow's lifecycle receives, in whatever order and however often,
  its observer sees at most one open, then updates only if there was an open, then at most
  one close, and nothing after it.
\<close>

theorem lifecycle_calls_well_formed:
  "calls_well_formed
     (snd (snd (foldl lifecycle_step (NewLifecycle now meta ob cf, r, []) ops)))"
proof -
  obtain l' r' calls' where run:
    "foldl lifecycle_step (NewLifecycle now meta ob cf, r, []) ops = (l', r', calls')"
    by (cases "foldl lifecycle_step (NewLifecycle now meta ob cf, r, []) ops") auto
  have "lifecycle_inv (l', r', calls')"
    using lifecycle_calls.run_invar [OF lifecycle_inv_new] run by metis
  with run show ?thesis by (simp add: lifecycle_inv_well_formed)
qed

lemma lifecycle_summary:
  assumes "list_all is_add pre" and "list_all (\<lambda>e. \<forall>t why. e \<noteq> OpClose t why) mid"
  shows "\<exists>s. filter is_close (snd (snd (foldl lifecycle_step (NewLifecycle now meta True cf, r, [])
             (pre @ OpOpen # mid @ OpClose t why # rest)))) = [ObsClose s] \<and>
           sum_BytesUp s = added_up mid \<and> sum_BytesDown s = added_down mid \<and>
           sum_CloseReason s = why \<and> sum_EndedAt s = t \<and> sum_Meta s = lc_meta (NewLifecycle now meta True cf)"
proof -
  let ?l0 = "NewLifecycle now meta True cf"
  let ?l1 = "?l0\<lparr>lc_opened := True\<rparr>"
  have pre: "foldl lifecycle_step (?l0, r, []) pre = (?l0, r, [])"
    using assms(1) by (intro unopened_adds) auto
  have opened: "Lifecycle_Open (?l0, r, []) =
      (?l1, Register r (lc_meta ?l0) cf, [ObsOpen (lc_meta ?l0)])"
    by (simp add: Lifecycle_Open_def observe_def)
  obtain c ups where mid: "foldl lifecycle_step (?l1, Register r (lc_meta ?l0) cf, [ObsOpen (lc_meta ?l0)]) mid =
      (?l1\<lparr>lc_counter := c\<rparr>, Register r (lc_meta ?l0) cf, [ObsOpen (lc_meta ?l0)] @ ups)"
    and ups: "list_all is_update ups"
    and sums: "ctr_BytesUp c = added_up mid" "ctr_BytesDown c = added_down mid"
    using open_run [of ?l1 mid "Register r (lc_meta ?l0) cf" "[ObsOpen (lc_meta ?l0)]"] assms(2)
    by (auto simp: zero_counters_def)
  show ?thesis
    using ups sums
    by (simp add: pre opened mid) (simp add: Lifecycle_Close_def Let_def observe_def closed_absorbs)
qed

text \<open>
  The one summary a Flow emits counts exactly the bytes added between its first open
  and its first close (modulo 2^64), carries the reason and time of that first close, and
  neither additions before the open nor anything after the close changes it.
\<close>

lemma lifecycle_summary_accounts:
  assumes "list_all is_add pre" and "list_all (\<lambda>e. \<forall>t why. e \<noteq> OpClose t why) mid"
  shows "\<exists>s. filter is_close (snd (snd (foldl lifecycle_step (NewLifecycle now meta True cf, r, [])
             (pre @ OpOpen # mid @ OpClose t why # rest)))) = [ObsClose s] \<and>
           sum_BytesUp s = added_up mid \<and> sum_BytesDown s = added_down mid \<and>
           sum_CloseReason s = why \<and> sum_EndedAt s = t \<and> meta_ID (sum_Meta s) = meta_ID meta"
proof -
  have "meta_ID (lc_meta (NewLifecycle now meta True cf)) = meta_ID meta" by (simp add: NewLifecycle_def)
  then show ?thesis using lifecycle_summary [OF assms, of now meta cf r t why rest] by auto
qed

lemma lifecycle_summary_accounts_sample:
  "\<exists>s. filter is_close (snd (snd (foldl lifecycle_step
           (NewLifecycle 5 \<lparr>meta_ID = ''f_1'', meta_Protocol = ''tcp'', meta_ClientAddr = zero_addr_port,
              meta_Listener = ''l'', meta_Route = ''r'', meta_Upstream = ''u'', meta_StartedAt = 0\<rparr> True None,
            None, [])
           ([OpAddAt 6 9 9 1 1] @ OpOpen # [OpAddAt 7 10 2 1 1, OpOpen, OpAddAt 8 5 3 1 1] @
            OpClose 9 ''eof'' # [OpAddAt 10 1 1 1 1, OpClose 11 ''again''])))) = [ObsClose s] \<and>
       sum_BytesUp s = added_up [OpAddAt 7 10 2 1 1, OpOpen, OpAddAt 8 5 3 1 1] \<and>
       sum_BytesDown s = added_down [OpAddAt 7 10 2 1 1, OpOpen, OpAddAt 8 5 3 1 1] \<and>
       sum_CloseReason s = ''eof'' \<and> sum_EndedAt s = 9 \<and> meta_ID (sum_Meta s) = ''f_1''"
proof -
  let ?meta = "\<lparr>meta_ID = ''f_1'', meta_Protocol = ''tcp'', meta_ClientAddr = zero_addr_port,
     meta_Listener = ''l'', meta_Route = ''r'', meta_Upstream = ''u'', meta_StartedAt = 0\<rparr>"
  have h: "list_all is_add [OpAddAt 6 9 9 1 1]"
    "list_all (\<lambda>e. \<forall>t why. e \<noteq> OpClose t why) [OpAddAt 7 10 2 1 1, OpOpen, OpAddAt 8 5 3 1 1]"
    by simp_all
  show ?thesis
    using lifecycle_summary_accounts [OF h, of 5 ?meta None None 9 "''eof''" "[OpAddAt 10 1 1 1 1, OpClose 11 ''again'']"]
    by simp
qed

text \<open>
  A Flow is in the registry of live Flows exactly while it is open and not closed,
  and its lifecycle never touches another Flow's entry.
\<close>

lemma lifecycle_registered_while_live:
  assumes "meta_ID meta \<noteq> []" and "gget es (meta_ID meta) = None"
    and "foldl lifecycle_step (NewLifecycle now meta ob cf, Some es, []) ops = (l', r', calls')"
  shows "\<exists>es'. r' = Some es' \<and>
    (gget es' (meta_ID meta) \<noteq> None \<longleftrightarrow> lc_opened l' \<and> \<not> lc_closed l') \<and>
    (\<forall>k. k \<noteq> meta_ID meta \<longrightarrow> gget es' k = gget es k)"
proof -
  have "event_system lifecycle_step (registered_inv (meta_ID meta) es)"
    using assms(1) by unfold_locales (rule registered_inv_step)
  moreover have "registered_inv (meta_ID meta) es (NewLifecycle now meta ob cf, Some es, [])"
    using assms(2) by (simp add: registered_inv_def NewLifecycle_def)
  ultimately have "registered_inv (meta_ID meta) es (l', r', calls')"
    using event_system.run_invar assms(3) by metis
  then show ?thesis by (auto simp: registered_inv_def)
qed

definition sample_meta :: Meta where
  "sample_meta = \<lparr>meta_ID = ''f_1'', meta_Protocol = ''tcp'', meta_ClientAddr = zero_addr_port,
     meta_Listener = ''127.0.0.1:9000'', meta_Route = ''web'', meta_Upstream = ''primary'', meta_StartedAt = 100\<rparr>"

lemma lifecycle_registered_while_live_sample:
  "\<exists>l' r' calls' es'.
     foldl lifecycle_step (NewLifecycle 5 sample_meta True None, Some ([] :: unit FlowRegistry), [])
       [OpOpen, OpAddAt 7 1 1 1 1] = (l', r', calls') \<and> r' = Some es' \<and>
     (gget es' (meta_ID sample_meta) \<noteq> None \<longleftrightarrow> lc_opened l' \<and> \<not> lc_closed l') \<and>
     (\<forall>k. k \<noteq> meta_ID sample_meta \<longrightarrow> gget es' k = gget ([] :: unit FlowRegistry) k)"
proof -
  obtain l' r' calls' where run:
    "foldl lifecycle_step (NewLifecycle 5 sample_meta True None, Some ([] :: unit FlowRegistry), [])
       [OpOpen, OpAddAt 7 1 1 1 1] = (l', r', calls')"
    by (metis prod_cases3)
  have "meta_ID sample_meta \<noteq> []" "gget ([] :: unit FlowRegistry) (meta_ID sample_meta) = None"
    by (simp_all add: sample_meta_def)
  from lifecycle_registered_while_live [OF this run] run show ?thesis by blast
qed

text \<open>
  two Flow identifiers are equal only if the sixteen random bytes behind them are
  equal, and every identifier has twenty-four characters.
\<close>

lemma NewID_injective:
  assumes "length raw1 = idEntropyBytes" and "length raw2 = idEntropyBytes"
  shows "(NewID (Some raw1) = NewID (Some raw2) \<longleftrightarrow> raw1 = raw2) \<and>
    length (the (NewID (Some raw1))) = 24"
proof -
  have "b64_raw_url (map unat raw1) = b64_raw_url (map unat raw2) \<Longrightarrow> raw1 = raw2"
    using assms by (intro inj_unat_map b64_inj) (auto simp: unat_byte)
  with assms show ?thesis
    by (auto simp: NewID_def idEntropyBytes_def b64_length)
qed

lemma NewID_injective_sample:
  "(NewID (Some (replicate 16 0)) = NewID (Some (replicate 15 0 @ [1])) \<longleftrightarrow>
      replicate 16 0 = replicate 15 (0 :: byte) @ [1]) \<and>
    length (the (NewID (Some (replicate 16 0)))) = 24"
proof -
  have h: "length (replicate 16 (0 :: byte)) = idEntropyBytes"
    "length (replicate 15 (0 :: byte) @ [1]) = idEntropyBytes"
    by (simp_all add: idEntropyBytes_def)
  show ?thesis using NewID_injective [OF h] by simp
qed

text \<open>
  observers attached through a fan-out do not disturb one another: each non-nil
  observer ends in the state it would reach alone on the same calls, and a nil one is
  skipped.
\<close>

lemma MultiObserver_independent:
  assumes "length obs = length ss" and "i < length ss"
  shows "foldl (MultiObserver_call obs) ss calls ! i =
    (case obs ! i of None \<Rightarrow> ss ! i | Some f \<Rightarrow> foldl f (ss ! i) calls)"
  using assms
proof (induction calls arbitrary: ss)
  case (Cons c calls)
  have len: "length (MultiObserver_call obs ss c) = length ss"
    using Cons.prems by (simp add: MultiObserver_call_def)
  have at: "MultiObserver_call obs ss c ! i = (case obs ! i of None \<Rightarrow> ss ! i | Some f \<Rightarrow> f (ss ! i) c)"
    using Cons.prems by (simp add: MultiObserver_call_def)
  show ?case
    using Cons.IH [of "MultiObserver_call obs ss c"] Cons.prems len at
    by (cases "obs ! i") auto
qed (auto split: option.splits)

lemma MultiObserver_independent_sample:
  "foldl (MultiObserver_call [Some (\<lambda>n c. n + 1), None]) [0, 7 :: nat] [ObsOpen sample_meta, ObsOpen sample_meta] ! 0 =
    foldl (\<lambda>n c. n + 1) 0 [ObsOpen sample_meta, ObsOpen sample_meta]"
proof -
  have h: "length [Some (\<lambda>n c. n + 1), None] = length [0, 7 :: nat]" "0 < length [0, 7 :: nat]"
    by simp_all
  show ?thesis
    using MultiObserver_independent [OF h, of "[ObsOpen sample_meta, ObsOpen sample_meta]"] by simp
qed

end
