(* ===== verification/RateLimit.thy ===== *)
theory RateLimit
  imports Prelude
begin

text \<open>
  \<open>internal/forwarding/ratelimit.go\<close>: the token bucket of a Flow. Tokens, rate and burst
  are exact rationals; limits are 64-bit words in bits per second. The channel \<open>changed\<close>
  is its generation: closing it and making a new one is the next number. A method called
  on a nil limiter is a method of \<open>None\<close>. Each pass of the loop of \<open>waitChunk\<close> is one
  critical section, \<open>wait_attempt\<close>; between two of them other calls may run, the context
  may end or a timer may fire, which the event lists of \<open>run_wait\<close> spell out.
\<close>

section \<open>Data\<close>

record byteRateLimiter =
  rl_baseBPS :: uint64
  rl_overrideBPS :: uint64
  rl_rate :: float64
  rl_burst :: float64
  rl_tokens :: float64
  rl_last :: time
  rl_changed :: nat

definition rateLimitBurstWindow :: duration where
  "rateLimitBurstWindow = 250 * millisecond"

definition minRateLimitBurst :: float64 where
  "minRateLimitBurst = 1500"

text \<open>\<open>d.Seconds()\<close>\<close>

definition seconds :: "duration \<Rightarrow> float64" where
  "seconds d = of_int d / 1000000000"

section \<open>Operations\<close>

definition effective_bps :: "byteRateLimiter \<Rightarrow> uint64" where
  "effective_bps l =
     (if rl_baseBPS l = 0 \<or> (rl_overrideBPS l > 0 \<and> rl_overrideBPS l < rl_baseBPS l)
      then rl_overrideBPS l else rl_baseBPS l)"

definition bps_rate :: "uint64 \<Rightarrow> float64" where
  "bps_rate bps = of_nat (unat bps) / 8"

definition rate_burst :: "float64 \<Rightarrow> float64" where
  "rate_burst rate =
     (let burst = rate * seconds rateLimitBurstWindow
      in if rate = 0 then 0
         else if burst < minRateLimitBurst \<and> rate > 0 then minRateLimitBurst else burst)"

definition recomputeLocked :: "time \<Rightarrow> bool \<Rightarrow> byteRateLimiter \<Rightarrow> byteRateLimiter" where
  "recomputeLocked now initial l =
     (let rate = bps_rate (effective_bps l); burst = rate_burst rate;
          tokens = (if rate = 0 then 0
                    else if initial \<or> rl_rate l = 0 then burst
                    else if rl_tokens l > burst then burst else rl_tokens l)
      in l\<lparr>rl_rate := rate, rl_burst := burst, rl_tokens := tokens, rl_last := now,
           rl_changed := (if \<not> initial \<and> (rl_rate l \<noteq> rate \<or> rl_burst l \<noteq> burst)
                          then rl_changed l + 1 else rl_changed l)\<rparr>)"

definition newByteRateLimiter :: "time \<Rightarrow> uint64 \<Rightarrow> byteRateLimiter" where
  "newByteRateLimiter now limitBPS =
     recomputeLocked now True
       \<lparr>rl_baseBPS = limitBPS, rl_overrideBPS = 0, rl_rate = 0, rl_burst = 0, rl_tokens = 0,
        rl_last = now, rl_changed = 0\<rparr>"

definition replenish :: "time \<Rightarrow> byteRateLimiter \<Rightarrow> byteRateLimiter" where
  "replenish now l0 =
     (let l = (if is_zero_time (rl_last l0) then l0\<lparr>rl_last := now\<rparr> else l0);
          elapsed = seconds (time_sub now (rl_last l))
      in if elapsed > 0 then
           (let tokens = rl_tokens l + elapsed * rl_rate l
            in l\<lparr>rl_tokens := (if tokens > rl_burst l then rl_burst l else tokens), rl_last := now\<rparr>)
         else l)"

definition SetOverrideBPS :: "time \<Rightarrow> uint64 \<Rightarrow> byteRateLimiter \<Rightarrow> byteRateLimiter" where
  "SetOverrideBPS now limitBPS l = recomputeLocked now False ((replenish now l)\<lparr>rl_overrideBPS := limitBPS\<rparr>)"

definition ClearOverrideBPS :: "time \<Rightarrow> byteRateLimiter \<Rightarrow> byteRateLimiter" where
  "ClearOverrideBPS now l = recomputeLocked now False ((replenish now l)\<lparr>rl_overrideBPS := 0\<rparr>)"

definition Try :: "time \<Rightarrow> int \<Rightarrow> byteRateLimiter option \<Rightarrow> bool \<times> byteRateLimiter option" where
  "Try now sz limiter =
     (case limiter of None \<Rightarrow> (True, None)
      | Some l0 \<Rightarrow>
          if sz \<le> 0 then (True, Some l0)
          else if rl_rate l0 = 0 then (True, Some l0)
          else let l = replenish now l0
               in if rl_tokens l < of_int sz then (False, Some l)
                  else (True, Some (l\<lparr>rl_tokens := rl_tokens l - of_int sz\<rparr>)))"

datatype attempt = Disabled | Granted int | Blocked duration

definition wait_attempt :: "time \<Rightarrow> int \<Rightarrow> byteRateLimiter \<Rightarrow> attempt \<times> byteRateLimiter" where
  "wait_attempt now remaining l0 =
     (let l = replenish now l0
      in if rl_rate l = 0 then (Disabled, l)
         else let maxChunk = (if \<lfloor>rl_burst l\<rfloor> < 1 then 1 else \<lfloor>rl_burst l\<rfloor>);
                  chunk = (if remaining > maxChunk then maxChunk else remaining)
              in if rl_tokens l \<ge> of_int chunk
                 then (Granted chunk, l\<lparr>rl_tokens := rl_tokens l - of_int chunk\<rparr>)
                 else let wait = trunc_float ((of_int chunk - rl_tokens l) / rl_rate l * of_int second)
                      in (Blocked (if wait < millisecond then millisecond else wait), l))"

datatype limiter_op = LimSetOverride time uint64 | LimClearOverride time | LimTry time int

fun limiter_apply :: "limiter_op \<Rightarrow> byteRateLimiter \<Rightarrow> byteRateLimiter" where
  "limiter_apply (LimSetOverride now bps) l = SetOverrideBPS now bps l"
| "limiter_apply (LimClearOverride now) l = ClearOverrideBPS now l"
| "limiter_apply (LimTry now sz) l = the (snd (Try now sz (Some l)))"

text \<open>
  The loops of \<open>Wait\<close> and \<open>waitChunk\<close>. \<open>Attempt now\<close> is a pass at the clock reading
  \<open>now\<close> (the first, or after the timer or \<open>changed\<close> woke the loop), \<open>CtxDone\<close> the end
  of the context, which only a blocked loop notices, and \<open>Other\<close> a call of another
  goroutine. A list that ends first leaves the call pending.
\<close>

datatype wait_event = Attempt time | CtxDone | Other limiter_op

datatype wait_outcome = WaitDone | WaitCancelled | WaitPending int

fun run_wait :: "wait_event list \<Rightarrow> bool \<Rightarrow> int \<Rightarrow> byteRateLimiter \<Rightarrow> wait_outcome \<times> byteRateLimiter" where
  "run_wait [] blocked remaining l = (if remaining \<le> 0 then (WaitDone, l) else (WaitPending remaining, l))"
| "run_wait (e # es) blocked remaining l =
     (if remaining \<le> 0 then (WaitDone, l)
      else case e of
        Attempt now \<Rightarrow>
          (case wait_attempt now remaining l of
             (Disabled, l') \<Rightarrow> (WaitDone, l')
           | (Granted chunk, l') \<Rightarrow> run_wait es False (remaining - chunk) l'
           | (Blocked _, l') \<Rightarrow> run_wait es True remaining l')
      | CtxDone \<Rightarrow> if blocked then (WaitCancelled, l) else run_wait es blocked remaining l
      | Other lop \<Rightarrow> run_wait es blocked remaining (limiter_apply lop l))"

definition Wait :: "wait_event list \<Rightarrow> int \<Rightarrow> byteRateLimiter option \<Rightarrow> wait_outcome \<times> byteRateLimiter option" where
  "Wait es sz limiter =
     (case limiter of None \<Rightarrow> (WaitDone, None)
      | Some l \<Rightarrow>
          if sz \<le> 0 \<or> rl_rate l = 0 then (WaitDone, Some l)
          else apsnd Some (run_wait es False sz l))"

text \<open>The bytes a limiter lets through over a sequence of critical sections.\<close>

datatype bucket_op = Call limiter_op | Pass time int

fun op_time :: "bucket_op \<Rightarrow> time" where
  "op_time (Call (LimSetOverride t _)) = t"
| "op_time (Call (LimClearOverride t)) = t"
| "op_time (Call (LimTry t _)) = t"
| "op_time (Pass t _) = t"

fun bucket_step :: "byteRateLimiter \<times> int \<Rightarrow> bucket_op \<Rightarrow> byteRateLimiter \<times> int" where
  "bucket_step (l, g) (Call lop) =
     (limiter_apply lop l,
      (case lop of LimTry now sz \<Rightarrow> if sz > 0 \<and> fst (Try now sz (Some l)) then g + sz else g | _ \<Rightarrow> g))"
| "bucket_step (l, g) (Pass now remaining) =
     (if remaining \<le> 0 then (l, g)
      else case wait_attempt now remaining l of
        (Granted chunk, l') \<Rightarrow> (l', g + chunk)
      | (_, l') \<Rightarrow> (l', g))"

section \<open>The bucket invariant\<close>

text \<open>
  A limiter that limits: a rate of at least one bit per second and at most \<open>R\<close>, a burst of
  at least the minimum and at most \<open>B\<close>, and tokens within the burst.
\<close>

definition lim_ok :: "float64 \<Rightarrow> float64 \<Rightarrow> byteRateLimiter \<Rightarrow> bool" where
  "lim_ok R B l \<longleftrightarrow> 1 / 8 \<le> rl_rate l \<and> rl_rate l \<le> R \<and> 1500 \<le> rl_burst l \<and> rl_burst l \<le> B \<and>
     rl_burst l = rate_burst (rl_rate l) \<and> 0 \<le> rl_tokens l \<and> rl_tokens l \<le> rl_burst l"

lemma seconds_mono: "a \<le> b \<Longrightarrow> seconds a \<le> seconds b"
  by (simp add: seconds_def divide_right_mono)

lemma seconds_pos [simp]: "0 < seconds d \<longleftrightarrow> 0 < d" "0 \<le> seconds d \<longleftrightarrow> 0 \<le> d"
  by (simp_all add: seconds_def zero_le_divide_iff)

lemma seconds_diff: "seconds (a - b) = seconds a - seconds b"
  by (simp add: seconds_def diff_divide_distrib)

lemma seconds_zero [simp]: "seconds 0 = 0"
  by (simp add: seconds_def)

lemma time_sub_self [simp]: "time_sub t t = 0"
  by (simp add: time_sub_def min_duration_def max_duration_def)

lemma time_sub_bounds: "u \<le> t \<Longrightarrow> 0 \<le> time_sub t u \<and> time_sub t u \<le> t - u"
  by (auto simp: time_sub_def min_duration_def max_duration_def)

lemma rate_burst_bounds:
  "0 < rate \<Longrightarrow> 1500 \<le> rate_burst rate" "0 < rate \<Longrightarrow> rate \<le> R \<Longrightarrow> rate_burst rate \<le> rate_burst R"
  by (auto simp: rate_burst_def Let_def minRateLimitBurst_def seconds_def rateLimitBurstWindow_def)

lemma bps_rate_pos: "bps \<noteq> 0 \<Longrightarrow> 1 / 8 \<le> bps_rate bps"
proof -
  assume "bps \<noteq> 0"
  then have "1 \<le> unat bps" by (simp add: Suc_leI unat_gt_0)
  then have "1 \<le> (of_nat (unat bps) :: rat)" by (metis of_nat_1 of_nat_le_iff)
  then show ?thesis by (simp add: bps_rate_def)
qed

lemma bps_rate_mono: "a \<le> b \<Longrightarrow> bps_rate a \<le> bps_rate b"
  unfolding bps_rate_def word_le_nat_alt
  by (intro divide_right_mono, simp only: of_nat_le_iff) simp

text \<open>Replenishing never exceeds the rate, and brings the bucket up to the clock reading.\<close>

lemma replenish_simps [simp]:
  "rl_rate (replenish now l) = rl_rate l" "rl_burst (replenish now l) = rl_burst l"
  "rl_baseBPS (replenish now l) = rl_baseBPS l" "rl_overrideBPS (replenish now l) = rl_overrideBPS l"
  by (simp_all add: replenish_def Let_def)

lemma replenish_last: "rl_last l \<le> now \<Longrightarrow> rl_last (replenish now l) = now"
  by (auto simp: replenish_def Let_def time_sub_def min_duration_def max_duration_def)

lemma replenish_tokens_le:
  assumes "lim_ok R B l" and "rl_last l \<le> now"
  shows "rl_tokens (replenish now l) \<le> rl_tokens l + R * seconds (now - rl_last l)"
proof -
  have "seconds (time_sub now (rl_last l)) * rl_rate l \<le> seconds (now - rl_last l) * R"
    using time_sub_bounds [OF assms(2)] assms(1)
    by (intro mult_mono seconds_mono) (auto simp: lim_ok_def)
  moreover have "0 \<le> R * seconds (now - rl_last l)"
    using assms by (intro mult_nonneg_nonneg) (auto simp: lim_ok_def)
  ultimately show ?thesis
    by (auto simp: replenish_def Let_def mult.commute)
qed

lemma replenish_ok: "lim_ok R B l \<Longrightarrow> lim_ok R B (replenish now l)"
proof -
  assume ok: "lim_ok R B l"
  have "0 \<le> rl_tokens (replenish now l) \<and> rl_tokens (replenish now l) \<le> rl_burst l"
    using ok by (auto simp: replenish_def Let_def lim_ok_def)
  with ok show ?thesis by (simp add: lim_ok_def)
qed

lemma recompute_ok:
  assumes "rl_baseBPS l \<noteq> 0" and "0 \<le> rl_tokens l" and "R = bps_rate (rl_baseBPS l)"
  shows "lim_ok R (rate_burst R) (recomputeLocked now i l)"
proof -
  let ?r = "bps_rate (effective_bps l)"
  have "effective_bps l \<noteq> 0" "effective_bps l \<le> rl_baseBPS l"
    using assms(1) by (auto simp: effective_bps_def)
  then have r: "1 / 8 \<le> ?r" "?r \<le> R" using bps_rate_pos bps_rate_mono assms(3) by blast+
  then have "0 < ?r" by (meson divide_pos_pos less_le_trans zero_less_numeral zero_less_one)
  with r rate_burst_bounds [of ?r] assms(2) show ?thesis
    by (auto simp: recomputeLocked_def Let_def lim_ok_def)
qed

section \<open>What a limiter lets through\<close>

text \<open>One pass of the wait loop on a limiter that limits: a grant of some bytes, or a wait.\<close>

lemma attempt_cases:
  assumes "lim_ok R B l" and "0 < n"
  obtains c where "1 \<le> c" and "c \<le> n" and "of_int c \<le> rl_burst l" and
    "wait_attempt now n l =
      (if of_int c \<le> rl_tokens (replenish now l)
       then (Granted c, (replenish now l)\<lparr>rl_tokens := rl_tokens (replenish now l) - of_int c\<rparr>)
       else (Blocked (max millisecond
               (trunc_float ((of_int c - rl_tokens (replenish now l)) / rl_rate l * of_int second))), replenish now l))"
proof -
  have "1500 \<le> rl_burst l" and rate: "rl_rate l \<noteq> 0" using assms(1) by (auto simp: lim_ok_def)
  then have fl: "1 \<le> \<lfloor>rl_burst l\<rfloor>" by (simp add: le_floor_iff)
  show thesis
  proof (rule that [of "min n \<lfloor>rl_burst l\<rfloor>"])
    show "of_int (min n \<lfloor>rl_burst l\<rfloor>) \<le> rl_burst l" by (simp add: min_def) linarith
  qed (use assms(2) fl rate in \<open>auto simp: wait_attempt_def Let_def min_def max_def\<close>)
qed

lemma spend_ok: "lim_ok R B l \<Longrightarrow> 1 \<le> c \<Longrightarrow> of_int c \<le> rl_tokens l \<Longrightarrow> lim_ok R B (l\<lparr>rl_tokens := rl_tokens l - of_int c\<rparr>)"
proof -
  assume "lim_ok R B l" "of_int c \<le> rl_tokens l" "1 \<le> c"
  moreover from this(3) have "0 \<le> (of_int c :: rat)" by simp
  ultimately show ?thesis unfolding lim_ok_def by auto
qed

lemma attempt_ok: "lim_ok R B l \<Longrightarrow> 0 < n \<Longrightarrow> lim_ok R B (snd (wait_attempt now n l))"
  using replenish_ok [of R B l now] by (rule_tac n = n and now = now in attempt_cases) (auto intro: spend_ok)

lemma try_ok: "lim_ok R B l \<Longrightarrow> lim_ok R B (the (snd (Try now n (Some l))))"
  using replenish_ok [of R B l now] spend_ok [of R B "replenish now l" n]
  by (cases "0 < n") (auto simp: Try_def Let_def not_less)

text \<open>
  The tokens plus the bytes let through grow no faster than the rate: one critical section
  that changes no limit keeps the balance.
\<close>

definition balance :: "float64 \<Rightarrow> byteRateLimiter \<times> int \<Rightarrow> float64" where
  "balance R s = of_int (snd s) + rl_tokens (fst s) - R * seconds (rl_last (fst s))"

lemma balance_replenish:
  "lim_ok R B l \<Longrightarrow> rl_last l \<le> now \<Longrightarrow> balance R (replenish now l, g) \<le> balance R (l, g)"
  using replenish_tokens_le [of R B l now]
  by (simp add: balance_def replenish_last seconds_diff algebra_simps)

lemma try_cases:
  fixes now :: time and l :: byteRateLimiter
  assumes "lim_ok R B l" and "0 < n"
  defines "l' \<equiv> replenish now l"
  shows "Try now n (Some l) =
    (if rl_tokens l' < of_int n then (False, Some l') else (True, Some (l'\<lparr>rl_tokens := rl_tokens l' - of_int n\<rparr>)))"
  using assms by (auto simp: Try_def Let_def lim_ok_def)

fun keeps_limits :: "bucket_op \<Rightarrow> bool" where
  "keeps_limits (Call (LimTry _ _)) = True"
| "keeps_limits (Pass _ _) = True"
| "keeps_limits _ = False"

lemma grant_step:
  assumes "lim_ok R B l" and "rl_last l \<le> op_time e" and "keeps_limits e"
  shows "lim_ok R B (fst (bucket_step (l, g) e)) \<and> rl_last (fst (bucket_step (l, g) e)) \<le> op_time e \<and>
    balance R (bucket_step (l, g) e) \<le> balance R (l, g)"
proof (cases e)
  case (Pass now n)
  have b: "balance R (replenish now l, g) \<le> balance R (l, g)" "rl_last (replenish now l) = now"
    using assms(1,2) Pass by (auto intro: balance_replenish replenish_last)
  show ?thesis
  proof (cases "0 < n")
    case True
    from attempt_cases [OF assms(1) True, of now] obtain c where "1 \<le> c" "wait_attempt now n l =
      (if of_int c \<le> rl_tokens (replenish now l)
       then (Granted c, (replenish now l)\<lparr>rl_tokens := rl_tokens (replenish now l) - of_int c\<rparr>)
       else (Blocked (max millisecond
               (trunc_float ((of_int c - rl_tokens (replenish now l)) / rl_rate l * of_int second))), replenish now l))"
      by metis
    then show ?thesis
      using Pass b True attempt_ok [OF assms(1) True, of now] by (auto simp: balance_def)
  qed (use Pass assms in simp)
next
  case (Call lop)
  then obtain now n where e: "e = Call (LimTry now n)" using assms(3) by (cases lop) auto
  have b: "balance R (replenish now l, g) \<le> balance R (l, g)" "rl_last (replenish now l) = now"
    using assms(1,2) e by (auto intro: balance_replenish replenish_last)
  show ?thesis
    using e b try_cases [OF assms(1), of n now] try_ok [OF assms(1), of now n] assms(1,2)
    by (cases "0 < n") (auto simp: balance_def algebra_simps Try_def)
qed

lemma limit_step:
  assumes "lim_ok R (rate_burst R) l" and "rl_last l \<le> op_time e" and "\<not> keeps_limits e"
    and "rl_baseBPS l \<noteq> 0" and "R = bps_rate (rl_baseBPS l)"
  shows "lim_ok R (rate_burst R) (fst (bucket_step (l, g) e)) \<and> rl_last (fst (bucket_step (l, g) e)) \<le> op_time e \<and>
    balance R (bucket_step (l, g) e) \<le> balance R (l, g)"
proof -
  let ?now = "op_time e"
  have r: "lim_ok R (rate_burst R) (replenish ?now l)" "balance R (replenish ?now l, g) \<le> balance R (l, g)"
    "rl_last (replenish ?now l) = ?now"
    using assms(1,2) by (auto intro: replenish_ok balance_replenish replenish_last)
  obtain bps where e: "bucket_step (l, g) e =
      (recomputeLocked ?now False ((replenish ?now l)\<lparr>rl_overrideBPS := bps\<rparr>), g)"
    using assms(3) by (cases e rule: keeps_limits.cases) (auto simp: SetOverrideBPS_def ClearOverrideBPS_def)
  have "lim_ok R (rate_burst R) (recomputeLocked ?now False ((replenish ?now l)\<lparr>rl_overrideBPS := bps\<rparr>))"
    using assms(4,5) r(1) by (intro recompute_ok) (auto simp: lim_ok_def)
  moreover have "balance R (recomputeLocked ?now False ((replenish ?now l)\<lparr>rl_overrideBPS := bps\<rparr>), g) \<le>
      balance R (replenish ?now l, g)"
    using r(1,3) assms(1)
    by (auto simp: balance_def recomputeLocked_def Let_def lim_ok_def)
  ultimately show ?thesis using e r by (auto simp: recomputeLocked_def Let_def)
qed

lemma base_fixed [simp]: "rl_baseBPS (fst (bucket_step (l, g) e)) = rl_baseBPS l"
proof (cases e)
  case (Call lop)
  then show ?thesis
    by (cases lop) (auto simp: SetOverrideBPS_def ClearOverrideBPS_def recomputeLocked_def Let_def Try_def)
next
  case (Pass now n)
  then show ?thesis by (auto simp: wait_attempt_def Let_def split: attempt.splits)
qed

lemma bucket_run:
  assumes "lim_ok R (rate_burst R) l" and "sorted (map op_time ops)" and "\<forall>e \<in> set ops. rl_last l \<le> op_time e"
    and "list_all keeps_limits ops \<or> rl_baseBPS l \<noteq> 0 \<and> R = bps_rate (rl_baseBPS l)"
    and "rl_last l \<le> t1" and "\<forall>e \<in> set ops. op_time e \<le> t1"
  shows "balance R (foldl bucket_step (l, g) ops) \<le> balance R (l, g) \<and>
    lim_ok R (rate_burst R) (fst (foldl bucket_step (l, g) ops)) \<and> rl_last (fst (foldl bucket_step (l, g) ops)) \<le> t1"
  using assms
proof (induction ops arbitrary: l g)
  case (Cons e ops)
  obtain l' g' where st: "bucket_step (l, g) e = (l', g')" by (cases "bucket_step (l, g) e")
  have step: "lim_ok R (rate_burst R) l' \<and> rl_last l' \<le> op_time e \<and> balance R (l', g') \<le> balance R (l, g)"
    using Cons.prems grant_step [of R "rate_burst R" l e g] limit_step [of R l e g] st
    by (cases "keeps_limits e") auto
  have "rl_baseBPS l' = rl_baseBPS l" using base_fixed [of l g e] st by simp
  then have "balance R (foldl bucket_step (l', g') ops) \<le> balance R (l', g') \<and>
    lim_ok R (rate_burst R) (fst (foldl bucket_step (l', g') ops)) \<and> rl_last (fst (foldl bucket_step (l', g') ops)) \<le> t1"
    using Cons.prems step by (intro Cons.IH) (auto intro: order_trans)
  with step st show ?case by auto
qed simp

lemma granted_bound:
  assumes "balance R s \<le> balance R (l, 0)" and "lim_ok R B (fst s)" and "rl_last (fst s) \<le> t1" and "lim_ok R B l"
  shows "of_int (snd s) \<le> B + R * seconds (t1 - rl_last l)"
proof -
  have "R * seconds (rl_last (fst s)) \<le> R * seconds t1"
    using assms(2,3) by (intro mult_left_mono seconds_mono) (auto simp: lim_ok_def)
  moreover have "rl_tokens l \<le> B" "0 \<le> rl_tokens (fst s)" using assms(2,4) by (auto simp: lim_ok_def)
  ultimately show ?thesis using assms(1) by (simp add: balance_def seconds_diff algebra_simps)
qed

lemma recompute_effective:
  assumes "effective_bps l \<noteq> 0" and "effective_bps l \<le> cap" and "0 \<le> rl_tokens l"
  shows "lim_ok (bps_rate cap) (rate_burst (bps_rate cap)) (recomputeLocked now i l)"
proof -
  let ?r = "bps_rate (effective_bps l)"
  have r: "1 / 8 \<le> ?r" "?r \<le> bps_rate cap" using assms bps_rate_pos bps_rate_mono by blast+
  then have "0 < ?r" by (meson divide_pos_pos less_le_trans zero_less_numeral zero_less_one)
  with r rate_burst_bounds [of ?r] assms(3) show ?thesis
    by (auto simp: recomputeLocked_def Let_def lim_ok_def)
qed

section \<open>Progress of a wait\<close>

text \<open>
  The time, in nanoseconds, the bucket needs to hold the next chunk, and the passes a
  blocked loop makes: none before the timer it armed fires.
\<close>

definition chunk_of :: "int \<Rightarrow> byteRateLimiter \<Rightarrow> int" where
  "chunk_of n l = min n \<lfloor>rl_burst l\<rfloor>"

definition need :: "int \<Rightarrow> byteRateLimiter \<Rightarrow> float64" where
  "need n l = (of_int (chunk_of n l) - rl_tokens l) / rl_rate l * 1000000000"

definition armed :: "int \<Rightarrow> byteRateLimiter \<Rightarrow> duration" where
  "armed n l = max millisecond (trunc_float (need n l))"

fun timely :: "time \<Rightarrow> time list \<Rightarrow> int \<Rightarrow> byteRateLimiter \<Rightarrow> bool" where
  "timely earliest [] n l = True"
| "timely earliest (t # ts) n l =
     (n \<le> 0 \<or>
      earliest \<le> t \<and>
      (case wait_attempt t n l of
         (Granted c, l') \<Rightarrow> timely t ts (n - c) l'
       | (Blocked w, l') \<Rightarrow> timely (t + w) ts n l'
       | (Disabled, l') \<Rightarrow> True))"

lemma chunk_bounds:
  assumes "lim_ok R B l" and "0 < n"
  shows "1 \<le> chunk_of n l" and "chunk_of n l \<le> n" and "of_int (chunk_of n l) \<le> rl_burst l"
proof -
  have "1500 \<le> rl_burst l" using assms(1) by (auto simp: lim_ok_def)
  then have "1 \<le> \<lfloor>rl_burst l\<rfloor>" by (simp add: le_floor_iff)
  with assms(2) show "1 \<le> chunk_of n l" "chunk_of n l \<le> n" by (auto simp: chunk_of_def)
  show "of_int (chunk_of n l) \<le> rl_burst l" by (simp add: chunk_of_def min_def) linarith
qed

lemma attempt_chunk:
  assumes "lim_ok R B l" and "0 < n"
  shows "wait_attempt now n l =
    (if of_int (chunk_of n l) \<le> rl_tokens (replenish now l)
     then (Granted (chunk_of n l), (replenish now l)\<lparr>rl_tokens := rl_tokens (replenish now l) - of_int (chunk_of n l)\<rparr>)
     else (Blocked (armed n (replenish now l)), replenish now l))"
proof -
  have "1500 \<le> rl_burst l" and rate: "rl_rate l \<noteq> 0" using assms(1) by (auto simp: lim_ok_def)
  then have "1 \<le> \<lfloor>rl_burst l\<rfloor>" by (simp add: le_floor_iff)
  with rate show ?thesis
    by (auto simp: wait_attempt_def Let_def chunk_of_def armed_def need_def min_def max_def)
qed

lemma chunk_replenish [simp]: "chunk_of n (replenish t l) = chunk_of n l"
  by (simp add: chunk_of_def)

text \<open>A bucket never needs more than about three and a half hours to fill: no duration overflows.\<close>

lemma need_bound:
  assumes "lim_ok R B l" and "0 < n"
  shows "need n l \<le> 12000 * 1000000000"
proof -
  have r: "1 / 8 \<le> rl_rate l" and b: "rl_burst l = rate_burst (rl_rate l)" and t: "0 \<le> rl_tokens l"
    using assms(1) by (auto simp: lim_ok_def)
  have "rate_burst (rl_rate l) \<le> 12000 * rl_rate l"
    using r by (auto simp: rate_burst_def Let_def minRateLimitBurst_def seconds_def rateLimitBurstWindow_def)
  with chunk_bounds(3) [OF assms] b t have "of_int (chunk_of n l) - rl_tokens l \<le> 12000 * rl_rate l" by linarith
  then have "(of_int (chunk_of n l) - rl_tokens l) / rl_rate l \<le> 12000"
    using r by (simp add: pos_divide_le_eq)
  then show ?thesis unfolding need_def by (rule mult_right_mono) simp
qed

lemma replenish_gain:
  assumes "lim_ok R B l" and "0 < rl_last l" and "rl_last l + w \<le> t" and "0 < w" and "w \<le> max_duration"
  shows "min (rl_burst l) (rl_tokens l + seconds w * rl_rate l) \<le> rl_tokens (replenish t l)"
proof -
  have w: "w \<le> time_sub t (rl_last l)"
    using assms(3-5) by (auto simp: time_sub_def max_duration_def min_duration_def)
  then have "seconds w * rl_rate l \<le> seconds (time_sub t (rl_last l)) * rl_rate l"
    using assms(1) by (intro mult_right_mono seconds_mono) (auto simp: lim_ok_def)
  with w assms(2,4) show ?thesis by (auto simp: replenish_def Let_def)
qed

lemma trunc_float_floor: "0 \<le> x \<Longrightarrow> trunc_float x = \<lfloor>x\<rfloor>"
  by (simp add: trunc_float_def)

lemma armed_max: "lim_ok R B l \<Longrightarrow> 0 < n \<Longrightarrow> armed n l \<le> max_duration"
proof -
  assume "lim_ok R B l" "0 < n"
  from need_bound [OF this] have "need n l \<le> of_int 12000000000000" by simp
  then have "trunc_float (need n l) \<le> 12000000000000"
    by (auto simp: trunc_float_def ceiling_le_iff floor_le_iff)
  then show ?thesis by (simp add: armed_def max_duration_def)
qed

lemma gain_after_wait:
  assumes "lim_ok R B l" and "0 < n" and "0 < rl_last l" and "rl_last l + w \<le> t" and "0 < w" and "w \<le> max_duration"
    and "rl_tokens (replenish t l) < of_int (chunk_of n l)"
  shows "need n (replenish t l) \<le> need n l - of_int w"
proof -
  have r: "0 < rl_rate l" using assms(1) by (auto simp: lim_ok_def intro: less_le_trans [of _ "1 / 8"])
  have "rl_tokens l + seconds w * rl_rate l \<le> rl_tokens (replenish t l)"
    using replenish_gain [OF assms(1,3-6)] chunk_bounds(3) [OF assms(1,2)] assms(7) by linarith
  then have "of_int (chunk_of n l) - rl_tokens (replenish t l)
      \<le> (of_int (chunk_of n l) - rl_tokens l) - seconds w * rl_rate l" by linarith
  from divide_right_mono [OF this, of "rl_rate l"] r
  have "(of_int (chunk_of n l) - rl_tokens (replenish t l)) / rl_rate l
      \<le> (of_int (chunk_of n l) - rl_tokens l) / rl_rate l - seconds w"
    by (simp add: diff_divide_distrib)
  from mult_right_mono [OF this, of 1000000000] show ?thesis
    by (simp add: need_def seconds_def left_diff_distrib)
qed

definition ready :: "nat \<Rightarrow> int \<Rightarrow> byteRateLimiter \<Rightarrow> time \<Rightarrow> bool" where
  "ready k n l e \<longleftrightarrow> 0 < rl_last l \<and> rl_last l \<le> e \<and>
     (k = 3 \<or> k = 2 \<and> rl_last l + armed n l \<le> e \<or> k = 1 \<and> need n l \<le> 1 \<and> rl_last l + millisecond \<le> e)"

lemma need_pos: "lim_ok R B l \<Longrightarrow> rl_tokens l < of_int (chunk_of n l) \<Longrightarrow> 0 < need n l"
  by (auto simp: need_def lim_ok_def intro!: divide_pos_pos intro: less_le_trans [of _ "1 / 8"])

lemma armed_covers: "0 \<le> need n l \<Longrightarrow> need n l - of_int (armed n l) \<le> 1"
  by (auto simp: armed_def trunc_float_floor max_def) linarith+

lemma still_blocked:
  assumes "lim_ok R B l" and "0 < n" and "ready k n l e" and "e \<le> t" and "rl_last l \<le> t"
    and "rl_tokens (replenish t l) < of_int (chunk_of n l)"
  shows "1 < k \<and> ready (k - 1) n (replenish t l) (t + armed n (replenish t l))"
proof -
  have pos: "0 < need n (replenish t l)"
    using need_pos [of R B "replenish t l" n] replenish_ok [OF assms(1)] assms(6) by simp
  have last: "rl_last (replenish t l) = t" "0 < t"
    using replenish_last [OF assms(5)] assms(3,4) by (auto simp: ready_def)
  have ms: "millisecond \<le> armed n (replenish t l)" by (simp add: armed_def)
  consider "k = 3" | "k = 2" "rl_last l + armed n l \<le> t" | "k = 1" "need n l \<le> 1" "rl_last l + millisecond \<le> t"
    using assms(3,4) by (auto simp: ready_def)
  then show ?thesis
  proof cases
    case 1
    with last ms show ?thesis by (simp add: ready_def)
  next
    case 2
    have "need n (replenish t l) \<le> need n l - of_int (armed n l)"
      using assms 2(2) armed_max [OF assms(1,2)]
      by (intro gain_after_wait) (auto simp: ready_def armed_def)
    with armed_covers [of n l] pos have "need n (replenish t l) \<le> 1"
      by (cases "0 \<le> need n l") (auto simp: armed_def)
    with 2 last ms show ?thesis by (simp add: ready_def)
  next
    case 3
    have "need n (replenish t l) \<le> need n l - of_int millisecond"
      using assms 3(3) by (intro gain_after_wait) (auto simp: ready_def max_duration_def)
    with 3(2) pos show ?thesis by simp
  qed
qed

lemma wait_finishes:
  assumes "lim_ok R B l" and "ready k n l e" and "timely e ts n l" and "0 < n \<longrightarrow> int k + 3 * (n - 1) \<le> int (length ts)"
  shows "fst (run_wait (map Attempt ts) b n l) = WaitDone"
  using assms
proof (induction ts arbitrary: l k n e b)
  case Nil
  then show ?case by (auto simp: ready_def split: if_splits)
next
  case (Cons t ts)
  show ?case
  proof (cases "0 < n")
    case True
    note ok = Cons.prems(1) and len = Cons.prems(4)
    let ?l = "replenish t l" and ?c = "chunk_of n l"
    have et: "e \<le> t" "rl_last l \<le> t" "0 < rl_last l" using Cons.prems(2,3) True by (auto simp: ready_def)
    have k: "1 \<le> k" using Cons.prems(2) by (auto simp: ready_def)
    have ok': "lim_ok R B ?l" using replenish_ok [OF ok] .
    note c = chunk_bounds [OF ok True]
    show ?thesis
    proof (cases "of_int ?c \<le> rl_tokens ?l")
      case granted: True
      let ?l' = "?l\<lparr>rl_tokens := rl_tokens ?l - of_int ?c\<rparr>"
      have att: "wait_attempt t n l = (Granted ?c, ?l')" using attempt_chunk [OF ok True] granted by simp
      have "fst (run_wait (map Attempt ts) False (n - ?c) ?l') = WaitDone"
      proof (rule Cons.IH)
        show "lim_ok R B ?l'" using spend_ok [OF ok' c(1)] granted by simp
        show "ready 3 (n - ?c) ?l' t" using et replenish_last [OF et(2)] by (simp add: ready_def)
        show "timely t ts (n - ?c) ?l'" using Cons.prems(3) True att by simp
        show "0 < n - ?c \<longrightarrow> int 3 + 3 * (n - ?c - 1) \<le> int (length ts)" using len True k c(1) by simp
      qed
      with True att show ?thesis by simp
    next
      case blocked: False
      then have att: "wait_attempt t n l = (Blocked (armed n ?l), ?l)" using attempt_chunk [OF ok True] by simp
      from blocked still_blocked [OF ok True Cons.prems(2) et(1,2)]
      have "1 < k" and rd: "ready (k - 1) n ?l (t + armed n ?l)" by auto
      have "fst (run_wait (map Attempt ts) True n ?l) = WaitDone"
        using Cons.prems(3) True att len \<open>1 < k\<close> by (intro Cons.IH [OF ok' rd]) (auto simp: of_nat_diff)
      with True att show ?thesis by simp
    qed
  qed simp
qed

text \<open>
  Any limiter, after whatever was called on it by instant \<open>e\<close>: it limits, or it has no limit
  and holds nothing. A wait that is pending leaves such a limiter, and goes on from there.
\<close>

definition lim_any :: "time \<Rightarrow> byteRateLimiter \<Rightarrow> bool" where
  "lim_any e l \<longleftrightarrow> 0 < rl_last l \<and> rl_last l \<le> e \<and>
     (rl_rate l = 0 \<and> rl_burst l = 0 \<and> rl_tokens l = 0 \<or> lim_ok (rl_rate l) (rl_burst l) l)"

fun by_instant :: "time \<Rightarrow> wait_event \<Rightarrow> bool" where
  "by_instant e (Attempt t) \<longleftrightarrow> 0 < t \<and> t \<le> e"
| "by_instant e CtxDone \<longleftrightarrow> True"
| "by_instant e (Other lop) \<longleftrightarrow> 0 < op_time (Call lop) \<and> op_time (Call lop) \<le> e"

lemma replenish_any: "lim_any e l \<Longrightarrow> 0 < t \<Longrightarrow> t \<le> e \<Longrightarrow> lim_any e (replenish t l)"
  using replenish_ok [of "rl_rate l" "rl_burst l" l t]
  by (auto simp: lim_any_def) (auto simp: replenish_def Let_def)

lemma recompute_any:
  assumes "0 \<le> rl_tokens l" and "0 < t" and "t \<le> e"
  shows "lim_any e (recomputeLocked t i l)"
proof (cases "effective_bps l = 0")
  case True
  then show ?thesis using assms(2,3) by (simp add: lim_any_def recomputeLocked_def Let_def bps_rate_def rate_burst_def)
next
  case False
  from recompute_effective [OF this order_refl assms(1), of t i] assms(2,3) show ?thesis
    by (simp add: lim_any_def) (simp add: recomputeLocked_def Let_def)
qed

lemma lim_any_tokens: "lim_any e l \<Longrightarrow> 0 \<le> rl_tokens l"
  by (auto simp: lim_any_def lim_ok_def)

lemma spend_any: "lim_any e l \<Longrightarrow> rl_rate l \<noteq> 0 \<Longrightarrow> 1 \<le> c \<Longrightarrow> of_int c \<le> rl_tokens l \<Longrightarrow> lim_any e (l\<lparr>rl_tokens := rl_tokens l - of_int c\<rparr>)"
  using spend_ok [of "rl_rate l" "rl_burst l" l c] by (simp add: lim_any_def)

lemma apply_any:
  assumes "lim_any e l" and "0 < op_time (Call lop)" and "op_time (Call lop) \<le> e"
  shows "lim_any e (limiter_apply lop l)"
proof (cases lop)
  case (LimTry t n)
  have "lim_any e (replenish t l)" using assms LimTry by (intro replenish_any) auto
  then show ?thesis using LimTry assms(1) spend_any [of e "replenish t l" n]
    by (auto simp: Try_def Let_def not_less int_one_le_iff_zero_less)
qed (use assms lim_any_tokens [OF replenish_any [OF assms]] in
  \<open>auto simp: SetOverrideBPS_def ClearOverrideBPS_def intro!: recompute_any\<close>)

lemma attempt_any:
  assumes "lim_any e l" and "0 < n" and "0 < t" and "t \<le> e"
  shows "lim_any e (snd (wait_attempt t n l))"
proof (cases "rl_rate l = 0")
  case True
  then show ?thesis using replenish_any [OF assms(1,3,4)] by (simp add: wait_attempt_def Let_def)
next
  case False
  then have ok: "lim_ok (rl_rate l) (rl_burst l) l" using assms(1) by (simp add: lim_any_def)
  show ?thesis
    using replenish_any [OF assms(1,3,4)] spend_any [of e "replenish t l"] False chunk_bounds(1) [OF ok assms(2)]
    unfolding attempt_chunk [OF ok assms(2)] by auto
qed

lemma bucket_any:
  "lim_any e (fst s) \<Longrightarrow> \<forall>x \<in> set ops. 0 < op_time x \<and> op_time x \<le> e \<Longrightarrow> lim_any e (fst (foldl bucket_step s ops))"
proof (induction ops arbitrary: s)
  case (Cons x ops)
  obtain l g where s: "s = (l, g)" by (cases s)
  have "lim_any e (fst (bucket_step s x))"
  proof (cases x)
    case (Call lop)
    then show ?thesis using Cons.prems s apply_any [of e l lop] by simp
  next
    case (Pass t n)
    then show ?thesis using Cons.prems s attempt_any [of e l n t] by (auto split: prod.splits attempt.splits)
  qed
  with Cons show ?case by simp
qed simp

lemma pending_continues:
  assumes "run_wait es b n l = (WaitPending n', l')" and "lim_any e l" and "\<forall>x \<in> set es. by_instant e x"
  shows "lim_any e l' \<and> 0 < n' \<and> (\<exists>b'. \<forall>es'. run_wait (es @ es') b n l = run_wait es' b' n' l')"
  using assms
proof (induction es arbitrary: b n l)
  case Nil
  then show ?case by (auto split: if_splits)
next
  case (Cons x es)
  have n: "0 < n" using Cons.prems(1) by (auto split: if_splits)
  show ?case
  proof (cases x)
    case (Attempt t)
    obtain a l1 where a: "wait_attempt t n l = (a, l1)" by (meson surj_pair)
    have "lim_any e l1" using attempt_any [OF Cons.prems(2) n, of t] Cons.prems(3) Attempt a by simp
    then show ?thesis using Cons.IH Cons.prems n Attempt a by (cases a) auto
  next
    case CtxDone
    then show ?thesis using Cons.IH [of b n l] Cons.prems n by (auto split: if_splits)
  next
    case (Other lop)
    then show ?thesis using Cons.IH [of b n "limiter_apply lop l"] Cons.prems n apply_any [of e l lop] by auto
  qed
qed

section \<open>Properties\<close>



text \<open>
  One critical section leaves the limiter alone, or brings it up to its clock reading and lets
  through no more than what that gave it.
\<close>

lemma step_spends:
  assumes "lim_ok R B l" and "rl_last l \<le> op_time e"
  shows "bucket_step (l, g) e = (l, g) \<or>
    (rl_last (fst (bucket_step (l, g) e)) = op_time e \<and>
     of_int (snd (bucket_step (l, g) e)) + rl_tokens (fst (bucket_step (l, g) e)) \<le> of_int g + rl_tokens (replenish (op_time e) l))"
proof (cases e)
  case (Pass now n)
  have last: "rl_last (replenish now l) = now" using assms(2) Pass by (simp add: replenish_last)
  show ?thesis
  proof (cases "0 < n")
    case True
    from attempt_cases [OF assms(1) True, of now] obtain c where "1 \<le> c" "wait_attempt now n l =
      (if of_int c \<le> rl_tokens (replenish now l)
       then (Granted c, (replenish now l)\<lparr>rl_tokens := rl_tokens (replenish now l) - of_int c\<rparr>)
       else (Blocked (max millisecond
               (trunc_float ((of_int c - rl_tokens (replenish now l)) / rl_rate l * of_int second))), replenish now l))"
      by metis
    then show ?thesis using Pass last True by auto
  qed (use Pass in simp)
next
  case (Call lop)
  show ?thesis
  proof (cases lop)
    case (LimTry now n)
    have last: "rl_last (replenish now l) = now" using assms(2) Call LimTry by (simp add: replenish_last)
    show ?thesis
      using Call LimTry last try_cases [OF assms(1), of n now] by (cases "0 < n") (auto simp: Try_def)
  qed (use Call replenish_ok [OF assms(1), of "op_time e"] assms(1) in
      \<open>auto simp: SetOverrideBPS_def ClearOverrideBPS_def recomputeLocked_def Let_def lim_ok_def\<close>)
qed

definition window_inv :: "uint64 \<Rightarrow> time \<Rightarrow> byteRateLimiter \<times> int \<Rightarrow> bool" where
  "window_inv base t1 s \<longleftrightarrow> base \<noteq> 0 \<and> rl_baseBPS (fst s) = base \<and> lim_ok (bps_rate base) (rate_burst (bps_rate base)) (fst s) \<and>
     (snd s = 0 \<and> rl_last (fst s) \<le> t1 \<or>
      t1 \<le> rl_last (fst s) \<and>
      of_int (snd s) + rl_tokens (fst s) \<le> rate_burst (bps_rate base) + bps_rate base * seconds (rl_last (fst s) - t1))"

lemma window_step:
  assumes "window_inv base t1 s" and "rl_last (fst s) \<le> op_time e" and "t1 \<le> op_time e"
  shows "window_inv base t1 (bucket_step s e)"
proof -
  obtain l g where s: "s = (l, g)" by (cases s)
  let ?R = "bps_rate base" and ?B = "rate_burst (bps_rate base)" and ?t = "op_time e"
  have ok: "base \<noteq> 0" "rl_baseBPS l = base" "lim_ok ?R ?B l" "rl_last l \<le> ?t" using assms s by (auto simp: window_inv_def)
  have ok': "lim_ok ?R ?B (fst (bucket_step (l, g) e))"
    using grant_step [OF ok(3,4), of g] limit_step [OF ok(3,4), of g] ok(1,2) by (cases "keeps_limits e") auto
  have R: "0 \<le> ?R" using ok(3) by (auto simp: lim_ok_def)
  have cap: "rl_tokens (replenish ?t l) \<le> ?B" using replenish_ok [OF ok(3), of ?t] by (auto simp: lim_ok_def)
  have grow: "0 \<le> ?R * seconds (?t - t1)" using R assms(3) by (intro mult_nonneg_nonneg) auto
  show ?thesis
  proof (cases "bucket_step (l, g) e = (l, g)")
    case True
    with assms(1) s show ?thesis by simp
  next
    case False
    with step_spends [OF ok(3,4), of g] have step: "rl_last (fst (bucket_step (l, g) e)) = ?t"
      "of_int (snd (bucket_step (l, g) e)) + rl_tokens (fst (bucket_step (l, g) e)) \<le> of_int g + rl_tokens (replenish ?t l)" by auto
    have "of_int g + rl_tokens (replenish ?t l) \<le> ?B + ?R * seconds (?t - t1)"
    proof (cases "g = 0 \<and> rl_last l \<le> t1")
      case True
      with cap grow show ?thesis by simp
    next
      case False
      then have "of_int g + rl_tokens l \<le> ?B + ?R * seconds (rl_last l - t1)" using assms(1) s by (auto simp: window_inv_def)
      moreover have "?R * seconds (rl_last l - t1) + ?R * seconds (?t - rl_last l) = ?R * seconds (?t - t1)"
        by (simp add: seconds_diff algebra_simps)
      ultimately show ?thesis using replenish_tokens_le [OF ok(3,4)] by linarith
    qed
    with step ok ok' assms(3) s show ?thesis by (auto simp: window_inv_def)
  qed
qed

lemma window_run:
  assumes "window_inv base t1 s" and "sorted (map op_time ops)" and "\<forall>e \<in> set ops. rl_last (fst s) \<le> op_time e \<and> t1 \<le> op_time e \<and> op_time e \<le> t2"
    and "rl_last (fst s) \<le> t2"
  shows "window_inv base t1 (foldl bucket_step s ops) \<and> rl_last (fst (foldl bucket_step s ops)) \<le> t2"
  using assms
proof (induction ops arbitrary: s)
  case (Cons e ops)
  have "rl_last (fst (bucket_step s e)) \<le> op_time e"
    using Cons.prems(1,3) step_spends [of "bps_rate base" "rate_burst (bps_rate base)" "fst s" e "snd s"]
    by (auto simp: window_inv_def)
  moreover from Cons.prems have "window_inv base t1 (bucket_step s e)" by (intro window_step) auto
  ultimately show ?case using Cons.prems Cons.IH [of "bucket_step s e"] by (fastforce intro: order_trans)
qed simp

text \<open>
  C22: No window lets more through. Whatever was called on a limited Flow before, overrides
  included, and whatever is called in a window of time, the bytes let through in that window
  are at most the policy's burst plus its rate over the length of the window: allowance that
  was not used before the window adds at most the burst.
\<close>

theorem rate_limit_window_bound:
  assumes "base \<noteq> 0" and "sorted (map op_time (earlier @ during))" and "\<forall>e \<in> set earlier. t0 \<le> op_time e \<and> op_time e \<le> t1"
    and "\<forall>e \<in> set during. t1 \<le> op_time e \<and> op_time e \<le> t2" and "t0 \<le> t1" and "t1 \<le> t2"
    and "l = fst (foldl bucket_step (newByteRateLimiter t0 base, 0) earlier)"
  shows "of_int (snd (foldl bucket_step (l, 0) during)) \<le> rate_burst (bps_rate base) + bps_rate base * seconds (t2 - t1)"
proof -
  let ?l0 = "newByteRateLimiter t0 base" and ?R = "bps_rate base"
  have l0: "rl_last ?l0 = t0" "rl_baseBPS ?l0 = base"
    by (simp_all add: newByteRateLimiter_def recomputeLocked_def Let_def)
  have "lim_ok ?R (rate_burst ?R) ?l0"
    unfolding newByteRateLimiter_def using assms(1) by (intro recompute_ok) auto
  with bucket_run [of ?R ?l0 earlier t1 0] assms(1,2,3,5) l0
  have l: "lim_ok ?R (rate_burst ?R) l" "rl_last l \<le> t1" unfolding assms(7) by (auto simp: sorted_append)
  have "rl_baseBPS (fst (foldl bucket_step s xs)) = rl_baseBPS (fst s)" for s xs
    by (induction xs arbitrary: s) (auto simp: base_fixed [of "fst s" "snd s" for s, simplified])
  with l0(2) have "rl_baseBPS l = base" by (simp add: assms(7))
  with l assms(1) have "window_inv base t1 (l, 0)" by (simp add: window_inv_def)
  from window_run [OF this, of during t2] assms(2,4,6) l(2)
  have w: "window_inv base t1 (foldl bucket_step (l, 0) during)" "rl_last (fst (foldl bucket_step (l, 0) during)) \<le> t2"
    by (auto simp: sorted_append intro: order_trans)
  have R: "0 \<le> ?R" using l(1) by (auto simp: lim_ok_def)
  have "?R * seconds (rl_last (fst (foldl bucket_step (l, 0) during)) - t1) \<le> ?R * seconds (t2 - t1)"
    using w(2) R by (intro mult_left_mono seconds_mono) auto
  moreover have "0 \<le> ?R * seconds (t2 - t1)" using R assms(6) by (intro mult_nonneg_nonneg) auto
  moreover have "0 \<le> rate_burst ?R" using l(1) by (auto simp: lim_ok_def)
  moreover have "0 \<le> rl_tokens (fst (foldl bucket_step (l, 0) during))" using w(1) by (auto simp: window_inv_def lim_ok_def)
  moreover from w(1) have "snd (foldl bucket_step (l, 0) during) = 0 \<or>
      of_int (snd (foldl bucket_step (l, 0) during)) + rl_tokens (fst (foldl bucket_step (l, 0) during))
        \<le> rate_burst ?R + ?R * seconds (rl_last (fst (foldl bucket_step (l, 0) during)) - t1)"
    unfolding window_inv_def by blast
  ultimately show ?thesis by (elim disjE) (simp, linarith)
qed

theorem rate_limit_window_bound_witness:
  "of_int (snd (foldl bucket_step (fst (foldl bucket_step (newByteRateLimiter 5 80000, 0) [Call (LimTry 6 1000), Call (LimSetOverride 7 8000)]), 0)
      [Pass 3000000000 400, Call (LimClearOverride 3000000001)]))
    \<le> rate_burst (bps_rate 80000) + bps_rate 80000 * seconds (4000000000 - 3000000000)"
proof -
  have "(80000 :: uint64) \<noteq> 0" by simp
  from rate_limit_window_bound [OF this, of "[Call (LimTry 6 1000), Call (LimSetOverride 7 8000)]"
      "[Pass 3000000000 400, Call (LimClearOverride 3000000001)]" 5 3000000000 4000000000]
  show ?thesis by simp
qed

text \<open>
  A temporary override takes effect at once: from the moment it is set, and as long as
  no other override replaces it, the bytes let through exceed neither the override's burst
  nor its rate over the elapsed time.
\<close>

lemma rate_limit_override_bound:
  assumes "bps \<noteq> 0" and "0 \<le> rl_tokens (replenish t0 l)" and "list_all keeps_limits ops"
    and "sorted (map op_time ops)" and "\<forall>e \<in> set ops. t0 \<le> op_time e \<and> op_time e \<le> t1" and "t0 \<le> t1"
  shows "of_int (snd (foldl bucket_step (SetOverrideBPS t0 bps l, 0) ops))
    \<le> rate_burst (bps_rate bps) + bps_rate bps * seconds (t1 - t0)"
proof -
  let ?l = "SetOverrideBPS t0 bps l" and ?R = "bps_rate bps"
  have l: "rl_last ?l = t0" by (simp add: SetOverrideBPS_def recomputeLocked_def Let_def)
  have "effective_bps ((replenish t0 l)\<lparr>rl_overrideBPS := bps\<rparr>) \<noteq> 0"
    "effective_bps ((replenish t0 l)\<lparr>rl_overrideBPS := bps\<rparr>) \<le> bps"
    using assms(1) by (auto simp: effective_bps_def word_neq_0_conv not_less)
  then have ok: "lim_ok ?R (rate_burst ?R) ?l"
    unfolding SetOverrideBPS_def using assms(2) by (intro recompute_effective) auto
  from bucket_run [OF ok assms(4), of t1 0] assms l
  have "balance ?R (foldl bucket_step (?l, 0) ops) \<le> balance ?R (?l, 0)"
    "lim_ok ?R (rate_burst ?R) (fst (foldl bucket_step (?l, 0) ops))"
    "rl_last (fst (foldl bucket_step (?l, 0) ops)) \<le> t1" by auto
  from granted_bound [OF this ok] l show ?thesis by simp
qed

lemma rate_limit_override_bound_sample:
  "of_int (snd (foldl bucket_step (SetOverrideBPS 7 8000 (newByteRateLimiter 5 0), 0)
      [Call (LimTry 8 1000), Pass 9 5000]))
    \<le> rate_burst (bps_rate 8000) + bps_rate 8000 * seconds (1000000007 - 7)"
proof -
  have "0 \<le> rl_tokens (replenish 7 (newByteRateLimiter 5 0))" by code_simp
  then show ?thesis by (intro rate_limit_override_bound) simp_all
qed

text \<open>
  C23: A TCP wait completes. Take a Flow's limiter after any calls of any goroutine, and a
  wait of any size that is still pending after any passes of its own and any calls of others
  in between, overrides included. Once nothing disturbs it any more, it returns without error
  within three passes per byte that is left, each made not before the timer of the one before.
\<close>

theorem wait_completes:
  assumes "l = fst (foldl bucket_step (newByteRateLimiter t0 base, 0) ops)"
    and "0 < t0" and "t0 \<le> e" and "\<forall>x \<in> set ops. 0 < op_time x \<and> op_time x \<le> e"
    and "Wait es n (Some l) = (WaitPending left, Some l')" and "\<forall>x \<in> set es. by_instant e x"
    and "timely e ts left l'" and "3 * left \<le> int (length ts)"
  shows "fst (Wait (es @ map Attempt ts) n (Some l)) = WaitDone"
proof -
  have "lim_any e (newByteRateLimiter t0 base)"
    unfolding newByteRateLimiter_def using assms(2,3) by (intro recompute_any) auto
  then have any: "lim_any e l" using bucket_any [of e "(newByteRateLimiter t0 base, 0)" ops] assms(1,4) by simp
  have run: "run_wait es False n l = (WaitPending left, l')" and W: "Wait xs n (Some l) = apsnd Some (run_wait xs False n l)" for xs
    using assms(5) by (cases "run_wait es False n l", auto simp: Wait_def split: if_splits)
  from pending_continues [OF run any assms(6)] obtain b where
      p: "lim_any e l'" "0 < left" "run_wait (es @ map Attempt ts) False n l = run_wait (map Attempt ts) b left l'" by blast
  have "fst (run_wait (map Attempt ts) b left l') = WaitDone"
  proof (cases "rl_rate l' = 0")
    case True
    moreover obtain t ts' where "ts = t # ts'" using assms(8) p(2) by (cases ts) auto
    ultimately show ?thesis using p(2) by (simp add: wait_attempt_def Let_def)
  next
    case False
    then have "lim_ok (rl_rate l') (rl_burst l') l'" "ready 3 left l' e" using p(1) by (auto simp: lim_any_def ready_def)
    from wait_finishes [OF this assms(7)] assms(8) show ?thesis by simp
  qed
  then show ?thesis using p(3) by (simp add: W)
qed

theorem wait_completes_witness:
  "fst (Wait ([Attempt 1000000000] @ map Attempt [1000000000, 1001000000, 1002000000]) 1501
     (Some (fst (foldl bucket_step (newByteRateLimiter 1000000000 80000, 0) [Call (LimSetOverride 1000000000 8000)])))) = WaitDone"
proof -
  let ?l = "fst (foldl bucket_step (newByteRateLimiter 1000000000 80000, 0) [Call (LimSetOverride 1000000000 8000)])"
  let ?ts = "[1000000000, 1001000000, 1002000000] :: time list"
  let ?m = "\<lambda>tokens. \<lparr>rl_baseBPS = 80000, rl_overrideBPS = 8000, rl_rate = 1000, rl_burst = 1500, rl_tokens = tokens,
      rl_last = 1000000000, rl_changed = 1\<rparr>"
  have l: "?l = ?m 1500"
    by (simp add: newByteRateLimiter_def SetOverrideBPS_def recomputeLocked_def replenish_def effective_bps_def bps_rate_def
        rate_burst_def seconds_def rateLimitBurstWindow_def minRateLimitBurst_def Let_def)
  have "Wait [Attempt 1000000000] 1501 (Some (?m 1500)) = (WaitPending 1, Some (?m 0))"
    by (simp add: Wait_def wait_attempt_def replenish_def seconds_def Let_def)
  moreover have "timely 1000000000 ?ts 1 (?m 0)"
    by (simp add: wait_attempt_def replenish_def seconds_def trunc_float_def time_sub_def min_duration_def max_duration_def Let_def)
  ultimately show ?thesis using l wait_completes [OF refl, of 1000000000 1000000000 "[Call (LimSetOverride 1000000000 8000)]" "[Attempt 1000000000]" 1501 80000 1 "?m 0" ?ts]
    by simp
qed

end
