(* ===== verification/Forwarding.thy ===== *)
theory Forwarding
  imports Flow Netip RateLimit
begin

text \<open>
  What the TCP and the UDP listener share: \<open>internal/forwarding/interfaces.go\<close>,
  \<open>rejection.go\<close> and \<open>backend.go\<close>, the choice of an upstream for a candidate
  (\<open>pickUpstream\<close> of \<open>forward_tcp.go\<close>, the same lines in \<open>buildMapping\<close>), and the
  address texts of package \<open>net\<close> they use. The admission policy and the picker are
  interfaces of the forwarding layer: functions that the definitions take as arguments.
\<close>

section \<open>Data\<close>

record Decision =
  dec_Allowed :: bool
  dec_RuleType :: string
  dec_RuleValue :: string
  dec_RuleID :: string
  dec_Action :: string
  dec_RateLimitBPS :: uint64
  dec_UpstreamOverride :: string

definition zero_decision :: Decision where
  "zero_decision = \<lparr>dec_Allowed = False, dec_RuleType = [], dec_RuleValue = [], dec_RuleID = [],
     dec_Action = [], dec_RateLimitBPS = 0, dec_UpstreamOverride = []\<rparr>"

definition allow_decision :: Decision where
  "allow_decision = zero_decision\<lparr>dec_Allowed := True\<rparr>"

record FwUpstream =
  fu_Tag :: string
  fu_Addr :: addr

datatype pick_error = PickerUnavailable | OverrideNotSupported | PickFailed string

text \<open>
  A picker: its \<open>Pick\<close>, its \<open>PickOverride\<close> when it implements \<open>OverridePicker\<close>, and
  whether it implements \<open>DialFeedback\<close>.
\<close>

record UpstreamPicker =
  pk_Pick :: "Meta \<Rightarrow> string + FwUpstream"
  pk_PickOverride :: "(Meta \<Rightarrow> string \<Rightarrow> string + FwUpstream) option"
  pk_Feedback :: bool

datatype feedback_call = FbMarkDialFailure FwUpstream duration | FbClearDialFailure FwUpstream

section \<open>Addresses of package \<open>net\<close>\<close>

text \<open>\<open>net.UDPAddr\<close> and its text; a nil address is printed without a host.\<close>

record UDPAddr =
  ua_IP :: netIP
  ua_Port :: int
  ua_Zone :: string

definition JoinHostPort :: "string \<Rightarrow> string \<Rightarrow> string" where
  "JoinHostPort host port =
     (if CHR '':'' \<in> set host then ''['' @ host @ '']:'' @ port else host @ '':'' @ port)"

definition UDPAddr_String :: "UDPAddr \<Rightarrow> string" where
  "UDPAddr_String a =
     JoinHostPort
       ((case ua_IP a of None \<Rightarrow> [] | Some bs \<Rightarrow> if bs = [] then [] else net_ip_text (Some bs)) @ zone_text (ua_Zone a))
       (Itoa (ua_Port a))"

text \<open>\<open>net.SplitHostPort\<close>\<close>

definition SplitHostPort :: "string \<Rightarrow> (string \<times> string) option" where
  "SplitHostPort s =
     (case cut_last CHR '':'' s of
        None \<Rightarrow> None
      | Some (before, port) \<Rightarrow>
          if s \<noteq> [] \<and> hd s = CHR ''['' then
            (case cut_first CHR '']'' s of
               None \<Rightarrow> None
             | Some (bracketed, rest) \<Rightarrow>
                 if length bracketed + 1 \<noteq> length before then None
                 else if CHR ''['' \<in> set (tl s) \<or> CHR '']'' \<in> set rest then None
                 else Some (tl bracketed, port))
          else if CHR '':'' \<in> set before then None
          else if CHR ''['' \<in> set s \<or> CHR '']'' \<in> set s then None
          else Some (before, port))"

definition clientIPFromAddr :: "string \<Rightarrow> string" where
  "clientIPFromAddr a = (case SplitHostPort a of Some (host, _) \<Rightarrow> host | None \<Rightarrow> a)"

section \<open>Candidates and rejections\<close>

definition parseClientAddr :: "string \<Rightarrow> addr_port" where
  "parseClientAddr raw =
     (case ParseAddrPort raw of
        Some ap \<Rightarrow> ap
      | None \<Rightarrow> (case ParseAddr raw of Some a \<Rightarrow> \<lparr>ap_addr = a, ap_port = 0\<rparr> | None \<Rightarrow> zero_addr_port))"

definition emitRejection ::
    "time \<Rightarrow> bool \<Rightarrow> string \<Rightarrow> string \<Rightarrow> string \<Rightarrow> string \<Rightarrow> Decision \<Rightarrow> obs_call list" where
  "emitRejection now observer protocol listener clientAddress reason decision =
     (if \<not> observer \<or> clientAddress = [] then []
      else let clientAddr = parseClientAddr clientAddress
           in if \<not> addr_port_valid clientAddr then []
              else [ObsReject \<lparr>rej_Protocol = protocol, rej_ClientAddr = clientAddr, rej_Listener = listener,
                     rej_Reason = reason, rej_MatchedRuleType = dec_RuleType decision,
                     rej_MatchedRuleValue = dec_RuleValue decision, rej_RecordedAt = now\<rparr>])"

definition newCandidateMeta :: "time \<Rightarrow> string \<Rightarrow> string \<Rightarrow> string \<Rightarrow> string \<Rightarrow> Meta option" where
  "newCandidateMeta now protocol clientAddress listener route =
     (let a = parseClientAddr clientAddress
      in if \<not> addr_port_valid a then None
         else Some \<lparr>meta_ID = [], meta_Protocol = protocol, meta_ClientAddr = a, meta_Listener = listener,
                    meta_Route = route, meta_Upstream = [], meta_StartedAt = now\<rparr>)"

section \<open>The choice of an upstream\<close>

definition pickUpstream :: "UpstreamPicker option \<Rightarrow> Meta \<Rightarrow> Decision \<Rightarrow> pick_error + FwUpstream" where
  "pickUpstream picker candidate decision =
     (case picker of None \<Rightarrow> Inl PickerUnavailable
      | Some p \<Rightarrow>
          if dec_UpstreamOverride decision \<noteq> [] then
            (case pk_PickOverride p of
               None \<Rightarrow> Inl OverrideNotSupported
             | Some po \<Rightarrow> map_sum PickFailed id (po candidate (dec_UpstreamOverride decision)))
          else map_sum PickFailed id (pk_Pick p candidate))"

section \<open>The backend tuple\<close>

definition netAddrPort :: "string option \<Rightarrow> addr_port option" where
  "netAddrPort address = (case address of None \<Rightarrow> None | Some text \<Rightarrow> ParseAddrPort text)"

definition backendTuple :: "string \<Rightarrow> string \<Rightarrow> string option \<Rightarrow> string option \<Rightarrow> BackendTuple option" where
  "backendTuple protocol upstream loc remote =
     (case netAddrPort loc of None \<Rightarrow> None
      | Some localAddr \<Rightarrow>
          (case netAddrPort remote of None \<Rightarrow> None
           | Some remoteAddr \<Rightarrow>
               Some \<lparr>bt_Protocol = protocol, bt_BackendKey = TrimSpace upstream @ ''@'' @ addr_port_text remoteAddr,
                     bt_LocalAddr = localAddr, bt_RemoteAddr = remoteAddr\<rparr>))"

section \<open>Facts\<close>

lemma candidate_valid:
  "newCandidateMeta now p a l r = Some m \<Longrightarrow>
     addr_port_valid (meta_ClientAddr m) \<and> meta_ClientAddr m = parseClientAddr a \<and> meta_ID m = []"
  by (auto simp: newCandidateMeta_def Let_def split: if_splits)

lemma pickUpstream_override:
  "pickUpstream (Some p) c d = Inr u \<Longrightarrow> dec_UpstreamOverride d \<noteq> [] \<Longrightarrow>
     \<exists>po. pk_PickOverride p = Some po \<and> po c (dec_UpstreamOverride d) = Inr u"
  by (auto simp: pickUpstream_def split: option.splits) (metis map_sum.simps sum.exhaust sum.inject(2) id_apply sum.distinct(1))

section \<open>Address texts\<close>

text \<open>The characters of printed numbers and addresses: no separators, no brackets.\<close>

definition text_safe :: "string \<Rightarrow> bool" where
  "text_safe s \<longleftrightarrow> CHR ''['' \<notin> set s \<and> CHR '']'' \<notin> set s"

lemma text_safe_simps [simp]:
  "text_safe []" "text_safe (c # s) \<longleftrightarrow> c \<noteq> CHR ''['' \<and> c \<noteq> CHR '']'' \<and> text_safe s"
  "text_safe (a @ b) \<longleftrightarrow> text_safe a \<and> text_safe b"
  by (auto simp: text_safe_def)

lemma text_safe_concat: "\<forall>x \<in> set xs. text_safe x \<Longrightarrow> text_safe (concat xs)"
  by (induction xs) auto

lemma char_of_neq: "n < 256 \<Longrightarrow> n \<noteq> of_char c \<Longrightarrow> char_of n \<noteq> (c :: char)" for n :: nat
  by (metis of_char_of mod_less)

lemma digit_char_facts:
  "d < 10 \<Longrightarrow> digit_char d \<noteq> CHR ''['' \<and> digit_char d \<noteq> CHR '']'' \<and> digit_char d \<noteq> CHR '':''"
  unfolding digit_char_def by (intro conjI char_of_neq) auto

lemma hex_digit_facts: "d < 16 \<Longrightarrow> hex_digit d \<noteq> CHR ''['' \<and> hex_digit d \<noteq> CHR '']''"
  using char_of_neq [of "48 + d"] char_of_neq [of "87 + d"]
  by (auto simp: hex_digit_def dest: sym)

lemma nat_text_safe: "text_safe (nat_text n) \<and> CHR '':'' \<notin> set (nat_text n)"
proof (induction n rule: nat_text.induct)
  case (1 n)
  have "n mod 10 < 10" by simp
  with 1 digit_char_facts [of n] digit_char_facts [of "n mod 10"] show ?case
    by (subst (1 2) nat_text.simps) auto
qed

lemma hex_text_safe: "text_safe (hex_text n)"
proof (induction n rule: hex_text.induct)
  case (1 n)
  have "n mod 16 < 16" by simp
  with 1 hex_digit_facts [of n] hex_digit_facts [of "n mod 16"] show ?case
    by (subst hex_text.simps) auto
qed

lemma join_safe: "text_safe sep \<Longrightarrow> \<forall>x \<in> set xs. text_safe x \<Longrightarrow> text_safe (join sep xs)"
  by (cases xs) (auto simp: join_def intro!: text_safe_concat)

lemma v4_text_safe: "text_safe (v4_text w)"
  by (auto simp: v4_text_def nat_text_safe intro!: join_safe)

lemma v6_text_safe: "text_safe (v6_text w)"
  by (auto simp: v6_text_def Let_def hex_text_safe intro!: join_safe split: option.splits)

lemma net_ip_text_safe: "text_safe (net_ip_text ip)"
proof -
  have "unat (b :: byte) div 16 < 16 \<and> unat b mod 16 < 16" for b
    using unat_byte [of b] by auto
  then show ?thesis
    by (auto simp: net_ip_text_def v4_text_safe v6_text_safe hex_digit_facts
        intro!: text_safe_concat split: option.splits)
qed

lemma Itoa_safe: "text_safe (Itoa i) \<and> CHR '':'' \<notin> set (Itoa i)"
  using nat_text_safe by (auto simp: Itoa_def)

lemma cut_last_append: "c \<notin> set b \<Longrightarrow> cut_last c (a @ c # b) = Some (a, b)"
proof -
  assume "c \<notin> set b"
  then have "takeWhile (\<lambda>x. x \<noteq> c) (rev b @ c # rev a) = rev b" "dropWhile (\<lambda>x. x \<noteq> c) (rev b @ c # rev a) = c # rev a"
    by (auto simp: takeWhile_append dropWhile_append)
  then show ?thesis by (simp add: cut_last_def cut_first_def)
qed

lemma cut_first_append: "c \<notin> set a \<Longrightarrow> cut_first c (a @ c # b) = Some (a, b)"
proof -
  assume "c \<notin> set a"
  then have "takeWhile (\<lambda>x. x \<noteq> c) (a @ c # b) = a" "dropWhile (\<lambda>x. x \<noteq> c) (a @ c # b) = c # b"
    by (auto simp: takeWhile_append dropWhile_append)
  then show ?thesis by (simp add: cut_first_def)
qed

text \<open>\<open>SplitHostPort\<close> undoes \<open>JoinHostPort\<close>.\<close>

lemma split_join_host_port:
  assumes "text_safe host" and "text_safe port" and "CHR '':'' \<notin> set port"
  shows "SplitHostPort (JoinHostPort host port) = Some (host, port)"
proof (cases "CHR '':'' \<in> set host")
  case True
  have eq: "JoinHostPort host port = (CHR ''['' # host @ '']'') @ CHR '':'' # port"
    "JoinHostPort host port = (CHR ''['' # host) @ CHR '']'' # CHR '':'' # port"
    using True by (simp_all add: JoinHostPort_def)
  have "cut_last CHR '':'' (JoinHostPort host port) = Some (CHR ''['' # host @ '']'', port)"
    unfolding eq(1) using assms(3) by (rule cut_last_append)
  moreover have "cut_first CHR '']'' (JoinHostPort host port) = Some (CHR ''['' # host, CHR '':'' # port)"
    unfolding eq(2) using assms(1) by (intro cut_first_append) (auto simp: text_safe_def)
  ultimately show ?thesis
    using assms True by (simp add: SplitHostPort_def JoinHostPort_def text_safe_def)
next
  case False
  then have "cut_last CHR '':'' (JoinHostPort host port) = Some (host, port)"
    using cut_last_append [OF assms(3), of host] by (simp add: JoinHostPort_def)
  with assms False show ?thesis
    by (cases host) (auto simp: SplitHostPort_def JoinHostPort_def text_safe_def)
qed

lemma client_ip_text:
  assumes "ua_IP a = Some bs" and "bs \<noteq> []" and "text_safe (ua_Zone a)"
  shows "clientIPFromAddr (UDPAddr_String a) = net_ip_text (ua_IP a) @ zone_text (ua_Zone a)"
proof -
  have "SplitHostPort (UDPAddr_String a) = Some (net_ip_text (ua_IP a) @ zone_text (ua_Zone a), Itoa (ua_Port a))"
    unfolding UDPAddr_String_def using assms
    by (subst split_join_host_port) (auto simp: net_ip_text_safe Itoa_safe zone_text_def)
  then show ?thesis by (simp add: clientIPFromAddr_def)
qed

end
