(* ===== verification/UdpForward.thy ===== *)
theory UdpForward
  imports Forwarding
begin

text \<open>
  \<open>internal/forwarding/forward_udp.go\<close>: the UDP listener's table of mappings. Mappings
  are objects shared between goroutines, so they live in a heap \<open>ul_heap\<close> and the table
  holds their indices. Each critical section of the code is one step of the model, and the
  theorems quantify over every sequence of steps, that is over every interleaving of the
  packet workers, the read loops, the idle watchers and the controllers:

  \<^item> \<open>getOrReserveMapping\<close> (under \<open>mu\<close>) either finds a mapping, finds a pending
    reservation, refuses, or reserves;
  \<^item> \<open>buildMapping\<close> runs outside \<open>mu\<close> by the worker that owns the reservation, and
    \<open>finishReservation\<close> (under \<open>mu\<close>) publishes its outcome;
  \<^item> \<open>closeWithReason\<close> sets \<open>closed\<close> under \<open>controlMu\<close>, then calls
    \<open>removeMapping\<close> (under \<open>mu\<close>), then closes the lifecycle and gives its slot back:
    the field \<open>mp_phase\<close> is the place where the closing goroutine is.

  A socket read or write, a dial, the picker and the entropy of an identifier are arguments
  of the step that performs them. Log events are left out.
\<close>

section \<open>Data\<close>

definition udpDialFailureCooldown :: duration where
  "udpDialFailureCooldown = 5 * second"

definition udpPacketQueueSize :: nat where
  "udpPacketQueueSize = 1024"

definition udpMaxMappingsPerIP :: int where
  "udpMaxMappingsPerIP = 50"

datatype udp_error =
    ErrUpstreamSelection
  | ErrUpstreamDial
  | ErrMappingLimit
  | ErrPerIPLimit
  | ErrRateLimited
  | ErrClientAddr
  | ErrFlowID
  | ErrWrite

datatype phase = Live | Closing string | Removed string | Released

record udpMapping =
  mp_clientAddrStr :: string
  mp_clientIP :: string
  mp_upstreamTag :: string
  mp_rateLimiter :: byteRateLimiter
  mp_id :: string
  mp_closed :: bool
  mp_activityCh :: bool
  mp_lifecycle :: "unit Lifecycle"
  mp_phase :: phase

text \<open>A reservation, with the local state of the worker that owns it: its IP and its result.\<close>

record udpMappingReservation =
  rv_clientIP :: string
  rv_result :: "(udp_error + nat) option"

record UDPListener =
  ul_BindAddr :: string
  ul_BindPort :: int
  ul_Route :: string
  ul_timeout :: duration
  ul_observer :: bool
  ul_registry :: "unit FlowRegistry option"
  ul_binder :: bool
  ul_semCap :: nat
  ul_sem :: nat
  ul_mappings :: "(string, nat) gomap"
  ul_pending :: "(string, udpMappingReservation) gomap"
  ul_ipCounts :: "(string, int) gomap"
  ul_maxPerIP :: int
  ul_heap :: "udpMapping list"
  ul_calls :: "obs_call list"
  ul_feedback :: "feedback_call list"
  ul_binds :: "(string \<times> BackendTuple) list"
  ul_drops :: "int list"

definition NewUDPListener ::
    "string \<Rightarrow> int \<Rightarrow> string \<Rightarrow> nat \<Rightarrow> duration \<Rightarrow> bool \<Rightarrow> unit FlowRegistry option \<Rightarrow> bool \<Rightarrow> UDPListener" where
  "NewUDPListener addr port route maxMappings timeout observer registry binder =
     \<lparr>ul_BindAddr = addr, ul_BindPort = port, ul_Route = route, ul_timeout = timeout,
      ul_observer = observer, ul_registry = registry, ul_binder = binder,
      ul_semCap = maxMappings, ul_sem = 0, ul_mappings = [], ul_pending = [], ul_ipCounts = [],
      ul_maxPerIP = udpMaxMappingsPerIP, ul_heap = [], ul_calls = [], ul_feedback = [], ul_binds = [], ul_drops = []\<rparr>"

definition udp_listenAddr :: "UDPListener \<Rightarrow> string" where
  "udp_listenAddr l = JoinHostPort (ul_BindAddr l) (Itoa (ul_BindPort l))"

section \<open>The mapping table\<close>

definition lookupMapping :: "string \<Rightarrow> UDPListener \<Rightarrow> nat option" where
  "lookupMapping key l = gget (ul_mappings l) key"

datatype reserve_result = FoundMapping nat | FoundPending | Refused udp_error | ReservedSlot

definition getOrReserveMapping :: "string \<Rightarrow> string \<Rightarrow> UDPListener \<Rightarrow> reserve_result \<times> UDPListener" where
  "getOrReserveMapping key clientIP l =
     (case gget (ul_mappings l) key of
        Some oid \<Rightarrow> (FoundMapping oid, l)
      | None \<Rightarrow>
          (case gget (ul_pending l) key of
             Some _ \<Rightarrow> (FoundPending, l)
           | None \<Rightarrow>
               if clientIP \<noteq> [] \<and> gget_default 0 (ul_ipCounts l) clientIP \<ge> ul_maxPerIP l then (Refused ErrPerIPLimit, l)
               else if ul_sem l \<ge> ul_semCap l then (Refused ErrMappingLimit, l)
               else (ReservedSlot,
                     l\<lparr>ul_sem := ul_sem l + 1,
                       ul_pending := gput key \<lparr>rv_clientIP = clientIP, rv_result = None\<rparr> (ul_pending l),
                       ul_ipCounts := (if clientIP \<noteq> [] then
                           gput clientIP (gget_default 0 (ul_ipCounts l) clientIP + 1) (ul_ipCounts l)
                         else ul_ipCounts l)\<rparr>)))"

definition decrement_ip :: "string \<Rightarrow> (string, int) gomap \<Rightarrow> (string, int) gomap" where
  "decrement_ip clientIP counts =
     (if clientIP = [] then counts
      else if gget_default 0 counts clientIP > 1 then gput clientIP (gget_default 0 counts clientIP - 1) counts
      else gdel clientIP counts)"

text \<open>The worker's inputs from outside: clock, picker, dial and entropy.\<close>

record build_input =
  bi_now :: time
  bi_picker :: "UpstreamPicker option"
  bi_dial :: "FwUpstream \<Rightarrow> (string \<times> string) option"
  bi_entropy :: "byte list option"

definition dial_feedback :: "UpstreamPicker \<Rightarrow> feedback_call \<Rightarrow> feedback_call list" where
  "dial_feedback p c = (if pk_Feedback p then [c] else [])"

definition open_mapping ::
    "string \<Rightarrow> Meta \<Rightarrow> Decision \<Rightarrow> FwUpstream \<Rightarrow> build_input \<Rightarrow> addr_port \<Rightarrow> string \<Rightarrow> string \<Rightarrow> string \<Rightarrow>
     UDPListener \<Rightarrow> udpMapping \<times> UDPListener" where
  "open_mapping key candidate decision selected inp endpoint fid localText remoteText l =
     (let lc0 = NewLifecycle (bi_now inp)
            \<lparr>meta_ID = fid, meta_Protocol = ProtocolUDP, meta_ClientAddr = endpoint, meta_Listener = udp_listenAddr l,
             meta_Route = ul_Route l, meta_Upstream = fu_Tag selected, meta_StartedAt = meta_StartedAt candidate\<rparr>
            (ul_observer l) (Some id);
          (lc, reg, calls) = Lifecycle_Open (lc0, ul_registry l, ul_calls l);
          binds = (if ul_binder l then
                     (case backendTuple ProtocolUDP (fu_Tag selected) (Some localText) (Some remoteText) of
                        None \<Rightarrow> [] | Some tuple \<Rightarrow> [(fid, tuple)])
                   else [])
      in (\<lparr>mp_clientAddrStr = key, mp_clientIP = clientIPFromAddr key, mp_upstreamTag = fu_Tag selected,
           mp_rateLimiter = newByteRateLimiter (bi_now inp) (dec_RateLimitBPS decision), mp_id = fid,
           mp_closed = False, mp_activityCh = False, mp_lifecycle = lc, mp_phase = Live\<rparr>,
          l\<lparr>ul_registry := reg, ul_calls := calls, ul_binds := ul_binds l @ binds\<rparr>))"

definition buildMapping ::
    "string \<Rightarrow> Meta \<Rightarrow> Decision \<Rightarrow> build_input \<Rightarrow> UDPListener \<Rightarrow> (udp_error + udpMapping) \<times> UDPListener" where
  "buildMapping key candidate decision inp l =
     (case bi_picker inp of None \<Rightarrow> (Inl ErrUpstreamSelection, l)
      | Some p \<Rightarrow>
          (case pickUpstream (Some p) candidate decision of
             Inl _ \<Rightarrow> (Inl ErrUpstreamSelection, l)
           | Inr selected \<Rightarrow>
               if \<not> addr_valid (fu_Addr selected) then (Inl ErrUpstreamSelection, l)
               else (case bi_dial inp selected of
                       None \<Rightarrow> (Inl ErrUpstreamDial, l\<lparr>ul_feedback := ul_feedback l @
                                  dial_feedback p (FbMarkDialFailure selected udpDialFailureCooldown)\<rparr>)
                     | Some (localText, remoteText) \<Rightarrow>
                         let l1 = l\<lparr>ul_feedback := ul_feedback l @ dial_feedback p (FbClearDialFailure selected)\<rparr>
                         in case ParseAddrPort key of
                              None \<Rightarrow> (Inl ErrClientAddr, l1)
                            | Some endpoint \<Rightarrow>
                                (case NewID (bi_entropy inp) of
                                   None \<Rightarrow> (Inl ErrFlowID, l1)
                                 | Some fid \<Rightarrow>
                                     apfst Inr (open_mapping key candidate decision selected inp endpoint fid
                                       localText remoteText l1)))))"

definition observeMappingFailure :: "time \<Rightarrow> string \<Rightarrow> udp_error \<Rightarrow> UDPListener \<Rightarrow> UDPListener" where
  "observeMappingFailure now clientAddress err l =
     l\<lparr>ul_calls := ul_calls l @
       (case err of
          ErrUpstreamSelection \<Rightarrow> emitRejection now (ul_observer l) ProtocolUDP (udp_listenAddr l) clientAddress
             ''upstream_unusable'' zero_decision
        | ErrUpstreamDial \<Rightarrow> emitRejection now (ul_observer l) ProtocolUDP (udp_listenAddr l) clientAddress
             ''dial_failed'' zero_decision
        | _ \<Rightarrow> [])\<rparr>"

definition finishReservation :: "string \<Rightarrow> string \<Rightarrow> (udp_error + nat) \<Rightarrow> UDPListener \<Rightarrow> UDPListener" where
  "finishReservation key clientIP result l =
     (let l1 = l\<lparr>ul_pending := gdel key (ul_pending l)\<rparr>
      in case result of
           Inl _ \<Rightarrow> l1\<lparr>ul_ipCounts := decrement_ip clientIP (ul_ipCounts l), ul_sem := ul_sem l - 1\<rparr>
         | Inr oid \<Rightarrow> l1\<lparr>ul_mappings := gput key oid (ul_mappings l)\<rparr>)"

definition removeMapping :: "string \<Rightarrow> string \<Rightarrow> UDPListener \<Rightarrow> UDPListener" where
  "removeMapping key clientIP l =
     l\<lparr>ul_mappings := gdel key (ul_mappings l), ul_ipCounts := decrement_ip clientIP (ul_ipCounts l)\<rparr>"

section \<open>The mappings\<close>

definition set_mapping :: "nat \<Rightarrow> udpMapping \<Rightarrow> UDPListener \<Rightarrow> UDPListener" where
  "set_mapping oid m l = l\<lparr>ul_heap := (ul_heap l)[oid := m]\<rparr>"

definition touch :: "udpMapping \<Rightarrow> udpMapping" where
  "touch m = m\<lparr>mp_activityCh := True\<rparr>"

definition allowPacket :: "time \<Rightarrow> int \<Rightarrow> udpMapping \<Rightarrow> bool \<times> udpMapping" where
  "allowPacket now n m =
     (let (ok, lim) = Try now n (Some (mp_rateLimiter m))
      in (ok, m\<lparr>mp_rateLimiter := the lim\<rparr>))"

definition recordRateLimitDrop :: "int \<Rightarrow> UDPListener \<Rightarrow> UDPListener" where
  "recordRateLimitDrop bytes l = (if bytes > 0 then l\<lparr>ul_drops := ul_drops l @ [bytes]\<rparr> else l)"

definition account ::
    "time \<Rightarrow> uint64 \<Rightarrow> uint64 \<Rightarrow> uint64 \<Rightarrow> uint64 \<Rightarrow> nat \<Rightarrow> udpMapping \<Rightarrow> UDPListener \<Rightarrow> UDPListener" where
  "account now up down segUp segDown oid m l =
     (let (lc, reg, calls) = Lifecycle_AddAt now up down segUp segDown (mp_lifecycle m, ul_registry l, ul_calls l)
      in set_mapping oid (touch (m\<lparr>mp_lifecycle := lc\<rparr>)) (l\<lparr>ul_registry := reg, ul_calls := calls\<rparr>))"

text \<open>\<open>forwardToUpstream\<close> with the outcome of the write, and one pass of \<open>readLoop\<close>.\<close>

definition forwardToUpstream ::
    "time \<Rightarrow> nat \<Rightarrow> int \<Rightarrow> bool \<Rightarrow> UDPListener \<Rightarrow> udp_error option \<times> UDPListener" where
  "forwardToUpstream now oid n wrote l =
     (let (ok, m) = allowPacket now n (ul_heap l ! oid); l1 = set_mapping oid m l
      in if \<not> ok then (Some ErrRateLimited, recordRateLimitDrop n l1)
         else if \<not> wrote then (Some ErrWrite, l1)
         else (None, account now (of_int n) 0 1 0 oid m l1))"

datatype read_result = ReadAgain | ReadStop "string option"

definition read_pass ::
    "time \<Rightarrow> nat \<Rightarrow> int option \<Rightarrow> bool \<Rightarrow> bool \<Rightarrow> UDPListener \<Rightarrow> read_result \<times> UDPListener" where
  "read_pass now oid got wrote ctxDone l =
     (let m = ul_heap l ! oid;
          stop = (\<lambda>l'. if ctxDone then (ReadStop (Some ''context_done''), l')
                       else if mp_closed m then (ReadStop None, l') else (ReadAgain, l'))
      in case got of
           None \<Rightarrow> if ctxDone then (ReadStop (Some ''context_done''), l)
                   else if mp_closed m then (ReadStop None, l)
                   else (ReadStop (Some ''upstream_read_error''), l)
         | Some n \<Rightarrow>
             if n > 0 then
               (let (ok, m1) = allowPacket now n m; l1 = set_mapping oid m1 l
                in if \<not> ok then (ReadAgain, recordRateLimitDrop n l1)
                   else if \<not> wrote then (ReadStop (Some ''client_write_error''), l1)
                   else stop (account now 0 (of_int n) 0 1 oid m1 l1))
             else stop l)"

definition setRateLimit :: "time \<Rightarrow> uint64 \<Rightarrow> udpMapping \<Rightarrow> bool \<times> udpMapping" where
  "setRateLimit now bps m =
     (if mp_closed m then (False, m)
      else (True, m\<lparr>mp_rateLimiter := SetOverrideBPS now bps (mp_rateLimiter m)\<rparr>))"

definition clearRateLimit :: "time \<Rightarrow> udpMapping \<Rightarrow> bool \<times> udpMapping" where
  "clearRateLimit now m =
     (if mp_closed m then (False, m)
      else (True, m\<lparr>mp_rateLimiter := ClearOverrideBPS now (mp_rateLimiter m)\<rparr>))"

text \<open>The three sections of \<open>closeWithReason\<close>: the flag, the table, the slot.\<close>

definition close_flag :: "string \<Rightarrow> udpMapping \<Rightarrow> bool \<times> udpMapping" where
  "close_flag reason m =
     (if mp_closed m then (False, m) else (True, m\<lparr>mp_closed := True, mp_phase := Closing reason\<rparr>))"

definition close_remove :: "nat \<Rightarrow> UDPListener \<Rightarrow> UDPListener" where
  "close_remove oid l =
     (let m = ul_heap l ! oid
      in case mp_phase m of
           Closing reason \<Rightarrow>
             set_mapping oid (m\<lparr>mp_phase := Removed reason\<rparr>) (removeMapping (mp_clientAddrStr m) (mp_clientIP m) l)
         | _ \<Rightarrow> l)"

definition close_release :: "time \<Rightarrow> nat \<Rightarrow> UDPListener \<Rightarrow> UDPListener" where
  "close_release now oid l =
     (let m = ul_heap l ! oid
      in case mp_phase m of
           Removed reason \<Rightarrow>
             if ul_sem l = 0 then l
             else let (lc, reg, calls) = Lifecycle_Close now reason (mp_lifecycle m, ul_registry l, ul_calls l)
                  in set_mapping oid (m\<lparr>mp_lifecycle := lc, mp_phase := Released\<rparr>)
                       (l\<lparr>ul_registry := reg, ul_calls := calls, ul_sem := ul_sem l - 1\<rparr>)
         | _ \<Rightarrow> l)"

text \<open>\<open>handlePacket\<close> up to the reservation, for a packet without a mapping.\<close>

definition admit_packet ::
    "time \<Rightarrow> UDPAddr \<Rightarrow> (Meta \<Rightarrow> Decision) option \<Rightarrow> UDPListener \<Rightarrow> (Meta \<times> Decision) option \<times> UDPListener" where
  "admit_packet now clientAddr policy l =
     (let key = UDPAddr_String clientAddr
      in case newCandidateMeta now ProtocolUDP key (udp_listenAddr l) (ul_Route l) of
           None \<Rightarrow> (None, l)
         | Some candidate \<Rightarrow>
             (case policy of
                None \<Rightarrow> (Some (candidate, allow_decision), l)
              | Some decide \<Rightarrow>
                  let decision = decide candidate
                  in if dec_Allowed decision then (Some (candidate, decision), l)
                     else (None, l\<lparr>ul_calls := ul_calls l @
                       emitRejection now (ul_observer l) ProtocolUDP (udp_listenAddr l) key ''firewall_deny'' decision\<rparr>)))"

definition reserve_packet :: "time \<Rightarrow> UDPAddr \<Rightarrow> UDPListener \<Rightarrow> reserve_result \<times> UDPListener" where
  "reserve_packet now clientAddr l =
     (let key = UDPAddr_String clientAddr; ip = net_ip_text (ua_IP clientAddr)
      in case getOrReserveMapping key ip l of
           (Refused ErrPerIPLimit, l') \<Rightarrow>
             (Refused ErrPerIPLimit, l'\<lparr>ul_calls := ul_calls l' @ emitRejection now (ul_observer l) ProtocolUDP
                (udp_listenAddr l) key ''udp_per_ip_mapping_limit'' zero_decision\<rparr>)
         | (Refused ErrMappingLimit, l') \<Rightarrow>
             (Refused ErrMappingLimit, l'\<lparr>ul_calls := ul_calls l' @ emitRejection now (ul_observer l) ProtocolUDP
                (udp_listenAddr l) key ''udp_mapping_limit'' zero_decision\<rparr>)
         | r \<Rightarrow> r)"

definition build_reserved ::
    "string \<Rightarrow> Meta \<Rightarrow> Decision \<Rightarrow> build_input \<Rightarrow> UDPListener \<Rightarrow> UDPListener" where
  "build_reserved key candidate decision inp l =
     (case gget (ul_pending l) key of
        Some r \<Rightarrow>
          if rv_result r \<noteq> None then l
          else (case buildMapping key candidate decision inp l of
                  (Inl e, l') \<Rightarrow> l'\<lparr>ul_pending := gput key (r\<lparr>rv_result := Some (Inl e)\<rparr>) (ul_pending l')\<rparr>
                | (Inr m, l') \<Rightarrow>
                    l'\<lparr>ul_heap := ul_heap l' @ [m],
                       ul_pending := gput key (r\<lparr>rv_result := Some (Inr (length (ul_heap l')))\<rparr>) (ul_pending l')\<rparr>)
      | None \<Rightarrow> l)"

definition finish_reserved :: "time \<Rightarrow> string \<Rightarrow> UDPListener \<Rightarrow> UDPListener" where
  "finish_reserved now key l =
     (case gget (ul_pending l) key of
        Some r \<Rightarrow>
          (case rv_result r of
             Some (Inl e) \<Rightarrow> observeMappingFailure now key e (finishReservation key (rv_clientIP r) (Inl e) l)
           | Some (Inr oid) \<Rightarrow> finishReservation key (rv_clientIP r) (Inr oid) l
           | None \<Rightarrow> l)
      | None \<Rightarrow> l)"

text \<open>The steps of the goroutines, in any order.\<close>

datatype udp_op =
    UdpAdmit time UDPAddr "(Meta \<Rightarrow> Decision) option"
  | UdpReserve time UDPAddr
  | UdpBuild string Meta Decision build_input
  | UdpFinish time string
  | UdpUp time nat int bool
  | UdpDown time nat "int option" bool bool
  | UdpIdle nat
  | UdpSetLimit time nat uint64
  | UdpClearLimit time nat
  | UdpCloseFlag nat string
  | UdpCloseRemove nat
  | UdpCloseRelease time nat

fun udp_step :: "UDPListener \<Rightarrow> udp_op \<Rightarrow> UDPListener" where
  "udp_step l (UdpAdmit now a policy) = snd (admit_packet now a policy l)"
| "udp_step l (UdpReserve now a) = snd (reserve_packet now a l)"
| "udp_step l (UdpBuild key c d inp) = build_reserved key c d inp l"
| "udp_step l (UdpFinish now key) = finish_reserved now key l"
| "udp_step l (UdpUp now i n wrote) =
     (if i < length (ul_heap l) then snd (forwardToUpstream now i n wrote l) else l)"
| "udp_step l (UdpDown now i got wrote ctx) =
     (if i < length (ul_heap l) then snd (read_pass now i got wrote ctx l) else l)"
| "udp_step l (UdpIdle i) =
     (if i < length (ul_heap l) then set_mapping i ((ul_heap l ! i)\<lparr>mp_activityCh := False\<rparr>) l else l)"
| "udp_step l (UdpSetLimit now i bps) =
     (if i < length (ul_heap l) then set_mapping i (snd (setRateLimit now bps (ul_heap l ! i))) l else l)"
| "udp_step l (UdpClearLimit now i) =
     (if i < length (ul_heap l) then set_mapping i (snd (clearRateLimit now (ul_heap l ! i))) l else l)"
| "udp_step l (UdpCloseFlag i reason) =
     (if i < length (ul_heap l) then set_mapping i (snd (close_flag reason (ul_heap l ! i))) l else l)"
| "udp_step l (UdpCloseRemove i) = (if i < length (ul_heap l) then close_remove i l else l)"
| "udp_step l (UdpCloseRelease now i) = (if i < length (ul_heap l) then close_release now i l else l)"

section \<open>The idle watcher and the packet queue\<close>

text \<open>
  The loop of \<open>idleWatcher\<close>: the deadline of its timer and the events it can see. A fire
  of the timer with a pending activity only resets it.
\<close>

datatype idle_event = IdleTouch time | IdleTimer time | IdleActivity time | IdleDone | IdleCtx

datatype idle_state = Watching time bool | Stopped "string option"

fun idle_step :: "duration \<Rightarrow> idle_state \<Rightarrow> idle_event \<Rightarrow> idle_state" where
  "idle_step timeout (Stopped r) e = Stopped r"
| "idle_step timeout (Watching deadline act) (IdleTouch t) = Watching deadline True"
| "idle_step timeout (Watching deadline act) (IdleTimer t) =
     (if t < deadline then Watching deadline act
      else if act then Watching (t + timeout) False
      else Stopped (Some ''idle_timeout''))"
| "idle_step timeout (Watching deadline act) (IdleActivity t) =
     (if act then Watching (t + timeout) False else Watching deadline act)"
| "idle_step timeout (Watching deadline act) IdleDone = Stopped None"
| "idle_step timeout (Watching deadline act) IdleCtx = Stopped (Some ''context_done'')"

fun idle_times :: "idle_event list \<Rightarrow> time list" where
  "idle_times [] = []"
| "idle_times (IdleTouch t # es) = t # idle_times es"
| "idle_times (IdleTimer t # es) = t # idle_times es"
| "idle_times (IdleActivity t # es) = t # idle_times es"
| "idle_times (_ # es) = idle_times es"

text \<open>\<open>enqueuePacket\<close> and \<open>noteQueueDrop\<close>: the queue, the drops since the last log, its time.\<close>

record 'p packet_queue =
  pq_queue :: "'p list"
  pq_capacity :: nat
  pq_recycled :: nat
  pq_drops :: int
  pq_lastLog :: time
  pq_logged :: int

definition noteQueueDrop :: "time \<Rightarrow> 'p packet_queue \<Rightarrow> 'p packet_queue" where
  "noteQueueDrop now q =
     (let q1 = q\<lparr>pq_drops := pq_drops q + 1\<rparr>
      in if \<not> is_zero_time (pq_lastLog q) \<and> time_sub now (pq_lastLog q) < second then q1
         else q1\<lparr>pq_lastLog := now, pq_drops := 0, pq_logged := pq_logged q + pq_drops q1\<rparr>)"

definition enqueuePacket :: "time \<Rightarrow> 'p \<Rightarrow> 'p packet_queue \<Rightarrow> bool \<times> 'p packet_queue" where
  "enqueuePacket now packet q =
     (if length (pq_queue q) < pq_capacity q then (True, q\<lparr>pq_queue := pq_queue q @ [packet]\<rparr>)
      else (False, noteQueueDrop now (q\<lparr>pq_recycled := pq_recycled q + 1\<rparr>)))"

section \<open>The invariant of the table\<close>

text \<open>
  What the accounting of slots and per-address counts sees of a mapping, and the steps that
  do not change it: everything on the data path.
\<close>

type_synonym mapping_view = "string \<times> string \<times> bool \<times> phase"

definition mp_view :: "udpMapping \<Rightarrow> mapping_view" where
  "mp_view m = (mp_clientAddrStr m, mp_clientIP m, mp_closed m, mp_phase m)"

definition heap_view :: "UDPListener \<Rightarrow> mapping_view list" where
  "heap_view l = map mp_view (ul_heap l)"

definition table_of :: "UDPListener \<Rightarrow> nat \<times> nat \<times> (string, nat) gomap \<times>
    (string, udpMappingReservation) gomap \<times> (string, int) gomap \<times> int \<times> mapping_view list" where
  "table_of l = (ul_semCap l, ul_sem l, ul_mappings l, ul_pending l, ul_ipCounts l, ul_maxPerIP l, heap_view l)"

fun data_op :: "udp_op \<Rightarrow> bool" where
  "data_op (UdpReserve _ _) = False"
| "data_op (UdpBuild _ _ _ _) = False"
| "data_op (UdpFinish _ _) = False"
| "data_op (UdpCloseFlag _ _) = False"
| "data_op (UdpCloseRemove _) = False"
| "data_op (UdpCloseRelease _ _) = False"
| "data_op _ = True"

lemma heap_view_set_mapping [simp]:
  "heap_view (set_mapping i m l) = (heap_view l)[i := mp_view m]"
  by (simp add: heap_view_def set_mapping_def map_update)

lemma heap_view_same: "i < length (ul_heap l) \<Longrightarrow> (heap_view l)[i := mp_view (ul_heap l ! i)] = heap_view l"
  by (simp add: heap_view_def list_update_same_conv)

lemma set_mapping_simps [simp]:
  "ul_semCap (set_mapping i m l) = ul_semCap l" "ul_sem (set_mapping i m l) = ul_sem l"
  "ul_mappings (set_mapping i m l) = ul_mappings l" "ul_pending (set_mapping i m l) = ul_pending l"
  "ul_ipCounts (set_mapping i m l) = ul_ipCounts l" "ul_maxPerIP (set_mapping i m l) = ul_maxPerIP l"
  "length (ul_heap (set_mapping i m l)) = length (ul_heap l)"
  by (simp_all add: set_mapping_def)

lemma view_simps [simp]:
  "mp_view (m\<lparr>mp_rateLimiter := x\<rparr>) = mp_view m" "mp_view (m\<lparr>mp_lifecycle := y\<rparr>) = mp_view m"
  "mp_view (m\<lparr>mp_activityCh := z\<rparr>) = mp_view m" "mp_view (touch m) = mp_view m"
  by (simp_all add: mp_view_def touch_def)

lemma allowPacket_view: "allowPacket now n m = (ok, m') \<Longrightarrow> mp_view m' = mp_view m"
  by (auto simp: allowPacket_def split: prod.splits)

lemma table_account:
  "table_of (account now a b c d i m l) = table_of (set_mapping i m l)"
  by (auto simp: account_def table_of_def heap_view_def set_mapping_def map_update split: prod.splits)

lemma table_drop [simp]: "table_of (recordRateLimitDrop n l) = table_of l"
  by (simp add: recordRateLimitDrop_def table_of_def heap_view_def)

lemma table_set_mapping:
  "i < length (ul_heap l) \<Longrightarrow> mp_view m = mp_view (ul_heap l ! i) \<Longrightarrow> table_of (set_mapping i m l) = table_of l"
  by (simp add: table_of_def heap_view_same)

lemma table_set_twice: "table_of (set_mapping i m (set_mapping i m' l)) = table_of (set_mapping i m l)"
  by (simp add: table_of_def)

lemma data_op_table: "data_op e \<Longrightarrow> table_of (udp_step l e) = table_of l"
proof (cases e)
  case (UdpUp now i n wrote)
  assume "data_op e"
  with UdpUp show ?thesis
    by (auto simp: forwardToUpstream_def Let_def table_account table_set_twice split: prod.splits
        intro!: table_set_mapping dest!: allowPacket_view)
next
  case (UdpDown now i got wrote ctx)
  assume "data_op e"
  with UdpDown show ?thesis
    by (auto simp: read_pass_def Let_def table_account table_set_twice split: prod.splits option.splits
        intro!: table_set_mapping dest!: allowPacket_view)
next
  case (UdpAdmit now a policy)
  assume "data_op e"
  with UdpAdmit show ?thesis
    by (auto simp: admit_packet_def Let_def table_of_def heap_view_def split: option.splits)
qed (auto simp: setRateLimit_def clearRateLimit_def intro!: table_set_mapping)

text \<open>The slots in use, and the entries counted for a client address.\<close>

definition unbuilt :: "udpMappingReservation \<Rightarrow> bool" where
  "unbuilt r \<longleftrightarrow> (case rv_result r of Some (Inr _) \<Rightarrow> False | _ \<Rightarrow> True)"

fun holds_slot :: "mapping_view \<Rightarrow> bool" where
  "holds_slot (k, ip, c, ph) = (ph \<noteq> Released)"

fun counted :: "string \<Rightarrow> mapping_view \<Rightarrow> bool" where
  "counted ip (k, ip', c, ph) = (ip' = ip \<and> (case ph of Live \<Rightarrow> True | Closing _ \<Rightarrow> True | _ \<Rightarrow> False))"

fun view_ok :: "mapping_view \<Rightarrow> bool" where
  "view_ok (k, ip, c, ph) = ((c \<longleftrightarrow> ph \<noteq> Live) \<and> ip = clientIPFromAddr k)"

definition slot_inv :: "UDPListener \<Rightarrow> bool" where
  "slot_inv l \<longleftrightarrow> gok (ul_pending l) \<and> ul_sem l \<le> ul_semCap l \<and> list_all view_ok (heap_view l) \<and>
     ul_sem l = gcount unbuilt (ul_pending l) + count_if holds_slot (heap_view l)"

lemma slot_inv_table: "table_of l' = table_of l \<Longrightarrow> slot_inv l \<Longrightarrow> slot_inv l'"
  by (simp add: slot_inv_def table_of_def)

lemma slot_inv_reserve: "slot_inv l \<Longrightarrow> slot_inv (snd (getOrReserveMapping key ip l))"
  using gcount_gput [of "ul_pending l" unbuilt key]
  by (auto simp: getOrReserveMapping_def slot_inv_def heap_view_def unbuilt_def Let_def split: option.splits)

lemma reserve_packet_table:
  "table_of (snd (reserve_packet now a l)) =
     table_of (snd (getOrReserveMapping (UDPAddr_String a) (net_ip_text (ua_IP a)) l))"
  by (auto simp: reserve_packet_def Let_def table_of_def heap_view_def split: prod.splits reserve_result.splits udp_error.splits)

text \<open>Building leaves the table alone and yields a live mapping for the reserved address.\<close>

lemma buildMapping_table:
  "buildMapping key c d inp l = (r, l') \<Longrightarrow> table_of l' = table_of l \<and> ul_heap l' = ul_heap l"
  by (auto simp: buildMapping_def open_mapping_def Let_def table_of_def heap_view_def
      split: option.splits sum.splits if_splits prod.splits)

lemma buildMapping_view:
  "buildMapping key c d inp l = (Inr m, l') \<Longrightarrow> mp_view m = (key, clientIPFromAddr key, False, Live)"
  by (auto simp: buildMapping_def open_mapping_def Let_def mp_view_def
      split: option.splits sum.splits if_splits prod.splits)

lemma build_cases:
  obtains "build_reserved key c d inp l = l"
  | r e l' where "gget (ul_pending l) key = Some r" "unbuilt r" "table_of l' = table_of l" "ul_heap l' = ul_heap l"
      "build_reserved key c d inp l = l'\<lparr>ul_pending := gput key (r\<lparr>rv_result := Some (Inl e)\<rparr>) (ul_pending l)\<rparr>"
  | r m l' where "gget (ul_pending l) key = Some r" "unbuilt r" "table_of l' = table_of l" "ul_heap l' = ul_heap l"
      "mp_view m = (key, clientIPFromAddr key, False, Live)"
      "build_reserved key c d inp l = l'\<lparr>ul_heap := ul_heap l @ [m],
         ul_pending := gput key (r\<lparr>rv_result := Some (Inr (length (ul_heap l)))\<rparr>) (ul_pending l)\<rparr>"
proof (cases "gget (ul_pending l) key")
  case None
  then show thesis using that(1) by (simp add: build_reserved_def)
next
  case (Some r)
  show thesis
  proof (cases "rv_result r")
    case new: None
    obtain res l' where b: "buildMapping key c d inp l = (res, l')" by (cases "buildMapping key c d inp l")
    note t = buildMapping_table [OF b]
    then have p: "ul_pending l' = ul_pending l" by (simp add: table_of_def)
    show thesis
    proof (cases res)
      case (Inl e)
      with Some new b t p show thesis
        by (intro that(2) [of r l' e]) (auto simp: build_reserved_def unbuilt_def)
    next
      case (Inr m)
      with Some new b t p buildMapping_view [of key c d inp l m l'] show thesis
        by (intro that(3) [of r l' m]) (auto simp: build_reserved_def unbuilt_def)
    qed
  qed (use Some that(1) in \<open>simp add: build_reserved_def\<close>)
qed

lemma slot_inv_build: "slot_inv l \<Longrightarrow> slot_inv (build_reserved key c d inp l)"
proof (rule build_cases [of key c d inp l])
  fix r e l'
  assume "slot_inv l" and h: "gget (ul_pending l) key = Some r" "unbuilt r" "table_of l' = table_of l" "ul_heap l' = ul_heap l"
    "build_reserved key c d inp l = l'\<lparr>ul_pending := gput key (r\<lparr>rv_result := Some (Inl e)\<rparr>) (ul_pending l)\<rparr>"
  with gcount_gput [of "ul_pending l" unbuilt key "r\<lparr>rv_result := Some (Inl e)\<rparr>"] show ?thesis
    by (auto simp: slot_inv_def table_of_def heap_view_def unbuilt_def)
next
  fix r m l'
  assume "slot_inv l" and h: "gget (ul_pending l) key = Some r" "unbuilt r" "table_of l' = table_of l" "ul_heap l' = ul_heap l"
    "mp_view m = (key, clientIPFromAddr key, False, Live)"
    "build_reserved key c d inp l = l'\<lparr>ul_heap := ul_heap l @ [m],
         ul_pending := gput key (r\<lparr>rv_result := Some (Inr (length (ul_heap l)))\<rparr>) (ul_pending l)\<rparr>"
  with gcount_gput [of "ul_pending l" unbuilt key "r\<lparr>rv_result := Some (Inr (length (ul_heap l)))\<rparr>"] show ?thesis
    by (auto simp: slot_inv_def table_of_def heap_view_def unbuilt_def)
qed simp

lemma observe_failure_table [simp]: "table_of (observeMappingFailure now key e l) = table_of l"
  by (simp add: observeMappingFailure_def table_of_def heap_view_def)

lemma finish_cases:
  obtains "finish_reserved now key l = l"
  | r e where "gget (ul_pending l) key = Some r" "rv_result r = Some (Inl e)"
      "table_of (finish_reserved now key l) = table_of (finishReservation key (rv_clientIP r) (Inl e) l)"
  | r oid where "gget (ul_pending l) key = Some r" "rv_result r = Some (Inr oid)"
      "finish_reserved now key l = finishReservation key (rv_clientIP r) (Inr oid) l"
proof (cases "gget (ul_pending l) key")
  case None
  then show thesis using that(1) by (simp add: finish_reserved_def)
next
  case (Some r)
  then show thesis
  proof (cases "rv_result r")
    case None
    with Some show thesis using that(1) by (simp add: finish_reserved_def)
  next
    case res: (Some x)
    with Some show thesis
      using that(2,3) by (cases x) (simp_all add: finish_reserved_def)
  qed
qed

lemma slot_inv_finish: "slot_inv l \<Longrightarrow> slot_inv (finish_reserved now key l)"
proof (rule finish_cases [of now key l])
  fix r e
  assume inv: "slot_inv l" and h: "gget (ul_pending l) key = Some r" "rv_result r = Some (Inl e)"
    and t: "table_of (finish_reserved now key l) = table_of (finishReservation key (rv_clientIP r) (Inl e) l)"
  from inv h gcount_gdel [of "ul_pending l" unbuilt key]
  have "slot_inv (finishReservation key (rv_clientIP r) (Inl e) l)"
    by (auto simp: slot_inv_def finishReservation_def Let_def heap_view_def unbuilt_def)
  with t show ?thesis by (rule slot_inv_table)
next
  fix r oid
  assume "slot_inv l" and "gget (ul_pending l) key = Some r" "rv_result r = Some (Inr oid)"
    "finish_reserved now key l = finishReservation key (rv_clientIP r) (Inr oid) l"
  with gcount_gdel [of "ul_pending l" unbuilt key] show ?thesis
    by (auto simp: slot_inv_def finishReservation_def Let_def heap_view_def unbuilt_def)
qed simp

lemma view_nth: "i < length (ul_heap l) \<Longrightarrow> heap_view l ! i = mp_view (ul_heap l ! i)"
  by (simp add: heap_view_def)

lemma list_all_update: "list_all P xs \<Longrightarrow> P x \<Longrightarrow> list_all P (xs[i := x])"
  by (auto simp: list_all_iff dest: set_update_subset_insert [THEN subsetD])

lemma heap_view_ok: "list_all view_ok (heap_view l) \<Longrightarrow> i < length (ul_heap l) \<Longrightarrow> view_ok (mp_view (ul_heap l ! i))"
  by (auto simp: heap_view_def list_all_iff)

lemma length_heap_view [simp]: "length (heap_view l) = length (ul_heap l)"
  by (simp add: heap_view_def)

lemma slot_inv_replace:
  assumes "slot_inv l" and "i < length (ul_heap l)" and "heap_view l' = (heap_view l)[i := v]" and "view_ok v"
    and "ul_pending l' = ul_pending l" and "ul_semCap l' = ul_semCap l" and "ul_sem l' \<le> ul_sem l"
    and "ul_sem l' + of_bool (holds_slot (mp_view (ul_heap l ! i))) = ul_sem l + of_bool (holds_slot v)"
  shows "slot_inv l'"
  using assms count_if_update [of i "heap_view l" holds_slot v]
  by (simp add: slot_inv_def view_nth list_all_update)

lemma slot_inv_view: "slot_inv l \<Longrightarrow> i < length (ul_heap l) \<Longrightarrow> view_ok (mp_view (ul_heap l ! i))"
  using heap_view_ok by (auto simp: slot_inv_def)

lemma slot_inv_close_flag:
  assumes "slot_inv l" and "i < length (ul_heap l)"
  shows "slot_inv (set_mapping i (snd (close_flag reason (ul_heap l ! i))) l)"
  using assms slot_inv_view [OF assms]
  by (intro slot_inv_replace [OF assms, where v = "mp_view (snd (close_flag reason (ul_heap l ! i)))"])
    (auto simp: close_flag_def mp_view_def)

lemma close_remove_cases:
  obtains "close_remove i l = l"
  | reason m where "m = ul_heap l ! i" "mp_phase m = Closing reason"
      "close_remove i l = set_mapping i (m\<lparr>mp_phase := Removed reason\<rparr>) (removeMapping (mp_clientAddrStr m) (mp_clientIP m) l)"
  by (cases "mp_phase (ul_heap l ! i)") (simp_all add: close_remove_def Let_def)

lemma removeMapping_simps [simp]:
  "heap_view (removeMapping k ip l) = heap_view l" "ul_pending (removeMapping k ip l) = ul_pending l"
  "ul_semCap (removeMapping k ip l) = ul_semCap l" "ul_sem (removeMapping k ip l) = ul_sem l"
  "ul_maxPerIP (removeMapping k ip l) = ul_maxPerIP l" "ul_heap (removeMapping k ip l) = ul_heap l"
  by (simp_all add: removeMapping_def heap_view_def)

lemma slot_inv_close_remove:
  assumes "slot_inv l" and "i < length (ul_heap l)"
  shows "slot_inv (close_remove i l)"
proof (rule close_remove_cases [of i l])
  fix reason m
  assume m: "m = ul_heap l ! i" "mp_phase m = Closing reason"
    "close_remove i l = set_mapping i (m\<lparr>mp_phase := Removed reason\<rparr>) (removeMapping (mp_clientAddrStr m) (mp_clientIP m) l)"
  show ?thesis
    by (rule slot_inv_replace [OF assms, where v = "mp_view (m\<lparr>mp_phase := Removed reason\<rparr>)"])
      (use m slot_inv_view [OF assms] in \<open>auto simp: mp_view_def\<close>)
qed (use assms in simp)

lemma close_release_cases:
  obtains "close_release now i l = l"
  | reason m l' lc where "m = ul_heap l ! i" "mp_phase m = Removed reason" "ul_sem l > 0"
      "table_of l' = table_of (l\<lparr>ul_sem := ul_sem l - 1\<rparr>)" "ul_heap l' = ul_heap l"
      "close_release now i l = set_mapping i (m\<lparr>mp_lifecycle := lc, mp_phase := Released\<rparr>) l'"
proof (cases "\<exists>reason. mp_phase (ul_heap l ! i) = Removed reason \<and> ul_sem l > 0")
  case True
  then obtain reason where r: "mp_phase (ul_heap l ! i) = Removed reason" "ul_sem l > 0" by blast
  obtain lc reg calls where c: "Lifecycle_Close now reason (mp_lifecycle (ul_heap l ! i), ul_registry l, ul_calls l) = (lc, reg, calls)"
    by (cases "Lifecycle_Close now reason (mp_lifecycle (ul_heap l ! i), ul_registry l, ul_calls l)")
  show thesis
    by (rule that(2) [of "ul_heap l ! i" reason "l\<lparr>ul_registry := reg, ul_calls := calls, ul_sem := ul_sem l - 1\<rparr>" lc])
      (use r c in \<open>auto simp: close_release_def table_of_def heap_view_def\<close>)
next
  case False
  then show thesis
    by (intro that(1)) (cases "mp_phase (ul_heap l ! i)", auto simp: close_release_def)
qed

lemma slot_inv_close_release:
  assumes "slot_inv l" and "i < length (ul_heap l)"
  shows "slot_inv (close_release now i l)"
proof (rule close_release_cases [of now i l])
  fix reason m l' lc
  assume m: "m = ul_heap l ! i" "mp_phase m = Removed reason" "ul_sem l > 0"
    "table_of l' = table_of (l\<lparr>ul_sem := ul_sem l - 1\<rparr>)" "ul_heap l' = ul_heap l"
    "close_release now i l = set_mapping i (m\<lparr>mp_lifecycle := lc, mp_phase := Released\<rparr>) l'"
  then have "heap_view l' = heap_view l" by (simp add: heap_view_def)
  then show ?thesis
    by (intro slot_inv_replace [OF assms, where v = "mp_view (m\<lparr>mp_lifecycle := lc, mp_phase := Released\<rparr>)"])
      (use m slot_inv_view [OF assms] in \<open>auto simp: mp_view_def table_of_def\<close>)
qed (use assms in simp)

lemma slot_inv_step: "slot_inv l \<Longrightarrow> slot_inv (udp_step l e)"
proof (cases "data_op e")
  case True
  moreover assume "slot_inv l"
  ultimately show ?thesis using slot_inv_table data_op_table by blast
next
  case False
  moreover assume "slot_inv l"
  ultimately show ?thesis
    by (cases e) (auto intro: slot_inv_build slot_inv_finish slot_inv_close_flag slot_inv_close_remove
        slot_inv_close_release slot_inv_table [OF reserve_packet_table] slot_inv_reserve)
qed

interpretation slots: event_system udp_step slot_inv
  by unfold_locales (rule slot_inv_step)

text \<open>
  The count of an address is the number of its entries, as long as the address that is
  counted up is the one that is counted down: for clients whose address carries no zone.
\<close>

definition plain_client :: "UDPAddr \<Rightarrow> bool" where
  "plain_client a \<longleftrightarrow> ua_Zone a = [] \<and> ua_IP a \<noteq> None \<and> ua_IP a \<noteq> Some []"

fun plain_op :: "udp_op \<Rightarrow> bool" where
  "plain_op (UdpReserve _ a) = plain_client a"
| "plain_op _ = True"

definition ip_entries :: "string \<Rightarrow> UDPListener \<Rightarrow> nat" where
  "ip_entries ip l = gcount (\<lambda>r. unbuilt r \<and> rv_clientIP r = ip) (ul_pending l) + count_if (counted ip) (heap_view l)"

definition ip_inv :: "UDPListener \<Rightarrow> bool" where
  "ip_inv l \<longleftrightarrow> gok (ul_pending l) \<and> list_all view_ok (heap_view l) \<and> 0 \<le> ul_maxPerIP l \<and>
     (\<forall>key r. gget (ul_pending l) key = Some r \<longrightarrow> rv_clientIP r = clientIPFromAddr key) \<and>
     (\<forall>ip. ip \<noteq> [] \<longrightarrow> gget_default 0 (ul_ipCounts l) ip = int (ip_entries ip l) \<and>
        int (ip_entries ip l) \<le> ul_maxPerIP l)"

lemma ip_inv_table: "table_of l' = table_of l \<Longrightarrow> ip_inv l \<Longrightarrow> ip_inv l'"
  by (simp add: ip_inv_def table_of_def ip_entries_def)

lemma gget_default_simps [simp]:
  "gget_default d (gput k v m) k' = (if k' = k then v else gget_default d m k')"
  "gget_default d (gdel k m) k' = (if k' = k then d else gget_default d m k')"
  by (auto simp: gget_default_def)

lemma decrement_ip_count:
  "gget_default 0 m ip \<ge> 1 \<Longrightarrow> gget_default 0 (decrement_ip ip m) k =
     (if k = ip \<and> ip \<noteq> [] then gget_default 0 m ip - 1 else gget_default 0 m k)"
  by (auto simp: decrement_ip_def)

lemma decrement_ip_other: "k \<noteq> ip \<Longrightarrow> gget_default 0 (decrement_ip ip m) k = gget_default 0 m k"
  by (auto simp: decrement_ip_def)

text \<open>How the entries of an address change when a reservation or a mapping changes.\<close>

lemma ip_entries_pending:
  assumes "gok (ul_pending l)" and "gget (ul_pending l) key = Some r"
    and "ul_pending l' = gput key r' (ul_pending l)" and "heap_view l' = heap_view l @ vs"
  shows "ip_entries ip l' + of_bool (unbuilt r \<and> rv_clientIP r = ip) =
    ip_entries ip l + of_bool (unbuilt r' \<and> rv_clientIP r' = ip) + count_if (counted ip) vs"
  using gcount_gput [OF assms(1), of "\<lambda>r. unbuilt r \<and> rv_clientIP r = ip" key r'] assms(2-4)
  by (simp add: ip_entries_def)

lemma ip_entries_delete:
  assumes "gok (ul_pending l)" and "gget (ul_pending l) key = Some r"
    and "ul_pending l' = gdel key (ul_pending l)" and "heap_view l' = heap_view l"
  shows "ip_entries ip l' + of_bool (unbuilt r \<and> rv_clientIP r = ip) = ip_entries ip l"
  using gcount_gdel [OF assms(1), of "\<lambda>r. unbuilt r \<and> rv_clientIP r = ip" key] assms(2-4)
  by (simp add: ip_entries_def)

lemma ip_entries_replace:
  assumes "i < length (ul_heap l)" and "heap_view l' = (heap_view l)[i := v]" and "ul_pending l' = ul_pending l"
  shows "ip_entries ip l' + of_bool (counted ip (mp_view (ul_heap l ! i))) = ip_entries ip l + of_bool (counted ip v)"
  using count_if_update [of i "heap_view l" "counted ip" v] assms by (simp add: ip_entries_def view_nth)

lemma reserve_cases:
  obtains "snd (getOrReserveMapping key ip l) = l"
  | "gget (ul_pending l) key = None" "ip \<noteq> [] \<longrightarrow> gget_default 0 (ul_ipCounts l) ip < ul_maxPerIP l"
    "snd (getOrReserveMapping key ip l) = l\<lparr>ul_sem := ul_sem l + 1,
       ul_pending := gput key \<lparr>rv_clientIP = ip, rv_result = None\<rparr> (ul_pending l),
       ul_ipCounts := (if ip \<noteq> [] then gput ip (gget_default 0 (ul_ipCounts l) ip + 1) (ul_ipCounts l) else ul_ipCounts l)\<rparr>"
proof (cases "gget (ul_mappings l) key = None \<and> gget (ul_pending l) key = None \<and>
    \<not> (ip \<noteq> [] \<and> gget_default 0 (ul_ipCounts l) ip \<ge> ul_maxPerIP l) \<and> \<not> ul_sem l \<ge> ul_semCap l")
  case True
  show thesis by (rule that(2)) (use True in \<open>auto simp: getOrReserveMapping_def\<close>)
next
  case False
  show thesis by (rule that(1)) (use False in \<open>auto simp: getOrReserveMapping_def split: option.splits\<close>)
qed

lemma ip_inv_reserve:
  assumes inv: "ip_inv l" and "plain_client a"
  shows "ip_inv (snd (getOrReserveMapping (UDPAddr_String a) (net_ip_text (ua_IP a)) l))"
proof -
  let ?k = "UDPAddr_String a" and ?ip = "net_ip_text (ua_IP a)"
  let ?r = "\<lparr>rv_clientIP = ?ip, rv_result = None\<rparr>" and ?l = "snd (getOrReserveMapping ?k ?ip l)"
  have ip: "?ip = clientIPFromAddr ?k"
    using assms(2) client_ip_text [of a] by (cases "ua_IP a") (auto simp: plain_client_def zone_text_def)
  show ?thesis
  proof (rule reserve_cases [of ?k ?ip l])
    assume h: "gget (ul_pending l) ?k = None" "?ip \<noteq> [] \<longrightarrow> gget_default 0 (ul_ipCounts l) ?ip < ul_maxPerIP l"
      "?l = l\<lparr>ul_sem := ul_sem l + 1, ul_pending := gput ?k ?r (ul_pending l),
       ul_ipCounts := (if ?ip \<noteq> [] then gput ?ip (gget_default 0 (ul_ipCounts l) ?ip + 1) (ul_ipCounts l) else ul_ipCounts l)\<rparr>"
    have e: "ip_entries i ?l = ip_entries i l + of_bool (?ip = i)" for i
      using gcount_gput [of "ul_pending l" "\<lambda>r. unbuilt r \<and> rv_clientIP r = i" ?k ?r] inv h(1)
      unfolding h(3) by (simp add: ip_inv_def ip_entries_def heap_view_def unbuilt_def)
    from inv ip h(1,2) show ?thesis
      unfolding ip_inv_def e unfolding h(3) by (auto simp: heap_view_def)
  qed (use inv in simp)
qed

lemma ip_inv_build: "ip_inv l \<Longrightarrow> ip_inv (build_reserved key c d inp l)"
proof (rule build_cases [of key c d inp l])
  fix r e l'
  assume inv: "ip_inv l" and h: "gget (ul_pending l) key = Some r" "unbuilt r" "table_of l' = table_of l" "ul_heap l' = ul_heap l"
    "build_reserved key c d inp l = l'\<lparr>ul_pending := gput key (r\<lparr>rv_result := Some (Inl e)\<rparr>) (ul_pending l)\<rparr>"
  have "ip_entries ip (build_reserved key c d inp l) = ip_entries ip l" for ip
    using ip_entries_pending [OF _ h(1), of "build_reserved key c d inp l" "r\<lparr>rv_result := Some (Inl e)\<rparr>" "[]"] inv h
    by (auto simp: ip_inv_def heap_view_def unbuilt_def)
  with inv h show ?thesis by (auto simp: ip_inv_def table_of_def heap_view_def)
next
  fix r m l'
  assume inv: "ip_inv l" and h: "gget (ul_pending l) key = Some r" "unbuilt r" "table_of l' = table_of l" "ul_heap l' = ul_heap l"
    "mp_view m = (key, clientIPFromAddr key, False, Live)"
    "build_reserved key c d inp l = l'\<lparr>ul_heap := ul_heap l @ [m],
         ul_pending := gput key (r\<lparr>rv_result := Some (Inr (length (ul_heap l)))\<rparr>) (ul_pending l)\<rparr>"
  have r: "rv_clientIP r = clientIPFromAddr key" using inv h(1) by (auto simp: ip_inv_def)
  have "ip_entries ip (build_reserved key c d inp l) = ip_entries ip l" for ip
    using ip_entries_pending [OF _ h(1), of "build_reserved key c d inp l"
        "r\<lparr>rv_result := Some (Inr (length (ul_heap l)))\<rparr>" "[mp_view m]" ip] inv h r
    by (auto simp: ip_inv_def heap_view_def unbuilt_def)
  with inv h r show ?thesis by (auto simp: ip_inv_def table_of_def heap_view_def)
qed simp

lemma ip_inv_finish: "ip_inv l \<Longrightarrow> ip_inv (finish_reserved now key l)"
proof (rule finish_cases [of now key l])
  fix r e
  assume inv: "ip_inv l" and h: "gget (ul_pending l) key = Some r" "rv_result r = Some (Inl e)"
    and t: "table_of (finish_reserved now key l) = table_of (finishReservation key (rv_clientIP r) (Inl e) l)"
  let ?l = "finishReservation key (rv_clientIP r) (Inl e) l"
  have "unbuilt r" using h(2) by (simp add: unbuilt_def)
  then have n: "ip_entries ip ?l + of_bool (rv_clientIP r = ip) = ip_entries ip l" for ip
    using ip_entries_delete [OF _ h(1), of ?l ip] inv
    by (auto simp: ip_inv_def finishReservation_def heap_view_def)
  have "gget_default 0 (ul_ipCounts ?l) ip = int (ip_entries ip ?l) \<and> int (ip_entries ip ?l) \<le> ul_maxPerIP l"
    if "ip \<noteq> []" for ip
    using that inv n [of ip] decrement_ip_count [of "ul_ipCounts l" "rv_clientIP r" ip]
      decrement_ip_other [of ip "rv_clientIP r" "ul_ipCounts l"]
    by (cases "rv_clientIP r = ip") (auto simp: ip_inv_def finishReservation_def)
  then have "ip_inv ?l" using inv by (auto simp: ip_inv_def finishReservation_def heap_view_def)
  with t show ?thesis by (rule ip_inv_table)
next
  fix r oid
  assume inv: "ip_inv l" and h: "gget (ul_pending l) key = Some r" "rv_result r = Some (Inr oid)"
    and t: "finish_reserved now key l = finishReservation key (rv_clientIP r) (Inr oid) l"
  let ?l = "finishReservation key (rv_clientIP r) (Inr oid) l"
  have "ip_entries ip ?l = ip_entries ip l" for ip
    using ip_entries_delete [OF _ h(1), of ?l ip] inv h(2)
    by (auto simp: ip_inv_def finishReservation_def heap_view_def unbuilt_def)
  with inv show ?thesis unfolding t by (auto simp: ip_inv_def finishReservation_def heap_view_def)
qed simp

lemma ip_inv_view: "ip_inv l \<Longrightarrow> i < length (ul_heap l) \<Longrightarrow> view_ok (mp_view (ul_heap l ! i))"
  using heap_view_ok by (auto simp: ip_inv_def)

lemma ip_inv_replace:
  assumes "ip_inv l" and "i < length (ul_heap l)" and "heap_view l' = (heap_view l)[i := v]" and "view_ok v"
    and "ul_pending l' = ul_pending l" and "ul_maxPerIP l' = ul_maxPerIP l" and "ul_ipCounts l' = ul_ipCounts l"
    and "\<forall>ip. counted ip v = counted ip (mp_view (ul_heap l ! i))"
  shows "ip_inv l'"
proof -
  have "ip_entries ip l' = ip_entries ip l" for ip
    using ip_entries_replace [OF assms(2,3,5), of ip] assms(8) by simp
  with assms show ?thesis by (simp add: ip_inv_def list_all_update)
qed

lemma ip_inv_close_flag:
  assumes "ip_inv l" and "i < length (ul_heap l)"
  shows "ip_inv (set_mapping i (snd (close_flag reason (ul_heap l ! i))) l)"
  using assms ip_inv_view [OF assms]
  by (intro ip_inv_replace [OF assms, where v = "mp_view (snd (close_flag reason (ul_heap l ! i)))"])
    (auto simp: close_flag_def mp_view_def)

lemma ip_inv_close_remove:
  assumes inv: "ip_inv l" and i: "i < length (ul_heap l)"
  shows "ip_inv (close_remove i l)"
proof (rule close_remove_cases [of i l])
  fix reason m
  assume m: "m = ul_heap l ! i" "mp_phase m = Closing reason"
    "close_remove i l = set_mapping i (m\<lparr>mp_phase := Removed reason\<rparr>) (removeMapping (mp_clientAddrStr m) (mp_clientIP m) l)"
  let ?v = "mp_view (m\<lparr>mp_phase := Removed reason\<rparr>)"
  have v: "view_ok ?v" using ip_inv_view [OF assms] m by (auto simp: mp_view_def)
  have n: "ip_entries ip (close_remove i l) + of_bool (mp_clientIP m = ip) = ip_entries ip l" for ip
    using ip_entries_replace [OF i, of "close_remove i l" ?v ip] m by (auto simp: mp_view_def)
  have "gget_default 0 (ul_ipCounts (close_remove i l)) ip = int (ip_entries ip (close_remove i l)) \<and>
      int (ip_entries ip (close_remove i l)) \<le> ul_maxPerIP l" if "ip \<noteq> []" for ip
    using that inv n [of ip] decrement_ip_count [of "ul_ipCounts l" "mp_clientIP m" ip]
      decrement_ip_other [of ip "mp_clientIP m" "ul_ipCounts l"] m(3)
    by (cases "mp_clientIP m = ip") (auto simp: ip_inv_def removeMapping_def)
  with inv v m(3) show ?thesis by (auto simp: ip_inv_def list_all_update)
qed (use assms in simp)

lemma ip_inv_close_release:
  assumes "ip_inv l" and "i < length (ul_heap l)"
  shows "ip_inv (close_release now i l)"
proof (rule close_release_cases [of now i l])
  fix reason m l' lc
  assume m: "m = ul_heap l ! i" "mp_phase m = Removed reason" "ul_sem l > 0"
    "table_of l' = table_of (l\<lparr>ul_sem := ul_sem l - 1\<rparr>)" "ul_heap l' = ul_heap l"
    "close_release now i l = set_mapping i (m\<lparr>mp_lifecycle := lc, mp_phase := Released\<rparr>) l'"
  then have "heap_view l' = heap_view l" by (simp add: heap_view_def)
  then show ?thesis
    by (intro ip_inv_replace [OF assms, where v = "mp_view (m\<lparr>mp_lifecycle := lc, mp_phase := Released\<rparr>)"])
      (use m ip_inv_view [OF assms] in \<open>auto simp: mp_view_def table_of_def\<close>)
qed (use assms in simp)

lemma ip_inv_step: "ip_inv l \<Longrightarrow> plain_op e \<Longrightarrow> ip_inv (udp_step l e)"
proof (cases "data_op e")
  case True
  moreover assume "ip_inv l"
  ultimately show ?thesis using ip_inv_table data_op_table by blast
next
  case False
  moreover assume "ip_inv l" "plain_op e"
  ultimately show ?thesis
    by (cases e) (auto intro: ip_inv_build ip_inv_finish ip_inv_close_flag ip_inv_close_remove
        ip_inv_close_release ip_inv_table [OF reserve_packet_table] ip_inv_reserve)
qed

interpretation addresses: event_system "\<lambda>l e. if plain_op e then udp_step l e else l" ip_inv
  by unfold_locales (auto intro: ip_inv_step)

section \<open>Properties\<close>

lemma slot_inv_new: "slot_inv (NewUDPListener addr port route n timeout ob reg bd)"
  by (simp add: slot_inv_def NewUDPListener_def heap_view_def)

lemma ip_inv_new: "ip_inv (NewUDPListener addr port route n timeout ob reg bd)"
  by (simp add: ip_inv_def NewUDPListener_def heap_view_def ip_entries_def gget_default_def udpMaxMappingsPerIP_def)

lemma cap_fixed [simp]: "ul_semCap (udp_step l e) = ul_semCap l" "ul_maxPerIP (udp_step l e) = ul_maxPerIP l"
proof -
  have "ul_semCap (udp_step l e) = ul_semCap l \<and> ul_maxPerIP (udp_step l e) = ul_maxPerIP l"
  proof (cases "data_op e")
    case True
    then show ?thesis using data_op_table [of e l] by (simp add: table_of_def)
  next
    case False
    then show ?thesis
    proof (cases e)
      case (UdpReserve now a)
      then show ?thesis
        using reserve_packet_table [of now a l]
        by (rule_tac reserve_cases [of "UDPAddr_String a" "net_ip_text (ua_IP a)" l]) (auto simp: table_of_def)
    next
      case (UdpBuild key c d inp)
      then show ?thesis by (rule_tac build_cases [of key c d inp l]) (auto simp: table_of_def)
    next
      case (UdpFinish now key)
      then show ?thesis
        by (rule_tac finish_cases [of now key l]) (auto simp: table_of_def finishReservation_def Let_def)
    next
      case (UdpCloseRemove i)
      then show ?thesis by (rule_tac close_remove_cases [of i l]) (auto simp: removeMapping_def)
    next
      case (UdpCloseRelease now i)
      then show ?thesis by (rule_tac close_release_cases [of now i l]) (auto simp: table_of_def)
    qed auto
  qed
  then show "ul_semCap (udp_step l e) = ul_semCap l" "ul_maxPerIP (udp_step l e) = ul_maxPerIP l" by auto
qed

lemma cap_run [simp]:
  "ul_semCap (foldl udp_step l es) = ul_semCap l" "ul_maxPerIP (foldl udp_step l es) = ul_maxPerIP l"
  by (induction es arbitrary: l) auto

text \<open>
  C25: In every interleaving of packet workers, read loops, idle watchers and controllers the
  slots taken from the semaphore are exactly one for each reservation under construction and
  each mapping that was opened and has not yet released its own, so each gives its slot back
  exactly once; they never exceed the configured maximum of UDP mappings, and every open
  mapping holds one. It bounds the open mappings and the reservations, not the entries of the
  table, which can keep a mapping that was closed before it was published.
\<close>

theorem udp_capacity_respected:
  fixes ops :: "udp_op list"
  shows "let l = foldl udp_step (NewUDPListener addr port route maxMappings timeout ob reg bd) ops
   in ul_sem l = gcount unbuilt (ul_pending l) + count_if (\<lambda>m. mp_phase m \<noteq> Released) (ul_heap l) \<and> ul_sem l \<le> maxMappings \<and>
      filter (\<lambda>m. \<not> mp_closed m \<and> mp_phase m = Released) (ul_heap l) = [] \<and>
      count_if (\<lambda>m. \<not> mp_closed m) (ul_heap l) + gcount unbuilt (ul_pending l) \<le> maxMappings"
proof -
  define l where "l = foldl udp_step (NewUDPListener addr port route maxMappings timeout ob reg bd) ops"
  have inv: "slot_inv l" unfolding l_def using slots.run_invar slot_inv_new by blast
  have holders: "count_if holds_slot (map mp_view xs) = count_if (\<lambda>m. mp_phase m \<noteq> Released) xs" for xs
    by (induction xs) (auto simp: mp_view_def)
  have live: "count_if (\<lambda>m. \<not> mp_closed m) xs \<le> count_if (\<lambda>m. mp_phase m \<noteq> Released) xs \<and>
      filter (\<lambda>m. \<not> mp_closed m \<and> mp_phase m = Released) xs = []"
    if "list_all view_ok (map mp_view xs)" for xs
    using that by (induction xs) (auto simp: mp_view_def)
  have "ul_semCap l = maxMappings" by (simp add: l_def NewUDPListener_def)
  with inv live [of "ul_heap l"] holders [of "ul_heap l"] show ?thesis
    unfolding l_def [symmetric] Let_def by (simp add: slot_inv_def heap_view_def)
qed

text \<open>
  In every interleaving, as long as client addresses carry no zone, the mappings and
  reservations of one client address never exceed the per-address maximum, and the counter
  kept for an address is exactly their number, so nothing is lost when they close.
\<close>

lemma udp_per_ip_limit_respected:
  assumes "list_all plain_op ops" and "ip \<noteq> []"
    and "l = foldl udp_step (NewUDPListener addr port route maxMappings timeout ob reg bd) ops"
  shows "gget_default 0 (ul_ipCounts l) ip = int (ip_entries ip l) \<and> int (ip_entries ip l) \<le> udpMaxMappingsPerIP"
proof -
  have "foldl udp_step l0 ops = foldl (\<lambda>l e. if plain_op e then udp_step l e else l) l0 ops" for l0
    using assms(1) by (induction ops arbitrary: l0) auto
  then have "ip_inv l" using addresses.run_invar [OF ip_inv_new] assms(3) by simp
  moreover have "ul_maxPerIP l = udpMaxMappingsPerIP" using assms(3) by (simp add: NewUDPListener_def)
  ultimately show ?thesis using assms(2) by (simp add: ip_inv_def)
qed

definition sample_client :: UDPAddr where
  "sample_client = \<lparr>ua_IP = Some [192, 0, 2, 7], ua_Port = 5353, ua_Zone = []\<rparr>"

definition sample_listener :: UDPListener where
  "sample_listener = NewUDPListener ''127.0.0.1'' 9000 ''dns'' 10 60 True None False"

lemma udp_per_ip_limit_respected_sample:
  "gget_default 0 (ul_ipCounts (foldl udp_step sample_listener [UdpReserve 5 sample_client])) ''192.0.2.7'' =
     int (ip_entries ''192.0.2.7'' (foldl udp_step sample_listener [UdpReserve 5 sample_client])) \<and>
   int (ip_entries ''192.0.2.7'' (foldl udp_step sample_listener [UdpReserve 5 sample_client])) \<le> udpMaxMappingsPerIP"
proof -
  have "list_all plain_op [UdpReserve 5 sample_client]" by (simp add: plain_client_def sample_client_def)
  then show ?thesis
    by (rule udp_per_ip_limit_respected) (simp_all add: sample_listener_def)
qed

text \<open>
  A mapping that was closed and removed before its reservation was published: the table
  points at it, it is closed, and no goroutine is left that would remove the entry.
\<close>

fun gone :: "phase \<Rightarrow> bool" where
  "gone (Removed _) = True"
| "gone Released = True"
| "gone _ = False"

definition stuck :: "string \<Rightarrow> nat \<Rightarrow> UDPListener \<Rightarrow> bool" where
  "stuck key oid l \<longleftrightarrow> gget (ul_mappings l) key = Some oid \<and> gget (ul_pending l) key = None \<and>
     oid < length (ul_heap l) \<and> mp_closed (ul_heap l ! oid) \<and> list_all view_ok (heap_view l) \<and>
     (\<forall>v \<in> set (heap_view l). fst v = key \<longrightarrow> gone (snd (snd (snd v))))"

lemma stuck_table:
  assumes "table_of l' = table_of l" and "stuck key oid l"
  shows "stuck key oid l'"
proof -
  have "heap_view l' = heap_view l" using assms(1) by (simp add: table_of_def)
  then have "length (ul_heap l') = length (ul_heap l)" "mp_view (ul_heap l' ! oid) = mp_view (ul_heap l ! oid)"
    using assms(2) unfolding stuck_def by (metis length_heap_view, metis length_heap_view view_nth)
  with assms show ?thesis by (auto simp: stuck_def table_of_def mp_view_def)
qed

lemma stuck_replace:
  assumes "stuck key oid l" and "i < length (ul_heap l)" and "ul_heap l' = (ul_heap l)[i := m]"
    and "mp_closed (ul_heap l ! i) \<longrightarrow> mp_closed m" and "view_ok (mp_view m)"
    and "mp_clientAddrStr m = mp_clientAddrStr (ul_heap l ! i)"
    and "gone (mp_phase (ul_heap l ! i)) \<longrightarrow> gone (mp_phase m)"
    and "ul_pending l' = ul_pending l" and "gget (ul_mappings l') key = gget (ul_mappings l) key"
  shows "stuck key oid l'"
proof -
  have "mp_view (ul_heap l ! i) \<in> set (heap_view l)" using assms(2) by (simp add: heap_view_def)
  with assms(1) have "mp_clientAddrStr (ul_heap l ! i) = key \<longrightarrow> gone (mp_phase (ul_heap l ! i))"
    by (auto simp: stuck_def mp_view_def)
  moreover have "set (heap_view l') \<subseteq> insert (mp_view m) (set (heap_view l))"
    using set_update_subset_insert [of "heap_view l" i "mp_view m"] assms(3)
    by (simp add: heap_view_def map_update)
  moreover have "list_all view_ok (heap_view l')"
    using assms(1,3,5) by (simp add: heap_view_def map_update list_all_update stuck_def)
  ultimately show ?thesis
    using assms unfolding stuck_def by (auto simp: nth_list_update mp_view_def)
qed

lemma stuck_finish:
  assumes st: "stuck key oid l"
  shows "stuck key oid (finish_reserved now k l)"
proof (rule finish_cases [of now k l])
  fix r e
  assume h: "gget (ul_pending l) k = Some r"
    and t: "table_of (finish_reserved now k l) = table_of (finishReservation k (rv_clientIP r) (Inl e) l)"
  from st have "stuck key oid (finishReservation k (rv_clientIP r) (Inl e) l)"
    by (auto simp: stuck_def finishReservation_def heap_view_def)
  with t show ?thesis by (rule stuck_table)
next
  fix r i
  assume "gget (ul_pending l) k = Some r" "finish_reserved now k l = finishReservation k (rv_clientIP r) (Inr i) l"
  with st show ?thesis by (auto simp: stuck_def finishReservation_def heap_view_def)
qed (use st in simp)

lemma stuck_build:
  assumes st: "stuck key oid l"
  shows "stuck key oid (build_reserved k c d inp l)"
proof (rule build_cases [of k c d inp l])
  fix r e l'
  assume "gget (ul_pending l) k = Some r" "table_of l' = table_of l" "ul_heap l' = ul_heap l"
    "build_reserved k c d inp l = l'\<lparr>ul_pending := gput k (r\<lparr>rv_result := Some (Inl e)\<rparr>) (ul_pending l)\<rparr>"
  with st show ?thesis by (auto simp: stuck_def table_of_def heap_view_def)
next
  fix r m l'
  assume "gget (ul_pending l) k = Some r" "table_of l' = table_of l" "ul_heap l' = ul_heap l"
    "mp_view m = (k, clientIPFromAddr k, False, Live)"
    "build_reserved k c d inp l = l'\<lparr>ul_heap := ul_heap l @ [m],
         ul_pending := gput k (r\<lparr>rv_result := Some (Inr (length (ul_heap l)))\<rparr>) (ul_pending l)\<rparr>"
  with st show ?thesis by (auto simp: stuck_def table_of_def heap_view_def nth_append)
qed (use st in simp)

lemma stuck_close:
  assumes st: "stuck key oid l" and i: "i < length (ul_heap l)"
  shows "stuck key oid (set_mapping i (snd (close_flag reason (ul_heap l ! i))) l)"
    and "stuck key oid (close_remove i l)" and "stuck key oid (close_release now i l)"
proof -
  have v: "mp_clientAddrStr (ul_heap l ! i) = key \<longrightarrow> gone (mp_phase (ul_heap l ! i))"
    using st i view_nth [OF i] nth_mem [of i "heap_view l"] by (auto simp: stuck_def mp_view_def)
  have ok: "view_ok (mp_view (ul_heap l ! i))" using st i heap_view_ok by (auto simp: stuck_def)
  show "stuck key oid (close_release now i l)"
  proof (rule close_release_cases [of now i l])
    fix r m l' lc
    assume "m = ul_heap l ! i" "mp_phase m = Removed r" "table_of l' = table_of (l\<lparr>ul_sem := ul_sem l - 1\<rparr>)"
      "ul_heap l' = ul_heap l" "close_release now i l = set_mapping i (m\<lparr>mp_lifecycle := lc, mp_phase := Released\<rparr>) l'"
    then show ?thesis
      using ok by (intro stuck_replace [OF st i, where m = "m\<lparr>mp_lifecycle := lc, mp_phase := Released\<rparr>"])
        (auto simp: set_mapping_def table_of_def mp_view_def)
  qed (use st in simp)
  show "stuck key oid (close_remove i l)"
  proof (rule close_remove_cases [of i l])
    fix r m
    assume h: "m = ul_heap l ! i" "mp_phase m = Closing r" "close_remove i l =
      set_mapping i (m\<lparr>mp_phase := Removed r\<rparr>) (removeMapping (mp_clientAddrStr m) (mp_clientIP m) l)"
    with v have "mp_clientAddrStr m \<noteq> key" by auto
    with h show ?thesis
      using ok by (intro stuck_replace [OF st i, where m = "m\<lparr>mp_phase := Removed r\<rparr>"])
        (auto simp: set_mapping_def removeMapping_def mp_view_def)
  qed (use st in simp)
  from ok show "stuck key oid (set_mapping i (snd (close_flag reason (ul_heap l ! i))) l)"
    by (intro stuck_replace [OF st i, where m = "snd (close_flag reason (ul_heap l ! i))"])
      (auto simp: set_mapping_def close_flag_def mp_view_def)
qed

lemma stuck_reserve: "stuck key oid l \<Longrightarrow> stuck key oid (snd (getOrReserveMapping k ip l))"
  by (auto simp: getOrReserveMapping_def stuck_def heap_view_def split: option.splits)

lemma stuck_step: "stuck key oid l \<Longrightarrow> stuck key oid (udp_step l e)"
proof (cases "data_op e")
  case True
  moreover assume "stuck key oid l"
  ultimately show ?thesis using stuck_table data_op_table by blast
next
  case False
  moreover assume "stuck key oid l"
  ultimately show ?thesis
    by (cases e) (auto intro: stuck_build stuck_finish stuck_close stuck_table [OF reserve_packet_table] stuck_reserve)
qed

interpretation stuck_mapping: event_system udp_step "stuck key oid" for key oid
  by unfold_locales (rule stuck_step)

definition sample_build :: build_input where
  "sample_build = \<lparr>bi_now = 7,
     bi_picker = Some \<lparr>pk_Pick = (\<lambda>_. Inr \<lparr>fu_Tag = ''a'', fu_Addr = V4 0xC0000209\<rparr>), pk_PickOverride = None, pk_Feedback = False\<rparr>,
     bi_dial = (\<lambda>_. Some (''10.0.0.1:40000'', ''192.0.2.9:9000'')), bi_entropy = Some (replicate 16 0)\<rparr>"

lemma sample_ip_text: "net_ip_text (ua_IP sample_client) = ''192.0.2.7''"
proof -
  have "net_ip_text (ua_IP sample_client) = map char_of [49, 57, 50 :: nat] @ ''.'' @ map char_of [48 :: nat] @ ''.'' @
      map char_of [50 :: nat] @ ''.'' @ map char_of [55 :: nat]"
    by (simp add: sample_client_def net_ip_text_def to4_def v4_text_def octets_def bytes_of_word_def
        word_of_bytes_def upt_rec) (simp add: nat_text.simps join_def digit_char_def)
  also have "\<dots> = ''192.0.2.7''" by code_simp
  finally show ?thesis .
qed

lemma sample_key: "UDPAddr_String sample_client = ''192.0.2.7:5353''"
proof -
  have "Itoa 5353 = map char_of [53, 51, 53, 51 :: nat]"
    by (simp add: Itoa_def nat_text.simps digit_char_def)
  also have "\<dots> = ''5353''" by code_simp
  finally have "Itoa 5353 = ''5353''" .
  then show ?thesis
    using sample_ip_text by (auto simp: UDPAddr_String_def sample_client_def zone_text_def JoinHostPort_def)
qed

lemma sample_builds:
  "\<exists>m l'. buildMapping ''192.0.2.7:5353'' c allow_decision sample_build l = (Inr m, l')"
proof -
  have digits: "parse_port ''5353'' = Some 5353" "parse_v4_fields ''192.0.2.7'' \<noteq> None"
    by (simp_all add: parse_port_def parse_v4_fields_def parse_octet_def digits_value_def digit_val_def is_digit_def char_in_def)
  have "cut_last CHR '':'' ''192.0.2.7:5353'' = Some (''192.0.2.7'', ''5353'')"
    by (simp add: cut_last_def cut_first_def)
  with digits have "ParseAddrPort ''192.0.2.7:5353'' \<noteq> None"
    by (auto simp: ParseAddrPort_def ParseAddr_def Let_def)
  moreover have "NewID (Some (replicate 16 0)) \<noteq> None" by (simp add: NewID_def idEntropyBytes_def)
  ultimately show ?thesis
    by (auto simp: buildMapping_def sample_build_def pickUpstream_def allow_decision_def zero_decision_def
        apfst_def map_prod_def split: option.splits prod.splits)
qed

definition closed_before_published :: "udp_op list" where
  "closed_before_published =
     [UdpReserve 5 sample_client,
      UdpBuild ''192.0.2.7:5353'' sample_meta allow_decision sample_build,
      UdpCloseFlag 0 ''backend_blocked'', UdpCloseRemove 0, UdpFinish 8 ''192.0.2.7:5353'']"

lemma closed_before_published_stuck:
  "stuck ''192.0.2.7:5353'' 0 (foldl udp_step sample_listener closed_before_published)"
proof -
  let ?k = "''192.0.2.7:5353''" and ?ip = "''192.0.2.7''"
  define l1 where "l1 = udp_step sample_listener (UdpReserve 5 sample_client)"
  have t1: "table_of l1 = (10, 1, [], [(?k, \<lparr>rv_clientIP = ?ip, rv_result = None\<rparr>)], [(?ip, 1)], 50, [])"
    unfolding l1_def by (simp add: reserve_packet_table sample_key sample_ip_text)
      (simp add: getOrReserveMapping_def sample_listener_def NewUDPListener_def gget_default_def
        udpMaxMappingsPerIP_def table_of_def heap_view_def)
  obtain m l' where b: "buildMapping ?k sample_meta allow_decision sample_build l1 = (Inr m, l')"
    using sample_builds by blast
  have v: "mp_view m = (?k, clientIPFromAddr ?k, False, Live)" by (rule buildMapping_view [OF b])
  have l': "table_of l' = table_of l1" "ul_heap l' = []"
    using buildMapping_table [OF b] t1 by (auto simp: table_of_def heap_view_def)
  have run: "foldl udp_step sample_listener closed_before_published =
      foldl udp_step (build_reserved ?k sample_meta allow_decision sample_build l1)
        [UdpCloseFlag 0 ''backend_blocked'', UdpCloseRemove 0, UdpFinish 8 ?k]"
    unfolding closed_before_published_def l1_def by (simp only: foldl_Cons udp_step.simps)
  have l2: "build_reserved ?k sample_meta allow_decision sample_build l1 =
      l'\<lparr>ul_heap := [m], ul_pending := [(?k, \<lparr>rv_clientIP = ?ip, rv_result = Some (Inr 0)\<rparr>)]\<rparr>"
    using t1 b l' by (simp add: build_reserved_def table_of_def)
  show ?thesis
    unfolding run l2 using t1 l' v
    by (simp add: finish_reserved_def finishReservation_def close_remove_def
        close_flag_def set_mapping_def removeMapping_def stuck_def table_of_def heap_view_def mp_view_def)
qed

text \<open>
  A controller that blocks a Flow in the moment between the opening of its lifecycle in
  buildMapping and finishReservation leaves the client's address stuck: the table then maps
  it to a closed mapping, and no later sequence of packets, reads, timeouts, blocks or
  closes ever removes that entry again.
\<close>

lemma udp_close_before_publish_sticks:
  "\<forall>ops. let l = foldl udp_step (foldl udp_step sample_listener closed_before_published) ops
     in lookupMapping ''192.0.2.7:5353'' l = Some 0 \<and> mp_closed (ul_heap l ! 0)"
  using stuck_mapping.run_invar [OF closed_before_published_stuck]
  by (simp add: stuck_def lookupMapping_def Let_def)

definition whole_life :: "time \<Rightarrow> UDPAddr \<Rightarrow> Meta \<Rightarrow> Decision \<Rightarrow> build_input \<Rightarrow> nat \<Rightarrow> udp_op list" where
  "whole_life t a c d inp i =
     [UdpReserve t a, UdpBuild (UDPAddr_String a) c d inp, UdpFinish t (UDPAddr_String a),
      UdpCloseFlag i ''idle_timeout'', UdpCloseRemove i, UdpCloseRelease t i]"

text \<open>
  The per-address counter leaks for clients with a zone (link-local IPv6): when the
  mapping of such a client has been opened, idled out and been removed, its slot is free and
  its table entry gone, but the counter of its address is one higher than before, because
  it was counted up without the zone and counted down with it. Fifty such mappings lock the
  address out for good.
\<close>

lemma udp_zone_count_leaks:
  assumes "ua_IP a = Some bs" and "bs \<noteq> []" and "ua_Zone a \<noteq> []" and "text_safe (ua_Zone a)"
    and "gget (ul_mappings l) (UDPAddr_String a) = None" and "gget (ul_pending l) (UDPAddr_String a) = None"
    and "ul_sem l < ul_semCap l" and "gget_default 0 (ul_ipCounts l) (net_ip_text (ua_IP a)) < ul_maxPerIP l"
    and "net_ip_text (ua_IP a) \<noteq> []"
    and "\<forall>l0. \<exists>m l1. buildMapping (UDPAddr_String a) c d inp l0 = (Inr m, l1)"
    and "l' = foldl udp_step l (whole_life t a c d inp (length (ul_heap l)))"
  shows "gget_default 0 (ul_ipCounts l') (net_ip_text (ua_IP a)) =
      gget_default 0 (ul_ipCounts l) (net_ip_text (ua_IP a)) + 1 \<and>
    lookupMapping (UDPAddr_String a) l' = None \<and> ul_sem l' = ul_sem l"
proof -
  let ?k = "UDPAddr_String a" and ?ip = "net_ip_text (ua_IP a)" and ?i = "length (ul_heap l)"
  define l1 where "l1 = udp_step l (UdpReserve t a)"
  let ?r = "\<lparr>rv_clientIP = ?ip, rv_result = None\<rparr>"
  have t1: "table_of l1 = (ul_semCap l, ul_sem l + 1, ul_mappings l, gput ?k ?r (ul_pending l),
      gput ?ip (gget_default 0 (ul_ipCounts l) ?ip + 1) (ul_ipCounts l), ul_maxPerIP l, heap_view l)"
    unfolding l1_def udp_step.simps reserve_packet_table using assms(5-9)
    by (simp add: getOrReserveMapping_def table_of_def heap_view_def)
  have h1: "length (ul_heap l1) = ?i" using t1 unfolding table_of_def by (metis length_heap_view prod.inject)
  obtain m l2 where b: "buildMapping ?k c d inp l1 = (Inr m, l2)" using assms(10) by blast
  have v: "mp_view m = (?k, ?ip @ zone_text (ua_Zone a), False, Live)"
    using buildMapping_view [OF b] client_ip_text [OF assms(1,2,4)] by simp
  have t2: "table_of l2 = table_of l1" "ul_heap l2 = ul_heap l1" using buildMapping_table [OF b] by auto
  have built: "build_reserved ?k c d inp l1 = l2\<lparr>ul_heap := ul_heap l1 @ [m],
      ul_pending := gput ?k (?r\<lparr>rv_result := Some (Inr ?i)\<rparr>) (ul_pending l1)\<rparr>"
    using t1 b t2 h1 by (simp add: build_reserved_def table_of_def)
  have run: "l' = foldl udp_step (build_reserved ?k c d inp l1)
      [UdpFinish t ?k, UdpCloseFlag ?i ''idle_timeout'', UdpCloseRemove ?i, UdpCloseRelease t ?i]"
    unfolding assms(11) whole_life_def l1_def by (simp only: foldl_Cons udp_step.simps)
  have z: "?ip @ zone_text (ua_Zone a) \<noteq> ?ip" using assms(3) by (simp add: zone_text_def)
  have at: "(ul_heap l1 @ [m]) ! ?i = m" using h1 by (simp add: nth_append)
  show ?thesis
    unfolding run built using t1 t2 v h1 z at assms(5)
    by (simp add: finish_reserved_def finishReservation_def close_remove_def close_flag_def close_release_def
        set_mapping_def removeMapping_def table_of_def mp_view_def lookupMapping_def decrement_ip_def
        list_update_append nth_append Let_def split: prod.splits)
qed

definition zoned_client :: UDPAddr where
  "zoned_client = \<lparr>ua_IP = Some [254, 128, 0, 0, 0, 0, 0, 0, 0, 0, 0, 0, 0, 0, 0, 1], ua_Port = 5353, ua_Zone = ''eth0''\<rparr>"

lemma zoned_ip_text: "net_ip_text (ua_IP zoned_client) = ''fe80::1''"
proof -
  have w: "(word_of_bytes [254, 128, 0, 0, 0, 0, 0, 0, 0, 0, 0, 0, 0, 0, 0, 1] :: 128 word) = 0xfe800000000000000000000000000001"
    by (simp add: word_of_bytes_def)
  have h: "hextets 0xfe800000000000000000000000000001 = [0xfe80, 0, 0, 0, 0, 0, 0, 1]"
    by (simp add: hextets_def upt_rec)
  have z: "zero_run [0xfe80, 0, 0, 0, 0, 0, 0, 1] = Some (1, 7)"
    by (simp add: zero_run_def zero_run_at_def upt_rec Let_def)
  have x: "hex_text 0xfe80 = map char_of [102, 101, 56, 48 :: nat]" "hex_text 1 = map char_of [49 :: nat]"
    by (simp_all add: hex_text.simps hex_digit_def)
  have "hd v4_in_v6_prefix \<noteq> hd [254, 128, 0, 0, 0, 0, 0, 0, 0, 0, 0, 0]"
    by (simp add: v4_in_v6_prefix_def hd_append)
  then have "[254, 128, 0, 0, 0, 0, 0, 0, 0, 0, 0, 0] \<noteq> v4_in_v6_prefix" by metis
  then have "to4 [254, 128, 0, 0, 0, 0, 0, 0, 0, 0, 0, 0, 0, 0, 0, 1] = None" by (auto simp: to4_def)
  then have "net_ip_text (ua_IP zoned_client) = map char_of [102, 101, 56, 48 :: nat] @ ''::'' @ map char_of [49 :: nat]"
    by (simp add: zoned_client_def net_ip_text_def w v6_text_def h z x join_def Let_def del: One_nat_def)
      (simp add: x)
  also have "\<dots> = ''fe80::1''" by code_simp
  finally show ?thesis .
qed

lemma zoned_key: "UDPAddr_String zoned_client = ''[fe80::1%eth0]:5353''"
proof -
  have "Itoa 5353 = map char_of [53, 51, 53, 51 :: nat]"
    by (simp add: Itoa_def nat_text.simps digit_char_def)
  also have "\<dots> = ''5353''" by code_simp
  finally have "Itoa 5353 = ''5353''" .
  then show ?thesis
    using zoned_ip_text by (auto simp: UDPAddr_String_def zoned_client_def zone_text_def JoinHostPort_def)
qed

lemma zoned_builds:
  "\<exists>m l'. buildMapping ''[fe80::1%eth0]:5353'' c allow_decision sample_build l = (Inr m, l')"
proof -
  have groups: "v6_groups [] None ''fe80::1'' = Some ([0xfe, 0x80, 0, 1], Some 2, [])"
    by (subst v6_groups.simps, simp add: hex_val_def hex_value_def digit_val_def is_digit_def char_in_def,
        subst v6_groups.simps, simp add: hex_val_def hex_value_def digit_val_def is_digit_def char_in_def)
  have "cut_first CHR ''%'' ''fe80::1%eth0'' = Some (''fe80::1'', ''eth0'')" by (simp add: cut_first_def)
  with groups have "\<exists>w z. parse_v6 ''fe80::1%eth0'' = Some (V6 w z)" by (simp add: parse_v6_def Let_def)
  then obtain w z where "ParseAddr ''fe80::1%eth0'' = Some (V6 w z)" by (auto simp: ParseAddr_def)
  moreover have "parse_port ''5353'' = Some 5353"
    by (simp add: parse_port_def digits_value_def digit_val_def is_digit_def char_in_def)
  moreover have "cut_last CHR '':'' ''[fe80::1%eth0]:5353'' = Some (''[fe80::1%eth0]'', ''5353'')"
    by (simp add: cut_last_def cut_first_def)
  ultimately have "ParseAddrPort ''[fe80::1%eth0]:5353'' \<noteq> None"
    by (simp add: ParseAddrPort_def Let_def)
  moreover have "NewID (Some (replicate 16 0)) \<noteq> None" by (simp add: NewID_def idEntropyBytes_def)
  ultimately show ?thesis
    by (auto simp: buildMapping_def sample_build_def pickUpstream_def allow_decision_def zero_decision_def
        apfst_def map_prod_def split: option.splits prod.splits)
qed

lemma udp_zone_count_leaks_sample:
  "gget_default 0 (ul_ipCounts (foldl udp_step sample_listener
      (whole_life 5 zoned_client sample_meta allow_decision sample_build 0))) ''fe80::1'' = 1"
proof -
  have "\<forall>l0. \<exists>m l1. buildMapping (UDPAddr_String zoned_client) sample_meta allow_decision sample_build l0 = (Inr m, l1)"
    using zoned_builds by (simp add: zoned_key)
  moreover have "ua_IP zoned_client = Some [254, 128, 0, 0, 0, 0, 0, 0, 0, 0, 0, 0, 0, 0, 0, 1]"
    "ua_Zone zoned_client = ''eth0''"
    by (simp_all add: zoned_client_def)
  moreover have "ul_mappings sample_listener = []" "ul_pending sample_listener = []" "ul_sem sample_listener = 0"
    "ul_semCap sample_listener = 10" "ul_ipCounts sample_listener = []" "ul_maxPerIP sample_listener = 50"
    "ul_heap sample_listener = []"
    by (simp_all add: sample_listener_def NewUDPListener_def udpMaxMappingsPerIP_def)
  ultimately show ?thesis
    using udp_zone_count_leaks [OF _ _ _ _ _ _ _ _ _ _ refl, of zoned_client
        "[254, 128, 0, 0, 0, 0, 0, 0, 0, 0, 0, 0, 0, 0, 0, 1]" sample_listener sample_meta allow_decision sample_build 5]
      zoned_ip_text
    by (simp add: gget_default_def)
qed

lemma idle_times_append: "idle_times (es @ es') = idle_times es @ idle_times es'"
proof (induction es)
  case (Cons e es)
  then show ?case by (cases e) auto
qed simp

lemma idle_touch_time: "IdleTouch t \<in> set es \<Longrightarrow> t \<in> set (idle_times es)"
proof (induction es)
  case (Cons e es)
  then show ?case by (cases e) auto
qed simp

lemma idle_deadline:
  assumes "0 \<le> timeout" and "sorted (idle_times es)" and "\<forall>t \<in> set (idle_times es). t0 \<le> t"
    and "foldl (idle_step timeout) (Watching (t0 + timeout) False) es = Watching d act"
  shows "t0 + timeout \<le> d \<and> (\<not> act \<longrightarrow> (\<forall>t. IdleTouch t \<in> set es \<longrightarrow> t + timeout \<le> d))"
  using assms(2-4)
proof (induction es arbitrary: d act rule: rev_induct)
  case (snoc e es)
  obtain d' act' where st: "foldl (idle_step timeout) (Watching (t0 + timeout) False) es = Watching d' act'"
    using snoc.prems(3) by (cases "foldl (idle_step timeout) (Watching (t0 + timeout) False) es") auto
  have IH: "t0 + timeout \<le> d' \<and> (\<not> act' \<longrightarrow> (\<forall>t. IdleTouch t \<in> set es \<longrightarrow> t + timeout \<le> d'))"
    using snoc.prems(1,2) by (intro snoc.IH [OF _ _ st]) (auto simp: idle_times_append sorted_append)
  show ?case
    using IH snoc.prems st
    by (cases e) (auto simp: idle_times_append sorted_append dest!: idle_touch_time split: if_splits)
qed simp

text \<open>
  The idle watcher closes a mapping for idleness only when at least the configured
  timeout has passed since the mapping was opened and since its last packet in either
  direction, however the watcher's wake-ups and the packets interleave.
\<close>

lemma udp_idle_timeout_sound:
  assumes "foldl (idle_step timeout) (Watching (t0 + timeout) False) es = Watching d act"
    and "idle_step timeout (Watching d act) (IdleTimer now) = Stopped (Some ''idle_timeout'')"
    and "0 \<le> timeout" and "sorted (idle_times es)" and "\<forall>t \<in> set (idle_times es). t0 \<le> t"
  shows "t0 + timeout \<le> now \<and> (\<forall>t. IdleTouch t \<in> set es \<longrightarrow> t + timeout \<le> now)"
proof -
  from assms(2) have "d \<le> now" "\<not> act" by (auto split: if_splits)
  with idle_deadline [OF assms(3-5,1)] show ?thesis by auto
qed

lemma udp_idle_timeout_sound_sample:
  "foldl (idle_step 60) (Watching (0 + 60) False) [IdleTouch 30, IdleTimer 60] = Watching 120 False \<and>
   idle_step 60 (Watching 120 False) (IdleTimer 121) = Stopped (Some ''idle_timeout'') \<and>
   0 + 60 \<le> (121 :: time) \<and> 30 + 60 \<le> (121 :: time)"
  using udp_idle_timeout_sound [of 60 0 "[IdleTouch 30, IdleTimer 60]" 120 False 121] by simp

end
