(* ===== verification/TcpForward.thy ===== *)
theory TcpForward
  imports Forwarding
begin

text \<open>
  \<open>internal/forwarding/tcp_copy.go\<close> and \<open>forward_tcp.go\<close>: the copy loop of one
  direction, the supervision of the two directions, the closing of a connection, and the
  admission of an accepted client. What the sockets answer is given as data: a round of the
  copy loop carries the result of its read, of the limiter and of its writes; the
  supervising loop consumes a list of events in the order in which \<open>select\<close> takes them.
  Log events and socket options are left out.
\<close>

section \<open>Copying one direction\<close>

datatype tcpCopyEnd = tcpCopyEOF | tcpCopyReadError | tcpCopyWriteError | tcpCopyContextDone

datatype write_error = WriteFailed | InvalidWriterCount | ShortWrite

text \<open>
  \<open>writeAll\<close>: each response of the writer is the count it returns and whether it returns
  an error. \<open>None\<close> is a write that has not returned.
\<close>

fun writeAll ::
    "(int \<times> bool) list \<Rightarrow> byte list \<Rightarrow> byte list \<Rightarrow> ((byte list \<times> write_error option) \<times> (int \<times> bool) list) option" where
  "writeAll ws sent buffer =
     (if buffer = [] then Some ((sent, None), ws)
      else case ws of
        [] \<Rightarrow> None
      | (n, failed) # ws' \<Rightarrow>
          if n < 0 \<or> n > int (length buffer) then Some ((sent, Some InvalidWriterCount), ws')
          else
            let sent' = sent @ take (nat n) buffer; rest = drop (nat n) buffer
            in if failed then Some ((sent', Some WriteFailed), ws')
               else if n = 0 then Some ((sent', Some ShortWrite), ws')
               else writeAll ws' sent' rest)"

declare writeAll.simps [simp del]

datatype read_end = ReadMore | ReadEOF | ReadFailed

record copy_round =
  cr_ctxDone :: bool
  cr_data :: "byte list"
  cr_end :: read_end
  cr_waitOk :: bool
  cr_writes :: "(int \<times> bool) list"

record copy_state =
  cs_sent :: "byte list"
  cs_progress :: "int list"

definition copy_write :: "copy_round \<Rightarrow> copy_state \<Rightarrow> (write_error option \<times> copy_state) option" where
  "copy_write r st =
     (case writeAll (cr_writes r) [] (cr_data r) of
        None \<Rightarrow> None
      | Some ((sent, err), _) \<Rightarrow>
          Some (err, st\<lparr>cs_sent := cs_sent st @ sent,
                        cs_progress := cs_progress st @ (if sent \<noteq> [] then [int (length sent)] else [])\<rparr>))"

definition read_outcome :: "read_end \<Rightarrow> tcpCopyEnd option" where
  "read_outcome e = (case e of ReadMore \<Rightarrow> None | ReadEOF \<Rightarrow> Some tcpCopyEOF | ReadFailed \<Rightarrow> Some tcpCopyReadError)"

fun copyTCP :: "nat \<Rightarrow> copy_round list \<Rightarrow> copy_state \<Rightarrow> tcpCopyEnd option \<times> copy_state" where
  "copyTCP bufferLen [] st = (if bufferLen = 0 then (Some tcpCopyReadError, st) else (None, st))"
| "copyTCP bufferLen (r # rs) st =
     (if bufferLen = 0 then (Some tcpCopyReadError, st)
      else if cr_ctxDone r then (Some tcpCopyContextDone, st)
      else if cr_data r \<noteq> [] then
        (if \<not> cr_waitOk r then (Some tcpCopyContextDone, st)
         else case copy_write r st of
                None \<Rightarrow> (None, st)
              | Some (Some _, st') \<Rightarrow> (Some tcpCopyWriteError, st')
              | Some (None, st') \<Rightarrow>
                  (case read_outcome (cr_end r) of Some e \<Rightarrow> (Some e, st') | None \<Rightarrow> copyTCP bufferLen rs st'))
      else (case read_outcome (cr_end r) of Some e \<Rightarrow> (Some e, st) | None \<Rightarrow> copyTCP bufferLen rs st))"

definition copy_start :: copy_state where
  "copy_start = \<lparr>cs_sent = [], cs_progress = []\<rparr>"

section \<open>A connection\<close>

definition tcpDialTimeout :: duration where "tcpDialTimeout = 5 * second"
definition tcpDialFailureCooldown :: duration where "tcpDialFailureCooldown = 5 * second"
definition tcpBufferSize :: nat where "tcpBufferSize = 32 * 1024"

record tcpConn =
  tc_id :: string
  tc_upstreamTag :: string
  tc_rateLimiter :: byteRateLimiter
  tc_closed :: bool
  tc_cancelled :: bool
  tc_activityCh :: bool
  tc_lifecycle :: "unit Lifecycle option"
  tc_registry :: "unit FlowRegistry option"
  tc_calls :: "obs_call list"

definition tcp_setRateLimit :: "time \<Rightarrow> uint64 \<Rightarrow> tcpConn \<Rightarrow> bool \<times> tcpConn" where
  "tcp_setRateLimit now bps c =
     (if tc_closed c then (False, c)
      else (True, c\<lparr>tc_rateLimiter := SetOverrideBPS now bps (tc_rateLimiter c)\<rparr>))"

definition tcp_clearRateLimit :: "time \<Rightarrow> tcpConn \<Rightarrow> bool \<times> tcpConn" where
  "tcp_clearRateLimit now c =
     (if tc_closed c then (False, c)
      else (True, c\<lparr>tc_rateLimiter := ClearOverrideBPS now (tc_rateLimiter c)\<rparr>))"

definition tcp_touch :: "time \<Rightarrow> uint64 \<Rightarrow> bool \<Rightarrow> tcpConn \<Rightarrow> tcpConn" where
  "tcp_touch now n up c =
     (let c1 = (case tc_lifecycle c of None \<Rightarrow> c
                | Some lc \<Rightarrow>
                    let (lc', reg, calls) =
                          (if up then Lifecycle_AddAt now n 0 1 0 (lc, tc_registry c, tc_calls c)
                           else Lifecycle_AddAt now 0 n 0 1 (lc, tc_registry c, tc_calls c))
                    in c\<lparr>tc_lifecycle := Some lc', tc_registry := reg, tc_calls := calls\<rparr>)
      in c1\<lparr>tc_activityCh := True\<rparr>)"

definition tcp_closeWithReason :: "time \<Rightarrow> string \<Rightarrow> tcpConn \<Rightarrow> bool \<times> tcpConn" where
  "tcp_closeWithReason now reason c =
     (if tc_closed c then (False, c)
      else let c1 = c\<lparr>tc_closed := True, tc_cancelled := True\<rparr>
           in (True, case tc_lifecycle c1 of None \<Rightarrow> c1
                     | Some lc \<Rightarrow>
                         let (lc', reg, calls) = Lifecycle_Close now reason (lc, tc_registry c1, tc_calls c1)
                         in c1\<lparr>tc_lifecycle := Some lc', tc_registry := reg, tc_calls := calls\<rparr>))"

section \<open>Supervising the two directions\<close>

definition tcpCopyCloseReason :: "tcpCopyEnd \<Rightarrow> string" where
  "tcpCopyCloseReason e =
     (case e of tcpCopyReadError \<Rightarrow> ''read_error'' | tcpCopyWriteError \<Rightarrow> ''write_error''
      | tcpCopyContextDone \<Rightarrow> ''context_done'' | _ \<Rightarrow> ''read_error'')"

text \<open>
  An event of the loop of \<open>serve\<close>: a direction that ended (with the outcome of half-closing
  its destination, should it be needed), the end of the context, the clock reaching an
  instant, which fires the idle timer when that is due, or an activity, which sets the timer
  anew. The loop ends when it returns; \<open>sv_halfClosed\<close> records the half-closes.
\<close>

datatype serve_event = DirEnded bool tcpCopyEnd bool | ServeCtx | ServeTimer | ServeActivity

record serve_state =
  sv_remaining :: nat
  sv_halfClosed :: "bool list"
  sv_done :: bool
  sv_timer :: time
  sv_conn :: tcpConn

definition serve_close :: "time \<Rightarrow> string \<Rightarrow> serve_state \<Rightarrow> serve_state" where
  "serve_close now reason s = s\<lparr>sv_conn := snd (tcp_closeWithReason now reason (sv_conn s)), sv_done := True\<rparr>"

definition serve_step :: "duration \<Rightarrow> serve_state \<Rightarrow> time \<times> serve_event \<Rightarrow> serve_state" where
  "serve_step timeout s ev =
     (case ev of (now, e) \<Rightarrow>
        if sv_done s \<or> sv_remaining s = 0 then s
        else case e of
          DirEnded up ending closeOk \<Rightarrow>
            (let s1 = s\<lparr>sv_remaining := sv_remaining s - 1\<rparr>
             in if ending = tcpCopyEOF then
                  (let s2 = s1\<lparr>sv_halfClosed := sv_halfClosed s1 @ [up]\<rparr>
                   in if \<not> closeOk then serve_close now ''write_error'' s2
                      else if sv_remaining s2 = 0 then serve_close now ''eof'' s2
                      else s2)
                else serve_close now (tcpCopyCloseReason ending) s1)
        | ServeCtx \<Rightarrow> serve_close now ''context_done'' s
        | ServeTimer \<Rightarrow> if sv_timer s \<le> now then serve_close now ''idle_timeout'' s else s
        | ServeActivity \<Rightarrow> s\<lparr>sv_timer := now + timeout, sv_conn := (sv_conn s)\<lparr>tc_activityCh := False\<rparr>\<rparr>)"

definition serve :: "duration \<Rightarrow> time \<Rightarrow> tcpConn \<Rightarrow> (time \<times> serve_event) list \<Rightarrow> serve_state" where
  "serve timeout now c evs =
     foldl (serve_step timeout)
       \<lparr>sv_remaining = 2, sv_halfClosed = [], sv_done = False, sv_timer = now + timeout, sv_conn = c\<rparr> evs"

section \<open>Dialling\<close>

text \<open>
  \<open>dialTCPWithRetry\<close>: the outcome of each dial, and whether the context ended during the
  pause after a failed one. The result is the connection (the index of the dial) or not, and
  the number of dials made.
\<close>

fun dial_loop :: "nat \<Rightarrow> nat \<Rightarrow> (bool \<times> bool) list \<Rightarrow> nat option \<times> nat" where
  "dial_loop i attempts [] = (None, i)"
| "dial_loop i attempts ((ok, ctxDone) # ds) =
     (if i \<ge> attempts then (None, i)
      else if ok then (Some i, i + 1)
      else if i < attempts - 1 then (if ctxDone then (None, i + 1) else dial_loop (i + 1) attempts ds)
      else (None, i + 1))"

definition dialTCPWithRetry :: "int \<Rightarrow> (bool \<times> bool) list \<Rightarrow> nat option \<times> nat" where
  "dialTCPWithRetry attempts ds = dial_loop 0 (if attempts < 1 then 1 else nat attempts) ds"

section \<open>Admission of a client\<close>

record TCPListener =
  tl_BindAddr :: string
  tl_BindPort :: int
  tl_Route :: string
  tl_observer :: bool
  tl_registry :: "unit FlowRegistry option"
  tl_binder :: bool

definition tcp_listenAddr :: "TCPListener \<Rightarrow> string" where
  "tcp_listenAddr l = JoinHostPort (tl_BindAddr l) (Itoa (tl_BindPort l))"

text \<open>What the environment answers while a client is admitted.\<close>

record tcp_env =
  te_now :: time
  te_policy :: "(Meta \<Rightarrow> Decision) option"
  te_picker :: "UpstreamPicker option"
  te_dials :: "(bool \<times> bool) list"
  te_ctxDone :: bool
  te_local :: string
  te_remote :: string
  te_entropy :: "byte list option"

record tcp_result =
  tr_calls :: "obs_call list"
  tr_feedback :: "feedback_call list"
  tr_binds :: "(string \<times> BackendTuple) list"
  tr_conn :: "tcpConn option"

definition tcp_closed :: tcp_result where
  "tcp_closed = \<lparr>tr_calls = [], tr_feedback = [], tr_binds = [], tr_conn = None\<rparr>"

definition tcp_reject :: "TCPListener \<Rightarrow> tcp_env \<Rightarrow> string \<Rightarrow> string \<Rightarrow> Decision \<Rightarrow> tcp_result" where
  "tcp_reject l env clientAddr reason decision =
     tcp_closed\<lparr>tr_calls := emitRejection (te_now env) (tl_observer l) ProtocolTCP (tcp_listenAddr l) clientAddr reason decision\<rparr>"

definition tcp_start ::
    "TCPListener \<Rightarrow> tcp_env \<Rightarrow> string \<Rightarrow> Meta \<Rightarrow> Decision \<Rightarrow> FwUpstream \<Rightarrow> tcp_result" where
  "tcp_start l env clientAddr candidate decision selected =
     (case ParseAddrPort clientAddr of
        None \<Rightarrow> tcp_closed
      | Some endpoint \<Rightarrow>
          (case NewID (te_entropy env) of
             None \<Rightarrow> tcp_closed
           | Some fid \<Rightarrow>
               let created = (if is_zero_time (meta_StartedAt candidate) then te_now env else meta_StartedAt candidate);
                   lc0 = NewLifecycle (te_now env)
                     \<lparr>meta_ID = fid, meta_Protocol = ProtocolTCP, meta_ClientAddr = endpoint,
                      meta_Listener = tcp_listenAddr l, meta_Route = tl_Route l,
                      meta_Upstream = fu_Tag selected, meta_StartedAt = created\<rparr> (tl_observer l) (Some id);
                   (lc, reg, calls) = Lifecycle_Open (lc0, tl_registry l, []);
                   binds = (if tl_binder l then
                              (case backendTuple ProtocolTCP (fu_Tag selected) (Some (te_local env)) (Some (te_remote env)) of
                                 None \<Rightarrow> [] | Some tuple \<Rightarrow> [(fid, tuple)])
                            else [])
               in tcp_closed\<lparr>tr_calls := calls, tr_binds := binds,
                    tr_conn := Some \<lparr>tc_id = fid, tc_upstreamTag = fu_Tag selected,
                      tc_rateLimiter = newByteRateLimiter (te_now env) (dec_RateLimitBPS decision),
                      tc_closed = False, tc_cancelled = False, tc_activityCh = False,
                      tc_lifecycle = Some lc, tc_registry = reg, tc_calls = calls\<rparr>\<rparr>))"

definition tcp_connect ::
    "TCPListener \<Rightarrow> tcp_env \<Rightarrow> string \<Rightarrow> Meta \<Rightarrow> Decision \<Rightarrow> UpstreamPicker \<Rightarrow> FwUpstream \<Rightarrow> tcp_result" where
  "tcp_connect l env clientAddr candidate decision p selected =
     (if \<not> addr_valid (fu_Addr selected) then tcp_reject l env clientAddr ''upstream_unusable'' zero_decision
      else case fst (dialTCPWithRetry 2 (te_dials env)) of
             None \<Rightarrow>
               if te_ctxDone env then tcp_closed
               else (tcp_reject l env clientAddr ''dial_failed'' zero_decision)
                      \<lparr>tr_feedback := (if pk_Feedback p then [FbMarkDialFailure selected tcpDialFailureCooldown] else [])\<rparr>
           | Some _ \<Rightarrow>
               (tcp_start l env clientAddr candidate decision selected)
                  \<lparr>tr_feedback := (if pk_Feedback p then [FbClearDialFailure selected] else [])\<rparr>)"

definition handleConn :: "TCPListener \<Rightarrow> tcp_env \<Rightarrow> string \<Rightarrow> tcp_result" where
  "handleConn l env clientAddr =
     (case newCandidateMeta (te_now env) ProtocolTCP clientAddr (tcp_listenAddr l) (tl_Route l) of
        None \<Rightarrow> tcp_closed
      | Some candidate \<Rightarrow>
          let decision = (case te_policy env of None \<Rightarrow> allow_decision | Some decide \<Rightarrow> decide candidate)
          in if te_policy env \<noteq> None \<and> \<not> dec_Allowed decision
             then tcp_reject l env clientAddr ''firewall_deny'' decision
             else case te_picker env of
                    None \<Rightarrow> tcp_reject l env clientAddr ''upstream_unusable'' zero_decision
                  | Some p \<Rightarrow>
                      (case pickUpstream (Some p) candidate decision of
                         Inl _ \<Rightarrow> tcp_reject l env clientAddr ''upstream_unusable'' zero_decision
                       | Inr selected \<Rightarrow> tcp_connect l env clientAddr candidate decision p selected))"

text \<open>The accept loop: a client without a free slot is refused, and a slot is given back.\<close>

datatype accept_event = Accept string tcp_env | ConnDone

fun accept_step :: "TCPListener \<Rightarrow> nat \<Rightarrow> nat \<times> tcp_result list \<Rightarrow> accept_event \<Rightarrow> nat \<times> tcp_result list" where
  "accept_step l cap (inUse, rs) (Accept clientAddr env) =
     (if inUse < cap then
        (let r = handleConn l env clientAddr in (if tr_conn r = None then inUse else inUse + 1, rs @ [r]))
      else (inUse, rs @ [tcp_reject l env clientAddr ''tcp_connection_limit'' zero_decision]))"
| "accept_step l cap (inUse, rs) ConnDone = (inUse - 1, rs)"

section \<open>Facts on copying\<close>

lemma writeAll_eqs:
  "writeAll ws sent [] = Some ((sent, None), ws)"
  "buffer \<noteq> [] \<Longrightarrow> writeAll [] sent buffer = None"
  "buffer \<noteq> [] \<Longrightarrow> writeAll ((n, failed) # ws) sent buffer =
     (if n < 0 \<or> n > int (length buffer) then Some ((sent, Some InvalidWriterCount), ws)
      else if failed then Some ((sent @ take (nat n) buffer, Some WriteFailed), ws)
      else if n = 0 then Some ((sent @ take (nat n) buffer, Some ShortWrite), ws)
      else writeAll ws (sent @ take (nat n) buffer) (drop (nat n) buffer))"
  by (simp_all add: writeAll.simps [of ws sent] writeAll.simps [of _ _ buffer] Let_def)

lemma writeAll_prefix:
  "writeAll ws sent buffer = Some ((sent', err), ws') \<Longrightarrow>
     \<exists>dn rest. sent' = sent @ dn \<and> buffer = dn @ rest \<and> (err = None \<longrightarrow> rest = [])"
proof (induction ws arbitrary: sent buffer)
  case Nil
  then show ?case by (cases "buffer = []") (auto simp: writeAll_eqs)
next
  case (Cons w ws)
  obtain n failed where w: "w = (n, failed)" by (cases w)
  show ?case
  proof (cases "buffer = [] \<or> n < 0 \<or> n > int (length buffer)")
    case True
    with Cons.prems w have "sent' = sent" "err = None \<longrightarrow> buffer = []"
      by (cases "buffer = []"; auto simp: writeAll_eqs)+
    then show ?thesis by (intro exI [of _ "[]"] exI [of _ buffer]) auto
  next
    case False
    show ?thesis
    proof (cases "failed \<or> n = 0")
      case True
      with Cons.prems w False have "sent' = sent @ take (nat n) buffer" "err \<noteq> None"
        by (auto simp: writeAll_eqs split: if_splits)
      then show ?thesis by (intro exI [of _ "take (nat n) buffer"] exI [of _ "drop (nat n) buffer"]) auto
    next
      case ok: False
      with Cons.prems w False
      have "writeAll ws (sent @ take (nat n) buffer) (drop (nat n) buffer) = Some ((sent', err), ws')"
        by (simp add: writeAll_eqs)
      from Cons.IH [OF this] obtain dn rest where "sent' = (sent @ take (nat n) buffer) @ dn"
        "drop (nat n) buffer = dn @ rest" "err = None \<longrightarrow> rest = []" by auto
      then show ?thesis
        by (intro exI [of _ "take (nat n) buffer @ dn"] exI [of _ rest]) (simp, metis append_take_drop_id)
    qed
  qed
qed

lemma copy_write_spec:
  assumes "copy_write r st = Some (err, st')"
  obtains dn rest where "cs_sent st' = cs_sent st @ dn" and "cr_data r = dn @ rest" and "err = None \<longrightarrow> rest = []"
    and "sum_list (cs_progress st') = sum_list (cs_progress st) + int (length dn)"
  using assms writeAll_prefix [of "cr_writes r" "[]" "cr_data r"]
  by (fastforce simp: copy_write_def split: option.splits prod.splits)

lemma copy_spec:
  assumes "copyTCP n rs st = (res, st')"
  shows "\<exists>dn rest k. cs_sent st' = cs_sent st @ dn \<and> concat (map cr_data rs) = dn @ rest \<and>
    sum_list (cs_progress st') = sum_list (cs_progress st) + int (length dn) \<and>
    (res = Some tcpCopyEOF \<longrightarrow> k < length rs \<and> cr_end (rs ! k) = ReadEOF \<and> dn = concat (map cr_data (take (Suc k) rs)))"
  using assms
proof (induction rs arbitrary: st)
  case Nil
  then show ?case by (intro exI [of _ "[]"]) (auto split: if_splits)
next
  case (Cons r rs)
  have step: ?case if "copyTCP n rs st1 = (res, st')" "cs_sent st1 = cs_sent st @ cr_data r"
    "sum_list (cs_progress st1) = sum_list (cs_progress st) + int (length (cr_data r))" for st1
  proof -
    from Cons.IH [OF that(1)] obtain dn rest k where "cs_sent st' = cs_sent st1 @ dn" "concat (map cr_data rs) = dn @ rest"
      "sum_list (cs_progress st') = sum_list (cs_progress st1) + int (length dn)"
      "res = Some tcpCopyEOF \<longrightarrow> k < length rs \<and> cr_end (rs ! k) = ReadEOF \<and> dn = concat (map cr_data (take (Suc k) rs))"
      by blast
    with that(2,3) show ?thesis
      by (intro exI [of _ "cr_data r @ dn"] exI [of _ rest] exI [of _ "Suc k"]) auto
  qed
  have stop: ?case if "cs_sent st' = cs_sent st @ dn" "cr_data r = dn @ rest"
    "sum_list (cs_progress st') = sum_list (cs_progress st) + int (length dn)"
    "res = Some tcpCopyEOF \<longrightarrow> cr_end r = ReadEOF \<and> rest = []" for dn rest
    using that by (intro exI [of _ dn] exI [of _ "rest @ concat (map cr_data rs)"] exI [of _ 0]) auto
  show ?case
  proof (cases "n = 0 \<or> cr_ctxDone r \<or> cr_data r \<noteq> [] \<and> \<not> cr_waitOk r \<or> cr_data r \<noteq> [] \<and> copy_write r st = None")
    case True
    with Cons.prems show ?thesis using stop [of "[]" "cr_data r"] by (auto split: if_splits option.splits)
  next
    case False
    show ?thesis
    proof (cases "cr_data r = []")
      case True
      with False Cons.prems show ?thesis
        using step [of st] stop [of "[]" "[]"]
        by (cases "cr_end r") (auto simp: read_outcome_def)
    next
      case data: False
      with False obtain err st1 where w: "copy_write r st = Some (err, st1)" by auto
      from copy_write_spec [OF w] obtain dn rest where d: "cs_sent st1 = cs_sent st @ dn" "cr_data r = dn @ rest"
        "err = None \<longrightarrow> rest = []" "sum_list (cs_progress st1) = sum_list (cs_progress st) + int (length dn)" by metis
      show ?thesis
      proof (cases err)
        case None
        with d False data w Cons.prems show ?thesis
          using step [of st1] stop [of dn "[]"]
          by (cases "cr_end r") (auto simp: read_outcome_def)
      next
        case (Some e)
        with d False data w Cons.prems show ?thesis using stop [of dn rest] by auto
      qed
    qed
  qed
qed

section \<open>Properties\<close>

text \<open>
  C26: One direction of a TCP Flow delivers what it reads: whatever the sockets and the
  limiter answer, the bytes written are a prefix of the bytes read, in order, nothing
  repeated or skipped; the progress reported for accounting is exactly the number of bytes
  written; and a direction that ends by EOF has written every byte it read.
\<close>

theorem tcp_copy_faithful:
  assumes "copyTCP bufferLen rs copy_start = (res, st)"
  shows "\<exists>rest. concat (map cr_data rs) = cs_sent st @ rest \<and> sum_list (cs_progress st) = int (length (cs_sent st)) \<and>
    (res = Some tcpCopyEOF \<longrightarrow>
       (\<exists>k < length rs. cr_end (rs ! k) = ReadEOF \<and> cs_sent st = concat (map cr_data (take (Suc k) rs))))"
  using copy_spec [OF assms] by (fastforce simp: copy_start_def)

definition sample_rounds :: "copy_round list" where
  "sample_rounds =
     [\<lparr>cr_ctxDone = False, cr_data = [1, 2, 3], cr_end = ReadMore, cr_waitOk = True, cr_writes = [(2, False), (1, False)]\<rparr>,
      \<lparr>cr_ctxDone = False, cr_data = [4], cr_end = ReadEOF, cr_waitOk = True, cr_writes = [(1, False)]\<rparr>]"

theorem tcp_copy_faithful_witness:
  "\<exists>st. copyTCP 4 sample_rounds copy_start = (Some tcpCopyEOF, st) \<and>
     sum_list (cs_progress st) = int (length (cs_sent st))"
proof -
  obtain st where st: "copyTCP 4 sample_rounds copy_start = (Some tcpCopyEOF, st)"
    by (simp add: sample_rounds_def copy_write_def writeAll_eqs read_outcome_def)
  from tcp_copy_faithful [OF st] st show ?thesis by auto
qed

fun is_reject :: "obs_call \<Rightarrow> bool" where
  "is_reject (ObsReject _) = True"
| "is_reject _ = False"

lemma reject_calls: "list_all is_reject (emitRejection now ob p l a r d) \<and> length (emitRejection now ob p l a r d) \<le> 1"
  by (simp add: emitRejection_def Let_def)

lemma tcp_reject_simps [simp]:
  "tr_conn (tcp_reject l env a r d) = None" "list_all is_reject (tr_calls (tcp_reject l env a r d))"
  "length (tr_calls (tcp_reject l env a r d)) \<le> Suc 0" "tr_binds (tcp_reject l env a r d) = []"
  using reject_calls by (simp_all add: tcp_reject_def tcp_closed_def)

lemma tcp_start_cases:
  "tr_conn (tcp_start l env a c d u) = None \<and> tr_calls (tcp_start l env a c d u) = [] \<or>
   (\<exists>cn lc. tr_conn (tcp_start l env a c d u) = Some cn \<and> tc_upstreamTag cn = fu_Tag u \<and> \<not> tc_closed cn \<and>
      rl_baseBPS (tc_rateLimiter cn) = dec_RateLimitBPS d \<and> tc_lifecycle cn = Some lc \<and>
      meta_Upstream (lc_meta lc) = fu_Tag u \<and>
      tr_calls (tcp_start l env a c d u) = (if tl_observer l then [ObsOpen (lc_meta lc)] else []))"
proof (cases "ParseAddrPort a = None \<or> NewID (te_entropy env) = None")
  case True
  then show ?thesis by (auto simp: tcp_start_def tcp_closed_def split: option.splits)
next
  case False
  then obtain e fid where "ParseAddrPort a = Some e" "NewID (te_entropy env) = Some fid" by auto
  then show ?thesis
    by (intro disjI2) (simp add: tcp_start_def tcp_closed_def NewLifecycle_def Lifecycle_Open_def observe_def
        newByteRateLimiter_def recomputeLocked_def Let_def)
qed

lemma handleConn_cases:
  "case tr_conn (handleConn l env a) of
     None \<Rightarrow> list_all is_reject (tr_calls (handleConn l env a)) \<and> length (tr_calls (handleConn l env a)) \<le> 1
   | Some cn \<Rightarrow> \<exists>cand dec p u lc.
       newCandidateMeta (te_now env) ProtocolTCP a (tcp_listenAddr l) (tl_Route l) = Some cand \<and>
       dec = (case te_policy env of None \<Rightarrow> allow_decision | Some decide \<Rightarrow> decide cand) \<and> dec_Allowed dec \<and>
       te_picker env = Some p \<and> pickUpstream (Some p) cand dec = Inr u \<and> addr_valid (fu_Addr u) \<and>
       fst (dialTCPWithRetry 2 (te_dials env)) \<noteq> None \<and>
       tc_upstreamTag cn = fu_Tag u \<and> rl_baseBPS (tc_rateLimiter cn) = dec_RateLimitBPS dec \<and> \<not> tc_closed cn \<and>
       tc_lifecycle cn = Some lc \<and> meta_Upstream (lc_meta lc) = fu_Tag u \<and>
       tr_calls (handleConn l env a) = (if tl_observer l then [ObsOpen (lc_meta lc)] else [])"
proof -
  let ?r = "handleConn l env a"
  define refused where "refused r \<longleftrightarrow> tr_conn r = None \<and> list_all is_reject (tr_calls r) \<and> length (tr_calls r) \<le> 1" for r :: tcp_result
  have basic: "refused tcp_closed" "refused (tcp_reject l env a x y)"
    "refused ((tcp_reject l env a x y)\<lparr>tr_feedback := z\<rparr>)" for x y z
    by (auto simp: refused_def tcp_closed_def)
  show ?thesis
  proof (cases "tr_conn ?r")
    case None
    have "refused (tcp_connect l env a c d p u)" if "tr_conn (tcp_connect l env a c d p u) = None" for c d p u
      using that tcp_start_cases [of l env a c d u] basic
      by (auto simp: tcp_connect_def refused_def split: if_splits option.splits)
    with None basic have "refused ?r"
      by (auto simp: handleConn_def Let_def split: option.splits sum.splits if_splits)
    with None show ?thesis by (simp add: refused_def)
  next
    case (Some cn)
    then obtain cand where cand: "newCandidateMeta (te_now env) ProtocolTCP a (tcp_listenAddr l) (tl_Route l) = Some cand"
      by (auto simp: handleConn_def tcp_closed_def split: option.splits)
    let ?d = "case te_policy env of None \<Rightarrow> allow_decision | Some decide \<Rightarrow> decide cand"
    from Some cand obtain p u where p: "te_picker env = Some p" "pickUpstream (Some p) cand ?d = Inr u" "dec_Allowed ?d"
      and r: "?r = tcp_connect l env a cand ?d p u"
      by (auto simp: handleConn_def Let_def allow_decision_def split: option.splits sum.splits if_splits)
    from Some r have c: "addr_valid (fu_Addr u)" "fst (dialTCPWithRetry 2 (te_dials env)) \<noteq> None"
      and calls: "tr_calls ?r = tr_calls (tcp_start l env a cand ?d u)" "tr_conn (tcp_start l env a cand ?d u) = Some cn"
      by (auto simp: tcp_connect_def tcp_closed_def split: option.splits if_splits)
    from tcp_start_cases [of l env a cand ?d u] calls cand p c Some show ?thesis by auto
  qed
qed

text \<open>
  A TCP client is either served or refused, never both. It is served only if its address
  is valid, the policy allows it, the picker chose an upstream with a valid address and a
  dial succeeded; then exactly its open is reported, for the chosen upstream (through the
  override when the decision names one), under the decision's rate limit. Otherwise no Flow
  is opened and at most one rejection is reported.
\<close>

lemma tcp_served_or_refused:
  "case tr_conn (handleConn l env a) of
     None \<Rightarrow> list_all is_reject (tr_calls (handleConn l env a)) \<and> length (tr_calls (handleConn l env a)) \<le> 1
   | Some cn \<Rightarrow> \<exists>cand dec p u lc.
       newCandidateMeta (te_now env) ProtocolTCP a (tcp_listenAddr l) (tl_Route l) = Some cand \<and>
       dec = (case te_policy env of None \<Rightarrow> allow_decision | Some decide \<Rightarrow> decide cand) \<and> dec_Allowed dec \<and>
       te_picker env = Some p \<and> pickUpstream (Some p) cand dec = Inr u \<and> addr_valid (fu_Addr u) \<and>
       fst (dialTCPWithRetry 2 (te_dials env)) \<noteq> None \<and>
       tc_upstreamTag cn = fu_Tag u \<and> rl_baseBPS (tc_rateLimiter cn) = dec_RateLimitBPS dec \<and> \<not> tc_closed cn \<and>
       tc_lifecycle cn = Some lc \<and> meta_Upstream (lc_meta lc) = fu_Tag u \<and>
       tr_calls (handleConn l env a) = (if tl_observer l then [ObsOpen (lc_meta lc)] else [])"
  by (rule handleConn_cases)

text \<open>
  What a sequence of events asks of the supervisor, read off the events alone: the directions
  that reached EOF, the last activity, and the reason for which an event ends a connection
  that nothing before it ended.
\<close>

fun eof_dirs :: "(time \<times> serve_event) list \<Rightarrow> bool list" where
  "eof_dirs [] = []"
| "eof_dirs ((t, DirEnded up d ok) # es) = up # eof_dirs es"
| "eof_dirs (_ # es) = eof_dirs es"

fun last_activity :: "time \<Rightarrow> (time \<times> serve_event) list \<Rightarrow> time" where
  "last_activity t0 [] = t0"
| "last_activity t0 ((t, ServeActivity) # es) = last_activity t es"
| "last_activity t0 (_ # es) = last_activity t0 es"

fun end_reason :: "duration \<Rightarrow> time \<Rightarrow> (time \<times> serve_event) list \<Rightarrow> time \<times> serve_event \<Rightarrow> string option" where
  "end_reason timeout t0 pre (t, DirEnded up tcpCopyEOF ok) =
     (if \<not> ok then Some ''write_error'' else if length (eof_dirs pre) = 1 then Some ''eof'' else None)"
| "end_reason timeout t0 pre (t, DirEnded up tcpCopyReadError ok) = Some ''read_error''"
| "end_reason timeout t0 pre (t, DirEnded up tcpCopyWriteError ok) = Some ''write_error''"
| "end_reason timeout t0 pre (t, DirEnded up tcpCopyContextDone ok) = Some ''context_done''"
| "end_reason timeout t0 pre (t, ServeCtx) = Some ''context_done''"
| "end_reason timeout t0 pre (t, ServeTimer) = (if last_activity t0 pre + timeout \<le> t then Some ''idle_timeout'' else None)"
| "end_reason timeout t0 pre (t, ServeActivity) = None"

definition keeps_open :: "duration \<Rightarrow> time \<Rightarrow> (time \<times> serve_event) list \<Rightarrow> bool" where
  "keeps_open timeout t0 evs \<longleftrightarrow> (\<forall>i < length evs. end_reason timeout t0 (take i evs) (evs ! i) = None)"

lemma eof_dirs_append [simp]: "eof_dirs (a @ b) = eof_dirs a @ eof_dirs b"
  by (induction a rule: eof_dirs.induct) auto

lemma last_activity_append [simp]: "last_activity t0 (a @ b) = last_activity (last_activity t0 a) b"
  by (induction t0 a rule: last_activity.induct) auto

lemma keeps_open_snoc:
  "keeps_open timeout t0 (evs @ [ev]) \<longleftrightarrow> keeps_open timeout t0 evs \<and> end_reason timeout t0 evs ev = None"
  by (auto simp: keeps_open_def nth_append less_Suc_eq)

definition serve_open :: "duration \<Rightarrow> time \<Rightarrow> tcpConn \<Rightarrow> (time \<times> serve_event) list \<Rightarrow> serve_state \<Rightarrow> bool" where
  "serve_open timeout t0 c evs s \<longleftrightarrow>
     \<not> sv_done s \<and> length (eof_dirs evs) < 2 \<and> sv_remaining s = 2 - length (eof_dirs evs) \<and> sv_halfClosed s = eof_dirs evs \<and>
     sv_timer s = last_activity t0 evs + timeout \<and> (\<exists>b. sv_conn s = c\<lparr>tc_activityCh := b\<rparr>)"

lemma serve_snoc: "serve timeout t0 c (evs @ [ev]) = serve_step timeout (serve timeout t0 c evs) ev"
  by (simp add: serve_def)

lemma serve_stays_open: "keeps_open timeout t0 evs \<Longrightarrow> serve_open timeout t0 c evs (serve timeout t0 c evs)"
proof (induction evs rule: rev_induct)
  case Nil
  have "\<exists>b. c = c\<lparr>tc_activityCh := b\<rparr>" by (rule exI [of _ "tc_activityCh c"]) simp
  then show ?case by (simp add: serve_open_def serve_def)
next
  case (snoc ev evs)
  obtain t e where ev: "ev = (t, e)" by (cases ev)
  have none: "end_reason timeout t0 evs (t, e) = None" and s: "serve_open timeout t0 c evs (serve timeout t0 c evs)"
    using snoc ev by (auto simp: keeps_open_snoc)
  show ?case
  proof (cases e)
    case (DirEnded up d ok)
    with none s show ?thesis
      unfolding serve_snoc ev by (cases d) (auto simp: serve_open_def serve_step_def Let_def less_2_cases_iff split: if_splits)
  qed (use none s in \<open>auto simp: serve_snoc ev serve_open_def serve_step_def split: if_splits\<close>)
qed

lemma serve_after_end: "sv_done s \<Longrightarrow> foldl (serve_step timeout) s evs = s"
  by (induction evs) (auto simp: serve_step_def split: prod.splits)

lemma serve_ends:
  assumes "keeps_open timeout t0 pre" and "end_reason timeout t0 pre (t, e) = Some r"
  shows "sv_done (serve timeout t0 c (pre @ (t, e) # post)) \<and>
    (\<exists>b. sv_conn (serve timeout t0 c (pre @ (t, e) # post)) = snd (tcp_closeWithReason t r (c\<lparr>tc_activityCh := b\<rparr>)))"
proof -
  define s where "s = serve_step timeout (serve timeout t0 c pre) (t, e)"
  note o = serve_stays_open [OF assms(1), of c, unfolded serve_open_def]
  have "sv_done s \<and> (\<exists>b. sv_conn s = snd (tcp_closeWithReason t r (c\<lparr>tc_activityCh := b\<rparr>)))"
  proof (cases e)
    case (DirEnded up d ok)
    with assms(2) o show ?thesis
      unfolding s_def by (cases d) (auto simp: serve_step_def serve_close_def tcpCopyCloseReason_def Let_def split: if_splits)
  qed (use assms(2) o in \<open>auto simp: s_def serve_step_def serve_close_def split: if_splits\<close>)
  moreover from this have "serve timeout t0 c (pre @ (t, e) # post) = s"
    using serve_after_end [of s timeout post] by (simp add: serve_def s_def)
  ultimately show ?thesis by simp
qed

lemma closed_by: "tc_closed (snd (tcp_closeWithReason t r c))"
  by (auto simp: tcp_closeWithReason_def Let_def split: option.splits prod.splits)

text \<open>
  C27: The supervisor of a TCP connection ends it exactly when it must, once, and with the
  reason of what ended it. While no direction failed, the context has not ended, less than
  the idle timeout has passed since the last activity, and not both directions reached EOF,
  the connection is open, with the destination of a direction that reached EOF half-closed.
  The first event to the contrary closes it at that moment with its reason: the read or write
  error or the end of the context that the direction reports, \<open>write_error\<close> when a half-close
  fails, \<open>context_done\<close>, \<open>idle_timeout\<close>, or \<open>eof\<close> for the second EOF; and no later event
  closes it again or changes what was recorded.
\<close>

theorem tcp_serve_closes_exactly:
  assumes "\<not> tc_closed c"
  shows "(keeps_open timeout t0 evs \<longrightarrow>
       \<not> sv_done (serve timeout t0 c evs) \<and> \<not> tc_closed (sv_conn (serve timeout t0 c evs)) \<and>
       sv_halfClosed (serve timeout t0 c evs) = eof_dirs evs) \<and>
    (\<forall>pre t e post r. evs = pre @ (t, e) # post \<and> keeps_open timeout t0 pre \<and> end_reason timeout t0 pre (t, e) = Some r \<longrightarrow>
       sv_done (serve timeout t0 c evs) \<and> tc_closed (sv_conn (serve timeout t0 c evs)) \<and>
       (\<exists>b. sv_conn (serve timeout t0 c evs) = snd (tcp_closeWithReason t r (c\<lparr>tc_activityCh := b\<rparr>))))"
proof -
  have "\<not> sv_done (serve timeout t0 c evs) \<and> \<not> tc_closed (sv_conn (serve timeout t0 c evs)) \<and>
       sv_halfClosed (serve timeout t0 c evs) = eof_dirs evs" if "keeps_open timeout t0 evs"
    using serve_stays_open [OF that, of c] assms by (auto simp: serve_open_def)
  moreover have "sv_done (serve timeout t0 c evs) \<and> tc_closed (sv_conn (serve timeout t0 c evs)) \<and>
       (\<exists>b. sv_conn (serve timeout t0 c evs) = snd (tcp_closeWithReason t r (c\<lparr>tc_activityCh := b\<rparr>)))"
    if "evs = pre @ (t, e) # post" "keeps_open timeout t0 pre" "end_reason timeout t0 pre (t, e) = Some r" for pre t e post r
    using serve_ends [OF that(2,3), of c post] closed_by that(1) by auto
  ultimately show ?thesis by blast
qed

definition sample_conn :: tcpConn where
  "sample_conn = \<lparr>tc_id = ''f_1'', tc_upstreamTag = ''a'', tc_rateLimiter = newByteRateLimiter 5 0, tc_closed = False,
     tc_cancelled = False, tc_activityCh = False, tc_lifecycle = None, tc_registry = None, tc_calls = []\<rparr>"

theorem tcp_serve_closes_exactly_witness:
  "\<exists>b. sv_conn (serve 60 0 sample_conn ([(1, DirEnded True tcpCopyEOF True), (2, ServeActivity), (61, ServeTimer)] @
     (62, ServeTimer) # [(63, DirEnded False tcpCopyEOF True)])) = snd (tcp_closeWithReason 62 ''idle_timeout'' (sample_conn\<lparr>tc_activityCh := b\<rparr>))"
proof -
  have "\<not> tc_closed sample_conn" by (simp add: sample_conn_def)
  moreover have "keeps_open 60 0 [(1, DirEnded True tcpCopyEOF True), (2, ServeActivity), (61, ServeTimer)]"
    by (simp add: keeps_open_def less_Suc_eq numeral_eq_Suc)
  moreover have "end_reason 60 0 [(1, DirEnded True tcpCopyEOF True), (2, ServeActivity), (61, ServeTimer)] (62, ServeTimer) = Some ''idle_timeout''"
    by simp
  ultimately show ?thesis
    using tcp_serve_closes_exactly [of sample_conn 60 0 "[(1, DirEnded True tcpCopyEOF True), (2, ServeActivity), (61, ServeTimer)] @
        (62, ServeTimer) # [(63, DirEnded False tcpCopyEOF True)]"] by blast
qed

text \<open>
  Dialling an upstream makes at most two attempts, uses the first connection that
  succeeds, and gives up only after both failed or the context ended in between.
\<close>

lemma tcp_dial_bounded:
  "snd (dialTCPWithRetry 2 ds) \<le> 2 \<and>
   (\<forall>i. fst (dialTCPWithRetry 2 ds) = Some i \<longrightarrow> i < 2 \<and> i < length ds \<and> fst (ds ! i) \<and> (\<forall>j < i. \<not> fst (ds ! j))) \<and>
   (fst (dialTCPWithRetry 2 ds) = None \<and> 2 \<le> length ds \<longrightarrow> \<not> fst (ds ! 0) \<and> (snd (ds ! 0) \<or> \<not> fst (ds ! 1)))"
  by (cases ds rule: list.exhaust [case_names Nil Cons]; cases "tl ds")
    (auto simp: dialTCPWithRetry_def nth_Cons split: nat.splits if_splits)

lemma tcp_dial_bounded_sample:
  "fst (dialTCPWithRetry 2 [(False, False), (True, False)]) = Some 1 \<and> snd (dialTCPWithRetry 2 [(False, False), (True, False)]) \<le> 2"
  using tcp_dial_bounded [of "[(False, False), (True, False)]"] by (simp add: dialTCPWithRetry_def)

end
