(* ===== verification/Health.thy ===== *)
theory Health
  imports Prelude
begin

text \<open>
  \<open>internal/upstream/health.go\<close>: the health snapshot of an upstream, its update by one
  probe observation and the effective state read from it. \<open>HealthState\<close> is a string in
  the code; \<open>HealthZero\<close> is its zero value, the empty string, which every upstream starts
  with. RTT is a duration in nanoseconds; the EWMA is computed on rationals and truncated
  towards zero as the conversion to \<open>time.Duration\<close> does.
\<close>

section \<open>Data\<close>

datatype HealthState = HealthZero | HealthUnknown | HealthHealthy | HealthDown | HealthStale

record ProbeObservation =
  po_Success :: bool
  po_RTT :: duration
  po_ObservedAt :: time

record HealthSnapshot =
  hs_State :: HealthState
  hs_RTT :: duration
  hs_LastSuccessAt :: time
  hs_LastAttemptAt :: time
  hs_ConsecutiveSuccesses :: int
  hs_ConsecutiveFailures :: int

record HealthConfig =
  hc_RTTEWMAAlpha :: float64
  hc_FailureThreshold :: int
  hc_RecoveryThreshold :: int
  hc_StaleThreshold :: duration

definition zero_snapshot :: HealthSnapshot where
  "zero_snapshot = \<lparr>hs_State = HealthZero, hs_RTT = 0, hs_LastSuccessAt = 0, hs_LastAttemptAt = 0,
     hs_ConsecutiveSuccesses = 0, hs_ConsecutiveFailures = 0\<rparr>"

fun health_text :: "HealthState \<Rightarrow> string" where
  "health_text HealthZero = ''''"
| "health_text HealthUnknown = ''unknown''"
| "health_text HealthHealthy = ''healthy''"
| "health_text HealthDown = ''down''"
| "health_text HealthStale = ''stale''"

section \<open>Operations\<close>

text \<open>The thresholds \<open>ApplyObservation\<close> uses: out-of-range values fall back to defaults.\<close>

definition probe_config :: "HealthConfig \<Rightarrow> HealthConfig" where
  "probe_config cfg =
     cfg\<lparr>hc_RTTEWMAAlpha := (if hc_RTTEWMAAlpha cfg \<le> 0 \<or> hc_RTTEWMAAlpha cfg > 1 then 1 / 4 else hc_RTTEWMAAlpha cfg),
         hc_FailureThreshold := (if hc_FailureThreshold cfg \<le> 0 then 3 else hc_FailureThreshold cfg),
         hc_RecoveryThreshold := (if hc_RecoveryThreshold cfg \<le> 0 then 2 else hc_RecoveryThreshold cfg)\<rparr>"

definition ewma :: "float64 \<Rightarrow> duration \<Rightarrow> duration \<Rightarrow> duration" where
  "ewma alpha old new = trunc_float (of_int old * (1 - alpha) + of_int new * alpha)"

definition ApplyObservation ::
    "time \<Rightarrow> HealthSnapshot \<Rightarrow> ProbeObservation \<Rightarrow> HealthConfig \<Rightarrow> HealthSnapshot" where
  "ApplyObservation now previous observation cfg0 =
     (let obsAt = (if is_zero_time (po_ObservedAt observation) then now else po_ObservedAt observation);
          cfg = probe_config cfg0
      in if \<not> po_Success observation then
           previous\<lparr>hs_LastAttemptAt := obsAt,
             hs_ConsecutiveFailures := hs_ConsecutiveFailures previous + 1,
             hs_ConsecutiveSuccesses := 0,
             hs_State := (if hs_ConsecutiveFailures previous + 1 \<ge> hc_FailureThreshold cfg
                          then HealthDown else hs_State previous)\<rparr>
         else
           previous\<lparr>hs_LastAttemptAt := obsAt,
             hs_ConsecutiveSuccesses := hs_ConsecutiveSuccesses previous + 1,
             hs_ConsecutiveFailures := 0,
             hs_LastSuccessAt := obsAt,
             hs_RTT := (if po_RTT observation > 0 then
                          (if hs_RTT previous \<le> 0 then po_RTT observation
                           else ewma (hc_RTTEWMAAlpha cfg) (hs_RTT previous) (po_RTT observation))
                        else hs_RTT previous),
             hs_State := (if hs_State previous = HealthDown then
                            (if hs_ConsecutiveSuccesses previous + 1 \<ge> hc_RecoveryThreshold cfg
                             then HealthHealthy else HealthDown)
                          else HealthHealthy)\<rparr>)"

definition EffectiveHealth :: "HealthSnapshot \<Rightarrow> time \<Rightarrow> duration \<Rightarrow> HealthState" where
  "EffectiveHealth snapshot now stale =
     (if hs_State snapshot = HealthDown then HealthDown
      else if is_zero_time (hs_LastSuccessAt snapshot) then hs_State snapshot
      else if stale > 0 \<and> time_sub now (hs_LastSuccessAt snapshot) > stale then HealthStale
      else hs_State snapshot)"

definition RTTMs :: "HealthSnapshot \<Rightarrow> float64" where
  "RTTMs s = (if hs_RTT s \<le> 0 then 0 else of_int (hs_RTT s) / of_int millisecond)"

text \<open>A run of observations, each with the clock reading at which it is applied.\<close>

definition observe_all ::
    "HealthConfig \<Rightarrow> HealthSnapshot \<Rightarrow> (time \<times> ProbeObservation) list \<Rightarrow> HealthSnapshot" where
  "observe_all cfg = foldl (\<lambda>s (now, ob). ApplyObservation now s ob cfg)"

section \<open>Lemmas\<close>

lemma probe_config_bounds:
  "0 < hc_RTTEWMAAlpha (probe_config cfg)" "hc_RTTEWMAAlpha (probe_config cfg) \<le> 1"
  "0 < hc_FailureThreshold (probe_config cfg)" "0 < hc_RecoveryThreshold (probe_config cfg)"
  by (auto simp: probe_config_def)

text \<open>A convex combination lies between its two points, and truncation keeps that.\<close>

lemma ewma_between:
  assumes "0 \<le> alpha" "alpha \<le> 1" "0 \<le> lo" "lo \<le> old" "lo \<le> new" "old \<le> hi" "new \<le> hi"
  shows "lo \<le> ewma alpha old new \<and> ewma alpha old new \<le> hi"
proof -
  let ?x = "of_int old * (1 - alpha) + of_int new * alpha :: rat"
  have "of_int lo * (1 - alpha) + of_int lo * alpha \<le> ?x"
    using assms by (intro add_mono mult_right_mono) auto
  moreover have "?x \<le> of_int hi * (1 - alpha) + of_int hi * alpha"
    using assms by (intro add_mono mult_right_mono) auto
  ultimately have "of_int lo \<le> ?x" "?x \<le> of_int hi"
    by (auto simp: algebra_simps)
  then show ?thesis
    unfolding ewma_def using assms(3) by (rule trunc_float_between)
qed

definition health_inv :: "HealthSnapshot \<Rightarrow> bool" where
  "health_inv s \<longleftrightarrow> 0 \<le> hs_RTT s \<and> 0 \<le> hs_ConsecutiveSuccesses s \<and> 0 \<le> hs_ConsecutiveFailures s \<and>
     (hs_ConsecutiveSuccesses s = 0 \<or> hs_ConsecutiveFailures s = 0) \<and>
     hs_State s \<in> {HealthZero, HealthHealthy, HealthDown}"

lemma health_inv_zero: "health_inv zero_snapshot"
  by (simp add: health_inv_def zero_snapshot_def)

lemma health_inv_apply: "health_inv s \<Longrightarrow> health_inv (ApplyObservation now s ob cfg)"
  using ewma_between [of "hc_RTTEWMAAlpha (probe_config cfg)" 0 "hs_RTT s" "po_RTT ob" "max (hs_RTT s) (po_RTT ob)"]
    probe_config_bounds [of cfg]
  by (auto simp: health_inv_def ApplyObservation_def Let_def)

interpretation probe_run: event_system "\<lambda>s (now, ob). ApplyObservation now s ob cfg" health_inv for cfg
  by unfold_locales (auto simp: health_inv_apply)

lemma observe_all_inv: "health_inv s \<Longrightarrow> health_inv (observe_all cfg s obs)"
  unfolding observe_all_def by (rule probe_run.run_invar)

lemma observe_all_Cons [simp]:
  "observe_all cfg s ((now, ob) # obs) = observe_all cfg (ApplyObservation now s ob cfg) obs"
  "observe_all cfg s [] = s"
  by (simp_all add: observe_all_def)

text \<open>
  An account of the health state that reads only the observations. \<open>trailing P xs\<close> is the
  length of the run of elements satisfying \<open>P\<close> at the end of \<open>xs\<close>. A sequence of
  observations ends in an outage when some prefix of it ends with at least \<open>f\<close> failed
  probes in a row and since then there were never \<open>r\<close> successful ones in a row.
\<close>

definition trailing :: "('a \<Rightarrow> bool) \<Rightarrow> 'a list \<Rightarrow> nat" where
  "trailing P xs = length (takeWhile P (rev xs))"

abbreviation probe_ok :: "time \<times> ProbeObservation \<Rightarrow> bool" where
  "probe_ok p \<equiv> po_Success (snd p)"

abbreviation probe_failed :: "time \<times> ProbeObservation \<Rightarrow> bool" where
  "probe_failed p \<equiv> \<not> po_Success (snd p)"

definition in_outage :: "int \<Rightarrow> int \<Rightarrow> (time \<times> ProbeObservation) list \<Rightarrow> bool" where
  "in_outage f r obs \<longleftrightarrow> (\<exists>i \<in> {0..length obs}. f \<le> int (trailing probe_failed (take i obs)) \<and>
     (\<forall>j \<in> {i..length obs}. int (trailing probe_ok (drop i (take j obs))) < r))"

lemma trailing_Nil [simp]: "trailing P [] = 0"
  by (simp add: trailing_def)

lemma trailing_snoc [simp]: "trailing P (xs @ [x]) = (if P x then Suc (trailing P xs) else 0)"
  by (simp add: trailing_def)

lemma trailing_append: "trailing P (xs @ ys) = (if list_all P ys then length ys + trailing P xs else trailing P ys)"
proof (induction ys rule: rev_induct)
  case (snoc y ys)
  have "trailing P ((xs @ ys) @ [y]) = (if P y then Suc (trailing P (xs @ ys)) else 0)"
    by (rule trailing_snoc)
  with snoc show ?case by simp
qed simp

lemma trailing_le: "trailing P xs \<le> length xs"
  using length_takeWhile_le [of P "rev xs"] by (simp add: trailing_def)

text \<open>Right after a failure the run of successes starts anew.\<close>

lemma trailing_after_other:
  assumes "0 < trailing (\<lambda>x. \<not> P x) xs"
  shows "trailing P (xs @ ys) = trailing P ys"
proof -
  have "trailing P xs = 0"
    using assms by (cases xs rule: rev_cases) (auto split: if_splits)
  moreover have "list_all P ys \<Longrightarrow> trailing P ys = length ys"
    using trailing_append [of P "[]" ys] by simp
  ultimately show ?thesis by (simp add: trailing_append)
qed

lemma in_outage_Nil [simp]: "0 < f \<Longrightarrow> \<not> in_outage f r []"
  by (simp add: in_outage_def)

lemma outage_index_snoc:
  "(\<forall>j \<in> {i..length (obs @ [x])}. int (trailing probe_ok (drop i (take j (obs @ [x])))) < r) \<longleftrightarrow>
   (\<forall>j \<in> {i..length obs}. int (trailing probe_ok (drop i (take j obs))) < r) \<and>
   int (trailing probe_ok (drop i (obs @ [x]))) < r" if "i \<le> length obs"
proof -
  have "{i..length (obs @ [x])} = insert (Suc (length obs)) {i..length obs}"
    using that by auto
  then show ?thesis by auto
qed

lemma in_outage_failed:
  assumes "0 < f" "0 < r" and x: "probe_failed x"
  shows "in_outage f r (obs @ [x]) \<longleftrightarrow>
    f \<le> int (trailing probe_failed (obs @ [x])) \<or> in_outage f r obs"
proof -
  let ?Q = "\<lambda>obs i. f \<le> int (trailing probe_failed (take i obs)) \<and>
     (\<forall>j \<in> {i..length obs}. int (trailing probe_ok (drop i (take j obs))) < r)"
  have "?Q (obs @ [x]) i \<longleftrightarrow> ?Q obs i" if "i \<le> length obs" for i
    using that x assms(2) outage_index_snoc [OF that, of x r] by simp
  moreover have "?Q (obs @ [x]) (Suc (length obs)) \<longleftrightarrow> f \<le> int (trailing probe_failed (obs @ [x]))"
    using assms(2) by simp
  moreover have "{0..length (obs @ [x])} = insert (Suc (length obs)) {0..length obs}" by auto
  ultimately show ?thesis unfolding in_outage_def by auto
qed

lemma in_outage_ok:
  assumes "0 < f" and x: "probe_ok x"
  shows "in_outage f r (obs @ [x]) \<longleftrightarrow>
    in_outage f r obs \<and> int (trailing probe_ok (obs @ [x])) < r"
proof -
  let ?Q = "\<lambda>obs i. f \<le> int (trailing probe_failed (take i obs)) \<and>
     (\<forall>j \<in> {i..length obs}. int (trailing probe_ok (drop i (take j obs))) < r)"
  have "?Q (obs @ [x]) i \<longleftrightarrow> ?Q obs i \<and> int (trailing probe_ok (obs @ [x])) < r"
    if i: "i \<le> length obs" for i
  proof (cases "f \<le> int (trailing probe_failed (take i obs))")
    case True
    then have "trailing probe_ok (take i (obs @ [x]) @ drop i (obs @ [x])) = trailing probe_ok (drop i (obs @ [x]))"
      using i assms(1) by (intro trailing_after_other) auto
    then show ?thesis
      using True i outage_index_snoc [OF i, of x r] by (simp only: append_take_drop_id) simp
  qed (use i in simp)
  moreover have "\<not> ?Q (obs @ [x]) (Suc (length obs))"
    using assms by simp
  moreover have "{0..length (obs @ [x])} = insert (Suc (length obs)) {0..length obs}" by auto
  ultimately show ?thesis unfolding in_outage_def by auto
qed

lemma observe_all_snoc [simp]:
  "observe_all cfg s (obs @ [p]) = ApplyObservation (fst p) (observe_all cfg s obs) (snd p) cfg"
  by (simp add: observe_all_def split_beta)

lemma consecutive_counts:
  "hs_ConsecutiveFailures (observe_all cfg zero_snapshot obs) = int (trailing probe_failed obs) \<and>
   hs_ConsecutiveSuccesses (observe_all cfg zero_snapshot obs) = int (trailing probe_ok obs)"
  by (induction obs rule: rev_induct) (auto simp: zero_snapshot_def ApplyObservation_def Let_def)

section \<open>Properties\<close>

text \<open>
  C20: the failure and recovery thresholds work as hysteresis, and count probes in a row.
  After any sequence of observations of a fresh upstream it is down exactly when at some
  point the last failure-threshold probes had all failed and since then there were never
  recovery-threshold successful probes in a row; otherwise it is healthy once a probe
  succeeded, and in its initial state while none did.
\<close>

theorem health_hysteresis:
  "hs_State (observe_all cfg zero_snapshot obs) =
     (if in_outage (hc_FailureThreshold (probe_config cfg)) (hc_RecoveryThreshold (probe_config cfg)) obs
      then HealthDown
      else if \<exists>p \<in> set obs. probe_ok p then HealthHealthy else HealthZero)"
proof (induction obs rule: rev_induct)
  case Nil
  then show ?case using probe_config_bounds(3) [of cfg] by (simp add: zero_snapshot_def)
next
  case (snoc x obs)
  note counts = consecutive_counts [of cfg obs]
  show ?case
  proof (cases "probe_ok x")
    case True
    with in_outage_ok [OF probe_config_bounds(3) True, of cfg "hc_RecoveryThreshold (probe_config cfg)" obs]
    show ?thesis using snoc counts by (auto simp: ApplyObservation_def Let_def)
  next
    case False
    with in_outage_failed [OF probe_config_bounds(3,4) False, of cfg cfg obs]
    show ?thesis using snoc counts by (auto simp: ApplyObservation_def Let_def)
  qed
qed

text \<open>
  The smoothed RTT never leaves the range of what was measured. From any state reached
  from a fresh upstream, a successful measurement either is the first one and becomes the
  RTT, or moves the RTT to a value between the old RTT and the measurement.
\<close>

lemma rtt_ewma_within_measurements:
  assumes "s = observe_all cfg zero_snapshot history" and "po_Success ob" and "0 < po_RTT ob"
  shows "(hs_RTT s = 0 \<and> hs_RTT (ApplyObservation now s ob cfg) = po_RTT ob) \<or>
    (0 < hs_RTT s \<and> min (hs_RTT s) (po_RTT ob) \<le> hs_RTT (ApplyObservation now s ob cfg) \<and>
     hs_RTT (ApplyObservation now s ob cfg) \<le> max (hs_RTT s) (po_RTT ob))"
proof -
  have "0 \<le> hs_RTT s"
    using observe_all_inv [OF health_inv_zero, of cfg history] assms(1) by (simp add: health_inv_def)
  then show ?thesis
    using assms(2,3) probe_config_bounds [of cfg]
      ewma_between [of "hc_RTTEWMAAlpha (probe_config cfg)" "min (hs_RTT s) (po_RTT ob)" "hs_RTT s"
        "po_RTT ob" "max (hs_RTT s) (po_RTT ob)"]
    by (auto simp: ApplyObservation_def Let_def)
qed

lemma rtt_ewma_within_measurements_sample:
  "\<exists>s. hs_RTT s = 100 \<and>
    40 \<le> hs_RTT (ApplyObservation 2 s \<lparr>po_Success = True, po_RTT = 40, po_ObservedAt = 2\<rparr>
      \<lparr>hc_RTTEWMAAlpha = 1 / 2, hc_FailureThreshold = 2, hc_RecoveryThreshold = 2, hc_StaleThreshold = minute\<rparr>)"
proof -
  let ?cfg = "\<lparr>hc_RTTEWMAAlpha = 1 / 2, hc_FailureThreshold = 2, hc_RecoveryThreshold = 2, hc_StaleThreshold = minute\<rparr>"
  let ?s = "observe_all ?cfg zero_snapshot [(1, \<lparr>po_Success = True, po_RTT = 100, po_ObservedAt = 1\<rparr>)]"
  let ?ob = "\<lparr>po_Success = True, po_RTT = 40, po_ObservedAt = 2\<rparr>"
  have rtt: "hs_RTT ?s = 100" by (simp add: ApplyObservation_def Let_def zero_snapshot_def)
  have h: "po_Success ?ob" "0 < po_RTT ?ob" by simp_all
  from rtt_ewma_within_measurements [OF refl h, of ?cfg "[(1, \<lparr>po_Success = True, po_RTT = 100, po_ObservedAt = 1\<rparr>)]" 2] rtt
  show ?thesis by (intro exI [of _ ?s]) simp
qed

text \<open>
  an upstream never reaches the state \<open>unknown\<close>: starting from a fresh upstream, the
  stored state is the empty string, healthy or down after any run of observations, and the
  effective state the selection reads is one of these or stale.
\<close>

lemma health_never_unknown:
  "hs_State (observe_all cfg zero_snapshot history) \<in> {HealthZero, HealthHealthy, HealthDown} \<and>
   EffectiveHealth (observe_all cfg zero_snapshot history) now stale \<noteq> HealthUnknown \<and>
   EffectiveHealth zero_snapshot now stale = HealthZero"
  using observe_all_inv [OF health_inv_zero, of cfg history]
  by (auto simp: health_inv_def EffectiveHealth_def zero_snapshot_def)

end
