(* ===== verification/Upstreams.thy ===== *)
theory Upstreams
  imports Health Netip
begin

text \<open>
  \<open>internal/upstream/upstream.go\<close> and \<open>interfaces.go\<close>: the shared manager of upstreams.
  The map \<open>upstreams\<close> holds pointers the manager owns, so it is a map to records, updated
  in place; a nil pointer is an absent key, since the constructor skips nil upstreams. An
  operation that reads the clock reads it once, as its argument \<open>now\<close>. The callbacks
  \<open>onSelect\<close> and \<open>onStateChange\<close> are recorded, when set, as calls in \<open>um_calls\<close>.
  Log events are not modelled.
\<close>

section \<open>Data\<close>

datatype Mode = ModeAuto | ModeManual

fun Mode_String :: "Mode \<Rightarrow> string" where
  "Mode_String ModeManual = ''manual''"
| "Mode_String ModeAuto = ''auto''"

record UpstreamStats =
  us_HealthState :: HealthState
  us_Reachable :: bool
  us_LastReachable :: time
  us_RTTMs :: float64
  us_Usable :: bool
  us_ConsecutiveSuccesses :: int
  us_ConsecutiveFailures :: int

record Upstream =
  up_Tag :: string
  up_Host :: string
  up_MeasureHost :: string
  up_MeasurePort :: int
  up_Priority :: float64
  up_IPs :: "netIP list"
  up_activeIP :: "netIP option"
  up_stats :: UpstreamStats
  up_health :: HealthSnapshot
  up_dialFailUntil :: time
  up_dialFailCount :: int

record ActiveChange =
  ac_OldTag :: string
  ac_NewTag :: string
  ac_Reason :: string

record UsabilityChange =
  uc_Tag :: string
  uc_Usable :: bool
  uc_Reason :: string

datatype mgr_call = OnSelect ActiveChange | OnStateChange UsabilityChange

record UpstreamManager =
  um_upstreams :: "(string, Upstream) gomap"
  um_order :: "string list"
  um_mode :: Mode
  um_manualTag :: string
  um_activeTag :: string
  um_onSelect :: bool
  um_onStateChange :: bool
  um_healthConfig :: HealthConfig
  um_calls :: "mgr_call list"

record UpstreamSnapshot =
  sn_Tag :: string
  sn_Host :: string
  sn_IPs :: "string list"
  sn_ActiveIP :: string
  sn_Active :: bool
  sn_Usable :: bool
  sn_Reachable :: bool
  sn_HealthState :: HealthState
  sn_RTTMs :: float64

datatype select_error =
    UpstreamUnavailable string
  | UpstreamInDialCooldown string
  | NoUsableUpstreamInRoute
  | UnknownUpstreamTag
  | SelectedUpstreamUnusable
  | RouteNotFound string
  | UpstreamNotInRoute string string
  | UpstreamNotFound string

definition zero_stats :: UpstreamStats where
  "zero_stats = \<lparr>us_HealthState = HealthZero, us_Reachable = False, us_LastReachable = 0, us_RTTMs = 0,
     us_Usable = False, us_ConsecutiveSuccesses = 0, us_ConsecutiveFailures = 0\<rparr>"

section \<open>The active address\<close>

definition SetActiveIP :: "netIP \<Rightarrow> Upstream \<Rightarrow> Upstream" where
  "SetActiveIP ip u = (case ip of None \<Rightarrow> u | Some bs \<Rightarrow> u\<lparr>up_activeIP := Some (Some bs)\<rparr>)"

text \<open>\<open>append(net.IP(nil), ip...)\<close> of an empty slice is nil.\<close>

definition ActiveIP :: "Upstream \<Rightarrow> netIP" where
  "ActiveIP u =
     (case up_activeIP u of
        Some (Some bs) \<Rightarrow> if bs = [] then None else Some bs
      | _ \<Rightarrow> None)"

definition sameIPs :: "netIP list \<Rightarrow> netIP list \<Rightarrow> bool" where
  "sameIPs a b \<longleftrightarrow> length a = length b \<and> list_all2 ip_equal a b"

definition containsIP :: "netIP list \<Rightarrow> netIP \<Rightarrow> bool" where
  "containsIP ips target \<longleftrightarrow> list_ex (\<lambda>ip. ip_equal ip target) ips"

section \<open>Ranking\<close>

fun healthRank :: "HealthState \<Rightarrow> int" where
  "healthRank HealthHealthy = 0"
| "healthRank HealthStale = 1"
| "healthRank HealthUnknown = 2"
| "healthRank _ = 3"

definition betterLocked :: "Upstream \<Rightarrow> Upstream \<Rightarrow> bool" where
  "betterLocked a b =
     (let ra = healthRank (us_HealthState (up_stats a)); rb = healthRank (us_HealthState (up_stats b));
          ta = us_RTTMs (up_stats a); tb = us_RTTMs (up_stats b)
      in if ra \<noteq> rb then ra < rb
         else if ta > 0 \<and> tb > 0 \<and> ta \<noteq> tb then ta < tb
         else if ta > 0 \<and> tb = 0 then True
         else if ta = 0 \<and> tb > 0 then False
         else if up_Priority a \<noteq> up_Priority b then up_Priority a > up_Priority b
         else False)"

definition selectableLocked :: "Upstream option \<Rightarrow> time \<Rightarrow> bool" where
  "selectableLocked u now =
     (case u of None \<Rightarrow> False
      | Some up \<Rightarrow> us_HealthState (up_stats up) \<noteq> HealthDown \<and> \<not> time_after (up_dialFailUntil up) now)"

section \<open>Manager operations\<close>

definition default_health_config :: HealthConfig where
  "default_health_config = \<lparr>hc_RTTEWMAAlpha = 1 / 4, hc_FailureThreshold = 3,
     hc_RecoveryThreshold = 2, hc_StaleThreshold = minute\<rparr>"

definition add_upstream :: "UpstreamManager \<Rightarrow> Upstream option \<Rightarrow> UpstreamManager" where
  "add_upstream m u =
     (case u of None \<Rightarrow> m
      | Some up \<Rightarrow>
          if up_Tag up = [] then m
          else m\<lparr>um_upstreams := gput (up_Tag up) up (um_upstreams m), um_order := um_order m @ [up_Tag up]\<rparr>)"

definition NewUpstreamManager :: "Upstream option list \<Rightarrow> UpstreamManager" where
  "NewUpstreamManager ups =
     foldl add_upstream
       \<lparr>um_upstreams = [], um_order = [], um_mode = ModeAuto, um_manualTag = [], um_activeTag = [],
        um_onSelect = False, um_onStateChange = False, um_healthConfig = default_health_config, um_calls = []\<rparr>
       ups"

definition SetCallbacks :: "bool \<Rightarrow> bool \<Rightarrow> UpstreamManager \<Rightarrow> UpstreamManager" where
  "SetCallbacks onSelect onStateChange m = m\<lparr>um_onSelect := onSelect, um_onStateChange := onStateChange\<rparr>"

definition refreshStatsLocked :: "time \<Rightarrow> HealthConfig \<Rightarrow> Upstream \<Rightarrow> Upstream" where
  "refreshStatsLocked now cfg up =
     (let state = EffectiveHealth (up_health up) now (hc_StaleThreshold cfg)
      in up\<lparr>up_stats := \<lparr>us_HealthState = state,
             us_Reachable = (state = HealthHealthy \<or> state = HealthStale),
             us_LastReachable = hs_LastSuccessAt (up_health up),
             us_RTTMs = RTTMs (up_health up),
             us_Usable = (state \<noteq> HealthDown),
             us_ConsecutiveSuccesses = hs_ConsecutiveSuccesses (up_health up),
             us_ConsecutiveFailures = hs_ConsecutiveFailures (up_health up)\<rparr>\<rparr>)"

definition refresh_all :: "time \<Rightarrow> UpstreamManager \<Rightarrow> UpstreamManager" where
  "refresh_all now m =
     m\<lparr>um_upstreams := gmap_values (refreshStatsLocked now (um_healthConfig m)) (um_upstreams m)\<rparr>"

definition update_upstream :: "string \<Rightarrow> Upstream \<Rightarrow> UpstreamManager \<Rightarrow> UpstreamManager" where
  "update_upstream tag up m = m\<lparr>um_upstreams := gput tag up (um_upstreams m)\<rparr>"

definition SetHealthConfig :: "time \<Rightarrow> HealthConfig \<Rightarrow> UpstreamManager \<Rightarrow> UpstreamManager" where
  "SetHealthConfig now cfg m =
     (let cfg1 = probe_config cfg;
          cfg2 = (if hc_StaleThreshold cfg1 \<le> 0 then cfg1\<lparr>hc_StaleThreshold := minute\<rparr> else cfg1)
      in refresh_all now (m\<lparr>um_healthConfig := cfg2\<rparr>))"

definition Manager_Get :: "string \<Rightarrow> UpstreamManager \<Rightarrow> Upstream option" where
  "Manager_Get tag m = gget (um_upstreams m) tag"

definition Manager_Health :: "time \<Rightarrow> string \<Rightarrow> UpstreamManager \<Rightarrow> (HealthSnapshot \<times> bool) \<times> UpstreamManager" where
  "Manager_Health now tag m =
     (case gget (um_upstreams m) tag of
        None \<Rightarrow> ((zero_snapshot, False), m)
      | Some up \<Rightarrow>
          let up' = refreshStatsLocked now (um_healthConfig m) up
          in (((up_health up')\<lparr>hs_State := us_HealthState (up_stats up')\<rparr>, True), update_upstream tag up' m))"

definition StatsSnapshot :: "time \<Rightarrow> UpstreamManager \<Rightarrow> (string, UpstreamStats) gomap \<times> UpstreamManager" where
  "StatsSnapshot now m =
     (let m' = refresh_all now m in (gmap_values up_stats (um_upstreams m'), m'))"

definition setActiveLocked :: "string \<Rightarrow> string \<Rightarrow> UpstreamManager \<Rightarrow> UpstreamManager" where
  "setActiveLocked tag reason m =
     (if tag = um_activeTag m then m
      else m\<lparr>um_activeTag := tag,
             um_calls := um_calls m @
               (if um_onSelect m then [OnSelect \<lparr>ac_OldTag = um_activeTag m, ac_NewTag = tag, ac_Reason = reason\<rparr>]
                else [])\<rparr>)"

definition SetAuto :: "UpstreamManager \<Rightarrow> UpstreamManager" where
  "SetAuto m = setActiveLocked [] ''auto'' (m\<lparr>um_mode := ModeAuto, um_manualTag := []\<rparr>)"

definition SetManual :: "time \<Rightarrow> string \<Rightarrow> UpstreamManager \<Rightarrow> (select_error + unit) \<times> UpstreamManager" where
  "SetManual now tag m =
     (case gget (um_upstreams m) (TrimSpace tag) of
        None \<Rightarrow> (Inl UnknownUpstreamTag, m)
      | Some up \<Rightarrow>
          if \<not> selectableLocked (Some up) now then (Inl SelectedUpstreamUnusable, m)
          else (Inr (), setActiveLocked (up_Tag up) ''manual'' (m\<lparr>um_mode := ModeManual, um_manualTag := up_Tag up\<rparr>)))"

definition SelectStatic :: "time \<Rightarrow> string \<Rightarrow> UpstreamManager \<Rightarrow> select_error + Upstream" where
  "SelectStatic now tag m =
     (case gget (um_upstreams m) (TrimSpace tag) of
        None \<Rightarrow> Inl (UpstreamUnavailable tag)
      | Some up \<Rightarrow>
          if time_after (up_dialFailUntil up) now then Inl (UpstreamInDialCooldown tag)
          else Inr up)"

definition SelectOverride ::
    "time \<Rightarrow> string \<Rightarrow> bool \<Rightarrow> UpstreamManager \<Rightarrow> (select_error + Upstream) \<times> UpstreamManager" where
  "SelectOverride now tag adaptive m =
     (case gget (um_upstreams m) (TrimSpace tag) of
        None \<Rightarrow> (Inl (UpstreamUnavailable tag), m)
      | Some up0 \<Rightarrow>
          let up = refreshStatsLocked now (um_healthConfig m) up0;
              m' = update_upstream (TrimSpace tag) up m
          in if ActiveIP up = None \<or> time_after (up_dialFailUntil up) now \<or>
                (adaptive \<and> us_HealthState (up_stats up) = HealthDown)
             then (Inl (UpstreamUnavailable tag), m')
             else (Inr up, m'))"

text \<open>The route's tags, trimmed, without empty ones and repetitions, in order.\<close>

definition ordered_tags :: "string list \<Rightarrow> string list" where
  "ordered_tags tags =
     foldl (\<lambda>acc t. let tag = TrimSpace t in if tag \<noteq> [] \<and> tag \<notin> set acc then acc @ [tag] else acc) [] tags"

text \<open>
  The candidates \<open>selectBestLocked\<close> considers, in configuration order, and its choice: the
  loop keeps the best upstream so far and replaces it by a strictly better one only.
\<close>

definition candidates :: "UpstreamManager \<Rightarrow> time \<Rightarrow> string list \<Rightarrow> (string \<times> Upstream) list" where
  "candidates m now tags =
     List.map_filter
       (\<lambda>tag. if tags \<noteq> [] \<and> tag \<notin> set tags then None
              else case gget (um_upstreams m) tag of
                     None \<Rightarrow> None
                   | Some up \<Rightarrow> if selectableLocked (Some up) now then Some (tag, up) else None)
       (um_order m)"

definition selectBestLocked :: "UpstreamManager \<Rightarrow> time \<Rightarrow> string list \<Rightarrow> string \<times> float64" where
  "selectBestLocked m now tags =
     (case scan_best (\<lambda>a b. betterLocked (snd a) (snd b)) None (candidates m now tags) of
        None \<Rightarrow> ([], 0)
      | Some (tag, up) \<Rightarrow> (tag, us_RTTMs (up_stats up)))"

definition selectUpstreamFrom ::
    "time \<Rightarrow> string list \<Rightarrow> bool \<Rightarrow> UpstreamManager \<Rightarrow> (select_error + Upstream) \<times> UpstreamManager" where
  "selectUpstreamFrom now tags honorGlobalManual m0 =
     (let m = refresh_all now m0;
          ordered = ordered_tags tags;
          contains = (\<lambda>tag. ordered = [] \<or> tag \<in> set ordered);
          result =
            (if length ordered = 1 then
               (case gget (um_upstreams m) (hd ordered) of
                  None \<Rightarrow> Inl (UpstreamUnavailable (hd ordered))
                | Some up \<Rightarrow>
                    if \<not> selectableLocked (Some up) now then Inl (UpstreamUnavailable (hd ordered))
                    else Inr up)
             else if honorGlobalManual \<and> um_mode m = ModeManual \<and> contains (um_manualTag m) \<and>
                     selectableLocked (gget (um_upstreams m) (um_manualTag m)) now then
               Inr (the (gget (um_upstreams m) (um_manualTag m)))
             else
               (let best = fst (selectBestLocked m now ordered)
                in if best = [] then Inl NoUsableUpstreamInRoute
                   else Inr (the (gget (um_upstreams m) best))))
      in (result, m))"

definition SelectUpstreamFrom ::
    "time \<Rightarrow> string list \<Rightarrow> UpstreamManager \<Rightarrow> (select_error + Upstream) \<times> UpstreamManager" where
  "SelectUpstreamFrom now tags m = selectUpstreamFrom now tags True m"

definition SelectAdaptiveFrom ::
    "time \<Rightarrow> string list \<Rightarrow> UpstreamManager \<Rightarrow> (select_error + Upstream) \<times> UpstreamManager" where
  "SelectAdaptiveFrom now tags m = selectUpstreamFrom now tags False m"

definition RecordProbe ::
    "time \<Rightarrow> string \<Rightarrow> ProbeObservation \<Rightarrow> UpstreamManager \<Rightarrow> UpstreamStats \<times> UpstreamManager" where
  "RecordProbe now tag observation m =
     (case gget (um_upstreams m) tag of
        None \<Rightarrow> (zero_stats, m)
      | Some up0 \<Rightarrow>
          let previous = up_stats up0;
              up1 = up0\<lparr>up_health := ApplyObservation now (up_health up0) observation (um_healthConfig m)\<rparr>;
              up = refreshStatsLocked now (um_healthConfig m) up1;
              m1 = update_upstream tag up m;
              m2 = (if us_HealthState previous \<noteq> us_HealthState (up_stats up) \<and> um_onStateChange m
                    then m1\<lparr>um_calls := um_calls m1 @ [OnStateChange
                           \<lparr>uc_Tag = tag, uc_Usable = us_Usable (up_stats up),
                            uc_Reason = health_text (us_HealthState (up_stats up))\<rparr>]\<rparr>
                    else m1)
          in (up_stats up, m2))"

definition RecordProbeFailure ::
    "time \<Rightarrow> string \<Rightarrow> time \<Rightarrow> UpstreamManager \<Rightarrow> UpstreamStats \<times> UpstreamManager" where
  "RecordProbeFailure now tag observedAt m =
     RecordProbe now tag \<lparr>po_Success = False, po_RTT = 0, po_ObservedAt = observedAt\<rparr> m"

definition MarkDialFailure :: "time \<Rightarrow> string \<Rightarrow> duration \<Rightarrow> UpstreamManager \<Rightarrow> UpstreamManager" where
  "MarkDialFailure now tag cooldown m =
     (if cooldown \<le> 0 then m
      else case gget (um_upstreams m) tag of
             None \<Rightarrow> m
           | Some up \<Rightarrow> update_upstream tag
               (up\<lparr>up_dialFailUntil := time_add now cooldown, up_dialFailCount := up_dialFailCount up + 1\<rparr>) m)"

definition ClearDialFailure :: "string \<Rightarrow> UpstreamManager \<Rightarrow> UpstreamManager" where
  "ClearDialFailure tag m =
     (case gget (um_upstreams m) tag of
        None \<Rightarrow> m
      | Some up \<Rightarrow> update_upstream tag (up\<lparr>up_dialFailUntil := 0, up_dialFailCount := 0\<rparr>) m)"

definition UpdateResolved :: "string \<Rightarrow> netIP list \<Rightarrow> UpstreamManager \<Rightarrow> bool \<times> UpstreamManager" where
  "UpdateResolved tag ips m =
     (case ips of [] \<Rightarrow> (False, m)
      | ip0 # _ \<Rightarrow>
          (case gget (um_upstreams m) tag of
             None \<Rightarrow> (False, m)
           | Some up \<Rightarrow>
               let changed = (\<not> sameIPs (up_IPs up) ips);
                   old = ActiveIP up;
                   up1 = up\<lparr>up_IPs := ips\<rparr>
               in if old = None \<or> \<not> containsIP ips old
                  then (True, update_upstream tag (SetActiveIP ip0 up1) m)
                  else (changed, update_upstream tag up1 m)))"

definition Manager_Snapshot :: "time \<Rightarrow> UpstreamManager \<Rightarrow> UpstreamSnapshot list \<times> UpstreamManager" where
  "Manager_Snapshot now m0 =
     (let m = refresh_all now m0
      in (List.map_filter
            (\<lambda>tag. map_option
               (\<lambda>up. \<lparr>sn_Tag = up_Tag up, sn_Host = up_Host up,
                     sn_IPs = map net_ip_text (up_IPs up),
                     sn_ActiveIP = (case ActiveIP up of None \<Rightarrow> [] | Some bs \<Rightarrow> net_ip_text (Some bs)),
                     sn_Active = (tag = um_activeTag m),
                     sn_Usable = us_Usable (up_stats up), sn_Reachable = us_Reachable (up_stats up),
                     sn_HealthState = us_HealthState (up_stats up), sn_RTTMs = us_RTTMs (up_stats up)\<rparr>)
               (gget (um_upstreams m) tag))
            (um_order m), m))"

text \<open>
  The upstream \<open>resolveUpstreams\<close> of \<open>internal/app/runtime.go\<close> builds from a
  configuration item and its resolved addresses (at least one).
\<close>

definition make_upstream ::
    "string \<Rightarrow> string \<Rightarrow> string \<Rightarrow> int \<Rightarrow> float64 \<Rightarrow> netIP list \<Rightarrow> Upstream" where
  "make_upstream tag host mhost mport prio ips =
     SetActiveIP (hd ips)
       \<lparr>up_Tag = tag, up_Host = host, up_MeasureHost = mhost, up_MeasurePort = mport, up_Priority = prio,
        up_IPs = ips, up_activeIP = None, up_stats = zero_stats, up_health = zero_snapshot,
        up_dialFailUntil = 0, up_dialFailCount = 0\<rparr>"

text \<open>The calls the manager receives.\<close>

datatype mgr_op =
    MgrSetCallbacks bool bool
  | MgrSetHealthConfig time HealthConfig
  | MgrHealth time string
  | MgrStatsSnapshot time
  | MgrSetAuto
  | MgrSetManual time string
  | MgrSelectOverride time string bool
  | MgrSelectFrom time "string list" bool
  | MgrRecordProbe time string ProbeObservation
  | MgrMarkDialFailure time string duration
  | MgrClearDialFailure string
  | MgrUpdateResolved string "netIP list"
  | MgrSnapshot time

fun mgr_step :: "UpstreamManager \<Rightarrow> mgr_op \<Rightarrow> UpstreamManager" where
  "mgr_step m (MgrSetCallbacks a b) = SetCallbacks a b m"
| "mgr_step m (MgrSetHealthConfig now cfg) = SetHealthConfig now cfg m"
| "mgr_step m (MgrHealth now tag) = snd (Manager_Health now tag m)"
| "mgr_step m (MgrStatsSnapshot now) = snd (StatsSnapshot now m)"
| "mgr_step m MgrSetAuto = SetAuto m"
| "mgr_step m (MgrSetManual now tag) = snd (SetManual now tag m)"
| "mgr_step m (MgrSelectOverride now tag ad) = snd (SelectOverride now tag ad m)"
| "mgr_step m (MgrSelectFrom now tags h) = snd (selectUpstreamFrom now tags h m)"
| "mgr_step m (MgrRecordProbe now tag ob) = snd (RecordProbe now tag ob m)"
| "mgr_step m (MgrMarkDialFailure now tag d) = MarkDialFailure now tag d m"
| "mgr_step m (MgrClearDialFailure tag) = ClearDialFailure tag m"
| "mgr_step m (MgrUpdateResolved tag ips) = snd (UpdateResolved tag ips m)"
| "mgr_step m (MgrSnapshot now) = snd (Manager_Snapshot now m)"

section \<open>Invariant\<close>

text \<open>
  Every entry sits under its own non-empty tag, the configuration order lists exactly the
  entries, and every health snapshot is one a run of observations can produce.
\<close>

definition mgr_inv :: "UpstreamManager \<Rightarrow> bool" where
  "mgr_inv m \<longleftrightarrow> gok (um_upstreams m) \<and>
     (\<forall>tag. tag \<in> set (um_order m) \<longleftrightarrow> gget (um_upstreams m) tag \<noteq> None) \<and>
     (\<forall>tag up. gget (um_upstreams m) tag = Some up \<longrightarrow>
        up_Tag up = tag \<and> tag \<noteq> [] \<and> health_inv (up_health up))"

lemma refresh_simps [simp]:
  "up_Tag (refreshStatsLocked now cfg up) = up_Tag up"
  "up_health (refreshStatsLocked now cfg up) = up_health up"
  "up_IPs (refreshStatsLocked now cfg up) = up_IPs up"
  "up_activeIP (refreshStatsLocked now cfg up) = up_activeIP up"
  "up_Priority (refreshStatsLocked now cfg up) = up_Priority up"
  "up_dialFailUntil (refreshStatsLocked now cfg up) = up_dialFailUntil up"
  "us_RTTMs (up_stats (refreshStatsLocked now cfg up)) = RTTMs (up_health up)"
  "us_HealthState (up_stats (refreshStatsLocked now cfg up)) =
     EffectiveHealth (up_health up) now (hc_StaleThreshold cfg)"
  by (simp_all add: refreshStatsLocked_def Let_def)

lemma RTTMs_nonneg: "0 \<le> RTTMs s"
  by (simp add: RTTMs_def)

lemma mgr_inv_refresh_all: "mgr_inv m \<Longrightarrow> mgr_inv (refresh_all now m)"
  by (auto simp: mgr_inv_def refresh_all_def)

lemma mgr_inv_update:
  assumes "mgr_inv m" and "gget (um_upstreams m) tag = Some up"
    and "up_Tag up' = up_Tag up" and "health_inv (up_health up')"
  shows "mgr_inv (update_upstream tag up' m)"
  using assms by (auto simp: mgr_inv_def update_upstream_def split: if_splits)

lemma mgr_inv_frame:
  "mgr_inv m \<Longrightarrow> um_upstreams m' = um_upstreams m \<Longrightarrow> um_order m' = um_order m \<Longrightarrow> mgr_inv m'"
  by (simp add: mgr_inv_def)

lemma mgr_inv_health: "mgr_inv m \<Longrightarrow> gget (um_upstreams m) tag = Some up \<Longrightarrow> health_inv (up_health up)"
  by (auto simp: mgr_inv_def)

lemma SetActiveIP_simps [simp]:
  "up_Tag (SetActiveIP ip up) = up_Tag up" "up_health (SetActiveIP ip up) = up_health up"
  "up_IPs (SetActiveIP ip up) = up_IPs up"
  by (simp_all add: SetActiveIP_def split: option.splits)

lemma mgr_inv_add: "mgr_inv m \<Longrightarrow> (\<forall>up. u = Some up \<longrightarrow> health_inv (up_health up)) \<Longrightarrow> mgr_inv (add_upstream m u)"
  by (auto simp: mgr_inv_def add_upstream_def split: option.splits if_splits)

lemma mgr_inv_add_all:
  "mgr_inv m \<Longrightarrow> \<forall>up. Some up \<in> set ups \<longrightarrow> health_inv (up_health up) \<Longrightarrow> mgr_inv (foldl add_upstream m ups)"
proof (induction ups arbitrary: m)
  case (Cons a ups)
  then have "mgr_inv (add_upstream m a)" by (intro mgr_inv_add) simp_all
  with Cons show ?case by simp
qed simp

lemma mgr_inv_new:
  "\<forall>up. Some up \<in> set ups \<longrightarrow> health_inv (up_health up) \<Longrightarrow> mgr_inv (NewUpstreamManager ups)"
  unfolding NewUpstreamManager_def by (rule mgr_inv_add_all) (simp_all add: mgr_inv_def)

lemma mgr_inv_probe: "mgr_inv m \<Longrightarrow> mgr_inv (snd (RecordProbe now tag ob m))"
proof (cases "gget (um_upstreams m) tag")
  case (Some up)
  assume inv: "mgr_inv m"
  let ?up = "refreshStatsLocked now (um_healthConfig m)
    (up\<lparr>up_health := ApplyObservation now (up_health up) ob (um_healthConfig m)\<rparr>)"
  have "mgr_inv (update_upstream tag ?up m)"
    using inv Some by (intro mgr_inv_update) (auto intro: health_inv_apply mgr_inv_health)
  with Some show ?thesis
    by (auto simp: RecordProbe_def Let_def intro: mgr_inv_frame)
qed (simp add: RecordProbe_def)

lemma mgr_inv_step: "mgr_inv m \<Longrightarrow> mgr_inv (mgr_step m e)"
proof (cases e)
  case (MgrSetCallbacks a b)
  moreover assume "mgr_inv m"
  ultimately show ?thesis by (auto simp: SetCallbacks_def intro: mgr_inv_frame)
next
  case (MgrSetHealthConfig now cfg)
  moreover assume "mgr_inv m"
  ultimately show ?thesis
    by (auto simp: SetHealthConfig_def Let_def intro!: mgr_inv_refresh_all intro: mgr_inv_frame)
next
  case (MgrHealth now tag)
  moreover assume "mgr_inv m"
  ultimately show ?thesis
    by (auto simp: Manager_Health_def Let_def split: option.splits intro!: mgr_inv_update intro: mgr_inv_health)
next
  case (MgrSelectOverride now tag ad)
  moreover assume "mgr_inv m"
  ultimately show ?thesis
    by (auto simp: SelectOverride_def Let_def split: option.splits intro!: mgr_inv_update intro: mgr_inv_health)
next
  case (MgrRecordProbe now tag ob)
  moreover assume "mgr_inv m"
  ultimately show ?thesis by (simp add: mgr_inv_probe)
next
  case (MgrMarkDialFailure now tag d)
  moreover assume "mgr_inv m"
  ultimately show ?thesis
    by (auto simp: MarkDialFailure_def split: option.splits intro!: mgr_inv_update intro: mgr_inv_health)
next
  case (MgrClearDialFailure tag)
  moreover assume "mgr_inv m"
  ultimately show ?thesis
    by (auto simp: ClearDialFailure_def split: option.splits intro!: mgr_inv_update intro: mgr_inv_health)
next
  case (MgrUpdateResolved tag ips)
  moreover assume "mgr_inv m"
  ultimately show ?thesis
    by (auto simp: UpdateResolved_def Let_def split: option.splits list.splits
        intro!: mgr_inv_update intro: mgr_inv_health)
qed (auto simp: StatsSnapshot_def SetAuto_def SetManual_def setActiveLocked_def selectUpstreamFrom_def
      Manager_Snapshot_def Let_def split: option.splits
      intro!: mgr_inv_refresh_all intro: mgr_inv_frame)

interpretation manager: event_system mgr_step mgr_inv
  by unfold_locales (rule mgr_inv_step)

section \<open>The ranking is a strict weak order\<close>

definition rtt_before :: "float64 \<Rightarrow> float64 \<Rightarrow> bool" where
  "rtt_before ta tb \<longleftrightarrow> 0 < ta \<and> (tb = 0 \<or> ta < tb)"

lemma better_lexicographic:
  "0 \<le> us_RTTMs (up_stats a) \<Longrightarrow> 0 \<le> us_RTTMs (up_stats b) \<Longrightarrow>
   betterLocked a b \<longleftrightarrow>
     healthRank (us_HealthState (up_stats a)) < healthRank (us_HealthState (up_stats b)) \<or>
     healthRank (us_HealthState (up_stats a)) = healthRank (us_HealthState (up_stats b)) \<and>
     (rtt_before (us_RTTMs (up_stats a)) (us_RTTMs (up_stats b)) \<or>
      us_RTTMs (up_stats a) = us_RTTMs (up_stats b) \<and> up_Priority b < up_Priority a)"
  unfolding betterLocked_def rtt_before_def Let_def by auto

interpretation ranking: strict_weak
  "\<lambda>a b. betterLocked (snd a) (snd b)" "\<lambda>a :: string \<times> Upstream. 0 \<le> us_RTTMs (up_stats (snd a))"
  by unfold_locales (auto simp: better_lexicographic rtt_before_def)

section \<open>Selection\<close>

lemma map_filter_in:
  "x \<in> set (List.map_filter f xs) \<longleftrightarrow> (\<exists>y \<in> set xs. f y = Some x)"
  by (induction xs) (auto simp: List.map_filter_simps split: option.splits)

lemma candidates_in:
  "mgr_inv m \<Longrightarrow> (tag, up) \<in> set (candidates m now tags) \<longleftrightarrow>
     gget (um_upstreams m) tag = Some up \<and> (tags = [] \<or> tag \<in> set tags) \<and> selectableLocked (Some up) now"
  unfolding candidates_def map_filter_in mgr_inv_def
  by (auto split: if_splits option.splits intro!: bexI [of _ tag])

lemma candidates_rtt:
  "mgr_inv m \<Longrightarrow> \<forall>c \<in> set (candidates (refresh_all now m) now' tags). 0 \<le> us_RTTMs (up_stats (snd c))"
  using candidates_in [OF mgr_inv_refresh_all, of m]
  by (auto simp: refresh_all_def RTTMs_nonneg)

lemma set_ordered_tags: "set (ordered_tags tags) = {t. t \<noteq> [] \<and> t \<in> TrimSpace ` set tags}"
proof -
  have "set (foldl (\<lambda>acc t. let tag = TrimSpace t in if tag \<noteq> [] \<and> tag \<notin> set acc then acc @ [tag] else acc) acc tags) =
     set acc \<union> {t. t \<noteq> [] \<and> t \<in> TrimSpace ` set tags}" for acc
    by (induction tags arbitrary: acc) (auto simp: Let_def)
  then show ?thesis by (simp add: ordered_tags_def)
qed

lemma select_best_choice:
  assumes inv: "mgr_inv m" and rtt: "\<forall>c \<in> set (candidates m now tags). 0 \<le> us_RTTMs (up_stats (snd c))"
  shows "(fst (selectBestLocked m now tags) = [] \<and> candidates m now tags = []) \<or>
    (\<exists>tag up ys zs. fst (selectBestLocked m now tags) = tag \<and> tag \<noteq> [] \<and>
       gget (um_upstreams m) tag = Some up \<and> candidates m now tags = ys @ (tag, up) # zs \<and>
       (\<forall>y \<in> set ys. betterLocked up (snd y)) \<and> (\<forall>z \<in> set zs. \<not> betterLocked (snd z) up))"
proof (cases "scan_best (\<lambda>a b. betterLocked (snd a) (snd b)) None (candidates m now tags)")
  case None
  then show ?thesis by (auto simp: selectBestLocked_def scan_best_None)
next
  case (Some c)
  obtain tag up where c: "c = (tag, up)" by (cases c)
  from ranking.scan_best_first_minimal [OF Some rtt] c obtain ys zs
    where split: "candidates m now tags = ys @ (tag, up) # zs"
      and order: "\<forall>y \<in> set ys. betterLocked up (snd y)" "\<forall>z \<in> set zs. \<not> betterLocked (snd z) up"
    by auto
  then have "gget (um_upstreams m) tag = Some up"
    using candidates_in [OF inv, of tag up now tags] by auto
  moreover from this inv have "tag \<noteq> []" by (auto simp: mgr_inv_def)
  ultimately show ?thesis
    using Some c split order by (auto simp: selectBestLocked_def)
qed

lemma refresh_all_simps [simp]:
  "um_order (refresh_all now m) = um_order m" "um_mode (refresh_all now m) = um_mode m"
  "um_manualTag (refresh_all now m) = um_manualTag m" "um_healthConfig (refresh_all now m) = um_healthConfig m"
  by (simp_all add: refresh_all_def)

lemma selection_state [simp]:
  "snd (selectUpstreamFrom now tags h m) = refresh_all now m"
  "snd (SelectAdaptiveFrom now tags m) = refresh_all now m"
  by (simp_all add: selectUpstreamFrom_def SelectAdaptiveFrom_def Let_def)

lemma candidates_not_better_self:
  "mgr_inv m \<Longrightarrow> gget (um_upstreams (refresh_all now m)) tag = Some up \<Longrightarrow> \<not> betterLocked up up"
  using ranking.lt_irrefl [of "(tag, up)"] by (auto simp: refresh_all_def RTTMs_nonneg)

text \<open>The choice among several candidates, and the two ways a selection can end.\<close>

lemma best_cases:
  fixes now :: time and m :: UpstreamManager
  assumes "mgr_inv m"
  defines "r \<equiv> refresh_all now m"
  shows "(fst (selectBestLocked r now tags) = [] \<and> candidates r now tags = []) \<or>
    (\<exists>up. gget (um_upstreams r) (fst (selectBestLocked r now tags)) = Some up \<and>
       fst (selectBestLocked r now tags) = up_Tag up \<and> up_Tag up \<noteq> [] \<and>
       (up_Tag up, up) \<in> set (candidates r now tags) \<and>
       (\<forall>c \<in> set (candidates r now tags). \<not> betterLocked (snd c) up))"
proof -
  have inv: "mgr_inv r" using assms mgr_inv_refresh_all by simp
  have rtt: "\<forall>c \<in> set (candidates r now tags). 0 \<le> us_RTTMs (up_stats (snd c))"
    using candidates_rtt assms by blast
  from select_best_choice [OF inv rtt] show ?thesis
  proof (elim disjE exE conjE)
    fix tag up ys zs
    assume h: "fst (selectBestLocked r now tags) = tag" "tag \<noteq> []" "gget (um_upstreams r) tag = Some up"
      "candidates r now tags = ys @ (tag, up) # zs" "\<forall>y \<in> set ys. betterLocked up (snd y)"
      "\<forall>z \<in> set zs. \<not> betterLocked (snd z) up"
    have "\<not> betterLocked (snd y) up" if "y \<in> set ys" for y
      using ranking.lt_asym [of "(tag, up)" y] that h(4,5) rtt by auto
    moreover have "\<not> betterLocked up up"
      using candidates_not_better_self assms h(3) by blast
    moreover have "up_Tag up = tag" using inv h(3) by (auto simp: mgr_inv_def)
    ultimately show ?thesis using h by auto
  qed simp
qed

lemma adaptive_cases:
  fixes now :: time and m :: UpstreamManager
  assumes "mgr_inv m"
  defines "r \<equiv> refresh_all now m"
  shows "(\<exists>e. fst (SelectAdaptiveFrom now tags m) = Inl e \<and> candidates r now (ordered_tags tags) = []) \<or>
    (\<exists>up. fst (SelectAdaptiveFrom now tags m) = Inr up \<and>
       (up_Tag up, up) \<in> set (candidates r now (ordered_tags tags)) \<and>
       (\<forall>c \<in> set (candidates r now (ordered_tags tags)). \<not> betterLocked (snd c) up))"
proof (cases "length (ordered_tags tags) = 1")
  case True
  then obtain t where t: "ordered_tags tags = [t]" by (auto simp: length_Suc_conv)
  have inv: "mgr_inv r" using assms mgr_inv_refresh_all by simp
  note mem = candidates_in [OF inv, of _ _ now "[t]"]
  show ?thesis
  proof (cases "\<exists>up. gget (um_upstreams r) t = Some up \<and> selectableLocked (Some up) now")
    case True
    then obtain up where up: "gget (um_upstreams r) t = Some up" "selectableLocked (Some up) now" by blast
    have "up_Tag up = t" using inv up by (auto simp: mgr_inv_def)
    then show ?thesis
      using up t mem candidates_not_better_self assms
      by (auto simp: SelectAdaptiveFrom_def selectUpstreamFrom_def Let_def r_def)
  next
    case False
    then have "c \<notin> set (candidates r now [t])" for c using mem [of "fst c" "snd c"] by auto
    then have "candidates r now [t] = []" using list.set_sel(1) by blast
    with False t show ?thesis
      by (auto simp: SelectAdaptiveFrom_def selectUpstreamFrom_def Let_def r_def split: option.splits)
  qed
next
  case False
  with best_cases [OF assms(1), of now "ordered_tags tags"] show ?thesis
    by (auto simp: SelectAdaptiveFrom_def selectUpstreamFrom_def Let_def r_def)
qed

section \<open>Properties\<close>

text \<open>
  An upstream of the route that may carry traffic at the time \<open>now\<close>: its effective health
  is not down and its dial cooldown is over.
\<close>

definition in_route :: "string list \<Rightarrow> string \<Rightarrow> bool" where
  "in_route tags tag \<longleftrightarrow> ordered_tags tags = [] \<or> tag \<in> set (ordered_tags tags)"

definition eligible :: "UpstreamManager \<Rightarrow> time \<Rightarrow> string list \<Rightarrow> Upstream \<Rightarrow> bool" where
  "eligible m now tags u \<longleftrightarrow> gget (um_upstreams m) (up_Tag u) = Some u \<and> in_route tags (up_Tag u) \<and>
     EffectiveHealth (up_health u) now (hc_StaleThreshold (um_healthConfig m)) \<noteq> HealthDown \<and>
     up_dialFailUntil u \<le> now"

lemma eligible_candidates:
  "mgr_inv m \<Longrightarrow> eligible (refresh_all now m) now tags u \<longleftrightarrow>
     (up_Tag u, u) \<in> set (candidates (refresh_all now m) now (ordered_tags tags))"
  using candidates_in [OF mgr_inv_refresh_all, of m "up_Tag u" u now now "ordered_tags tags"]
  by (auto simp: eligible_def in_route_def selectableLocked_def time_after_def refresh_all_def
      split: option.splits)

lemma candidates_keyed: "mgr_inv m \<Longrightarrow> c \<in> set (candidates m now tags) \<Longrightarrow> c = (up_Tag (snd c), snd c)"
  using candidates_in [of m "fst c" "snd c" now tags] by (cases c) (auto simp: mgr_inv_def)

text \<open>
  C17: Adaptive selection returns an upstream of the route that is not down and not in its
  dial cooldown, and no other eligible upstream of the route ranks strictly above it; it
  fails exactly when the route has no eligible upstream. The statistics it ranks by are the
  freshly computed ones: the effective health at the time of the call.
\<close>

theorem adaptive_selection_optimal:
  assumes "mgr_inv m"
  shows "case SelectAdaptiveFrom now tags m of
      (Inr up, m') \<Rightarrow> eligible m' now tags up \<and> (\<forall>u. eligible m' now tags u \<longrightarrow> \<not> betterLocked u up)
    | (Inl e, m') \<Rightarrow> \<forall>u. \<not> eligible m' now tags u"
proof -
  obtain res where res: "SelectAdaptiveFrom now tags m = (res, refresh_all now m)"
    using selection_state(2) by (metis prod.collapse)
  note el = eligible_candidates [OF assms, of now tags]
  from adaptive_cases [OF assms, of now tags] res el show ?thesis by fastforce
qed

definition sample_ip :: netIP where
  "sample_ip = Some [192, 0, 2, 1]"

definition sample_manager :: UpstreamManager where
  "sample_manager = NewUpstreamManager
     [Some (make_upstream ''a'' ''a.test'' ''a.test'' 9876 1 [sample_ip]),
      Some (make_upstream ''b'' ''b.test'' ''b.test'' 9876 2 [sample_ip])]"

lemma sample_manager_inv: "mgr_inv sample_manager"
  unfolding sample_manager_def
  by (rule mgr_inv_new) (auto simp: make_upstream_def health_inv_zero)

theorem adaptive_selection_optimal_witness:
  "mgr_inv sample_manager \<and>
   (case SelectAdaptiveFrom 7 [''a'', ''b''] sample_manager of
      (Inr up, m') \<Rightarrow> up_Tag up = ''b'' \<and> eligible m' 7 [''a'', ''b''] up \<and>
        (\<forall>u. eligible m' 7 [''a'', ''b''] u \<longrightarrow> \<not> betterLocked u up)
    | (Inl e, m') \<Rightarrow> False)"
proof -
  have "case fst (SelectAdaptiveFrom 7 [''a'', ''b''] sample_manager) of
      Inl e \<Rightarrow> False | Inr up \<Rightarrow> up_Tag up = ''b''"
    by code_simp
  then show ?thesis
    using adaptive_selection_optimal [OF sample_manager_inv, of 7 "[''a'', ''b'']"] sample_manager_inv
    by (auto split: prod.splits sum.splits)
qed

text \<open>
  From the moment a dial to an upstream fails until its cooldown has passed, no
  selection returns that upstream, and every other upstream is untouched; once the cooldown
  has passed, static selection returns it again.
\<close>

lemma dial_cooldown_window:
  assumes "gget (um_upstreams m) tag = Some up" and "TrimSpace tag = tag" and "0 < d" and "mgr_inv m"
    and "m' = MarkDialFailure t tag d m"
  shows "(\<forall>now < t + d. SelectStatic now tag m' = Inl (UpstreamInDialCooldown tag) \<and>
            (\<forall>tags u. fst (SelectAdaptiveFrom now tags m') = Inr u \<longrightarrow> up_Tag u \<noteq> tag) \<and>
            (\<forall>ad. fst (SelectOverride now tag ad m') = Inl (UpstreamUnavailable tag))) \<and>
         (\<forall>now \<ge> t + d. \<exists>u. SelectStatic now tag m' = Inr u \<and> up_Tag u = tag) \<and>
         (\<forall>other. other \<noteq> tag \<longrightarrow> gget (um_upstreams m') other = gget (um_upstreams m) other)"
proof (intro conjI allI impI)
  let ?up = "up\<lparr>up_dialFailUntil := t + d, up_dialFailCount := up_dialFailCount up + 1\<rparr>"
  have m': "m' = update_upstream tag ?up m"
    using assms(1,3,5) by (simp add: MarkDialFailure_def time_add_def)
  then have g: "gget (um_upstreams m') tag = Some ?up" by (simp add: update_upstream_def)
  have inv: "mgr_inv m'"
    unfolding m' using assms(1,4) by (intro mgr_inv_update) (auto intro: mgr_inv_health)
  have key: "up_Tag up = tag" using assms(1,4) by (auto simp: mgr_inv_def)
  {
    fix now assume now: "now < t + d"
    show "SelectStatic now tag m' = Inl (UpstreamInDialCooldown tag)"
      using g now assms(2) by (simp add: SelectStatic_def time_after_def)
    show "fst (SelectOverride now tag ad m') = Inl (UpstreamUnavailable tag)" for ad
      using g now assms(2) by (simp add: SelectOverride_def time_after_def Let_def)
    fix tags u assume "fst (SelectAdaptiveFrom now tags m') = Inr u"
    then have "eligible (refresh_all now m') now tags u"
      using adaptive_cases [OF inv, of now tags] eligible_candidates [OF inv, of now tags] by auto
    then show "up_Tag u \<noteq> tag"
      using g now by (auto simp: eligible_def refresh_all_def)
  }
  show "\<exists>u. SelectStatic now tag m' = Inr u \<and> up_Tag u = tag" if "t + d \<le> now" for now
    using g that assms(2) key by (simp add: SelectStatic_def time_after_def)
  show "gget (um_upstreams m') other = gget (um_upstreams m) other" if "other \<noteq> tag" for other
    using that by (simp add: m' update_upstream_def)
qed

lemma dial_cooldown_window_sample:
  "SelectStatic 12 ''a'' (MarkDialFailure 10 ''a'' 5 sample_manager) = Inl (UpstreamInDialCooldown ''a'') \<and>
   (\<exists>u. SelectStatic 15 ''a'' (MarkDialFailure 10 ''a'' 5 sample_manager) = Inr u \<and> up_Tag u = ''a'')"
proof -
  obtain up where up: "gget (um_upstreams sample_manager) ''a'' = Some up"
    by (simp add: sample_manager_def NewUpstreamManager_def add_upstream_def make_upstream_def SetActiveIP_def
        sample_ip_def)
  have "TrimSpace ''a'' = ''a''" by code_simp
  from dial_cooldown_window [OF up this _ sample_manager_inv refl, where d = 5 and t = 10] show ?thesis by simp
qed

text \<open>
  A new resolution of an upstream's host leaves it with the new address list and an
  active address taken from that list: the old active address is kept whenever it is still
  resolved, and otherwise the first new address takes over.
\<close>

lemma resolved_active_ip_current:
  assumes "gget (um_upstreams m) tag = Some up" and "ips \<noteq> []" and "\<forall>ip \<in> set ips. ip \<noteq> None \<and> ip \<noteq> Some []"
  shows "\<exists>up'. gget (um_upstreams (snd (UpdateResolved tag ips m))) tag = Some up' \<and>
     up_IPs up' = ips \<and> containsIP ips (ActiveIP up') \<and>
     ActiveIP up' = (if ActiveIP up \<noteq> None \<and> containsIP ips (ActiveIP up) then ActiveIP up else hd ips) \<and>
     (\<forall>other. other \<noteq> tag \<longrightarrow>
        gget (um_upstreams (snd (UpdateResolved tag ips m))) other = gget (um_upstreams m) other)"
proof -
  obtain ip0 rest where ips: "ips = Some ip0 # rest" "ip0 \<noteq> []"
    using assms(2,3) by (cases ips) auto
  have same: "containsIP ips (Some ip0)"
    by (simp add: ips containsIP_def ip_equal_def)
  show ?thesis
    using assms(1) ips same
    by (auto simp: UpdateResolved_def Let_def update_upstream_def SetActiveIP_def ActiveIP_def)
qed

lemma resolved_active_ip_current_sample:
  "\<exists>up'. gget (um_upstreams (snd (UpdateResolved ''a'' [Some [10, 0, 0, 1], Some [10, 0, 0, 2]] sample_manager))) ''a'' = Some up' \<and>
     ActiveIP up' = Some [10, 0, 0, 1]"
proof -
  obtain up where up: "gget (um_upstreams sample_manager) ''a'' = Some up" "ActiveIP up = sample_ip"
    by (simp add: sample_manager_def NewUpstreamManager_def add_upstream_def make_upstream_def SetActiveIP_def
        sample_ip_def ActiveIP_def)
  moreover have "\<not> containsIP [Some [10, 0, 0, 1], Some [10, 0, 0, 2]] sample_ip"
    by code_simp
  ultimately show ?thesis
    using resolved_active_ip_current [OF up(1), of "[Some [10, 0, 0, 1], Some [10, 0, 0, 2]]"] by auto
qed

end
