(* ===== verification/Routes.thy ===== *)
theory Routes
  imports Upstreams
begin

text \<open>
  \<open>internal/upstream/routes.go\<close>: the route selector, which keeps the operator's override
  of each route above the shared manager. The selector holds a reference to the manager;
  \<open>Pick\<close> changes the manager's cached statistics, so the operations take the manager and
  return it. The manager is always present: \<open>NewRouteSelector\<close> is called with one by the
  runtime.
\<close>

section \<open>Data\<close>

datatype OverrideState = OverrideNone | OverrideActive | OverrideFallback

record RouteConfig =
  rtc_Name :: string
  rtc_Strategy :: string
  rtc_Upstreams :: "string list"
  rtc_DefaultUpstream :: string

record RouteStatus =
  rst_Name :: string
  rst_Strategy :: string
  rst_Upstreams :: "string list"
  rst_DefaultUpstream :: string
  rst_Effective :: string
  rst_Override :: string
  rst_OverrideState :: OverrideState

record routeDefinition =
  rd_name :: string
  rd_strategy :: string
  rd_upstreams :: "string list"
  rd_defaultUpstream :: string

record RouteSelector =
  rs_routes :: "(string, routeDefinition) gomap"
  rs_overrides :: "(string, string) gomap"

section \<open>Operations\<close>

definition route_definition :: "RouteConfig \<Rightarrow> routeDefinition" where
  "route_definition route =
     \<lparr>rd_name = rtc_Name route, rd_strategy = rtc_Strategy route, rd_upstreams = rtc_Upstreams route,
      rd_defaultUpstream =
        (if rtc_Strategy route = ''static'' \<and> rtc_DefaultUpstream route = [] \<and> length (rtc_Upstreams route) = 1
         then rtc_Upstreams route ! 0 else rtc_DefaultUpstream route)\<rparr>"

definition NewRouteSelector :: "RouteConfig list \<Rightarrow> RouteSelector" where
  "NewRouteSelector routes =
     \<lparr>rs_routes = foldl (\<lambda>m route. gput (rtc_Name route) (route_definition route) m) [] routes,
      rs_overrides = []\<rparr>"

definition find_route :: "string \<Rightarrow> RouteSelector \<Rightarrow> routeDefinition option" where
  "find_route name s = gget (rs_routes s) (TrimSpace name)"

definition HasRoutes :: "RouteSelector \<Rightarrow> bool" where
  "HasRoutes s \<longleftrightarrow> length (rs_routes s) > 0"

definition containsTag :: "string list \<Rightarrow> string \<Rightarrow> bool" where
  "containsTag tags wanted \<longleftrightarrow> list_ex (\<lambda>tag. tag = wanted) tags"

definition SetOverride ::
    "UpstreamManager \<Rightarrow> string \<Rightarrow> string \<Rightarrow> RouteSelector \<Rightarrow> (select_error + unit) \<times> RouteSelector" where
  "SetOverride mgr routeName tag0 s =
     (case find_route routeName s of
        None \<Rightarrow> (Inl (RouteNotFound routeName), s)
      | Some route \<Rightarrow>
          let tag = TrimSpace tag0
          in if tag = [] \<or> \<not> containsTag (rd_upstreams route) tag
             then (Inl (UpstreamNotInRoute tag (rd_name route)), s)
             else if Manager_Get tag mgr = None then (Inl (UpstreamNotFound tag), s)
             else (Inr (), s\<lparr>rs_overrides := gput (rd_name route) tag (rs_overrides s)\<rparr>))"

definition ClearOverride :: "string \<Rightarrow> RouteSelector \<Rightarrow> (select_error + unit) \<times> RouteSelector" where
  "ClearOverride routeName s =
     (let name = TrimSpace routeName
      in case find_route name s of
           None \<Rightarrow> (Inl (RouteNotFound routeName), s)
         | Some _ \<Rightarrow> (Inr (), s\<lparr>rs_overrides := gdel name (rs_overrides s)\<rparr>))"

definition override_of :: "string \<Rightarrow> RouteSelector \<Rightarrow> string" where
  "override_of route s = gget_default [] (rs_overrides s) route"

definition zero_status :: RouteStatus where
  "zero_status = \<lparr>rst_Name = [], rst_Strategy = [], rst_Upstreams = [], rst_DefaultUpstream = [],
     rst_Effective = [], rst_Override = [], rst_OverrideState = OverrideNone\<rparr>"

definition route_status :: "routeDefinition \<Rightarrow> string \<Rightarrow> RouteStatus" where
  "route_status route override =
     \<lparr>rst_Name = rd_name route, rst_Strategy = rd_strategy route, rst_Upstreams = rd_upstreams route,
      rst_DefaultUpstream = rd_defaultUpstream route, rst_Effective = [], rst_Override = override,
      rst_OverrideState = OverrideNone\<rparr>"

type_synonym pick_result = "(select_error + Upstream) \<times> RouteStatus"

definition pick_static :: "time \<Rightarrow> routeDefinition \<Rightarrow> string \<Rightarrow> UpstreamManager \<Rightarrow> pick_result" where
  "pick_static now route override mgr =
     (let status0 = route_status route override;
          (tag, status) = (if override \<noteq> [] then (override, status0\<lparr>rst_OverrideState := OverrideActive\<rparr>)
                           else (rd_defaultUpstream route, status0))
      in case SelectStatic now tag mgr of
           Inl e \<Rightarrow> (Inl e, status)
         | Inr selected \<Rightarrow> (Inr selected, status\<lparr>rst_Effective := tag\<rparr>))"

definition pick_adaptive ::
    "time \<Rightarrow> routeDefinition \<Rightarrow> RouteStatus \<Rightarrow> UpstreamManager \<Rightarrow> pick_result \<times> UpstreamManager" where
  "pick_adaptive now route status mgr =
     (case SelectAdaptiveFrom now (rd_upstreams route) mgr of
        (Inl e, mgr') \<Rightarrow> ((Inl e, status), mgr')
      | (Inr selected, mgr') \<Rightarrow> ((Inr selected, status\<lparr>rst_Effective := up_Tag selected\<rparr>), mgr'))"

definition Pick :: "time \<Rightarrow> string \<Rightarrow> RouteSelector \<Rightarrow> UpstreamManager \<Rightarrow> pick_result \<times> UpstreamManager" where
  "Pick now routeName s mgr =
     (case find_route routeName s of
        None \<Rightarrow> ((Inl (RouteNotFound routeName), zero_status), mgr)
      | Some route \<Rightarrow>
          let override = override_of (rd_name route) s; status = route_status route override
          in if rd_strategy route = ''static'' then (pick_static now route override mgr, mgr)
             else if override \<noteq> [] then
               (case SelectOverride now override True mgr of
                  (Inr selected, mgr') \<Rightarrow>
                    ((Inr selected, status\<lparr>rst_Effective := override, rst_OverrideState := OverrideActive\<rparr>), mgr')
                | (Inl _, mgr') \<Rightarrow>
                    pick_adaptive now route (status\<lparr>rst_OverrideState := OverrideFallback\<rparr>) mgr')
             else pick_adaptive now route status mgr)"

text \<open>\<open>Status\<close>: the routes by name, each picked at its own clock reading.\<close>

definition string_less :: "string \<Rightarrow> string \<Rightarrow> bool" where
  "string_less a b \<longleftrightarrow> ord_class.lexordp (map of_char a :: nat list) (map of_char b)"

definition status_entry :: "time \<Rightarrow> RouteSelector \<Rightarrow> string \<Rightarrow> UpstreamManager \<Rightarrow> RouteStatus \<times> UpstreamManager" where
  "status_entry now s name mgr =
     (case Pick now name s mgr of
        ((Inr _, status), mgr') \<Rightarrow> (status, mgr')
      | ((Inl _, _), mgr') \<Rightarrow>
          (case find_route name s of
             None \<Rightarrow> (zero_status\<lparr>rst_Override := override_of name s\<rparr>, mgr')
           | Some route \<Rightarrow>
               let status = route_status route (override_of name s)
               in (if rst_Override status \<noteq> [] \<and> rd_strategy route = ''adaptive''
                   then status\<lparr>rst_OverrideState := OverrideFallback\<rparr> else status, mgr')))"

definition Selector_Status ::
    "time \<Rightarrow> RouteSelector \<Rightarrow> UpstreamManager \<Rightarrow> RouteStatus list \<times> UpstreamManager" where
  "Selector_Status now s mgr =
     foldl (\<lambda>(acc, m) name. let (st, m') = status_entry now s name m in (acc @ [st], m'))
       ([], mgr) (stable_sort string_less (gkeys (rs_routes s)))"

datatype selector_op = SelSet string string | SelClear string

fun selector_step :: "UpstreamManager \<Rightarrow> RouteSelector \<Rightarrow> selector_op \<Rightarrow> RouteSelector" where
  "selector_step mgr s (SelSet r t) = snd (SetOverride mgr r t s)"
| "selector_step mgr s (SelClear r) = snd (ClearOverride r s)"

section \<open>Invariant\<close>

text \<open>
  What a validated configuration gives each route (\<open>internal/config/config.go\<close>): a
  trimmed name, trimmed non-empty upstream tags, and for a static route a default among
  them (or a single upstream).
\<close>

definition tag_ok :: "string \<Rightarrow> bool" where
  "tag_ok t \<longleftrightarrow> t \<noteq> [] \<and> TrimSpace t = t"

definition route_config_ok :: "RouteConfig \<Rightarrow> bool" where
  "route_config_ok r \<longleftrightarrow> tag_ok (rtc_Name r) \<and> rtc_Upstreams r \<noteq> [] \<and> list_all tag_ok (rtc_Upstreams r) \<and>
     (rtc_Strategy r = ''static'' \<longrightarrow>
        rtc_DefaultUpstream r \<in> set (rtc_Upstreams r) \<or> rtc_DefaultUpstream r = [] \<and> length (rtc_Upstreams r) = 1)"

definition route_ok :: "RouteConfig list \<Rightarrow> string \<Rightarrow> routeDefinition \<Rightarrow> bool" where
  "route_ok cfgs name r \<longleftrightarrow> rd_name r = name \<and> rd_upstreams r \<noteq> [] \<and> list_all tag_ok (rd_upstreams r) \<and>
     (rd_strategy r = ''static'' \<longrightarrow> rd_defaultUpstream r \<in> set (rd_upstreams r)) \<and>
     (\<exists>c \<in> set cfgs. rtc_Name c = name \<and> rtc_Upstreams c = rd_upstreams r \<and> rtc_Strategy c = rd_strategy r)"

definition selector_inv :: "RouteConfig list \<Rightarrow> RouteSelector \<Rightarrow> bool" where
  "selector_inv cfgs s \<longleftrightarrow>
     (\<forall>n r. gget (rs_routes s) n = Some r \<longrightarrow> route_ok cfgs n r) \<and>
     (\<forall>n t. gget (rs_overrides s) n = Some t \<longrightarrow>
        (\<exists>r. gget (rs_routes s) n = Some r \<and> t \<in> set (rd_upstreams r)))"

lemma containsTag_iff [simp]: "containsTag tags t \<longleftrightarrow> t \<in> set tags"
  by (auto simp: containsTag_def list_ex_iff)

lemma route_ok_definition: "route_config_ok c \<Longrightarrow> c \<in> set cfgs \<Longrightarrow> route_ok cfgs (rtc_Name c) (route_definition c)"
  by (auto simp: route_config_ok_def route_ok_def route_definition_def)

lemma selector_inv_new:
  assumes "list_all route_config_ok cfgs"
  shows "selector_inv cfgs (NewRouteSelector cfgs)"
proof -
  have "\<forall>n r. gget (foldl (\<lambda>m c. gput (rtc_Name c) (route_definition c) m) m cs) n = Some r \<longrightarrow> route_ok cfgs n r"
    if "\<forall>n r. gget m n = Some r \<longrightarrow> route_ok cfgs n r" "set cs \<subseteq> set cfgs" for m cs
    using that
  proof (induction cs arbitrary: m)
    case (Cons c cs)
    then have "route_ok cfgs (rtc_Name c) (route_definition c)"
      using assms by (intro route_ok_definition) (auto simp: list_all_iff)
    with Cons.prems have "\<forall>n r. gget (gput (rtc_Name c) (route_definition c) m) n = Some r \<longrightarrow> route_ok cfgs n r"
      and "set cs \<subseteq> set cfgs" by auto
    from Cons.IH [OF this] show ?case by (simp only: foldl_Cons)
  qed simp
  from this [of "[]" cfgs] show ?thesis by (simp add: selector_inv_def NewRouteSelector_def)
qed

lemma selector_inv_step: "selector_inv cfgs s \<Longrightarrow> selector_inv cfgs (selector_step mgr s e)"
proof (cases e)
  case (SelSet r t)
  moreover assume inv: "selector_inv cfgs s"
  ultimately show ?thesis
    by (auto simp: selector_inv_def SetOverride_def find_route_def Let_def route_ok_def split: option.splits)
next
  case (SelClear r)
  moreover assume "selector_inv cfgs s"
  ultimately show ?thesis
    by (auto simp: selector_inv_def ClearOverride_def Let_def split: option.splits)
qed

interpretation selector: event_system "selector_step mgr" "selector_inv cfgs" for mgr cfgs
  by unfold_locales (rule selector_inv_step)

lemma selector_routes_fixed [simp]: "rs_routes (selector_step mgr s e) = rs_routes s"
  by (cases e) (auto simp: SetOverride_def ClearOverride_def Let_def split: option.splits)

lemma selector_run_routes [simp]: "rs_routes (foldl (selector_step mgr) s es) = rs_routes s"
  by (induction es arbitrary: s) auto

lemma override_in_route:
  assumes "selector_inv cfgs s" and "find_route name s = Some r" and "override_of (rd_name r) s \<noteq> []"
  shows "override_of (rd_name r) s \<in> set (rd_upstreams r)"
  using assms
  by (fastforce simp: selector_inv_def find_route_def override_of_def gget_default_def route_ok_def split: option.splits)

lemma static_tag:
  "mgr_inv m \<Longrightarrow> SelectStatic now tag m = Inr up \<Longrightarrow> up_Tag up = TrimSpace tag"
  by (auto simp: SelectStatic_def mgr_inv_def split: option.splits if_splits)

lemma override_tag:
  "mgr_inv m \<Longrightarrow> SelectOverride now tag ad m = (Inr up, m') \<Longrightarrow> up_Tag up = TrimSpace tag"
  by (auto simp: SelectOverride_def mgr_inv_def Let_def split: option.splits if_splits)

lemma override_inv: "mgr_inv m \<Longrightarrow> mgr_inv (snd (SelectOverride now tag ad m))"
  using mgr_inv_step [of m "MgrSelectOverride now tag ad"] by simp

lemma adaptive_tag:
  assumes "mgr_inv m" and "fst (SelectAdaptiveFrom now tags m) = Inr up" and "tags \<noteq> []" and "list_all tag_ok tags"
  shows "up_Tag up \<in> set tags"
proof -
  from assms(3,4) have "set (ordered_tags tags) = set tags" "ordered_tags tags \<noteq> []"
    using set_ordered_tags [of tags] by (auto simp: tag_ok_def list_all_iff image_iff) (metis list.set_intros(1) set_empty neq_Nil_conv emptyE)+
  moreover have "eligible (refresh_all now m) now tags up"
    using adaptive_cases [OF assms(1), of now tags] eligible_candidates [OF assms(1), of now tags] assms(2) by auto
  ultimately show ?thesis by (auto simp: eligible_def in_route_def)
qed

lemma pick_static_cases:
  assumes "mgr_inv mgr" and "pick_static now r ov mgr = (Inr up, st)"
    and "rd_defaultUpstream r \<in> set (rd_upstreams r)" and "ov \<noteq> [] \<longrightarrow> ov \<in> set (rd_upstreams r)"
    and "list_all tag_ok (rd_upstreams r)"
  shows "up_Tag up \<in> set (rd_upstreams r) \<and> rst_Effective st = up_Tag up \<and> rst_Name st = rd_name r"
  using assms static_tag [OF assms(1)]
  by (fastforce simp: pick_static_def route_status_def Let_def tag_ok_def list_all_iff split: sum.splits if_splits)

lemma pick_adaptive_cases:
  assumes "mgr_inv mgr" and "pick_adaptive now r st0 mgr = ((Inr up, st), mgr')"
    and "rd_upstreams r \<noteq> []" and "list_all tag_ok (rd_upstreams r)"
  shows "up_Tag up \<in> set (rd_upstreams r) \<and> rst_Effective st = up_Tag up \<and> rst_Name st = rst_Name st0"
  using assms adaptive_tag [OF assms(1) _ assms(3,4), of now]
  by (auto simp: pick_adaptive_def split: prod.splits sum.splits)

section \<open>Properties\<close>

lemma pick_in_route:
  assumes "list_all route_config_ok cfgs" and "mgr_inv mgr"
    and "Pick now name (foldl (selector_step mgr0) (NewRouteSelector cfgs) ops) mgr = ((Inr up, st), mgr')"
  shows "\<exists>c \<in> set cfgs. rtc_Name c = TrimSpace name \<and> up_Tag up \<in> set (rtc_Upstreams c) \<and>
     rst_Name st = rtc_Name c \<and> rst_Effective st = up_Tag up"
proof -
  let ?s = "foldl (selector_step mgr0) (NewRouteSelector cfgs) ops"
  have inv: "selector_inv cfgs ?s"
    using selector.run_invar selector_inv_new assms(1) by blast
  from assms(3) obtain r where r: "find_route name ?s = Some r"
    by (auto simp: Pick_def split: option.splits)
  with inv have ok: "route_ok cfgs (TrimSpace name) r" by (auto simp: selector_inv_def find_route_def)
  let ?ov = "override_of (rd_name r) ?s"
  have ov: "?ov \<noteq> [] \<longrightarrow> ?ov \<in> set (rd_upstreams r)" using override_in_route inv r by blast
  have "up_Tag up \<in> set (rd_upstreams r) \<and> rst_Effective st = up_Tag up \<and> rst_Name st = rd_name r"
  proof (cases "rd_strategy r = ''static''")
    case True
    with assms(3) r ok ov show ?thesis
      using pick_static_cases [OF assms(2)] by (auto simp: Pick_def Let_def route_ok_def)
  next
    case False
    note ad = pick_adaptive_cases [of _ now r _ up st mgr']
    show ?thesis
    proof (cases "?ov = []")
      case True
      with False assms(2,3) r ok show ?thesis using ad by (auto simp: Pick_def Let_def route_ok_def route_status_def)
    next
      case ne: False
      obtain res m1 where m1: "SelectOverride now ?ov True mgr = (res, m1)" by (cases "SelectOverride now ?ov True mgr")
      then have "mgr_inv m1" using override_inv [OF assms(2), of now ?ov True] by simp
      then show ?thesis
        using False ne assms(3) r ok ov m1 ad override_tag [OF assms(2)]
        by (cases res) (auto simp: Pick_def Let_def route_ok_def route_status_def tag_ok_def list_all_iff)
    qed
  qed
  with ok show ?thesis by (auto simp: route_ok_def)
qed

text \<open>
  C18: Whatever overrides the operator has set and cleared, and whatever the state of the
  upstreams, a pick for a route of a validated configuration that succeeds returns an
  upstream configured for that very route, and the reported status names that upstream.
\<close>

theorem pick_stays_in_route:
  assumes "list_all route_config_ok cfgs" and "mgr_inv mgr"
    and "Pick now name (foldl (selector_step mgr0) (NewRouteSelector cfgs) ops) mgr = ((Inr up, st), mgr')"
  shows "\<exists>c \<in> set cfgs. rtc_Name c = TrimSpace name \<and> up_Tag up \<in> set (rtc_Upstreams c) \<and>
     rst_Name st = rtc_Name c \<and> rst_Effective st = up_Tag up"
  using assms by (rule pick_in_route)

definition sample_routes :: "RouteConfig list" where
  "sample_routes =
     [\<lparr>rtc_Name = ''edge'', rtc_Strategy = ''adaptive'', rtc_Upstreams = [''a'', ''b''], rtc_DefaultUpstream = []\<rparr>,
      \<lparr>rtc_Name = ''fixed'', rtc_Strategy = ''static'', rtc_Upstreams = [''a''], rtc_DefaultUpstream = []\<rparr>]"

lemma sample_routes_ok: "list_all route_config_ok sample_routes"
  by code_simp

theorem pick_stays_in_route_witness:
  "case Pick 7 '' edge'' (foldl (selector_step sample_manager) (NewRouteSelector sample_routes)
      [SelSet ''edge'' ''a'']) sample_manager of
     ((Inr up, st), mgr') \<Rightarrow> up_Tag up = ''a'' \<and> rst_Effective st = ''a'' \<and>
       (\<exists>c \<in> set sample_routes. rtc_Name c = ''edge'' \<and> up_Tag up \<in> set (rtc_Upstreams c))
   | _ \<Rightarrow> False"
proof -
  let ?p = "Pick 7 '' edge'' (foldl (selector_step sample_manager) (NewRouteSelector sample_routes)
      [SelSet ''edge'' ''a'']) sample_manager"
  have "case ?p of ((Inr up, st), mgr') \<Rightarrow> up_Tag up = ''a'' | _ \<Rightarrow> False" by code_simp
  then obtain up st mgr' where p: "?p = ((Inr up, st), mgr')" "up_Tag up = ''a''"
    by (auto split: prod.splits sum.splits)
  have "TrimSpace '' edge'' = ''edge''" by code_simp
  with pick_stays_in_route [OF sample_routes_ok sample_manager_inv p(1)] p show ?thesis by auto
qed

text \<open>
  An operator override governs its route. On a static route a pick uses the overriding
  upstream or fails; on an adaptive route it uses it while it is resolved, not in its dial
  cooldown and not down, and otherwise falls back to the adaptive choice and reports the
  fallback; clearing the override gives back the picks of the selector without it.
\<close>

lemma override_governs_route:
  assumes "selector_inv cfgs s" and "find_route name s = Some r"
    and "SetOverride mgr0 name tag s = (Inr (), s')" and "SelectOverride now (TrimSpace tag) True mgr = (res, mgr1)"
  shows "(rd_strategy r = ''static'' \<longrightarrow>
            fst (fst (Pick now name s' mgr)) = SelectStatic now (TrimSpace tag) mgr) \<and>
         (rd_strategy r \<noteq> ''static'' \<and> isl res \<longrightarrow>
            fst (fst (Pick now name s' mgr)) = fst (SelectAdaptiveFrom now (rd_upstreams r) mgr1) \<and>
            rst_OverrideState (snd (fst (Pick now name s' mgr))) = OverrideFallback) \<and>
         (rd_strategy r \<noteq> ''static'' \<and> \<not> isl res \<longrightarrow>
            fst (fst (Pick now name s' mgr)) = res \<and>
            rst_OverrideState (snd (fst (Pick now name s' mgr))) = OverrideActive) \<and>
         (override_of (rd_name r) s = [] \<longrightarrow> Pick now name (snd (ClearOverride name s')) mgr = Pick now name s mgr)"
proof -
  have key: "rd_name r = TrimSpace name" using assms(1,2) by (auto simp: selector_inv_def find_route_def route_ok_def)
  from assms(2,3) have s': "s' = s\<lparr>rs_overrides := gput (rd_name r) (TrimSpace tag) (rs_overrides s)\<rparr>"
    and ne: "TrimSpace tag \<noteq> []"
    by (auto simp: SetOverride_def Let_def split: if_splits)
  then have find: "find_route name s' = Some r" and ov: "override_of (rd_name r) s' = TrimSpace tag"
    using assms(2) by (auto simp: find_route_def override_of_def gget_default_def)
  have st: "fst (fst (Pick now name s' mgr)) = SelectStatic now (TrimSpace tag) mgr" if "rd_strategy r = ''static''"
    using that find ov ne by (auto simp: Pick_def pick_static_def Let_def split: sum.splits)
  have ad: "Pick now name s' mgr = (case res of
        Inl e \<Rightarrow> pick_adaptive now r ((route_status r (TrimSpace tag))\<lparr>rst_OverrideState := OverrideFallback\<rparr>) mgr1
      | Inr u \<Rightarrow> ((Inr u, (route_status r (TrimSpace tag))
           \<lparr>rst_Effective := TrimSpace tag, rst_OverrideState := OverrideActive\<rparr>), mgr1))"
    if "rd_strategy r \<noteq> ''static''"
    using that find ov ne assms(4) by (auto simp: Pick_def Let_def split: sum.splits)
  have cl: "Pick now name (snd (ClearOverride name s')) mgr = Pick now name s mgr" if "override_of (rd_name r) s = []"
    using that find assms(2) key
    by (auto simp: Pick_def ClearOverride_def Let_def find_route_def s' override_of_def gget_default_def)
  show ?thesis
    using st ad cl
    by (auto simp: pick_adaptive_def isl_def split: sum.splits prod.splits)
qed

lemma override_governs_route_sample:
  "rst_OverrideState (snd (fst (Pick 7 ''edge''
     (snd (SetOverride sample_manager ''edge'' ''a'' (NewRouteSelector sample_routes))) sample_manager))) = OverrideActive"
proof -
  let ?s = "NewRouteSelector sample_routes"
  have set: "fst (SetOverride sample_manager ''edge'' ''a'' ?s) = Inr ()"
    and ov: "case fst (SelectOverride 7 (TrimSpace ''a'') True sample_manager) of Inl _ \<Rightarrow> False | Inr _ \<Rightarrow> True"
    and find: "case find_route ''edge'' ?s of None \<Rightarrow> False | Some r \<Rightarrow> rd_strategy r \<noteq> ''static''"
    by code_simp+
  from find obtain r where r: "find_route ''edge'' ?s = Some r" "rd_strategy r \<noteq> ''static''"
    by (auto split: option.splits)
  obtain res m1 where m1: "SelectOverride 7 (TrimSpace ''a'') True sample_manager = (res, m1)"
    by (cases "SelectOverride 7 (TrimSpace ''a'') True sample_manager")
  have "SetOverride sample_manager ''edge'' ''a'' ?s = (Inr (), snd (SetOverride sample_manager ''edge'' ''a'' ?s))"
    using set by (metis prod.collapse)
  from override_governs_route [OF selector_inv_new [OF sample_routes_ok] r(1) this m1] r(2) ov m1
  show ?thesis by (auto split: sum.splits)
qed

end
