(* ===== verification/Firewall.thy ===== *)
theory Firewall
  imports Netip
begin

text \<open>
  The rule engine of \<open>internal/firewall/engine.go\<close>: rules on the client address, its
  autonomous system or its country are compiled once and evaluated in order; the first match
  decides. The GeoIP database is an argument: \<open>lookup\<close> gives the result for an address, and
  \<open>None\<close> stands for a missing provider. Log events are left out; the metric calls are
  returned with the decision.
\<close>

record FirewallRule =
  fwr_Action :: string
  fwr_CIDR :: string
  fwr_ASN :: int
  fwr_Country :: string

record FirewallConfig =
  fc_Enabled :: bool
  fc_Default :: string
  fc_PolicyFile :: string
  fc_FailOnInitialLoad :: "bool option"
  fc_Rules :: "FirewallRule list"

text \<open>\<open>ShouldFailOnInitialLoad\<close>: true unless the configuration says otherwise.\<close>

definition ShouldFailOnInitialLoad :: "FirewallConfig \<Rightarrow> bool" where
  "ShouldFailOnInitialLoad c = (case fc_FailOnInitialLoad c of None \<Rightarrow> True | Some b \<Rightarrow> b)"

record LookupResult =
  lk_ASN :: int
  lk_Country :: string
  lk_ASNDBAvailable :: bool
  lk_CountryAvailable :: bool

definition zero_lookup :: LookupResult where
  "zero_lookup = \<lparr>lk_ASN = 0, lk_Country = [], lk_ASNDBAvailable = False, lk_CountryAvailable = False\<rparr>"

type_synonym geo_lookup = "(netIP \<Rightarrow> LookupResult) option"

record FwDecision =
  fd_Allowed :: bool
  fd_RuleType :: string
  fd_RuleValue :: string

datatype rule_kind = KindCIDR IPNet | KindASN int | KindCountry string

record compiledRule =
  cr_action :: bool
  cr_kind :: rule_kind
  cr_value :: string

record Engine =
  eg_rules :: "compiledRule list"
  eg_defaultAllow :: bool
  eg_lookup :: geo_lookup

datatype engine_error = InvalidFirewallCIDR string | InvalidFirewallRule FirewallRule

section \<open>Compilation\<close>

definition compile_rule :: "FirewallRule \<Rightarrow> engine_error + compiledRule" where
  "compile_rule r =
     (let action = (fwr_Action r = ''allow'')
      in if fwr_CIDR r \<noteq> [] then
           (case ParseCIDR (fwr_CIDR r) of
              None \<Rightarrow> Inl (InvalidFirewallCIDR (fwr_CIDR r))
            | Some n \<Rightarrow> Inr \<lparr>cr_action = action, cr_kind = KindCIDR n, cr_value = fwr_CIDR r\<rparr>)
         else if fwr_ASN r \<noteq> 0 then
           Inr \<lparr>cr_action = action, cr_kind = KindASN (fwr_ASN r), cr_value = Itoa (fwr_ASN r)\<rparr>
         else if fwr_Country r \<noteq> [] then
           Inr \<lparr>cr_action = action, cr_kind = KindCountry (ToUpper (fwr_Country r)), cr_value = ToUpper (fwr_Country r)\<rparr>
         else Inl (InvalidFirewallRule r))"

fun compile_rules :: "FirewallRule list \<Rightarrow> engine_error + compiledRule list" where
  "compile_rules [] = Inr []"
| "compile_rules (r # rs) =
     (case compile_rule r of
        Inl e \<Rightarrow> Inl e
      | Inr c \<Rightarrow> (case compile_rules rs of Inl e \<Rightarrow> Inl e | Inr cs \<Rightarrow> Inr (c # cs)))"

definition NewEngine :: "FirewallConfig \<Rightarrow> geo_lookup \<Rightarrow> engine_error + Engine" where
  "NewEngine cfg lookup =
     (case compile_rules (fc_Rules cfg) of
        Inl e \<Rightarrow> Inl e
      | Inr cs \<Rightarrow> Inr \<lparr>eg_rules = cs, eg_defaultAllow = (fc_Default cfg \<noteq> ''deny''), eg_lookup = lookup\<rparr>)"

section \<open>Decisions\<close>

definition lookupResult :: "Engine \<Rightarrow> netIP \<Rightarrow> LookupResult" where
  "lookupResult e ip = (case eg_lookup e of None \<Rightarrow> zero_lookup | Some f \<Rightarrow> f ip)"

definition kind_text :: "rule_kind \<Rightarrow> string" where
  "kind_text k = (case k of KindCIDR _ \<Rightarrow> ''cidr'' | KindASN _ \<Rightarrow> ''asn'' | KindCountry _ \<Rightarrow> ''country'')"

text \<open>Whether a rule matches, given the GeoIP result; a network rule does not look at it.\<close>

definition needs_geo :: "rule_kind \<Rightarrow> bool" where
  "needs_geo k = (case k of KindCIDR _ \<Rightarrow> False | _ \<Rightarrow> True)"

definition kind_match :: "LookupResult \<Rightarrow> netIP \<Rightarrow> rule_kind \<Rightarrow> bool" where
  "kind_match geo ip k =
     (case k of
        KindCIDR n \<Rightarrow> net_contains n ip
      | KindASN asn \<Rightarrow> lk_ASNDBAvailable geo \<and> lk_ASN geo = asn
      | KindCountry c \<Rightarrow> lk_CountryAvailable geo \<and> EqualFold (lk_Country geo) c)"

definition rule_decision :: "compiledRule \<Rightarrow> FwDecision" where
  "rule_decision r = \<lparr>fd_Allowed = cr_action r, fd_RuleType = kind_text (cr_kind r), fd_RuleValue = cr_value r\<rparr>"

definition default_decision :: "Engine \<Rightarrow> FwDecision" where
  "default_decision e = \<lparr>fd_Allowed = eg_defaultAllow e, fd_RuleType = [], fd_RuleValue = []\<rparr>"

text \<open>
  The loop of \<open>Decide\<close>. The GeoIP result is looked up when the first rule needs it and kept;
  the loop returns the decision, the kinds of the denials counted and the number of lookups.
\<close>

fun decide_loop ::
    "Engine \<Rightarrow> netIP \<Rightarrow> LookupResult option \<Rightarrow> compiledRule list \<Rightarrow> FwDecision \<times> string list \<times> nat" where
  "decide_loop e ip memo [] = (default_decision e, [], 0)"
| "decide_loop e ip memo (rule # rules) =
     (let looked = (needs_geo (cr_kind rule) \<and> memo = None);
          memo' = (if looked then Some (lookupResult e ip) else memo);
          geo = (case memo' of None \<Rightarrow> zero_lookup | Some g \<Rightarrow> g)
      in if kind_match geo ip (cr_kind rule) then
           (rule_decision rule, if cr_action rule then [] else [kind_text (cr_kind rule)], of_bool looked)
         else (case decide_loop e ip memo' rules of (d, ms, n) \<Rightarrow> (d, ms, n + of_bool looked)))"

definition Engine_Decide :: "Engine option \<Rightarrow> netIP \<Rightarrow> FwDecision \<times> string list \<times> nat" where
  "Engine_Decide engine ip =
     (case (engine, ip) of
        (Some e, Some _) \<Rightarrow> decide_loop e ip None (eg_rules e)
      | _ \<Rightarrow> (\<lparr>fd_Allowed = True, fd_RuleType = [], fd_RuleValue = []\<rparr>, [], 0))"

definition Engine_Check :: "Engine option \<Rightarrow> netIP \<Rightarrow> bool" where
  "Engine_Check e ip = fd_Allowed (fst (Engine_Decide e ip))"

section \<open>First match\<close>

lemma lower_upper_char [simp]: "lower_char (upper_char c) = lower_char c"
proof (cases "char_in CHR ''a'' CHR ''z'' c")
  case True
  then have n: "97 \<le> (of_char c :: nat)" "(of_char c :: nat) \<le> 122" by (auto simp: char_in_def)
  then have "of_char (char_of (of_char c - 32 :: nat) :: char) = (of_char c - 32 :: nat)" by simp
  moreover have "65 \<le> (of_char c - 32 :: nat)" "(of_char c - 32 :: nat) \<le> 90" using n by linarith+
  ultimately have "lower_char (upper_char c) = char_of (of_char c :: nat)"
    using True n by (simp add: upper_char_def lower_char_def char_in_def)
  with n show ?thesis by (simp add: lower_char_def char_in_def)
qed (simp add: upper_char_def)

lemma EqualFold_ToUpper [simp]: "EqualFold s (ToUpper t) = EqualFold s t"
  by (simp add: EqualFold_def ToLower_def ToUpper_def comp_def)

text \<open>The reference: a rule matches by the database's answer for the address.\<close>

definition rule_matches :: "Engine \<Rightarrow> netIP \<Rightarrow> compiledRule \<Rightarrow> bool" where
  "rule_matches e ip rule = kind_match (lookupResult e ip) ip (cr_kind rule)"

definition first_match :: "Engine \<Rightarrow> netIP \<Rightarrow> compiledRule list \<Rightarrow> FwDecision" where
  "first_match e ip rules =
     (case List.find (rule_matches e ip) rules of None \<Rightarrow> default_decision e | Some r \<Rightarrow> rule_decision r)"

lemma first_match_simps [simp]:
  "first_match e ip [] = default_decision e"
  "first_match e ip (r # rs) = (if rule_matches e ip r then rule_decision r else first_match e ip rs)"
  by (simp_all add: first_match_def)

lemma kind_match_geo: "needs_geo k \<longrightarrow> geo = geo' \<Longrightarrow> kind_match geo ip k = kind_match geo' ip k"
  by (cases k) (auto simp: kind_match_def needs_geo_def)

lemma decide_loop_first:
  assumes "memo = None \<or> memo = Some (lookupResult e ip)"
  shows "fst (decide_loop e ip memo rules) = first_match e ip rules \<and>
    snd (snd (decide_loop e ip memo rules)) \<le> of_bool (memo = None)"
  using assms
proof (induction rules arbitrary: memo)
  case (Cons rule rules)
  define memo' where "memo' = (if needs_geo (cr_kind rule) \<and> memo = None then Some (lookupResult e ip) else memo)"
  let ?geo = "case memo' of None \<Rightarrow> zero_lookup | Some g \<Rightarrow> g"
  have m: "kind_match ?geo ip (cr_kind rule) = rule_matches e ip rule"
    unfolding rule_matches_def using Cons.prems by (intro kind_match_geo) (auto simp: memo'_def)
  have "memo' = None \<or> memo' = Some (lookupResult e ip)" using Cons.prems by (auto simp: memo'_def)
  note ih = Cons.IH [OF this]
  obtain d ms n where r: "decide_loop e ip memo' rules = (d, ms, n)" by (cases "decide_loop e ip memo' rules")
  have "decide_loop e ip memo (rule # rules) =
      (if rule_matches e ip rule
       then (rule_decision rule, if cr_action rule then [] else [kind_text (cr_kind rule)], of_bool (needs_geo (cr_kind rule) \<and> memo = None))
       else (d, ms, n + of_bool (needs_geo (cr_kind rule) \<and> memo = None)))"
    using r unfolding m [symmetric] memo'_def by (simp add: Let_def)
  with ih r show ?case by (auto simp: memo'_def split: if_splits)
qed simp

lemma decide_loop_denials:
  "fst (snd (decide_loop e ip memo rules)) =
     (let d = fst (decide_loop e ip memo rules)
      in if fd_Allowed d \<or> fd_RuleType d = [] then [] else [fd_RuleType d])"
proof (induction rules arbitrary: memo)
  case (Cons rule rules)
  let ?memo = "if needs_geo (cr_kind rule) \<and> memo = None then Some (lookupResult e ip) else memo"
  have "kind_text k \<noteq> []" for k by (simp add: kind_text_def split: rule_kind.split)
  with Cons [of ?memo] show ?case
    by (cases "decide_loop e ip ?memo rules") (simp add: Let_def rule_decision_def)
qed (simp add: default_decision_def)

lemma Engine_Decide_first:
  "fst (Engine_Decide (Some e) (Some bs)) = first_match e (Some bs) (eg_rules e)"
  "snd (snd (Engine_Decide (Some e) (Some bs))) \<le> 1"
  using decide_loop_first [of None e "Some bs" "eg_rules e"] by (simp_all add: Engine_Decide_def)

lemma compile_rules_Inr: "compile_rules rs = Inr cs \<Longrightarrow> list_all2 (\<lambda>r c. compile_rule r = Inr c) rs cs"
  by (induction rs arbitrary: cs) (auto simp: list_all2_Cons1 split: sum.splits)

end
