(* ===== verification/Policy.thy ===== *)
theory Policy
  imports Firewall
begin

text \<open>
  The persistent firewall policy of \<open>internal/policy\<close>: the versioned document
  (\<open>schema.go\<close>), its validation (\<open>validator.go\<close>), its compilation into the rule engine
  and the legacy conversion (\<open>compiler.go\<close>), the parser's guards (\<open>parser.go\<close>) and the
  provider that serves decisions and reloads the policy file (\<open>provider.go\<close>).

  The YAML decoder, SHA-256 and the JSON text of a document are arguments. Reading the policy
  file is an input of the operation: the bytes, or \<open>None\<close> when it cannot be read.
\<close>

section \<open>Documents\<close>

record PolicyMatch =
  pm_SourceCIDR :: string
  pm_SourceASN :: "int option"
  pm_SourceCountry :: string

record PolicyRule =
  pr_ID :: string
  pr_Action :: string
  pr_Match :: PolicyMatch

record Document =
  doc_Version :: int
  doc_Default :: string
  doc_Rules :: "PolicyRule list"

definition SchemaVersion :: int where "SchemaVersion = 1"

definition MaxPolicyBytes :: nat where "MaxPolicyBytes = 2 ^ 20"

datatype policy_error =
    PolicyVersion | PolicyDefault
  | RuleIDEmpty nat | RuleIDLong nat | RuleIDControl nat | RuleIDDuplicate string
  | RuleAction nat | RuleCIDR nat | RuleASN nat | RuleCountry nat | RuleMatchers nat
  | DocEmpty | DocTooLarge | DocDecode | DocMultiple | DocTrailing
  | FileUnreadable | FileTooLarge | EngineFailed engine_error
  | ErrDisabled | ErrNoPolicyFile

section \<open>Validation\<close>

text \<open>
  \<open>unicode.IsControl\<close> over a UTF-8 text: the ASCII control bytes and the two-byte forms of
  U+0080 to U+009F.
\<close>

fun has_control :: "string \<Rightarrow> bool" where
  "has_control [] = False"
| "has_control (c # cs) =
     (of_char c < (32 :: nat) \<or> of_char c = (127 :: nat) \<or>
      (of_char c = (0xC2 :: nat) \<and> cs \<noteq> [] \<and> (0x80 :: nat) \<le> of_char (hd cs) \<and> of_char (hd cs) \<le> (0x9F :: nat)) \<or>
      has_control cs)"

text \<open>\<open>net.IPNet.String\<close>: the network number and the length of its mask, or the mask in hex.\<close>

function byte_ones :: "nat \<Rightarrow> byte \<Rightarrow> nat option" where
  "byte_ones n b = (if b = 0 then Some n else if n < 8 \<and> bit b 7 then byte_ones (n + 1) (push_bit 1 b) else None)"
  by auto
termination by (relation "measure (\<lambda>(n, b). 8 - n)") auto

declare byte_ones.simps [simp del]

fun simple_mask_length :: "nat \<Rightarrow> byte list \<Rightarrow> nat option" where
  "simple_mask_length n [] = Some n"
| "simple_mask_length n (b # bs) =
     (if b = 255 then simple_mask_length (n + 8) bs
      else case byte_ones 0 b of
             None \<Rightarrow> None
           | Some k \<Rightarrow> if list_all (\<lambda>x. x = 0) bs then Some (n + k) else None)"

definition net_text :: "IPNet \<Rightarrow> string" where
  "net_text n =
     (let (ip, m) = net_number_mask n
      in net_ip_text (Some ip) @ ''/'' @
         (case simple_mask_length 0 m of
            Some l \<Rightarrow> nat_text l
          | None \<Rightarrow> concat (map (\<lambda>b. [hex_digit (unat b div 16), hex_digit (unat b mod 16)]) m)))"

definition country_code :: "string \<Rightarrow> bool" where
  "country_code s \<longleftrightarrow> length s = 2 \<and> list_all (char_in CHR ''A'' CHR ''Z'') s"

text \<open>One turn of the loop over the rules: the normalised rule, or the first error.\<close>

definition validate_match :: "nat \<Rightarrow> PolicyMatch \<Rightarrow> policy_error + PolicyMatch" where
  "validate_match i m =
     (let cidr = TrimSpace (pm_SourceCIDR m); country = ToUpper (TrimSpace (pm_SourceCountry m));
          net = (if cidr = [] then None else ParseCIDR cidr)
      in if cidr \<noteq> [] \<and> net = None then Inl (RuleCIDR i)
         else if (case pm_SourceASN m of None \<Rightarrow> False | Some a \<Rightarrow> a \<le> 0) then Inl (RuleASN i)
         else if country \<noteq> [] \<and> \<not> country_code country then Inl (RuleCountry i)
         else if of_bool (cidr \<noteq> []) + of_bool (pm_SourceASN m \<noteq> None) + of_bool (country \<noteq> []) \<noteq> (1 :: nat)
           then Inl (RuleMatchers i)
         else Inr (m\<lparr>pm_SourceCIDR := (case net of None \<Rightarrow> cidr | Some n \<Rightarrow> net_text n), pm_SourceCountry := country\<rparr>))"

definition validate_rule :: "nat \<Rightarrow> string list \<Rightarrow> PolicyRule \<Rightarrow> policy_error + PolicyRule" where
  "validate_rule i seen r =
     (let rid = TrimSpace (pr_ID r); action = ToLower (TrimSpace (pr_Action r))
      in if rid = [] then Inl (RuleIDEmpty i)
         else if length rid > 128 then Inl (RuleIDLong i)
         else if has_control rid then Inl (RuleIDControl i)
         else if rid \<in> set seen then Inl (RuleIDDuplicate rid)
         else if action \<noteq> ''allow'' \<and> action \<noteq> ''deny'' then Inl (RuleAction i)
         else (case validate_match i (pr_Match r) of
                 Inl e \<Rightarrow> Inl e
               | Inr m \<Rightarrow> Inr \<lparr>pr_ID = rid, pr_Action = action, pr_Match = m\<rparr>))"

fun validate_rules :: "nat \<Rightarrow> string list \<Rightarrow> PolicyRule list \<Rightarrow> policy_error + PolicyRule list" where
  "validate_rules i seen [] = Inr []"
| "validate_rules i seen (r # rs) =
     (case validate_rule i seen r of
        Inl e \<Rightarrow> Inl e
      | Inr r' \<Rightarrow>
          (case validate_rules (i + 1) (pr_ID r' # seen) rs of
             Inl e \<Rightarrow> Inl e
           | Inr rs' \<Rightarrow> Inr (r' # rs')))"

definition Validate :: "Document \<Rightarrow> policy_error + Document" where
  "Validate d =
     (let def = ToLower (TrimSpace (doc_Default d))
      in if doc_Version d \<noteq> SchemaVersion then Inl PolicyVersion
         else if def \<noteq> ''allow'' \<and> def \<noteq> ''deny'' then Inl PolicyDefault
         else (case validate_rules 0 [] (doc_Rules d) of
                 Inl e \<Rightarrow> Inl e
               | Inr rs \<Rightarrow> Inr (d\<lparr>doc_Default := def, doc_Rules := rs\<rparr>)))"

section \<open>Compilation\<close>

definition engine_rule :: "PolicyRule \<Rightarrow> FirewallRule" where
  "engine_rule r =
     (let base = \<lparr>fwr_Action = pr_Action r, fwr_CIDR = [], fwr_ASN = 0, fwr_Country = []\<rparr>; m = pr_Match r
      in if pm_SourceCIDR m \<noteq> [] then base\<lparr>fwr_CIDR := pm_SourceCIDR m\<rparr>
         else case pm_SourceASN m of
                Some a \<Rightarrow> base\<lparr>fwr_ASN := a\<rparr>
              | None \<Rightarrow> if pm_SourceCountry m \<noteq> [] then base\<lparr>fwr_Country := pm_SourceCountry m\<rparr> else base)"

text \<open>
  \<open>Compile\<close> takes the document by value but shares its rules with the caller: validation
  normalises the caller's rules too, not the caller's default. The second result is the
  document as the caller sees it afterwards.
\<close>

definition Compile :: "Document \<Rightarrow> geo_lookup \<Rightarrow> policy_error + Engine \<times> Document" where
  "Compile d lookup =
     (case Validate d of
        Inl e \<Rightarrow> Inl e
      | Inr d' \<Rightarrow>
          (case NewEngine \<lparr>fc_Enabled = True, fc_Default = doc_Default d', fc_PolicyFile = [],
                           fc_FailOnInitialLoad = None, fc_Rules = map engine_rule (doc_Rules d')\<rparr> lookup of
             Inl e \<Rightarrow> Inl (EngineFailed e)
           | Inr eng \<Rightarrow> Inr (eng, d\<lparr>doc_Rules := doc_Rules d'\<rparr>)))"

definition legacy_rule :: "nat \<Rightarrow> FirewallRule \<Rightarrow> PolicyRule" where
  "legacy_rule i r =
     (let none = \<lparr>pm_SourceCIDR = [], pm_SourceASN = None, pm_SourceCountry = []\<rparr>
      in \<lparr>pr_ID = ''legacy-rule-'' @ nat_text (i + 1), pr_Action = fwr_Action r,
          pr_Match =
            (if fwr_CIDR r \<noteq> [] then none\<lparr>pm_SourceCIDR := fwr_CIDR r\<rparr>
             else if fwr_ASN r \<noteq> 0 then none\<lparr>pm_SourceASN := Some (fwr_ASN r)\<rparr>
             else if fwr_Country r \<noteq> [] then none\<lparr>pm_SourceCountry := fwr_Country r\<rparr>
             else none)\<rparr>)"

definition LegacyDocument :: "FirewallConfig \<Rightarrow> Document" where
  "LegacyDocument cfg =
     \<lparr>doc_Version = SchemaVersion, doc_Default = (if fc_Default cfg = [] then ''allow'' else fc_Default cfg),
      doc_Rules = map2 legacy_rule [0..<length (fc_Rules cfg)] (fc_Rules cfg)\<rparr>"

section \<open>Parsing\<close>

text \<open>What the second call of the YAML decoder finds after the document.\<close>

datatype yaml_rest = RestEOF | RestDocument | RestError

record policy_lib =
  pl_decode :: "string \<Rightarrow> Document option"
  pl_rest :: "string \<Rightarrow> yaml_rest"
  pl_hash :: "string \<Rightarrow> string"
  pl_json :: "Document \<Rightarrow> string"

definition Parse :: "policy_lib \<Rightarrow> string \<Rightarrow> policy_error + Document" where
  "Parse lib raw =
     (if raw = [] then Inl DocEmpty
      else if length raw > MaxPolicyBytes then Inl DocTooLarge
      else case pl_decode lib raw of
             None \<Rightarrow> Inl DocDecode
           | Some d \<Rightarrow>
               (case pl_rest lib raw of
                  RestDocument \<Rightarrow> Inl DocMultiple
                | RestError \<Rightarrow> Inl DocTrailing
                | RestEOF \<Rightarrow> Validate d))"

definition ParseFile :: "policy_lib \<Rightarrow> string option \<Rightarrow> policy_error + Document \<times> string" where
  "ParseFile lib file =
     (case file of
        None \<Rightarrow> Inl FileUnreadable
      | Some raw \<Rightarrow>
          if length raw > MaxPolicyBytes then Inl FileTooLarge
          else (case Parse lib raw of Inl e \<Rightarrow> Inl e | Inr d \<Rightarrow> Inr (d, raw)))"

section \<open>The provider\<close>

record PolicySnapshot =
  sn_Document :: Document
  sn_Source :: string
  sn_Hash :: string
  sn_Generation :: uint64
  sn_LoadedAt :: time
  sn_Engine :: Engine

record PolicyStatus =
  ps_Source :: string
  ps_Loaded :: bool
  ps_State :: string
  ps_Version :: int
  ps_Hash :: string
  ps_Generation :: uint64
  ps_LoadedAt :: time
  ps_LastError :: "policy_error option"
  ps_LastReloadAt :: time

record Provider =
  pv_enabled :: bool
  pv_policyFile :: string
  pv_failInitial :: bool
  pv_lookup :: geo_lookup
  pv_current :: "PolicySnapshot option"
  pv_status :: PolicyStatus

definition install :: "Document \<Rightarrow> Engine \<Rightarrow> string \<Rightarrow> string \<Rightarrow> time \<Rightarrow> string \<Rightarrow> Provider \<Rightarrow> Provider" where
  "install d eng source st loadedAt hash p =
     (let generation = ps_Generation (pv_status p) + 1
      in p\<lparr>pv_status := \<lparr>ps_Source = source, ps_Loaded = True, ps_State = st, ps_Version = doc_Version d, ps_Hash = hash,
                          ps_Generation = generation, ps_LoadedAt = loadedAt, ps_LastError = None, ps_LastReloadAt = loadedAt\<rparr>,
           pv_current := Some \<lparr>sn_Document = d, sn_Source = source, sn_Hash = hash, sn_Generation = generation,
                               sn_LoadedAt = loadedAt, sn_Engine = eng\<rparr>\<rparr>)"

definition setError :: "policy_error \<Rightarrow> Provider \<Rightarrow> Provider" where
  "setError e p = p\<lparr>pv_status := (pv_status p)\<lparr>ps_LastError := Some e\<rparr>\<rparr>"

definition reloadLocked :: "policy_lib \<Rightarrow> time \<Rightarrow> string option \<Rightarrow> Provider \<Rightarrow> policy_error option \<times> Provider" where
  "reloadLocked lib now file p =
     (if pv_policyFile p = [] then (Some ErrNoPolicyFile, p)
      else case ParseFile lib file of
             Inl e \<Rightarrow> (Some e, setError e p)
           | Inr (d, raw) \<Rightarrow>
               (case Compile d (pv_lookup p) of
                  Inl e \<Rightarrow> (Some e, setError e p)
                | Inr (eng, d') \<Rightarrow> (None, install d' eng (pv_policyFile p) ''active'' now (pl_hash lib raw) p)))"

definition Reload :: "policy_lib \<Rightarrow> time \<Rightarrow> string option \<Rightarrow> Provider \<Rightarrow> policy_error option \<times> Provider" where
  "Reload lib now file p = (if \<not> pv_enabled p then (Some ErrDisabled, p) else reloadLocked lib now file p)"

definition installLegacy :: "policy_lib \<Rightarrow> FirewallConfig \<Rightarrow> time \<Rightarrow> Provider \<Rightarrow> policy_error + Provider" where
  "installLegacy lib cfg now p =
     (case Compile (LegacyDocument cfg) (pv_lookup p) of
        Inl e \<Rightarrow> Inl e
      | Inr (eng, d) \<Rightarrow> Inr (install d eng ''legacy-inline'' ''legacy'' now (pl_hash lib (pl_json lib d)) p))"

definition plain_document :: "string \<Rightarrow> Document" where
  "plain_document def = \<lparr>doc_Version = SchemaVersion, doc_Default = def, doc_Rules = []\<rparr>"

definition NewProvider :: "policy_lib \<Rightarrow> FirewallConfig \<Rightarrow> geo_lookup \<Rightarrow> time \<Rightarrow> string option \<Rightarrow> policy_error + Provider" where
  "NewProvider lib cfg lookup now file =
     (let p = \<lparr>pv_enabled = fc_Enabled cfg, pv_policyFile = fc_PolicyFile cfg, pv_failInitial = ShouldFailOnInitialLoad cfg,
               pv_lookup = lookup, pv_current = None,
               pv_status = \<lparr>ps_Source = [], ps_Loaded = False, ps_State = ''disabled'', ps_Version = 0, ps_Hash = [],
                            ps_Generation = 0, ps_LoadedAt = 0, ps_LastError = None, ps_LastReloadAt = 0\<rparr>\<rparr>
      in if \<not> fc_Enabled cfg then
           (case Compile (plain_document ''allow'') lookup of
              Inl e \<Rightarrow> Inl e
            | Inr (eng, d) \<Rightarrow> Inr (install d eng ''disabled'' ''disabled'' now (pl_hash lib (pl_json lib d)) p))
         else if fc_PolicyFile cfg = [] then installLegacy lib cfg now p
         else
           (case reloadLocked lib now file p of
              (None, p') \<Rightarrow> Inr p'
            | (Some err, p') \<Rightarrow>
                if pv_failInitial p then Inl err
                else (case Compile (plain_document ''deny'') lookup of
                        Inl e \<Rightarrow> Inl e
                      | Inr (eng, d) \<Rightarrow>
                          Inr (setError err (install d eng ''fallback:deny-all'' ''degraded'' now (pl_hash lib (pl_json lib d)) p')))))"

definition Provider_Decide :: "Provider \<Rightarrow> netIP \<Rightarrow> FwDecision" where
  "Provider_Decide p ip =
     (case pv_current p of
        None \<Rightarrow> \<lparr>fd_Allowed = True, fd_RuleType = [], fd_RuleValue = []\<rparr>
      | Some s \<Rightarrow> fst (Engine_Decide (Some (sn_Engine s)) ip))"

definition Provider_Validate :: "policy_lib \<Rightarrow> string \<Rightarrow> Provider \<Rightarrow> policy_error + Document \<times> string" where
  "Provider_Validate lib raw p =
     (case Parse lib raw of
        Inl e \<Rightarrow> Inl e
      | Inr d \<Rightarrow> (case Compile d (pv_lookup p) of Inl e \<Rightarrow> Inl e | Inr (eng, d') \<Rightarrow> Inr (d', pl_hash lib raw)))"

definition ValidateFile :: "policy_lib \<Rightarrow> string option \<Rightarrow> Provider \<Rightarrow> policy_error + Document \<times> string" where
  "ValidateFile lib file p =
     (if pv_policyFile p = [] then Inl ErrNoPolicyFile
      else case ParseFile lib file of
             Inl e \<Rightarrow> Inl e
           | Inr (d, raw) \<Rightarrow>
               (case Compile d (pv_lookup p) of Inl e \<Rightarrow> Inl e | Inr (eng, d') \<Rightarrow> Inr (d', pl_hash lib raw)))"

section \<open>A compiled policy decides like its document\<close>

text \<open>
  The meaning of a document: the first rule, in document order, whose matcher fits the
  address decides, with the document's default when none does.
\<close>

definition match_holds :: "geo_lookup \<Rightarrow> netIP \<Rightarrow> PolicyMatch \<Rightarrow> bool" where
  "match_holds lookup ip m =
     (let geo = (case lookup of None \<Rightarrow> zero_lookup | Some f \<Rightarrow> f ip)
      in if pm_SourceCIDR m \<noteq> [] then (case ParseCIDR (pm_SourceCIDR m) of None \<Rightarrow> False | Some n \<Rightarrow> net_contains n ip)
         else case pm_SourceASN m of
                Some a \<Rightarrow> lk_ASNDBAvailable geo \<and> lk_ASN geo = a
              | None \<Rightarrow> lk_CountryAvailable geo \<and> EqualFold (lk_Country geo) (pm_SourceCountry m))"

definition document_allows :: "geo_lookup \<Rightarrow> netIP \<Rightarrow> Document \<Rightarrow> bool" where
  "document_allows lookup ip d =
     (case List.find (\<lambda>r. match_holds lookup ip (pr_Match r)) (doc_Rules d) of
        Some r \<Rightarrow> pr_Action r = ''allow''
      | None \<Rightarrow> doc_Default d = ''allow'')"

definition rule_ok :: "PolicyRule \<Rightarrow> bool" where
  "rule_ok r \<longleftrightarrow>
     pr_ID r \<noteq> [] \<and> TrimSpace (pr_ID r) = pr_ID r \<and> length (pr_ID r) \<le> 128 \<and> \<not> has_control (pr_ID r) \<and>
     (pr_Action r = ''allow'' \<or> pr_Action r = ''deny'') \<and>
     (case pm_SourceASN (pr_Match r) of None \<Rightarrow> True | Some a \<Rightarrow> 0 < a) \<and>
     (pm_SourceCountry (pr_Match r) \<noteq> [] \<longrightarrow> country_code (pm_SourceCountry (pr_Match r))) \<and>
     of_bool (pm_SourceCIDR (pr_Match r) \<noteq> []) + of_bool (pm_SourceASN (pr_Match r) \<noteq> None) +
       of_bool (pm_SourceCountry (pr_Match r) \<noteq> []) = (1 :: nat)"

lemma net_text_nonempty [simp]: "net_text n \<noteq> []"
  by (auto simp: net_text_def Let_def split: prod.splits)

lemma validate_rule_ok: "validate_rule i seen r = Inr r' \<Longrightarrow> rule_ok r' \<and> pr_ID r' \<notin> set seen"
  by (auto simp: validate_rule_def validate_match_def rule_ok_def Let_def of_bool_def
      split: if_splits sum.splits option.splits)

lemma validate_rules_ok:
  "validate_rules i seen rs = Inr rs' \<Longrightarrow>
   list_all rule_ok rs' \<and> distinct (map pr_ID rs') \<and> set (map pr_ID rs') \<inter> set seen = {}"
proof (induction i seen rs arbitrary: rs' rule: validate_rules.induct)
  case (2 i seen r rs)
  obtain r1 where r1: "validate_rule i seen r = Inr r1" using "2.prems" by (auto split: sum.splits)
  obtain rs1 where rs1: "validate_rules (i + 1) (pr_ID r1 # seen) rs = Inr rs1" "rs' = r1 # rs1"
    using "2.prems" r1 by (auto split: sum.splits)
  from "2.IH" [OF r1 rs1(1)] validate_rule_ok [OF r1] rs1(2) show ?case by auto
qed simp

lemma engine_rule_match:
  assumes "rule_ok r" and "compile_rule (engine_rule r) = Inr c"
  shows "kind_match (case lookup of None \<Rightarrow> zero_lookup | Some f \<Rightarrow> f ip) ip (cr_kind c) = match_holds lookup ip (pr_Match r)"
    and "cr_action c \<longleftrightarrow> pr_Action r = ''allow''"
proof -
  show "kind_match (case lookup of None \<Rightarrow> zero_lookup | Some f \<Rightarrow> f ip) ip (cr_kind c) = match_holds lookup ip (pr_Match r)"
    using assms
    by (auto simp: rule_ok_def compile_rule_def engine_rule_def kind_match_def match_holds_def Let_def
        split: if_splits option.splits)
  show "cr_action c \<longleftrightarrow> pr_Action r = ''allow''"
    using assms by (auto simp: compile_rule_def engine_rule_def Let_def split: if_splits option.splits)
qed

lemma find_list_all2:
  assumes "list_all2 R xs ys" and "\<And>x y. R x y \<Longrightarrow> P x = Q y"
  shows "(List.find P xs = None \<and> List.find Q ys = None) \<or>
    (\<exists>x y. List.find P xs = Some x \<and> List.find Q ys = Some y \<and> R x y)"
  using assms by (induction xs ys rule: list_all2_induct) auto

lemma Compile_decides:
  assumes c: "Compile d lookup = Inr (eng, d')"
  shows "\<exists>v. Validate d = Inr v \<and> doc_Rules d' = doc_Rules v \<and>
     fd_Allowed (fst (Engine_Decide (Some eng) (Some bs))) = document_allows lookup (Some bs) v"
proof -
  from c obtain v where v: "Validate d = Inr v" by (auto simp: Compile_def split: sum.splits)
  from c v obtain cs where cs: "compile_rules (map engine_rule (doc_Rules v)) = Inr cs"
    and eng: "eng = \<lparr>eg_rules = cs, eg_defaultAllow = (doc_Default v \<noteq> ''deny''), eg_lookup = lookup\<rparr>"
    and d': "doc_Rules d' = doc_Rules v"
    by (auto simp: Compile_def NewEngine_def split: sum.splits)
  have def: "doc_Default v = ''allow'' \<or> doc_Default v = ''deny''" and ok: "list_all rule_ok (doc_Rules v)"
    using v validate_rules_ok by (auto simp: Validate_def Let_def split: if_splits sum.splits)
  let ?R = "\<lambda>r c. rule_ok r \<and> compile_rule (engine_rule r) = Inr c"
  have "list_all2 (\<lambda>r c. compile_rule (engine_rule r) = Inr c) (doc_Rules v) cs"
    using compile_rules_Inr [OF cs] by (simp add: list_all2_map1)
  then have R: "list_all2 ?R (doc_Rules v) cs"
    using ok by (auto simp: list_all2_conv_all_nth list_all_length)
  have lk: "lookupResult eng (Some bs) = (case lookup of None \<Rightarrow> zero_lookup | Some f \<Rightarrow> f (Some bs))"
    by (simp add: eng lookupResult_def)
  have PQ: "match_holds lookup (Some bs) (pr_Match r) = rule_matches eng (Some bs) c" if "?R r c" for r c
    using engine_rule_match(1) [where r = r and c = c and lookup = lookup and ip = "Some bs"] that by (simp add: rule_matches_def lk)
  have "(List.find (\<lambda>r. match_holds lookup (Some bs) (pr_Match r)) (doc_Rules v) = None \<and>
         List.find (rule_matches eng (Some bs)) cs = None) \<or>
        (\<exists>r c. List.find (\<lambda>r. match_holds lookup (Some bs) (pr_Match r)) (doc_Rules v) = Some r \<and>
               List.find (rule_matches eng (Some bs)) cs = Some c \<and> rule_ok r \<and> compile_rule (engine_rule r) = Inr c)"
    using find_list_all2 [OF R, of "\<lambda>r. match_holds lookup (Some bs) (pr_Match r)" "rule_matches eng (Some bs)"] PQ by blast
  then have "fd_Allowed (first_match eng (Some bs) cs) = document_allows lookup (Some bs) v"
  proof (elim disjE exE conjE)
    fix r c
    assume *: "List.find (\<lambda>r. match_holds lookup (Some bs) (pr_Match r)) (doc_Rules v) = Some r"
      "List.find (rule_matches eng (Some bs)) cs = Some c" "rule_ok r" "compile_rule (engine_rule r) = Inr c"
    then show ?thesis
      using engine_rule_match(2) by (simp add: first_match_def document_allows_def rule_decision_def)
  qed (use def in \<open>auto simp: first_match_def document_allows_def default_decision_def eng\<close>)
  then have "fd_Allowed (fst (Engine_Decide (Some eng) (Some bs))) = document_allows lookup (Some bs) v"
    by (simp add: Engine_Decide_first(1) eng)
  with v d' show ?thesis by blast
qed

text \<open>
  C16: The compiled engine allows an address exactly when the first matching rule of the
  validated document, in document order, is an allow rule, or no rule matches and the default
  is allow; and it asks the GeoIP database at most once per decision.
\<close>

theorem policy_decides_first_match:
  assumes "Compile d lookup = Inr (eng, d')" and "Validate d = Inr v"
  shows "Engine_Check (Some eng) (Some bs) = document_allows lookup (Some bs) v \<and>
         snd (snd (Engine_Decide (Some eng) (Some bs))) \<le> 1 \<and> doc_Rules d' = doc_Rules v"
  using Compile_decides [OF assms(1), of bs] assms(2) Engine_Decide_first(2) [of eng bs]
  by (simp add: Engine_Check_def)

definition sample_document :: Document where
  "sample_document = \<lparr>doc_Version = 1, doc_Default = '' Allow'', doc_Rules =
     [\<lparr>pr_ID = ''r1'', pr_Action = ''DENY'',
       pr_Match = \<lparr>pm_SourceCIDR = [], pm_SourceASN = None, pm_SourceCountry = ''de ''\<rparr>\<rparr>]\<rparr>"

definition sample_lookup :: geo_lookup where
  "sample_lookup = Some (\<lambda>_. \<lparr>lk_ASN = 64500, lk_Country = ''DE'', lk_ASNDBAvailable = True, lk_CountryAvailable = True\<rparr>)"

lemma sample_compiles:
  "Compile sample_document sample_lookup \<noteq> Inl e \<and> Validate sample_document = Inr
     \<lparr>doc_Version = 1, doc_Default = ''allow'', doc_Rules =
       [\<lparr>pr_ID = ''r1'', pr_Action = ''deny'',
         pr_Match = \<lparr>pm_SourceCIDR = [], pm_SourceASN = None, pm_SourceCountry = ''DE''\<rparr>\<rparr>]\<rparr>"
  by (simp add: Compile_def sample_document_def Validate_def SchemaVersion_def TrimSpace_def ToLower_def ToUpper_def
      is_space_def lower_char_def upper_char_def char_in_def validate_rule_def validate_match_def country_code_def
      NewEngine_def engine_rule_def compile_rule_def Let_def) code_simp

theorem policy_decides_first_match_witness:
  "case Compile sample_document sample_lookup of
     Inl _ \<Rightarrow> False
   | Inr (eng, d) \<Rightarrow> \<not> Engine_Check (Some eng) (Some [192, 0, 2, 1])"
proof -
  obtain eng d' where c: "Compile sample_document sample_lookup = Inr (eng, d')"
    using sample_compiles by (cases "Compile sample_document sample_lookup") auto
  note v = sample_compiles [THEN conjunct2]
  show ?thesis
    using policy_decides_first_match [OF c v, of "[192, 0, 2, 1]"] c
    by (simp add: document_allows_def match_holds_def sample_lookup_def)
qed

section \<open>Reloading\<close>

text \<open>
  The calls of a running provider: reloads at clock readings with what the file held then.
  \<open>good_policy\<close> is the engine a reload installs, when its file is readable and valid.
\<close>

type_synonym reload_call = "time \<times> string option"

definition reload_step :: "policy_lib \<Rightarrow> Provider \<Rightarrow> reload_call \<Rightarrow> Provider" where
  "reload_step lib p call = snd (Reload lib (fst call) (snd call) p)"

definition good_policy :: "policy_lib \<Rightarrow> geo_lookup \<Rightarrow> string option \<Rightarrow> Engine option" where
  "good_policy lib lookup file =
     (case ParseFile lib file of
        Inl _ \<Rightarrow> None
      | Inr (d, raw) \<Rightarrow> (case Compile d lookup of Inl _ \<Rightarrow> None | Inr (eng, _) \<Rightarrow> Some eng))"

definition served :: "Provider \<Rightarrow> Engine option" where
  "served p = map_option sn_Engine (pv_current p)"

fun last_good :: "policy_lib \<Rightarrow> geo_lookup \<Rightarrow> Engine option \<Rightarrow> reload_call list \<Rightarrow> Engine option" where
  "last_good lib lookup e [] = e"
| "last_good lib lookup e ((now, file) # cs) =
     last_good lib lookup (case good_policy lib lookup file of None \<Rightarrow> e | Some g \<Rightarrow> Some g) cs"

lemma reload_fixed [simp]:
  "pv_enabled (reload_step lib p c) = pv_enabled p" "pv_policyFile (reload_step lib p c) = pv_policyFile p"
  "pv_lookup (reload_step lib p c) = pv_lookup p"
  by (auto simp: reload_step_def Reload_def reloadLocked_def install_def setError_def Let_def split: sum.splits prod.splits)

lemma reload_served:
  "pv_enabled p \<Longrightarrow> pv_policyFile p \<noteq> [] \<Longrightarrow>
   served (reload_step lib p (now, file)) = (case good_policy lib (pv_lookup p) file of None \<Rightarrow> served p | Some g \<Rightarrow> Some g)"
  by (auto simp: reload_step_def Reload_def reloadLocked_def install_def setError_def served_def good_policy_def Let_def
      split: sum.splits prod.splits)

lemma reload_run_served:
  "pv_enabled p \<Longrightarrow> pv_policyFile p \<noteq> [] \<Longrightarrow>
   served (foldl (reload_step lib) p cs) = last_good lib (pv_lookup p) (served p) cs"
proof (induction cs arbitrary: p)
  case (Cons c cs)
  obtain now raw where c: "c = (now, raw)" by (cases c)
  show ?case using Cons.IH [of "reload_step lib p c"] Cons.prems reload_served [of p lib now raw] by (simp add: c)
qed simp

lemma last_good_start:
  "last_good lib lookup e cs = (case last_good lib lookup None cs of None \<Rightarrow> e | Some g \<Rightarrow> Some g)"
proof (induction cs arbitrary: e)
  case (Cons c cs)
  obtain now raw where c: "c = (now, raw)" by (cases c)
  show ?case
    using Cons.IH [of e] Cons.IH [of "good_policy lib lookup raw"] by (auto simp: c split: option.splits)
qed simp

lemma reload_refused:
  "\<not> pv_enabled p \<or> pv_policyFile p = [] \<Longrightarrow> reload_step lib p c = p"
  by (auto simp: reload_step_def Reload_def reloadLocked_def)

lemma reload_run_refused:
  "\<not> pv_enabled p \<or> pv_policyFile p = [] \<Longrightarrow> foldl (reload_step lib) p cs = p"
  by (induction cs) (auto simp: reload_refused)

lemma Validate_plain: "def = ''allow'' \<or> def = ''deny'' \<Longrightarrow> Validate (plain_document def) = Inr (plain_document def)"
  by (auto simp: plain_document_def Validate_def SchemaVersion_def TrimSpace_def ToLower_def
      is_space_def lower_char_def char_in_def)

lemma Compile_plain:
  "def = ''allow'' \<or> def = ''deny'' \<Longrightarrow>
   Compile (plain_document def) lookup =
     Inr (\<lparr>eg_rules = [], eg_defaultAllow = (def \<noteq> ''deny''), eg_lookup = lookup\<rparr>, plain_document def)"
  by (auto simp: Compile_def Validate_plain NewEngine_def) (auto simp: plain_document_def)

lemma Provider_Decide_served:
  "Provider_Decide p ip =
     (case served p of None \<Rightarrow> \<lparr>fd_Allowed = True, fd_RuleType = [], fd_RuleValue = []\<rparr> | Some e \<Rightarrow> fst (Engine_Decide (Some e) ip))"
  by (simp add: Provider_Decide_def served_def split: option.splits)

lemma install_served [simp]:
  "served (install d eng src st t h p) = Some eng" "served (setError e p) = served p"
  "pv_enabled (install d eng src st t h p) = pv_enabled p" "pv_policyFile (install d eng src st t h p) = pv_policyFile p"
  "pv_lookup (install d eng src st t h p) = pv_lookup p" "pv_enabled (setError e p) = pv_enabled p"
  "pv_policyFile (setError e p) = pv_policyFile p" "pv_lookup (setError e p) = pv_lookup p"
  by (simp_all add: install_def setError_def served_def Let_def)

lemma NewProvider_file:
  assumes "NewProvider lib cfg lookup t0 raw0 = Inr p" and "fc_Enabled cfg" and "fc_PolicyFile cfg \<noteq> []"
  shows "pv_enabled p \<and> pv_policyFile p \<noteq> [] \<and> pv_lookup p = lookup \<and>
    served p = (case good_policy lib lookup raw0 of
                  None \<Rightarrow> Some \<lparr>eg_rules = [], eg_defaultAllow = False, eg_lookup = lookup\<rparr>
                | Some g \<Rightarrow> Some g)"
  using assms
  by (auto simp: NewProvider_def Let_def reloadLocked_def good_policy_def Compile_plain
      split: sum.splits if_splits prod.splits)

text \<open>
  C14: What the provider enforces, through any sequence of reloads. Disabled, it allows every
  address. With inline rules it enforces the converted document for ever. With a policy file
  it enforces the last file that was readable, valid and compilable: a failed reload changes
  no decision, and before the first good file every address is denied.
\<close>

theorem provider_enforces_last_good_policy:
  assumes "NewProvider lib cfg lookup t0 raw0 = Inr p"
  shows "fd_Allowed (Provider_Decide (foldl (reload_step lib) p cs) (Some bs)) =
    (if \<not> fc_Enabled cfg then True
     else if fc_PolicyFile cfg = [] then
       (case Validate (LegacyDocument cfg) of Inl _ \<Rightarrow> False | Inr v \<Rightarrow> document_allows lookup (Some bs) v)
     else
       (case last_good lib lookup None ((t0, raw0) # cs) of
          None \<Rightarrow> False
        | Some e \<Rightarrow> Engine_Check (Some e) (Some bs)))"
proof (cases "fc_Enabled cfg \<and> fc_PolicyFile cfg \<noteq> []")
  case True
  let ?deny = "\<lparr>eg_rules = [], eg_defaultAllow = False, eg_lookup = lookup\<rparr> :: Engine"
  note n = NewProvider_file [OF assms]
  have "served (foldl (reload_step lib) p cs) = last_good lib lookup (served p) cs"
    using reload_run_served n True by metis
  also have "\<dots> = (case last_good lib lookup None ((t0, raw0) # cs) of None \<Rightarrow> Some ?deny | Some g \<Rightarrow> Some g)"
    using n True last_good_start [of lib lookup "good_policy lib lookup raw0" cs] last_good_start [of lib lookup "served p" cs]
    by (auto split: option.splits)
  finally show ?thesis
    using True
    by (auto simp: Provider_Decide_served Engine_Check_def Engine_Decide_def default_decision_def split: option.splits)
next
  case False
  note refused = reload_run_refused [of p lib cs]
  show ?thesis
  proof (cases "fc_Enabled cfg")
    case True
    with False assms obtain eng d where c: "Compile (LegacyDocument cfg) lookup = Inr (eng, d)"
      and p: "served p = Some eng" "pv_policyFile p = []"
      by (auto simp: NewProvider_def Let_def installLegacy_def split: sum.splits)
    from Compile_decides [OF c, of bs] p refused True False show ?thesis
      by (auto simp: Provider_Decide_served)
  next
    case False
    with assms have "served p = Some \<lparr>eg_rules = [], eg_defaultAllow = True, eg_lookup = lookup\<rparr>" "\<not> pv_enabled p"
      by (auto simp: NewProvider_def Let_def Compile_plain)
    with refused False show ?thesis
      by (simp add: Provider_Decide_served Engine_Decide_def default_decision_def)
  qed
qed

definition sample_lib :: policy_lib where
  "sample_lib = \<lparr>pl_decode = (\<lambda>raw. if raw = ''allow'' then Some (plain_document ''allow'') else None),
     pl_rest = (\<lambda>_. RestEOF), pl_hash = (\<lambda>x. x), pl_json = (\<lambda>_. [])\<rparr>"

definition sample_firewall :: FirewallConfig where
  "sample_firewall = \<lparr>fc_Enabled = True, fc_Default = [], fc_PolicyFile = ''policy.yaml'',
     fc_FailOnInitialLoad = Some False, fc_Rules = []\<rparr>"

theorem provider_enforces_last_good_policy_witness:
  "case NewProvider sample_lib sample_firewall None 1 None of
     Inl _ \<Rightarrow> False
   | Inr p \<Rightarrow>
       \<not> fd_Allowed (Provider_Decide p (Some [192, 0, 2, 1])) \<and>
       fd_Allowed (Provider_Decide (foldl (reload_step sample_lib) p [(2, Some ''allow''), (3, Some ''broken'')]) (Some [192, 0, 2, 1]))"
proof -
  obtain p where p: "NewProvider sample_lib sample_firewall None 1 None = Inr p"
    by (simp add: NewProvider_def sample_firewall_def reloadLocked_def ParseFile_def ShouldFailOnInitialLoad_def
        Compile_plain Let_def)
  have cfg: "fc_Enabled sample_firewall" "fc_PolicyFile sample_firewall \<noteq> []" by (simp_all add: sample_firewall_def)
  have bad: "good_policy sample_lib None None = None" "good_policy sample_lib None (Some ''broken'') = None"
    by (simp_all add: good_policy_def ParseFile_def Parse_def sample_lib_def MaxPolicyBytes_def)
  have good: "good_policy sample_lib None (Some ''allow'') = Some \<lparr>eg_rules = [], eg_defaultAllow = True, eg_lookup = None\<rparr>"
    by (simp add: good_policy_def ParseFile_def Parse_def sample_lib_def MaxPolicyBytes_def Compile_plain Validate_plain)
  have "Engine_Check (Some \<lparr>eg_rules = [], eg_defaultAllow = True, eg_lookup = None\<rparr>) (Some [192, 0, 2, 1])"
    by (simp add: Engine_Check_def Engine_Decide_def default_decision_def)
  then show ?thesis
    using provider_enforces_last_good_policy [OF p, of "[]" "[192, 0, 2, 1]"]
      provider_enforces_last_good_policy [OF p, of "[(2, Some ''allow''), (3, Some ''broken'')]" "[192, 0, 2, 1]"]
      p cfg bad good
    by simp
qed

end
