(* ===== verification/OnlineStore.thy ===== *)
theory OnlineStore
  imports Netip "HOL-Library.List_Lexorder" "HOL-Library.Product_Lexorder"
begin

text \<open>
  The durable store of online rules (\<open>internal/audit/online_rule_store.go\<close> and the rule
  and event types of \<open>internal/audit/model.go\<close>). The table \<open>online_rules\<close> is the list of its
  rows, \<open>online_rule_events\<close> the list of the events; the primary key and the unique event
  identifier are the database's constraints. A transaction either commits or leaves both
  tables as they were; whether the database itself works is the argument \<open>db\<close>. The database
  keeps times in milliseconds.

  A JSON text is represented by what it decodes to: nothing for the empty text, an error, or
  the fields it sets. The rendered payload of an event is left out.
\<close>

section \<open>Values\<close>

datatype 'a json_text = NoJSON | BadJSON | JSON 'a

text \<open>A field the text does not name, or names with null for a string, is \<open>None\<close>.\<close>

record matcher_json =
  mj_SourceCIDR :: "string option"
  mj_SourceIP :: "string option"
  mj_Protocol :: "string option"
  mj_Port :: "int option option"

record params_json =
  pj_LimitBPS :: "uint64 option"
  pj_Upstream :: "string option"

record OnlineRule =
  or_RuleID :: string
  or_Version :: string
  or_Action :: string
  or_RuleType :: string
  or_RuleValue :: string
  or_Protocol :: string
  or_Port :: "int option"
  or_Priority :: int
  or_Enabled :: bool
  or_ExpiresAt :: "time option"
  or_Source :: string
  or_CreatedBy :: string
  or_Reason :: string
  or_TicketRef :: string
  or_MatcherJSON :: "matcher_json json_text"
  or_ParamsJSON :: "params_json json_text"
  or_PayloadJSON :: "params_json json_text"
  or_CreatedAt :: time
  or_UpdatedAt :: time

record OnlineRuleEvent =
  oe_EventID :: string
  oe_RuleID :: string
  oe_Operation :: string
  oe_Action :: string
  oe_Actor :: string
  oe_Reason :: string
  oe_TicketRef :: string
  oe_OccurredAt :: time

record OnlineStore =
  os_rules :: "OnlineRule list"
  os_events :: "OnlineRuleEvent list"

datatype store_error = RuleIDRequired | ErrOnlineRuleExists | ErrOnlineRuleNotFound | DatabaseError

section \<open>Times in the database\<close>

definition unix_epoch :: time where
  "unix_epoch = 62135596800 * second"

definition defaultTime :: "time \<Rightarrow> time \<Rightarrow> time" where
  "defaultTime now t = (if is_zero_time t then now else t)"

definition unixMilli :: "time \<Rightarrow> time \<Rightarrow> int" where
  "unixMilli now t = (defaultTime now t - unix_epoch) div millisecond"

definition timeFromMillis :: "int \<Rightarrow> time" where
  "timeFromMillis ms = unix_epoch + ms * millisecond"

text \<open>What a time reads as after it was written.\<close>

definition stored_time :: "time \<Rightarrow> time \<Rightarrow> time" where
  "stored_time now t = timeFromMillis (unixMilli now t)"

definition stored_rule :: "time \<Rightarrow> OnlineRule \<Rightarrow> OnlineRule" where
  "stored_rule now r =
     r\<lparr>or_ExpiresAt := map_option (stored_time now) (or_ExpiresAt r), or_CreatedAt := stored_time now (or_CreatedAt r),
       or_UpdatedAt := stored_time now (or_UpdatedAt r)\<rparr>"

section \<open>Operations\<close>

definition find_rule :: "string \<Rightarrow> OnlineStore \<Rightarrow> OnlineRule option" where
  "find_rule rid s = List.find (\<lambda>r. or_RuleID r = rid) (os_rules s)"

text \<open>\<open>insertOnlineRuleEventTx\<close>: defaults, then the insert, which fails on a used identifier.\<close>

definition insertOnlineRuleEventTx ::
    "string \<Rightarrow> time \<Rightarrow> OnlineRuleEvent \<Rightarrow> string \<Rightarrow> OnlineRuleEvent list \<Rightarrow> OnlineRuleEvent list option" where
  "insertOnlineRuleEventTx uuid now ev action evs =
     (let ev' = ev\<lparr>oe_EventID := (if oe_EventID ev = [] then uuid else oe_EventID ev),
                   oe_OccurredAt := stored_time now (oe_OccurredAt ev),
                   oe_Operation := (if oe_Operation ev = [] then ''create'' else oe_Operation ev),
                   oe_Action := (if oe_Action ev = [] then action else oe_Action ev)\<rparr>
      in if oe_EventID ev' \<in> set (map oe_EventID evs) then None else Some (evs @ [ev']))"

definition CreateOnlineRule ::
    "bool \<Rightarrow> string \<Rightarrow> time \<Rightarrow> OnlineRule \<Rightarrow> OnlineRuleEvent \<Rightarrow> OnlineStore \<Rightarrow> store_error option \<times> OnlineStore" where
  "CreateOnlineRule db uuid now rule ev s =
     (if TrimSpace (or_RuleID rule) = [] then (Some RuleIDRequired, s)
      else if \<not> db then (Some DatabaseError, s)
      else if find_rule (or_RuleID rule) s \<noteq> None then (Some ErrOnlineRuleExists, s)
      else
        let ev' = ev\<lparr>oe_RuleID := (if oe_RuleID ev = [] then or_RuleID rule else oe_RuleID ev)\<rparr>
        in case insertOnlineRuleEventTx uuid now ev' (or_Action rule) (os_events s) of
             None \<Rightarrow> (Some DatabaseError, s)
           | Some evs \<Rightarrow> (None, s\<lparr>os_rules := os_rules s @ [stored_rule now rule], os_events := evs\<rparr>))"

definition UpsertOnlineRule :: "bool \<Rightarrow> time \<Rightarrow> OnlineRule \<Rightarrow> OnlineStore \<Rightarrow> store_error option \<times> OnlineStore" where
  "UpsertOnlineRule db now rule s =
     (if \<not> db then (Some DatabaseError, s)
      else if find_rule (or_RuleID rule) s = None then (None, s\<lparr>os_rules := os_rules s @ [stored_rule now rule]\<rparr>)
      else (None, s\<lparr>os_rules := map (\<lambda>r. if or_RuleID r = or_RuleID rule
                                         then (stored_rule now rule)\<lparr>or_CreatedAt := or_CreatedAt r\<rparr> else r) (os_rules s)\<rparr>))"

text \<open>\<open>ORDER BY priority DESC, created_at ASC, rule_id ASC\<close>; texts compare byte by byte.\<close>

definition str_less :: "string \<Rightarrow> string \<Rightarrow> bool" where
  "str_less a b \<longleftrightarrow> map of_char a < (map of_char b :: nat list)"

definition rule_before :: "OnlineRule \<Rightarrow> OnlineRule \<Rightarrow> bool" where
  "rule_before a b =
     (if or_Priority a \<noteq> or_Priority b then or_Priority a > or_Priority b
      else if or_CreatedAt a \<noteq> or_CreatedAt b then time_before (or_CreatedAt a) (or_CreatedAt b)
      else str_less (or_RuleID a) (or_RuleID b))"

definition row_current :: "time \<Rightarrow> OnlineRule \<Rightarrow> bool" where
  "row_current now r \<longleftrightarrow> or_Enabled r \<and>
     (case or_ExpiresAt r of None \<Rightarrow> True | Some t \<Rightarrow> unixMilli now t > unixMilli now now)"

definition ListOnlineRules :: "bool \<Rightarrow> time \<Rightarrow> bool \<Rightarrow> OnlineStore \<Rightarrow> store_error + OnlineRule list" where
  "ListOnlineRules db now includeExpired s =
     (if \<not> db then Inl DatabaseError
      else Inr (stable_sort rule_before (if includeExpired then os_rules s else filter (row_current now) (os_rules s))))"

definition DeleteOnlineRule ::
    "bool \<Rightarrow> string \<Rightarrow> time \<Rightarrow> string \<Rightarrow> OnlineRuleEvent \<Rightarrow> OnlineStore \<Rightarrow> store_error option \<times> OnlineStore" where
  "DeleteOnlineRule db uuid now rid ev s =
     (if TrimSpace rid = [] then (Some RuleIDRequired, s)
      else if \<not> db then (Some DatabaseError, s)
      else case find_rule rid s of
             None \<Rightarrow> (Some ErrOnlineRuleNotFound, s)
           | Some rule \<Rightarrow>
               let ev' = ev\<lparr>oe_RuleID := rid, oe_Operation := (if oe_Operation ev = [] then ''delete'' else oe_Operation ev)\<rparr>
               in (case insertOnlineRuleEventTx uuid now ev' (or_Action rule) (os_events s) of
                     None \<Rightarrow> (Some DatabaseError, s)
                   | Some evs \<Rightarrow> (None, s\<lparr>os_rules := filter (\<lambda>r. or_RuleID r \<noteq> rid) (os_rules s), os_events := evs\<rparr>)))"

definition ExpireOnlineRule ::
    "bool \<Rightarrow> string \<Rightarrow> time \<Rightarrow> string \<Rightarrow> OnlineRuleEvent \<Rightarrow> OnlineStore \<Rightarrow> store_error option \<times> OnlineStore" where
  "ExpireOnlineRule db uuid now rid ev s =
     (if TrimSpace rid = [] then (Some RuleIDRequired, s)
      else if \<not> db then (Some DatabaseError, s)
      else case find_rule rid s of
             None \<Rightarrow> (Some ErrOnlineRuleNotFound, s)
           | Some rule \<Rightarrow>
               let ev' = ev\<lparr>oe_RuleID := rid, oe_Operation := (if oe_Operation ev = [] then ''expire'' else oe_Operation ev)\<rparr>
               in (case insertOnlineRuleEventTx uuid now ev' (or_Action rule) (os_events s) of
                     None \<Rightarrow> (Some DatabaseError, s)
                   | Some evs \<Rightarrow>
                       (None, s\<lparr>os_rules := map (\<lambda>r. if or_RuleID r = rid
                                   then r\<lparr>or_Enabled := False, or_ExpiresAt := Some (stored_time now now),
                                          or_UpdatedAt := stored_time now now\<rparr> else r) (os_rules s),
                                os_events := evs\<rparr>)))"

definition row_due :: "time \<Rightarrow> OnlineRule \<Rightarrow> bool" where
  "row_due now r \<longleftrightarrow> or_Enabled r \<and>
     (case or_ExpiresAt r of None \<Rightarrow> False | Some t \<Rightarrow> unixMilli now t \<le> unixMilli now now)"

text \<open>The loop over the due rules: each is disabled and gets an event, all in one transaction.\<close>

fun expire_rows :: "time \<Rightarrow> (string \<times> OnlineRule) list \<Rightarrow> OnlineStore \<Rightarrow> OnlineStore option" where
  "expire_rows now [] s = Some s"
| "expire_rows now ((uuid, rule) # due) s =
     (case insertOnlineRuleEventTx uuid now
             \<lparr>oe_EventID = [], oe_RuleID = or_RuleID rule, oe_Operation = ''expire'', oe_Action = [], oe_Actor = ''system'',
              oe_Reason = ''ttl expired'', oe_TicketRef = [], oe_OccurredAt = now\<rparr> (or_Action rule) (os_events s) of
        None \<Rightarrow> None
      | Some evs \<Rightarrow>
          expire_rows now due
            (s\<lparr>os_rules := map (\<lambda>r. if or_RuleID r = or_RuleID rule
                                    then r\<lparr>or_Enabled := False, or_UpdatedAt := stored_time now now\<rparr> else r) (os_rules s),
               os_events := evs\<rparr>))"

definition ExpireDueOnlineRules ::
    "bool \<Rightarrow> (nat \<Rightarrow> string) \<Rightarrow> time \<Rightarrow> OnlineStore \<Rightarrow> (store_error + OnlineRule list) \<times> OnlineStore" where
  "ExpireDueOnlineRules db uuids now s =
     (if \<not> db then (Inl DatabaseError, s)
      else
        let rules = filter (row_due now) (os_rules s)
        in case expire_rows now (zip (map uuids [0..<length rules]) rules) s of
             None \<Rightarrow> (Inl DatabaseError, s)
           | Some s' \<Rightarrow> (Inr rules, s'))"

definition QueryOnlineRuleEvents :: "string \<Rightarrow> OnlineStore \<Rightarrow> OnlineRuleEvent list" where
  "QueryOnlineRuleEvents rid s =
     stable_sort (\<lambda>a b. oe_OccurredAt a < oe_OccurredAt b) (filter (\<lambda>e. oe_RuleID e = rid) (os_events s))"

text \<open>What \<open>Prune\<close> deletes of the two tables: rules that are disabled and old, and old events.\<close>

definition prune_rule :: "time \<Rightarrow> int \<Rightarrow> OnlineRule \<Rightarrow> bool" where
  "prune_rule now cutoff r =
     (\<not> or_Enabled r \<and> (case or_ExpiresAt r of None \<Rightarrow> False | Some t \<Rightarrow> unixMilli now t < cutoff))"

definition prune_online :: "time \<Rightarrow> int \<Rightarrow> OnlineStore \<Rightarrow> OnlineStore" where
  "prune_online now cutoff s =
     \<lparr>os_rules = filter (\<lambda>r. \<not> prune_rule now cutoff r) (os_rules s),
      os_events = filter (\<lambda>e. \<not> unixMilli now (oe_OccurredAt e) < cutoff) (os_events s)\<rparr>"

section \<open>What the operations do to the enabled rules\<close>

definition store_ok :: "OnlineStore \<Rightarrow> bool" where
  "store_ok s \<longleftrightarrow> distinct (map or_RuleID (os_rules s))"

definition live_rules :: "OnlineStore \<Rightarrow> OnlineRule set" where
  "live_rules s = {r \<in> set (os_rules s). or_Enabled r}"

lemma find_rule_None: "find_rule rid s = None \<longleftrightarrow> rid \<notin> or_RuleID ` set (os_rules s)"
  by (auto simp: find_rule_def find_None_iff)

lemma stored_rule_fields [simp]:
  "or_RuleID (stored_rule now r) = or_RuleID r" "or_Enabled (stored_rule now r) = or_Enabled r"
  "or_Priority (stored_rule now r) = or_Priority r" "or_Action (stored_rule now r) = or_Action r"
  by (simp_all add: stored_rule_def)

lemma create_live:
  "store_ok s \<Longrightarrow> CreateOnlineRule db uuid now r ev s = (None, s') \<Longrightarrow>
   store_ok s' \<and> or_RuleID r \<notin> or_RuleID ` set (os_rules s) \<and>
   live_rules s' = (if or_Enabled r then insert (stored_rule now r) (live_rules s) else live_rules s)"
  by (auto simp: CreateOnlineRule_def store_ok_def live_rules_def find_rule_None Let_def split: if_splits option.splits)

lemma delete_live:
  "store_ok s \<Longrightarrow> DeleteOnlineRule db uuid now rid ev s = (None, s') \<Longrightarrow>
   store_ok s' \<and> live_rules s' = {r \<in> live_rules s. or_RuleID r \<noteq> rid}"
  by (auto simp: DeleteOnlineRule_def store_ok_def live_rules_def Let_def distinct_map_filter
      split: if_splits option.splits)

lemma disable_ids [simp]:
  "map or_RuleID (map (\<lambda>r. if or_RuleID r = rid then r\<lparr>or_Enabled := b, or_ExpiresAt := e, or_UpdatedAt := u\<rparr> else r) rs) = map or_RuleID rs"
  "map or_RuleID (map (\<lambda>r. if or_RuleID r = rid then r\<lparr>or_Enabled := b, or_UpdatedAt := u\<rparr> else r) rs) = map or_RuleID rs"
  by (induction rs) auto

lemma expire_live:
  "store_ok s \<Longrightarrow> ExpireOnlineRule db uuid now rid ev s = (None, s') \<Longrightarrow>
   store_ok s' \<and> live_rules s' = {r \<in> live_rules s. or_RuleID r \<noteq> rid}"
proof -
  assume ok: "store_ok s" and c: "ExpireOnlineRule db uuid now rid ev s = (None, s')"
  then have rs: "os_rules s' = map (\<lambda>r. if or_RuleID r = rid then r\<lparr>or_Enabled := False,
      or_ExpiresAt := Some (stored_time now now), or_UpdatedAt := stored_time now now\<rparr> else r) (os_rules s)"
    by (auto simp: ExpireOnlineRule_def Let_def split: if_splits option.splits)
  have "map or_RuleID (os_rules s') = map or_RuleID (os_rules s)" unfolding rs by (rule disable_ids)
  moreover have "live_rules s' = {r \<in> live_rules s. or_RuleID r \<noteq> rid}" unfolding live_rules_def rs by auto
  ultimately show ?thesis using ok by (simp add: store_ok_def)
qed

lemma expire_rows_live:
  "store_ok s \<Longrightarrow> expire_rows now due s = Some s' \<Longrightarrow>
   store_ok s' \<and> live_rules s' = {r \<in> live_rules s. or_RuleID r \<notin> (or_RuleID \<circ> snd) ` set due}"
proof (induction now due s rule: expire_rows.induct)
  case (2 now uuid rule due s)
  let ?s = "\<lambda>evs. s\<lparr>os_rules := map (\<lambda>r. if or_RuleID r = or_RuleID rule
      then r\<lparr>or_Enabled := False, or_UpdatedAt := stored_time now now\<rparr> else r) (os_rules s), os_events := evs\<rparr>"
  obtain evs where evs: "expire_rows now due (?s evs) = Some s'" 
    and ins: "insertOnlineRuleEventTx uuid now \<lparr>oe_EventID = [], oe_RuleID = or_RuleID rule, oe_Operation = ''expire'', oe_Action = [], oe_Actor = ''system'',
              oe_Reason = ''ttl expired'', oe_TicketRef = [], oe_OccurredAt = now\<rparr> (or_Action rule) (os_events s) = Some evs"
    using "2.prems"(2) by (auto split: option.splits)
  have ok: "store_ok (?s evs)" using "2.prems"(1) by (simp add: store_ok_def del: map_map)
  have "live_rules (?s evs) = {r \<in> live_rules s. or_RuleID r \<noteq> or_RuleID rule}"
    by (auto simp: live_rules_def)
  with "2.IH" [OF ins ok evs] show ?case by auto
qed auto

lemma due_live:
  assumes "store_ok s" and "ExpireDueOnlineRules db uuids now s = (Inr rules, s')"
  shows "store_ok s' \<and> live_rules s' = {r \<in> live_rules s. or_RuleID r \<notin> or_RuleID ` set rules}"
proof -
  from assms(2) have r: "rules = filter (row_due now) (os_rules s)"
    "expire_rows now (zip (map uuids [0..<length rules]) rules) s = Some s'"
    by (auto simp: ExpireDueOnlineRules_def Let_def split: if_splits option.splits)
  have "(or_RuleID \<circ> snd) ` set (zip (map uuids [0..<length rules]) rules) = or_RuleID ` set rules"
    by (metis image_comp length_map length_upt minus_nat.diff_0 map_snd_zip set_map)
  with expire_rows_live [OF assms(1) r(2)] show ?thesis by simp
qed

lemma prune_live:
  "store_ok s \<Longrightarrow> store_ok (prune_online now cutoff s)" "live_rules (prune_online now cutoff s) = live_rules s"
  by (auto simp: prune_online_def store_ok_def live_rules_def prune_rule_def distinct_map_filter)

lemma store_errors_keep:
  "CreateOnlineRule db uuid now r ev s = (Some e, s') \<Longrightarrow> s' = s"
  "DeleteOnlineRule db uuid now rid ev s = (Some e, s') \<Longrightarrow> s' = s"
  "ExpireOnlineRule db uuid now rid ev s = (Some e, s') \<Longrightarrow> s' = s"
  "ExpireDueOnlineRules db uuids now s = (Inl e, s') \<Longrightarrow> s' = s"
  by (auto simp: CreateOnlineRule_def DeleteOnlineRule_def ExpireOnlineRule_def ExpireDueOnlineRules_def Let_def
      split: if_splits option.splits)

section \<open>The order of the rules\<close>

definition rule_key :: "OnlineRule \<Rightarrow> int \<times> int \<times> nat list" where
  "rule_key r = (- or_Priority r, or_CreatedAt r, map of_char (or_RuleID r))"

lemma rule_before_key: "rule_before a b \<longleftrightarrow> rule_key a < rule_key b"
  by (auto simp: rule_before_def rule_key_def str_less_def time_before_def less_prod_def')

interpretation rule_order: strict_weak rule_before "\<lambda>_. True"
  by unfold_locales (auto simp: rule_before_key)

end
