(* ===== verification/OnlineRules.thy ===== *)
theory OnlineRules
  imports OnlineStore Flow
begin

text \<open>
  The online rules of \<open>internal/policy/online_*.go\<close>: the request model and its validation
  (\<open>online_model.go\<close>, \<open>online_validator.go\<close>), the compilation of stored rules and their
  matching (\<open>online_matcher.go\<close>), and the provider that keeps a sorted snapshot in memory in
  step with the durable store (\<open>online_provider.go\<close>).

  The catalogue of upstreams is the argument \<open>avail\<close> of the operations that ask for it, so it
  may change between them; \<open>None\<close> is the missing callback. Identifiers of \<open>uuid.NewString\<close>
  and the lengths of the rendered JSON texts are arguments too. Texts are valid UTF-8.
\<close>

section \<open>Requests\<close>

record OnlineMatcher =
  om_SourceCIDR :: string
  om_SourceIP :: string
  om_Protocol :: string
  om_Port :: "int option"

record OnlineParams =
  opr_LimitBPS :: uint64
  opr_Upstream :: string

record OnlineRuleSpec =
  sp_RuleID :: string
  sp_Action :: string
  sp_Matcher :: OnlineMatcher
  sp_Params :: OnlineParams
  sp_Priority :: int
  sp_TTL :: duration
  sp_Reason :: string
  sp_TicketRef :: string
  sp_CreatedBy :: string
  sp_Source :: string

definition MaxOnlineRuleTTL :: duration where "MaxOnlineRuleTTL = 24 * hour"
definition MaxOnlineRules :: int where "MaxOnlineRules = 10000"
definition MaxOnlineRuleID :: nat where "MaxOnlineRuleID = 128"
definition MaxOnlineReason :: nat where "MaxOnlineReason = 1024"
definition MaxOnlineTicket :: nat where "MaxOnlineTicket = 128"
definition MaxOnlineUpstream :: nat where "MaxOnlineUpstream = 128"
definition MaxOnlineMatcherJSON :: nat where "MaxOnlineMatcherJSON = 4096"
definition MaxOnlineParamsJSON :: nat where "MaxOnlineParamsJSON = 4096"
definition MinOnlinePriority :: int where "MinOnlinePriority = - 100000"
definition MaxOnlinePriority :: int where "MaxOnlinePriority = 100000"

datatype online_error =
    TextTooLong | BadPriority | BadAction | BadTTL | EmptyMatcher | SourceExclusive | BadSourceCIDR | BadSourceIP
  | BadProtocol | BadPort | DenyParams | RateLimitParams | RouteOverrideParams
  | MatcherTooLarge | ParamsTooLarge | BadStoredMatcher | BadStoredParams | BadStoredCIDR | BadStoredIP
  | ErrOnlineRuleCapacity | StoreFailed store_error

text \<open>\<open>len([]rune(value))\<close>: the bytes that are not continuation bytes.\<close>

definition rune_count :: "string \<Rightarrow> nat" where
  "rune_count s = length (filter (\<lambda>c. \<not> (0x80 \<le> (of_char c :: nat) \<and> of_char c \<le> (0xBF :: nat))) s)"

definition validateOnlineText :: "string \<Rightarrow> nat \<Rightarrow> bool" where
  "validateOnlineText value maxlen \<longleftrightarrow> rune_count value \<le> maxlen"

definition normalizeMatcher :: "OnlineMatcher \<Rightarrow> OnlineMatcher" where
  "normalizeMatcher m =
     (let cidr = TrimSpace (om_SourceCIDR m); ip = TrimSpace (om_SourceIP m)
      in m\<lparr>om_SourceCIDR := (if cidr = [] then cidr
                             else case ParsePrefix cidr of None \<Rightarrow> cidr | Some p \<Rightarrow> prefix_text (masked p)),
           om_SourceIP := (if ip = [] then ip else case ParseAddr ip of None \<Rightarrow> ip | Some a \<Rightarrow> addr_text (unmap a)),
           om_Protocol := ToLower (TrimSpace (om_Protocol m))\<rparr>)"

definition check_action :: "string \<Rightarrow> OnlineParams \<Rightarrow> online_error option" where
  "check_action action params =
     (if action = ''deny'' then (if opr_LimitBPS params \<noteq> 0 \<or> opr_Upstream params \<noteq> [] then Some DenyParams else None)
      else if action = ''rate_limit'' then
        (if opr_LimitBPS params = 0 \<or> opr_Upstream params \<noteq> [] then Some RateLimitParams else None)
      else if action = ''route_override'' then
        (if TrimSpace (opr_Upstream params) = [] \<or> opr_LimitBPS params \<noteq> 0 then Some RouteOverrideParams else None)
      else None)"

definition ValidateOnlineRuleSpec :: "OnlineRuleSpec \<Rightarrow> online_error option" where
  "ValidateOnlineRuleSpec spec =
     (let action = ToLower (TrimSpace (sp_Action spec)); m = normalizeMatcher (sp_Matcher spec)
      in if \<not> validateOnlineText (sp_RuleID spec) MaxOnlineRuleID \<or> \<not> validateOnlineText (sp_Reason spec) MaxOnlineReason \<or>
            \<not> validateOnlineText (sp_TicketRef spec) MaxOnlineTicket \<or>
            \<not> validateOnlineText (opr_Upstream (sp_Params spec)) MaxOnlineUpstream then Some TextTooLong
         else if sp_Priority spec < MinOnlinePriority \<or> sp_Priority spec > MaxOnlinePriority then Some BadPriority
         else if action \<noteq> ''deny'' \<and> action \<noteq> ''rate_limit'' \<and> action \<noteq> ''route_override'' then Some BadAction
         else if sp_TTL spec \<le> 0 \<or> sp_TTL spec > MaxOnlineRuleTTL then Some BadTTL
         else if om_SourceCIDR m = [] \<and> om_SourceIP m = [] \<and> om_Protocol m = [] \<and> om_Port m = None then Some EmptyMatcher
         else if om_SourceCIDR m \<noteq> [] \<and> om_SourceIP m \<noteq> [] then Some SourceExclusive
         else if om_SourceCIDR m \<noteq> [] \<and> ParsePrefix (om_SourceCIDR m) = None then Some BadSourceCIDR
         else if om_SourceIP m \<noteq> [] \<and> ParseAddr (om_SourceIP m) = None then Some BadSourceIP
         else if om_Protocol m \<noteq> [] \<and> om_Protocol m \<noteq> ''tcp'' \<and> om_Protocol m \<noteq> ''udp'' then Some BadProtocol
         else if (case om_Port m of None \<Rightarrow> False | Some p \<Rightarrow> p < 1 \<or> p > 65535) then Some BadPort
         else check_action action (sp_Params spec))"

text \<open>Rendering with \<open>omitempty\<close>, and decoding over a value that is already there.\<close>

definition marshal_matcher :: "OnlineMatcher \<Rightarrow> matcher_json" where
  "marshal_matcher m =
     \<lparr>mj_SourceCIDR = (if om_SourceCIDR m = [] then None else Some (om_SourceCIDR m)),
      mj_SourceIP = (if om_SourceIP m = [] then None else Some (om_SourceIP m)),
      mj_Protocol = (if om_Protocol m = [] then None else Some (om_Protocol m)),
      mj_Port = (case om_Port m of None \<Rightarrow> None | Some p \<Rightarrow> Some (Some p))\<rparr>"

definition marshal_params :: "OnlineParams \<Rightarrow> params_json" where
  "marshal_params p =
     \<lparr>pj_LimitBPS = (if opr_LimitBPS p = 0 then None else Some (opr_LimitBPS p)),
      pj_Upstream = (if opr_Upstream p = [] then None else Some (opr_Upstream p))\<rparr>"

definition unmarshal_matcher :: "matcher_json \<Rightarrow> OnlineMatcher \<Rightarrow> OnlineMatcher" where
  "unmarshal_matcher j m =
     \<lparr>om_SourceCIDR = (case mj_SourceCIDR j of None \<Rightarrow> om_SourceCIDR m | Some s \<Rightarrow> s),
      om_SourceIP = (case mj_SourceIP j of None \<Rightarrow> om_SourceIP m | Some s \<Rightarrow> s),
      om_Protocol = (case mj_Protocol j of None \<Rightarrow> om_Protocol m | Some s \<Rightarrow> s),
      om_Port = (case mj_Port j of None \<Rightarrow> om_Port m | Some p \<Rightarrow> p)\<rparr>"

definition unmarshal_params :: "params_json \<Rightarrow> OnlineParams" where
  "unmarshal_params j =
     \<lparr>opr_LimitBPS = (case pj_LimitBPS j of None \<Rightarrow> 0 | Some n \<Rightarrow> n),
      opr_Upstream = (case pj_Upstream j of None \<Rightarrow> [] | Some s \<Rightarrow> s)\<rparr>"

definition legacyMatcherFields :: "OnlineMatcher \<Rightarrow> string \<times> string" where
  "legacyMatcherFields m =
     (if om_SourceCIDR m \<noteq> [] then (''source_cidr'', om_SourceCIDR m)
      else if om_SourceIP m \<noteq> [] then (''source_ip'', om_SourceIP m)
      else if om_Protocol m \<noteq> [] then (''protocol'', om_Protocol m)
      else case om_Port m of Some p \<Rightarrow> (''port'', Itoa p) | None \<Rightarrow> ([], []))"

record build_lib =
  bl_matcher_len :: "matcher_json \<Rightarrow> nat"
  bl_params_len :: "params_json \<Rightarrow> nat"

definition BuildOnlineRule :: "build_lib \<Rightarrow> string \<Rightarrow> OnlineRuleSpec \<Rightarrow> time \<Rightarrow> online_error + OnlineRule" where
  "BuildOnlineRule lib uuid spec now =
     (case ValidateOnlineRuleSpec spec of
        Some e \<Rightarrow> Inl e
      | None \<Rightarrow>
          let rid = TrimSpace (sp_RuleID spec); m = normalizeMatcher (sp_Matcher spec);
              mj = marshal_matcher m; pj = marshal_params (sp_Params spec); (rtype, rvalue) = legacyMatcherFields m
          in if bl_matcher_len lib mj > MaxOnlineMatcherJSON then Inl MatcherTooLarge
             else if bl_params_len lib pj > MaxOnlineParamsJSON then Inl ParamsTooLarge
             else Inr \<lparr>or_RuleID = (if rid = [] then ''online-'' @ uuid else rid), or_Version = ''1'',
                       or_Action = ToLower (TrimSpace (sp_Action spec)), or_RuleType = rtype, or_RuleValue = rvalue,
                       or_Protocol = om_Protocol m, or_Port = om_Port m, or_Priority = sp_Priority spec, or_Enabled = True,
                       or_ExpiresAt = Some (time_add now (sp_TTL spec)),
                       or_Source = (if sp_Source spec = [] then ''online'' else sp_Source spec),
                       or_CreatedBy = sp_CreatedBy spec, or_Reason = TrimSpace (sp_Reason spec),
                       or_TicketRef = TrimSpace (sp_TicketRef spec), or_MatcherJSON = JSON mj, or_ParamsJSON = JSON pj,
                       or_PayloadJSON = JSON pj, or_CreatedAt = now, or_UpdatedAt = now\<rparr>)"

section \<open>Compiled rules\<close>

record runtimeOnlineRule =
  rr_Stored :: OnlineRule
  rr_Matcher :: OnlineMatcher
  rr_Params :: OnlineParams
  rr_SourceCIDR :: "ip_prefix option"
  rr_SourceIP :: "addr option"
  rr_Available :: bool
  rr_UnavailableReason :: string

type_synonym upstream_catalogue = "(string \<Rightarrow> bool) option"

text \<open>The action's parameters: the \<open>params_json\<close> column, else the older \<open>payload_json\<close>.\<close>

definition stored_params :: "OnlineRule \<Rightarrow> OnlineParams option" where
  "stored_params r =
     (case (if or_ParamsJSON r = NoJSON then or_PayloadJSON r else or_ParamsJSON r) of
        NoJSON \<Rightarrow> Some \<lparr>opr_LimitBPS = 0, opr_Upstream = []\<rparr>
      | BadJSON \<Rightarrow> None
      | JSON j \<Rightarrow> Some (unmarshal_params j))"

definition unavailableReason :: "OnlineRule \<Rightarrow> upstream_catalogue \<Rightarrow> string" where
  "unavailableReason r avail =
     (if or_Action r \<noteq> ''route_override'' then []
      else case avail of
             None \<Rightarrow> []
           | Some f \<Rightarrow>
               (case stored_params r of
                  None \<Rightarrow> ''invalid route override parameters''
                | Some p \<Rightarrow> if opr_Upstream p = [] \<or> \<not> f (opr_Upstream p) then ''upstream is not configured'' else []))"

definition stored_matcher :: "OnlineRule \<Rightarrow> OnlineMatcher option" where
  "stored_matcher r =
     (let base = \<lparr>om_SourceCIDR = [], om_SourceIP = [], om_Protocol = ToLower (TrimSpace (or_Protocol r)), om_Port = or_Port r\<rparr>
      in case or_MatcherJSON r of
           BadJSON \<Rightarrow> None
         | JSON j \<Rightarrow> Some (unmarshal_matcher j base)
         | NoJSON \<Rightarrow>
             Some (if or_RuleType r = ''cidr'' \<or> or_RuleType r = ''source_cidr'' then base\<lparr>om_SourceCIDR := or_RuleValue r\<rparr>
                   else if or_RuleType r = ''ip'' \<or> or_RuleType r = ''source_ip'' then base\<lparr>om_SourceIP := or_RuleValue r\<rparr>
                   else base))"

definition compileStoredRule :: "OnlineRule \<Rightarrow> upstream_catalogue \<Rightarrow> online_error + runtimeOnlineRule" where
  "compileStoredRule r avail =
     (case stored_matcher r of
        None \<Rightarrow> Inl BadStoredMatcher
      | Some m0 \<Rightarrow>
          (case stored_params r of
             None \<Rightarrow> Inl BadStoredParams
           | Some params \<Rightarrow>
               let m = normalizeMatcher m0; reason = unavailableReason r avail;
                   cidr = (if om_SourceCIDR m = [] then None else ParsePrefix (om_SourceCIDR m));
                   ip = (if om_SourceIP m = [] then None else ParseAddr (om_SourceIP m))
               in if om_SourceCIDR m \<noteq> [] \<and> cidr = None then Inl BadStoredCIDR
                  else if om_SourceIP m \<noteq> [] \<and> ip = None then Inl BadStoredIP
                  else Inr \<lparr>rr_Stored = r, rr_Matcher = m, rr_Params = params, rr_SourceCIDR = map_option masked cidr,
                            rr_SourceIP = map_option unmap ip, rr_Available = (reason = []), rr_UnavailableReason = reason\<rparr>))"

definition sortRuntimeRules :: "runtimeOnlineRule list \<Rightarrow> runtimeOnlineRule list" where
  "sortRuntimeRules rules = stable_sort (\<lambda>a b. rule_before (rr_Stored a) (rr_Stored b)) rules"

fun compile_all :: "OnlineRule list \<Rightarrow> upstream_catalogue \<Rightarrow> online_error + runtimeOnlineRule list" where
  "compile_all [] avail = Inr []"
| "compile_all (r # rs) avail =
     (case compileStoredRule r avail of
        Inl e \<Rightarrow> Inl e
      | Inr c \<Rightarrow> (case compile_all rs avail of Inl e \<Rightarrow> Inl e | Inr cs \<Rightarrow> Inr (c # cs)))"

definition compileStoredRules :: "OnlineRule list \<Rightarrow> upstream_catalogue \<Rightarrow> online_error + runtimeOnlineRule list" where
  "compileStoredRules rs avail = map_sum id sortRuntimeRules (compile_all rs avail)"

text \<open>
  \<open>listenerPort\<close>: \<open>Sscanf\<close> with \<open>%d\<close> reads a sign and the digits after the last colon and
  ignores what follows; without digits the port is 0.
\<close>

definition listenerPort :: "string \<Rightarrow> int" where
  "listenerPort listener =
     (case cut_last CHR '':'' listener of
        None \<Rightarrow> 0
      | Some (_, s0) \<Rightarrow>
          let s = dropWhile is_space s0;
              neg = (s \<noteq> [] \<and> hd s = CHR ''-'');
              body = (if s \<noteq> [] \<and> (hd s = CHR ''-'' \<or> hd s = CHR ''+'') then tl s else s);
              v = int (digits_value (takeWhile is_digit body))
          in if v \<ge> 2 ^ 63 then 0 else if neg then - v else v)"

definition matchesOnlineRule :: "runtimeOnlineRule \<Rightarrow> Meta \<Rightarrow> bool" where
  "matchesOnlineRule r meta \<longleftrightarrow>
     rr_Available r \<and>
     (om_Protocol (rr_Matcher r) = [] \<or> om_Protocol (rr_Matcher r) = meta_Protocol meta) \<and>
     (case om_Port (rr_Matcher r) of
        None \<Rightarrow> True
      | Some p \<Rightarrow> listenerPort (meta_Listener meta) \<noteq> 0 \<and> listenerPort (meta_Listener meta) = p) \<and>
     (case rr_SourceCIDR r of None \<Rightarrow> True | Some pfx \<Rightarrow> prefix_contains pfx (unmap (ap_addr (meta_ClientAddr meta)))) \<and>
     (case rr_SourceIP r of None \<Rightarrow> True | Some a \<Rightarrow> a = unmap (ap_addr (meta_ClientAddr meta)))"

record OnlineEvaluation =
  ev_Matched :: bool
  ev_Allowed :: bool
  ev_RuleID :: string
  ev_RuleType :: string
  ev_RuleValue :: string
  ev_Action :: string
  ev_RateLimitBPS :: uint64
  ev_UpstreamOverride :: string

definition no_evaluation :: "bool \<Rightarrow> OnlineEvaluation" where
  "no_evaluation allowed = \<lparr>ev_Matched = False, ev_Allowed = allowed, ev_RuleID = [], ev_RuleType = [], ev_RuleValue = [],
     ev_Action = [], ev_RateLimitBPS = 0, ev_UpstreamOverride = []\<rparr>"

definition evaluationFromRule :: "runtimeOnlineRule \<Rightarrow> bool \<Rightarrow> OnlineEvaluation" where
  "evaluationFromRule r allowed =
     \<lparr>ev_Matched = True, ev_Allowed = allowed, ev_RuleID = or_RuleID (rr_Stored r), ev_RuleType = or_RuleType (rr_Stored r),
      ev_RuleValue = or_RuleValue (rr_Stored r), ev_Action = or_Action (rr_Stored r),
      ev_RateLimitBPS = opr_LimitBPS (rr_Params r), ev_UpstreamOverride = opr_Upstream (rr_Params r)\<rparr>"

section \<open>The provider\<close>

record OnlineProviderStatus =
  ost_ActiveRules :: nat
  ost_LastError :: "store_error option"
  ost_LastExpiryAt :: time
  ost_ExpiryErrorsTotal :: uint64

record OnlineProvider =
  op_store :: OnlineStore
  op_maxRules :: int
  op_current :: "runtimeOnlineRule list"
  op_status :: OnlineProviderStatus

definition storeSnapshot :: "runtimeOnlineRule list \<Rightarrow> OnlineProvider \<Rightarrow> OnlineProvider" where
  "storeSnapshot rules p = p\<lparr>op_current := sortRuntimeRules rules\<rparr>"

definition setActiveRules :: "nat \<Rightarrow> OnlineProvider \<Rightarrow> OnlineProvider" where
  "setActiveRules n p = p\<lparr>op_status := (op_status p)\<lparr>ost_ActiveRules := n\<rparr>\<rparr>"

definition setExpiryAt :: "time \<Rightarrow> OnlineProvider \<Rightarrow> OnlineProvider" where
  "setExpiryAt at_time p = p\<lparr>op_status := (op_status p)\<lparr>ost_LastExpiryAt := at_time, ost_LastError := None\<rparr>\<rparr>"

definition recordExpiryError :: "store_error \<Rightarrow> OnlineProvider \<Rightarrow> OnlineProvider" where
  "recordExpiryError e p =
     p\<lparr>op_status := (op_status p)\<lparr>ost_LastError := Some e, ost_ExpiryErrorsTotal := ost_ExpiryErrorsTotal (op_status p) + 1\<rparr>\<rparr>"

definition install_rules :: "runtimeOnlineRule list \<Rightarrow> OnlineProvider \<Rightarrow> OnlineProvider" where
  "install_rules rules p = setActiveRules (length rules) (storeSnapshot rules p)"

definition Online_Refresh :: "bool \<Rightarrow> time \<Rightarrow> upstream_catalogue \<Rightarrow> OnlineProvider \<Rightarrow> online_error option \<times> OnlineProvider" where
  "Online_Refresh db now avail p =
     (case ListOnlineRules db now False (op_store p) of
        Inl e \<Rightarrow> (Some (StoreFailed e), p)
      | Inr rules \<Rightarrow>
          (case compileStoredRules rules avail of
             Inl e \<Rightarrow> (Some e, p)
           | Inr compiled \<Rightarrow> (None, install_rules compiled p)))"

definition NewOnlineProvider ::
    "OnlineStore \<Rightarrow> int \<Rightarrow> bool \<Rightarrow> time \<Rightarrow> upstream_catalogue \<Rightarrow> online_error + OnlineProvider" where
  "NewOnlineProvider s maxRules db now avail =
     (let p = \<lparr>op_store = s, op_maxRules = (if maxRules \<le> 0 then MaxOnlineRules else maxRules), op_current = [],
               op_status = \<lparr>ost_ActiveRules = 0, ost_LastError = None, ost_LastExpiryAt = 0, ost_ExpiryErrorsTotal = 0\<rparr>\<rparr>
      in case Online_Refresh db now avail p of (Some e, _) \<Rightarrow> Inl e | (None, p') \<Rightarrow> Inr p')"

definition unexpired :: "time \<Rightarrow> OnlineRule \<Rightarrow> bool" where
  "unexpired now r = (case or_ExpiresAt r of None \<Rightarrow> True | Some t \<Rightarrow> time_after t now)"

definition Online_Create ::
    "bool \<Rightarrow> string \<Rightarrow> time \<Rightarrow> upstream_catalogue \<Rightarrow> OnlineRule \<Rightarrow> OnlineRuleEvent \<Rightarrow> OnlineProvider \<Rightarrow>
     online_error option \<times> OnlineProvider" where
  "Online_Create db uuid now avail rule ev p =
     (case compileStoredRule rule avail of
        Inl e \<Rightarrow> (Some e, p)
      | Inr compiled \<Rightarrow>
          if int (count_if (\<lambda>r. unexpired now (rr_Stored r)) (op_current p)) \<ge> op_maxRules p then (Some ErrOnlineRuleCapacity, p)
          else (case CreateOnlineRule db uuid now rule ev (op_store p) of
                  (Some e, s) \<Rightarrow> (Some (StoreFailed e), p\<lparr>op_store := s\<rparr>)
                | (None, s) \<Rightarrow> (None, install_rules (op_current p @ [compiled]) (p\<lparr>op_store := s\<rparr>))))"

definition Online_Delete ::
    "bool \<Rightarrow> string \<Rightarrow> time \<Rightarrow> string \<Rightarrow> OnlineRuleEvent \<Rightarrow> OnlineProvider \<Rightarrow> online_error option \<times> OnlineProvider" where
  "Online_Delete db uuid now rid ev p =
     (case DeleteOnlineRule db uuid now rid ev (op_store p) of
        (Some e, s) \<Rightarrow> (Some (StoreFailed e), p\<lparr>op_store := s\<rparr>)
      | (None, s) \<Rightarrow>
          (None, install_rules (filter (\<lambda>r. or_RuleID (rr_Stored r) \<noteq> rid) (op_current p)) (p\<lparr>op_store := s\<rparr>)))"

definition Online_Expire ::
    "bool \<Rightarrow> string \<Rightarrow> time \<Rightarrow> string \<Rightarrow> OnlineRuleEvent \<Rightarrow> OnlineProvider \<Rightarrow> online_error option \<times> OnlineProvider" where
  "Online_Expire db uuid now rid ev p =
     (case ExpireOnlineRule db uuid now rid ev (op_store p) of
        (Some e, s) \<Rightarrow> (Some (StoreFailed e), p\<lparr>op_store := s\<rparr>)
      | (None, s) \<Rightarrow>
          (None, setExpiryAt now
             (install_rules (filter (\<lambda>r. or_RuleID (rr_Stored r) \<noteq> rid) (op_current p)) (p\<lparr>op_store := s\<rparr>))))"

definition expireDue :: "bool \<Rightarrow> (nat \<Rightarrow> string) \<Rightarrow> time \<Rightarrow> OnlineProvider \<Rightarrow> OnlineProvider" where
  "expireDue db uuids now p =
     (case ExpireDueOnlineRules db uuids now (op_store p) of
        (Inl e, s) \<Rightarrow> recordExpiryError e (p\<lparr>op_store := s\<rparr>)
      | (Inr rules, s) \<Rightarrow>
          if rules = [] then p\<lparr>op_store := s\<rparr>
          else setExpiryAt now
             (install_rules (filter (\<lambda>r. or_RuleID (rr_Stored r) \<notin> set (map or_RuleID rules)) (op_current p)) (p\<lparr>op_store := s\<rparr>)))"

definition isRuleAvailable :: "upstream_catalogue \<Rightarrow> runtimeOnlineRule \<Rightarrow> bool" where
  "isRuleAvailable avail r \<longleftrightarrow> rr_Available r \<or> (avail \<noteq> None \<and> unavailableReason (rr_Stored r) avail = [])"

definition matchingRules :: "time \<Rightarrow> upstream_catalogue \<Rightarrow> OnlineProvider \<Rightarrow> Meta \<Rightarrow> bool \<Rightarrow> runtimeOnlineRule list" where
  "matchingRules now avail p meta denyOnly =
     map (\<lambda>r. r\<lparr>rr_Available := True\<rparr>)
       (filter (\<lambda>r. unexpired now (rr_Stored r) \<and> isRuleAvailable avail r \<and>
                    (or_Action (rr_Stored r) = ''deny'') = denyOnly \<and> matchesOnlineRule (r\<lparr>rr_Available := True\<rparr>) meta)
          (op_current p))"

definition DecideDeny :: "time \<Rightarrow> upstream_catalogue \<Rightarrow> OnlineProvider \<Rightarrow> Meta \<Rightarrow> OnlineEvaluation" where
  "DecideDeny now avail p meta =
     (case matchingRules now avail p meta True of [] \<Rightarrow> no_evaluation True | r # _ \<Rightarrow> evaluationFromRule r False)"

definition DecideAction :: "time \<Rightarrow> upstream_catalogue \<Rightarrow> OnlineProvider \<Rightarrow> Meta \<Rightarrow> OnlineEvaluation" where
  "DecideAction now avail p meta =
     (case matchingRules now avail p meta False of [] \<Rightarrow> no_evaluation True | r # _ \<Rightarrow> evaluationFromRule r True)"

definition Online_Evaluate :: "time \<Rightarrow> upstream_catalogue \<Rightarrow> OnlineProvider \<Rightarrow> Meta \<Rightarrow> bool \<Rightarrow> OnlineEvaluation" where
  "Online_Evaluate now avail p meta persistentAllowed =
     (let deny = DecideDeny now avail p meta; action = DecideAction now avail p meta
      in if ev_Matched deny then deny
         else if \<not> persistentAllowed then no_evaluation False
         else if ev_Matched action then action
         else no_evaluation True)"

definition RuleState :: "upstream_catalogue \<Rightarrow> OnlineRule \<Rightarrow> time \<Rightarrow> string \<times> string" where
  "RuleState avail rule now =
     (if \<not> or_Enabled rule then (''disabled'', [])
      else if \<not> unexpired now rule then (''expired'', [])
      else let reason = unavailableReason rule avail
           in if reason \<noteq> [] then (''unavailable'', reason) else (''active'', []))"

section \<open>Memory and store\<close>

text \<open>
  What the provider relies on. A rule as the database keeps it (\<open>saved\<close>) has its times at
  millisecond resolution; \<open>agrees\<close> relates a list of rules in memory to the enabled rules of
  a store.
\<close>

definition saved :: "OnlineRule \<Rightarrow> OnlineRule" where
  "saved r = stored_rule 0 r"

definition times_set :: "OnlineRule \<Rightarrow> bool" where
  "times_set r \<longleftrightarrow> or_CreatedAt r \<noteq> 0 \<and> or_UpdatedAt r \<noteq> 0 \<and> or_ExpiresAt r \<noteq> Some 0"

definition agrees :: "OnlineRule list \<Rightarrow> OnlineRule set \<Rightarrow> bool" where
  "agrees snap live \<longleftrightarrow> distinct (map or_RuleID snap) \<and> saved ` set snap = saved ` live"

lemma saved_id [simp]: "or_RuleID (saved r) = or_RuleID r"
  by (simp add: saved_def)

lemma agrees_ids: "agrees snap live \<Longrightarrow> or_RuleID ` set snap = or_RuleID ` live"
proof -
  assume "agrees snap live"
  then have "or_RuleID ` saved ` set snap = or_RuleID ` saved ` live" by (simp add: agrees_def)
  then show ?thesis by (simp add: image_image)
qed

lemma saved_filter:
  "saved ` A = saved ` B \<Longrightarrow> saved ` {r \<in> A. P (or_RuleID r)} = saved ` {r \<in> B. P (or_RuleID r)}"
proof -
  have *: "saved ` {r \<in> X. P (or_RuleID r)} = {r \<in> saved ` X. P (or_RuleID r)}" for X by auto
  assume "saved ` A = saved ` B"
  then show ?thesis unfolding * by simp
qed

lemma agrees_filter:
  "agrees snap live \<Longrightarrow> agrees (filter (\<lambda>r. P (or_RuleID r)) snap) {r \<in> live. P (or_RuleID r)}"
  using saved_filter [of "set snap" live P] by (auto simp: agrees_def distinct_map_filter)

lemma stored_time_idem: "stored_time 0 (stored_time now t) = stored_time now t"
proof -
  have "unix_epoch mod millisecond = 0" by (simp add: unix_epoch_def)
  then show ?thesis by (simp add: stored_time_def timeFromMillis_def unixMilli_def defaultTime_def unix_epoch_def)
qed

lemma stored_rule_idem [simp]: "stored_rule 0 (stored_rule now r) = stored_rule now r"
  by (simp add: stored_rule_def stored_time_idem option.map_comp comp_def)

lemma stored_rule_now:
  "or_CreatedAt r \<noteq> 0 \<Longrightarrow> or_UpdatedAt r \<noteq> 0 \<Longrightarrow> or_ExpiresAt r \<noteq> Some 0 \<Longrightarrow> stored_rule now r = stored_rule 0 r"
  by (cases "or_ExpiresAt r") (auto simp: stored_rule_def stored_time_def unixMilli_def defaultTime_def)

locale rule_store =
  fixes ok :: "'s \<Rightarrow> bool" and live :: "'s \<Rightarrow> OnlineRule set"
    and create :: "'a \<Rightarrow> OnlineRule \<Rightarrow> 's \<Rightarrow> 'e option \<times> 's"
    and remove :: "'a \<Rightarrow> string \<Rightarrow> 's \<Rightarrow> 'e option \<times> 's"
    and due :: "'b \<Rightarrow> 's \<Rightarrow> ('e + OnlineRule list) \<times> 's"
  assumes create_ok: "ok s \<Longrightarrow> create a r s = (None, s') \<Longrightarrow> or_Enabled r \<Longrightarrow> times_set r \<Longrightarrow>
      ok s' \<and> live s' = insert (saved r) (live s) \<and> or_RuleID r \<notin> or_RuleID ` live s"
    and create_failed: "create a r s = (Some e, s') \<Longrightarrow> s' = s"
    and remove_ok: "ok s \<Longrightarrow> remove a rid s = (None, s') \<Longrightarrow> ok s' \<and> live s' = {r \<in> live s. or_RuleID r \<noteq> rid}"
    and remove_failed: "remove a rid s = (Some e, s') \<Longrightarrow> s' = s"
    and due_ok: "ok s \<Longrightarrow> due b s = (Inr rules, s') \<Longrightarrow>
      ok s' \<and> live s' = {r \<in> live s. or_RuleID r \<notin> or_RuleID ` set rules}"
    and due_failed: "due b s = (Inl e, s') \<Longrightarrow> s' = s"
begin

text \<open>
  A snapshot that holds the enabled rules but some dormant ones: whatever a call does, the
  snapshot the provider makes of it again holds all but dormant ones, and none becomes dormant.
\<close>

definition follows :: "OnlineRule set \<Rightarrow> OnlineRule list \<Rightarrow> 's \<Rightarrow> bool" where
  "follows D snap s \<longleftrightarrow> ok s \<and> D \<subseteq> live s \<and> agrees snap (live s - D)"

lemma create_follows:
  assumes "follows D snap s" and "create a r s = (res, s')" and "or_Enabled r" and "times_set r"
  shows "follows D (case res of None \<Rightarrow> snap @ [r] | Some _ \<Rightarrow> snap) s'"
proof (cases res)
  case None
  have f: "ok s" "D \<subseteq> live s" "agrees snap (live s - D)" using assms(1) by (auto simp: follows_def)
  have c: "ok s'" "live s' = insert (saved r) (live s)" "or_RuleID r \<notin> or_RuleID ` live s"
    using create_ok [OF f(1) assms(2) [unfolded None] assms(3,4)] by auto
  have "saved r \<notin> D"
  proof
    assume "saved r \<in> D"
    with f(2) have "or_RuleID (saved r) \<in> or_RuleID ` live s" by blast
    with c(3) show False by (simp add: saved_def)
  qed
  then have "live s' - D = insert (saved r) (live s - D)" using c(2) by auto
  moreover have "or_RuleID r \<notin> or_RuleID ` set snap" using agrees_ids [OF f(3)] c(3) by auto
  ultimately show ?thesis using f c None by (auto simp: follows_def agrees_def saved_def)
next
  case (Some e)
  with assms create_failed show ?thesis by fastforce
qed

lemma drop_follows:
  assumes "follows D snap s" and "ok s'" and "live s' = {r \<in> live s. P (or_RuleID r)}"
  shows "follows {r \<in> D. P (or_RuleID r)} (filter (\<lambda>r. P (or_RuleID r)) snap) s'"
proof -
  have "live s' - {r \<in> D. P (or_RuleID r)} = {r \<in> live s - D. P (or_RuleID r)}" using assms(3) by auto
  then show ?thesis using assms agrees_filter [of snap "live s - D" P] by (auto simp: follows_def)
qed

lemma remove_follows:
  assumes "follows D snap s" and "remove a rid s = (res, s')"
  shows "\<exists>D' \<subseteq> D. follows D' (case res of None \<Rightarrow> filter (\<lambda>r. or_RuleID r \<noteq> rid) snap | Some _ \<Rightarrow> snap) s'"
proof (cases res)
  case None
  have "ok s' \<and> live s' = {r \<in> live s. or_RuleID r \<noteq> rid}" using assms None remove_ok by (auto simp: follows_def)
  with drop_follows [OF assms(1), of s' "\<lambda>i. i \<noteq> rid"] None show ?thesis by (intro exI [of _ "{r \<in> D. or_RuleID r \<noteq> rid}"]) auto
next
  case (Some e)
  with assms remove_failed show ?thesis by fastforce
qed

lemma due_follows:
  assumes "follows D snap s" and "due b s = (res, s')"
  shows "\<exists>D' \<subseteq> D. follows D' (case res of Inr rules \<Rightarrow> filter (\<lambda>r. or_RuleID r \<notin> or_RuleID ` set rules) snap | Inl _ \<Rightarrow> snap) s'"
proof (cases res)
  case (Inr rules)
  have "ok s' \<and> live s' = {r \<in> live s. or_RuleID r \<notin> or_RuleID ` set rules}" using assms Inr due_ok by (auto simp: follows_def)
  with drop_follows [OF assms(1), of s' "\<lambda>i. i \<notin> or_RuleID ` set rules"] Inr show ?thesis
    by (intro exI [of _ "{r \<in> D. or_RuleID r \<notin> or_RuleID ` set rules}"]) auto
next
  case (Inl e)
  with assms due_failed show ?thesis by fastforce
qed

end

type_synonym store_args = "bool \<times> string \<times> time \<times> OnlineRuleEvent"

definition store_create :: "store_args \<Rightarrow> OnlineRule \<Rightarrow> OnlineStore \<Rightarrow> store_error option \<times> OnlineStore" where
  "store_create a r s = (case a of (db, uuid, now, ev) \<Rightarrow> CreateOnlineRule db uuid now r ev s)"

definition store_delete :: "store_args \<Rightarrow> string \<Rightarrow> OnlineStore \<Rightarrow> store_error option \<times> OnlineStore" where
  "store_delete a rid s = (case a of (db, uuid, now, ev) \<Rightarrow> DeleteOnlineRule db uuid now rid ev s)"

definition store_expire :: "store_args \<Rightarrow> string \<Rightarrow> OnlineStore \<Rightarrow> store_error option \<times> OnlineStore" where
  "store_expire a rid s = (case a of (db, uuid, now, ev) \<Rightarrow> ExpireOnlineRule db uuid now rid ev s)"

definition store_due :: "bool \<times> (nat \<Rightarrow> string) \<times> time \<Rightarrow> OnlineStore \<Rightarrow> (store_error + OnlineRule list) \<times> OnlineStore" where
  "store_due b s = (case b of (db, uuids, now) \<Rightarrow> ExpireDueOnlineRules db uuids now s)"

lemma live_ids: "x \<in> or_RuleID ` live_rules s \<Longrightarrow> x \<in> or_RuleID ` set (os_rules s)"
  by (auto simp: live_rules_def)

lemma store_create_ok:
  "store_ok s \<Longrightarrow> store_create a r s = (None, s') \<Longrightarrow> or_Enabled r \<Longrightarrow> times_set r \<Longrightarrow>
   store_ok s' \<and> live_rules s' = insert (saved r) (live_rules s) \<and> or_RuleID r \<notin> or_RuleID ` live_rules s"
proof -
  assume ok: "store_ok s" and c: "store_create a r s = (None, s')" and en: "or_Enabled r" and t: "times_set r"
  obtain db uuid now ev where a: "a = (db, uuid, now, ev)" by (cases a)
  have "stored_rule now r = saved r" unfolding saved_def using t by (intro stored_rule_now) (auto simp: times_set_def)
  with create_live [OF ok, of db uuid now r ev s'] c en live_ids [of "or_RuleID r" s] show ?thesis
    by (auto simp: a store_create_def)
qed

interpretation deleting: rule_store store_ok live_rules store_create store_delete store_due
proof unfold_locales
  show "store_ok s' \<and> live_rules s' = insert (saved r) (live_rules s) \<and> or_RuleID r \<notin> or_RuleID ` live_rules s"
    if "store_ok s" "store_create a r s = (None, s')" "or_Enabled r" "times_set r" for s a r s'
    using that by (rule store_create_ok)
  show "store_ok s' \<and> live_rules s' = {r \<in> live_rules s. or_RuleID r \<noteq> rid}"
    if "store_ok s" "store_delete a rid s = (None, s')" for s a rid s'
    using that delete_live by (cases a) (simp add: store_delete_def)
  show "store_ok s' \<and> live_rules s' = {r \<in> live_rules s. or_RuleID r \<notin> or_RuleID ` set rules}"
    if "store_ok s" "store_due b s = (Inr rules, s')" for s b rules s'
    using that due_live by (cases b) (simp add: store_due_def)
qed (auto simp: store_create_def store_delete_def store_due_def dest: store_errors_keep)

interpretation expiring: rule_store store_ok live_rules store_create store_expire store_due
proof unfold_locales
  show "store_ok s' \<and> live_rules s' = insert (saved r) (live_rules s) \<and> or_RuleID r \<notin> or_RuleID ` live_rules s"
    if "store_ok s" "store_create a r s = (None, s')" "or_Enabled r" "times_set r" for s a r s'
    using that by (rule store_create_ok)
  show "store_ok s' \<and> live_rules s' = {r \<in> live_rules s. or_RuleID r \<noteq> rid}"
    if "store_ok s" "store_expire a rid s = (None, s')" for s a rid s'
    using that expire_live by (cases a) (simp add: store_expire_def)
  show "store_ok s' \<and> live_rules s' = {r \<in> live_rules s. or_RuleID r \<notin> or_RuleID ` set rules}"
    if "store_ok s" "store_due b s = (Inr rules, s')" for s b rules s'
    using that due_live by (cases b) (simp add: store_due_def)
qed (auto simp: store_create_def store_expire_def store_due_def dest: store_errors_keep)

text \<open>
  The calls that change the rules, and the retention of the store, which prunes the table
  under the provider; a rule is created from a request.
\<close>

datatype online_op =
    OnCreate bool string string time upstream_catalogue build_lib OnlineRuleSpec OnlineRuleEvent
  | OnDelete bool string time string OnlineRuleEvent
  | OnExpire bool string time string OnlineRuleEvent
  | OnExpireDue bool "nat \<Rightarrow> string" time
  | OnPrune bool time time

fun online_step :: "OnlineProvider \<Rightarrow> online_op \<Rightarrow> OnlineProvider" where
  "online_step p (OnCreate db uuid uuid' now avail lib spec ev) =
     (case BuildOnlineRule lib uuid spec now of
        Inl _ \<Rightarrow> p
      | Inr rule \<Rightarrow> snd (Online_Create db uuid' now avail rule ev p))"
| "online_step p (OnDelete db uuid now rid ev) = snd (Online_Delete db uuid now rid ev p)"
| "online_step p (OnExpire db uuid now rid ev) = snd (Online_Expire db uuid now rid ev p)"
| "online_step p (OnExpireDue db uuids now) = expireDue db uuids now p"
| "online_step p (OnPrune db now olderThan) =
     p\<lparr>op_store := (if db then prune_online now (unixMilli now olderThan) (op_store p) else op_store p)\<rparr>"

text \<open>Requests are stamped with a clock after Go's zero time.\<close>

fun clock_set :: "online_op \<Rightarrow> bool" where
  "clock_set (OnCreate db uuid uuid' now avail lib spec ev) \<longleftrightarrow> 0 < now"
| "clock_set _ \<longleftrightarrow> True"

text \<open>
  The provider holds the enabled rules of the table, but for those whose time had run out
  when it was started at \<open>t0\<close>: they are not read, and stay in the table until they are expired.
\<close>

abbreviation follows_table :: "OnlineRule set \<Rightarrow> OnlineRule list \<Rightarrow> OnlineStore \<Rightarrow> bool" where
  "follows_table \<equiv> rule_store.follows store_ok live_rules"

definition online_inv :: "time \<Rightarrow> OnlineProvider \<Rightarrow> bool" where
  "online_inv t0 p \<longleftrightarrow>
     (\<exists>D. (\<forall>r \<in> D. \<not> row_current t0 r) \<and> follows_table D (map rr_Stored (op_current p)) (op_store p)) \<and>
     sorted_wrt (\<lambda>a b. \<not> rule_before b a) (map rr_Stored (op_current p))"

interpretation runtime_order: strict_weak "\<lambda>a b. rule_before (rr_Stored a) (rr_Stored b)" "\<lambda>_. True"
  by unfold_locales (auto simp: rule_before_key)

lemma install_rules_fields [simp]:
  "op_store (install_rules rules p) = op_store p" "op_maxRules (install_rules rules p) = op_maxRules p"
  "op_current (install_rules rules p) = sortRuntimeRules rules"
  "op_store (setExpiryAt t p) = op_store p" "op_current (setExpiryAt t p) = op_current p"
  "op_store (recordExpiryError e p) = op_store p" "op_current (recordExpiryError e p) = op_current p"
  by (simp_all add: install_rules_def setActiveRules_def storeSnapshot_def setExpiryAt_def recordExpiryError_def)

lemma sort_sorted: "sorted_wrt (\<lambda>a b. \<not> rule_before b a) (map rr_Stored (sortRuntimeRules rules))"
  using runtime_order.sorted_stable_sort [of rules] by (simp add: sortRuntimeRules_def sorted_wrt_map)

lemma agrees_sort:
  "agrees (map rr_Stored (sortRuntimeRules rules)) live = agrees (map rr_Stored rules) live"
proof -
  have m: "mset (map rr_Stored (sortRuntimeRules rules)) = mset (map rr_Stored rules)"
    by (simp add: sortRuntimeRules_def)
  have "distinct (map or_RuleID (map rr_Stored (sortRuntimeRules rules))) = distinct (map or_RuleID (map rr_Stored rules))"
    using m by (metis mset_eq_imp_distinct_iff mset_map)
  moreover have "set (map rr_Stored (sortRuntimeRules rules)) = set (map rr_Stored rules)"
    using m by (rule mset_eq_setD)
  ultimately show ?thesis unfolding agrees_def by presburger
qed

lemma follows_sort:
  "follows_table D (map rr_Stored (sortRuntimeRules rules)) s = follows_table D (map rr_Stored rules) s"
  unfolding deleting.follows_def by (simp add: agrees_sort)

lemma online_inv_install:
  "\<forall>r \<in> D. \<not> row_current t0 r \<Longrightarrow> follows_table D (map rr_Stored rules) s \<Longrightarrow> op_store p = s \<Longrightarrow>
   op_current p = sortRuntimeRules rules \<Longrightarrow> online_inv t0 p"
  unfolding online_inv_def by (auto simp: follows_sort sort_sorted simp del: set_map)

lemma compiled_stored: "compileStoredRule r avail = Inr c \<Longrightarrow> rr_Stored c = r"
  by (auto simp: compileStoredRule_def Let_def split: option.splits if_splits)

lemma built_times:
  "BuildOnlineRule lib uuid spec now = Inr r \<Longrightarrow> 0 < now \<Longrightarrow> or_Enabled r \<and> times_set r \<and> or_CreatedAt r = now"
proof -
  assume b: "BuildOnlineRule lib uuid spec now = Inr r" and now: "0 < now"
  then have v: "ValidateOnlineRuleSpec spec = None" by (auto simp: BuildOnlineRule_def split: option.splits)
  have "\<not> sp_TTL spec \<le> 0"
  proof
    assume "sp_TTL spec \<le> 0"
    then have "ValidateOnlineRuleSpec spec \<noteq> None" by (simp add: ValidateOnlineRuleSpec_def Let_def)
    with v show False by simp
  qed
  then have "time_add now (sp_TTL spec) \<noteq> 0" using now by (simp add: time_add_def)
  with b v now show ?thesis
    by (auto simp: BuildOnlineRule_def times_set_def Let_def split: if_splits prod.splits)
qed

lemma online_inv_create:
  assumes inv: "online_inv t0 p" and b: "or_Enabled r" "times_set r"
  shows "online_inv t0 (snd (Online_Create db uuid now avail r ev p))"
proof (cases "compileStoredRule r avail")
  case (Inr c)
  obtain D where D: "\<forall>r \<in> D. \<not> row_current t0 r" "follows_table D (map rr_Stored (op_current p)) (op_store p)"
    using inv by (auto simp: online_inv_def)
  obtain res s' where cr: "store_create (db, uuid, now, ev) r (op_store p) = (res, s')"
    by (cases "store_create (db, uuid, now, ev) r (op_store p)")
  note sync = deleting.create_follows [OF D(2) cr b]
  show ?thesis
  proof (cases "int (count_if (\<lambda>r. unexpired now (rr_Stored r)) (op_current p)) \<ge> op_maxRules p")
    case False
    show ?thesis
    proof (cases res)
      case None
      then have "follows_table D (map rr_Stored (op_current p @ [c])) s'"
        using sync compiled_stored [OF Inr] by simp
      then show ?thesis
        using None cr Inr False by (intro online_inv_install [OF D(1)]) (auto simp: Online_Create_def store_create_def)
    next
      case (Some e)
      then have "s' = op_store p" using cr store_errors_keep by (auto simp: store_create_def)
      with Some cr Inr False inv show ?thesis by (simp add: Online_Create_def store_create_def)
    qed
  qed (use Inr inv in \<open>simp add: Online_Create_def\<close>)
qed (use inv in \<open>simp add: Online_Create_def\<close>)

lemma online_inv_delete: "online_inv t0 p \<Longrightarrow> online_inv t0 (snd (Online_Delete db uuid now rid ev p))"
proof -
  assume inv: "online_inv t0 p"
  then obtain D where D: "\<forall>r \<in> D. \<not> row_current t0 r" "follows_table D (map rr_Stored (op_current p)) (op_store p)"
    by (auto simp: online_inv_def)
  obtain res s' where cr: "store_delete (db, uuid, now, ev) rid (op_store p) = (res, s')"
    by (cases "store_delete (db, uuid, now, ev) rid (op_store p)")
  from deleting.remove_follows [OF D(2) cr] obtain D' where D': "D' \<subseteq> D"
      "follows_table D' (case res of None \<Rightarrow> filter (\<lambda>r. or_RuleID r \<noteq> rid) (map rr_Stored (op_current p)) | Some _ \<Rightarrow> map rr_Stored (op_current p)) s'"
    by blast
  show ?thesis
  proof (cases res)
    case None
    then have "follows_table D' (map rr_Stored (filter (\<lambda>r. or_RuleID (rr_Stored r) \<noteq> rid) (op_current p))) s'"
      using D'(2) by (simp add: filter_map comp_def)
    then show ?thesis using None cr D(1) D'(1) by (intro online_inv_install) (auto simp: Online_Delete_def store_delete_def)
  next
    case (Some e)
    then have "s' = op_store p" using cr store_errors_keep by (auto simp: store_delete_def)
    with Some cr inv show ?thesis by (simp add: Online_Delete_def store_delete_def)
  qed
qed

lemma online_inv_expire: "online_inv t0 p \<Longrightarrow> online_inv t0 (snd (Online_Expire db uuid now rid ev p))"
proof -
  assume inv: "online_inv t0 p"
  then obtain D where D: "\<forall>r \<in> D. \<not> row_current t0 r" "follows_table D (map rr_Stored (op_current p)) (op_store p)"
    by (auto simp: online_inv_def)
  obtain res s' where cr: "store_expire (db, uuid, now, ev) rid (op_store p) = (res, s')"
    by (cases "store_expire (db, uuid, now, ev) rid (op_store p)")
  from expiring.remove_follows [OF D(2) cr] obtain D' where D': "D' \<subseteq> D"
      "follows_table D' (case res of None \<Rightarrow> filter (\<lambda>r. or_RuleID r \<noteq> rid) (map rr_Stored (op_current p)) | Some _ \<Rightarrow> map rr_Stored (op_current p)) s'"
    by blast
  show ?thesis
  proof (cases res)
    case None
    then have "follows_table D' (map rr_Stored (filter (\<lambda>r. or_RuleID (rr_Stored r) \<noteq> rid) (op_current p))) s'"
      using D'(2) by (simp add: filter_map comp_def)
    then show ?thesis using None cr D(1) D'(1) by (intro online_inv_install) (auto simp: Online_Expire_def store_expire_def)
  next
    case (Some e)
    then have "s' = op_store p" using cr store_errors_keep by (auto simp: store_expire_def)
    with Some cr inv show ?thesis by (simp add: Online_Expire_def store_expire_def)
  qed
qed

lemma online_inv_due: "online_inv t0 p \<Longrightarrow> online_inv t0 (expireDue db uuids now p)"
proof -
  assume inv: "online_inv t0 p"
  then obtain D where D: "\<forall>r \<in> D. \<not> row_current t0 r" "follows_table D (map rr_Stored (op_current p)) (op_store p)"
    and sorted: "sorted_wrt (\<lambda>a b. \<not> rule_before b a) (map rr_Stored (op_current p))"
    by (auto simp: online_inv_def)
  obtain res s' where cr: "store_due (db, uuids, now) (op_store p) = (res, s')"
    by (cases "store_due (db, uuids, now) (op_store p)")
  from deleting.due_follows [OF D(2) cr] obtain D' where D': "D' \<subseteq> D"
      "follows_table D' (case res of Inr rules \<Rightarrow> filter (\<lambda>r. or_RuleID r \<notin> or_RuleID ` set rules) (map rr_Stored (op_current p)) | Inl _ \<Rightarrow> map rr_Stored (op_current p)) s'"
    by blast
  show ?thesis
  proof (cases res)
    case (Inr rules)
    then have ag: "follows_table D' (map rr_Stored (filter (\<lambda>r. or_RuleID (rr_Stored r) \<notin> or_RuleID ` set rules) (op_current p))) s'"
      using D'(2) by (simp add: filter_map comp_def)
    show ?thesis
    proof (cases "rules = []")
      case True
      with ag sorted cr Inr D(1) D'(1) show ?thesis by (auto simp: online_inv_def expireDue_def store_due_def)
    next
      case False
      with ag cr Inr D(1) D'(1) show ?thesis by (intro online_inv_install) (auto simp: expireDue_def store_due_def)
    qed
  next
    case (Inl e)
    then have "s' = op_store p" using cr store_errors_keep by (auto simp: store_due_def)
    with Inl cr inv show ?thesis by (simp add: online_inv_def expireDue_def store_due_def)
  qed
qed

lemma online_inv_prune: "online_inv t0 p \<Longrightarrow> online_inv t0 (p\<lparr>op_store := prune_online now cutoff (op_store p)\<rparr>)"
  by (auto simp: online_inv_def deleting.follows_def prune_live)

interpretation online: event_system "\<lambda>p e. if clock_set e then online_step p e else p" "online_inv t0" for t0
proof
  show "online_inv t0 (if clock_set e then online_step p e else p)" if "online_inv t0 p" for p e
    using that built_times
    by (cases e) (auto intro: online_inv_create online_inv_delete online_inv_expire online_inv_due online_inv_prune split: sum.splits)
qed

lemma compile_all_stored: "compile_all rs avail = Inr cs \<Longrightarrow> map rr_Stored cs = rs"
  by (induction rs arbitrary: cs) (auto simp: compiled_stored split: sum.splits)

lemma online_inv_new:
  assumes "NewOnlineProvider s maxRules db t0 avail = Inr p" and "store_ok s"
  shows "online_inv t0 p"
proof -
  let ?rows = "stable_sort rule_before (filter (row_current t0) (os_rules s))"
  from assms(1) obtain cs where cs: "compile_all ?rows avail = Inr cs"
    and p: "op_store p = s" "op_current p = sortRuntimeRules (sortRuntimeRules cs)"
    by (cases "compile_all ?rows avail")
      (auto simp: NewOnlineProvider_def Online_Refresh_def ListOnlineRules_def compileStoredRules_def Let_def
        split: if_splits)
  have st: "map rr_Stored cs = ?rows" using compile_all_stored [OF cs] .
  have "mset (map or_RuleID ?rows) = mset (map or_RuleID (filter (row_current t0) (os_rules s)))" by simp
  then have "distinct (map or_RuleID ?rows) = distinct (map or_RuleID (filter (row_current t0) (os_rules s)))"
    by (rule mset_eq_imp_distinct_iff)
  moreover have "set ?rows = live_rules s - {r \<in> live_rules s. \<not> row_current t0 r}" by (auto simp: live_rules_def row_current_def)
  ultimately have "follows_table {r \<in> live_rules s. \<not> row_current t0 r} (map rr_Stored cs) s"
    unfolding st deleting.follows_def agrees_def using assms(2) by (auto simp: store_ok_def distinct_map_filter)
  then have "follows_table {r \<in> live_rules s. \<not> row_current t0 r} (map rr_Stored (sortRuntimeRules cs)) s" by (simp only: follows_sort)
  then show ?thesis by (rule online_inv_install [rotated]) (use p in auto)
qed

lemma online_inv_run:
  assumes "online_inv t0 p" and "list_all clock_set ops"
  shows "online_inv t0 (foldl online_step p ops)"
proof -
  have "foldl online_step p ops = foldl (\<lambda>p e. if clock_set e then online_step p e else p) p ops"
    using assms(2) by (induction ops arbitrary: p) auto
  with online.run_invar [OF assms(1)] show ?thesis by simp
qed

text \<open>The table's resolution does not change which rows are in force, and what has run out stays so.\<close>

lemma row_current_saved: "0 < now \<Longrightarrow> row_current now (saved r) \<longleftrightarrow> row_current now r"
proof -
  assume now: "0 < now"
  have "unixMilli now (stored_time 0 t) > unixMilli now now \<longleftrightarrow> unixMilli now t > unixMilli now now" for t
  proof (cases "stored_time 0 t = 0")
    case True
    then have "(t - unix_epoch) div millisecond = - unix_epoch div millisecond"
      by (simp add: stored_time_def timeFromMillis_def unixMilli_def defaultTime_def unix_epoch_def)
    moreover have "- unix_epoch div millisecond \<le> (now - unix_epoch) div millisecond"
      using now by (intro zdiv_mono1) auto
    ultimately show ?thesis using True now by (simp add: unixMilli_def defaultTime_def)
  next
    case False
    moreover from this have "t \<noteq> 0" by (auto simp: stored_time_def timeFromMillis_def unixMilli_def defaultTime_def unix_epoch_def)
    ultimately show ?thesis by (simp add: unixMilli_def [of now] defaultTime_def) (simp add: stored_time_def timeFromMillis_def unixMilli_def defaultTime_def)
  qed
  then show ?thesis by (auto simp: row_current_def saved_def stored_rule_def split: option.splits)
qed

lemma row_current_later: "t0 \<le> now \<Longrightarrow> row_current now r \<Longrightarrow> row_current t0 r"
  using zdiv_mono1 [of "t0 - unix_epoch" "now - unix_epoch" millisecond]
  by (auto simp: row_current_def unixMilli_def defaultTime_def split: option.splits if_splits)

text \<open>
  C15: The rules the provider decides with are the enabled rules of the durable table, up to
  the table's millisecond resolution, after any sequence of creations, deletions, expiries and
  prunings of the table, including those that the database refuses; they have distinct identifiers. The only enabled
  rows the provider does not hold are rows whose time had run out before it was started, so at
  any moment from the start on the rules in force are the same in memory and in the table: a
  restart loses no rule in force and revives none.
\<close>

theorem online_rules_durable:
  assumes "NewOnlineProvider s maxRules db t0 avail = Inr p" and "store_ok s" and "0 < t0" and "t0 \<le> now"
    and "list_all clock_set ops"
  shows "(\<exists>D. (\<forall>r \<in> D. \<not> row_current t0 r) \<and>
           saved ` rr_Stored ` set (op_current (foldl online_step p ops)) =
           saved ` ({r \<in> set (os_rules (op_store (foldl online_step p ops))). or_Enabled r} - D)) \<and>
         saved ` {r \<in> rr_Stored ` set (op_current (foldl online_step p ops)). row_current now r} =
           saved ` {r \<in> set (os_rules (op_store (foldl online_step p ops))). row_current now r} \<and>
         distinct (map (or_RuleID \<circ> rr_Stored) (op_current (foldl online_step p ops)))"
proof -
  let ?p = "foldl online_step p ops"
  obtain D where D: "\<forall>r \<in> D. \<not> row_current t0 r" "follows_table D (map rr_Stored (op_current ?p)) (op_store ?p)"
    using online_inv_run [OF online_inv_new [OF assms(1,2)] assms(5)] by (auto simp: online_inv_def)
  then have same: "saved ` rr_Stored ` set (op_current ?p) = saved ` ({r \<in> set (os_rules (op_store ?p)). or_Enabled r} - D)"
    and ids: "distinct (map (or_RuleID \<circ> rr_Stored) (op_current ?p))"
    by (auto simp: deleting.follows_def agrees_def live_rules_def comp_def)
  have now: "0 < now" using assms(3,4) by simp
  have "saved ` {r \<in> rr_Stored ` set (op_current ?p). row_current now r} = {x \<in> saved ` rr_Stored ` set (op_current ?p). row_current now x}"
    using row_current_saved [OF now] by auto
  also have "\<dots> = saved ` {r \<in> {r \<in> set (os_rules (op_store ?p)). or_Enabled r} - D. row_current now r}"
    unfolding same using row_current_saved [OF now] by auto
  also have "{r \<in> {r \<in> set (os_rules (op_store ?p)). or_Enabled r} - D. row_current now r} = {r \<in> set (os_rules (op_store ?p)). row_current now r}"
    using D(1) row_current_later [OF assms(4)] by (auto simp: row_current_def)
  finally show ?thesis using D(1) same ids by blast
qed

definition sample_online_provider :: OnlineProvider where
  "sample_online_provider = \<lparr>op_store = \<lparr>os_rules = [], os_events = []\<rparr>, op_maxRules = 10, op_current = [],
     op_status = \<lparr>ost_ActiveRules = 0, ost_LastError = None, ost_LastExpiryAt = 0, ost_ExpiryErrorsTotal = 0\<rparr>\<rparr>"

definition sample_event :: OnlineRuleEvent where
  "sample_event = \<lparr>oe_EventID = [], oe_RuleID = [], oe_Operation = [], oe_Action = [], oe_Actor = ''op'', oe_Reason = [],
     oe_TicketRef = [], oe_OccurredAt = 0\<rparr>"

definition sample_spec :: "string \<Rightarrow> int \<Rightarrow> OnlineRuleSpec" where
  "sample_spec rid prio = \<lparr>sp_RuleID = rid, sp_Action = ''Deny'',
     sp_Matcher = \<lparr>om_SourceCIDR = [], om_SourceIP = [], om_Protocol = ''TCP'', om_Port = None\<rparr>,
     sp_Params = \<lparr>opr_LimitBPS = 0, opr_Upstream = []\<rparr>, sp_Priority = prio, sp_TTL = 3600000000000, sp_Reason = [],
     sp_TicketRef = [], sp_CreatedBy = [], sp_Source = []\<rparr>"

definition sample_online_ops :: "online_op list" where
  "sample_online_ops =
     [OnCreate True ''u1'' ''e1'' 1000 None \<lparr>bl_matcher_len = (\<lambda>_. 20), bl_params_len = (\<lambda>_. 2)\<rparr> (sample_spec ''low'' 1) sample_event,
      OnCreate True ''u2'' ''e2'' 2000 None \<lparr>bl_matcher_len = (\<lambda>_. 20), bl_params_len = (\<lambda>_. 2)\<rparr> (sample_spec ''high'' 9) sample_event]"

lemma sample_online_new:
  "NewOnlineProvider \<lparr>os_rules = [], os_events = []\<rparr> 10 True 5 None = Inr sample_online_provider"
  by (simp add: NewOnlineProvider_def Online_Refresh_def ListOnlineRules_def compileStoredRules_def sample_online_provider_def
      install_rules_def setActiveRules_def storeSnapshot_def sortRuntimeRules_def stable_sort_def)

definition rule_view :: "runtimeOnlineRule \<Rightarrow> string \<times> string \<times> time option \<times> bool \<times> string \<times> int option \<times> bool" where
  "rule_view r = (or_RuleID (rr_Stored r), or_Action (rr_Stored r), or_ExpiresAt (rr_Stored r), rr_Available r,
     om_Protocol (rr_Matcher r), om_Port (rr_Matcher r),
     (case rr_SourceCIDR r of None \<Rightarrow> True | Some _ \<Rightarrow> False) \<and> (case rr_SourceIP r of None \<Rightarrow> True | Some _ \<Rightarrow> False))"

lemma sample_online_rules:
  "map rule_view (op_current (foldl online_step sample_online_provider sample_online_ops)) =
     [(''high'', ''deny'', Some 3600000002000, True, ''tcp'', None, True),
      (''low'', ''deny'', Some 3600000001000, True, ''tcp'', None, True)]"
  by code_simp

theorem online_rules_durable_witness:
  "saved ` {r \<in> rr_Stored ` set (op_current (foldl online_step sample_online_provider sample_online_ops)). row_current 3000 r} =
     saved ` {r \<in> set (os_rules (op_store (foldl online_step sample_online_provider sample_online_ops))). row_current 3000 r} \<and>
   length (op_current (foldl online_step sample_online_provider sample_online_ops)) = 2"
proof -
  have "length (op_current (foldl online_step sample_online_provider sample_online_ops)) = 2"
    using arg_cong [OF sample_online_rules, of length] by simp
  then show ?thesis
    using online_rules_durable [OF sample_online_new, of 3000 sample_online_ops]
    by (simp add: store_ok_def sample_online_ops_def)
qed

text \<open>A rule decides about a Flow when it is unexpired, available and matches.\<close>

definition applies :: "time \<Rightarrow> upstream_catalogue \<Rightarrow> Meta \<Rightarrow> bool \<Rightarrow> runtimeOnlineRule \<Rightarrow> bool" where
  "applies now avail meta deny r \<longleftrightarrow> unexpired now (rr_Stored r) \<and> isRuleAvailable avail r \<and>
     (or_Action (rr_Stored r) = ''deny'') = deny \<and> matchesOnlineRule (r\<lparr>rr_Available := True\<rparr>) meta"

lemma evaluation_available [simp]: "evaluationFromRule (r\<lparr>rr_Available := b\<rparr>) allowed = evaluationFromRule r allowed"
  by (simp add: evaluationFromRule_def)

lemma matchingRules_first:
  assumes "sorted_wrt (\<lambda>a b. \<not> rule_before b a) (map rr_Stored (op_current p))"
  shows "case matchingRules now avail p meta deny of
           [] \<Rightarrow> \<not> (\<exists>r \<in> set (op_current p). applies now avail meta deny r)
         | r # _ \<Rightarrow> (\<exists>c \<in> set (op_current p). r = c\<lparr>rr_Available := True\<rparr> \<and> applies now avail meta deny c \<and>
                      (\<forall>c' \<in> set (op_current p). applies now avail meta deny c' \<longrightarrow> \<not> rule_before (rr_Stored c') (rr_Stored c)))"
proof -
  define cs where "cs = filter (applies now avail meta deny) (op_current p)"
  have m: "matchingRules now avail p meta deny = map (\<lambda>r. r\<lparr>rr_Available := True\<rparr>) cs"
    unfolding matchingRules_def cs_def applies_def [abs_def] by simp
  have sorted: "sorted_wrt (\<lambda>a b. \<not> rule_before (rr_Stored b) (rr_Stored a)) cs"
    unfolding cs_def using assms by (simp add: sorted_wrt_map sorted_wrt_filter)
  show ?thesis
  proof (cases cs)
    case Nil
    then show ?thesis unfolding m by (auto simp: cs_def filter_empty_conv)
  next
    case (Cons c cs')
    then have c: "c \<in> set (op_current p)" "applies now avail meta deny c"
      using filter_is_subset [of "applies now avail meta deny" "op_current p"]
        filter_set [of "applies now avail meta deny" "op_current p"] unfolding cs_def [symmetric] by auto
    have "\<not> rule_before (rr_Stored c') (rr_Stored c)" if "c' \<in> set (op_current p)" "applies now avail meta deny c'" for c'
    proof -
      have "c' \<in> set cs" using that by (simp add: cs_def)
      then show ?thesis using sorted Cons rule_order.lt_irrefl by auto
    qed
    with c show ?thesis unfolding m Cons by auto
  qed
qed

text \<open>
  An online decision is taken by the applicable rule of the highest priority, the oldest
  among equals, the smallest identifier among those; there is none exactly when no rule
  applies. It holds for denials and for actions, in every reachable state of the provider.
\<close>

lemma online_decision_highest_priority:
  assumes "NewOnlineProvider s maxRules db t0 avail0 = Inr p0" and "store_ok s"
    and "list_all clock_set ops" and "p = foldl online_step p0 ops"
    and "ev = (if deny then DecideDeny now avail p meta else DecideAction now avail p meta)"
  shows "(if ev_Matched ev
          then \<exists>r \<in> set (op_current p). applies now avail meta deny r \<and> ev = evaluationFromRule r (\<not> deny) \<and>
                 \<not> (\<exists>r' \<in> set (op_current p). applies now avail meta deny r' \<and> rule_before (rr_Stored r') (rr_Stored r))
          else \<not> (\<exists>r \<in> set (op_current p). applies now avail meta deny r))"
proof -
  have inv: "sorted_wrt (\<lambda>a b. \<not> rule_before b a) (map rr_Stored (op_current p))"
    using online_inv_run [OF online_inv_new [OF assms(1,2)] assms(3)] assms(4) by (simp add: online_inv_def)
  have ev: "ev = (case matchingRules now avail p meta deny of [] \<Rightarrow> no_evaluation True | r # _ \<Rightarrow> evaluationFromRule r (\<not> deny))"
    using assms(5) unfolding DecideDeny_def DecideAction_def by (cases deny) (auto split: list.splits)
  have none: "\<not> ev_Matched (no_evaluation b)" for b by (simp add: no_evaluation_def)
  have some: "ev_Matched (evaluationFromRule r b)" for r b by (simp add: evaluationFromRule_def)
  show ?thesis
    using matchingRules_first [OF inv, of now avail meta deny] none some
    unfolding ev by (auto split: list.splits)
qed

definition sample_client_meta :: Meta where
  "sample_client_meta = \<lparr>meta_ID = ''f'', meta_Protocol = ''tcp'', meta_ClientAddr = \<lparr>ap_addr = V4 3221225985, ap_port = 40000\<rparr>,
     meta_Listener = ''0.0.0.0:80'', meta_Route = ''web'', meta_Upstream = [], meta_StartedAt = 3000\<rparr>"

lemma online_decision_highest_priority_sample:
  "ev_Matched (DecideDeny 3000 None (foldl online_step sample_online_provider sample_online_ops) sample_client_meta) \<and>
   ev_RuleID (DecideDeny 3000 None (foldl online_step sample_online_provider sample_online_ops) sample_client_meta) = ''high'' \<and>
   (\<exists>r \<in> set (op_current (foldl online_step sample_online_provider sample_online_ops)).
      DecideDeny 3000 None (foldl online_step sample_online_provider sample_online_ops) sample_client_meta = evaluationFromRule r False)"
proof -
  let ?p = "foldl online_step sample_online_provider sample_online_ops"
  obtain h l where p: "op_current ?p = [h, l]" and h: "rule_view h = (''high'', ''deny'', Some 3600000002000, True, ''tcp'', None, True)"
    using sample_online_rules by (auto simp: map_eq_Cons_conv)
  have "applies 3000 None sample_client_meta True h"
    using h by (auto simp: rule_view_def applies_def unexpired_def time_after_def isRuleAvailable_def matchesOnlineRule_def
        sample_client_meta_def split: option.splits)
  then have "matchingRules 3000 None ?p sample_client_meta True \<noteq> [] \<and>
      hd (matchingRules 3000 None ?p sample_client_meta True) = h\<lparr>rr_Available := True\<rparr>"
    unfolding matchingRules_def p by (simp add: applies_def)
  then have m: "ev_Matched (DecideDeny 3000 None ?p sample_client_meta)"
    "ev_RuleID (DecideDeny 3000 None ?p sample_client_meta) = ''high''"
    using h by (auto simp: DecideDeny_def evaluationFromRule_def rule_view_def split: list.splits)
  have "store_ok \<lparr>os_rules = [], os_events = []\<rparr>" "list_all clock_set sample_online_ops"
    by (simp_all add: store_ok_def sample_online_ops_def)
  then show ?thesis
    using online_decision_highest_priority [OF sample_online_new _ _ refl refl, of sample_online_ops True 3000 None sample_client_meta] m
    by auto
qed

text \<open>
  A rule with a source network never matches a client whose address has a zone, although its
  address lies in the network: the prefix test refuses every zoned address.
\<close>

lemma online_cidr_misses_zoned_clients:
  assumes "rr_SourceCIDR r = Some pfx" and "ap_addr (meta_ClientAddr meta) = V6 w z" and "z \<noteq> []" and "\<not> is4in6 w"
    and "prefix_contains pfx (V6 w [])"
  shows "\<not> matchesOnlineRule r meta"
  using assms by (auto simp: matchesOnlineRule_def prefix_contains_def split: addr.splits)

end
