(* ===== verification/Admission.thy ===== *)
theory Admission
  imports Routes Forwarding Policy OnlineRules
begin

text \<open>
  \<open>internal/app/forwarding_adapters.go\<close>: the picker that gives the forwarders the choice of
  the route selector, and the admission policy that combines the online rules with the
  persistent firewall. The picker returns the manager, whose cached statistics a choice
  refreshes, and the route it reports to the metrics.
\<close>

section \<open>Picking\<close>

datatype adapter_error =
    SelectFailed select_error | NoSuchUpstream string | NoActiveIP string | InvalidActiveIP string | SelectorUnavailable

definition usable_address :: "string \<Rightarrow> Upstream \<Rightarrow> adapter_error + FwUpstream" where
  "usable_address tag selected =
     (case ActiveIP selected of
        None \<Rightarrow> Inl (NoActiveIP tag)
      | Some bs \<Rightarrow>
          (case addr_from_slice (Some bs) of
             None \<Rightarrow> Inl (InvalidActiveIP tag)
           | Some a \<Rightarrow> Inr \<lparr>fu_Tag = up_Tag selected, fu_Addr = unmap a\<rparr>))"

definition picker_Pick ::
    "time \<Rightarrow> RouteSelector option \<Rightarrow> Meta \<Rightarrow> UpstreamManager \<Rightarrow> (adapter_error + FwUpstream) \<times> UpstreamManager" where
  "picker_Pick now routes meta mgr =
     (let (res, mgr') =
        (case routes of
           Some s \<Rightarrow> if HasRoutes s then (case Pick now (meta_Route meta) s mgr of ((res, _), m) \<Rightarrow> (res, m))
                     else SelectAdaptiveFrom now [] mgr
         | None \<Rightarrow> SelectAdaptiveFrom now [] mgr)
      in (case res of Inl e \<Rightarrow> Inl (SelectFailed e) | Inr selected \<Rightarrow> usable_address (up_Tag selected) selected, mgr'))"

definition picker_PickOverride :: "Meta \<Rightarrow> string \<Rightarrow> UpstreamManager \<Rightarrow> adapter_error + FwUpstream" where
  "picker_PickOverride meta tag mgr =
     (case Manager_Get tag mgr of
        None \<Rightarrow> Inl (NoSuchUpstream tag)
      | Some selected \<Rightarrow> usable_address tag selected)"

text \<open>The metric \<open>SetRouteSelected\<close> follows a successful choice.\<close>

definition route_selected :: "Meta \<Rightarrow> adapter_error + FwUpstream \<Rightarrow> (string \<times> string) option" where
  "route_selected meta res = (case res of Inl _ \<Rightarrow> None | Inr u \<Rightarrow> Some (meta_Route meta, fu_Tag u))"

definition picker_MarkDialFailure :: "time \<Rightarrow> FwUpstream \<Rightarrow> duration \<Rightarrow> UpstreamManager \<Rightarrow> UpstreamManager" where
  "picker_MarkDialFailure now selected cooldown mgr = MarkDialFailure now (fu_Tag selected) cooldown mgr"

definition picker_ClearDialFailure :: "FwUpstream \<Rightarrow> UpstreamManager \<Rightarrow> UpstreamManager" where
  "picker_ClearDialFailure selected mgr = ClearDialFailure (fu_Tag selected) mgr"

definition SetRouteOverride ::
    "UpstreamManager \<Rightarrow> string \<Rightarrow> string \<Rightarrow> RouteSelector option \<Rightarrow> adapter_error option \<times> RouteSelector option" where
  "SetRouteOverride mgr route tag routes =
     (case routes of
        None \<Rightarrow> (Some SelectorUnavailable, None)
      | Some s \<Rightarrow> (case SetOverride mgr route tag s of (Inl e, s') \<Rightarrow> (Some (SelectFailed e), Some s') | (Inr _, s') \<Rightarrow> (None, Some s')))"

definition ClearRouteOverride :: "string \<Rightarrow> RouteSelector option \<Rightarrow> adapter_error option \<times> RouteSelector option" where
  "ClearRouteOverride route routes =
     (case routes of
        None \<Rightarrow> (Some SelectorUnavailable, None)
      | Some s \<Rightarrow> (case ClearOverride route s of (Inl e, s') \<Rightarrow> (Some (SelectFailed e), Some s') | (Inr _, s') \<Rightarrow> (None, Some s')))"

text \<open>The picker as the forwarders see it, at one reading of the clock.\<close>

definition forwarding_picker :: "time \<Rightarrow> RouteSelector option \<Rightarrow> UpstreamManager \<Rightarrow> (adapter_error \<Rightarrow> string) \<Rightarrow> UpstreamPicker" where
  "forwarding_picker now routes mgr text =
     \<lparr>pk_Pick = (\<lambda>meta. map_sum text id (fst (picker_Pick now routes meta mgr))),
      pk_PickOverride = Some (\<lambda>meta tag. map_sum text id (picker_PickOverride meta tag mgr)), pk_Feedback = True\<rparr>"

section \<open>Admission\<close>

definition onlineDecision :: "OnlineEvaluation \<Rightarrow> Decision" where
  "onlineDecision ev =
     \<lparr>dec_Allowed = ev_Allowed ev, dec_RuleType = ev_RuleType ev, dec_RuleValue = ev_RuleValue ev, dec_RuleID = ev_RuleID ev,
      dec_Action = ev_Action ev, dec_RateLimitBPS = ev_RateLimitBPS ev, dec_UpstreamOverride = ev_UpstreamOverride ev\<rparr>"

record firewallPolicy =
  fp_provider :: "Provider option"
  fp_online :: "OnlineProvider option"

text \<open>\<open>t1\<close> and \<open>t2\<close> are the clock readings of \<open>DecideDeny\<close> and \<open>DecideAction\<close>.\<close>

definition policy_Decide :: "time \<Rightarrow> time \<Rightarrow> upstream_catalogue \<Rightarrow> firewallPolicy \<Rightarrow> Meta \<Rightarrow> Decision" where
  "policy_Decide t1 t2 avail p meta =
     (if \<not> addr_port_valid (meta_ClientAddr meta) then allow_decision
      else
        let deny = (case fp_online p of None \<Rightarrow> no_evaluation True | Some op \<Rightarrow> DecideDeny t1 avail op meta)
        in if ev_Matched deny then onlineDecision deny
           else
             let persistent = (case fp_provider p of
                   None \<Rightarrow> allow_decision
                 | Some pv \<Rightarrow>
                     let d = Provider_Decide pv (as_slice (ap_addr (meta_ClientAddr meta)))
                     in zero_decision\<lparr>dec_Allowed := fd_Allowed d, dec_RuleType := fd_RuleType d, dec_RuleValue := fd_RuleValue d\<rparr>)
             in if \<not> dec_Allowed persistent then persistent
                else case fp_online p of
                       None \<Rightarrow> persistent
                     | Some op \<Rightarrow>
                         let action = DecideAction t2 avail op meta
                         in if ev_Matched action then onlineDecision action else persistent)"

section \<open>Properties\<close>

lemma matched_iff:
  "ev_Matched (DecideDeny now avail op meta) \<longleftrightarrow> (\<exists>r \<in> set (op_current op). applies now avail meta True r)"
  "ev_Matched (DecideAction now avail op meta) \<longleftrightarrow> (\<exists>r \<in> set (op_current op). applies now avail meta False r)"
proof -
  have m: "matchingRules now avail op meta deny = [] \<longleftrightarrow> \<not> (\<exists>r \<in> set (op_current op). applies now avail meta deny r)" for deny
    by (auto simp: matchingRules_def applies_def filter_empty_conv)
  show "ev_Matched (DecideDeny now avail op meta) \<longleftrightarrow> (\<exists>r \<in> set (op_current op). applies now avail meta True r)"
    using m [of True] by (auto simp: DecideDeny_def no_evaluation_def evaluationFromRule_def split: list.splits)
  show "ev_Matched (DecideAction now avail op meta) \<longleftrightarrow> (\<exists>r \<in> set (op_current op). applies now avail meta False r)"
    using m [of False] by (auto simp: DecideAction_def no_evaluation_def evaluationFromRule_def split: list.splits)
qed

lemma decided_by:
  "ev_Matched (DecideDeny now avail op meta) \<Longrightarrow> \<not> ev_Allowed (DecideDeny now avail op meta)"
  "ev_Matched (DecideAction now avail op meta) \<Longrightarrow>
     \<exists>r \<in> set (op_current op). applies now avail meta False r \<and> DecideAction now avail op meta = evaluationFromRule r True"
proof -
  show "ev_Matched (DecideDeny now avail op meta) \<Longrightarrow> \<not> ev_Allowed (DecideDeny now avail op meta)"
    by (auto simp: DecideDeny_def no_evaluation_def evaluationFromRule_def split: list.splits)
  show "\<exists>r \<in> set (op_current op). applies now avail meta False r \<and> DecideAction now avail op meta = evaluationFromRule r True"
    if matched: "ev_Matched (DecideAction now avail op meta)"
  proof -
    obtain r rs where m: "matchingRules now avail op meta False = r # rs"
      using matched by (auto simp: DecideAction_def no_evaluation_def split: list.splits)
    then have "r \<in> set (matchingRules now avail op meta False)" by simp
    then obtain c where "c \<in> set (op_current op)" "applies now avail meta False c" "r = c\<lparr>rr_Available := True\<rparr>"
      by (auto simp: matchingRules_def applies_def)
    with m show ?thesis by (auto simp: DecideAction_def)
  qed
qed

text \<open>The persistent verdict for a Flow, and the online rules of a policy.\<close>

definition persistent_allows :: "firewallPolicy \<Rightarrow> Meta \<Rightarrow> bool" where
  "persistent_allows p meta =
     (case fp_provider p of None \<Rightarrow> True
      | Some pv \<Rightarrow> fd_Allowed (Provider_Decide pv (as_slice (ap_addr (meta_ClientAddr meta)))))"

definition online_rules :: "firewallPolicy \<Rightarrow> runtimeOnlineRule list" where
  "online_rules p = (case fp_online p of None \<Rightarrow> [] | Some op \<Rightarrow> op_current op)"

lemma admission_allowed:
  assumes "addr_port_valid (meta_ClientAddr meta)"
  shows "dec_Allowed (policy_Decide t1 t2 avail p meta) \<longleftrightarrow>
     persistent_allows p meta \<and> \<not> (\<exists>r \<in> set (online_rules p). applies t1 avail meta True r)"
proof (cases "fp_online p")
  case None
  then show ?thesis
    using assms by (auto simp: policy_Decide_def persistent_allows_def online_rules_def no_evaluation_def allow_decision_def
        zero_decision_def Let_def split: option.splits)
next
  case (Some op)
  note m = matched_iff [where op = op and meta = meta and avail = avail]
  have act: "ev_Matched (DecideAction t2 avail op meta) \<Longrightarrow> ev_Allowed (DecideAction t2 avail op meta)"
    using decided_by(2) [of t2 avail op meta] by (auto simp: evaluationFromRule_def)
  show ?thesis
    using assms Some m(1) [of t1] decided_by(1) [of t1 avail op meta] act
    by (auto simp: policy_Decide_def persistent_allows_def online_rules_def onlineDecision_def allow_decision_def
        zero_decision_def Let_def split: option.splits)
qed

text \<open>
  C12: A Flow is admitted exactly when the persistent policy allows its client and no
  unexpired online deny rule matches it: an online rule can forbid what the policy allows,
  and none can allow what the policy forbids. A rate limit or an upstream override on an
  admitted Flow comes from an online rule that applies to it.
\<close>

theorem admission_is_conjunction:
  assumes "addr_port_valid (meta_ClientAddr meta)"
  shows "(dec_Allowed (policy_Decide t1 t2 avail p meta) \<longleftrightarrow>
            persistent_allows p meta \<and> \<not> (\<exists>r \<in> set (online_rules p). applies t1 avail meta True r)) \<and>
         (dec_Allowed (policy_Decide t1 t2 avail p meta) \<and>
            (dec_RateLimitBPS (policy_Decide t1 t2 avail p meta) \<noteq> 0 \<or> dec_UpstreamOverride (policy_Decide t1 t2 avail p meta) \<noteq> []) \<longrightarrow>
          (\<exists>r \<in> set (online_rules p). applies t2 avail meta False r \<and>
             dec_RateLimitBPS (policy_Decide t1 t2 avail p meta) = opr_LimitBPS (rr_Params r) \<and>
             dec_UpstreamOverride (policy_Decide t1 t2 avail p meta) = opr_Upstream (rr_Params r)))"
proof (intro conjI admission_allowed [OF assms] impI; (elim conjE)?)
  assume allowed: "dec_Allowed (policy_Decide t1 t2 avail p meta)"
    and special: "dec_RateLimitBPS (policy_Decide t1 t2 avail p meta) \<noteq> 0 \<or> dec_UpstreamOverride (policy_Decide t1 t2 avail p meta) \<noteq> []"
  show "\<exists>r \<in> set (online_rules p). applies t2 avail meta False r \<and>
             dec_RateLimitBPS (policy_Decide t1 t2 avail p meta) = opr_LimitBPS (rr_Params r) \<and>
             dec_UpstreamOverride (policy_Decide t1 t2 avail p meta) = opr_Upstream (rr_Params r)"
  proof (cases "fp_online p")
    case None
    with special assms show ?thesis
      by (auto simp: policy_Decide_def allow_decision_def zero_decision_def no_evaluation_def Let_def split: option.splits if_splits)
  next
    case (Some op)
    have nd: "\<not> ev_Matched (DecideDeny t1 avail op meta)"
      using allowed assms Some decided_by(1) [of t1 avail op meta] by (auto simp: policy_Decide_def onlineDecision_def Let_def)
    have "policy_Decide t1 t2 avail p meta = onlineDecision (DecideAction t2 avail op meta) \<and> ev_Matched (DecideAction t2 avail op meta)"
      using special assms Some nd
      by (auto simp: policy_Decide_def allow_decision_def zero_decision_def Let_def split: option.splits if_splits)
    with decided_by(2) [of t2 avail op meta] Some show ?thesis
      by (auto simp: onlineDecision_def evaluationFromRule_def online_rules_def)
  qed
qed

definition sample_policy :: firewallPolicy where
  "sample_policy = \<lparr>fp_provider = None, fp_online = Some (foldl online_step sample_online_provider sample_online_ops)\<rparr>"

lemma sample_rule_applies: "\<exists>r \<in> set (online_rules sample_policy). applies 3000 None sample_client_meta True r"
proof -
  obtain h l where "online_rules sample_policy = [h, l]"
    and h: "rule_view h = (''high'', ''deny'', Some 3600000002000, True, ''tcp'', None, True)"
    using sample_online_rules by (auto simp: map_eq_Cons_conv online_rules_def sample_policy_def)
  moreover have "applies 3000 None sample_client_meta True h"
    using h by (auto simp: rule_view_def applies_def unexpired_def time_after_def isRuleAvailable_def matchesOnlineRule_def
        sample_client_meta_def split: option.splits)
  ultimately show ?thesis by simp
qed

theorem admission_is_conjunction_witness:
  "persistent_allows sample_policy sample_client_meta \<and>
   \<not> dec_Allowed (policy_Decide 3000 3000 None sample_policy sample_client_meta)"
proof -
  have "addr_port_valid (meta_ClientAddr sample_client_meta)" by (simp add: sample_client_meta_def addr_port_valid_def)
  from admission_is_conjunction [OF this, of 3000 3000 None sample_policy] sample_rule_applies
  show ?thesis by (auto simp: persistent_allows_def sample_policy_def)
qed

end
