(* ===== verification/FlowContext.thy ===== *)
theory FlowContext
  imports Flow
begin

text \<open>
  \<open>internal/flowcontext/registry.go\<close> and \<open>resolver.go\<close>: the registry that lets a backend
  resolve the socket tuple it sees to the Flow behind it. The registry is a Flow observer
  (\<open>Open\<close>, \<open>Update\<close>, \<open>Close\<close>), a backend binder (\<open>Bind\<close>) and a lookup service
  (\<open>Resolve\<close>, \<open>Lookup\<close>). Entries are records in the map that owns them. Each operation
  is one critical section under \<open>mu\<close>; \<open>Resolve\<close> is a loop of such sections with a
  \<open>select\<close> in between, driven by the event lists of \<open>resolve_loop\<close>. The channel \<open>updates\<close>
  is its generation. A nil
  registry is handled by the callers; the snapshot queue is bounded and drops.
\<close>

section \<open>Data\<close>

datatype ctx_state = StateActive | StateClosed

datatype ctx_error = ErrClosed | ErrInvalidTuple | ErrCapacityExceeded | ErrFlowNotFound

record CtxOptions =
  op_MaxEntries :: int
  op_ResolveTimeout :: duration
  op_GracePeriod :: duration
  op_CleanupInterval :: duration
  op_SnapshotQueueSize :: int

definition DefaultOptions :: CtxOptions where
  "DefaultOptions = \<lparr>op_MaxEntries = 100000, op_ResolveTimeout = 5 * second, op_GracePeriod = 30 * second,
     op_CleanupInterval = second, op_SnapshotQueueSize = 4096\<rparr>"

definition normalized :: "CtxOptions \<Rightarrow> CtxOptions" where
  "normalized opts =
     (let d = DefaultOptions
      in \<lparr>op_MaxEntries = (if op_MaxEntries opts > 0 then op_MaxEntries opts else op_MaxEntries d),
          op_ResolveTimeout = (if op_ResolveTimeout opts > 0 then op_ResolveTimeout opts else op_ResolveTimeout d),
          op_GracePeriod = (if op_GracePeriod opts > 0 then op_GracePeriod opts else op_GracePeriod d),
          op_CleanupInterval = (if op_CleanupInterval opts > 0 then op_CleanupInterval opts else op_CleanupInterval d),
          op_SnapshotQueueSize =
            (if op_SnapshotQueueSize opts > 0 then op_SnapshotQueueSize opts else op_SnapshotQueueSize d)\<rparr>)"

record FlowCtx =
  cx_FlowID :: string
  cx_Protocol :: string
  cx_ClientAddr :: string
  cx_Listener :: string
  cx_Route :: string
  cx_Upstream :: string
  cx_BackendKey :: string
  cx_BackendTuple :: BackendTuple
  cx_CreatedAt :: time
  cx_EndedAt :: time
  cx_ResolveUntil :: time
  cx_State :: ctx_state
  cx_Generation :: uint64
  cx_LastActivity :: time
  cx_BytesUp :: uint64
  cx_BytesDown :: uint64

record ctx_entry =
  en_context :: FlowCtx
  en_hasTuple :: bool

record CtxRegistry =
  fr_entries :: "(string, ctx_entry) gomap"
  fr_tuples :: "(string, string) gomap"
  fr_options :: CtxOptions
  fr_updates :: nat
  fr_closed :: bool
  fr_rejects :: uint64
  fr_sink :: bool
  fr_queue :: "FlowCtx list"
  fr_published :: "FlowCtx list"
  fr_drops :: uint64

record CtxStats =
  st_Active :: nat
  st_Closed :: nat
  st_BoundTuples :: nat
  st_Capacity :: int
  st_CapacityRejects :: uint64
  st_SnapshotDrops :: uint64

definition zero_tuple :: BackendTuple where
  "zero_tuple = \<lparr>bt_Protocol = [], bt_BackendKey = [], bt_LocalAddr = zero_addr_port, bt_RemoteAddr = zero_addr_port\<rparr>"

section \<open>Keys\<close>

definition tupleKey :: "BackendTuple \<Rightarrow> string option" where
  "tupleKey tuple =
     (let protocol = ToLower (TrimSpace (bt_Protocol tuple)); backend = TrimSpace (bt_BackendKey tuple)
      in if (protocol \<noteq> ProtocolTCP \<and> protocol \<noteq> ProtocolUDP) \<or> backend = [] \<or>
            \<not> addr_port_valid (bt_LocalAddr tuple) \<or> \<not> addr_port_valid (bt_RemoteAddr tuple)
         then None
         else Some (protocol @ ''|'' @ backend @ ''|'' @ addr_port_text (bt_LocalAddr tuple) @ ''|'' @
                    addr_port_text (bt_RemoteAddr tuple)))"

definition CanonicalBackendKey :: "string \<Rightarrow> string \<Rightarrow> string" where
  "CanonicalBackendKey upstream remoteAddr = TrimSpace upstream @ ''@'' @ TrimSpace remoteAddr"

section \<open>Operations\<close>

definition NewCtxRegistry :: "CtxOptions \<Rightarrow> CtxRegistry" where
  "NewCtxRegistry options =
     \<lparr>fr_entries = [], fr_tuples = [], fr_options = normalized options, fr_updates = 0, fr_closed = False,
      fr_rejects = 0, fr_sink = False, fr_queue = [], fr_published = [], fr_drops = 0\<rparr>"

definition SetSnapshotSink :: "bool \<Rightarrow> CtxRegistry \<Rightarrow> CtxRegistry" where
  "SetSnapshotSink sink r = r\<lparr>fr_sink := sink\<rparr>"

definition signalLocked :: "CtxRegistry \<Rightarrow> CtxRegistry" where
  "signalLocked r = r\<lparr>fr_updates := fr_updates r + 1\<rparr>"

definition emitSnapshot :: "FlowCtx \<Rightarrow> CtxRegistry \<Rightarrow> CtxRegistry" where
  "emitSnapshot v r =
     (if \<not> fr_sink r then r
      else if int (length (fr_queue r)) < op_SnapshotQueueSize (fr_options r) then r\<lparr>fr_queue := fr_queue r @ [v]\<rparr>
      else r\<lparr>fr_drops := fr_drops r + 1\<rparr>)"

text \<open>One pass of \<open>snapshotLoop\<close>: the oldest queued snapshot goes to the sink, if there is one.\<close>

definition publish_next :: "CtxRegistry \<Rightarrow> CtxRegistry" where
  "publish_next r =
     (case fr_queue r of [] \<Rightarrow> r
      | v # vs \<Rightarrow> r\<lparr>fr_queue := vs, fr_published := (if fr_sink r then fr_published r @ [v] else fr_published r)\<rparr>)"

definition expired :: "time \<Rightarrow> ctx_entry \<Rightarrow> bool" where
  "expired now e \<longleftrightarrow> cx_State (en_context e) = StateClosed \<and> \<not> time_before now (cx_ResolveUntil (en_context e))"

text \<open>\<open>cleanupExpiredLocked\<close>: the loop over the entries, then the loop over the tuples.\<close>

definition cleanup_entry ::
    "time \<Rightarrow> (string, ctx_entry) gomap \<times> (string, string) gomap \<times> bool \<Rightarrow> string \<times> ctx_entry \<Rightarrow>
     (string, ctx_entry) gomap \<times> (string, string) gomap \<times> bool" where
  "cleanup_entry now st p =
     (case st of (es, ts, removed) \<Rightarrow> case p of (fid, current) \<Rightarrow>
        if \<not> expired now current then (es, ts, removed)
        else (gdel fid es,
              (if en_hasTuple current then
                 (case tupleKey (cx_BackendTuple (en_context current)) of
                    Some key \<Rightarrow> if gget ts key = Some fid then gdel key ts else ts
                  | None \<Rightarrow> ts)
               else ts), True))"

definition tuple_current :: "(string, ctx_entry) gomap \<Rightarrow> string \<times> string \<Rightarrow> bool" where
  "tuple_current es p =
     (case p of (key, fid) \<Rightarrow>
        (case gget es fid of
           None \<Rightarrow> False
         | Some current \<Rightarrow> en_hasTuple current \<and> tupleKey (cx_BackendTuple (en_context current)) = Some key))"

definition cleanupExpiredLocked :: "time \<Rightarrow> CtxRegistry \<Rightarrow> CtxRegistry" where
  "cleanupExpiredLocked now r =
     (let (es, ts, removed) = foldl (cleanup_entry now) (fr_entries r, fr_tuples r, False) (fr_entries r);
          ts' = filter (tuple_current es) ts;
          r' = r\<lparr>fr_entries := es, fr_tuples := ts'\<rparr>
      in if removed \<or> ts' \<noteq> ts then signalLocked r' else r')"

definition Ctx_Open :: "time \<Rightarrow> Meta \<Rightarrow> CtxRegistry \<Rightarrow> CtxRegistry" where
  "Ctx_Open now meta r =
     (if meta_ID meta = [] \<or> fr_closed r then r
      else
        let started = (if is_zero_time (meta_StartedAt meta) then now else meta_StartedAt meta);
            r1 = cleanupExpiredLocked now r
        in if gget (fr_entries r1) (meta_ID meta) \<noteq> None then r1
           else if int (length (fr_entries r1)) \<ge> op_MaxEntries (fr_options r1) then r1\<lparr>fr_rejects := fr_rejects r1 + 1\<rparr>
           else
             let v = \<lparr>cx_FlowID = meta_ID meta, cx_Protocol = meta_Protocol meta,
                      cx_ClientAddr = addr_port_text (meta_ClientAddr meta), cx_Listener = meta_Listener meta,
                      cx_Route = meta_Route meta, cx_Upstream = meta_Upstream meta, cx_BackendKey = [],
                      cx_BackendTuple = zero_tuple, cx_CreatedAt = started, cx_EndedAt = 0, cx_ResolveUntil = 0,
                      cx_State = StateActive, cx_Generation = 0, cx_LastActivity = started,
                      cx_BytesUp = 0, cx_BytesDown = 0\<rparr>
             in emitSnapshot v (signalLocked (r1\<lparr>fr_entries :=
                  gput (meta_ID meta) \<lparr>en_context = v, en_hasTuple = False\<rparr> (fr_entries r1)\<rparr>)))"

definition update_ctx :: "Counters \<Rightarrow> FlowCtx \<Rightarrow> FlowCtx" where
  "update_ctx c v =
     v\<lparr>cx_LastActivity := (if is_zero_time (ctr_LastActivity c) then cx_LastActivity v else ctr_LastActivity c),
       cx_BytesUp := ctr_BytesUp c, cx_BytesDown := ctr_BytesDown c\<rparr>"

definition Ctx_Update :: "string \<Rightarrow> Counters \<Rightarrow> CtxRegistry \<Rightarrow> CtxRegistry" where
  "Ctx_Update fid c r =
     (case gget (fr_entries r) fid of
        None \<Rightarrow> r
      | Some e \<Rightarrow> r\<lparr>fr_entries := gput fid (e\<lparr>en_context := update_ctx c (en_context e)\<rparr>) (fr_entries r)\<rparr>)"

definition close_ctx :: "CtxOptions \<Rightarrow> time \<Rightarrow> Summary \<Rightarrow> FlowCtx \<Rightarrow> FlowCtx" where
  "close_ctx opts ended s v =
     v\<lparr>cx_State := StateClosed, cx_EndedAt := ended, cx_ResolveUntil := time_add ended (op_GracePeriod opts),
       cx_LastActivity := (if is_zero_time (sum_LastActivity s) then cx_LastActivity v else sum_LastActivity s),
       cx_BytesUp := sum_BytesUp s, cx_BytesDown := sum_BytesDown s\<rparr>"

definition Ctx_Close :: "time \<Rightarrow> Summary \<Rightarrow> CtxRegistry \<Rightarrow> CtxRegistry" where
  "Ctx_Close now s r =
     (let fid = meta_ID (sum_Meta s); ended = (if is_zero_time (sum_EndedAt s) then now else sum_EndedAt s)
      in if fid = [] then r
         else case gget (fr_entries r) fid of
                None \<Rightarrow> r
              | Some e \<Rightarrow>
                  let v = close_ctx (fr_options r) ended s (en_context e)
                  in emitSnapshot v (signalLocked (r\<lparr>fr_entries := gput fid (e\<lparr>en_context := v\<rparr>) (fr_entries r)\<rparr>)))"

text \<open>
  \<open>Bind\<close>: the Flow that held the tuple before loses it, the Flow's own previous tuple is
  forgotten, and the tuple is its own from now on.
\<close>

definition unbind_previous :: "string \<Rightarrow> string \<Rightarrow> CtxRegistry \<Rightarrow> CtxRegistry \<times> FlowCtx option" where
  "unbind_previous key fid r =
     (case gget (fr_tuples r) key of
        None \<Rightarrow> (r, None)
      | Some previous \<Rightarrow>
          if previous = fid then (r, None)
          else (case gget (fr_entries r) previous of
                  None \<Rightarrow> (r, None)
                | Some old \<Rightarrow>
                    if en_hasTuple old \<and> tupleKey (cx_BackendTuple (en_context old)) = Some key then
                      let v = (en_context old)\<lparr>cx_BackendTuple := zero_tuple, cx_BackendKey := []\<rparr>
                      in (r\<lparr>fr_entries := gput previous \<lparr>en_context = v, en_hasTuple = False\<rparr> (fr_entries r)\<rparr>, Some v)
                    else (r, None)))"

definition forget_own :: "string \<Rightarrow> ctx_entry \<Rightarrow> CtxRegistry \<Rightarrow> CtxRegistry" where
  "forget_own fid current r =
     (if en_hasTuple current then
        (case tupleKey (cx_BackendTuple (en_context current)) of
           None \<Rightarrow> r
         | Some oldKey \<Rightarrow>
             if gget (fr_tuples r) oldKey = Some fid then r\<lparr>fr_tuples := gdel oldKey (fr_tuples r)\<rparr> else r)
      else r)"

definition Ctx_Bind :: "time \<Rightarrow> string \<Rightarrow> BackendTuple \<Rightarrow> CtxRegistry \<Rightarrow> (ctx_error + unit) \<times> CtxRegistry" where
  "Ctx_Bind now fid tuple r =
     (case tupleKey tuple of
        None \<Rightarrow> (Inl ErrInvalidTuple, r)
      | Some key \<Rightarrow>
          if fr_closed r then (Inl ErrClosed, r)
          else case gget (fr_entries r) fid of
                 None \<Rightarrow> (Inl ErrFlowNotFound, r)
               | Some current \<Rightarrow>
                   if cx_State (en_context current) \<noteq> StateActive then (Inl ErrFlowNotFound, r)
                   else
                     let r1 = cleanupExpiredLocked now r;
                         (r2, replaced) = unbind_previous key fid r1;
                         r3 = forget_own fid current r2;
                         v = (en_context current)\<lparr>cx_Generation := cx_Generation (en_context current) + 1,
                               cx_BackendTuple := tuple, cx_BackendKey := bt_BackendKey tuple\<rparr>;
                         r4 = signalLocked (r3\<lparr>fr_entries := gput fid \<lparr>en_context = v, en_hasTuple = True\<rparr> (fr_entries r3),
                                             fr_tuples := gput key fid (fr_tuples r3)\<rparr>);
                         r5 = (case replaced of None \<Rightarrow> r4 | Some old \<Rightarrow> emitSnapshot old r4)
                     in (Inr (), emitSnapshot v r5))"

definition resolvable :: "time \<Rightarrow> ctx_entry \<Rightarrow> bool" where
  "resolvable now e \<longleftrightarrow> en_hasTuple e \<and>
     (cx_State (en_context e) = StateActive \<or>
      (cx_State (en_context e) = StateClosed \<and> time_before now (cx_ResolveUntil (en_context e))))"

text \<open>One round of \<open>Resolve\<close>: the cleanup and the lookup under the lock.\<close>

definition resolve_round :: "time \<Rightarrow> string \<Rightarrow> CtxRegistry \<Rightarrow> FlowCtx option \<times> CtxRegistry" where
  "resolve_round now key r =
     (if fr_closed r then (None, r)
      else
        let r1 = cleanupExpiredLocked now r
        in case gget (fr_tuples r1) key of
             None \<Rightarrow> (None, r1)
           | Some fid \<Rightarrow>
               (case gget (fr_entries r1) fid of
                  None \<Rightarrow> (None, r1)
                | Some e \<Rightarrow> if resolvable now e then (Some (en_context e), r1) else (None, r1)))"

definition Ctx_Lookup :: "time \<Rightarrow> string \<Rightarrow> CtxRegistry \<Rightarrow> FlowCtx option \<times> CtxRegistry" where
  "Ctx_Lookup now fid r =
     (if fid = [] \<or> fr_closed r then (None, r)
      else
        let r1 = cleanupExpiredLocked now r
        in case gget (fr_entries r1) fid of
             None \<Rightarrow> (None, r1)
           | Some e \<Rightarrow> if expired now e then (None, r1) else (Some (en_context e), r1))"

definition Shutdown :: "CtxRegistry \<Rightarrow> CtxRegistry" where
  "Shutdown r =
     (if fr_closed r then r
      else signalLocked (r\<lparr>fr_closed := True, fr_entries := [], fr_tuples := [],
             fr_published := (if fr_sink r then fr_published r @ fr_queue r else fr_published r), fr_queue := []\<rparr>))"

definition Ctx_Stats :: "CtxRegistry \<Rightarrow> CtxStats" where
  "Ctx_Stats r =
     \<lparr>st_Active = gcount (\<lambda>e. cx_State (en_context e) \<noteq> StateClosed) (fr_entries r),
      st_Closed = gcount (\<lambda>e. cx_State (en_context e) = StateClosed) (fr_entries r),
      st_BoundTuples = length (fr_tuples r), st_Capacity = op_MaxEntries (fr_options r),
      st_CapacityRejects = fr_rejects r, st_SnapshotDrops = fr_drops r\<rparr>"

text \<open>The calls the registry receives.\<close>

datatype ctx_op =
    CtxOpen time Meta
  | CtxUpdate string Counters
  | CtxClose time Summary
  | CtxBind time string BackendTuple
  | CtxRound time string
  | CtxLookup time string
  | CtxTick time
  | CtxPublish
  | CtxSetSink bool
  | CtxShutdown

fun ctx_step :: "CtxRegistry \<Rightarrow> ctx_op \<Rightarrow> CtxRegistry" where
  "ctx_step r (CtxOpen now meta) = Ctx_Open now meta r"
| "ctx_step r (CtxUpdate fid c) = Ctx_Update fid c r"
| "ctx_step r (CtxClose now s) = Ctx_Close now s r"
| "ctx_step r (CtxBind now fid t) = snd (Ctx_Bind now fid t r)"
| "ctx_step r (CtxRound now key) = snd (resolve_round now key r)"
| "ctx_step r (CtxLookup now fid) = snd (Ctx_Lookup now fid r)"
| "ctx_step r (CtxTick now) = cleanupExpiredLocked now r"
| "ctx_step r CtxPublish = publish_next r"
| "ctx_step r (CtxSetSink b) = SetSnapshotSink b r"
| "ctx_step r CtxShutdown = Shutdown r"

text \<open>
  The loop of \<open>Resolve\<close>. A pass looks the tuple up under the lock at reading \<open>now\<close> and, when
  it is to wait, reads the clock again at \<open>later\<close> to arm a timer for what remains until the
  deadline; the \<open>select\<close> then holds the channel \<open>updates\<close> of that pass (its generation) and
  the instant at which the timer fires.
\<close>

record resolve_wait =
  rw_armed :: time
  rw_updates :: nat

definition resolve_pass ::
    "string \<Rightarrow> duration \<Rightarrow> time \<Rightarrow> time \<Rightarrow> time \<Rightarrow> CtxRegistry \<Rightarrow> (FlowCtx option + resolve_wait) \<times> CtxRegistry" where
  "resolve_pass key wait deadline now later r =
     (case resolve_round now key r of
        (Some v, r1) \<Rightarrow> (Inl (Some v), r1)
      | (None, r1) \<Rightarrow>
          if fr_closed r1 \<or> wait \<le> 0 then (Inl None, r1)
          else
            let remaining = time_sub deadline later
            in if remaining \<le> 0 then (Inl None, r1)
               else (Inr \<lparr>rw_armed = time_add later remaining, rw_updates = fr_updates r1\<rparr>, r1))"

text \<open>
  What a waiting \<open>Resolve\<close> can meet: its channel \<open>updates\<close> being ready, which it is once the
  registry has signalled since the pass, with the two clock readings of the next pass; an
  operation of another goroutine; the end of the caller's context; the clock reaching an
  instant, which fires the timer when it was armed for no later. \<open>Inl\<close> is the result of a
  \<open>Resolve\<close> that has returned.
\<close>

datatype resolve_event = ResolveUpdate time time | ResolveOther ctx_op | ResolveCtxDone | ResolveClock time

fun resolve_step ::
    "string \<Rightarrow> duration \<Rightarrow> time \<Rightarrow> (FlowCtx option + resolve_wait) \<times> CtxRegistry \<Rightarrow> resolve_event \<Rightarrow>
     (FlowCtx option + resolve_wait) \<times> CtxRegistry" where
  "resolve_step key wait deadline (Inl v, r) e = (Inl v, r)"
| "resolve_step key wait deadline (Inr w, r) (ResolveUpdate now later) =
     (if fr_updates r = rw_updates w then (Inr w, r) else resolve_pass key wait deadline now later r)"
| "resolve_step key wait deadline (Inr w, r) (ResolveOther e) = (Inr w, ctx_step r e)"
| "resolve_step key wait deadline (Inr w, r) ResolveCtxDone = (Inl None, r)"
| "resolve_step key wait deadline (Inr w, r) (ResolveClock t) = (if rw_armed w \<le> t then (Inl None, r) else (Inr w, r))"

definition resolve_loop ::
    "string \<Rightarrow> duration \<Rightarrow> time \<Rightarrow> time \<Rightarrow> resolve_event list \<Rightarrow> CtxRegistry \<Rightarrow>
     (FlowCtx option + resolve_wait) \<times> CtxRegistry" where
  "resolve_loop key wait deadline now es r =
     foldl (resolve_step key wait deadline) (resolve_pass key wait deadline now now r) es"

text \<open>\<open>Resolve\<close>; the result is \<open>None\<close> while it waits. The first pass uses the reading of the deadline.\<close>

definition Resolve ::
    "time \<Rightarrow> BackendTuple \<Rightarrow> duration \<Rightarrow> resolve_event list \<Rightarrow> CtxRegistry \<Rightarrow> FlowCtx option option \<times> CtxRegistry" where
  "Resolve now tuple wait0 es r =
     (case tupleKey tuple of
        None \<Rightarrow> (Some None, r)
      | Some key \<Rightarrow>
          let wait1 = (if wait0 < 0 then 0 else wait0);
              wait = (if wait1 > op_ResolveTimeout (fr_options r) then op_ResolveTimeout (fr_options r) else wait1)
          in case resolve_loop key wait (time_add now wait) now es r of
               (Inl v, r1) \<Rightarrow> (Some v, r1)
             | (Inr w, r1) \<Rightarrow> (None, r1))"

section \<open>Requests\<close>

record CtxResolveRequest =
  rq_Protocol :: string
  rq_BackendKey :: string
  rq_LocalAddr :: string
  rq_RemoteAddr :: string
  rq_WaitMS :: int

definition maxResolveWaitMS :: int where "maxResolveWaitMS = 5000"

definition ParseTuple :: "CtxResolveRequest \<Rightarrow> (BackendTuple \<times> duration) option" where
  "ParseTuple q =
     (let protocol = ToLower (TrimSpace (rq_Protocol q)); backendKey = TrimSpace (rq_BackendKey q)
      in if protocol \<noteq> ProtocolTCP \<and> protocol \<noteq> ProtocolUDP then None
         else if backendKey = [] then None
         else case ParseAddrPort (TrimSpace (rq_LocalAddr q)) of
                None \<Rightarrow> None
              | Some localAddr \<Rightarrow>
                  (case ParseAddrPort (TrimSpace (rq_RemoteAddr q)) of
                     None \<Rightarrow> None
                   | Some remoteAddr \<Rightarrow>
                       if rq_WaitMS q < 0 \<or> rq_WaitMS q > maxResolveWaitMS then None
                       else Some (\<lparr>bt_Protocol = protocol, bt_BackendKey = backendKey, bt_LocalAddr = localAddr,
                                   bt_RemoteAddr = remoteAddr\<rparr>, rq_WaitMS q * millisecond)))"

definition ResolveRequest ::
    "time \<Rightarrow> CtxResolveRequest \<Rightarrow> resolve_event list \<Rightarrow> CtxRegistry \<Rightarrow> (ctx_error + FlowCtx) option \<times> CtxRegistry" where
  "ResolveRequest now q es r =
     (case ParseTuple q of
        None \<Rightarrow> (Some (Inl ErrInvalidTuple), r)
      | Some (tuple, wait) \<Rightarrow>
          if wait > op_ResolveTimeout (fr_options r) then (Some (Inl ErrInvalidTuple), r)
          else case Resolve now tuple wait es r of
                 (None, r1) \<Rightarrow> (None, r1)
               | (Some (Some v), r1) \<Rightarrow> (Some (Inr v), r1)
               | (Some None, r1) \<Rightarrow> (Some (Inl (if fr_closed r1 then ErrClosed else ErrFlowNotFound)), r1))"

section \<open>The invariant\<close>

text \<open>
  Entries and tuples mirror each other: every bound Flow owns exactly the tuple it shows,
  and every tuple leads to the Flow that shows it. The relation is on the two lookups.
\<close>

definition entry_key :: "ctx_entry \<Rightarrow> string option" where
  "entry_key e = (if en_hasTuple e then tupleKey (cx_BackendTuple (en_context e)) else None)"

definition mirror :: "(string \<Rightarrow> ctx_entry option) \<Rightarrow> (string \<Rightarrow> string option) \<Rightarrow> bool" where
  "mirror E T \<longleftrightarrow>
     (\<forall>fid e. E fid = Some e \<longrightarrow> fid \<noteq> [] \<and> cx_FlowID (en_context e) = fid \<and> (en_hasTuple e \<longrightarrow> entry_key e \<noteq> None)) \<and>
     (\<forall>k fid. T k = Some fid \<longleftrightarrow> (\<exists>e. E fid = Some e \<and> entry_key e = Some k))"

definition ctx_inv :: "CtxRegistry \<Rightarrow> bool" where
  "ctx_inv r \<longleftrightarrow> gok (fr_entries r) \<and> gok (fr_tuples r) \<and>
     int (length (fr_entries r)) \<le> op_MaxEntries (fr_options r) \<and>
     mirror (map_of (fr_entries r)) (map_of (fr_tuples r))"

lemma mirrorD:
  "mirror E T \<Longrightarrow> E fid = Some e \<Longrightarrow> fid \<noteq> [] \<and> cx_FlowID (en_context e) = fid \<and> (en_hasTuple e \<longrightarrow> entry_key e \<noteq> None)"
  "mirror E T \<Longrightarrow> T k = Some fid \<longleftrightarrow> (\<exists>e. E fid = Some e \<and> entry_key e = Some k)"
  by (auto simp: mirror_def)

lemma mirror_unique:
  "mirror E T \<Longrightarrow> E f1 = Some e1 \<Longrightarrow> entry_key e1 = Some k \<Longrightarrow> E f2 = Some e2 \<Longrightarrow> entry_key e2 = Some k \<Longrightarrow> f1 = f2"
  unfolding mirror_def by (metis option.inject)

lemma entry_key_unbound: "\<not> en_hasTuple e \<Longrightarrow> entry_key e = None"
  by (simp add: entry_key_def)

lemma mirrorI:
  assumes "\<And>fid e. E fid = Some e \<Longrightarrow> fid \<noteq> [] \<and> cx_FlowID (en_context e) = fid \<and> (en_hasTuple e \<longrightarrow> entry_key e \<noteq> None)"
    and "\<And>k fid. T k = Some fid \<Longrightarrow> \<exists>e. E fid = Some e \<and> entry_key e = Some k"
    and "\<And>k fid e. E fid = Some e \<Longrightarrow> entry_key e = Some k \<Longrightarrow> T k = Some fid"
  shows "mirror E T"
  using assms unfolding mirror_def by blast

lemma mirror_update:
  "mirror E T \<Longrightarrow> E fid = Some e \<Longrightarrow> cx_FlowID (en_context e') = cx_FlowID (en_context e) \<Longrightarrow>
   en_hasTuple e' = en_hasTuple e \<Longrightarrow> entry_key e' = entry_key e \<Longrightarrow> mirror (E(fid \<mapsto> e')) T"
  unfolding mirror_def by (auto split: if_splits)

lemma mirror_insert:
  "mirror E T \<Longrightarrow> E fid = None \<Longrightarrow> fid \<noteq> [] \<Longrightarrow> cx_FlowID (en_context e) = fid \<Longrightarrow> \<not> en_hasTuple e \<Longrightarrow>
   mirror (E(fid \<mapsto> e)) T"
  unfolding mirror_def by (auto simp: entry_key_def)

text \<open>Dropping the entries that satisfy a predicate, with the tuples that lead to them.\<close>

definition drop_entries :: "(ctx_entry \<Rightarrow> bool) \<Rightarrow> (string \<Rightarrow> ctx_entry option) \<Rightarrow> string \<Rightarrow> ctx_entry option" where
  "drop_entries P E fid = (case E fid of None \<Rightarrow> None | Some e \<Rightarrow> if P e then None else Some e)"

definition drop_tuples ::
    "(ctx_entry \<Rightarrow> bool) \<Rightarrow> (string \<Rightarrow> ctx_entry option) \<Rightarrow> (string \<Rightarrow> string option) \<Rightarrow> string \<Rightarrow> string option" where
  "drop_tuples P E T k = (case T k of None \<Rightarrow> None | Some fid \<Rightarrow> if drop_entries P E fid = None then None else Some fid)"

lemma mirror_drop: "mirror E T \<Longrightarrow> mirror (drop_entries P E) (drop_tuples P E T)"
proof (rule mirrorI)
  assume m: "mirror E T"
  show "fid \<noteq> [] \<and> cx_FlowID (en_context e) = fid \<and> (en_hasTuple e \<longrightarrow> entry_key e \<noteq> None)"
    if "drop_entries P E fid = Some e" for fid e
    using that mirrorD(1) [OF m] by (auto simp: drop_entries_def split: option.splits if_splits)
  show "\<exists>e. drop_entries P E fid = Some e \<and> entry_key e = Some k" if "drop_tuples P E T k = Some fid" for k fid
    using that mirrorD(2) [OF m, of k fid] by (auto simp: drop_entries_def drop_tuples_def split: option.splits if_splits)
  show "drop_tuples P E T k = Some fid" if "drop_entries P E fid = Some e" "entry_key e = Some k" for k fid e
    using that mirrorD(2) [OF m, of k fid] by (auto simp: drop_entries_def drop_tuples_def split: option.splits if_splits)
qed

section \<open>Cleaning up\<close>

lemma cleanup_fold:
  assumes "foldl (cleanup_entry now) (es, ts, rm) ps = (es', ts', rm')"
  shows "(\<forall>fid. map_of es' fid = (if \<exists>e. (fid, e) \<in> set ps \<and> expired now e then None else map_of es fid)) \<and>
    (gok es \<longrightarrow> gok es') \<and> length es' \<le> length es \<and> (gok ts \<longrightarrow> gok ts') \<and>
    (\<forall>k fid. map_of ts' k = Some fid \<longrightarrow> map_of ts k = Some fid) \<and>
    (\<forall>k fid. map_of ts k = Some fid \<and> \<not> (\<exists>e. (fid, e) \<in> set ps \<and> expired now e) \<longrightarrow> map_of ts' k = Some fid)"
  using assms
proof (induction ps arbitrary: es ts rm)
  case (Cons p ps)
  obtain fid e where p: "p = (fid, e)" by (cases p)
  obtain es1 ts1 rm1 where st: "cleanup_entry now (es, ts, rm) p = (es1, ts1, rm1)"
    by (cases "cleanup_entry now (es, ts, rm) p")
  then have es1: "map_of es1 i = (if i = fid \<and> expired now e then None else map_of es i)" "gok es \<longrightarrow> gok es1"
      "length es1 \<le> length es" "gok ts \<longrightarrow> gok ts1" for i
    by (auto simp: cleanup_entry_def p length_gdel_le split: if_splits option.splits)
  have ts1: "map_of ts1 k = Some i \<longrightarrow> map_of ts k = Some i"
    "map_of ts k = Some i \<and> \<not> (i = fid \<and> expired now e) \<longrightarrow> map_of ts1 k = Some i" for k i
    using st by (auto simp: cleanup_entry_def p split: if_splits option.splits)
  have IH: "foldl (cleanup_entry now) (es1, ts1, rm1) ps = (es', ts', rm')" using Cons.prems st by simp
  note ih = Cons.IH [OF IH]
  show ?case
  proof (intro conjI allI impI)
    show "map_of es' i = (if \<exists>e. (i, e) \<in> set (p # ps) \<and> expired now e then None else map_of es i)" for i
      using ih es1(1) [of i] p by auto
    show "length es' \<le> length es" using ih es1(3) by linarith
    show "map_of ts k = Some i" if "map_of ts' k = Some i" for k i using that ih ts1(1) by blast
    show "map_of ts' k = Some i" if "map_of ts k = Some i \<and> \<not> (\<exists>e. (i, e) \<in> set (p # ps) \<and> expired now e)" for k i
    proof -
      have "map_of ts1 k = Some i" using that ts1(2) [of k i] p by auto
      moreover have "\<not> (\<exists>e. (i, e) \<in> set ps \<and> expired now e)" using that by auto
      ultimately show ?thesis using ih by blast
    qed
  qed (use ih es1 in auto)
qed auto

lemma cleanup_spec:
  fixes now :: time and r :: CtxRegistry
  assumes inv: "ctx_inv r"
  defines "r' \<equiv> cleanupExpiredLocked now r"
  shows "map_of (fr_entries r') = drop_entries (expired now) (map_of (fr_entries r)) \<and>
    map_of (fr_tuples r') = drop_tuples (expired now) (map_of (fr_entries r)) (map_of (fr_tuples r)) \<and>
    gok (fr_entries r') \<and> gok (fr_tuples r') \<and> length (fr_entries r') \<le> length (fr_entries r) \<and>
    fr_options r' = fr_options r \<and> fr_closed r' = fr_closed r"
proof -
  obtain es ts rm where f: "foldl (cleanup_entry now) (fr_entries r, fr_tuples r, False) (fr_entries r) = (es, ts, rm)"
    by (cases "foldl (cleanup_entry now) (fr_entries r, fr_tuples r, False) (fr_entries r)")
  have ok: "gok (fr_entries r)" "gok (fr_tuples r)" and mi: "mirror (map_of (fr_entries r)) (map_of (fr_tuples r))"
    using inv by (auto simp: ctx_inv_def)
  note c = cleanup_fold [OF f]
  have ex: "(\<exists>e. (fid, e) \<in> set (fr_entries r) \<and> expired now e) \<longleftrightarrow>
      (\<exists>e. map_of (fr_entries r) fid = Some e \<and> expired now e)" for fid
    using gget_iff_set [OF ok(1)] by blast
  have es: "map_of es = drop_entries (expired now) (map_of (fr_entries r))"
    using c ex by (auto simp: fun_eq_iff drop_entries_def split: option.splits)
  have okts: "gok ts" using c ok by blast
  have "map_of (filter (tuple_current es) ts) k =
      drop_tuples (expired now) (map_of (fr_entries r)) (map_of (fr_tuples r)) k" for k
  proof -
    have cur: "tuple_current es (k, fid) \<longleftrightarrow> drop_entries (expired now) (map_of (fr_entries r)) fid \<noteq> None"
      if "map_of (fr_tuples r) k = Some fid" for fid
      using that mirrorD(2) [OF mi, of k fid]
      by (auto simp: tuple_current_def es drop_entries_def entry_key_def split: option.splits if_splits)
    have keep: "map_of ts k = Some fid \<longrightarrow> map_of (fr_tuples r) k = Some fid"
      "map_of (fr_tuples r) k = Some fid \<and> drop_entries (expired now) (map_of (fr_entries r)) fid \<noteq> None
         \<longrightarrow> map_of ts k = Some fid" for fid
    proof -
      show "map_of ts k = Some fid \<longrightarrow> map_of (fr_tuples r) k = Some fid" using c by blast
      have "\<not> (\<exists>e. (fid, e) \<in> set (fr_entries r) \<and> expired now e)"
        if "drop_entries (expired now) (map_of (fr_entries r)) fid \<noteq> None"
        using that unfolding ex by (auto simp: drop_entries_def)
      then show "map_of (fr_tuples r) k = Some fid \<and> drop_entries (expired now) (map_of (fr_entries r)) fid \<noteq> None
         \<longrightarrow> map_of ts k = Some fid" using c by blast
    qed
    show ?thesis
    proof (cases "map_of ts k")
      case None
      then have "map_of (fr_tuples r) k = Some fid \<Longrightarrow> drop_entries (expired now) (map_of (fr_entries r)) fid = None" for fid
        using keep(2) [of fid] by auto
      with None show ?thesis
        using gget_filter [OF okts, of "tuple_current es" k] by (simp add: drop_tuples_def split: option.splits)
    next
      case (Some fid)
      then have "map_of (fr_tuples r) k = Some fid" using keep(1) by simp
      with Some cur [OF this] show ?thesis
        using gget_filter [OF okts, of "tuple_current es" k] by (simp add: drop_tuples_def)
    qed
  qed
  then have ts: "map_of (filter (tuple_current es) ts) =
      drop_tuples (expired now) (map_of (fr_entries r)) (map_of (fr_tuples r))" by (rule ext)
  have r': "fr_entries r' = es" "fr_tuples r' = filter (tuple_current es) ts" "fr_options r' = fr_options r" "fr_closed r' = fr_closed r"
    using f by (simp_all add: r'_def cleanupExpiredLocked_def Let_def signalLocked_def)
  have "gok es" "length es \<le> length (fr_entries r)" using c ok by blast+
  then show ?thesis unfolding r' ts es using okts by (simp only: gok_filter simp_thms)
qed

lemma ctx_inv_cleanup: "ctx_inv r \<Longrightarrow> ctx_inv (cleanupExpiredLocked now r)"
  using cleanup_spec [of r now] mirror_drop [of "map_of (fr_entries r)" "map_of (fr_tuples r)"]
  by (auto simp: ctx_inv_def)

section \<open>Every operation keeps the invariant\<close>

lemma ctx_inv_cong:
  "ctx_inv r \<Longrightarrow> fr_entries r' = fr_entries r \<Longrightarrow> fr_tuples r' = fr_tuples r \<Longrightarrow> fr_options r' = fr_options r \<Longrightarrow> ctx_inv r'"
  by (simp add: ctx_inv_def)

lemma frame_simps [simp]:
  "fr_entries (signalLocked r) = fr_entries r" "fr_tuples (signalLocked r) = fr_tuples r"
  "fr_options (signalLocked r) = fr_options r" "fr_closed (signalLocked r) = fr_closed r"
  "fr_entries (emitSnapshot v r) = fr_entries r" "fr_tuples (emitSnapshot v r) = fr_tuples r"
  "fr_options (emitSnapshot v r) = fr_options r" "fr_closed (emitSnapshot v r) = fr_closed r"
  by (simp_all add: signalLocked_def emitSnapshot_def)

lemma ctx_inv_frame [simp]: "ctx_inv (signalLocked r) = ctx_inv r" "ctx_inv (emitSnapshot v r) = ctx_inv r"
  by (simp_all add: ctx_inv_def)

lemma length_gput_known: "map_of m k = Some v \<Longrightarrow> length (gput k w m) = length m"
  by (metis length_gput gget_None_iff option.distinct(1))

lemma ctx_inv_entry:
  assumes "ctx_inv r" and "map_of (fr_entries r) fid = Some e" and "cx_FlowID (en_context e') = cx_FlowID (en_context e)"
    and "en_hasTuple e' = en_hasTuple e" and "entry_key e' = entry_key e"
  shows "ctx_inv (r\<lparr>fr_entries := gput fid e' (fr_entries r)\<rparr>)"
  using assms mirror_update [of "map_of (fr_entries r)" "map_of (fr_tuples r)" fid e e'] length_gput_known [OF assms(2)]
  by (simp add: ctx_inv_def update_conv')

lemma ctx_inv_update: "ctx_inv r \<Longrightarrow> ctx_inv (Ctx_Update fid c r)"
  by (auto simp: Ctx_Update_def update_ctx_def entry_key_def split: option.splits intro!: ctx_inv_entry)

lemma ctx_inv_close: "ctx_inv r \<Longrightarrow> ctx_inv (Ctx_Close now s r)"
  by (auto simp: Ctx_Close_def Let_def close_ctx_def entry_key_def split: option.splits intro!: ctx_inv_entry)

lemma ctx_inv_open: "ctx_inv r \<Longrightarrow> ctx_inv (Ctx_Open now meta r)"
proof -
  assume inv: "ctx_inv r"
  let ?r = "cleanupExpiredLocked now r"
  have c: "ctx_inv ?r" using ctx_inv_cleanup inv .
  have new: "ctx_inv (?r\<lparr>fr_entries := gput fid e (fr_entries ?r)\<rparr>)"
    if "map_of (fr_entries ?r) fid = None" "fid \<noteq> []" "cx_FlowID (en_context e) = fid" "\<not> en_hasTuple e"
      "int (length (fr_entries ?r)) < op_MaxEntries (fr_options ?r)" for fid e
    using that c mirror_insert [of "map_of (fr_entries ?r)" "map_of (fr_tuples ?r)" fid e]
    by (auto simp: ctx_inv_def update_conv' length_gput)
  show ?thesis
    using inv c new
    by (auto simp: Ctx_Open_def Let_def intro: ctx_inv_cong [OF c])
qed

lemma mirror_unbind:
  assumes m: "mirror E T" and e: "E fid = Some e" "entry_key e = Some key"
    and e': "\<not> en_hasTuple e'" "cx_FlowID (en_context e') = cx_FlowID (en_context e)"
  shows "mirror (E(fid \<mapsto> e')) (T(key := None))"
proof (rule mirrorI)
  show "\<exists>x. (E(fid \<mapsto> e')) i = Some x \<and> entry_key x = Some k" if "(T(key := None)) k = Some i" for k i
    using that mirrorD(2) [OF m, of k i] e by (auto split: if_splits)
  show "(T(key := None)) k = Some i" if "(E(fid \<mapsto> e')) i = Some x" "entry_key x = Some k" for k i x
    using that mirrorD(2) [OF m, of k i] mirror_unique [OF m e, of i x] e' entry_key_unbound
    by (auto split: if_splits)
qed (use mirrorD(1) [OF m] e e' in \<open>auto split: if_splits\<close>)

lemma mirror_bind:
  assumes m: "mirror E T" and e: "E fid = Some e" "\<not> en_hasTuple e" and free: "T key = None"
    and e': "entry_key e' = Some key" "cx_FlowID (en_context e') = cx_FlowID (en_context e)"
  shows "mirror (E(fid \<mapsto> e')) (T(key \<mapsto> fid))"
proof (rule mirrorI)
  show "\<exists>x. (E(fid \<mapsto> e')) i = Some x \<and> entry_key x = Some k" if "(T(key \<mapsto> fid)) k = Some i" for k i
    using that mirrorD(2) [OF m, of k i] e e' entry_key_unbound by (auto split: if_splits)
  show "(T(key \<mapsto> fid)) k = Some i" if "(E(fid \<mapsto> e')) i = Some x" "entry_key x = Some k" for k i x
    using that mirrorD(2) [OF m, of k i] free e' by (auto split: if_splits)
qed (use mirrorD(1) [OF m] e e' in \<open>auto split: if_splits\<close>)

text \<open>
  The maps after a successful \<open>Bind\<close>: the tuple's previous owner is unbound, the Flow's own
  previous tuple is gone, and the Flow owns the tuple.
\<close>

definition unbound :: "ctx_entry \<Rightarrow> ctx_entry" where
  "unbound e = \<lparr>en_context = (en_context e)\<lparr>cx_BackendTuple := zero_tuple, cx_BackendKey := []\<rparr>, en_hasTuple = False\<rparr>"

lemma unbind_previous_spec:
  assumes inv: "ctx_inv r" and ok: "unbind_previous key fid r = (r2, replaced)"
  shows "ctx_inv (r2\<lparr>fr_tuples := (if map_of (fr_tuples r) key = Some fid then fr_tuples r2 else gdel key (fr_tuples r2))\<rparr>) \<and>
    map_of (fr_entries r2) fid = map_of (fr_entries r) fid \<and> fr_tuples r2 = fr_tuples r \<and> fr_options r2 = fr_options r"
proof (cases "map_of (fr_tuples r) key")
  case None
  then have "gdel key (fr_tuples r) = fr_tuples r" by (simp add: gdel_notin gget_None_iff)
  with None ok inv show ?thesis by (auto simp: unbind_previous_def intro: ctx_inv_cong)
next
  case (Some prev)
  show ?thesis
  proof (cases "prev = fid")
    case True
    with Some ok inv show ?thesis by (auto simp: unbind_previous_def intro: ctx_inv_cong)
  next
    case False
    from inv Some obtain old where old: "map_of (fr_entries r) prev = Some old" "entry_key old = Some key"
      by (auto simp: ctx_inv_def mirror_def)
    then have h: "en_hasTuple old" "tupleKey (cx_BackendTuple (en_context old)) = Some key"
      by (auto simp: entry_key_def split: if_splits)
    have r2: "r2 = r\<lparr>fr_entries := gput prev (unbound old) (fr_entries r)\<rparr>"
      using ok Some False old(1) h by (auto simp: unbind_previous_def unbound_def Let_def)
    have "mirror ((map_of (fr_entries r))(prev \<mapsto> unbound old)) ((map_of (fr_tuples r))(key := None))"
      using inv old by (intro mirror_unbind) (auto simp: ctx_inv_def unbound_def)
    then show ?thesis
      using r2 inv False Some length_gput_known [OF old(1)]
      by (auto simp: ctx_inv_def update_conv' delete_conv')
  qed
qed

lemma active_survives:
  "ctx_inv r \<Longrightarrow> map_of (fr_entries r) fid = Some e \<Longrightarrow> cx_State (en_context e) = StateActive \<Longrightarrow>
   map_of (fr_entries (cleanupExpiredLocked now r)) fid = Some e"
  using cleanup_spec [of r now] by (simp add: drop_entries_def expired_def)

lemma bind_maps:
  assumes inv: "ctx_inv r1" and cur: "map_of (fr_entries r1) fid = Some current"
    and un: "unbind_previous key fid r1 = (r2, replaced)" and v: "entry_key e' = Some key"
    and id: "cx_FlowID (en_context e') = cx_FlowID (en_context current)"
  defines "r3 \<equiv> forget_own fid current r2"
  shows "ctx_inv (r3\<lparr>fr_entries := gput fid e' (fr_entries r3), fr_tuples := gput key fid (fr_tuples r3)\<rparr>)"
proof -
  let ?T2 = "if map_of (fr_tuples r1) key = Some fid then fr_tuples r2 else gdel key (fr_tuples r2)"
  note u = unbind_previous_spec [OF inv un]
  let ?E = "map_of (fr_entries r2)" and ?T = "map_of ?T2"
  have m: "mirror ?E ?T" and ok: "gok (fr_entries r2)" "gok (fr_tuples r2)" and ef: "?E fid = Some current"
    and len: "int (length (fr_entries r2)) \<le> op_MaxEntries (fr_options r2)" and t2: "fr_tuples r2 = fr_tuples r1"
    using u cur inv by (auto simp: ctx_inv_def)
  have own: "map_of (fr_tuples r1) k = Some fid \<longleftrightarrow> entry_key current = Some k" for k
    using inv cur by (auto simp: ctx_inv_def mirror_def)
  have r3: "fr_entries r3 = fr_entries r2" "fr_options r3 = fr_options r2" "gok (fr_tuples r3)"
    using ok by (auto simp: r3_def forget_own_def split: option.splits)
  have "mirror (?E(fid \<mapsto> e')) ((map_of (fr_tuples r3))(key \<mapsto> fid))"
  proof (cases "entry_key current")
    case None
    then have nt: "\<not> en_hasTuple current" using mirrorD(1) [OF m ef] by auto
    have "map_of (fr_tuples r3) = map_of (fr_tuples r1)" using nt t2 by (simp add: r3_def forget_own_def)
    moreover have "?T = (map_of (fr_tuples r1))(key := None)" using own [of key] None t2 by (simp add: delete_conv')
    ultimately show ?thesis using mirror_bind [OF m ef nt _ v id] by simp
  next
    case (Some old)
    then have "en_hasTuple current" "tupleKey (cx_BackendTuple (en_context current)) = Some old"
      by (auto simp: entry_key_def split: if_splits)
    moreover have "map_of (fr_tuples r2) old = Some fid" using own [of old] Some t2 by simp
    ultimately have T3: "map_of (fr_tuples r3) = (map_of (fr_tuples r1))(old := None)"
      using t2 by (simp add: r3_def forget_own_def delete_conv')
    have "mirror (?E(fid \<mapsto> unbound current)) (?T(old := None))"
      by (rule mirror_unbind [OF m ef Some]) (simp_all add: unbound_def)
    then have "mirror ((?E(fid \<mapsto> unbound current))(fid \<mapsto> e')) ((?T(old := None))(key \<mapsto> fid))"
      by (rule mirror_bind [where e = "unbound current"])
        (use own [of key] Some t2 v id in \<open>auto simp: unbound_def delete_conv'\<close>)
    moreover have "(?T(old := None))(key \<mapsto> fid) = (map_of (fr_tuples r3))(key \<mapsto> fid)"
      using own [of key] Some t2 by (auto simp: T3 fun_eq_iff)
    ultimately show ?thesis by simp
  qed
  then show ?thesis
    using r3 ok len length_gput_known [OF ef] by (simp add: ctx_inv_def update_conv')
qed

lemma bind_success:
  assumes inv: "ctx_inv r" and ok: "Ctx_Bind now fid tuple r = (Inr (), r')" and key: "tupleKey tuple = Some key"
  shows "ctx_inv r' \<and> fr_closed r' = False \<and> fr_options r' = fr_options r \<and> map_of (fr_tuples r') key = Some fid \<and>
    (\<exists>current. map_of (fr_entries r) fid = Some current \<and> map_of (fr_entries r') fid = Some
       \<lparr>en_context = (en_context current)\<lparr>cx_Generation := cx_Generation (en_context current) + 1,
          cx_BackendTuple := tuple, cx_BackendKey := bt_BackendKey tuple\<rparr>, en_hasTuple = True\<rparr> \<and>
       cx_State (en_context current) = StateActive)"
proof -
  from ok key obtain current where cur: "map_of (fr_entries r) fid = Some current" "\<not> fr_closed r"
    "cx_State (en_context current) = StateActive"
    by (auto simp: Ctx_Bind_def split: option.splits if_splits)
  let ?r1 = "cleanupExpiredLocked now r"
  let ?e = "\<lparr>en_context = (en_context current)\<lparr>cx_Generation := cx_Generation (en_context current) + 1,
          cx_BackendTuple := tuple, cx_BackendKey := bt_BackendKey tuple\<rparr>, en_hasTuple = True\<rparr>"
  obtain r2 replaced where un: "unbind_previous key fid ?r1 = (r2, replaced)" by (cases "unbind_previous key fid ?r1")
  let ?r3 = "forget_own fid current r2"
  let ?r4 = "?r3\<lparr>fr_entries := gput fid ?e (fr_entries ?r3), fr_tuples := gput key fid (fr_tuples ?r3)\<rparr>"
  have c1: "ctx_inv ?r1" "map_of (fr_entries ?r1) fid = Some current"
    using ctx_inv_cleanup inv active_survives [OF inv cur(1,3)] by auto
  have inv4: "ctx_inv ?r4" by (rule bind_maps [OF c1 un]) (simp_all add: entry_key_def key)
  have r': "fr_entries r' = fr_entries ?r4" "fr_tuples r' = fr_tuples ?r4" "fr_options r' = fr_options ?r4" "fr_closed r' = fr_closed ?r4"
    using ok key cur un by (auto simp: Ctx_Bind_def Let_def split: option.splits)
  have "fr_closed ?r4 = fr_closed ?r1 \<and> fr_options ?r4 = fr_options ?r1"
    using un by (auto simp: unbind_previous_def forget_own_def Let_def split: option.splits if_splits)
  moreover have "fr_closed ?r1 = fr_closed r \<and> fr_options ?r1 = fr_options r" using cleanup_spec [OF inv] by simp
  ultimately show ?thesis using cur r' ctx_inv_cong [OF inv4 r'(1-3)] by auto
qed

lemma bind_failure: "Ctx_Bind now fid tuple r = (Inl e, r') \<Longrightarrow> r' = r"
  by (auto simp: Ctx_Bind_def Let_def split: option.splits if_splits prod.splits)

lemma ctx_inv_bind: "ctx_inv r \<Longrightarrow> ctx_inv (snd (Ctx_Bind now fid tuple r))"
proof (cases "Ctx_Bind now fid tuple r")
  case (Pair res r')
  assume inv: "ctx_inv r"
  show ?thesis
  proof (cases res)
    case (Inl e)
    with Pair inv bind_failure show ?thesis by fastforce
  next
    case (Inr u)
    with Pair have "tupleKey tuple \<noteq> None" by (cases "tupleKey tuple") (auto simp: Ctx_Bind_def)
    with Pair Inr inv bind_success [of r now fid tuple r'] show ?thesis by auto
  qed
qed

lemma ctx_inv_step: "ctx_inv r \<Longrightarrow> 0 \<le> op_MaxEntries (fr_options r) \<Longrightarrow> ctx_inv (ctx_step r e)"
proof (cases e)
  case (CtxBind now fid t)
  moreover assume "ctx_inv r"
  ultimately show ?thesis using ctx_inv_bind by simp
next
  case CtxShutdown
  moreover assume "ctx_inv r" "0 \<le> op_MaxEntries (fr_options r)"
  ultimately show ?thesis by (auto simp: Shutdown_def ctx_inv_def mirror_def)
qed (auto simp: resolve_round_def Ctx_Lookup_def publish_next_def SetSnapshotSink_def Let_def
      intro: ctx_inv_open ctx_inv_update ctx_inv_close ctx_inv_cleanup ctx_inv_cong split: option.splits list.splits)


lemma options_fixed: "fr_options (ctx_step r e) = fr_options r"
proof -
  have c: "fr_options (cleanupExpiredLocked now r) = fr_options r" for now
    by (simp add: cleanupExpiredLocked_def Let_def signalLocked_def split: prod.splits)
  have u: "fr_options r2 = fr_options r1" if "unbind_previous k f r1 = (r2, x)" for k f r1 r2 x
    using that by (auto simp: unbind_previous_def Let_def split: option.splits if_splits)
  have o: "fr_options (forget_own f cur r1) = fr_options r1" for f cur r1
    by (simp add: forget_own_def split: option.splits)
  show ?thesis
    by (cases e) (auto simp: Ctx_Open_def Ctx_Update_def Ctx_Close_def Ctx_Bind_def resolve_round_def Ctx_Lookup_def
        publish_next_def SetSnapshotSink_def Shutdown_def c o Let_def split: option.splits list.splits prod.splits dest: u)
qed

lemma normalized_positive: "0 < op_MaxEntries (normalized opts)"
  by (simp add: normalized_def DefaultOptions_def Let_def)

interpretation contexts: event_system ctx_step "\<lambda>r. ctx_inv r \<and> 0 \<le> op_MaxEntries (fr_options r)"
  by unfold_locales (auto simp: ctx_inv_step options_fixed)

lemma ctx_inv_new: "ctx_inv (NewCtxRegistry opts)"
  using normalized_positive [of opts] by (simp add: NewCtxRegistry_def ctx_inv_def mirror_def)

lemma ctx_inv_run: "ctx_inv (foldl ctx_step (NewCtxRegistry opts) ops)"
proof -
  have "ctx_inv (NewCtxRegistry opts) \<and> 0 \<le> op_MaxEntries (fr_options (NewCtxRegistry opts))"
    using ctx_inv_new normalized_positive [of opts] by (simp add: NewCtxRegistry_def)
  then show ?thesis using contexts.run_invar by blast
qed

lemma options_run: "fr_options (foldl ctx_step r ops) = fr_options r"
  by (induction ops arbitrary: r) (auto simp: options_fixed)

section \<open>Resolving\<close>

text \<open>Rounds and lookups, read off the maps before the cleanup.\<close>

lemma round_result:
  assumes inv: "ctx_inv r" and opn: "\<not> fr_closed r"
  shows "fst (resolve_round now key r) =
    (case map_of (fr_tuples r) key of
       None \<Rightarrow> None
     | Some fid \<Rightarrow> (case map_of (fr_entries r) fid of
         None \<Rightarrow> None
       | Some e \<Rightarrow> if resolvable now e then Some (en_context e) else None))"
proof -
  note c = cleanup_spec [OF inv, of now]
  have "resolvable now e \<Longrightarrow> \<not> expired now e" for e by (auto simp: resolvable_def expired_def)
  then show ?thesis
    using opn c
    by (auto simp: resolve_round_def Let_def drop_tuples_def drop_entries_def split: option.splits if_splits)
qed

lemma lookup_result:
  assumes inv: "ctx_inv r" and opn: "\<not> fr_closed r" and fid: "fid \<noteq> []"
  shows "fst (Ctx_Lookup now fid r) =
    (case map_of (fr_entries r) fid of None \<Rightarrow> None | Some e \<Rightarrow> if expired now e then None else Some (en_context e))"
  using cleanup_spec [OF inv, of now] opn fid
  by (auto simp: Ctx_Lookup_def Let_def drop_entries_def split: option.splits if_splits)

text \<open>
  C13: The registry's two tables agree after any sequence of calls: a tuple leads to a Flow
  exactly when that Flow's entry shows the tuple, so no tuple has two owners and no Flow is
  found under a tuple it has lost; and the number of entries stays within the configured
  capacity.
\<close>

theorem ctx_registry_consistent:
  "(map_of (fr_tuples (foldl ctx_step (NewCtxRegistry opts) ops)) key = Some fid \<longleftrightarrow>
      (\<exists>e. map_of (fr_entries (foldl ctx_step (NewCtxRegistry opts) ops)) fid = Some e \<and> en_hasTuple e \<and>
           tupleKey (cx_BackendTuple (en_context e)) = Some key)) \<and>
   int (length (fr_entries (foldl ctx_step (NewCtxRegistry opts) ops))) \<le> op_MaxEntries (normalized opts)"
proof -
  note inv = ctx_inv_run [of opts ops]
  have "fr_options (foldl ctx_step (NewCtxRegistry opts) ops) = normalized opts"
    by (simp add: options_run NewCtxRegistry_def)
  with inv show ?thesis
    unfolding ctx_inv_def mirror_def by (auto simp: entry_key_def split: if_splits)
qed

text \<open>
  The lookup through the tuple index gives what a search through all entries for a
  resolvable Flow with that tuple would give.
\<close>

lemma resolve_equals_search:
  "fst (resolve_round now key (foldl ctx_step (NewCtxRegistry opts) ops)) =
     (if fr_closed (foldl ctx_step (NewCtxRegistry opts) ops) then None
      else map_option en_context (List.find
             (\<lambda>e. en_hasTuple e \<and> tupleKey (cx_BackendTuple (en_context e)) = Some key \<and> resolvable now e)
             (map snd (fr_entries (foldl ctx_step (NewCtxRegistry opts) ops)))))"
proof -
  let ?r = "foldl ctx_step (NewCtxRegistry opts) ops"
  let ?P = "\<lambda>e. en_hasTuple e \<and> tupleKey (cx_BackendTuple (en_context e)) = Some key \<and> resolvable now e"
  note inv = ctx_inv_run [of opts ops]
  have ok: "gok (fr_entries ?r)" and m: "mirror (map_of (fr_entries ?r)) (map_of (fr_tuples ?r))"
    using inv by (auto simp: ctx_inv_def)
  have key: "map_of (fr_tuples ?r) key = Some fid \<longleftrightarrow>
      (\<exists>e. map_of (fr_entries ?r) fid = Some e \<and> en_hasTuple e \<and> tupleKey (cx_BackendTuple (en_context e)) = Some key)" for fid
    using mirrorD(2) [OF m, of key fid] by (auto simp: entry_key_def split: if_splits)
  have search: "List.find ?P (map snd (fr_entries ?r)) =
      (case map_of (fr_tuples ?r) key of None \<Rightarrow> None
       | Some fid \<Rightarrow> (case map_of (fr_entries ?r) fid of None \<Rightarrow> None | Some e \<Rightarrow> if resolvable now e then Some e else None))"
  proof (cases "List.find ?P (map snd (fr_entries ?r))")
    case None
    then have "\<not> ?P e" if "map_of (fr_entries ?r) fid = Some e" for fid e
      using gget_in_set [OF that] by (force simp: find_None_iff)
    with None key show ?thesis by (auto split: option.splits)
  next
    case (Some e)
    then have e: "?P e" "e \<in> set (map snd (fr_entries ?r))" by (auto simp: find_Some_iff)
    then obtain fid where "map_of (fr_entries ?r) fid = Some e" using gget_iff_set [OF ok] by auto
    with e Some key [of fid] show ?thesis by auto
  qed
  show ?thesis
  proof (cases "fr_closed ?r")
    case False
    show ?thesis unfolding round_result [OF inv False] search using False by (simp split: option.splits)
  qed (simp add: resolve_round_def)
qed

text \<open>The calls that neither end a Flow nor give its tuple away.\<close>

fun leaves_binding :: "string \<Rightarrow> string \<Rightarrow> ctx_op \<Rightarrow> bool" where
  "leaves_binding fid key (CtxBind now fid' t) \<longleftrightarrow> fid' \<noteq> fid \<and> tupleKey t \<noteq> Some key"
| "leaves_binding fid key (CtxClose now s) \<longleftrightarrow> meta_ID (sum_Meta s) \<noteq> fid"
| "leaves_binding fid key CtxShutdown \<longleftrightarrow> False"
| "leaves_binding fid key _ \<longleftrightarrow> True"

definition bound_active :: "string \<Rightarrow> BackendTuple \<Rightarrow> CtxRegistry \<Rightarrow> bool" where
  "bound_active fid tuple r \<longleftrightarrow> \<not> fr_closed r \<and>
     (\<exists>e. map_of (fr_entries r) fid = Some e \<and> en_hasTuple e \<and> cx_BackendTuple (en_context e) = tuple \<and>
          cx_State (en_context e) = StateActive)"

lemma bound_active_cleanup:
  "ctx_inv r \<Longrightarrow> bound_active fid tuple r \<Longrightarrow> bound_active fid tuple (cleanupExpiredLocked now r)"
  using cleanup_spec [of r now] active_survives [of r fid _ now] by (auto simp: bound_active_def)

lemma bound_active_frame:
  "bound_active fid tuple r \<Longrightarrow> fr_closed r' = fr_closed r \<Longrightarrow> map_of (fr_entries r') fid = map_of (fr_entries r) fid \<Longrightarrow>
   bound_active fid tuple r'"
  by (simp add: bound_active_def)

lemma bind_others:
  assumes inv: "ctx_inv r" and b: "bound_active fid tuple r" and fid': "fid' \<noteq> fid" and t: "tupleKey t \<noteq> tupleKey tuple"
  shows "bound_active fid tuple (snd (Ctx_Bind now fid' t r))"
proof (cases "Ctx_Bind now fid' t r")
  case (Pair res r')
  show ?thesis
  proof (cases res)
    case (Inl e)
    with Pair b bind_failure show ?thesis by fastforce
  next
    case (Inr u)
    then obtain key current where k: "tupleKey t = Some key" "\<not> fr_closed r" "map_of (fr_entries r) fid' = Some current"
      "cx_State (en_context current) = StateActive"
      using Pair by (auto simp: Ctx_Bind_def split: option.splits if_splits)
    let ?r1 = "cleanupExpiredLocked now r"
    have b1: "bound_active fid tuple ?r1" and inv1: "ctx_inv ?r1"
      using bound_active_cleanup [OF inv b] ctx_inv_cleanup [OF inv] by auto
    obtain r2 replaced where un: "unbind_previous key fid' ?r1 = (r2, replaced)" by (cases "unbind_previous key fid' ?r1")
    have "map_of (fr_tuples ?r1) key \<noteq> Some fid"
      using b1 inv1 t k(1) unfolding bound_active_def ctx_inv_def mirror_def by (auto simp: entry_key_def)
    then have "map_of (fr_entries r2) fid = map_of (fr_entries ?r1) fid" "fr_closed r2 = fr_closed ?r1"
      using un by (auto simp: unbind_previous_def Let_def split: option.splits if_splits)
    then have b2: "bound_active fid tuple r2" using b1 bound_active_frame by blast
    have f: "fr_entries (forget_own fid' current r2) = fr_entries r2" "fr_closed (forget_own fid' current r2) = fr_closed r2"
      by (simp_all add: forget_own_def split: option.splits)
    show ?thesis
      by (rule bound_active_frame [OF b2]) (use k un fid' f in \<open>auto simp: Ctx_Bind_def Let_def split: option.splits\<close>)
  qed
qed

lemma bound_active_step:
  assumes inv: "ctx_inv r" and b: "bound_active fid tuple r" and key: "tupleKey tuple = Some key" and ok: "leaves_binding fid key e"
  shows "bound_active fid tuple (ctx_step r e)"
proof -
  note c = bound_active_cleanup [OF inv b]
  obtain e0 where e0: "map_of (fr_entries r) fid = Some e0" using b by (auto simp: bound_active_def)
  have open_case: "bound_active fid tuple (Ctx_Open now meta r)" for now meta
    using b c [of now] by (auto simp: Ctx_Open_def Let_def bound_active_def)
  have update_case: "bound_active fid tuple (Ctx_Update fid' cs r)" for fid' cs
    using b by (auto simp: Ctx_Update_def bound_active_def update_ctx_def split: option.splits)
  show ?thesis
    using ok key b c bind_others [OF inv b] open_case update_case
    by (cases e) (auto simp: Ctx_Close_def resolve_round_def Ctx_Lookup_def publish_next_def SetSnapshotSink_def Let_def
        intro: bound_active_frame [OF b] split: option.splits list.splits)
qed

lemma bound_active_run:
  assumes "ctx_inv r" and "0 \<le> op_MaxEntries (fr_options r)" and "bound_active fid tuple r" and "tupleKey tuple = Some key"
    and "list_all (leaves_binding fid key) ops"
  shows "bound_active fid tuple (foldl ctx_step r ops) \<and> ctx_inv (foldl ctx_step r ops)"
  using assms
proof (induction ops arbitrary: r)
  case (Cons e ops)
  have "ctx_inv (ctx_step r e)" "0 \<le> op_MaxEntries (fr_options (ctx_step r e))" "bound_active fid tuple (ctx_step r e)"
    using Cons.prems ctx_inv_step [of r e] options_fixed [of r e] bound_active_step [of r fid tuple key e] by auto
  with Cons show ?case by simp
qed simp

lemma bound_active_round:
  assumes inv: "ctx_inv r" and b: "bound_active fid tuple r" and key: "tupleKey tuple = Some key"
  shows "\<exists>v. fst (resolve_round now key r) = Some v \<and> cx_FlowID v = fid \<and> cx_BackendTuple v = tuple \<and> cx_State v = StateActive"
proof -
  obtain e where e: "map_of (fr_entries r) fid = Some e" "en_hasTuple e" "cx_BackendTuple (en_context e) = tuple"
    "cx_State (en_context e) = StateActive" "\<not> fr_closed r"
    using b by (auto simp: bound_active_def)
  moreover have "map_of (fr_tuples r) key = Some fid" "cx_FlowID (en_context e) = fid"
    using inv e key unfolding ctx_inv_def mirror_def by (auto simp: entry_key_def)
  ultimately show ?thesis using round_result [OF inv] by (simp add: resolvable_def)
qed

lemma bind_bound_active:
  assumes "ctx_inv r" and "Ctx_Bind now fid tuple r = (Inr (), r')"
  shows "bound_active fid tuple r' \<and> ctx_inv r' \<and> fr_options r' = fr_options r \<and> (\<exists>key. tupleKey tuple = Some key)"
proof -
  obtain key where key: "tupleKey tuple = Some key" using assms(2) by (cases "tupleKey tuple") (auto simp: Ctx_Bind_def)
  from bind_success [OF assms key] key show ?thesis by (auto simp: bound_active_def)
qed

text \<open>
  Once \<open>Bind\<close> has succeeded, the tuple resolves to that Flow, with that tuple, for as
  long as the Flow is not closed, no other \<open>Bind\<close> takes the tuple or moves the Flow, and the
  registry is not shut down.
\<close>

lemma bind_resolves_until:
  assumes "r = foldl ctx_step (NewCtxRegistry opts) ops"
    and "Ctx_Bind now fid tuple r = (Inr (), r')"
    and "tupleKey tuple = Some key"
    and "list_all (leaves_binding fid key) ops'"
  shows "case fst (resolve_round t key (foldl ctx_step r' ops')) of
           None \<Rightarrow> False
         | Some v \<Rightarrow> cx_FlowID v = fid \<and> cx_BackendTuple v = tuple \<and> cx_State v = StateActive"
proof -
  have inv: "ctx_inv r" using ctx_inv_run assms(1) by simp
  have "0 \<le> op_MaxEntries (fr_options r')"
    using bind_bound_active [OF inv assms(2)] normalized_positive [of opts] assms(1)
    by (simp add: options_run NewCtxRegistry_def)
  with bind_bound_active [OF inv assms(2)] assms(3,4)
  have "bound_active fid tuple (foldl ctx_step r' ops')" "ctx_inv (foldl ctx_step r' ops')"
    using bound_active_run [of r' fid tuple key ops'] by auto
  from bound_active_round [OF this(2,1) assms(3), of t] show ?thesis by auto
qed

definition sample_tuple :: BackendTuple where
  "sample_tuple = \<lparr>bt_Protocol = ''tcp'', bt_BackendKey = ''b'', bt_LocalAddr = \<lparr>ap_addr = V4 1, ap_port = 0\<rparr>,
     bt_RemoteAddr = \<lparr>ap_addr = V4 2, ap_port = 0\<rparr>\<rparr>"

definition flow_meta :: "string \<Rightarrow> Meta" where
  "flow_meta fid = \<lparr>meta_ID = fid, meta_Protocol = ''tcp'', meta_ClientAddr = \<lparr>ap_addr = V4 3, ap_port = 0\<rparr>,
     meta_Listener = [], meta_Route = [], meta_Upstream = ''u'', meta_StartedAt = 5\<rparr>"

definition sample_contexts :: CtxRegistry where
  "sample_contexts = foldl ctx_step (NewCtxRegistry DefaultOptions) [CtxOpen 5 (flow_meta ''f''), CtxOpen 6 (flow_meta ''g'')]"

lemma sample_tuple_key: "tupleKey sample_tuple \<noteq> None"
  by (simp add: tupleKey_def sample_tuple_def ProtocolTCP_def ToLower_def TrimSpace_def is_space_def lower_char_def char_in_def
      addr_port_valid_def Let_def)

lemma sample_contexts_entries:
  "map (\<lambda>(k, e). (k, cx_State (en_context e), en_hasTuple e)) (fr_entries sample_contexts) =
     [(''f'', StateActive, False), (''g'', StateActive, False)] \<and>
   \<not> fr_closed sample_contexts \<and> fr_tuples sample_contexts = [] \<and> \<not> fr_sink sample_contexts"
  by (simp add: sample_contexts_def flow_meta_def NewCtxRegistry_def Ctx_Open_def cleanupExpiredLocked_def cleanup_entry_def
      expired_def normalized_def DefaultOptions_def Let_def signalLocked_def emitSnapshot_def zero_tuple_def)

lemma sample_contexts_inv: "ctx_inv sample_contexts"
  unfolding sample_contexts_def by (rule ctx_inv_run)

lemma sample_contexts_options: "fr_options sample_contexts = normalized DefaultOptions"
  unfolding sample_contexts_def options_run by (simp add: NewCtxRegistry_def)

lemma sample_bind_ok: "fst (Ctx_Bind 7 ''f'' sample_tuple sample_contexts) = Inr ()"
proof -
  obtain e where "map_of (fr_entries sample_contexts) ''f'' = Some e" "cx_State (en_context e) = StateActive"
    using sample_contexts_entries by (cases "fr_entries sample_contexts") auto
  moreover obtain key where "tupleKey sample_tuple = Some key" using sample_tuple_key by blast
  ultimately show ?thesis
    using sample_contexts_entries by (auto simp: Ctx_Bind_def Let_def split: prod.splits)
qed

lemma bind_resolves_until_sample:
  "case fst (resolve_round 9 (the (tupleKey sample_tuple))
      (foldl ctx_step (snd (Ctx_Bind 7 ''f'' sample_tuple sample_contexts)) [CtxLookup 8 ''g'', CtxTick 8])) of
     None \<Rightarrow> False
   | Some v \<Rightarrow> cx_FlowID v = ''f'' \<and> cx_BackendTuple v = sample_tuple \<and> cx_State v = StateActive"
proof -
  obtain key where key: "tupleKey sample_tuple = Some key" using sample_tuple_key by blast
  have b: "Ctx_Bind 7 ''f'' sample_tuple sample_contexts = (Inr (), snd (Ctx_Bind 7 ''f'' sample_tuple sample_contexts))"
    using sample_bind_ok by (metis prod.collapse)
  show ?thesis
    using bind_resolves_until [OF sample_contexts_def b key, of "[CtxLookup 8 ''g'', CtxTick 8]" 9] key by simp
qed

lemma closed_empty: "fr_closed (foldl ctx_step (NewCtxRegistry opts) ops) \<Longrightarrow> fr_entries (foldl ctx_step (NewCtxRegistry opts) ops) = []"
proof -
  have cl: "fr_closed (cleanupExpiredLocked now r) = fr_closed r \<and> (fr_entries r = [] \<longrightarrow> fr_entries (cleanupExpiredLocked now r) = [])" for now r
    by (auto simp: cleanupExpiredLocked_def Let_def signalLocked_def split: prod.splits)
  have bind: "fr_closed r \<Longrightarrow> snd (Ctx_Bind now fid t r) = r" for now fid t r
    by (simp add: Ctx_Bind_def split: option.splits)
  have bind': "\<not> fr_closed r \<Longrightarrow> \<not> fr_closed (snd (Ctx_Bind now fid t r))" for now fid t r
    using cl [of now r]
    by (auto simp: Ctx_Bind_def Let_def unbind_previous_def forget_own_def split: option.splits if_splits prod.splits)
  have bind_step: "(fr_closed r \<longrightarrow> fr_entries r = []) \<Longrightarrow>
      fr_closed (snd (Ctx_Bind now fid t r)) \<longrightarrow> fr_entries (snd (Ctx_Bind now fid t r)) = []" for now fid t r
    using bind bind' by (cases "fr_closed r") auto
  have step: "(fr_closed r \<longrightarrow> fr_entries r = []) \<Longrightarrow> fr_closed (ctx_step r e) \<longrightarrow> fr_entries (ctx_step r e) = []" for r e
    using cl bind_step
    by (cases e) (auto simp: Ctx_Open_def Ctx_Update_def Ctx_Close_def resolve_round_def Ctx_Lookup_def
        publish_next_def SetSnapshotSink_def Shutdown_def Let_def split: option.splits list.splits)
  have "fr_closed (foldl ctx_step r ops) \<longrightarrow> fr_entries (foldl ctx_step r ops) = []" if "fr_closed r \<longrightarrow> fr_entries r = []" for r
    using that step by (induction ops arbitrary: r) auto
  moreover assume "fr_closed (foldl ctx_step (NewCtxRegistry opts) ops)"
  ultimately show ?thesis by (simp add: NewCtxRegistry_def)
qed

text \<open>
  A closed Flow is found, by identifier and by tuple, exactly until its grace period
  after the end of the Flow has passed, with the final byte counts of its summary.
\<close>

lemma closed_flow_grace:
  assumes "r = foldl ctx_step (NewCtxRegistry opts) ops"
    and "map_of (fr_entries r) fid = Some e" and "en_hasTuple e" and "tupleKey (cx_BackendTuple (en_context e)) = Some key"
    and "meta_ID (sum_Meta s) = fid" and "sum_EndedAt s \<noteq> 0"
    and "v = close_ctx (fr_options r) (sum_EndedAt s) s (en_context e)"
    and "until = sum_EndedAt s + op_GracePeriod (normalized opts)"
  shows "fst (Ctx_Lookup t fid (Ctx_Close now s r)) = (if t < until then Some v else None) \<and>
         fst (resolve_round t key (Ctx_Close now s r)) = (if t < until then Some v else None) \<and>
         cx_State v = StateClosed \<and> cx_BytesUp v = sum_BytesUp s \<and> cx_BytesDown v = sum_BytesDown s"
proof -
  have inv: "ctx_inv r" using ctx_inv_run assms(1) by simp
  let ?r = "Ctx_Close now s r"
  have fid: "fid \<noteq> []" and T: "map_of (fr_tuples r) key = Some fid"
    using inv assms(2-4) unfolding ctx_inv_def mirror_def by (auto simp: entry_key_def)
  have "fr_closed r \<Longrightarrow> fr_entries r = []"
    using closed_empty assms(1) by simp
  then have opn: "\<not> fr_closed r" using assms(2) by auto
  have r': "map_of (fr_entries ?r) fid = Some (e\<lparr>en_context := v\<rparr>)" "fr_tuples ?r = fr_tuples r" "\<not> fr_closed ?r"
    using assms(2,5-7) fid opn by (simp_all add: Ctx_Close_def Let_def)
  have inv': "ctx_inv ?r" by (rule ctx_inv_close [OF inv])
  have "fr_options r = normalized opts" using assms(1) by (simp add: options_run NewCtxRegistry_def)
  then have v: "cx_State v = StateClosed" "cx_ResolveUntil v = until" "cx_BytesUp v = sum_BytesUp s" "cx_BytesDown v = sum_BytesDown s"
    using assms(7,8) by (simp_all add: close_ctx_def time_add_def)
  have "fst (Ctx_Lookup t fid ?r) = (if t < until then Some v else None)"
    unfolding lookup_result [OF inv' r'(3) fid] using r' v by (simp add: expired_def time_before_def)
  moreover have "fst (resolve_round t key ?r) = (if t < until then Some v else None)"
    unfolding round_result [OF inv' r'(3)] using r' v T assms(3) by (simp add: resolvable_def time_before_def)
  ultimately show ?thesis using v by blast
qed

definition sample_summary :: "string \<Rightarrow> time \<Rightarrow> Summary" where
  "sample_summary fid ended = \<lparr>sum_Meta = flow_meta fid, sum_EndedAt = ended, sum_LastActivity = 9,
     sum_BytesUp = 3, sum_BytesDown = 4, sum_CloseReason = ''eof''\<rparr>"

lemma closed_flow_grace_sample:
  "\<exists>e v. map_of (fr_entries (snd (Ctx_Bind 7 ''f'' sample_tuple sample_contexts))) ''f'' = Some e \<and>
     fst (Ctx_Lookup 19 ''f'' (Ctx_Close 10 (sample_summary ''f'' 11) (snd (Ctx_Bind 7 ''f'' sample_tuple sample_contexts)))) = Some v \<and>
     cx_BytesUp v = 3 \<and>
     fst (Ctx_Lookup 30000000011 ''f'' (Ctx_Close 10 (sample_summary ''f'' 11) (snd (Ctx_Bind 7 ''f'' sample_tuple sample_contexts)))) = None"
proof -
  let ?r = "snd (Ctx_Bind 7 ''f'' sample_tuple sample_contexts)"
  obtain key where key: "tupleKey sample_tuple = Some key" using sample_tuple_key by blast
  have b: "Ctx_Bind 7 ''f'' sample_tuple sample_contexts = (Inr (), ?r)"
    using sample_bind_ok by (metis prod.collapse)
  have r: "?r = foldl ctx_step (NewCtxRegistry DefaultOptions)
      [CtxOpen 5 (flow_meta ''f''), CtxOpen 6 (flow_meta ''g''), CtxBind 7 ''f'' sample_tuple]"
    by (simp add: sample_contexts_def)
  obtain e where e: "map_of (fr_entries ?r) ''f'' = Some e" "en_hasTuple e" "cx_BackendTuple (en_context e) = sample_tuple"
    using bind_bound_active [OF sample_contexts_inv b] by (auto simp: bound_active_def)
  have sm: "meta_ID (sum_Meta (sample_summary ''f'' 11)) = ''f''" "sum_EndedAt (sample_summary ''f'' 11) = 11"
    "sum_BytesUp (sample_summary ''f'' 11) = 3"
    by (simp_all add: sample_summary_def flow_meta_def)
  have g: "op_GracePeriod (normalized DefaultOptions) = 30000000000" by (simp add: normalized_def DefaultOptions_def)
  show ?thesis
    using closed_flow_grace [OF r e(1,2) _ sm(1) _ refl refl, of key 19 10]
      closed_flow_grace [OF r e(1,2) _ sm(1) _ refl refl, of key 30000000011 10] e key sm g
    by auto
qed

section \<open>Waiting\<close>

lemma resolve_pass_round:
  "snd (resolve_pass key wait deadline now later r) = ctx_step r (CtxRound now key)"
  by (auto simp: resolve_pass_def Let_def split: prod.splits option.splits)

lemma resolve_returned: "foldl (resolve_step key wait deadline) (Inl v, r) es = (Inl v, r)"
  by (induction es) auto

lemma resolve_step_run:
  "\<exists>ops. snd (foldl (resolve_step key wait deadline) (st, r) es) = foldl ctx_step r ops"
proof (induction es arbitrary: st r)
  case Nil
  show ?case by (auto intro: exI [of _ "[]"])
next
  case (Cons e es)
  obtain st' r' where s: "resolve_step key wait deadline (st, r) e = (st', r')" by (meson surj_pair)
  have "r' = r \<or> (\<exists>x. r' = ctx_step r x)"
  proof (cases st)
    case (Inr w)
    show ?thesis
    proof (cases e)
      case (ResolveUpdate t u)
      with s Inr show ?thesis using resolve_pass_round [of key wait deadline t u r] by (metis Pair_inject resolve_step.simps(2) snd_conv)
    qed (use s Inr in \<open>auto split: if_splits\<close>)
  qed (use s in auto)
  moreover obtain ops where "snd (foldl (resolve_step key wait deadline) (st', r') es) = foldl ctx_step r' ops"
    using Cons.IH by blast
  ultimately show ?case using s by (metis foldl_Cons)
qed

text \<open>A timer armed in any pass fires at the deadline: no later, and for an int64 wait no earlier.\<close>

lemma pass_armed:
  assumes "resolve_pass key wait deadline now later r = (Inr w, r1)"
  shows "rw_armed w \<le> deadline" and "deadline - later \<le> max_duration \<Longrightarrow> rw_armed w = deadline"
    and "rw_updates w = fr_updates r1" and "0 < wait" and "\<not> fr_closed r1"
  using assms
  by (auto simp: resolve_pass_def Let_def time_sub_def time_add_def min_duration_def split: prod.splits option.splits if_splits)

lemma pass_gave_up:
  assumes "resolve_pass key wait deadline now later r = (Inl None, r1)"
  shows "fr_closed r1 \<or> wait \<le> 0 \<or> deadline \<le> later"
  using assms
  by (auto simp: resolve_pass_def Let_def time_sub_def min_duration_def max_duration_def min_def max_def split: prod.splits option.splits if_splits)

lemma resolve_ends:
  assumes "\<And>w. st = Inr w \<Longrightarrow> rw_armed w \<le> deadline"
    and "ResolveCtxDone \<in> set es \<or> (\<exists>t. ResolveClock t \<in> set es \<and> deadline \<le> t)"
  shows "isl (fst (foldl (resolve_step key wait deadline) (st, r) es))"
  using assms
proof (induction es arbitrary: st r)
  case (Cons e es)
  show ?case
  proof (cases st)
    case (Inl v)
    then show ?thesis using resolve_returned [of key wait deadline v r "e # es"] by simp
  next
    case (Inr w)
    obtain st' r' where s: "resolve_step key wait deadline (st, r) e = (st', r')" by (meson surj_pair)
    show ?thesis
    proof (cases st')
      case v: (Inl v)
      then show ?thesis using s resolve_returned [of key wait deadline v r' es] by simp
    next
      case w': (Inr w')
      have "rw_armed w' \<le> deadline"
        using s Inr w' Cons.prems(1) pass_armed(1) [of key wait deadline] by (cases e) (auto split: if_splits)
      moreover have "e \<noteq> ResolveCtxDone" "\<And>t. e = ResolveClock t \<Longrightarrow> t < deadline"
        using s Inr w' Cons.prems(1) [of w] by (auto split: if_splits)
      ultimately show ?thesis using Cons.IH [of st' r'] Cons.prems(2) s w' by fastforce
    qed
  qed
qed simp

lemma resolve_not_early:
  assumes "\<And>w. st = Inr w \<Longrightarrow> rw_armed w = deadline \<and> 0 < wait"
    and "\<And>t u. ResolveUpdate t u \<in> set es \<Longrightarrow> deadline - u \<le> max_duration"
    and "foldl (resolve_step key wait deadline) (st, r) es = (Inl None, r1)" and "st \<noteq> Inl None"
  shows "fr_closed r1 \<or> ResolveCtxDone \<in> set es \<or>
    (\<exists>t u. ResolveUpdate t u \<in> set es \<and> deadline \<le> u) \<or> (\<exists>t. ResolveClock t \<in> set es \<and> deadline \<le> t)"
  using assms
proof (induction es arbitrary: st r)
  case (Cons e es)
  obtain st' r' where s: "resolve_step key wait deadline (st, r) e = (st', r')" by (meson surj_pair)
  have w: "\<exists>w. st = Inr w \<and> rw_armed w = deadline \<and> 0 < wait"
    using Cons.prems(1,3,4) resolve_returned [of key wait deadline _ r "e # es"] by (cases st) auto
  show ?case
  proof (cases "st' = Inl None")
    case True
    have "r1 = r'" using True s Cons.prems(3) resolve_returned [of key wait deadline None r' es] by simp
    then show ?thesis
      using True s w pass_gave_up [of key wait deadline] by (cases e) (fastforce split: if_splits)+
  next
    case False
    have "rw_armed w' = deadline \<and> 0 < wait" if "st' = Inr w'" for w'
      using that s w Cons.prems(2) pass_armed(2,4) [of key wait deadline] by (cases e) (fastforce split: if_splits)+
    moreover have "deadline - u \<le> max_duration" if "ResolveUpdate t u \<in> set es" for t u
      using Cons.prems(2) [of t u] that by simp
    ultimately show ?thesis using Cons.IH [of st' r'] Cons.prems(3) s False by (simp, blast)
  qed
qed simp

definition resolve_wait_for :: "duration \<Rightarrow> CtxRegistry \<Rightarrow> duration" where
  "resolve_wait_for wait0 r = min (max 0 wait0) (op_ResolveTimeout (fr_options r))"

lemma Resolve_loop:
  assumes "tupleKey tuple = Some key"
  shows "Resolve now tuple wait0 es r =
    (case resolve_loop key (resolve_wait_for wait0 r) (now + resolve_wait_for wait0 r) now es r of
       (Inl v, r1) \<Rightarrow> (Some v, r1) | (Inr w, r1) \<Rightarrow> (None, r1))"
proof -
  have w: "(let w1 = (if wait0 < 0 then 0 else wait0) in
      if w1 > op_ResolveTimeout (fr_options r) then op_ResolveTimeout (fr_options r) else w1) = resolve_wait_for wait0 r"
    by (auto simp: Let_def resolve_wait_for_def)
  show ?thesis unfolding Resolve_def Let_def assms option.case w [unfolded Let_def] time_add_def by simp
qed

text \<open>
  C24: \<open>Resolve\<close> waits for as long as it was asked to, capped by the registry's timeout,
  however often it is woken in between. Once the clock reaches its deadline, or its caller's
  context ends, it has returned; and it gives up only when the tuple is no tuple, there is
  nothing to wait for, the registry is closed, the context ends, or the clock has reached the
  deadline. The wait is an int64 and no later reading of the clock lies before the call.
\<close>

theorem resolve_bounded:
  assumes "wait = min (max 0 wait0) (op_ResolveTimeout (fr_options r))"
    and "wait0 \<le> max_duration" and "\<And>t u. ResolveUpdate t u \<in> set es \<Longrightarrow> now \<le> u"
  shows "(ResolveCtxDone \<in> set es \<or> (\<exists>t. ResolveClock t \<in> set es \<and> now + wait \<le> t) \<longrightarrow>
       fst (Resolve now tuple wait0 es r) \<noteq> None) \<and>
    (fst (Resolve now tuple wait0 es r) = Some None \<longrightarrow>
       tupleKey tuple = None \<or> wait \<le> 0 \<or> fr_closed (snd (Resolve now tuple wait0 es r)) \<or> ResolveCtxDone \<in> set es \<or>
       (\<exists>t u. ResolveUpdate t u \<in> set es \<and> now + wait \<le> u) \<or> (\<exists>t. ResolveClock t \<in> set es \<and> now + wait \<le> t))"
proof (cases "tupleKey tuple")
  case None
  then show ?thesis by (simp add: Resolve_def)
next
  case (Some key)
  have w: "resolve_wait_for wait0 r = wait" using assms(1) by (simp add: resolve_wait_for_def)
  note R = Resolve_loop [OF Some, of now wait0 es r, unfolded w resolve_loop_def]
  obtain st r1 where p: "resolve_pass key wait (now + wait) now now r = (st, r1)" by (meson surj_pair)
  have wm: "wait \<le> max_duration" using assms(1,2) by (auto simp: max_duration_def)
  have armed: "rw_armed w = now + wait \<and> 0 < wait" if "st = Inr w" for w
    using pass_armed(2,4) [of key wait "now + wait" now now r w r1] p that wm by simp
  have "isl (fst (foldl (resolve_step key wait (now + wait)) (st, r1) es))"
    if "ResolveCtxDone \<in> set es \<or> (\<exists>t. ResolveClock t \<in> set es \<and> now + wait \<le> t)"
    using that armed by (intro resolve_ends) auto
  then have ends: "ResolveCtxDone \<in> set es \<or> (\<exists>t. ResolveClock t \<in> set es \<and> now + wait \<le> t) \<longrightarrow>
      fst (Resolve now tuple wait0 es r) \<noteq> None"
    unfolding R p by (cases "foldl (resolve_step key wait (now + wait)) (st, r1) es") (fastforce simp: isl_def split: sum.splits)
  have late: "now + wait - u \<le> max_duration" if "ResolveUpdate t u \<in> set es" for t u
    using assms(3) [OF that] wm by linarith
  show ?thesis
  proof (cases "st = Inl None")
    case True
    with pass_gave_up [of key wait "now + wait" now now r r1] p resolve_returned [of key wait "now + wait" None r1 es]
    show ?thesis using ends unfolding R by auto
  next
    case False
    then show ?thesis
      using ends resolve_not_early [of st "now + wait" wait es key r1, OF armed late] unfolding R p
      by (fastforce split: prod.splits sum.splits)
  qed
qed

theorem resolve_bounded_witness:
  "fst (Resolve 100 sample_tuple 1000000000000
     [ResolveUpdate 2000 2001, ResolveClock 4000000000, ResolveClock 5000000100] sample_contexts) \<noteq> None"
  using resolve_bounded [OF refl, of 1000000000000 "[ResolveUpdate 2000 2001, ResolveClock 4000000000, ResolveClock 5000000100]"
      100 sample_contexts sample_tuple]
  by (auto simp: sample_contexts_options normalized_def DefaultOptions_def max_duration_def)

text \<open>The generation of \<open>updates\<close> never falls, and a successful \<open>Bind\<close> raises it.\<close>

lemma updates_cleanup: "fr_updates r \<le> fr_updates (cleanupExpiredLocked now r)"
  by (simp add: cleanupExpiredLocked_def Let_def signalLocked_def split: prod.splits)

lemma updates_emit [simp]: "fr_updates (emitSnapshot v r) = fr_updates r"
  by (simp add: emitSnapshot_def)

lemma updates_unbind: "unbind_previous key fid r = (r', x) \<Longrightarrow> fr_updates r' = fr_updates r"
  by (auto simp: unbind_previous_def Let_def split: option.splits if_splits)

lemma updates_forget [simp]: "fr_updates (forget_own fid cur r) = fr_updates r"
  by (simp add: forget_own_def split: option.splits)

lemma updates_bind: "Ctx_Bind now fid tuple r = (Inr (), r') \<Longrightarrow> fr_updates r < fr_updates r'"
  using updates_cleanup [of r now]
  by (auto simp: Ctx_Bind_def Let_def signalLocked_def dest!: updates_unbind split: option.splits if_splits prod.splits)

lemma updates_mono: "fr_updates r \<le> fr_updates (ctx_step r e)"
proof (cases e)
  case (CtxBind now fid t)
  show ?thesis
  proof (cases "fst (Ctx_Bind now fid t r)")
    case (Inl x)
    then have "snd (Ctx_Bind now fid t r) = r"
      by (auto simp: Ctx_Bind_def Let_def split: option.splits if_splits prod.splits)
    with CtxBind show ?thesis by simp
  next
    case (Inr u)
    then have "Ctx_Bind now fid t r = (Inr (), snd (Ctx_Bind now fid t r))" by (metis old.unit.exhaust prod.collapse)
    from updates_bind [OF this] CtxBind show ?thesis by simp
  qed
qed (use updates_cleanup [of r] in \<open>auto simp: Ctx_Open_def Ctx_Update_def Ctx_Close_def resolve_round_def
    Ctx_Lookup_def publish_next_def SetSnapshotSink_def Shutdown_def signalLocked_def Let_def le_SucI split: option.splits list.splits\<close>)

lemma resolve_pending_updates:
  assumes "\<And>w. st = Inr w \<Longrightarrow> rw_updates w \<le> fr_updates r"
    and "foldl (resolve_step key wait deadline) (st, r) es = (Inr w', r')"
  shows "rw_updates w' \<le> fr_updates r'"
  using assms
proof (induction es arbitrary: st r)
  case (Cons e es)
  obtain st1 r1 where s: "resolve_step key wait deadline (st, r) e = (st1, r1)" by (meson surj_pair)
  have "rw_updates w \<le> fr_updates r1" if "st1 = Inr w" for w
  proof (cases st)
    case (Inl v)
    then show ?thesis using s that by simp
  next
    case (Inr w0)
    show ?thesis
      using s that Inr Cons.prems(1) [OF Inr] pass_armed(3) [of key wait deadline] updates_mono [of r]
      by (cases e) (auto split: if_splits intro: le_trans)
  qed
  then show ?case using Cons.IH [of st1 r1] Cons.prems(2) s by simp
qed simp

text \<open>
  A \<open>Resolve\<close> that still waits returns the Flow in the pass that follows a successful
  \<open>Bind\<close> of its tuple: the bind makes its channel ready.
\<close>

lemma resolve_woken_by_bind:
  assumes "r0 = foldl ctx_step (NewCtxRegistry opts) ops"
    and "Resolve now tuple wait0 es r0 = (None, r1)"
    and "Ctx_Bind tb fid tuple r1 = (Inr (), r2)"
  shows "case fst (Resolve now tuple wait0 (es @ [ResolveOther (CtxBind tb fid tuple), ResolveUpdate t u]) r0) of
           Some (Some v) \<Rightarrow> cx_FlowID v = fid \<and> cx_BackendTuple v = tuple
         | _ \<Rightarrow> False"
proof -
  obtain key where key: "tupleKey tuple = Some key" using assms(2) by (cases "tupleKey tuple") (auto simp: Resolve_def)
  define wait where "wait = resolve_wait_for wait0 r0"
  let ?step = "resolve_step key wait (now + wait)"
  obtain st ra where p: "resolve_pass key wait (now + wait) now now r0 = (st, ra)" by (meson surj_pair)
  note R = Resolve_loop [OF key, of now wait0 _ r0, folded wait_def, unfolded resolve_loop_def p]
  obtain w where pend: "foldl ?step (st, ra) es = (Inr w, r1)"
    using assms(2) R [of es] by (cases "foldl ?step (st, ra) es") (auto split: sum.splits)
  have ra: "ra = ctx_step r0 (CtxRound now key)" using p resolve_pass_round [of key wait "now + wait" now now r0] by simp
  obtain ops' where "r1 = foldl ctx_step ra ops'"
    using resolve_step_run [of key wait "now + wait" st ra es] pend by auto
  then have inv: "ctx_inv r1" using ctx_inv_run [of opts "ops @ CtxRound now key # ops'"] assms(1) ra by simp
  from bind_bound_active [OF inv assms(3)] have b: "bound_active fid tuple r2" "ctx_inv r2" by auto
  obtain v r3 where v: "resolve_round t key r2 = (Some v, r3)" "cx_FlowID v = fid" "cx_BackendTuple v = tuple"
    using bound_active_round [OF b(2,1) key, of t] by (cases "resolve_round t key r2") auto
  have "rw_updates w' \<le> fr_updates ra" if "st = Inr w'" for w'
    using pass_armed(3) p that by fastforce
  from resolve_pending_updates [OF this pend] updates_bind [OF assms(3)]
  have ready: "fr_updates r2 \<noteq> rw_updates w" by auto
  have "foldl ?step (st, ra) (es @ [ResolveOther (CtxBind tb fid tuple), ResolveUpdate t u]) = (Inl (Some v), r3)"
    using pend assms(3) ready v(1) by (simp add: resolve_pass_def)
  with v show ?thesis unfolding R by simp
qed

lemma resolve_woken_by_bind_sample:
  "case fst (Resolve 8 sample_tuple 1000000000 ([] @ [ResolveOther (CtxBind 9 ''f'' sample_tuple), ResolveUpdate 10 11]) sample_contexts) of
     Some (Some v) \<Rightarrow> cx_FlowID v = ''f'' \<and> cx_BackendTuple v = sample_tuple
   | _ \<Rightarrow> False"
proof -
  obtain key where key: "tupleKey sample_tuple = Some key" using sample_tuple_key by blast
  let ?r1 = "cleanupExpiredLocked 8 sample_contexts"
  note inv = sample_contexts_inv
  have o: "op_ResolveTimeout (fr_options sample_contexts) = 5000000000"
    by (simp add: sample_contexts_options normalized_def DefaultOptions_def)
  have "fst (resolve_round 8 key sample_contexts) = None"
    using round_result [OF inv] sample_contexts_entries by simp
  moreover have "snd (resolve_round 8 key sample_contexts) = ?r1"
    using sample_contexts_entries by (auto simp: resolve_round_def Let_def split: option.splits)
  ultimately have rr: "resolve_round 8 key sample_contexts = (None, ?r1)" by (metis prod.collapse)
  have nc: "\<not> fr_closed ?r1" using cleanup_spec [OF inv, of 8] sample_contexts_entries by simp
  have p: "Resolve 8 sample_tuple 1000000000 [] sample_contexts = (None, ?r1)"
    using key rr nc o by (simp add: Resolve_def resolve_loop_def resolve_pass_def Let_def time_add_def time_sub_def min_duration_def max_duration_def)
  obtain e where "map_of (fr_entries ?r1) ''f'' = Some e" "cx_State (en_context e) = StateActive"
    using sample_contexts_entries active_survives [OF inv, of "''f''" _ 8] by (cases "fr_entries sample_contexts") auto
  then have "fst (Ctx_Bind 9 ''f'' sample_tuple ?r1) = Inr ()"
    using nc key by (auto simp: Ctx_Bind_def Let_def split: prod.splits)
  then have b: "Ctx_Bind 9 ''f'' sample_tuple ?r1 = (Inr (), snd (Ctx_Bind 9 ''f'' sample_tuple ?r1))"
    by (metis prod.collapse)
  show ?thesis by (rule resolve_woken_by_bind [OF sample_contexts_def p b])
qed

end
