(* ===== verification/AuditStore.thy ===== *)
theory AuditStore
  imports OnlineStore Flow
begin

text \<open>
  The audit database (\<open>internal/audit\<close>: \<open>flow_store.go\<close>, \<open>tag_store.go\<close>, the retention and the
  statistics of \<open>store.go\<close>, the row types of \<open>model.go\<close> and the constraints of the schema in
  \<open>migrations.go\<close>). A table is the list of its rows in the order of their ascending
  identifiers, so an \<open>INSERT OR REPLACE\<close> moves a row to the end and an upsert keeps its place.
  The unique keys, the foreign keys of tags, tag events and checkpoints into
  \<open>flow_entities\<close> and their cascading deletes are the schema's. Every write is one
  transaction under the store's lock: it commits, or it reports an error and leaves every
  table as it was. Whether the database works is the argument \<open>db\<close>. Times are stored in
  milliseconds; a \<open>uint64\<close> with its high bit set is refused by \<open>database/sql\<close>. An operation
  reads the clock once (\<open>now\<close>), and generated identifiers are arguments.

  \<open>LIKE\<close> is SQLite's: \<open>%\<close> is any text, \<open>_\<close> any one character, and letters compare without
  their case. The tables of the schema before version 2 are not modelled.
\<close>

section \<open>Values given to the store\<close>

record FlowRecord =
  rc_FlowID :: string
  rc_Protocol :: string
  rc_ClientIP :: string
  rc_ClientPort :: int
  rc_Listener :: string
  rc_Route :: string
  rc_Upstream :: string
  rc_StartedAt :: time
  rc_EndedAt :: time
  rc_LastActivity :: time
  rc_BytesUp :: uint64
  rc_BytesDown :: uint64
  rc_CloseReason :: string
  rc_Fingerprint :: string
  rc_PolicyVersion :: string
  rc_RuleID :: string
  rc_ASN :: int
  rc_ASOrg :: string
  rc_Country :: string

record FlowEntity =
  fe_FlowID :: string
  fe_Protocol :: string
  fe_ClientIP :: string
  fe_ClientPort :: int
  fe_Listener :: string
  fe_Route :: string
  fe_Upstream :: string
  fe_BackendKey :: string
  fe_BackendProtocol :: string
  fe_BackendLocal :: string
  fe_BackendRemote :: string
  fe_CreatedAt :: time
  fe_EndedAt :: "time option"
  fe_ResolveUntil :: "time option"
  fe_State :: string
  fe_Generation :: uint64
  fe_LastActivity :: time
  fe_BytesUp :: uint64
  fe_BytesDown :: uint64

record FlowCheckpoint =
  cp_FlowID :: string
  cp_RecordedAt :: time
  cp_LastActivity :: time
  cp_BytesUp :: uint64
  cp_BytesDown :: uint64
  cp_SegmentsUp :: uint64
  cp_SegmentsDown :: uint64

record RejectionRow =
  rr_EventID :: string
  rr_Protocol :: string
  rr_ClientIP :: string
  rr_ClientPort :: int
  rr_Listener :: string
  rr_Port :: int
  rr_Reason :: string
  rr_MatchedRuleType :: string
  rr_MatchedRuleValue :: string
  rr_PolicyVersion :: string
  rr_RuleID :: string
  rr_RecordedAt :: time
  rr_ASN :: int
  rr_ASOrg :: string
  rr_Country :: string

text \<open>The metadata of a tag event is a JSON object of texts, represented by its fields.\<close>

record FlowTagEvent =
  te_EventID :: string
  te_FlowID :: string
  te_Tag :: string
  te_Operation :: string
  te_Source :: string
  te_Actor :: string
  te_ExpiresAt :: "time option"
  te_CreatedAt :: time
  te_Metadata :: "(string \<times> string) list"

text \<open>\<open>FlowTag\<close> and \<open>ClientTag\<close>: a tag of an owner, a Flow or a client address.\<close>

record OwnedTag =
  ot_Owner :: string
  ot_Tag :: string
  ot_Source :: string
  ot_ExpiresAt :: "time option"
  ot_CreatedAt :: time
  ot_UpdatedAt :: time

record EffectiveTag =
  et_Tag :: string
  et_Scope :: string
  et_Source :: string
  et_UpdatedAt :: time
  et_ExpiresAt :: "time option"

section \<open>Rows\<close>

record EntityRow =
  er_FlowID :: string
  er_Protocol :: string
  er_ClientIP :: string
  er_ClientPort :: int
  er_Listener :: string
  er_Route :: string
  er_Upstream :: string
  er_BackendKey :: string
  er_BackendProtocol :: string
  er_BackendLocal :: string
  er_BackendRemote :: string
  er_CreatedAt :: int
  er_EndedAt :: "int option"
  er_ResolveUntil :: "int option"
  er_State :: string
  er_Generation :: int
  er_LastActivity :: int
  er_BytesUp :: int
  er_BytesDown :: int

record FlowRow =
  fl_FlowID :: string
  fl_Protocol :: string
  fl_ClientIP :: string
  fl_ClientPort :: int
  fl_ClientBytes :: "byte list"
  fl_Family :: int
  fl_Listener :: string
  fl_Route :: string
  fl_Upstream :: string
  fl_StartedAt :: int
  fl_EndedAt :: int
  fl_LastActivity :: int
  fl_BytesUp :: int
  fl_BytesDown :: int
  fl_CloseReason :: string
  fl_Fingerprint :: string
  fl_PolicyVersion :: string
  fl_RuleID :: string
  fl_ASN :: "int option"
  fl_ASOrg :: "string option"
  fl_Country :: "string option"

record CheckpointRow =
  ck_FlowID :: string
  ck_RecordedAt :: int
  ck_LastActivity :: int
  ck_BytesUp :: int
  ck_BytesDown :: int
  ck_SegmentsUp :: int
  ck_SegmentsDown :: int

record RejectionEventRow =
  re_EventID :: string
  re_Protocol :: string
  re_ClientIP :: string
  re_ClientPort :: int
  re_ClientBytes :: "byte list"
  re_Family :: int
  re_Listener :: string
  re_Port :: int
  re_Reason :: string
  re_MatchedRuleType :: string
  re_MatchedRuleValue :: string
  re_PolicyVersion :: string
  re_RuleID :: string
  re_RecordedAt :: int
  re_ASN :: "int option"
  re_ASOrg :: "string option"
  re_Country :: "string option"

record TagEventRow =
  tr_EventID :: string
  tr_FlowID :: string
  tr_Tag :: string
  tr_Operation :: string
  tr_Source :: string
  tr_Actor :: string
  tr_ExpiresAt :: "int option"
  tr_CreatedAt :: int
  tr_Metadata :: "(string \<times> string) list"

record TagRow =
  tg_Owner :: string
  tg_Tag :: string
  tg_Source :: string
  tg_ExpiresAt :: "int option"
  tg_CreatedAt :: int
  tg_UpdatedAt :: int

record AuditStore =
  au_flows :: "FlowRow list"
  au_entities :: "EntityRow list"
  au_checkpoints :: "CheckpointRow list"
  au_rejections :: "RejectionEventRow list"
  au_tagEvents :: "TagEventRow list"
  au_flowTags :: "TagRow list"
  au_clientTags :: "TagRow list"
  au_online :: OnlineStore

datatype audit_error =
    EntityRequired
  | EventAndPrefixRequired
  | ClientProjectionRequired
  | RemovalFieldsRequired
  | DBError

definition empty_audit :: AuditStore where
  "empty_audit = \<lparr>au_flows = [], au_entities = [], au_checkpoints = [], au_rejections = [], au_tagEvents = [],
     au_flowTags = [], au_clientTags = [], au_online = \<lparr>os_rules = [], os_events = []\<rparr>\<rparr>"

section \<open>Statements\<close>

definition sql_uint :: "uint64 \<Rightarrow> int option" where
  "sql_uint w = (if unat w < 2 ^ 63 then Some (int (unat w)) else None)"

definition nullableTime :: "time \<Rightarrow> time option \<Rightarrow> int option" where
  "nullableTime now = map_option (unixMilli now)"

definition nullInt :: "int \<Rightarrow> int option" where
  "nullInt v = (if v = 0 then None else Some v)"

definition nullIfEmpty :: "string \<Rightarrow> string option" where
  "nullIfEmpty v = (if v = [] then None else Some v)"

definition ipBytes :: "string \<Rightarrow> (byte list \<times> int) option" where
  "ipBytes raw =
     (case ParseAddr (TrimSpace raw) of
        None \<Rightarrow> None
      | Some (V4 w) \<Rightarrow> Some (bytes_of_word 4 w, 4)
      | Some (V6 w z) \<Rightarrow> Some (bytes_of_word 16 w, 6)
      | Some InvalidAddr \<Rightarrow> None)"

definition optionalIPBytes :: "string \<Rightarrow> byte list \<times> int" where
  "optionalIPBytes v = (case ipBytes v of None \<Rightarrow> ([], 0) | Some r \<Rightarrow> r)"

fun sql_like :: "string \<Rightarrow> string \<Rightarrow> bool" where
  "sql_like [] s = (s = [])"
| "sql_like (c # p) [] = (c = CHR ''%'' \<and> sql_like p [])"
| "sql_like (c # p) (x # s) =
     (if c = CHR ''%'' then sql_like p (x # s) \<or> sql_like (c # p) s
      else (c = CHR ''_'' \<or> lower_char c = lower_char x) \<and> sql_like p s)"

text \<open>\<open>ON CONFLICT(k) DO UPDATE\<close> and \<open>INSERT OR REPLACE\<close> on a table with a unique key.\<close>

definition sql_upsert :: "('r \<Rightarrow> 'k) \<Rightarrow> ('r \<Rightarrow> 'r \<Rightarrow> 'r) \<Rightarrow> 'r \<Rightarrow> 'r list \<Rightarrow> 'r list" where
  "sql_upsert k merge row t =
     (if k row \<in> k ` set t then map (\<lambda>old. if k old = k row then merge old row else old) t else t @ [row])"

definition sql_replace :: "('r \<Rightarrow> 'k) \<Rightarrow> 'r \<Rightarrow> 'r list \<Rightarrow> 'r list" where
  "sql_replace k row t = filter (\<lambda>old. k old \<noteq> k row) t @ [row]"

text \<open>A transaction: a failed statement rolls it back.\<close>

definition commit :: "bool \<Rightarrow> AuditStore \<Rightarrow> audit_error + AuditStore \<Rightarrow> audit_error option \<times> AuditStore" where
  "commit db s r = (if \<not> db then (Some DBError, s) else case r of Inl e \<Rightarrow> (Some e, s) | Inr s' \<Rightarrow> (None, s'))"

section \<open>Flows\<close>

text \<open>The \<open>DO UPDATE\<close> clause of \<open>upsertFlowEntityTx\<close>.\<close>

definition merge_entity :: "EntityRow \<Rightarrow> EntityRow \<Rightarrow> EntityRow" where
  "merge_entity old new =
     (let takes = (er_State old \<noteq> ''closed'' \<and> er_Generation new \<ge> er_Generation old);
          bound = (\<lambda>f. if takes \<and> f new \<noteq> [] then f new else f old)
      in new\<lparr>er_FlowID := er_FlowID old,
             er_BackendKey := bound er_BackendKey, er_BackendProtocol := bound er_BackendProtocol,
             er_BackendLocal := bound er_BackendLocal, er_BackendRemote := bound er_BackendRemote,
             er_CreatedAt := min (er_CreatedAt old) (er_CreatedAt new),
             er_EndedAt := (if er_EndedAt new \<noteq> None then er_EndedAt new else er_EndedAt old),
             er_ResolveUntil := (if er_ResolveUntil new \<noteq> None then er_ResolveUntil new else er_ResolveUntil old),
             er_State := (if er_State old = ''closed'' \<and> er_State new \<noteq> ''closed'' then er_State old else er_State new),
             er_Generation := max (er_Generation old) (er_Generation new),
             er_LastActivity := max (er_LastActivity old) (er_LastActivity new),
             er_BytesUp := max (er_BytesUp old) (er_BytesUp new),
             er_BytesDown := max (er_BytesDown old) (er_BytesDown new)\<rparr>)"

definition entity_row :: "time \<Rightarrow> FlowEntity \<Rightarrow> EntityRow option" where
  "entity_row now e =
     (let created = (if is_zero_time (fe_CreatedAt e) then now else fe_CreatedAt e);
          last_act = (if is_zero_time (fe_LastActivity e) then created else fe_LastActivity e)
      in case (sql_uint (fe_Generation e), sql_uint (fe_BytesUp e), sql_uint (fe_BytesDown e)) of
           (Some generation, Some up, Some down) \<Rightarrow>
             Some \<lparr>er_FlowID = fe_FlowID e, er_Protocol = (if fe_Protocol e = [] then ''unknown'' else fe_Protocol e),
                   er_ClientIP = fe_ClientIP e, er_ClientPort = fe_ClientPort e, er_Listener = fe_Listener e,
                   er_Route = fe_Route e, er_Upstream = fe_Upstream e, er_BackendKey = fe_BackendKey e,
                   er_BackendProtocol = fe_BackendProtocol e, er_BackendLocal = fe_BackendLocal e,
                   er_BackendRemote = fe_BackendRemote e, er_CreatedAt = unixMilli now created,
                   er_EndedAt = nullableTime now (fe_EndedAt e), er_ResolveUntil = nullableTime now (fe_ResolveUntil e),
                   er_State = (if fe_State e = [] then ''active'' else fe_State e), er_Generation = generation,
                   er_LastActivity = unixMilli now last_act, er_BytesUp = up, er_BytesDown = down\<rparr>
         | _ \<Rightarrow> None)"

definition upsertFlowEntityTx :: "time \<Rightarrow> FlowEntity \<Rightarrow> AuditStore \<Rightarrow> audit_error + AuditStore" where
  "upsertFlowEntityTx now e s =
     (if TrimSpace (fe_FlowID e) = [] then Inl EntityRequired
      else case entity_row now e of
             None \<Rightarrow> Inl DBError
           | Some row \<Rightarrow> Inr (s\<lparr>au_entities := sql_upsert er_FlowID merge_entity row (au_entities s)\<rparr>))"

definition UpsertFlowEntity :: "bool \<Rightarrow> time \<Rightarrow> FlowEntity \<Rightarrow> AuditStore \<Rightarrow> audit_error option \<times> AuditStore" where
  "UpsertFlowEntity db now e s =
     (if TrimSpace (fe_FlowID e) = [] then (Some EntityRequired, s) else commit db s (upsertFlowEntityTx now e s))"

fun tx_all :: "('a \<Rightarrow> AuditStore \<Rightarrow> audit_error + AuditStore) \<Rightarrow> 'a list \<Rightarrow> AuditStore \<Rightarrow> audit_error + AuditStore" where
  "tx_all f [] s = Inr s"
| "tx_all f (x # xs) s = (case f x s of Inl e \<Rightarrow> Inl e | Inr s' \<Rightarrow> tx_all f xs s')"

definition InsertFlowEntities :: "bool \<Rightarrow> time \<Rightarrow> FlowEntity list \<Rightarrow> AuditStore \<Rightarrow> audit_error option \<times> AuditStore" where
  "InsertFlowEntities db now records s =
     (if records = [] then (None, s) else commit db s (tx_all (upsertFlowEntityTx now) records s))"

definition normalizeFlowTimes :: "time \<Rightarrow> FlowRecord \<Rightarrow> time \<times> time \<times> time" where
  "normalizeFlowTimes now record =
     (let ended = defaultTime now (rc_EndedAt record); started = defaultTime now (rc_StartedAt record)
      in (if time_after started ended then ended else started, ended, defaultTime now (rc_LastActivity record)))"

definition flow_row :: "time \<Rightarrow> FlowRecord \<Rightarrow> FlowRow option" where
  "flow_row now record =
     (let (blob, family) = optionalIPBytes (rc_ClientIP record);
          (started, ended, last_act) = normalizeFlowTimes now record
      in case (sql_uint (rc_BytesUp record), sql_uint (rc_BytesDown record)) of
           (Some up, Some down) \<Rightarrow>
             Some \<lparr>fl_FlowID = rc_FlowID record, fl_Protocol = rc_Protocol record, fl_ClientIP = rc_ClientIP record,
                   fl_ClientPort = rc_ClientPort record, fl_ClientBytes = blob, fl_Family = family,
                   fl_Listener = rc_Listener record, fl_Route = rc_Route record, fl_Upstream = rc_Upstream record,
                   fl_StartedAt = unixMilli now started, fl_EndedAt = unixMilli now ended,
                   fl_LastActivity = unixMilli now last_act, fl_BytesUp = up, fl_BytesDown = down,
                   fl_CloseReason = rc_CloseReason record, fl_Fingerprint = rc_Fingerprint record,
                   fl_PolicyVersion = rc_PolicyVersion record, fl_RuleID = rc_RuleID record,
                   fl_ASN = nullInt (rc_ASN record), fl_ASOrg = nullIfEmpty (rc_ASOrg record),
                   fl_Country = nullIfEmpty (rc_Country record)\<rparr>
         | _ \<Rightarrow> None)"

definition closed_entity :: "time \<Rightarrow> FlowRecord \<Rightarrow> FlowEntity" where
  "closed_entity now record =
     (let (started, ended, last_act) = normalizeFlowTimes now record
      in \<lparr>fe_FlowID = rc_FlowID record, fe_Protocol = rc_Protocol record, fe_ClientIP = rc_ClientIP record,
          fe_ClientPort = rc_ClientPort record, fe_Listener = rc_Listener record, fe_Route = rc_Route record,
          fe_Upstream = rc_Upstream record, fe_BackendKey = [], fe_BackendProtocol = [], fe_BackendLocal = [],
          fe_BackendRemote = [], fe_CreatedAt = started, fe_EndedAt = Some ended, fe_ResolveUntil = None,
          fe_State = ''closed'', fe_Generation = 0, fe_LastActivity = last_act, fe_BytesUp = rc_BytesUp record,
          fe_BytesDown = rc_BytesDown record\<rparr>)"

text \<open>One record of \<open>InsertFlows\<close>, with the identifier generated in case it has none.\<close>

definition insertFlowTx :: "time \<Rightarrow> FlowRecord \<times> string \<Rightarrow> AuditStore \<Rightarrow> audit_error + AuditStore" where
  "insertFlowTx now p s =
     (case p of (record0, uuid) \<Rightarrow>
        let record = record0\<lparr>rc_FlowID := (if rc_FlowID record0 = [] then uuid else rc_FlowID record0),
                             rc_Protocol := (if rc_Protocol record0 = [] then ''unknown'' else rc_Protocol record0)\<rparr>
        in case upsertFlowEntityTx now (closed_entity now record) s of
             Inl e \<Rightarrow> Inl e
           | Inr s' \<Rightarrow>
               (case flow_row now record of
                  None \<Rightarrow> Inl DBError
                | Some row \<Rightarrow> Inr (s'\<lparr>au_flows := sql_upsert fl_FlowID (\<lambda>old new. new) row (au_flows s')\<rparr>)))"

definition InsertFlows :: "bool \<Rightarrow> time \<Rightarrow> (FlowRecord \<times> string) list \<Rightarrow> AuditStore \<Rightarrow> audit_error option \<times> AuditStore" where
  "InsertFlows db now records s =
     (if records = [] then (None, s) else commit db s (tx_all (insertFlowTx now) records s))"

definition rejection_row :: "time \<Rightarrow> RejectionRow \<Rightarrow> RejectionEventRow" where
  "rejection_row now r =
     (let (blob, family) = optionalIPBytes (rr_ClientIP r)
      in \<lparr>re_EventID = rr_EventID r, re_Protocol = rr_Protocol r, re_ClientIP = rr_ClientIP r,
          re_ClientPort = rr_ClientPort r, re_ClientBytes = blob, re_Family = family, re_Listener = rr_Listener r,
          re_Port = rr_Port r, re_Reason = rr_Reason r, re_MatchedRuleType = rr_MatchedRuleType r,
          re_MatchedRuleValue = rr_MatchedRuleValue r, re_PolicyVersion = rr_PolicyVersion r, re_RuleID = rr_RuleID r,
          re_RecordedAt = unixMilli now (rr_RecordedAt r), re_ASN = nullInt (rr_ASN r),
          re_ASOrg = nullIfEmpty (rr_ASOrg r), re_Country = nullIfEmpty (rr_Country r)\<rparr>)"

definition insertRejectionTx :: "time \<Rightarrow> RejectionRow \<times> string \<Rightarrow> AuditStore \<Rightarrow> audit_error + AuditStore" where
  "insertRejectionTx now p s =
     (case p of (r, uuid) \<Rightarrow>
        let r' = r\<lparr>rr_EventID := (if rr_EventID r = [] then uuid else rr_EventID r)\<rparr>
        in Inr (s\<lparr>au_rejections := sql_replace re_EventID (rejection_row now r') (au_rejections s)\<rparr>))"

definition InsertRejections :: "bool \<Rightarrow> time \<Rightarrow> (RejectionRow \<times> string) list \<Rightarrow> AuditStore \<Rightarrow> audit_error option \<times> AuditStore" where
  "InsertRejections db now records s =
     (if records = [] then (None, s) else commit db s (tx_all (insertRejectionTx now) records s))"

definition checkpoint_row :: "time \<Rightarrow> FlowCheckpoint \<Rightarrow> CheckpointRow option" where
  "checkpoint_row now c =
     (case (sql_uint (cp_BytesUp c), sql_uint (cp_BytesDown c), sql_uint (cp_SegmentsUp c), sql_uint (cp_SegmentsDown c)) of
        (Some up, Some down, Some segs_up, Some segs_down) \<Rightarrow>
          Some \<lparr>ck_FlowID = cp_FlowID c, ck_RecordedAt = unixMilli now (cp_RecordedAt c),
                ck_LastActivity = unixMilli now (cp_LastActivity c), ck_BytesUp = up, ck_BytesDown = down,
                ck_SegmentsUp = segs_up, ck_SegmentsDown = segs_down\<rparr>
      | _ \<Rightarrow> None)"

definition has_entity :: "string \<Rightarrow> AuditStore \<Rightarrow> bool" where
  "has_entity fid s \<longleftrightarrow> fid \<in> er_FlowID ` set (au_entities s)"

definition insertCheckpointTx :: "time \<Rightarrow> FlowCheckpoint \<Rightarrow> AuditStore \<Rightarrow> audit_error + AuditStore" where
  "insertCheckpointTx now c s =
     (case checkpoint_row now c of
        None \<Rightarrow> Inl DBError
      | Some row \<Rightarrow> if has_entity (ck_FlowID row) s then Inr (s\<lparr>au_checkpoints := au_checkpoints s @ [row]\<rparr>) else Inl DBError)"

definition InsertCheckpoints :: "bool \<Rightarrow> time \<Rightarrow> FlowCheckpoint list \<Rightarrow> AuditStore \<Rightarrow> audit_error option \<times> AuditStore" where
  "InsertCheckpoints db now records s =
     (if records = [] then (None, s) else commit db s (tx_all (insertCheckpointTx now) records s))"

section \<open>Tags\<close>

definition tag_event_row :: "string \<Rightarrow> time \<Rightarrow> FlowTagEvent \<Rightarrow> TagEventRow" where
  "tag_event_row uuid now ev =
     \<lparr>tr_EventID = (if te_EventID ev = [] then uuid else te_EventID ev), tr_FlowID = te_FlowID ev,
      tr_Tag = te_Tag ev, tr_Operation = te_Operation ev, tr_Source = te_Source ev, tr_Actor = te_Actor ev,
      tr_ExpiresAt = nullableTime now (te_ExpiresAt ev), tr_CreatedAt = unixMilli now (te_CreatedAt ev),
      tr_Metadata = te_Metadata ev\<rparr>"

definition insertTagEventTx :: "string \<Rightarrow> time \<Rightarrow> FlowTagEvent \<Rightarrow> AuditStore \<Rightarrow> audit_error + AuditStore" where
  "insertTagEventTx uuid now ev s =
     (if has_entity (te_FlowID ev) s
      then Inr (s\<lparr>au_tagEvents := sql_replace tr_EventID (tag_event_row uuid now ev) (au_tagEvents s)\<rparr>)
      else Inl DBError)"

definition AppendFlowTagEvent :: "bool \<Rightarrow> string \<Rightarrow> time \<Rightarrow> FlowTagEvent \<Rightarrow> AuditStore \<Rightarrow> audit_error option \<times> AuditStore" where
  "AppendFlowTagEvent db uuid now ev s = commit db s (insertTagEventTx uuid now ev s)"

definition tag_row :: "time \<Rightarrow> OwnedTag \<Rightarrow> TagRow" where
  "tag_row now t =
     \<lparr>tg_Owner = ot_Owner t, tg_Tag = ot_Tag t, tg_Source = ot_Source t, tg_ExpiresAt = nullableTime now (ot_ExpiresAt t),
      tg_CreatedAt = unixMilli now (ot_CreatedAt t), tg_UpdatedAt = unixMilli now (ot_UpdatedAt t)\<rparr>"

definition tag_key :: "TagRow \<Rightarrow> string \<times> string" where
  "tag_key t = (tg_Owner t, tg_Tag t)"

text \<open>\<open>DELETE FROM t WHERE owner = ? AND tag LIKE prefix || '%'\<close> and the plain insert after it.\<close>

definition delete_tags :: "string \<Rightarrow> string \<Rightarrow> TagRow list \<Rightarrow> TagRow list" where
  "delete_tags owner prefix ts = filter (\<lambda>t. \<not> (tg_Owner t = owner \<and> sql_like (prefix @ ''%'') (tg_Tag t))) ts"

definition insert_tag :: "TagRow \<Rightarrow> TagRow list \<Rightarrow> TagRow list option" where
  "insert_tag row ts = (if tag_key row \<in> tag_key ` set ts then None else Some (ts @ [row]))"

definition record_tag_event ::
    "string \<Rightarrow> time \<Rightarrow> FlowEntity \<Rightarrow> FlowTagEvent \<Rightarrow> AuditStore \<Rightarrow> audit_error + AuditStore" where
  "record_tag_event uuid now entity ev s =
     (case upsertFlowEntityTx now entity s of Inl e \<Rightarrow> Inl e | Inr s1 \<Rightarrow> insertTagEventTx uuid now ev s1)"

definition ApplyFlowTag ::
    "bool \<Rightarrow> string \<Rightarrow> time \<Rightarrow> FlowEntity \<Rightarrow> FlowTagEvent \<Rightarrow> OwnedTag option \<Rightarrow> string \<Rightarrow> AuditStore \<Rightarrow>
     audit_error option \<times> AuditStore" where
  "ApplyFlowTag db uuid now entity ev tag prefix s =
     (if te_FlowID ev = [] \<or> prefix = [] then (Some EventAndPrefixRequired, s)
      else commit db s
        (case record_tag_event uuid now entity ev s of
           Inl e \<Rightarrow> Inl e
         | Inr s1 \<Rightarrow>
             let kept = delete_tags (te_FlowID ev) prefix (au_flowTags s1)
             in case tag of
                  None \<Rightarrow> Inr (s1\<lparr>au_flowTags := kept\<rparr>)
                | Some t \<Rightarrow>
                    if \<not> has_entity (ot_Owner t) s1 then Inl DBError
                    else (case insert_tag (tag_row now t) kept of
                            None \<Rightarrow> Inl DBError
                          | Some ts \<Rightarrow> Inr (s1\<lparr>au_flowTags := ts\<rparr>))))"

definition upsert_tag :: "TagRow \<Rightarrow> TagRow list \<Rightarrow> TagRow list" where
  "upsert_tag row ts = sql_upsert tag_key (\<lambda>old new. new\<lparr>tg_CreatedAt := tg_CreatedAt old\<rparr>) row ts"

definition UpsertFlowTag :: "bool \<Rightarrow> time \<Rightarrow> OwnedTag \<Rightarrow> AuditStore \<Rightarrow> audit_error option \<times> AuditStore" where
  "UpsertFlowTag db now t s =
     commit db s (if has_entity (ot_Owner t) s then Inr (s\<lparr>au_flowTags := upsert_tag (tag_row now t) (au_flowTags s)\<rparr>)
                  else Inl DBError)"

definition UpsertClientTag :: "bool \<Rightarrow> time \<Rightarrow> OwnedTag \<Rightarrow> AuditStore \<Rightarrow> audit_error option \<times> AuditStore" where
  "UpsertClientTag db now t s =
     commit db s (Inr (s\<lparr>au_clientTags := upsert_tag (tag_row now t) (au_clientTags s)\<rparr>))"

definition ApplyClientTag ::
    "bool \<Rightarrow> string \<Rightarrow> time \<Rightarrow> FlowEntity \<Rightarrow> FlowTagEvent \<Rightarrow> OwnedTag option \<Rightarrow> string \<Rightarrow> AuditStore \<Rightarrow>
     audit_error option \<times> AuditStore" where
  "ApplyClientTag db uuid now entity ev tag prefix s =
     (if te_FlowID ev = [] \<or> prefix = [] then (Some EventAndPrefixRequired, s)
      else commit db s
        (case record_tag_event uuid now entity ev s of
           Inl e \<Rightarrow> Inl e
         | Inr s1 \<Rightarrow>
             (case tag of
                None \<Rightarrow> Inl ClientProjectionRequired
              | Some t \<Rightarrow>
                  (case insert_tag (tag_row now t) (delete_tags (ot_Owner t) prefix (au_clientTags s1)) of
                     None \<Rightarrow> Inl DBError
                   | Some ts \<Rightarrow> Inr (s1\<lparr>au_clientTags := ts\<rparr>)))))"

definition RemoveClientTag ::
    "bool \<Rightarrow> string \<Rightarrow> time \<Rightarrow> FlowEntity \<Rightarrow> FlowTagEvent \<Rightarrow> string \<Rightarrow> string \<Rightarrow> AuditStore \<Rightarrow>
     audit_error option \<times> AuditStore" where
  "RemoveClientTag db uuid now entity ev clientIP prefix s =
     (if te_FlowID ev = [] \<or> clientIP = [] \<or> prefix = [] then (Some RemovalFieldsRequired, s)
      else commit db s
        (case record_tag_event uuid now entity ev s of
           Inl e \<Rightarrow> Inl e
         | Inr s1 \<Rightarrow> Inr (s1\<lparr>au_clientTags := delete_tags clientIP prefix (au_clientTags s1)\<rparr>)))"

definition RemoveFlowTag ::
    "bool \<Rightarrow> string \<Rightarrow> time \<Rightarrow> FlowEntity \<Rightarrow> FlowTagEvent \<Rightarrow> string \<Rightarrow> AuditStore \<Rightarrow> audit_error option \<times> AuditStore" where
  "RemoveFlowTag db uuid now entity ev prefix s =
     (if te_FlowID ev = [] \<or> prefix = [] then (Some RemovalFieldsRequired, s)
      else commit db s
        (case record_tag_event uuid now entity ev s of
           Inl e \<Rightarrow> Inl e
         | Inr s1 \<Rightarrow> Inr (s1\<lparr>au_flowTags := delete_tags (te_FlowID ev) prefix (au_flowTags s1)\<rparr>)))"

section \<open>Queries\<close>

definition tag_before :: "TagRow \<Rightarrow> TagRow \<Rightarrow> bool" where
  "tag_before a b = str_less (tg_Tag a) (tg_Tag b)"

text \<open>\<open>expires_at IS NULL OR expires_at > now\<close>.\<close>

definition tag_live :: "time \<Rightarrow> TagRow \<Rightarrow> bool" where
  "tag_live now t = (case tg_ExpiresAt t of None \<Rightarrow> True | Some e \<Rightarrow> e > unixMilli now now)"

definition tag_of_row :: "TagRow \<Rightarrow> OwnedTag" where
  "tag_of_row t =
     \<lparr>ot_Owner = tg_Owner t, ot_Tag = tg_Tag t, ot_Source = tg_Source t,
      ot_ExpiresAt = map_option timeFromMillis (tg_ExpiresAt t), ot_CreatedAt = timeFromMillis (tg_CreatedAt t),
      ot_UpdatedAt = timeFromMillis (tg_UpdatedAt t)\<rparr>"

definition owned_tags :: "time \<Rightarrow> string \<Rightarrow> TagRow list \<Rightarrow> OwnedTag list" where
  "owned_tags now owner ts = map tag_of_row (stable_sort tag_before (filter (\<lambda>t. tg_Owner t = owner \<and> tag_live now t) ts))"

definition QueryFlowTags :: "bool \<Rightarrow> time \<Rightarrow> string \<Rightarrow> AuditStore \<Rightarrow> audit_error + OwnedTag list" where
  "QueryFlowTags db now flowID s = (if db then Inr (owned_tags now flowID (au_flowTags s)) else Inl DBError)"

definition QueryClientTags :: "bool \<Rightarrow> time \<Rightarrow> string \<Rightarrow> AuditStore \<Rightarrow> audit_error + OwnedTag list" where
  "QueryClientTags db now clientIP s = (if db then Inr (owned_tags now clientIP (au_clientTags s)) else Inl DBError)"

definition event_of_row :: "TagEventRow \<Rightarrow> FlowTagEvent" where
  "event_of_row r =
     \<lparr>te_EventID = tr_EventID r, te_FlowID = tr_FlowID r, te_Tag = tr_Tag r, te_Operation = tr_Operation r,
      te_Source = tr_Source r, te_Actor = tr_Actor r, te_ExpiresAt = map_option timeFromMillis (tr_ExpiresAt r),
      te_CreatedAt = timeFromMillis (tr_CreatedAt r), te_Metadata = tr_Metadata r\<rparr>"

definition QueryFlowTagEvents :: "bool \<Rightarrow> string \<Rightarrow> AuditStore \<Rightarrow> audit_error + FlowTagEvent list" where
  "QueryFlowTagEvents db flowID s =
     (if db then Inr (map event_of_row (stable_sort (\<lambda>a b. tr_CreatedAt a < tr_CreatedAt b)
                                         (filter (\<lambda>r. tr_FlowID r = flowID) (au_tagEvents s))))
      else Inl DBError)"

definition maxTagViewLimit :: int where "maxTagViewLimit = 1000"

datatype view_error = InvalidTagScope | TagViewLimit | TagViewOffset | TagViewDB

definition normalizeTagViewParams ::
    "string \<Rightarrow> string \<Rightarrow> int \<Rightarrow> int \<Rightarrow> view_error + string \<times> string \<times> int \<times> int" where
  "normalizeTagViewParams query scope0 limit0 offset =
     (let scope1 = ToLower (TrimSpace scope0); scope = (if scope1 = [] then ''all'' else scope1);
          limit = (if limit0 \<le> 0 then 50 else limit0)
      in if scope \<noteq> ''all'' \<and> scope \<noteq> ''flow'' \<and> scope \<noteq> ''client'' then Inl InvalidTagScope
         else if limit > maxTagViewLimit then Inl TagViewLimit
         else if offset < 0 then Inl TagViewOffset
         else Inr (TrimSpace query, scope, limit, offset))"

text \<open>\<open>instr(LOWER(column), LOWER(?)) > 0\<close>.\<close>

fun contains_text :: "string \<Rightarrow> string \<Rightarrow> bool" where
  "contains_text p [] = (p = [])"
| "contains_text p (c # s) = (take (length p) (c # s) = p \<or> contains_text p s)"

definition column_contains :: "string \<Rightarrow> string \<Rightarrow> bool" where
  "column_contains query v = contains_text (ToLower query) (ToLower v)"

text \<open>The page: \<open>LIMIT limit+1 OFFSET offset\<close>, of which the last row only says that there is more.\<close>

definition tag_page :: "int \<Rightarrow> int \<Rightarrow> 'a list \<Rightarrow> 'a list \<times> bool" where
  "tag_page limit offset xs =
     (let page = take (nat (limit + 1)) (drop (nat offset) xs)
      in if int (length page) > limit then (take (nat limit) page, True) else (page, False))"

definition FlowTagAction_row :: "AuditStore \<Rightarrow> TagEventRow \<Rightarrow> FlowTagEvent \<times> string" where
  "FlowTagAction_row s r =
     (event_of_row r,
      (case List.find (\<lambda>e. er_FlowID e = tr_FlowID r) (au_entities s) of None \<Rightarrow> [] | Some e \<Rightarrow> er_ClientIP e))"

definition QueryTagActions ::
    "bool \<Rightarrow> string \<Rightarrow> int \<Rightarrow> int \<Rightarrow> AuditStore \<Rightarrow> view_error + (FlowTagEvent \<times> string) list \<times> bool" where
  "QueryTagActions db query0 limit0 offset0 s =
     (case normalizeTagViewParams query0 ''all'' limit0 offset0 of
        Inl e \<Rightarrow> Inl e
      | Inr (query, scope, limit, offset) \<Rightarrow>
          if \<not> db then Inl TagViewDB
          else Inr (tag_page limit offset
            (map (FlowTagAction_row s)
              (stable_sort (\<lambda>a b. tr_CreatedAt a > tr_CreatedAt b)
                (rev (filter (\<lambda>r. query = [] \<or> column_contains query (tr_Tag r) \<or> column_contains query (tr_Actor r) \<or>
                                  column_contains query (tr_Operation r)) (au_tagEvents s)))))))"

text \<open>
  \<open>QueryCurrentTags\<close>: the rows of the union, grouped by tag and scope, with the greatest
  source and update time of the group, and no expiry when one of its rows has none.
\<close>

definition scoped_rows :: "time \<Rightarrow> string \<Rightarrow> AuditStore \<Rightarrow> (string \<times> TagRow) list" where
  "scoped_rows now scope s =
     (if scope = ''all'' \<or> scope = ''flow'' then map (Pair ''flow'') (filter (tag_live now) (au_flowTags s)) else []) @
     (if scope = ''all'' \<or> scope = ''client'' then map (Pair ''client'') (filter (tag_live now) (au_clientTags s)) else [])"

definition max_by :: "('a \<Rightarrow> 'a \<Rightarrow> bool) \<Rightarrow> 'a \<Rightarrow> 'a list \<Rightarrow> 'a" where
  "max_by lt x xs = foldl (\<lambda>m y. if lt m y then y else m) x xs"

definition group_tag :: "string \<Rightarrow> string \<Rightarrow> TagRow list \<Rightarrow> EffectiveTag" where
  "group_tag tag scope rows =
     (let r = hd rows
      in \<lparr>et_Tag = tag, et_Scope = scope, et_Source = max_by str_less (tg_Source r) (map tg_Source rows),
          et_UpdatedAt = timeFromMillis (max_by (<) (tg_UpdatedAt r) (map tg_UpdatedAt rows)),
          et_ExpiresAt =
            (if list_ex (\<lambda>t. tg_ExpiresAt t = None) rows then None
             else Some (timeFromMillis (max_by (<) (the (tg_ExpiresAt r)) (map (\<lambda>t. the (tg_ExpiresAt t)) rows))))\<rparr>)"

definition QueryCurrentTags ::
    "bool \<Rightarrow> time \<Rightarrow> string \<Rightarrow> string \<Rightarrow> int \<Rightarrow> int \<Rightarrow> AuditStore \<Rightarrow> view_error + EffectiveTag list \<times> bool" where
  "QueryCurrentTags db now query0 scope0 limit0 offset0 s =
     (case normalizeTagViewParams query0 scope0 limit0 offset0 of
        Inl e \<Rightarrow> Inl e
      | Inr (query, scope, limit, offset) \<Rightarrow>
          if \<not> db then Inl TagViewDB
          else
            let rows = filter (\<lambda>(sc, t). query = [] \<or> column_contains query (tg_Tag t) \<or> column_contains query (tg_Source t))
                         (scoped_rows now scope s);
                groups = stable_sort (\<lambda>a b. str_less (fst a) (fst b) \<or> (fst a = fst b \<and> str_less (snd a) (snd b)))
                           (remdups (map (\<lambda>(sc, t). (tg_Tag t, sc)) rows))
            in Inr (tag_page limit offset
                 (map (\<lambda>(tag, sc). group_tag tag sc (map snd (filter (\<lambda>(sc', t). sc' = sc \<and> tg_Tag t = tag) rows))) groups)))"

text \<open>
  \<open>QueryEffectiveTags\<close>: the live tags of a batch of Flows, given with their client
  addresses. The loops over the rows append to the entry of each Flow a row applies to,
  once for each tag and scope (\<open>appendTag\<close>).
\<close>

type_synonym effective = "(string, EffectiveTag list) gomap \<times> (string \<times> string \<times> string) list"

definition appendTag :: "effective \<Rightarrow> string \<times> EffectiveTag \<Rightarrow> effective" where
  "appendTag st p =
     (case st of (result, seen) \<Rightarrow> case p of (flowID, tag) \<Rightarrow>
        if (flowID, et_Tag tag, et_Scope tag) \<in> set seen then st
        else (gput flowID (gget_default [] result flowID @ [tag]) result, (flowID, et_Tag tag, et_Scope tag) # seen))"

definition effective_of_row :: "string \<Rightarrow> TagRow \<Rightarrow> EffectiveTag" where
  "effective_of_row scope t =
     \<lparr>et_Tag = tg_Tag t, et_Scope = scope, et_Source = tg_Source t, et_UpdatedAt = timeFromMillis (tg_UpdatedAt t),
      et_ExpiresAt = map_option timeFromMillis (tg_ExpiresAt t)\<rparr>"

definition flowsByIP :: "(string \<times> string) list \<Rightarrow> string \<Rightarrow> string list" where
  "flowsByIP flows ip = map fst (filter (\<lambda>(f, c). f \<noteq> [] \<and> c \<noteq> [] \<and> c = ip) flows)"

definition rows_of :: "time \<Rightarrow> string set \<Rightarrow> TagRow list \<Rightarrow> TagRow list" where
  "rows_of now owners ts = stable_sort tag_before (filter (\<lambda>t. tg_Owner t \<in> owners \<and> tag_live now t) ts)"

definition QueryEffectiveTags ::
    "bool \<Rightarrow> time \<Rightarrow> (string \<times> string) list \<Rightarrow> AuditStore \<Rightarrow> audit_error + (string, EffectiveTag list) gomap" where
  "QueryEffectiveTags db now flows s =
     (let ids = filter (\<lambda>f. f \<noteq> []) (map fst flows); ips = filter (\<lambda>c. c \<noteq> []) (map snd flows);
          result = foldl (\<lambda>m f. gput f [] m) [] ids;
          by_flow = map (\<lambda>t. (tg_Owner t, effective_of_row ''flow'' t)) (rows_of now (set ids) (au_flowTags s));
          by_client = concat (map (\<lambda>t. map (\<lambda>f. (f, effective_of_row ''client'' t)) (flowsByIP flows (tg_Owner t)))
                                (rows_of now (set ips) (au_clientTags s)))
      in if \<not> db \<and> (ids \<noteq> [] \<or> ips \<noteq> []) then Inl DBError
         else Inr (fst (foldl appendTag (result, []) (by_flow @ by_client))))"

section \<open>Retention and statistics\<close>

text \<open>
  \<open>Prune\<close>: the number of rows deleted is the affected rows of the statements themselves
  (cascades are not counted), without those of \<open>flow_entities\<close> and \<open>client_tags\<close>.
\<close>

definition prune_ended :: "int \<Rightarrow> EntityRow \<Rightarrow> bool" where
  "prune_ended cutoff e = (case er_EndedAt e of None \<Rightarrow> False | Some t \<Rightarrow> t < cutoff)"

definition prune_expired :: "int \<Rightarrow> TagRow \<Rightarrow> bool" where
  "prune_expired cutoff t = (case tg_ExpiresAt t of None \<Rightarrow> False | Some e \<Rightarrow> e < cutoff)"

definition prune_store :: "time \<Rightarrow> int \<Rightarrow> AuditStore \<Rightarrow> AuditStore" where
  "prune_store now cutoff s =
     (let entities = filter (\<lambda>e. \<not> prune_ended cutoff e) (au_entities s);
          gone = er_FlowID ` {e \<in> set (au_entities s). prune_ended cutoff e}
      in \<lparr>au_flows = filter (\<lambda>f. \<not> fl_EndedAt f < cutoff) (au_flows s), au_entities = entities,
          au_checkpoints = filter (\<lambda>c. ck_FlowID c \<notin> gone) (au_checkpoints s),
          au_rejections = filter (\<lambda>r. \<not> re_RecordedAt r < cutoff) (au_rejections s),
          au_tagEvents = filter (\<lambda>r. tr_FlowID r \<notin> gone) (au_tagEvents s),
          au_flowTags = filter (\<lambda>t. tg_Owner t \<notin> gone) (au_flowTags s),
          au_clientTags = filter (\<lambda>t. \<not> prune_expired cutoff t) (au_clientTags s),
          au_online = prune_online now cutoff (au_online s)\<rparr>)"

definition Prune :: "bool \<Rightarrow> time \<Rightarrow> time \<Rightarrow> AuditStore \<Rightarrow> (audit_error + nat) \<times> AuditStore" where
  "Prune db now olderThan s =
     (if \<not> db then (Inl DBError, s)
      else
        let cutoff = unixMilli now olderThan; s' = prune_store now cutoff s
        in (Inr ((length (au_flows s) - length (au_flows s')) + (length (os_rules (au_online s)) - length (os_rules (au_online s'))) +
                 (length (os_events (au_online s)) - length (os_events (au_online s'))) +
                 (length (au_rejections s) - length (au_rejections s'))), s'))"

record StoreStats =
  ss_FlowRecordCount :: int
  ss_RejectionRecordCount :: int
  ss_TotalRecordCount :: int
  ss_OldestRecordAt :: int
  ss_NewestRecordAt :: int

definition minPositive :: "int \<Rightarrow> int \<Rightarrow> int" where
  "minPositive a b = (if a = 0 then b else if b = 0 \<or> a < b then a else b)"

definition maxPositive :: "int \<Rightarrow> int \<Rightarrow> int" where
  "maxPositive a b = (if a > b then a else b)"

text \<open>\<open>COALESCE(MIN(c), 0)\<close> and \<open>COALESCE(MAX(c), 0)\<close>.\<close>

definition sql_min :: "int list \<Rightarrow> int" where
  "sql_min xs = (case xs of [] \<Rightarrow> 0 | y # ys \<Rightarrow> foldl min y ys)"

definition sql_max :: "int list \<Rightarrow> int" where
  "sql_max xs = (case xs of [] \<Rightarrow> 0 | y # ys \<Rightarrow> foldl max y ys)"

definition Stats :: "bool \<Rightarrow> AuditStore \<Rightarrow> audit_error + StoreStats" where
  "Stats db s =
     (if \<not> db then Inl DBError
      else
        let ended = map fl_EndedAt (au_flows s); recorded = map re_RecordedAt (au_rejections s)
        in Inr \<lparr>ss_FlowRecordCount = int (length ended), ss_RejectionRecordCount = int (length recorded),
                ss_TotalRecordCount = int (length ended) + int (length recorded),
                ss_OldestRecordAt = trunc_div (minPositive (sql_min ended) (sql_min recorded)) 1000,
                ss_NewestRecordAt = trunc_div (maxPositive (sql_max ended) (sql_max recorded)) 1000\<rparr>)"

section \<open>The writes of the store\<close>

datatype audit_op =
    AuEntity bool time FlowEntity
  | AuEntities bool time "FlowEntity list"
  | AuFlows bool time "(FlowRecord \<times> string) list"
  | AuRejections bool time "(RejectionRow \<times> string) list"
  | AuCheckpoints bool time "FlowCheckpoint list"
  | AuTagEvent bool string time FlowTagEvent
  | AuApplyFlowTag bool string time FlowEntity FlowTagEvent "OwnedTag option" string
  | AuUpsertFlowTag bool time OwnedTag
  | AuUpsertClientTag bool time OwnedTag
  | AuApplyClientTag bool string time FlowEntity FlowTagEvent "OwnedTag option" string
  | AuRemoveClientTag bool string time FlowEntity FlowTagEvent string string
  | AuRemoveFlowTag bool string time FlowEntity FlowTagEvent string
  | AuPrune bool time time

fun audit_step :: "AuditStore \<Rightarrow> audit_op \<Rightarrow> AuditStore" where
  "audit_step s (AuEntity db now e) = snd (UpsertFlowEntity db now e s)"
| "audit_step s (AuEntities db now es) = snd (InsertFlowEntities db now es s)"
| "audit_step s (AuFlows db now rs) = snd (InsertFlows db now rs s)"
| "audit_step s (AuRejections db now rs) = snd (InsertRejections db now rs s)"
| "audit_step s (AuCheckpoints db now cs) = snd (InsertCheckpoints db now cs s)"
| "audit_step s (AuTagEvent db uuid now ev) = snd (AppendFlowTagEvent db uuid now ev s)"
| "audit_step s (AuApplyFlowTag db uuid now e ev t p) = snd (ApplyFlowTag db uuid now e ev t p s)"
| "audit_step s (AuUpsertFlowTag db now t) = snd (UpsertFlowTag db now t s)"
| "audit_step s (AuUpsertClientTag db now t) = snd (UpsertClientTag db now t s)"
| "audit_step s (AuApplyClientTag db uuid now e ev t p) = snd (ApplyClientTag db uuid now e ev t p s)"
| "audit_step s (AuRemoveClientTag db uuid now e ev ip p) = snd (RemoveClientTag db uuid now e ev ip p s)"
| "audit_step s (AuRemoveFlowTag db uuid now e ev p) = snd (RemoveFlowTag db uuid now e ev p s)"
| "audit_step s (AuPrune db now t) = snd (Prune db now t s)"

section \<open>Keys and references\<close>

definition entity_ids :: "AuditStore \<Rightarrow> string set" where
  "entity_ids s = er_FlowID ` set (au_entities s)"

lemma has_entity_iff [simp]: "has_entity fid s \<longleftrightarrow> fid \<in> entity_ids s"
  by (simp add: has_entity_def entity_ids_def)

definition keys_ok :: "AuditStore \<Rightarrow> bool" where
  "keys_ok s \<longleftrightarrow>
     distinct (map er_FlowID (au_entities s)) \<and> distinct (map fl_FlowID (au_flows s)) \<and>
     distinct (map re_EventID (au_rejections s)) \<and> distinct (map tr_EventID (au_tagEvents s)) \<and>
     distinct (map tag_key (au_flowTags s)) \<and> distinct (map tag_key (au_clientTags s))"

definition refs_ok :: "AuditStore \<Rightarrow> bool" where
  "refs_ok s \<longleftrightarrow>
     list_all (\<lambda>c. ck_FlowID c \<in> entity_ids s) (au_checkpoints s) \<and>
     list_all (\<lambda>r. tr_FlowID r \<in> entity_ids s) (au_tagEvents s) \<and>
     list_all (\<lambda>t. tg_Owner t \<in> entity_ids s) (au_flowTags s)"

definition audit_inv :: "AuditStore \<Rightarrow> bool" where
  "audit_inv s \<longleftrightarrow> keys_ok s \<and> refs_ok s"

lemma upsert_keys:
  assumes "\<And>x. k x = k row \<Longrightarrow> k (m x row) = k row"
  shows "map k (sql_upsert k m row t) = (if k row \<in> set (map k t) then map k t else map k t @ [k row])"
proof -
  have "map k (map (\<lambda>old. if k old = k row then m old row else old) t) = map k t"
    by (induction t) (simp_all add: assms)
  then show ?thesis unfolding sql_upsert_def by (simp del: map_map)
qed

lemma upsert_keys_facts:
  assumes "\<And>x. k x = k row \<Longrightarrow> k (m x row) = k row"
  shows "k ` set (sql_upsert k m row t) = insert (k row) (k ` set t)"
    and "distinct (map k t) \<Longrightarrow> distinct (map k (sql_upsert k m row t))"
proof -
  have keys: "map k (sql_upsert k m row t) = (if k row \<in> set (map k t) then map k t else map k t @ [k row])"
    by (rule upsert_keys) (rule assms)
  have "set (map k (sql_upsert k m row t)) = insert (k row) (set (map k t))"
    unfolding keys by auto
  then show "k ` set (sql_upsert k m row t) = insert (k row) (k ` set t)" by simp
  show "distinct (map k t) \<Longrightarrow> distinct (map k (sql_upsert k m row t))"
    unfolding keys by auto
qed

lemma replace_keys:
  "set (map k (sql_replace k row t)) = insert (k row) (set (map k t))"
  "distinct (map k t) \<Longrightarrow> distinct (map k (sql_replace k row t))"
  by (auto simp: sql_replace_def distinct_map_filter)

lemma merge_entity_id [simp]: "er_FlowID (merge_entity a b) = er_FlowID a"
  by (simp add: merge_entity_def Let_def)

lemma entity_keys:
  "er_FlowID ` set (sql_upsert er_FlowID merge_entity row t) = insert (er_FlowID row) (er_FlowID ` set t)"
  "distinct (map er_FlowID t) \<Longrightarrow> distinct (map er_FlowID (sql_upsert er_FlowID merge_entity row t))"
  by (rule upsert_keys_facts; simp)+

lemma upsert_tag_keys:
  "tag_key ` set (upsert_tag row t) = insert (tag_key row) (tag_key ` set t)"
  "distinct (map tag_key t) \<Longrightarrow> distinct (map tag_key (upsert_tag row t))"
  unfolding upsert_tag_def by (rule upsert_keys_facts; simp add: tag_key_def)+

lemma delete_tags_facts:
  "set (delete_tags owner prefix ts) \<subseteq> set ts"
  "distinct (map tag_key ts) \<Longrightarrow> distinct (map tag_key (delete_tags owner prefix ts))"
  by (auto simp: delete_tags_def distinct_map_filter)

lemma insert_tag_facts:
  "insert_tag row ts = Some ts' \<Longrightarrow> ts' = ts @ [row] \<and> (distinct (map tag_key ts) \<longrightarrow> distinct (map tag_key ts'))"
  by (auto simp: insert_tag_def split: if_splits)

section \<open>Every write keeps the invariant\<close>

lemma commit_inv: "P s \<Longrightarrow> (\<And>s'. r = Inr s' \<Longrightarrow> P s') \<Longrightarrow> P (snd (commit db s r))"
  by (auto simp: commit_def split: sum.splits)

lemma tx_all_inv:
  assumes "\<And>x s s'. P s \<Longrightarrow> f x s = Inr s' \<Longrightarrow> P s'"
  shows "P s \<Longrightarrow> tx_all f xs s = Inr s' \<Longrightarrow> P s'"
  by (induction xs arbitrary: s) (auto split: sum.splits intro: assms)

text \<open>The writes differ in which tables they touch; what they touch is in the invariant's form.\<close>

lemma audit_inv_grow:
  "audit_inv s \<Longrightarrow> entity_ids s \<subseteq> entity_ids s' \<Longrightarrow> distinct (map er_FlowID (au_entities s')) \<Longrightarrow>
   au_flows s' = au_flows s \<Longrightarrow> au_checkpoints s' = au_checkpoints s \<Longrightarrow> au_rejections s' = au_rejections s \<Longrightarrow>
   au_tagEvents s' = au_tagEvents s \<Longrightarrow> au_flowTags s' = au_flowTags s \<Longrightarrow> au_clientTags s' = au_clientTags s \<Longrightarrow>
   audit_inv s'"
  by (auto simp: audit_inv_def keys_ok_def refs_ok_def list_all_iff)

lemma audit_inv_entities:
  assumes "audit_inv s" and "upsertFlowEntityTx now e s = Inr s'"
  shows "audit_inv s' \<and> entity_ids s' = insert (fe_FlowID e) (entity_ids s) \<and> au_flows s' = au_flows s \<and>
         au_flowTags s' = au_flowTags s \<and> au_clientTags s' = au_clientTags s"
proof -
  obtain row where row: "entity_row now e = Some row"
    and s': "s' = s\<lparr>au_entities := sql_upsert er_FlowID merge_entity row (au_entities s)\<rparr>"
    using assms(2) by (auto simp: upsertFlowEntityTx_def split: if_splits option.splits)
  have id: "er_FlowID row = fe_FlowID e"
    using row by (auto simp: entity_row_def Let_def split: option.splits)
  have ids: "entity_ids s' = insert (fe_FlowID e) (entity_ids s)"
    using entity_keys(1) [of row "au_entities s"] unfolding s' entity_ids_def id by simp
  moreover have "distinct (map er_FlowID (au_entities s'))"
    using assms(1) entity_keys(2) by (simp add: s' audit_inv_def keys_ok_def)
  ultimately show ?thesis using audit_inv_grow [OF assms(1), of s'] by (auto simp: s')
qed

lemma audit_inv_event:
  assumes "audit_inv s" and "insertTagEventTx uuid now ev s = Inr s'"
  shows "audit_inv s' \<and> entity_ids s' = entity_ids s \<and> te_FlowID ev \<in> entity_ids s \<and> au_flowTags s' = au_flowTags s \<and>
         au_clientTags s' = au_clientTags s"
proof -
  define row where "row = tag_event_row uuid now ev"
  have row: "tr_FlowID row = te_FlowID ev" "te_FlowID ev \<in> entity_ids s"
    and s': "s' = s\<lparr>au_tagEvents := sql_replace tr_EventID row (au_tagEvents s)\<rparr>"
    using assms(2) by (auto simp: insertTagEventTx_def row_def tag_event_row_def split: if_splits)
  have "list_all (\<lambda>r. tr_FlowID r \<in> entity_ids s) (sql_replace tr_EventID row (au_tagEvents s))"
    using assms(1) row by (auto simp: sql_replace_def audit_inv_def refs_ok_def list_all_iff)
  then show ?thesis
    using assms(1) row(2) replace_keys(2) [of tr_EventID "au_tagEvents s" row]
    by (simp add: s' entity_ids_def audit_inv_def keys_ok_def refs_ok_def)
qed

lemma audit_inv_recorded:
  assumes "audit_inv s" and "record_tag_event uuid now e ev s = Inr s'"
  shows "audit_inv s' \<and> entity_ids s' = insert (fe_FlowID e) (entity_ids s) \<and> te_FlowID ev \<in> entity_ids s' \<and>
         au_flowTags s' = au_flowTags s \<and> au_clientTags s' = au_clientTags s"
proof -
  obtain s1 where s1: "upsertFlowEntityTx now e s = Inr s1" "insertTagEventTx uuid now ev s1 = Inr s'"
    using assms(2) by (auto simp: record_tag_event_def split: sum.splits)
  with audit_inv_entities [OF assms(1) s1(1)] audit_inv_event [OF _ s1(2)] show ?thesis by simp
qed

lemma audit_inv_flow_tags:
  "audit_inv s \<Longrightarrow> distinct (map tag_key ts) \<Longrightarrow> list_all (\<lambda>t. tg_Owner t \<in> entity_ids s) ts \<Longrightarrow>
   audit_inv (s\<lparr>au_flowTags := ts\<rparr>)"
  by (simp add: audit_inv_def keys_ok_def refs_ok_def entity_ids_def)

lemma audit_inv_client_tags:
  "audit_inv s \<Longrightarrow> distinct (map tag_key ts) \<Longrightarrow> audit_inv (s\<lparr>au_clientTags := ts\<rparr>)"
  by (simp add: audit_inv_def keys_ok_def refs_ok_def entity_ids_def)

lemma audit_inv_tags:
  "audit_inv s \<Longrightarrow> distinct (map tag_key (au_flowTags s)) \<and> distinct (map tag_key (au_clientTags s)) \<and>
   list_all (\<lambda>t. tg_Owner t \<in> entity_ids s) (au_flowTags s)"
  by (simp add: audit_inv_def keys_ok_def refs_ok_def)

lemma list_all_delete_tags: "list_all P ts \<Longrightarrow> list_all P (delete_tags owner prefix ts)"
  by (auto simp: delete_tags_def list_all_iff)

lemma audit_inv_deleted:
  assumes "audit_inv s"
  shows "audit_inv (s\<lparr>au_flowTags := delete_tags owner prefix (au_flowTags s)\<rparr>)"
    and "audit_inv (s\<lparr>au_clientTags := delete_tags owner prefix (au_clientTags s)\<rparr>)"
  using audit_inv_tags [OF assms]
  by (auto intro!: audit_inv_flow_tags [OF assms] audit_inv_client_tags [OF assms] delete_tags_facts(2) list_all_delete_tags)

lemma audit_inv_applied_flow:
  assumes "audit_inv s" and "ot_Owner t \<in> entity_ids s"
    and "insert_tag (tag_row now t) (delete_tags owner prefix (au_flowTags s)) = Some ts"
  shows "audit_inv (s\<lparr>au_flowTags := ts\<rparr>)"
  using audit_inv_tags [OF assms(1)] insert_tag_facts [OF assms(3)] assms(2)
    delete_tags_facts(2) [of "au_flowTags s" owner prefix]
  by (intro audit_inv_flow_tags [OF assms(1)]) (auto intro!: list_all_delete_tags simp: tag_row_def)

lemma audit_inv_applied_client:
  assumes "audit_inv s" and "insert_tag row (delete_tags owner prefix (au_clientTags s)) = Some ts"
  shows "audit_inv (s\<lparr>au_clientTags := ts\<rparr>)"
  using assms insert_tag_facts [OF assms(2)] delete_tags_facts(2) [of "au_clientTags s" owner prefix] audit_inv_tags [OF assms(1)]
  by (intro audit_inv_client_tags) auto

lemma insertFlowTx_parts:
  assumes "insertFlowTx now p s = Inr s'"
  obtains rec s1 row where "upsertFlowEntityTx now (closed_entity now rec) s = Inr s1" "flow_row now rec = Some row"
    "s' = s1\<lparr>au_flows := sql_upsert fl_FlowID (\<lambda>old new. new) row (au_flows s1)\<rparr>"
  using assms unfolding insertFlowTx_def Let_def by (cases p) (auto split: sum.splits option.splits)

lemma audit_inv_flow:
  assumes "audit_inv s" and "insertFlowTx now p s = Inr s'"
  shows "audit_inv s'"
  using assms(2)
proof (rule insertFlowTx_parts)
  fix rec s1 row
  assume s1: "upsertFlowEntityTx now (closed_entity now rec) s = Inr s1"
    and s': "s' = s1\<lparr>au_flows := sql_upsert fl_FlowID (\<lambda>old new. new) row (au_flows s1)\<rparr>"
  have "audit_inv s1" using audit_inv_entities [OF assms(1) s1] by simp
  then show ?thesis
    using upsert_keys_facts(2) [of fl_FlowID row "\<lambda>x y. y" "au_flows s1"]
    by (simp add: s' audit_inv_def keys_ok_def refs_ok_def entity_ids_def)
qed

lemma audit_inv_rejection: "audit_inv s \<Longrightarrow> insertRejectionTx now p s = Inr s' \<Longrightarrow> audit_inv s'"
  using replace_keys(2) [of re_EventID "au_rejections s"]
  by (cases p) (auto simp: insertRejectionTx_def Let_def audit_inv_def keys_ok_def refs_ok_def entity_ids_def)

lemma audit_inv_checkpoint: "audit_inv s \<Longrightarrow> insertCheckpointTx now c s = Inr s' \<Longrightarrow> audit_inv s'"
  by (auto simp: insertCheckpointTx_def audit_inv_def keys_ok_def refs_ok_def entity_ids_def
      split: option.splits if_splits)

lemma pruned_ids:
  "keys_ok s \<Longrightarrow> fid \<in> entity_ids s \<Longrightarrow> fid \<notin> er_FlowID ` {e \<in> set (au_entities s). prune_ended cutoff e} \<Longrightarrow>
   fid \<in> entity_ids (prune_store now cutoff s)"
  by (auto simp: entity_ids_def prune_store_def Let_def)

lemma audit_inv_prune:
  assumes "audit_inv s"
  shows "audit_inv (prune_store now cutoff s)"
proof -
  have k: "keys_ok s" and r: "refs_ok s" using assms by (simp_all add: audit_inv_def)
  have "keys_ok (prune_store now cutoff s)"
    using k by (simp add: keys_ok_def prune_store_def Let_def distinct_map_filter)
  moreover have "refs_ok (prune_store now cutoff s)"
    using r pruned_ids [OF k, of _ cutoff now] unfolding refs_ok_def list_all_iff
    by (simp add: prune_store_def Let_def)
  ultimately show ?thesis by (simp add: audit_inv_def)
qed

lemma audit_inv_apply_flow: "audit_inv s \<Longrightarrow> audit_inv (snd (ApplyFlowTag db uuid now e ev t p s))"
proof -
  assume inv: "audit_inv s"
  have "audit_inv s'" if
    "(case record_tag_event uuid now e ev s of Inl e \<Rightarrow> Inl e | Inr s1 \<Rightarrow>
       let kept = delete_tags (te_FlowID ev) p (au_flowTags s1)
       in case t of None \<Rightarrow> Inr (s1\<lparr>au_flowTags := kept\<rparr>)
          | Some t \<Rightarrow> if \<not> has_entity (ot_Owner t) s1 then Inl DBError
              else (case insert_tag (tag_row now t) kept of None \<Rightarrow> Inl DBError | Some ts \<Rightarrow> Inr (s1\<lparr>au_flowTags := ts\<rparr>))) = Inr s'" for s'
  proof -
    from that obtain s1 where s1: "record_tag_event uuid now e ev s = Inr s1" by (auto split: sum.splits)
    have i1: "audit_inv s1" using audit_inv_recorded [OF inv s1] by simp
    show ?thesis
      using that s1 audit_inv_deleted(1) [OF i1] audit_inv_applied_flow [OF i1]
      by (auto simp: Let_def split: option.splits if_splits)
  qed
  then show ?thesis using inv unfolding ApplyFlowTag_def by (auto intro!: commit_inv [where P = audit_inv])
qed

lemma audit_inv_apply_client: "audit_inv s \<Longrightarrow> audit_inv (snd (ApplyClientTag db uuid now e ev t p s))"
proof -
  assume inv: "audit_inv s"
  have "audit_inv s'" if
    "(case record_tag_event uuid now e ev s of Inl e \<Rightarrow> Inl e | Inr s1 \<Rightarrow>
       (case t of None \<Rightarrow> Inl ClientProjectionRequired
        | Some t \<Rightarrow> (case insert_tag (tag_row now t) (delete_tags (ot_Owner t) p (au_clientTags s1)) of
            None \<Rightarrow> Inl DBError | Some ts \<Rightarrow> Inr (s1\<lparr>au_clientTags := ts\<rparr>)))) = Inr s'" for s'
  proof -
    from that obtain s1 where s1: "record_tag_event uuid now e ev s = Inr s1" by (auto split: sum.splits)
    have i1: "audit_inv s1" using audit_inv_recorded [OF inv s1] by simp
    show ?thesis
      using that s1 audit_inv_applied_client [OF i1] by (auto split: option.splits)
  qed
  then show ?thesis using inv unfolding ApplyClientTag_def by (auto intro!: commit_inv [where P = audit_inv])
qed

lemma audit_inv_remove:
  assumes "audit_inv s"
  shows "audit_inv (snd (RemoveFlowTag db uuid now e ev p s))"
    and "audit_inv (snd (RemoveClientTag db uuid now e ev ip p s))"
proof -
  have i1: "audit_inv s1" if "record_tag_event uuid now e ev s = Inr s1" for s1
    using audit_inv_recorded [OF assms that] by simp
  show "audit_inv (snd (RemoveFlowTag db uuid now e ev p s))"
    using assms audit_inv_deleted(1) [OF i1]
    by (auto simp: RemoveFlowTag_def intro!: commit_inv [where P = audit_inv] split: sum.splits)
  show "audit_inv (snd (RemoveClientTag db uuid now e ev ip p s))"
    using assms audit_inv_deleted(2) [OF i1]
    by (auto simp: RemoveClientTag_def intro!: commit_inv [where P = audit_inv] split: sum.splits)
qed

lemma audit_inv_upsert_tag:
  assumes "audit_inv s"
  shows "audit_inv (snd (UpsertFlowTag db now t s))" and "audit_inv (snd (UpsertClientTag db now t s))"
proof -
  note tags = audit_inv_tags [OF assms]
  have "list_all (\<lambda>t. tg_Owner t \<in> entity_ids s) (upsert_tag (tag_row now t) (au_flowTags s))" if "ot_Owner t \<in> entity_ids s"
  proof -
    have "fst ` tag_key ` set (upsert_tag (tag_row now t) (au_flowTags s)) \<subseteq> insert (ot_Owner t) (fst ` tag_key ` set (au_flowTags s))"
      unfolding upsert_tag_keys by (auto simp: tag_row_def tag_key_def)
    then show ?thesis using that tags by (auto simp: list_all_iff tag_key_def image_image)
  qed
  then show "audit_inv (snd (UpsertFlowTag db now t s))" using tags upsert_tag_keys(2)
    unfolding UpsertFlowTag_def
    by (auto intro!: commit_inv [where P = audit_inv] audit_inv_flow_tags assms split: if_splits)
  show "audit_inv (snd (UpsertClientTag db now t s))" using tags upsert_tag_keys(2)
    unfolding UpsertClientTag_def by (auto intro!: commit_inv [where P = audit_inv] audit_inv_client_tags assms)
qed

lemma tx_batch:
  assumes "audit_inv s" and "\<And>x s s'. audit_inv s \<Longrightarrow> f x s = Inr s' \<Longrightarrow> audit_inv s'"
  shows "audit_inv (snd (commit db s (tx_all f xs s)))"
  using assms(1)
proof (rule commit_inv)
  fix s'
  assume "tx_all f xs s = Inr s'"
  with assms show "audit_inv s'" using tx_all_inv [of audit_inv f s xs s'] by blast
qed

lemma audit_inv_batches:
  assumes "audit_inv s"
  shows "audit_inv (snd (UpsertFlowEntity db now e s))" and "audit_inv (snd (InsertFlowEntities db now es s))"
    and "audit_inv (snd (InsertFlows db now rs s))" and "audit_inv (snd (InsertRejections db now js s))"
    and "audit_inv (snd (InsertCheckpoints db now cs s))" and "audit_inv (snd (AppendFlowTagEvent db uuid now ev s))"
proof -
  show "audit_inv (snd (UpsertFlowEntity db now e s))"
    using commit_inv [where P = audit_inv, OF assms] audit_inv_entities [OF assms] assms by (simp add: UpsertFlowEntity_def)
  show "audit_inv (snd (AppendFlowTagEvent db uuid now ev s))"
    using commit_inv [where P = audit_inv, OF assms] audit_inv_event [OF assms] by (simp add: AppendFlowTagEvent_def)
  show "audit_inv (snd (InsertFlowEntities db now es s))"
    using assms tx_batch [OF assms, of "upsertFlowEntityTx now"] audit_inv_entities by (simp add: InsertFlowEntities_def)
  show "audit_inv (snd (InsertFlows db now rs s))"
    using assms tx_batch [OF assms, of "insertFlowTx now"] audit_inv_flow by (simp add: InsertFlows_def)
  show "audit_inv (snd (InsertRejections db now js s))"
    using assms tx_batch [OF assms, of "insertRejectionTx now"] audit_inv_rejection by (simp add: InsertRejections_def)
  show "audit_inv (snd (InsertCheckpoints db now cs s))"
    using assms tx_batch [OF assms, of "insertCheckpointTx now"] audit_inv_checkpoint by (simp add: InsertCheckpoints_def)
qed

lemma audit_inv_step: "audit_inv s \<Longrightarrow> audit_inv (audit_step s op)"
  by (cases op) (simp_all add: audit_inv_apply_flow audit_inv_apply_client audit_inv_remove audit_inv_upsert_tag
      audit_inv_batches audit_inv_prune Prune_def Let_def)

interpretation audit: event_system audit_step audit_inv
  by unfold_locales (rule audit_inv_step)

section \<open>The entity of a Flow under writes\<close>

definition entity_of :: "string \<Rightarrow> AuditStore \<Rightarrow> EntityRow option" where
  "entity_of fid s = List.find (\<lambda>e. er_FlowID e = fid) (au_entities s)"

text \<open>What never goes back: a closed Flow stays closed, and the counters only grow.\<close>

definition progress :: "EntityRow \<Rightarrow> EntityRow \<Rightarrow> bool" where
  "progress e e' \<longleftrightarrow> (er_State e = ''closed'' \<longrightarrow> er_State e' = ''closed'') \<and> er_Generation e \<le> er_Generation e' \<and>
     er_CreatedAt e' \<le> er_CreatedAt e \<and> er_LastActivity e \<le> er_LastActivity e' \<and> er_BytesUp e \<le> er_BytesUp e' \<and>
     er_BytesDown e \<le> er_BytesDown e'"

definition grows :: "AuditStore \<Rightarrow> AuditStore \<Rightarrow> bool" where
  "grows s s' \<longleftrightarrow> (\<forall>fid e. entity_of fid s = Some e \<longrightarrow> (\<exists>e'. entity_of fid s' = Some e' \<and> progress e e'))"

lemma find_upsert:
  assumes "\<And>x y. k (m x y) = k x"
  shows "List.find (\<lambda>x. k x = i) (sql_upsert k m row t) =
    (if k row = i then Some (case List.find (\<lambda>x. k x = i) t of None \<Rightarrow> row | Some old \<Rightarrow> m old row)
     else List.find (\<lambda>x. k x = i) t)"
proof -
  have upd: "List.find (\<lambda>x. k x = i) (map (\<lambda>old. if k old = k row then m old row else old) t) =
      (if k row = i then map_option (\<lambda>old. m old row) (List.find (\<lambda>x. k x = i) t) else List.find (\<lambda>x. k x = i) t)"
    by (induction t) (auto simp: assms)
  have app: "List.find (\<lambda>x. k x = i) (t @ [row]) =
      (case List.find (\<lambda>x. k x = i) t of None \<Rightarrow> if k row = i then Some row else None | Some x \<Rightarrow> Some x)"
    by (induction t) auto
  show ?thesis
  proof (cases "k row \<in> k ` set t")
    case True
    then obtain x where "x \<in> set t" "k x = k row" by (metis imageE)
    then have "List.find (\<lambda>x. k x = k row) t \<noteq> None" by (auto simp: find_None_iff)
    with True show ?thesis by (auto simp: sql_upsert_def upd)
  next
    case False
    then have "List.find (\<lambda>x. k x = k row) t = None" unfolding find_None_iff by (metis imageI)
    with False show ?thesis by (auto simp: sql_upsert_def app split: option.splits)
  qed
qed

lemma entity_of_upsert:
  assumes "upsertFlowEntityTx now e s = Inr s'"
  obtains row where "entity_row now e = Some row" and "er_FlowID row = fe_FlowID e" and
    "\<And>fid. entity_of fid s' = (if fid = fe_FlowID e
        then Some (case entity_of fid s of None \<Rightarrow> row | Some old \<Rightarrow> merge_entity old row) else entity_of fid s)"
proof -
  obtain row where row: "entity_row now e = Some row"
    and s': "s' = s\<lparr>au_entities := sql_upsert er_FlowID merge_entity row (au_entities s)\<rparr>"
    using assms by (auto simp: upsertFlowEntityTx_def split: if_splits option.splits)
  have id: "er_FlowID row = fe_FlowID e"
    using row by (auto simp: entity_row_def Let_def split: option.splits)
  show thesis
    by (rule that [OF row id]) (auto simp: entity_of_def s' find_upsert id)
qed

lemma progress_refl [simp]: "progress e e"
  by (simp add: progress_def)

lemma progress_trans: "progress a b \<Longrightarrow> progress b c \<Longrightarrow> progress a c"
  by (auto simp: progress_def)

lemma progress_merge: "progress old (merge_entity old new)"
  by (auto simp: progress_def merge_entity_def Let_def)

lemma grows_refl [simp]: "grows s s"
  by (auto simp: grows_def)

lemma grows_trans: "grows a b \<Longrightarrow> grows b c \<Longrightarrow> grows a c"
  unfolding grows_def by (meson progress_trans)

lemma grows_same: "au_entities s' = au_entities s \<Longrightarrow> grows s s'"
  by (simp add: grows_def entity_of_def)

lemma grows_upsert: "upsertFlowEntityTx now e s = Inr s' \<Longrightarrow> grows s s'"
  by (erule entity_of_upsert) (auto simp: grows_def progress_merge)

lemma grows_flow: "insertFlowTx now p s = Inr s' \<Longrightarrow> grows s s'"
  by (erule insertFlowTx_parts) (auto intro: grows_trans [OF grows_upsert grows_same])

lemma grows_event: "insertTagEventTx uuid now ev s = Inr s' \<Longrightarrow> grows s s'"
  by (auto simp: insertTagEventTx_def intro!: grows_same split: if_splits)

lemma grows_recorded: "record_tag_event uuid now e ev s = Inr s' \<Longrightarrow> grows s s'"
  by (auto simp: record_tag_event_def split: sum.splits intro: grows_trans [OF grows_upsert grows_event])

lemma grows_tx: "(\<And>x s s'. f x s = Inr s' \<Longrightarrow> grows s s') \<Longrightarrow> tx_all f xs s = Inr s' \<Longrightarrow> grows s s'"
proof (induction xs arbitrary: s)
  case (Cons x xs)
  then obtain s1 where "f x s = Inr s1" "tx_all f xs s1 = Inr s'" by (auto split: sum.splits)
  then show ?case using Cons.IH [of s1] Cons.prems(1) grows_trans by blast
qed simp

lemma grows_commit: "(\<And>s'. r = Inr s' \<Longrightarrow> grows s s') \<Longrightarrow> grows s (snd (commit db s r))"
  by (auto simp: commit_def split: sum.splits)

lemma grows_retag: "grows s s1 \<Longrightarrow> grows s (s1\<lparr>au_flowTags := ts\<rparr>)" "grows s s1 \<Longrightarrow> grows s (s1\<lparr>au_clientTags := ts\<rparr>)"
  by (auto intro: grows_trans [OF _ grows_same])

fun is_prune :: "audit_op \<Rightarrow> bool" where
  "is_prune (AuPrune db now t) = True"
| "is_prune _ = False"

lemma grows_step: "\<not> is_prune op \<Longrightarrow> grows s (audit_step s op)"
proof (induction s op rule: audit_step.induct)
  case (3 s db now rs)
  then show ?case by (auto simp: InsertFlows_def intro!: grows_commit intro: grows_tx [OF grows_flow])
next
  case (4 s db now rs)
  have g: "insertRejectionTx now x s = Inr s' \<Longrightarrow> grows s s'" for x s s'
    by (cases x) (auto simp: insertRejectionTx_def intro: grows_same)
  show ?case by (auto simp: InsertRejections_def intro!: grows_commit intro: grows_tx [OF g])
next
  case (5 s db now cs)
  have g: "insertCheckpointTx now x s = Inr s' \<Longrightarrow> grows s s'" for x s s'
    by (auto simp: insertCheckpointTx_def intro!: grows_same split: option.splits if_splits)
  show ?case by (auto simp: InsertCheckpoints_def intro!: grows_commit intro: grows_tx [OF g])
qed (auto simp: UpsertFlowEntity_def InsertFlowEntities_def AppendFlowTagEvent_def ApplyFlowTag_def ApplyClientTag_def
    UpsertFlowTag_def UpsertClientTag_def RemoveClientTag_def RemoveFlowTag_def Let_def
    intro!: grows_commit grows_retag intro: grows_upsert grows_event grows_recorded grows_tx [OF grows_upsert]
    split: sum.splits option.splits if_splits)

lemma entity_of_set: "entity_of fid s = Some e \<Longrightarrow> e \<in> set (au_entities s) \<and> er_FlowID e = fid"
  by (auto simp: entity_of_def find_Some_iff)

lemma grows_run: "list_all (\<lambda>op. \<not> is_prune op) ops \<Longrightarrow> grows s (foldl audit_step s ops)"
  by (induction ops arbitrary: s) (auto intro: grows_trans [OF grows_step])

text \<open>
  C2: the record of a Flow never goes back. Whatever writes arrive, in whatever order and
  with whatever failures in between (a late snapshot of an open Flow after its close, a
  repeated batch, a tag operation), the Flow keeps its row until it is pruned, and in it a
  closed Flow stays closed, the generation, the last activity and the byte counts never
  fall, and the creation time never rises.
\<close>

theorem entity_never_regresses:
  assumes "entity_of fid s = Some e" and "list_all (\<lambda>op. \<not> is_prune op) ops"
  shows "\<exists>e'. entity_of fid (foldl audit_step s ops) = Some e' \<and>
     (er_State e = ''closed'' \<longrightarrow> er_State e' = ''closed'') \<and> er_Generation e \<le> er_Generation e' \<and>
     er_CreatedAt e' \<le> er_CreatedAt e \<and> er_LastActivity e \<le> er_LastActivity e' \<and>
     er_BytesUp e \<le> er_BytesUp e' \<and> er_BytesDown e \<le> er_BytesDown e'"
  using grows_run [OF assms(2), of s] assms(1) unfolding grows_def progress_def by blast

definition sample_entity :: "string \<Rightarrow> uint64 \<Rightarrow> FlowEntity" where
  "sample_entity state up =
     \<lparr>fe_FlowID = ''f1'', fe_Protocol = ''tcp'', fe_ClientIP = ''10.0.0.1'', fe_ClientPort = 5000, fe_Listener = '':80'',
      fe_Route = ''web'', fe_Upstream = ''a'', fe_BackendKey = [], fe_BackendProtocol = [], fe_BackendLocal = [],
      fe_BackendRemote = [], fe_CreatedAt = 5, fe_EndedAt = None, fe_ResolveUntil = None, fe_State = state,
      fe_Generation = 0, fe_LastActivity = 5, fe_BytesUp = up, fe_BytesDown = 0\<rparr>"

definition sample_audit :: AuditStore where
  "sample_audit = snd (UpsertFlowEntity True 9 (sample_entity ''closed'' 7) empty_audit)"

lemma sample_audit_entity:
  "map_option (\<lambda>e. (er_State e, er_BytesUp e)) (entity_of ''f1'' sample_audit) = Some (''closed'', 7)"
proof -
  have "TrimSpace ''f1'' \<noteq> []" by code_simp
  then show ?thesis
    by (simp add: sample_audit_def sample_entity_def UpsertFlowEntity_def upsertFlowEntityTx_def entity_row_def sql_uint_def
        commit_def empty_audit_def entity_of_def sql_upsert_def)
qed

theorem entity_never_regresses_witness:
  "\<exists>e'. entity_of ''f1'' (foldl audit_step sample_audit [AuEntity True 9 (sample_entity ''active'' 3)]) = Some e' \<and>
     er_State e' = ''closed'' \<and> 7 \<le> er_BytesUp e'"
proof -
  obtain e where "entity_of ''f1'' sample_audit = Some e" "er_State e = ''closed''" "er_BytesUp e = 7"
    using sample_audit_entity by auto
  then show ?thesis
    using entity_never_regresses [of "''f1''" sample_audit e "[AuEntity True 9 (sample_entity ''active'' 3)]"] by auto
qed

section \<open>The order of the writes\<close>

text \<open>The columns of an entity that do not depend on the order in which writes arrive.\<close>

definition entity_facts :: "string \<Rightarrow> AuditStore \<Rightarrow> (bool \<times> int \<times> int \<times> int \<times> int \<times> int) option" where
  "entity_facts fid s = map_option (\<lambda>e. (er_State e = ''closed'', er_CreatedAt e, er_Generation e, er_LastActivity e,
     er_BytesUp e, er_BytesDown e)) (entity_of fid s)"

definition write_entity :: "time \<times> FlowEntity \<Rightarrow> AuditStore \<Rightarrow> AuditStore" where
  "write_entity p s = snd (UpsertFlowEntity True (fst p) (snd p) s)"

definition join_facts ::
    "bool \<times> int \<times> int \<times> int \<times> int \<times> int \<Rightarrow> (bool \<times> int \<times> int \<times> int \<times> int \<times> int) option \<Rightarrow>
     (bool \<times> int \<times> int \<times> int \<times> int \<times> int) option" where
  "join_facts n o' = Some (case o' of None \<Rightarrow> n | Some (c, ct, g, l, u, d) \<Rightarrow>
     (case n of (c', ct', g', l', u', d') \<Rightarrow> (c \<or> c', min ct ct', max g g', max l l', max u u', max d d')))"

definition row_facts :: "EntityRow \<Rightarrow> bool \<times> int \<times> int \<times> int \<times> int \<times> int" where
  "row_facts e = (er_State e = ''closed'', er_CreatedAt e, er_Generation e, er_LastActivity e, er_BytesUp e, er_BytesDown e)"

lemma join_facts_commute: "join_facts a (join_facts b x) = join_facts b (join_facts a x)"
  by (auto simp: join_facts_def split: option.splits prod.splits)

lemma row_facts_merge: "Some (row_facts (merge_entity old new)) = join_facts (row_facts new) (Some (row_facts old))"
  by (auto simp: row_facts_def join_facts_def merge_entity_def Let_def)

definition fact_step :: "string \<Rightarrow> time \<times> FlowEntity \<Rightarrow>
    (bool \<times> int \<times> int \<times> int \<times> int \<times> int) option \<Rightarrow> (bool \<times> int \<times> int \<times> int \<times> int \<times> int) option" where
  "fact_step fid p x =
     (if TrimSpace (fe_FlowID (snd p)) = [] \<or> fe_FlowID (snd p) \<noteq> fid then x
      else case entity_row (fst p) (snd p) of None \<Rightarrow> x | Some row \<Rightarrow> join_facts (row_facts row) x)"

lemma entity_facts_write: "entity_facts fid (write_entity p s) = fact_step fid p (entity_facts fid s)"
proof (cases "upsertFlowEntityTx (fst p) (snd p) s")
  case (Inl e)
  then have "write_entity p s = s" by (auto simp: write_entity_def UpsertFlowEntity_def commit_def)
  with Inl show ?thesis by (auto simp: fact_step_def upsertFlowEntityTx_def split: option.splits if_splits)
next
  case (Inr s')
  then have s': "write_entity p s = s'" and ne: "TrimSpace (fe_FlowID (snd p)) \<noteq> []"
    by (auto simp: write_entity_def UpsertFlowEntity_def commit_def upsertFlowEntityTx_def split: if_splits)
  from Inr show ?thesis
  proof (rule entity_of_upsert)
    fix row
    assume row: "entity_row (fst p) (snd p) = Some row"
      and ent: "\<And>fid. entity_of fid s' = (if fid = fe_FlowID (snd p)
        then Some (case entity_of fid s of None \<Rightarrow> row | Some old \<Rightarrow> merge_entity old row) else entity_of fid s)"
    show ?thesis
      using row_facts_merge ne
      by (auto simp: s' entity_facts_def ent fact_step_def row join_facts_def row_facts_def split: option.splits)
  qed
qed

lemma fact_step_commute: "fact_step fid p \<circ> fact_step fid q = fact_step fid q \<circ> fact_step fid p"
  by (rule ext) (auto simp: fact_step_def join_facts_commute split: option.splits)

lemma entity_facts_fold: "entity_facts fid (fold write_entity ws s) = fold (fact_step fid) ws (entity_facts fid s)"
  by (induction ws arbitrary: s) (simp_all add: entity_facts_write)

text \<open>
  The order in which the writes of entities arrive does not matter for what the store
  knows of a Flow's life. Two sequences with the same writes leave every Flow with the same
  answer to whether it is closed, the same creation time, generation, last activity and byte
  counts, so the queues and batches between the forwarder and the database may reorder
  snapshots freely. Writes the store refuses change nothing in either order.
\<close>

lemma entity_writes_order_free:
  assumes "mset ws = mset ws'"
  shows "entity_facts fid (fold write_entity ws s) = entity_facts fid (fold write_entity ws' s)"
  unfolding entity_facts_fold
  by (rule arg_cong [where f = "\<lambda>g. g (entity_facts fid s)"], rule fold_multiset_equiv) (auto simp: fact_step_commute assms)

lemma entity_writes_order_free_sample:
  "entity_facts ''f1'' (fold write_entity [(9, sample_entity ''active'' 3), (9, sample_entity ''closed'' 7)] empty_audit) =
   entity_facts ''f1'' (fold write_entity [(9, sample_entity ''closed'' 7), (9, sample_entity ''active'' 3)] empty_audit)"
  by (rule entity_writes_order_free) simp

section \<open>Tags by prefix\<close>

text \<open>The pattern of one namespace and key: every character of the prefix, then anything.\<close>

definition like_char :: "char \<Rightarrow> char \<Rightarrow> bool" where
  "like_char c x \<longleftrightarrow> c = CHR ''_'' \<or> lower_char c = lower_char x"

definition like_prefix :: "string \<Rightarrow> string \<Rightarrow> bool" where
  "like_prefix p s \<longleftrightarrow> length p \<le> length s \<and> list_all2 like_char p (take (length p) s)"

lemma sql_like_any: "sql_like ''%'' s"
  by (induction s) auto

lemma sql_like_prefix: "CHR ''%'' \<notin> set p \<Longrightarrow> sql_like (p @ ''%'') s \<longleftrightarrow> like_prefix p s"
proof (induction p arbitrary: s)
  case Nil
  then show ?case by (simp add: sql_like_any like_prefix_def)
next
  case (Cons c p)
  then show ?case by (cases s) (auto simp: like_prefix_def like_char_def)
qed

lemma like_prefix_self: "like_prefix p (p @ v)"
  by (simp add: like_prefix_def like_char_def list_all2_same)

lemma like_prefix_lower:
  "CHR ''_'' \<notin> set p \<Longrightarrow> like_prefix p s \<longleftrightarrow> length p \<le> length s \<and> ToLower (take (length p) s) = ToLower p"
proof -
  assume "CHR ''_'' \<notin> set p"
  then have "list_all2 like_char p t \<longleftrightarrow> ToLower t = ToLower p" for t
    by (induction p t rule: list_induct2') (auto simp: like_char_def ToLower_def)
  then show ?thesis by (simp add: like_prefix_def)
qed

lemma recorded_tags:
  "record_tag_event uuid now e ev s = Inr s' \<Longrightarrow> au_flowTags s' = au_flowTags s \<and> au_clientTags s' = au_clientTags s"
  by (auto simp: record_tag_event_def upsertFlowEntityTx_def insertTagEventTx_def split: sum.splits if_splits option.splits)

text \<open>Sorting commutes with selecting.\<close>

context strict_weak
begin

lemma filter_insert_sorted:
  assumes "sorted_wrt (\<lambda>a b. \<not> lt b a) ys" and "ok x" and "\<forall>y \<in> set ys. ok y"
  shows "filter P (insert_by lt x ys) = (if P x then insert_by lt x (filter P ys) else filter P ys)"
  using assms
proof (induction ys)
  case (Cons y ys)
  have lows: "\<not> lt z x" if "\<not> lt y x" and "z \<in> set (filter P ys)" for z
    using Cons.prems that lt_neg_trans [of z y x] by auto
  have "insert_by lt x (filter P ys) = x # filter P ys" if "\<not> lt y x"
    using lows [OF that] by (cases "filter P ys") auto
  with Cons show ?case by auto
qed simp

lemma filter_stable_sort_comm:
  "\<forall>x \<in> set xs. ok x \<Longrightarrow> filter P (stable_sort lt xs) = stable_sort lt (filter P xs)"
proof (induction xs)
  case (Cons x xs)
  have "filter P (stable_sort lt (x # xs)) = filter P (insert_by lt x (stable_sort lt xs))" by (simp add: stable_sort_def)
  also have "\<dots> = (if P x then insert_by lt x (filter P (stable_sort lt xs)) else filter P (stable_sort lt xs))"
    using Cons.prems sorted_stable_sort [of xs] by (intro filter_insert_sorted) auto
  finally show ?case using Cons by (simp add: stable_sort_def)
qed (simp add: stable_sort_def)

end

interpretation tag_order: strict_weak tag_before "\<lambda>_. True"
  by unfold_locales (auto simp: tag_before_def str_less_def)

text \<open>The tags of one owner: an operation on another owner leaves them alone.\<close>

definition tags_of :: "string \<Rightarrow> TagRow list \<Rightarrow> TagRow list" where
  "tags_of owner ts = filter (\<lambda>t. tg_Owner t = owner) ts"

lemma tags_of_delete: "owner \<noteq> owner' \<Longrightarrow> tags_of owner (delete_tags owner' p ts) = tags_of owner ts"
  by (simp add: tags_of_def delete_tags_def) (metis (mono_tags, lifting) filter_cong)

lemma tags_of_insert: "insert_tag row ts = Some ts' \<Longrightarrow> owner \<noteq> tg_Owner row \<Longrightarrow> tags_of owner ts' = tags_of owner ts"
  by (auto simp: insert_tag_def tags_of_def split: if_splits)

lemma apply_flow_tag_other:
  assumes "ApplyFlowTag db uuid now e ev (Some t) p s = (err, s')" and "te_FlowID ev = ot_Owner t"
  shows "au_clientTags s' = au_clientTags s \<and> (owner \<noteq> ot_Owner t \<longrightarrow> tags_of owner (au_flowTags s') = tags_of owner (au_flowTags s))"
  using assms
  by (auto simp: ApplyFlowTag_def commit_def Let_def tags_of_delete tag_row_def
      dest!: recorded_tags dest: tags_of_insert split: if_splits sum.splits option.splits)

lemma apply_client_tag_other:
  assumes "ApplyClientTag db uuid now e ev (Some t) p s = (err, s')"
  shows "au_flowTags s' = au_flowTags s \<and> (owner \<noteq> ot_Owner t \<longrightarrow> tags_of owner (au_clientTags s') = tags_of owner (au_clientTags s))"
  using assms
  by (auto simp: ApplyClientTag_def commit_def tags_of_delete tag_row_def
      dest!: recorded_tags dest: tags_of_insert split: if_splits sum.splits option.splits)

lemma remove_flow_tag_other:
  assumes "RemoveFlowTag db uuid now e ev p s = (err, s')"
  shows "au_clientTags s' = au_clientTags s \<and> (owner \<noteq> te_FlowID ev \<longrightarrow> tags_of owner (au_flowTags s') = tags_of owner (au_flowTags s))"
  using assms
  by (auto simp: RemoveFlowTag_def commit_def tags_of_delete dest!: recorded_tags split: if_splits sum.splits)

lemma remove_client_tag_other:
  assumes "RemoveClientTag db uuid now e ev ip p s = (err, s')"
  shows "au_flowTags s' = au_flowTags s \<and> (owner \<noteq> ip \<longrightarrow> tags_of owner (au_clientTags s') = tags_of owner (au_clientTags s))"
  using assms
  by (auto simp: RemoveClientTag_def commit_def tags_of_delete dest!: recorded_tags split: if_splits sum.splits)

text \<open>What a successful \<open>ApplyFlowTag\<close> leaves in the table.\<close>

lemma apply_flow_tag:
  assumes "ApplyFlowTag db uuid now e ev (Some t) p s = (None, s')" and "audit_inv s"
  shows "au_flowTags s' = delete_tags (te_FlowID ev) p (au_flowTags s) @ [tag_row now t]" and "audit_inv s'"
proof -
  obtain s1 ts where s1: "record_tag_event uuid now e ev s = Inr s1"
    and ts: "insert_tag (tag_row now t) (delete_tags (te_FlowID ev) p (au_flowTags s1)) = Some ts"
    and s': "s' = s1\<lparr>au_flowTags := ts\<rparr>"
    using assms(1) by (auto simp: ApplyFlowTag_def commit_def Let_def split: if_splits sum.splits option.splits)
  show "au_flowTags s' = delete_tags (te_FlowID ev) p (au_flowTags s) @ [tag_row now t]"
    using audit_inv_recorded [OF assms(2) s1] insert_tag_facts [OF ts] by (simp add: s')
  show "audit_inv s'" using audit_inv_apply_flow [OF assms(2), of db uuid now e ev "Some t" p] assms(1) by simp
qed

lemma remove_flow_tag:
  assumes "RemoveFlowTag db uuid now e ev p s = (None, s')" and "audit_inv s"
  shows "au_flowTags s' = delete_tags (te_FlowID ev) p (au_flowTags s)"
proof -
  obtain s1 where s1: "record_tag_event uuid now e ev s = Inr s1"
    and s': "s' = s1\<lparr>au_flowTags := delete_tags (te_FlowID ev) p (au_flowTags s1)\<rparr>"
    using assms(1) by (auto simp: RemoveFlowTag_def commit_def split: if_splits sum.splits)
  show ?thesis using audit_inv_recorded [OF assms(2) s1] by (simp add: s')
qed

lemma entity_row_id: "entity_row now e = Some row \<Longrightarrow> er_FlowID row = fe_FlowID e"
  by (auto simp: entity_row_def Let_def split: option.splits)

lemma record_tag_event_ok:
  assumes "TrimSpace (fe_FlowID e) \<noteq> []" and "entity_row now e \<noteq> None" and "te_FlowID ev = fe_FlowID e"
  obtains s1 where "record_tag_event uuid now e ev s = Inr s1" and "has_entity (fe_FlowID e) s1"
proof -
  obtain row where row: "entity_row now e = Some row" using assms(2) by blast
  have "map er_FlowID (sql_upsert er_FlowID merge_entity row (au_entities s)) =
      (if er_FlowID row \<in> set (map er_FlowID (au_entities s)) then map er_FlowID (au_entities s)
       else map er_FlowID (au_entities s) @ [er_FlowID row])"
    by (rule upsert_keys) (simp add: merge_entity_def Let_def)
  from arg_cong [OF this, of set]
  have "er_FlowID row \<in> er_FlowID ` set (sql_upsert er_FlowID merge_entity row (au_entities s))"
    by (auto split: if_splits)
  then show thesis using that assms row entity_row_id [OF row]
    by (simp add: record_tag_event_def upsertFlowEntityTx_def insertTagEventTx_def entity_ids_def)
qed

text \<open>Setting a tag cannot conflict with the tag it replaces.\<close>

lemma apply_flow_tag_ok:
  assumes "TrimSpace (fe_FlowID e) \<noteq> []" and "entity_row now e \<noteq> None" and "te_FlowID ev = fe_FlowID e"
    and "ot_Owner t = fe_FlowID e" and "p \<noteq> []" and "CHR ''%'' \<notin> set p" and "like_prefix p (ot_Tag t)"
  shows "\<exists>s'. ApplyFlowTag True uuid now e ev (Some t) p s = (None, s')"
proof -
  obtain s1 where s1: "record_tag_event uuid now e ev s = Inr s1" "has_entity (fe_FlowID e) s1"
    using record_tag_event_ok [OF assms(1-3)] .
  have "tag_key (tag_row now t) \<notin> tag_key ` set (delete_tags (fe_FlowID e) p (au_flowTags s1))"
    using assms(4,7) sql_like_prefix [OF assms(6)] by (auto simp: delete_tags_def tag_key_def tag_row_def)
  moreover have "fe_FlowID e \<noteq> []" using assms(1) by auto
  ultimately show ?thesis using s1 assms(3-5) by (simp add: ApplyFlowTag_def commit_def insert_tag_def Let_def)
qed

lemma remove_flow_tag_ok:
  assumes "TrimSpace (fe_FlowID e) \<noteq> []" and "entity_row now e \<noteq> None" and "te_FlowID ev = fe_FlowID e" and "p \<noteq> []"
  shows "\<exists>s'. RemoveFlowTag True uuid now e ev p s = (None, s')"
proof -
  obtain s1 where "record_tag_event uuid now e ev s = Inr s1" using record_tag_event_ok [OF assms(1-3)] .
  moreover have "fe_FlowID e \<noteq> []" using assms(1) by auto
  ultimately show ?thesis using assms(3,4) by (simp add: RemoveFlowTag_def commit_def)
qed

text \<open>What the tags of an owner look like after a tag was replaced: the new one, and every other pair's.\<close>

lemma owned_tags_filter:
  "filter (\<lambda>t. P (ot_Tag t)) (owned_tags now owner ts) =
   map tag_of_row (stable_sort tag_before (filter (\<lambda>t. P (tg_Tag t) \<and> tg_Owner t = owner \<and> tag_live now t) ts))"
  unfolding owned_tags_def filter_map
  by (simp add: tag_order.filter_stable_sort_comm comp_def tag_of_row_def conj_ac cong: filter_cong)

lemma replaced_tags:
  assumes "CHR ''%'' \<notin> set p" and "tg_Owner row = owner" and "like_prefix p (tg_Tag row)"
  shows "filter (\<lambda>t. like_prefix p (ot_Tag t)) (owned_tags now owner (delete_tags owner p ts @ [row])) =
           (if tag_live now row then [tag_of_row row] else [])"
    and "filter (\<lambda>t. \<not> like_prefix p (ot_Tag t)) (owned_tags now owner (delete_tags owner p ts @ [row])) =
           filter (\<lambda>t. \<not> like_prefix p (ot_Tag t)) (owned_tags now owner ts)"
proof -
  have none: "filter (\<lambda>t. like_prefix p (tg_Tag t) \<and> tg_Owner t = owner \<and> tag_live now t) (delete_tags owner p ts) = []"
    using sql_like_prefix [OF assms(1)] by (auto simp: delete_tags_def filter_empty_conv)
  show "filter (\<lambda>t. like_prefix p (ot_Tag t)) (owned_tags now owner (delete_tags owner p ts @ [row])) =
           (if tag_live now row then [tag_of_row row] else [])"
    using none assms(2,3) by (simp add: owned_tags_filter stable_sort_def)
  have "filter (\<lambda>t. \<not> like_prefix p (tg_Tag t) \<and> tg_Owner t = owner \<and> tag_live now t) (delete_tags owner p ts) =
        filter (\<lambda>t. \<not> like_prefix p (tg_Tag t) \<and> tg_Owner t = owner \<and> tag_live now t) ts"
    using sql_like_prefix [OF assms(1)] unfolding delete_tags_def filter_filter by (intro filter_cong) auto
  then show "filter (\<lambda>t. \<not> like_prefix p (ot_Tag t)) (owned_tags now owner (delete_tags owner p ts @ [row])) =
           filter (\<lambda>t. \<not> like_prefix p (ot_Tag t)) (owned_tags now owner ts)"
    using assms(3) by (simp add: owned_tags_filter [of "\<lambda>x. \<not> like_prefix p x"])
qed

lemma removed_tags:
  assumes "CHR ''%'' \<notin> set p"
  shows "owned_tags now owner (delete_tags owner p ts) = filter (\<lambda>t. \<not> like_prefix p (ot_Tag t)) (owned_tags now owner ts)"
proof -
  have "filter (\<lambda>t. tg_Owner t = owner \<and> tag_live now t) (delete_tags owner p ts) =
        filter (\<lambda>t. \<not> like_prefix p (tg_Tag t) \<and> tg_Owner t = owner \<and> tag_live now t) ts"
    using sql_like_prefix [OF assms] unfolding delete_tags_def filter_filter by (intro filter_cong) auto
  then show ?thesis by (simp add: owned_tags_filter [of "\<lambda>x. \<not> like_prefix p x"]) (simp add: owned_tags_def)
qed

section \<open>Effective tags\<close>

definition tag_id :: "EffectiveTag \<Rightarrow> string \<times> string" where
  "tag_id t = (et_Tag t, et_Scope t)"

definition eff_ok :: "effective \<Rightarrow> bool" where
  "eff_ok st \<longleftrightarrow> (\<forall>f. distinct (map tag_id (gget_default [] (fst st) f)) \<and>
     (\<forall>t sc. (f, t, sc) \<in> set (snd st) \<longleftrightarrow> (t, sc) \<in> tag_id ` set (gget_default [] (fst st) f)))"

lemma gget_default_gput: "gget_default d (gput k v m) k' = (if k' = k then v else gget_default d m k')"
  by (simp add: gget_default_def)

lemma dom_gput: "dom (map_of (gput k v m)) = insert k (dom (map_of m))"
  by (auto simp: dom_def)

lemma append_tag:
  assumes "eff_ok st"
  shows "eff_ok (appendTag st (f, t))"
    and "tag_id ` set (gget_default [] (fst (appendTag st (f, t))) f') =
           (if f' = f then insert (tag_id t) (tag_id ` set (gget_default [] (fst st) f'))
            else tag_id ` set (gget_default [] (fst st) f'))"
    and "f \<in> dom (map_of (fst st)) \<Longrightarrow> dom (map_of (fst (appendTag st (f, t)))) = dom (map_of (fst st))"
proof -
  obtain m seen where st: "st = (m, seen)" by (cases st)
  have mem: "(f, et_Tag t, et_Scope t) \<in> set seen \<longleftrightarrow> tag_id t \<in> tag_id ` set (gget_default [] m f)"
    using assms by (simp add: eff_ok_def st tag_id_def)
  show "eff_ok (appendTag st (f, t))"
    using assms mem by (auto simp: eff_ok_def st appendTag_def gget_default_gput tag_id_def)
  show "tag_id ` set (gget_default [] (fst (appendTag st (f, t))) f') =
           (if f' = f then insert (tag_id t) (tag_id ` set (gget_default [] (fst st) f'))
            else tag_id ` set (gget_default [] (fst st) f'))"
    using mem by (auto simp: st appendTag_def gget_default_gput)
  show "f \<in> dom (map_of (fst st)) \<Longrightarrow> dom (map_of (fst (appendTag st (f, t)))) = dom (map_of (fst st))"
    by (simp add: st appendTag_def dom_gput insert_absorb)
qed

lemma append_tags:
  assumes "eff_ok st" and "fst ` set ts \<subseteq> dom (map_of (fst st))"
  shows "eff_ok (foldl appendTag st ts) \<and> dom (map_of (fst (foldl appendTag st ts))) = dom (map_of (fst st)) \<and>
         tag_id ` set (gget_default [] (fst (foldl appendTag st ts)) f) =
           tag_id ` set (gget_default [] (fst st) f) \<union> tag_id ` {t. (f, t) \<in> set ts}"
  using assms
proof (induction ts arbitrary: st)
  case Nil
  then show ?case by simp
next
  case (Cons p ts)
  obtain g t where p: "p = (g, t)" by (cases p)
  note one = append_tag [OF Cons.prems(1), of g t]
  have "g \<in> dom (map_of (fst st))" using Cons.prems(2) by (simp add: p)
  then have keys: "dom (map_of (fst (appendTag st (g, t)))) = dom (map_of (fst st))" by (rule one(3))
  then have "fst ` set ts \<subseteq> dom (map_of (fst (appendTag st (g, t))))" using Cons.prems(2) by (simp add: p)
  note rest = Cons.IH [OF one(1) this]
  have "{x. (f, x) \<in> set (p # ts)} = (if f = g then insert t {x. (f, x) \<in> set ts} else {x. (f, x) \<in> set ts})"
    by (auto simp: p)
  then show ?case using rest by (simp add: p one(2) keys)
qed

lemma empty_effective:
  "dom (map_of (foldl (\<lambda>m f. gput f [] m) m0 ids)) = dom (map_of m0) \<union> set ids"
  "(\<And>f. gget_default [] m0 f = []) \<Longrightarrow> gget_default [] (foldl (\<lambda>m f. gput f [] m) m0 ids) f = []"
  by (induction ids arbitrary: m0) (simp_all add: dom_gput gget_default_gput)

text \<open>The owner has an unexpired row with the tag.\<close>

definition has_tag :: "time \<Rightarrow> TagRow list \<Rightarrow> string \<Rightarrow> string \<Rightarrow> bool" where
  "has_tag now rows owner tag \<longleftrightarrow> list_ex (\<lambda>r. tg_Owner r = owner \<and> tg_Tag r = tag \<and> tag_live now r) rows"

text \<open>
  C3: the effective tags of a batch of Flows are exact. Every Flow asked for has an entry, and
  no other; a tag is in the entry with scope flow exactly when the Flow has a live row for it,
  with scope client exactly when an address the Flow was asked for with has one, and never
  twice.
\<close>

theorem effective_tags_exact:
  assumes "QueryEffectiveTags db now flows s = Inr m"
  shows "(gget m f \<noteq> None \<longleftrightarrow> f \<noteq> [] \<and> f \<in> fst ` set flows) \<and>
    (\<forall>tags. gget m f = Some tags \<longrightarrow> distinct (map tag_id tags) \<and>
      (\<forall>tag. ((tag, ''flow'') \<in> tag_id ` set tags \<longleftrightarrow> has_tag now (au_flowTags s) f tag) \<and>
             ((tag, ''client'') \<in> tag_id ` set tags \<longleftrightarrow>
                (\<exists>ip. (f, ip) \<in> set flows \<and> ip \<noteq> [] \<and> has_tag now (au_clientTags s) ip tag))))"
proof -
  define ids where "ids = filter (\<lambda>f. f \<noteq> []) (map fst flows)"
  define ips where "ips = filter (\<lambda>c. c \<noteq> []) (map snd flows)"
  define m0 :: "(string, EffectiveTag list) gomap" where "m0 = foldl (\<lambda>m f. gput f [] m) [] ids"
  define a where "a = map (\<lambda>t. (tg_Owner t, effective_of_row ''flow'' t)) (rows_of now (set ids) (au_flowTags s))"
  define b where "b = concat (map (\<lambda>t. map (\<lambda>f. (f, effective_of_row ''client'' t)) (flowsByIP flows (tg_Owner t)))
                                (rows_of now (set ips) (au_clientTags s)))"
  define st where "st = foldl appendTag (m0, []) (a @ b)"
  have m: "m = fst st"
    using assms unfolding QueryEffectiveTags_def Let_def ids_def [symmetric] ips_def [symmetric] m0_def [symmetric]
      a_def [symmetric] b_def [symmetric] st_def [symmetric] by (auto split: if_splits)
  have keys0: "dom (map_of m0) = set ids" by (simp add: m0_def empty_effective)
  have none0: "gget_default [] m0 f = []" for f
    unfolding m0_def by (rule empty_effective(2)) (simp add: gget_default_def)
  have "eff_ok (m0, [])" by (simp add: eff_ok_def none0)
  moreover have "fst ` set (a @ b) \<subseteq> dom (map_of (fst (m0, [] :: (string \<times> string \<times> string) list)))"
    by (auto simp: keys0 a_def b_def rows_of_def flowsByIP_def ids_def intro: rev_image_eqI)
  ultimately have all: "eff_ok st" "dom (map_of m) = set ids"
      "tag_id ` set (gget_default [] m f) = tag_id ` {t. (f, t) \<in> set (a @ b)}"
    using append_tags [of "(m0, [])" "a @ b" f] keys0 none0 unfolding m st_def by simp_all
  have "gget m f \<noteq> None \<longleftrightarrow> f \<in> dom (map_of m)" by blast
  then have entry: "gget m f \<noteq> None \<longleftrightarrow> f \<in> set ids" by (simp add: all(2))
  have "distinct (map tag_id tags) \<and>
      (\<forall>tag. ((tag, ''flow'') \<in> tag_id ` set tags \<longleftrightarrow> has_tag now (au_flowTags s) f tag) \<and>
             ((tag, ''client'') \<in> tag_id ` set tags \<longleftrightarrow>
                (\<exists>ip. (f, ip) \<in> set flows \<and> ip \<noteq> [] \<and> has_tag now (au_clientTags s) ip tag)))"
    if g: "gget m f = Some tags" for tags
  proof (intro conjI allI)
    have d: "gget_default [] m f = tags" by (simp add: gget_default_def g)
    have f: "f \<in> set ids" using entry g by simp
    note t = all(3) [unfolded d]
    show "distinct (map tag_id tags)" using all(1) d unfolding eff_ok_def m by blast
    show "(tag, ''flow'') \<in> tag_id ` set tags \<longleftrightarrow> has_tag now (au_flowTags s) f tag" for tag
      unfolding t using f
      by (auto simp: a_def b_def rows_of_def tag_id_def effective_of_row_def image_iff has_tag_def list_ex_iff)
    show "(tag, ''client'') \<in> tag_id ` set tags \<longleftrightarrow>
         (\<exists>ip. (f, ip) \<in> set flows \<and> ip \<noteq> [] \<and> has_tag now (au_clientTags s) ip tag)" for tag
      unfolding t using f
      by (force simp: a_def b_def rows_of_def tag_id_def effective_of_row_def image_iff flowsByIP_def ips_def ids_def
          has_tag_def list_ex_iff)
  qed
  with entry show ?thesis by (auto simp: ids_def)
qed

definition sample_tags :: AuditStore where
  "sample_tags = empty_audit\<lparr>au_clientTags :=
     [\<lparr>tg_Owner = ''10.0.0.1'', tg_Tag = ''a:b=c'', tg_Source = ''x'', tg_ExpiresAt = None, tg_CreatedAt = 1, tg_UpdatedAt = 1\<rparr>]\<rparr>"

theorem effective_tags_exact_witness:
  "\<exists>m tags. QueryEffectiveTags True 9 [(''f1'', ''10.0.0.1'')] sample_tags = Inr m \<and> gget m ''f1'' = Some tags \<and>
     (''a:b=c'', ''client'') \<in> tag_id ` set tags \<and> (''a:b=c'', ''flow'') \<notin> tag_id ` set tags"
proof -
  obtain m where m: "QueryEffectiveTags True 9 [(''f1'', ''10.0.0.1'')] sample_tags = Inr m"
    by (simp add: QueryEffectiveTags_def Let_def)
  note exact = effective_tags_exact [OF m, of "''f1''"]
  then obtain tags where "gget m ''f1'' = Some tags" by auto
  with exact m show ?thesis
    by (auto simp: sample_tags_def empty_audit_def has_tag_def tag_live_def)
qed

end
