(* ===== verification/FlowService.thy ===== *)
theory FlowService
  imports FlowContext AuditStore
begin

text \<open>
  The Flow Context service (\<open>internal/flowcontext\<close>: \<open>service.go\<close>, \<open>auth.go\<close>, \<open>tags.go\<close>,
  \<open>control.go\<close>), through which a trusted backend resolves, tags, limits and blocks the Flows
  forwarded to it. A request is its method, its \<open>Authorization\<close> header, its declared length and
  what the JSON decoder makes of its body; the parameters of a call are its text, and the
  decoders of \<open>encoding/json\<close> for the request types are the argument \<open>js\<close>. The service holds
  the registry, the audit store, the flow controller (an interface), the limiter, and the
  state \<open>sv_world\<close> that the controls of the data plane act on. An operation that waits
  (\<open>ResolveFlow\<close>) takes the events of the registry's loop. The audit log of requests is left
  out, and so is the request context it reads.
\<close>

section \<open>Data\<close>

record Identity =
  id_ID :: string
  id_Token :: string
  id_Routes :: "string list"
  id_Upstreams :: "string list"
  id_Namespaces :: "string list"

record HTTPOptions =
  ho_Identities :: "Identity list"
  ho_MaxTTL :: duration
  ho_ResolveTimeout :: duration
  ho_MaxBodyBytes :: int
  ho_MaxKeyLength :: int
  ho_MaxValueLength :: int
  ho_RateLimitBurst :: int
  ho_RateLimitWindow :: duration

definition maxFlowContextBodyBytes :: int where "maxFlowContextBodyBytes = 65536"

definition ho_normalized :: "HTTPOptions \<Rightarrow> HTTPOptions" where
  "ho_normalized o' =
     o'\<lparr>ho_MaxTTL := (if ho_MaxTTL o' \<le> 0 then 24 * hour else ho_MaxTTL o'),
        ho_ResolveTimeout := (if ho_ResolveTimeout o' \<le> 0 then 5 * second else ho_ResolveTimeout o'),
        ho_MaxBodyBytes := (if ho_MaxBodyBytes o' \<le> 0 \<or> ho_MaxBodyBytes o' > maxFlowContextBodyBytes
                            then maxFlowContextBodyBytes else ho_MaxBodyBytes o'),
        ho_MaxKeyLength := (if ho_MaxKeyLength o' \<le> 0 then 64 else ho_MaxKeyLength o'),
        ho_MaxValueLength := (if ho_MaxValueLength o' \<le> 0 then 256 else ho_MaxValueLength o'),
        ho_RateLimitBurst := (if ho_RateLimitBurst o' \<le> 0 then 60 else ho_RateLimitBurst o'),
        ho_RateLimitWindow := (if ho_RateLimitWindow o' \<le> 0 then minute else ho_RateLimitWindow o')\<rparr>"

record identityRateEntry =
  ie_started :: time
  ie_count :: int

record identityRateLimiter =
  il_entries :: "(string, identityRateEntry) gomap"
  il_burst :: int
  il_window :: duration

text \<open>The interface \<open>FlowController\<close>; each call reports whether the Flow had the control.\<close>

record 'w FlowController =
  fc_Block :: "string \<Rightarrow> 'w \<Rightarrow> bool \<times> 'w"
  fc_SetLimit :: "string \<Rightarrow> uint64 \<Rightarrow> 'w \<Rightarrow> bool \<times> 'w"
  fc_ClearLimit :: "string \<Rightarrow> 'w \<Rightarrow> bool \<times> 'w"

text \<open>The controller the runtime injects is the live Flow registry.\<close>

definition registry_controller :: "'w FlowRegistry option \<Rightarrow> 'w FlowController" where
  "registry_controller r =
     \<lparr>fc_Block = Registry_Block r, fc_SetLimit = Registry_SetLimit r, fc_ClearLimit = Registry_ClearLimit r\<rparr>"

record 'w Service =
  sv_registry :: "CtxRegistry option"
  sv_store :: "AuditStore option"
  sv_controller :: "'w FlowController option"
  sv_options :: HTTPOptions
  sv_identities :: "Identity list"
  sv_limiter :: identityRateLimiter
  sv_world :: 'w

datatype flow_error =
    ErrUnauthorized | ErrForbidden | ErrInvalidTag | ErrInvalidParams | ErrRateLimited | ErrTagStore | ErrUnknownMethod
  | ErrFlowController | ErrFlowNotActive | ErrInvalidRate
  | CtxError ctx_error
  | StoreError audit_error
  | BodyTooLarge | InvalidJSON

record TagRequest =
  tq_FlowID :: string
  tq_Namespace :: string
  tq_Key :: string
  tq_Value :: string
  tq_TTLSeconds :: int

record FlowLimitRequest =
  lq_FlowID :: string
  lq_RateBPS :: uint64

record FlowActionRequest =
  aq_FlowID :: string
  aq_Reason :: string

text \<open>\<open>ListFlowTagsRequest\<close> and \<open>FlowIDRequest\<close> are the Flow identifier alone.\<close>

record json_decoders =
  js_resolve :: "string \<Rightarrow> CtxResolveRequest option"
  js_tag :: "string \<Rightarrow> TagRequest option"
  js_flow :: "string \<Rightarrow> string option"
  js_limit :: "string \<Rightarrow> FlowLimitRequest option"
  js_action :: "string \<Rightarrow> FlowActionRequest option"

record flowResponse =
  fp_FlowID :: string
  fp_Protocol :: string
  fp_ClientAddr :: string
  fp_Listener :: string
  fp_Route :: string
  fp_Upstream :: string
  fp_BackendKey :: string
  fp_CreatedAt :: int
  fp_EndedAt :: int
  fp_ResolveUntil :: int
  fp_State :: ctx_state

datatype rpc_result =
    Pong
  | FlowResult flowResponse
  | TagResult OwnedTag
  | Removed
  | TagsResult "OwnedTag list"
  | LimitResult string uint64
  | ClearedResult string
  | BlockedResult string

datatype http_response = HttpOK rpc_result | HttpError int string

text \<open>What the decoder reports for the first value of the body, and whether nothing follows it.\<close>

datatype 'a decoded = ReadLimit | SyntaxError | Decoded 'a

record 'a http_request =
  hr_Method :: string
  hr_Authorization :: string
  hr_ContentLength :: int
  hr_First :: "'a decoded"
  hr_AtEnd :: bool

section \<open>Construction\<close>

definition newIdentityRateLimiter :: "int \<Rightarrow> duration \<Rightarrow> identityRateLimiter" where
  "newIdentityRateLimiter burst window = \<lparr>il_entries = [], il_burst = burst, il_window = window\<rparr>"

definition NewService :: "CtxRegistry option \<Rightarrow> AuditStore option \<Rightarrow> HTTPOptions \<Rightarrow> 'w \<Rightarrow> 'w Service" where
  "NewService registry store options0 w =
     (let options = ho_normalized options0
      in \<lparr>sv_registry = registry, sv_store = store, sv_controller = None, sv_options = options,
          sv_identities = ho_Identities options,
          sv_limiter = newIdentityRateLimiter (ho_RateLimitBurst options) (ho_RateLimitWindow options), sv_world = w\<rparr>)"

definition SetFlowController :: "'w FlowController option \<Rightarrow> 'w Service \<Rightarrow> 'w Service" where
  "SetFlowController controller s = s\<lparr>sv_controller := controller\<rparr>"

section \<open>Authentication and rate limiting\<close>

definition bearerToken :: "string \<Rightarrow> string option" where
  "bearerToken authorization =
     (if take 7 authorization \<noteq> ''Bearer '' then None
      else let token = TrimSpace (drop 7 authorization) in if token = [] then None else Some token)"

definition authenticate :: "string \<Rightarrow> 'w Service \<Rightarrow> Identity option" where
  "authenticate authorization s =
     (case bearerToken authorization of
        None \<Rightarrow> None
      | Some token \<Rightarrow>
          List.find (\<lambda>i. id_Token i \<noteq> [] \<and> length token = length (id_Token i) \<and> token = id_Token i) (sv_identities s))"

definition identity_Allow :: "time \<Rightarrow> string \<Rightarrow> identityRateLimiter \<Rightarrow> bool \<times> identityRateLimiter" where
  "identity_Allow now key l =
     (let entry = gget_default \<lparr>ie_started = 0, ie_count = 0\<rparr> (il_entries l) key
      in if is_zero_time (ie_started entry) \<or> time_sub now (ie_started entry) \<ge> il_window l
         then (True, l\<lparr>il_entries := gput key \<lparr>ie_started = now, ie_count = 1\<rparr> (il_entries l)\<rparr>)
         else if ie_count entry \<ge> il_burst l then (False, l)
         else (True, l\<lparr>il_entries := gput key (entry\<lparr>ie_count := ie_count entry + 1\<rparr>) (il_entries l)\<rparr>))"

section \<open>Authorization\<close>

definition contains :: "string list \<Rightarrow> string \<Rightarrow> bool" where
  "contains vs wanted = list_ex (\<lambda>v. v = wanted) vs"

definition allowsContext :: "Identity \<Rightarrow> FlowCtx \<Rightarrow> bool" where
  "allowsContext i v = (contains (id_Routes i) (cx_Route v) \<and> contains (id_Upstreams i) (cx_Upstream v))"

definition allowsNamespace :: "Identity \<Rightarrow> string \<Rightarrow> bool" where
  "allowsNamespace i namespace = contains (id_Namespaces i) namespace"

definition authorizeBackend :: "FlowCtx \<Rightarrow> Identity \<Rightarrow> flow_error option" where
  "authorizeBackend v i = (if TrimSpace (id_ID i) = [] \<or> \<not> allowsContext i v then Some ErrForbidden else None)"

definition service_lookup :: "time \<Rightarrow> string \<Rightarrow> 'w Service \<Rightarrow> FlowCtx option \<times> 'w Service" where
  "service_lookup now fid s =
     (case sv_registry s of
        None \<Rightarrow> (None, s)
      | Some r \<Rightarrow> (case Ctx_Lookup now fid r of (v, r') \<Rightarrow> (v, s\<lparr>sv_registry := Some r'\<rparr>)))"

definition authorizedFlow :: "time \<Rightarrow> string \<Rightarrow> Identity \<Rightarrow> 'w Service \<Rightarrow> (flow_error + FlowCtx) \<times> 'w Service" where
  "authorizedFlow now flowID i s =
     (if TrimSpace flowID = [] then (Inl (CtxError ErrFlowNotFound), s)
      else case service_lookup now (TrimSpace flowID) s of
             (None, s') \<Rightarrow> (Inl (CtxError ErrFlowNotFound), s')
           | (Some v, s') \<Rightarrow> (case authorizeBackend v i of Some e \<Rightarrow> (Inl e, s') | None \<Rightarrow> (Inr v, s')))"

section \<open>Resolution\<close>

definition ResolveFlow ::
    "time \<Rightarrow> resolve_event list \<Rightarrow> CtxResolveRequest \<Rightarrow> Identity \<Rightarrow> 'w Service \<Rightarrow> (flow_error + FlowCtx) option \<times> 'w Service" where
  "ResolveFlow now es q i s =
     (case sv_registry s of
        None \<Rightarrow> (Some (Inl ErrTagStore), s)
      | Some r \<Rightarrow>
          (case ParseTuple q of
             None \<Rightarrow> (Some (Inl (CtxError ErrInvalidTuple)), s)
           | Some (tuple, wait) \<Rightarrow>
               if wait > ho_ResolveTimeout (sv_options s) then (Some (Inl (CtxError ErrInvalidTuple)), s)
               else (case Resolve now tuple wait es r of
                       (None, r') \<Rightarrow> (None, s\<lparr>sv_registry := Some r'\<rparr>)
                     | (Some None, r') \<Rightarrow>
                         (Some (Inl (CtxError (if fr_closed r' then ErrClosed else ErrFlowNotFound))), s\<lparr>sv_registry := Some r'\<rparr>)
                     | (Some (Some v), r') \<Rightarrow>
                         (case authorizeBackend v i of
                            Some e \<Rightarrow> (Some (Inl e), s\<lparr>sv_registry := Some r'\<rparr>)
                          | None \<Rightarrow> (Some (Inr v), s\<lparr>sv_registry := Some r'\<rparr>)))))"

section \<open>Tags\<close>

definition alnum :: "char \<Rightarrow> bool" where
  "alnum c \<longleftrightarrow> char_in CHR ''A'' CHR ''Z'' c \<or> char_in CHR ''a'' CHR ''z'' c \<or> is_digit c"

text \<open>\<open>tagPartPattern\<close>: a letter or digit, then letters, digits, underscores, dots and hyphens.\<close>

definition tagPart :: "string \<Rightarrow> bool" where
  "tagPart s = (case s of [] \<Rightarrow> False | c # cs \<Rightarrow> alnum c \<and> list_all (\<lambda>x. alnum x \<or> x \<in> set ''_.-'') cs)"

definition tag_prefix :: "string \<Rightarrow> string \<Rightarrow> string" where
  "tag_prefix namespace key = namespace @ '':'' @ key @ ''=''"

definition formatTag :: "string \<Rightarrow> string \<Rightarrow> string \<Rightarrow> string" where
  "formatTag namespace key v = namespace @ '':'' @ key @ ''='' @ v"

definition has_newline :: "string \<Rightarrow> bool" where
  "has_newline s = list_ex (\<lambda>c. c = CHR 0x0D \<or> c = CHR 0x0A) s"

definition validateTag ::
    "time \<Rightarrow> HTTPOptions \<Rightarrow> TagRequest \<Rightarrow> Identity \<Rightarrow> bool \<Rightarrow>
     (string \<times> string \<times> string \<times> time option \<times> string) option" where
  "validateTag now options q i setting =
     (let namespace = TrimSpace (tq_Namespace q); key = TrimSpace (tq_Key q); v = TrimSpace (tq_Value q)
      in if \<not> tagPart namespace \<or> \<not> tagPart key \<or> length namespace > 32 then None
         else if \<not> allowsNamespace i namespace \<or> int (length key) > ho_MaxKeyLength options then None
         else if \<not> setting then Some (namespace, key, [], None, tag_prefix namespace key)
         else if v = [] \<or> int (length v) > ho_MaxValueLength options \<or> has_newline v then None
         else if tq_TTLSeconds q < 0 \<or> tq_TTLSeconds q > trunc_div (ho_MaxTTL options) second then None
         else Some (namespace, key, v,
                (if tq_TTLSeconds q > 0 then Some (time_add now (tq_TTLSeconds q * second)) else None), tag_prefix namespace key))"

definition clientIP :: "FlowCtx \<Rightarrow> string" where
  "clientIP v = (case ParseAddrPort (cx_ClientAddr v) of
     Some a \<Rightarrow> addr_text (ap_addr a) | None \<Rightarrow> TrimSpace (cx_ClientAddr v))"

definition state_text :: "ctx_state \<Rightarrow> string" where
  "state_text st = (case st of StateActive \<Rightarrow> ''active'' | StateClosed \<Rightarrow> ''closed'')"

definition flowEntityFromContext :: "FlowCtx \<Rightarrow> FlowEntity" where
  "flowEntityFromContext v =
     \<lparr>fe_FlowID = cx_FlowID v, fe_Protocol = cx_Protocol v, fe_ClientIP = clientIP v,
      fe_ClientPort = (case ParseAddrPort (cx_ClientAddr v) of Some a \<Rightarrow> int (ap_port a) | None \<Rightarrow> 0),
      fe_Listener = cx_Listener v, fe_Route = cx_Route v, fe_Upstream = cx_Upstream v, fe_BackendKey = cx_BackendKey v,
      fe_BackendProtocol = bt_Protocol (cx_BackendTuple v), fe_BackendLocal = addr_port_text (bt_LocalAddr (cx_BackendTuple v)),
      fe_BackendRemote = addr_port_text (bt_RemoteAddr (cx_BackendTuple v)), fe_CreatedAt = cx_CreatedAt v,
      fe_EndedAt = (if is_zero_time (cx_EndedAt v) then None else Some (cx_EndedAt v)),
      fe_ResolveUntil = (if is_zero_time (cx_ResolveUntil v) then None else Some (cx_ResolveUntil v)),
      fe_State = state_text (cx_State v), fe_Generation = cx_Generation v, fe_LastActivity = cx_LastActivity v,
      fe_BytesUp = cx_BytesUp v, fe_BytesDown = cx_BytesDown v\<rparr>"

definition tagEvent ::
    "time \<Rightarrow> FlowCtx \<Rightarrow> string \<Rightarrow> string \<Rightarrow> Identity \<Rightarrow> time option \<Rightarrow> string \<Rightarrow> string \<Rightarrow> string \<Rightarrow> FlowTagEvent" where
  "tagEvent now v tag operation i expiresAt namespace key tagValue =
     \<lparr>te_EventID = [], te_FlowID = cx_FlowID v, te_Tag = tag, te_Operation = operation, te_Source = ''flow-context'',
      te_Actor = id_ID i, te_ExpiresAt = expiresAt, te_CreatedAt = now,
      te_Metadata = [(''key'', key), (''namespace'', namespace), (''value'', tagValue)]\<rparr>"

text \<open>A call of the store: the error it reports, and the store it leaves.\<close>

definition stored :: "audit_error option \<times> AuditStore \<Rightarrow> 'a \<Rightarrow> 'w Service \<Rightarrow> (flow_error + 'a) \<times> 'w Service" where
  "stored r v s =
     (case r of (Some e, st) \<Rightarrow> (Inl (StoreError e), s\<lparr>sv_store := Some st\<rparr>) | (None, st) \<Rightarrow> (Inr v, s\<lparr>sv_store := Some st\<rparr>))"

definition SetFlowTag ::
    "bool \<Rightarrow> string \<Rightarrow> time \<Rightarrow> TagRequest \<Rightarrow> Identity \<Rightarrow> 'w Service \<Rightarrow> (flow_error + OwnedTag) \<times> 'w Service" where
  "SetFlowTag db uuid now q i s =
     (case authorizedFlow now (tq_FlowID q) i s of
        (Inl e, s1) \<Rightarrow> (Inl e, s1)
      | (Inr v, s1) \<Rightarrow>
          (case validateTag now (sv_options s1) q i True of
             None \<Rightarrow> (Inl ErrInvalidTag, s1)
           | Some (namespace, key, tv, expiresAt, prefix) \<Rightarrow>
               let tag = \<lparr>ot_Owner = cx_FlowID v, ot_Tag = formatTag namespace key tv, ot_Source = ''flow-context'',
                          ot_ExpiresAt = expiresAt, ot_CreatedAt = now, ot_UpdatedAt = now\<rparr>;
                   ev = tagEvent now v (ot_Tag tag) ''set'' i expiresAt namespace key tv
               in (case sv_store s1 of
                     None \<Rightarrow> (Inl ErrTagStore, s1)
                   | Some st \<Rightarrow>
                       stored (ApplyFlowTag db uuid now (flowEntityFromContext v) ev (Some tag) prefix st) tag s1)))"

definition UnsetFlowTag ::
    "bool \<Rightarrow> string \<Rightarrow> time \<Rightarrow> TagRequest \<Rightarrow> Identity \<Rightarrow> 'w Service \<Rightarrow> (flow_error + unit) \<times> 'w Service" where
  "UnsetFlowTag db uuid now q i s =
     (case authorizedFlow now (tq_FlowID q) i s of
        (Inl e, s1) \<Rightarrow> (Inl e, s1)
      | (Inr v, s1) \<Rightarrow>
          (case validateTag now (sv_options s1) q i False of
             None \<Rightarrow> (Inl ErrInvalidTag, s1)
           | Some (namespace, key, _, _, prefix) \<Rightarrow>
               (case sv_store s1 of
                  None \<Rightarrow> (Inl ErrTagStore, s1)
                | Some st \<Rightarrow>
                    stored (RemoveFlowTag db uuid now (flowEntityFromContext v)
                      (tagEvent now v (formatTag namespace key []) ''unset'' i None namespace key []) prefix st) () s1)))"

definition SetClientTag ::
    "bool \<Rightarrow> string \<Rightarrow> time \<Rightarrow> TagRequest \<Rightarrow> Identity \<Rightarrow> 'w Service \<Rightarrow> (flow_error + OwnedTag) \<times> 'w Service" where
  "SetClientTag db uuid now q i s =
     (case authorizedFlow now (tq_FlowID q) i s of
        (Inl e, s1) \<Rightarrow> (Inl e, s1)
      | (Inr v, s1) \<Rightarrow>
          (case validateTag now (sv_options s1) q i True of
             None \<Rightarrow> (Inl ErrInvalidTag, s1)
           | Some (namespace, key, tv, expiresAt, prefix) \<Rightarrow>
               let tag = \<lparr>ot_Owner = clientIP v, ot_Tag = formatTag namespace key tv, ot_Source = ''flow-context'',
                          ot_ExpiresAt = expiresAt, ot_CreatedAt = now, ot_UpdatedAt = now\<rparr>;
                   ev = tagEvent now v (ot_Tag tag) ''set_client'' i expiresAt namespace key tv
               in (case sv_store s1 of
                     None \<Rightarrow> (Inl ErrTagStore, s1)
                   | Some st \<Rightarrow>
                       stored (ApplyClientTag db uuid now (flowEntityFromContext v) ev (Some tag) prefix st) tag s1)))"

definition UnsetClientTag ::
    "bool \<Rightarrow> string \<Rightarrow> time \<Rightarrow> TagRequest \<Rightarrow> Identity \<Rightarrow> 'w Service \<Rightarrow> (flow_error + unit) \<times> 'w Service" where
  "UnsetClientTag db uuid now q i s =
     (case authorizedFlow now (tq_FlowID q) i s of
        (Inl e, s1) \<Rightarrow> (Inl e, s1)
      | (Inr v, s1) \<Rightarrow>
          (case validateTag now (sv_options s1) q i False of
             None \<Rightarrow> (Inl ErrInvalidTag, s1)
           | Some (namespace, key, _, _, prefix) \<Rightarrow>
               (case sv_store s1 of
                  None \<Rightarrow> (Inl ErrTagStore, s1)
                | Some st \<Rightarrow>
                    stored (RemoveClientTag db uuid now (flowEntityFromContext v)
                      (tagEvent now v (formatTag namespace key []) ''unset_client'' i None namespace key [])
                      (clientIP v) prefix st) () s1)))"

definition ListFlowTags ::
    "bool \<Rightarrow> time \<Rightarrow> string \<Rightarrow> Identity \<Rightarrow> 'w Service \<Rightarrow> (flow_error + OwnedTag list) \<times> 'w Service" where
  "ListFlowTags db now flowID i s =
     (case authorizedFlow now flowID i s of
        (Inl e, s1) \<Rightarrow> (Inl e, s1)
      | (Inr v, s1) \<Rightarrow>
          (case sv_store s1 of
             None \<Rightarrow> (Inl ErrTagStore, s1)
           | Some st \<Rightarrow> (case QueryFlowTags db now (cx_FlowID v) st of Inl e \<Rightarrow> (Inl (StoreError e), s1) | Inr ts \<Rightarrow> (Inr ts, s1))))"

section \<open>Controls\<close>

definition authorizedActiveFlow :: "time \<Rightarrow> string \<Rightarrow> Identity \<Rightarrow> 'w Service \<Rightarrow> (flow_error + FlowCtx) \<times> 'w Service" where
  "authorizedActiveFlow now flowID i s =
     (case authorizedFlow now flowID i s of
        (Inl e, s1) \<Rightarrow> (Inl e, s1)
      | (Inr v, s1) \<Rightarrow> if cx_State v \<noteq> StateActive then (Inl ErrFlowNotActive, s1) else (Inr v, s1))"

definition controlTarget ::
    "time \<Rightarrow> string \<Rightarrow> Identity \<Rightarrow> 'w Service \<Rightarrow> (flow_error + FlowCtx \<times> 'w FlowController) \<times> 'w Service" where
  "controlTarget now flowID i s =
     (case authorizedActiveFlow now flowID i s of
        (Inl e, s1) \<Rightarrow> (Inl e, s1)
      | (Inr v, s1) \<Rightarrow>
          (case sv_controller s1 of
             None \<Rightarrow> (Inl ErrFlowController, s1)
           | Some c \<Rightarrow> if sv_store s1 = None then (Inl ErrTagStore, s1) else (Inr (v, c), s1)))"

text \<open>One call of the controller.\<close>

definition control_call :: "('w \<Rightarrow> bool \<times> 'w) \<Rightarrow> rpc_result \<Rightarrow> 'w Service \<Rightarrow> (flow_error + rpc_result) \<times> 'w Service" where
  "control_call f result s =
     (case f (sv_world s) of (done, w) \<Rightarrow> (if done then Inr result else Inl ErrFlowNotActive, s\<lparr>sv_world := w\<rparr>))"

definition SetFlowLimit ::
    "time \<Rightarrow> FlowLimitRequest \<Rightarrow> Identity \<Rightarrow> 'w Service \<Rightarrow> (flow_error + rpc_result) \<times> 'w Service" where
  "SetFlowLimit now q i s =
     (if lq_RateBPS q = 0 then (Inl ErrInvalidRate, s)
      else case controlTarget now (lq_FlowID q) i s of
             (Inl e, s1) \<Rightarrow> (Inl e, s1)
           | (Inr (v, c), s1) \<Rightarrow>
               control_call (fc_SetLimit c (cx_FlowID v) (lq_RateBPS q)) (LimitResult (cx_FlowID v) (lq_RateBPS q)) s1)"

definition ClearFlowLimit :: "time \<Rightarrow> string \<Rightarrow> Identity \<Rightarrow> 'w Service \<Rightarrow> (flow_error + rpc_result) \<times> 'w Service" where
  "ClearFlowLimit now flowID i s =
     (case controlTarget now flowID i s of
        (Inl e, s1) \<Rightarrow> (Inl e, s1)
      | (Inr (v, c), s1) \<Rightarrow> control_call (fc_ClearLimit c (cx_FlowID v)) (ClearedResult (cx_FlowID v)) s1)"

definition BlockFlow ::
    "time \<Rightarrow> FlowActionRequest \<Rightarrow> Identity \<Rightarrow> 'w Service \<Rightarrow> (flow_error + rpc_result) \<times> 'w Service" where
  "BlockFlow now q i s =
     (if length (TrimSpace (aq_Reason q)) > 256 \<or> has_newline (TrimSpace (aq_Reason q)) then (Inl ErrInvalidParams, s)
      else case controlTarget now (aq_FlowID q) i s of
             (Inl e, s1) \<Rightarrow> (Inl e, s1)
           | (Inr (v, c), s1) \<Rightarrow> control_call (fc_Block c (cx_FlowID v)) (BlockedResult (cx_FlowID v)) s1)"

section \<open>Requests\<close>

definition decodeParams :: "(string \<Rightarrow> 'a option) \<Rightarrow> string \<Rightarrow> 'a option" where
  "decodeParams unmarshal raw = (if raw = [] \<or> raw = ''null'' then None else unmarshal raw)"

definition decodeBody :: "int \<Rightarrow> 'a http_request \<Rightarrow> flow_error + 'a" where
  "decodeBody limit r =
     (if hr_ContentLength r > limit then Inl BodyTooLarge
      else case hr_First r of
             ReadLimit \<Rightarrow> Inl BodyTooLarge
           | SyntaxError \<Rightarrow> Inl InvalidJSON
           | Decoded v \<Rightarrow> if hr_AtEnd r then Inr v else Inl InvalidJSON)"

definition ctx_milli :: "time \<Rightarrow> int" where
  "ctx_milli t = (if is_zero_time t then 0 else (t - unix_epoch) div millisecond)"

definition newFlowResponse :: "FlowCtx \<Rightarrow> flowResponse" where
  "newFlowResponse v =
     \<lparr>fp_FlowID = cx_FlowID v, fp_Protocol = cx_Protocol v, fp_ClientAddr = cx_ClientAddr v, fp_Listener = cx_Listener v,
      fp_Route = cx_Route v, fp_Upstream = cx_Upstream v, fp_BackendKey = cx_BackendKey v, fp_CreatedAt = ctx_milli (cx_CreatedAt v),
      fp_EndedAt = ctx_milli (cx_EndedAt v), fp_ResolveUntil = ctx_milli (cx_ResolveUntil v), fp_State = cx_State v\<rparr>"

definition map_result :: "('a \<Rightarrow> 'b) \<Rightarrow> (flow_error + 'a) \<times> 's \<Rightarrow> (flow_error + 'b) option \<times> 's" where
  "map_result f p = (Some (map_sum id f (fst p)), snd p)"

text \<open>The environment of one call: whether the database works, a fresh identifier, the clock, the events of a wait.\<close>

record call_env =
  ce_db :: bool
  ce_uuid :: string
  ce_now :: time
  ce_events :: "resolve_event list"

definition dispatch ::
    "json_decoders \<Rightarrow> call_env \<Rightarrow> string \<Rightarrow> string \<Rightarrow> Identity \<Rightarrow> 'w Service \<Rightarrow> (flow_error + rpc_result) option \<times> 'w Service" where
  "dispatch js env method raw i s =
     (let db = ce_db env; uuid = ce_uuid env; now = ce_now env; bad = (Some (Inl ErrInvalidParams), s)
      in if method = ''Ping'' then
           (if TrimSpace raw \<notin> set [[], ''null'', ''{}''] then bad else (Some (Inr Pong), s))
         else if method = ''ResolveFlow'' then
           (case decodeParams (js_resolve js) raw of
              None \<Rightarrow> bad
            | Some q \<Rightarrow>
                (case ResolveFlow now (ce_events env) q i s of
                   (None, s') \<Rightarrow> (None, s')
                 | (Some r, s') \<Rightarrow> (Some (map_sum id (FlowResult \<circ> newFlowResponse) r), s')))
         else if method = ''SetFlowTag'' then
           (case decodeParams (js_tag js) raw of None \<Rightarrow> bad | Some q \<Rightarrow> map_result TagResult (SetFlowTag db uuid now q i s))
         else if method = ''UnsetFlowTag'' then
           (case decodeParams (js_tag js) raw of None \<Rightarrow> bad | Some q \<Rightarrow> map_result (\<lambda>_. Removed) (UnsetFlowTag db uuid now q i s))
         else if method = ''SetClientTag'' then
           (case decodeParams (js_tag js) raw of None \<Rightarrow> bad | Some q \<Rightarrow> map_result TagResult (SetClientTag db uuid now q i s))
         else if method = ''UnsetClientTag'' then
           (case decodeParams (js_tag js) raw of None \<Rightarrow> bad | Some q \<Rightarrow> map_result (\<lambda>_. Removed) (UnsetClientTag db uuid now q i s))
         else if method = ''ListFlowTags'' then
           (case decodeParams (js_flow js) raw of None \<Rightarrow> bad | Some q \<Rightarrow> map_result TagsResult (ListFlowTags db now q i s))
         else if method = ''SetFlowLimit'' then
           (case decodeParams (js_limit js) raw of None \<Rightarrow> bad | Some q \<Rightarrow> map_result id (SetFlowLimit now q i s))
         else if method = ''ClearFlowLimit'' then
           (case decodeParams (js_flow js) raw of None \<Rightarrow> bad | Some q \<Rightarrow> map_result id (ClearFlowLimit now q i s))
         else if method = ''BlockFlow'' then
           (case decodeParams (js_action js) raw of None \<Rightarrow> bad | Some q \<Rightarrow> map_result id (BlockFlow now q i s))
         else (Some (Inl ErrUnknownMethod), s))"

definition flowErrorStatus :: "flow_error \<Rightarrow> int" where
  "flowErrorStatus e =
     (case e of
        ErrUnauthorized \<Rightarrow> 401 | ErrForbidden \<Rightarrow> 403 | ErrInvalidTag \<Rightarrow> 400 | ErrInvalidParams \<Rightarrow> 400 | ErrUnknownMethod \<Rightarrow> 400
      | ErrRateLimited \<Rightarrow> 429 | ErrFlowNotActive \<Rightarrow> 409 | ErrInvalidRate \<Rightarrow> 400 | ErrFlowController \<Rightarrow> 503 | ErrTagStore \<Rightarrow> 503
      | CtxError c \<Rightarrow> (case c of ErrInvalidTuple \<Rightarrow> 400 | ErrFlowNotFound \<Rightarrow> 404 | ErrClosed \<Rightarrow> 503 | ErrCapacityExceeded \<Rightarrow> 500)
      | BodyTooLarge \<Rightarrow> 413 | InvalidJSON \<Rightarrow> 400 | StoreError _ \<Rightarrow> 500)"

text \<open>The texts of the errors; those of the store and the registry are the argument.\<close>

definition error_text :: "(flow_error \<Rightarrow> string) \<Rightarrow> flow_error \<Rightarrow> string" where
  "error_text other e =
     (case e of
        ErrUnauthorized \<Rightarrow> ''flow context authentication failed''
      | ErrForbidden \<Rightarrow> ''backend is not authorized for this flow''
      | ErrInvalidTag \<Rightarrow> ''invalid flow tag''
      | ErrInvalidParams \<Rightarrow> ''invalid flow context params''
      | ErrRateLimited \<Rightarrow> ''flow context rate limit exceeded''
      | ErrTagStore \<Rightarrow> ''flow tag store unavailable''
      | ErrUnknownMethod \<Rightarrow> ''unknown flow context method''
      | ErrFlowController \<Rightarrow> ''flow controller unavailable''
      | ErrFlowNotActive \<Rightarrow> ''flow context flow is not active''
      | ErrInvalidRate \<Rightarrow> ''flow limit must be greater than zero''
      | BodyTooLarge \<Rightarrow> ''request body too large''
      | InvalidJSON \<Rightarrow> ''invalid JSON''
      | _ \<Rightarrow> other e)"

definition flowErrorMessage :: "(flow_error \<Rightarrow> string) \<Rightarrow> flow_error \<Rightarrow> string" where
  "flowErrorMessage other e =
     (if e = ErrInvalidParams then ''invalid params''
      else if e = CtxError ErrInvalidTuple then ''invalid backend tuple''
      else if e = CtxError ErrFlowNotFound then ''flow context not found''
      else error_text other e)"

text \<open>The checks both handlers make before they look at the body.\<close>

definition admit_request :: "time \<Rightarrow> 'a http_request \<Rightarrow> 'w Service \<Rightarrow> (http_response + Identity) \<times> 'w Service" where
  "admit_request now r s =
     (case authenticate (hr_Authorization r) s of
        None \<Rightarrow> (Inl (HttpError 401 ''flow context authentication failed''), s)
      | Some i \<Rightarrow>
          (case identity_Allow now (id_ID i) (sv_limiter s) of (allowed, l) \<Rightarrow>
             let s' = s\<lparr>sv_limiter := l\<rparr>
             in if \<not> allowed then (Inl (HttpError 429 ''flow context rate limit exceeded''), s')
                else if hr_Method r \<noteq> ''POST'' then (Inl (HttpError 405 ''method not allowed''), s')
                else (Inr i, s')))"

definition respond :: "(flow_error \<Rightarrow> string) \<Rightarrow> flow_error + rpc_result \<Rightarrow> http_response" where
  "respond other r =
     (case r of Inl e \<Rightarrow> HttpError (flowErrorStatus e) (flowErrorMessage other e) | Inr v \<Rightarrow> HttpOK v)"

definition HandleRPC ::
    "(flow_error \<Rightarrow> string) \<Rightarrow> json_decoders \<Rightarrow> call_env \<Rightarrow> (string \<times> string) http_request \<Rightarrow> 'w Service \<Rightarrow>
     http_response option \<times> 'w Service" where
  "HandleRPC other js env r s =
     (case admit_request (ce_now env) r s of
        (Inl resp, s1) \<Rightarrow> (Some resp, s1)
      | (Inr i, s1) \<Rightarrow>
          (case decodeBody (ho_MaxBodyBytes (sv_options s1)) r of
             Inl e \<Rightarrow> (Some (HttpError (flowErrorStatus e) (error_text other e)), s1)
           | Inr (method, params) \<Rightarrow>
               (case dispatch js env (TrimSpace method) params i s1 of
                  (None, s2) \<Rightarrow> (None, s2)
                | (Some res, s2) \<Rightarrow> (Some (respond other res), s2))))"

definition HandleResolve ::
    "(flow_error \<Rightarrow> string) \<Rightarrow> call_env \<Rightarrow> CtxResolveRequest http_request \<Rightarrow> 'w Service \<Rightarrow> http_response option \<times> 'w Service" where
  "HandleResolve other env r s =
     (case admit_request (ce_now env) r s of
        (Inl resp, s1) \<Rightarrow> (Some resp, s1)
      | (Inr i, s1) \<Rightarrow>
          (case decodeBody (ho_MaxBodyBytes (sv_options s1)) r of
             Inl e \<Rightarrow> (Some (HttpError (flowErrorStatus e) (error_text other e)), s1)
           | Inr q \<Rightarrow>
               (case ResolveFlow (ce_now env) (ce_events env) q i s1 of
                  (None, s2) \<Rightarrow> (None, s2)
                | (Some res, s2) \<Rightarrow> (Some (respond other (map_sum id (FlowResult \<circ> newFlowResponse) res)), s2))))"

section \<open>The rate of an identity\<close>

text \<open>The requests a limiter sees, and how many of one identity it lets through.\<close>

fun passed :: "string \<Rightarrow> identityRateLimiter \<Rightarrow> (time \<times> string) list \<Rightarrow> int" where
  "passed key l [] = 0"
| "passed key l ((now, k) # calls) =
     (case identity_Allow now k l of (allowed, l') \<Rightarrow> (if allowed \<and> k = key then 1 else 0) + passed key l' calls)"

definition limiter_step :: "identityRateLimiter \<Rightarrow> time \<times> string \<Rightarrow> identityRateLimiter" where
  "limiter_step l c = snd (identity_Allow (fst c) (snd c) l)"

definition limiter_inv :: "int \<Rightarrow> duration \<Rightarrow> identityRateLimiter \<Rightarrow> bool" where
  "limiter_inv burst window l \<longleftrightarrow> il_burst l = burst \<and> il_window l = window \<and>
     (\<forall>k e. gget (il_entries l) k = Some e \<longrightarrow> 0 \<le> ie_count e \<and> ie_count e \<le> max 1 burst)"

lemma limiter_inv_step: "limiter_inv burst window l \<Longrightarrow> limiter_inv burst window (limiter_step l c)"
  by (force simp: limiter_inv_def limiter_step_def identity_Allow_def Let_def gget_default_def split: option.splits)

interpretation limiter: event_system limiter_step "limiter_inv burst window"
  by unfold_locales (rule limiter_inv_step)

definition used :: "string \<Rightarrow> identityRateLimiter \<Rightarrow> int" where
  "used key l = ie_count (gget_default \<lparr>ie_started = 0, ie_count = 0\<rparr> (il_entries l) key)"

definition started :: "string \<Rightarrow> identityRateLimiter \<Rightarrow> time" where
  "started key l = ie_started (gget_default \<lparr>ie_started = 0, ie_count = 0\<rparr> (il_entries l) key)"

lemma allow_cases:
  "identity_Allow now k l =
     (let new = (started k l = 0 \<or> time_sub now (started k l) \<ge> il_window l)
      in if new then (True, l\<lparr>il_entries := gput k \<lparr>ie_started = now, ie_count = 1\<rparr> (il_entries l)\<rparr>)
         else if used k l \<ge> il_burst l then (False, l)
         else (True, l\<lparr>il_entries := gput k \<lparr>ie_started = started k l, ie_count = used k l + 1\<rparr> (il_entries l)\<rparr>))"
  by (cases "gget_default \<lparr>ie_started = 0, ie_count = 0\<rparr> (il_entries l) k")
     (simp add: identity_Allow_def used_def started_def Let_def)

lemma used_gput:
  "used k (l\<lparr>il_entries := gput k' e (il_entries l)\<rparr>) = (if k = k' then ie_count e else used k l)"
  "started k (l\<lparr>il_entries := gput k' e (il_entries l)\<rparr>) = (if k = k' then ie_started e else started k l)"
  by (simp_all add: used_def started_def gget_default_def)

lemma window_open:
  "0 < w \<Longrightarrow> w \<le> max_duration \<Longrightarrow> time_sub t u \<ge> w \<longleftrightarrow> t - u \<ge> w"
  by (auto simp: time_sub_def max_duration_def min_duration_def)

lemma other_identity:
  "k \<noteq> key \<Longrightarrow> identity_Allow now k l = (b, l') \<Longrightarrow>
   il_window l' = il_window l \<and> il_burst l' = il_burst l \<and> used key l' = used key l \<and> started key l' = started key l"
  by (auto simp: allow_cases Let_def used_gput split: if_splits)

text \<open>Within one window, at most what is left of the burst.\<close>

lemma passed_in_window:
  assumes "0 < il_window l" and "il_window l \<le> max_duration" and "started key l \<noteq> 0"
    and "list_all (\<lambda>(t, k). k \<noteq> key \<or> t - started key l < il_window l) calls"
  shows "passed key l calls \<le> max 0 (il_burst l - used key l)"
  using assms
proof (induction calls arbitrary: l)
  case (Cons c calls)
  obtain now k where c: "c = (now, k)" by fastforce
  obtain b l' where a: "identity_Allow now k l = (b, l')" by fastforce
  have step: "passed key l (c # calls) = (if b \<and> k = key then 1 else 0) + passed key l' calls" by (simp add: c a)
  show ?case
  proof (cases "k = key")
    case True
    then have "\<not> time_sub now (started key l) \<ge> il_window l"
      using Cons.prems window_open [of "il_window l"] by (simp add: c)
    then have "b \<longleftrightarrow> used key l < il_burst l"
      "l' = (if b then l\<lparr>il_entries := gput key \<lparr>ie_started = started key l, ie_count = used key l + 1\<rparr> (il_entries l)\<rparr> else l)"
      using Cons.prems(3) True a by (auto simp: allow_cases split: if_splits)
    then show ?thesis unfolding step
      using Cons.IH [of l'] Cons.prems True by (auto simp: c used_gput split: if_splits)
  next
    case False
    with other_identity [OF False a] Cons.IH [of l'] Cons.prems show ?thesis unfolding step by (simp add: c)
  qed
qed simp

lemma passed_twice:
  assumes "0 < il_window l" and "il_window l \<le> max_duration" and "0 < a" and "0 < il_burst l"
    and "list_all (\<lambda>(t, k). k \<noteq> key \<or> (a \<le> t \<and> t < a + il_window l)) calls"
  shows "passed key l calls \<le> max 0 (il_burst l - used key l) + il_burst l"
  using assms
proof (induction calls arbitrary: l)
  case (Cons c calls)
  obtain now k where c: "c = (now, k)" by fastforce
  obtain b l' where al: "identity_Allow now k l = (b, l')" by fastforce
  have step: "passed key l (c # calls) = (if b \<and> k = key then 1 else 0) + passed key l' calls" by (simp add: c al)
  consider "k \<noteq> key" | "k = key" "started k l = 0 \<or> time_sub now (started k l) \<ge> il_window l"
    | "k = key" "\<not> (started k l = 0 \<or> time_sub now (started k l) \<ge> il_window l)" by blast
  then show ?case
  proof cases
    case 1
    with other_identity [OF 1 al] Cons.IH [of l'] Cons.prems show ?thesis unfolding step by (simp add: c)
  next
    case 2
    then have l': "b" "l' = l\<lparr>il_entries := gput key \<lparr>ie_started = now, ie_count = 1\<rparr> (il_entries l)\<rparr>"
      using al by (auto simp: allow_cases)
    have "list_all (\<lambda>(t, k). k \<noteq> key \<or> t - now < il_window l) calls"
      using Cons.prems(5) 2(1) by (fastforce simp: list_all_iff c)
    then have "passed key l' calls \<le> max 0 (il_burst l' - used key l')"
      using Cons.prems 2(1) by (intro passed_in_window) (auto simp: l' used_gput c)
    then have "passed key l' calls \<le> il_burst l - 1" using Cons.prems(4) by (simp add: l' used_gput)
    then show ?thesis unfolding step using Cons.prems(4) 2(1) l'(1) by simp
  next
    case 3
    then have "b \<longleftrightarrow> used key l < il_burst l"
      "l' = (if b then l\<lparr>il_entries := gput key \<lparr>ie_started = started key l, ie_count = used key l + 1\<rparr> (il_entries l)\<rparr> else l)"
      using al by (auto simp: allow_cases split: if_splits)
    then show ?thesis unfolding step
      using Cons.IH [of l'] Cons.prems 3(1) by (auto simp: c used_gput split: if_splits)
  qed
qed simp

text \<open>
  C11: the limiter of the Flow Context interface bounds the rate of every backend. Whatever
  requests came before, and whatever other identities do, within any time shorter than one
  window at most twice the burst of an identity's requests pass.
\<close>

theorem identity_rate_bounded:
  assumes "0 < burst" and "0 < window" and "window \<le> max_duration" and "0 < a"
    and "list_all (\<lambda>(t, k). k \<noteq> key \<or> (a \<le> t \<and> t < a + window)) calls"
  shows "passed key (foldl limiter_step (newIdentityRateLimiter burst window) earlier) calls \<le> 2 * burst"
proof -
  let ?l = "foldl limiter_step (newIdentityRateLimiter burst window) earlier"
  have "limiter_inv burst window ?l"
    by (rule limiter.run_invar) (simp add: limiter_inv_def newIdentityRateLimiter_def)
  then have l: "il_burst ?l = burst" "il_window ?l = window" "0 \<le> used key ?l"
    by (auto simp: limiter_inv_def used_def gget_default_def split: option.splits)
  have "passed key ?l calls \<le> max 0 (il_burst ?l - used key ?l) + il_burst ?l"
    by (rule passed_twice [where a = a]) (use assms l in auto)
  with l assms(1) show ?thesis by simp
qed

theorem identity_rate_bounded_witness:
  "passed ''b'' (foldl limiter_step (newIdentityRateLimiter 1 10) [(1, ''b'')]) [(10, ''b''), (11, ''b''), (12, ''b'')] \<le> 2 \<and>
   passed ''b'' (foldl limiter_step (newIdentityRateLimiter 1 10) [(1, ''b'')]) [(10, ''b''), (11, ''b''), (12, ''b'')] = 1"
proof
  show "passed ''b'' (foldl limiter_step (newIdentityRateLimiter 1 10) [(1, ''b'')]) [(10, ''b''), (11, ''b''), (12, ''b'')] \<le> 2"
    using identity_rate_bounded [of 1 10 5 "''b''" "[(10, ''b''), (11, ''b''), (12, ''b'')]" "[(1, ''b'')]"]
    by (simp add: max_duration_def)
  show "passed ''b'' (foldl limiter_step (newIdentityRateLimiter 1 10) [(1, ''b'')]) [(10, ''b''), (11, ''b''), (12, ''b'')] = 1"
    by code_simp
qed

section \<open>Confinement of a backend\<close>

text \<open>
  A request was granted for a Flow: its token is the identity's, the identity has a name, the
  Flow is in the registry, and both its route and its upstream are the identity's.
\<close>

definition granted :: "time \<Rightarrow> string \<Rightarrow> 'w Service \<Rightarrow> Identity \<Rightarrow> FlowCtx \<Rightarrow> bool" where
  "granted now authorization s i v \<longleftrightarrow>
     authenticate authorization s = Some i \<and> TrimSpace (id_ID i) \<noteq> [] \<and>
     (\<exists>reg fid. sv_registry s = Some reg \<and> fst (Ctx_Lookup now fid reg) = Some v) \<and>
     cx_Route v \<in> set (id_Routes i) \<and> cx_Upstream v \<in> set (id_Upstreams i)"

definition allowed_for :: "time \<Rightarrow> Identity \<Rightarrow> 'w Service \<Rightarrow> FlowCtx \<Rightarrow> bool" where
  "allowed_for now i s v \<longleftrightarrow> TrimSpace (id_ID i) \<noteq> [] \<and>
     (\<exists>reg fid. sv_registry s = Some reg \<and> fst (Ctx_Lookup now fid reg) = Some v) \<and>
     cx_Route v \<in> set (id_Routes i) \<and> cx_Upstream v \<in> set (id_Upstreams i)"

definition flow_tags :: "string \<Rightarrow> 'w Service \<Rightarrow> TagRow list option" where
  "flow_tags fid s = map_option (\<lambda>st. tags_of fid (au_flowTags st)) (sv_store s)"

definition client_tags :: "string \<Rightarrow> 'w Service \<Rightarrow> TagRow list option" where
  "client_tags ip s = map_option (\<lambda>st. tags_of ip (au_clientTags st)) (sv_store s)"

text \<open>What a control call may have done to the data plane.\<close>

definition controlled :: "'w FlowController \<Rightarrow> string \<Rightarrow> 'w \<Rightarrow> 'w \<Rightarrow> bool" where
  "controlled c fid w w' \<longleftrightarrow> w' = snd (fc_Block c fid w) \<or> w' = snd (fc_ClearLimit c fid w) \<or> (\<exists>bps. w' = snd (fc_SetLimit c fid bps w))"

definition confined :: "time \<Rightarrow> Identity \<Rightarrow> 'w Service \<Rightarrow> 'w Service \<Rightarrow> bool" where
  "confined now i s s' \<longleftrightarrow>
     (sv_world s' \<noteq> sv_world s \<longrightarrow> (\<exists>v c. allowed_for now i s v \<and> cx_State v = StateActive \<and> sv_controller s = Some c \<and>
        controlled c (cx_FlowID v) (sv_world s) (sv_world s'))) \<and>
     (\<forall>fid. flow_tags fid s' \<noteq> flow_tags fid s \<longrightarrow> (\<exists>v. allowed_for now i s v \<and> cx_FlowID v = fid)) \<and>
     (\<forall>ip. client_tags ip s' \<noteq> client_tags ip s \<longrightarrow> (\<exists>v. allowed_for now i s v \<and> clientIP v = ip))"

lemma contains_iff [simp]: "contains vs v \<longleftrightarrow> v \<in> set vs"
  by (auto simp: contains_def list_ex_iff)

lemma authorizeBackend_ok:
  "authorizeBackend v i = None \<longleftrightarrow> TrimSpace (id_ID i) \<noteq> [] \<and> cx_Route v \<in> set (id_Routes i) \<and> cx_Upstream v \<in> set (id_Upstreams i)"
  by (auto simp: authorizeBackend_def allowsContext_def)

lemma authorizedFlow_frame:
  "authorizedFlow now fid i s = (r, s') \<Longrightarrow>
   sv_store s' = sv_store s \<and> sv_controller s' = sv_controller s \<and> sv_world s' = sv_world s \<and> sv_options s' = sv_options s \<and>
   (\<forall>v. r = Inr v \<longrightarrow> allowed_for now i s v)"
  by (auto simp: authorizedFlow_def service_lookup_def allowed_for_def authorizeBackend_ok
      split: if_splits option.splits prod.splits) (metis fst_conv)+

lemma same_confined:
  "sv_store s' = sv_store s \<Longrightarrow> sv_world s' = sv_world s \<Longrightarrow> confined now i s s'"
  by (simp add: confined_def flow_tags_def client_tags_def)

lemma flow_tags_confined:
  assumes "allowed_for now i s v" and "sv_world s' = sv_world s" and "sv_store s = Some st" and "sv_store s' = Some st'"
    and "au_clientTags st' = au_clientTags st"
    and "\<And>owner. owner \<noteq> cx_FlowID v \<Longrightarrow> tags_of owner (au_flowTags st') = tags_of owner (au_flowTags st)"
  shows "confined now i s s'"
  using assms unfolding confined_def flow_tags_def client_tags_def by simp metis

lemma client_tags_confined:
  assumes "allowed_for now i s v" and "sv_world s' = sv_world s" and "sv_store s = Some st" and "sv_store s' = Some st'"
    and "au_flowTags st' = au_flowTags st"
    and "\<And>owner. owner \<noteq> clientIP v \<Longrightarrow> tags_of owner (au_clientTags st') = tags_of owner (au_clientTags st)"
  shows "confined now i s s'"
  using assms unfolding confined_def flow_tags_def client_tags_def by simp metis

lemma stored_world [simp]:
  "sv_world (snd (stored r x s)) = sv_world s" "sv_store (snd (stored r x s)) = Some (snd r)"
  by (auto simp: stored_def split: option.splits prod.splits)

lemma stored_confined:
  assumes "allowed_for now i s v" and "sv_store s1 = sv_store s" and "sv_world s1 = sv_world s" and "sv_store s1 = Some st"
  shows "te_FlowID ev = cx_FlowID v \<Longrightarrow> ot_Owner t = cx_FlowID v \<Longrightarrow>
           confined now i s (snd (stored (ApplyFlowTag db uuid now e ev (Some t) p st) x s1))"
    and "te_FlowID ev = cx_FlowID v \<Longrightarrow> confined now i s (snd (stored (RemoveFlowTag db uuid now e ev p st) y s1))"
    and "ot_Owner t = clientIP v \<Longrightarrow>
           confined now i s (snd (stored (ApplyClientTag db uuid now e ev (Some t) p st) x s1))"
    and "confined now i s (snd (stored (RemoveClientTag db uuid now e ev (clientIP v) p st) y s1))"
proof -
  have st: "sv_store s = Some st" using assms by simp
  show "confined now i s (snd (stored (ApplyFlowTag db uuid now e ev (Some t) p st) x s1))"
    if "te_FlowID ev = cx_FlowID v" "ot_Owner t = cx_FlowID v"
  proof -
    obtain er st' where r: "ApplyFlowTag db uuid now e ev (Some t) p st = (er, st')" by fastforce
    show ?thesis
      by (rule flow_tags_confined [OF assms(1) _ st, where st' = st'])
        (use apply_flow_tag_other [OF r] that assms(3) in \<open>auto simp: r\<close>)
  qed
  show "confined now i s (snd (stored (RemoveFlowTag db uuid now e ev p st) y s1))"
    if "te_FlowID ev = cx_FlowID v"
  proof -
    obtain er st' where r: "RemoveFlowTag db uuid now e ev p st = (er, st')" by fastforce
    show ?thesis
      by (rule flow_tags_confined [OF assms(1) _ st, where st' = st'])
        (use remove_flow_tag_other [OF r] that assms(3) in \<open>auto simp: r\<close>)
  qed
  show "confined now i s (snd (stored (ApplyClientTag db uuid now e ev (Some t) p st) x s1))"
    if "ot_Owner t = clientIP v"
  proof -
    obtain er st' where r: "ApplyClientTag db uuid now e ev (Some t) p st = (er, st')" by fastforce
    show ?thesis
      by (rule client_tags_confined [OF assms(1) _ st, where st' = st'])
        (use apply_client_tag_other [OF r] that assms(3) in \<open>auto simp: r\<close>)
  qed
  show "confined now i s (snd (stored (RemoveClientTag db uuid now e ev (clientIP v) p st) y s1))"
  proof -
    obtain er st' where r: "RemoveClientTag db uuid now e ev (clientIP v) p st = (er, st')" by fastforce
    show ?thesis
      by (rule client_tags_confined [OF assms(1) _ st, where st' = st'])
        (use remove_client_tag_other [OF r] assms(3) in \<open>auto simp: r\<close>)
  qed
qed

lemma tag_ops_confined:
  "confined now i s (snd (SetFlowTag db uuid now q i s))"
  "confined now i s (snd (UnsetFlowTag db uuid now q i s))"
  "confined now i s (snd (SetClientTag db uuid now q i s))"
  "confined now i s (snd (UnsetClientTag db uuid now q i s))"
  "confined now i s (snd (ListFlowTags db now fid i s))"
proof -
  obtain a s1 where a: "authorizedFlow now (tq_FlowID q) i s = (a, s1)" by fastforce
  have f: "sv_store s1 = sv_store s" "sv_world s1 = sv_world s" "\<And>v. a = Inr v \<Longrightarrow> allowed_for now i s v"
    using authorizedFlow_frame [OF a] by auto
  note conf = stored_confined [OF f(3) f(1,2)] same_confined [of s1 s, OF f(1,2)]
  show "confined now i s (snd (SetFlowTag db uuid now q i s))"
    unfolding SetFlowTag_def a by (auto simp: Let_def tagEvent_def intro!: conf split: sum.splits option.splits)
  show "confined now i s (snd (UnsetFlowTag db uuid now q i s))"
    unfolding UnsetFlowTag_def a by (auto simp: Let_def tagEvent_def intro!: conf split: sum.splits option.splits)
  show "confined now i s (snd (SetClientTag db uuid now q i s))"
    unfolding SetClientTag_def a by (auto simp: Let_def tagEvent_def intro!: conf split: sum.splits option.splits)
  show "confined now i s (snd (UnsetClientTag db uuid now q i s))"
    unfolding UnsetClientTag_def a by (auto simp: Let_def tagEvent_def intro!: conf split: sum.splits option.splits)
  obtain b s2 where b: "authorizedFlow now fid i s = (b, s2)" by fastforce
  with authorizedFlow_frame [OF b] show "confined now i s (snd (ListFlowTags db now fid i s))"
    unfolding ListFlowTags_def b by (auto intro!: same_confined split: sum.splits option.splits)
qed

lemma controlTarget_frame:
  "controlTarget now fid i s = (r, s') \<Longrightarrow>
   sv_store s' = sv_store s \<and> sv_world s' = sv_world s \<and>
   (\<forall>v c. r = Inr (v, c) \<longrightarrow> allowed_for now i s v \<and> cx_State v = StateActive \<and> sv_controller s = Some c)"
  by (auto simp: controlTarget_def authorizedActiveFlow_def dest!: authorizedFlow_frame
      split: prod.splits sum.splits if_splits option.splits)

lemma controlled_calls [simp]:
  "controlled c fid w (snd (fc_Block c fid w))" "controlled c fid w (snd (fc_ClearLimit c fid w))"
  "controlled c fid w (snd (fc_SetLimit c fid bps w))"
  by (auto simp: controlled_def)

lemma control_call_confined:
  assumes "allowed_for now i s v" and "cx_State v = StateActive" and "sv_controller s = Some c"
    and "sv_store s1 = sv_store s" and "sv_world s1 = sv_world s" and "\<And>w. controlled c (cx_FlowID v) w (snd (f w))"
  shows "confined now i s (snd (control_call f res s1))"
  using assms by (auto simp: confined_def control_call_def flow_tags_def client_tags_def split: prod.splits) (metis snd_conv)

lemma control_ops_confined:
  "confined now i s (snd (SetFlowLimit now lq i s))"
  "confined now i s (snd (ClearFlowLimit now fid i s))"
  "confined now i s (snd (BlockFlow now aq i s))"
proof -
  have ct: "confined now i s (snd (case controlTarget now fid i s of (Inl e, s1) \<Rightarrow> (Inl e, s1)
      | (Inr (v, c), s1) \<Rightarrow> control_call (f c v) (res v) s1))"
    if "\<And>c v w. controlled c (cx_FlowID v) w (snd (f c v w))" for f res fid
  proof -
    obtain r s1 where r: "controlTarget now fid i s = (r, s1)" by fastforce
    note fr = controlTarget_frame [OF r]
    show ?thesis
    proof (cases r)
      case (Inl e)
      with fr show ?thesis by (simp add: r same_confined)
    next
      case (Inr vc)
      with fr that show ?thesis by (cases vc) (auto simp: r intro!: control_call_confined)
    qed
  qed
  show "confined now i s (snd (SetFlowLimit now lq i s))"
    using ct [of "\<lambda>c v. fc_SetLimit c (cx_FlowID v) (lq_RateBPS lq)"]
    by (auto simp: SetFlowLimit_def intro: same_confined)
  show "confined now i s (snd (ClearFlowLimit now fid i s))"
    using ct [of "\<lambda>c v. fc_ClearLimit c (cx_FlowID v)"] by (auto simp: ClearFlowLimit_def)
  show "confined now i s (snd (BlockFlow now aq i s))"
    using ct [of "\<lambda>c v. fc_Block c (cx_FlowID v)"] by (auto simp: BlockFlow_def intro: same_confined)
qed

lemma ResolveFlow_facts:
  "ResolveFlow now es q i s = (r, s') \<Longrightarrow>
   sv_store s' = sv_store s \<and> sv_world s' = sv_world s \<and>
   (\<forall>v. r = Some (Inr v) \<longrightarrow> TrimSpace (id_ID i) \<noteq> [] \<and> cx_Route v \<in> set (id_Routes i) \<and> cx_Upstream v \<in> set (id_Upstreams i))"
  by (auto simp: ResolveFlow_def authorizeBackend_ok split: if_splits option.splits prod.splits)

lemma map_result_simps [simp]: "snd (map_result f p) = snd p" "fst (map_result f p) = Some (map_sum id f (fst p))"
  by (simp_all add: map_result_def)

text \<open>A Flow is shown only to an identity it belongs to.\<close>

definition shown_to :: "Identity \<Rightarrow> rpc_result \<Rightarrow> bool" where
  "shown_to i res \<longleftrightarrow> (\<forall>f. res = FlowResult f \<longrightarrow> fp_Route f \<in> set (id_Routes i) \<and> fp_Upstream f \<in> set (id_Upstreams i))"

definition safe_call :: "time \<Rightarrow> Identity \<Rightarrow> 'w Service \<Rightarrow> (flow_error + rpc_result) option \<times> 'w Service \<Rightarrow> bool" where
  "safe_call now i s r \<longleftrightarrow> confined now i s (snd r) \<and> (\<forall>res. fst r = Some (Inr res) \<longrightarrow> shown_to i res)"

lemma safe_bad [simp]: "safe_call now i s (Some (Inl e), s)"
  by (simp add: safe_call_def same_confined)

lemma safe_map_result:
  "confined now i s (snd p) \<Longrightarrow> (\<And>v f. g v \<noteq> FlowResult f) \<Longrightarrow> safe_call now i s (map_result g p)"
  by (cases "fst p") (auto simp: safe_call_def shown_to_def)

lemma control_results: "fst (control_call f res s) = Inr x \<Longrightarrow> x = res"
  by (auto simp: control_call_def split: prod.splits if_splits)

lemma control_ops_results [simp]:
  "fst (SetFlowLimit now lq i s) \<noteq> Inr (FlowResult f)"
  "fst (ClearFlowLimit now fid i s) \<noteq> Inr (FlowResult f)"
  "fst (BlockFlow now aq i s) \<noteq> Inr (FlowResult f)"
  by (auto simp: SetFlowLimit_def ClearFlowLimit_def BlockFlow_def dest!: control_results split: prod.splits sum.splits if_splits)

lemma safe_control:
  "safe_call now i s (map_result id (SetFlowLimit now lq i s))"
  "safe_call now i s (map_result id (ClearFlowLimit now fid i s))"
  "safe_call now i s (map_result id (BlockFlow now aq i s))"
  using control_ops_confined [of now i s] by (auto simp: safe_call_def shown_to_def sum.map_id0)

lemma safe_resolve:
  "safe_call now i s (case ResolveFlow now es q i s of (None, s') \<Rightarrow> (None, s')
     | (Some r, s') \<Rightarrow> (Some (map_sum id (FlowResult \<circ> newFlowResponse) r), s'))"
proof -
  obtain r s' where r: "ResolveFlow now es q i s = (r, s')" by fastforce
  note f = ResolveFlow_facts [OF r]
  then have c: "confined now i s s'" by (simp add: same_confined)
  show ?thesis
  proof (cases r)
    case None
    with c show ?thesis by (simp add: r safe_call_def)
  next
    case (Some x)
    with c f show ?thesis by (cases x) (auto simp: r safe_call_def shown_to_def newFlowResponse_def)
  qed
qed

lemma dispatch_safe: "safe_call (ce_now env) i s (dispatch js env method raw i s)"
proof -
  have opt: "safe_call now i s (case d of None \<Rightarrow> (Some (Inl e), s) | Some q \<Rightarrow> f q)"
    if "\<And>q. safe_call now i s (f q)" for now d f e by (cases d) (simp_all add: that)
  show ?thesis
    unfolding dispatch_def Let_def
    by (simp only: safe_bad opt safe_resolve safe_control safe_map_result tag_ops_confined rpc_result.distinct
        not_False_eq_True if_True if_False split: if_split) (auto simp: safe_call_def shown_to_def same_confined)
qed

lemma admit_frame:
  "admit_request now r s = (x, s') \<Longrightarrow>
   sv_registry s' = sv_registry s \<and> sv_store s' = sv_store s \<and> sv_controller s' = sv_controller s \<and> sv_world s' = sv_world s \<and>
   (\<forall>i. x = Inr i \<longrightarrow> authenticate (hr_Authorization r) s = Some i) \<and> (\<forall>rs res. x = Inl rs \<longrightarrow> rs \<noteq> HttpOK res)"
  by (auto simp: admit_request_def Let_def split: option.splits prod.splits if_splits)

lemma allowed_for_cong: "sv_registry s1 = sv_registry s \<Longrightarrow> allowed_for now i s1 v \<longleftrightarrow> allowed_for now i s v"
  by (simp add: allowed_for_def)

lemma granted_iff: "granted now auth s i v \<longleftrightarrow> authenticate auth s = Some i \<and> allowed_for now i s v"
  by (auto simp: granted_def allowed_for_def)

lemma confined_cong:
  "confined now i s1 s' \<Longrightarrow> sv_registry s1 = sv_registry s \<Longrightarrow> sv_store s1 = sv_store s \<Longrightarrow>
   sv_controller s1 = sv_controller s \<Longrightarrow> sv_world s1 = sv_world s \<Longrightarrow> confined now i s s'"
  by (simp add: confined_def allowed_for_def flow_tags_def client_tags_def)

lemma HandleRPC_cases:
  assumes "HandleRPC other js env r s = (resp, s')"
  obtains (refused) "sv_world s' = sv_world s" "sv_store s' = sv_store s" "\<And>res. resp \<noteq> Some (HttpOK res)"
  | (served) i where "authenticate (hr_Authorization r) s = Some i" "confined (ce_now env) i s s'"
      "\<And>res. resp = Some (HttpOK res) \<Longrightarrow> shown_to i res"
proof -
  obtain x s1 where x: "admit_request (ce_now env) r s = (x, s1)" by fastforce
  note f = admit_frame [OF x]
  show thesis
  proof (cases "\<exists>i mp. x = Inr i \<and> decodeBody (ho_MaxBodyBytes (sv_options s1)) r = Inr mp")
    case False
    then show thesis using assms f refused
      by (auto simp: HandleRPC_def x split: sum.splits)
  next
    case True
    then obtain i name ps where i: "x = Inr i" "decodeBody (ho_MaxBodyBytes (sv_options s1)) r = Inr (name, ps)"
      by auto
    obtain d s2 where d: "dispatch js env (TrimSpace name) ps i s1 = (d, s2)" by fastforce
    have safe: "safe_call (ce_now env) i s1 (d, s2)" using dispatch_safe [of env i s1 js "TrimSpace name" ps] d by simp
    have r: "s' = s2" "resp = map_option (respond other) d"
      using assms by (auto simp: HandleRPC_def x i d split: option.splits)
    show thesis
    proof (rule served)
      show "authenticate (hr_Authorization r) s = Some i" using f i by simp
      show "confined (ce_now env) i s s'"
        using safe f unfolding r safe_call_def by (auto intro: confined_cong)
      show "resp = Some (HttpOK res) \<Longrightarrow> shown_to i res" for res
        using safe unfolding r safe_call_def by (cases d; cases "the d") (auto simp: respond_def)
    qed
  qed
qed

text \<open>
  C1: a backend reaches only its own Flows. Whatever request arrives, the data plane changes
  only through a control of an active Flow, and the tags of a Flow or of a client change only
  through a Flow, that is in the registry and whose route and upstream both belong to the
  identity whose token the request carries; and a reply shows a Flow only when its route and
  upstream do.
\<close>

theorem backend_confined:
  assumes "HandleRPC other js env r s = (resp, s')"
  shows "(sv_world s' \<noteq> sv_world s \<longrightarrow>
            (\<exists>i v c. granted (ce_now env) (hr_Authorization r) s i v \<and> cx_State v = StateActive \<and> sv_controller s = Some c \<and>
               controlled c (cx_FlowID v) (sv_world s) (sv_world s'))) \<and>
         (flow_tags fid s' \<noteq> flow_tags fid s \<longrightarrow> (\<exists>i v. granted (ce_now env) (hr_Authorization r) s i v \<and> cx_FlowID v = fid)) \<and>
         (client_tags ip s' \<noteq> client_tags ip s \<longrightarrow> (\<exists>i v. granted (ce_now env) (hr_Authorization r) s i v \<and> clientIP v = ip)) \<and>
         (\<forall>f. resp = Some (HttpOK (FlowResult f)) \<longrightarrow>
            (\<exists>i. authenticate (hr_Authorization r) s = Some i \<and> fp_Route f \<in> set (id_Routes i) \<and> fp_Upstream f \<in> set (id_Upstreams i)))"
  using assms
proof (cases rule: HandleRPC_cases)
  case refused
  then show ?thesis by (simp add: flow_tags_def client_tags_def)
next
  case (served i)
  then show ?thesis unfolding confined_def shown_to_def granted_iff by blast
qed

definition sample_flow :: FlowCtx where
  "sample_flow = \<lparr>cx_FlowID = ''f'', cx_Protocol = ''tcp'', cx_ClientAddr = ''10.0.0.1:9'', cx_Listener = '':80'', cx_Route = ''web'',
     cx_Upstream = ''u'', cx_BackendKey = [], cx_BackendTuple = zero_tuple, cx_CreatedAt = 5, cx_EndedAt = 0, cx_ResolveUntil = 0,
     cx_State = StateActive, cx_Generation = 0, cx_LastActivity = 5, cx_BytesUp = 0, cx_BytesDown = 0\<rparr>"

definition sample_identity :: Identity where
  "sample_identity = \<lparr>id_ID = ''b1'', id_Token = ''secret'', id_Routes = [''web''], id_Upstreams = [''u''], id_Namespaces = [''a_b'']\<rparr>"

definition sample_service :: "string list Service" where
  "sample_service = SetFlowController
     (Some \<lparr>fc_Block = (\<lambda>fid w. (True, fid # w)), fc_SetLimit = (\<lambda>fid bps w. (True, w)), fc_ClearLimit = (\<lambda>fid w. (True, w))\<rparr>)
     (NewService (Some ((NewCtxRegistry DefaultOptions)\<lparr>fr_entries := [(''f'', \<lparr>en_context = sample_flow, en_hasTuple = False\<rparr>)]\<rparr>))
        (Some empty_audit)
        \<lparr>ho_Identities = [sample_identity], ho_MaxTTL = 0, ho_ResolveTimeout = 0, ho_MaxBodyBytes = 0, ho_MaxKeyLength = 0,
         ho_MaxValueLength = 0, ho_RateLimitBurst = 0, ho_RateLimitWindow = 0\<rparr> [])"

definition sample_decoders :: json_decoders where
  "sample_decoders = \<lparr>js_resolve = (\<lambda>_. None), js_tag = (\<lambda>_. None), js_flow = Some, js_limit = (\<lambda>_. None),
     js_action = (\<lambda>raw. Some \<lparr>aq_FlowID = raw, aq_Reason = []\<rparr>)\<rparr>"

definition sample_env :: call_env where
  "sample_env = \<lparr>ce_db = True, ce_uuid = ''u1'', ce_now = 7, ce_events = []\<rparr>"

definition sample_request :: "string \<Rightarrow> string \<Rightarrow> (string \<times> string) http_request" where
  "sample_request auth method = \<lparr>hr_Method = ''POST'', hr_Authorization = auth, hr_ContentLength = 10,
     hr_First = Decoded (method, ''f''), hr_AtEnd = True\<rparr>"

lemma sample_block: "sv_world (snd (HandleRPC (\<lambda>_. []) sample_decoders sample_env
    (sample_request ''Bearer secret'' ''BlockFlow'') sample_service)) = [''f'']"
  by code_simp

theorem backend_confined_witness:
  "\<exists>i v c. granted 7 ''Bearer secret'' sample_service i v \<and> cx_State v = StateActive \<and> sv_controller sample_service = Some c \<and>
     controlled c (cx_FlowID v) [] [''f'']"
proof -
  obtain resp s' where h: "HandleRPC (\<lambda>_. []) sample_decoders sample_env (sample_request ''Bearer secret'' ''BlockFlow'') sample_service = (resp, s')"
    by fastforce
  have w: "sv_world s' = [''f'']" using sample_block h by simp
  have w0: "sv_world sample_service = []" by (simp add: sample_service_def SetFlowController_def NewService_def Let_def)
  show ?thesis
    using backend_confined [OF h] w w0 by (simp add: sample_env_def sample_request_def)
qed

end
