(* ===== verification/FlowTags.thy ===== *)
theory FlowTags
  imports FlowService
begin

text \<open>
  What the tag calls of the Flow Context service do to the tags that later calls read: setting
  and listing, removing and listing, and what a request that fails leaves behind.
\<close>

section \<open>Setting and reading a tag\<close>

lemma validateTag_prefix:
  "validateTag now options q i setting = Some (ns, key, v, ex, p) \<Longrightarrow>
   p = tag_prefix ns key \<and> tagPart ns \<and> tagPart key \<and> ns \<in> set (id_Namespaces i) \<and> p \<noteq> [] \<and> formatTag ns key v = p @ v"
  by (auto simp: validateTag_def Let_def allowsNamespace_def tag_prefix_def formatTag_def split: if_splits)

lemma tagPart_chars: "tagPart s \<Longrightarrow> c \<in> set s \<Longrightarrow> alnum c \<or> c \<in> set ''_.-''"
  by (cases s) (auto simp: tagPart_def list_all_iff)

lemma alnum_percent: "\<not> alnum CHR ''%''"
  by (simp add: alnum_def char_in_def is_digit_def)

lemma prefix_no_percent: "tagPart ns \<Longrightarrow> tagPart key \<Longrightarrow> CHR ''%'' \<notin> set (tag_prefix ns key)"
  using tagPart_chars [of ns "CHR ''%''"] tagPart_chars [of key "CHR ''%''"] alnum_percent by (auto simp: tag_prefix_def)


text \<open>When a requested tag expires.\<close>

definition tag_expiry :: "time \<Rightarrow> TagRequest \<Rightarrow> time option" where
  "tag_expiry now q = (if tq_TTLSeconds q > 0 then Some (time_add now (tq_TTLSeconds q * second)) else None)"

lemma validateTag_value:
  "validateTag now options q i setting = Some (ns, key, v, ex, p) \<Longrightarrow>
   ns = TrimSpace (tq_Namespace q) \<and> key = TrimSpace (tq_Key q) \<and> (setting \<longrightarrow> v = TrimSpace (tq_Value q) \<and> ex = tag_expiry now q)"
  by (auto simp: validateTag_def tag_expiry_def Let_def split: if_splits)

text \<open>The registry and the store a service is built on satisfy their invariants.\<close>

definition service_inv :: "'w Service \<Rightarrow> bool" where
  "service_inv s \<longleftrightarrow> (\<forall>r. sv_registry s = Some r \<longrightarrow> ctx_inv r \<and> 0 \<le> op_MaxEntries (fr_options r)) \<and>
     (\<forall>st. sv_store s = Some st \<longrightarrow> audit_inv st)"

lemma lookup_inv: "ctx_inv r \<Longrightarrow> 0 \<le> op_MaxEntries (fr_options r) \<Longrightarrow>
    ctx_inv (snd (Ctx_Lookup now fid r)) \<and> 0 \<le> op_MaxEntries (fr_options (snd (Ctx_Lookup now fid r)))"
  using contexts.run_invar [of r "[CtxLookup now fid]"] by simp

text \<open>A Flow is found under the identifier it was asked for.\<close>

lemma authorizedFlow_id:
  assumes "authorizedFlow now fid i s = (Inr v, s')" and "service_inv s"
  shows "cx_FlowID v = TrimSpace fid" and "service_inv s'"
proof -
  obtain r where r: "sv_registry s = Some r" "TrimSpace fid \<noteq> []" "fst (Ctx_Lookup now (TrimSpace fid) r) = Some v"
    and s': "s' = s\<lparr>sv_registry := Some (snd (Ctx_Lookup now (TrimSpace fid) r))\<rparr>"
    using assms(1) by (auto simp: authorizedFlow_def service_lookup_def split: if_splits option.splits prod.splits)
  have inv: "ctx_inv r" "0 \<le> op_MaxEntries (fr_options r)" using assms(2) r by (auto simp: service_inv_def)
  have "\<not> fr_closed r" using r by (auto simp: Ctx_Lookup_def)
  then obtain e where "map_of (fr_entries r) (TrimSpace fid) = Some e" "v = en_context e"
    using r lookup_result [OF inv(1)] by (auto split: option.splits if_splits)
  then show "cx_FlowID v = TrimSpace fid" using inv mirrorD(1) by (auto simp: ctx_inv_def)
  show "service_inv s'" using assms(2) lookup_inv [OF inv] by (auto simp: service_inv_def s')
qed

lemma SetFlowTag_stores:
  assumes "SetFlowTag db uuid now q i s = (Inr tag, s')" and "service_inv s"
    and p: "p = tag_prefix (TrimSpace (tq_Namespace q)) (TrimSpace (tq_Key q))"
  shows "service_inv s'" and "CHR ''%'' \<notin> set p" and "ot_Tag tag = p @ TrimSpace (tq_Value q)"
    and "ot_Owner tag = TrimSpace (tq_FlowID q)" and "ot_ExpiresAt tag = tag_expiry now q"
    and "\<exists>st st'. sv_store s = Some st \<and> sv_store s' = Some st' \<and>
           au_flowTags st' = delete_tags (ot_Owner tag) p (au_flowTags st) @ [tag_row now tag]"
proof -
  obtain v s1 ns key tv ex pre st where v: "authorizedFlow now (tq_FlowID q) i s = (Inr v, s1)"
    and t: "validateTag now (sv_options s1) q i True = Some (ns, key, tv, ex, pre)" and st: "sv_store s1 = Some st"
    and tag: "tag = \<lparr>ot_Owner = cx_FlowID v, ot_Tag = formatTag ns key tv, ot_Source = ''flow-context'',
                ot_ExpiresAt = ex, ot_CreatedAt = now, ot_UpdatedAt = now\<rparr>"
    and ap: "stored (ApplyFlowTag db uuid now (flowEntityFromContext v)
                 (tagEvent now v (ot_Tag tag) ''set'' i ex ns key tv) (Some tag) pre st) tag s1 = (Inr tag, s')"
    using assms(1)
    by (auto simp: SetFlowTag_def Let_def stored_def split: prod.splits sum.splits option.splits)
  obtain st' where ap': "ApplyFlowTag db uuid now (flowEntityFromContext v)
                 (tagEvent now v (ot_Tag tag) ''set'' i ex ns key tv) (Some tag) pre st = (None, st')"
    and s': "s' = s1\<lparr>sv_store := Some st'\<rparr>"
    using ap by (auto simp: stored_def split: prod.splits option.splits)
  have pre: "pre = p" "tagPart ns" "tagPart key" "formatTag ns key tv = p @ tv" "tv = TrimSpace (tq_Value q)" "ex = tag_expiry now q"
    using validateTag_prefix [OF t] validateTag_value [OF t] p by auto
  note id = authorizedFlow_id [OF v assms(2)]
  have st0: "sv_store s = Some st" "audit_inv st"
    using authorizedFlow_frame [OF v] st id(2) by (auto simp: service_inv_def)
  note f = apply_flow_tag [OF ap' st0(2)]
  show "service_inv s'" using id(2) f(2) by (simp add: service_inv_def s')
  show "CHR ''%'' \<notin> set p" using prefix_no_percent [OF pre(2,3)] validateTag_prefix [OF t] pre(1) by simp
  show "ot_Tag tag = p @ TrimSpace (tq_Value q)" "ot_Owner tag = TrimSpace (tq_FlowID q)" "ot_ExpiresAt tag = tag_expiry now q"
    using pre id(1) by (simp_all add: tag)
  show "\<exists>st st'. sv_store s = Some st \<and> sv_store s' = Some st' \<and>
           au_flowTags st' = delete_tags (ot_Owner tag) p (au_flowTags st) @ [tag_row now tag]"
    using st0 f(1) pre(1) by (simp add: s' tagEvent_def) (simp add: tag)
qed

lemma UnsetFlowTag_stores:
  assumes "UnsetFlowTag db uuid now q i s = (Inr (), s')" and "service_inv s"
    and p: "p = tag_prefix (TrimSpace (tq_Namespace q)) (TrimSpace (tq_Key q))"
  shows "service_inv s' \<and> CHR ''%'' \<notin> set p \<and> (\<exists>st st'. sv_store s = Some st \<and> sv_store s' = Some st' \<and>
           au_flowTags st' = delete_tags (TrimSpace (tq_FlowID q)) p (au_flowTags st))"
proof -
  obtain v s1 ns key tv ex pre st where v: "authorizedFlow now (tq_FlowID q) i s = (Inr v, s1)"
    and t: "validateTag now (sv_options s1) q i False = Some (ns, key, tv, ex, pre)" and st: "sv_store s1 = Some st"
    and ap: "stored (RemoveFlowTag db uuid now (flowEntityFromContext v)
                 (tagEvent now v (formatTag ns key []) ''unset'' i None ns key []) pre st) () s1 = (Inr (), s')"
    using assms(1) by (auto simp: UnsetFlowTag_def split: prod.splits sum.splits option.splits)
  obtain st' where ap': "RemoveFlowTag db uuid now (flowEntityFromContext v)
                 (tagEvent now v (formatTag ns key []) ''unset'' i None ns key []) pre st = (None, st')"
    and s': "s' = s1\<lparr>sv_store := Some st'\<rparr>"
    using ap by (auto simp: stored_def split: prod.splits option.splits)
  have pre: "pre = p" "tagPart ns" "tagPart key" using validateTag_prefix [OF t] validateTag_value [OF t] p by auto
  note id = authorizedFlow_id [OF v assms(2)]
  have st0: "sv_store s = Some st" "audit_inv st"
    using authorizedFlow_frame [OF v] st id(2) by (auto simp: service_inv_def)
  have "audit_inv st'" using audit_inv_remove(1) [OF st0(2)] ap' by (metis snd_conv)
  then show ?thesis
    using id st0 remove_flow_tag [OF ap' st0(2)] prefix_no_percent [OF pre(2,3)] validateTag_prefix [OF t] pre(1)
    by (simp add: service_inv_def s' tagEvent_def)
qed

lemma ListFlowTags_reads:
  assumes "ListFlowTags db now fid i s = (Inr tags, s')" and "service_inv s" and "sv_store s = Some st"
  shows "tags = owned_tags now (TrimSpace fid) (au_flowTags st)"
  using assms authorizedFlow_id(1) [of now fid i s]
  by (auto simp: ListFlowTags_def QueryFlowTags_def dest!: authorizedFlow_frame
      split: prod.splits sum.splits option.splits if_splits)

lemma authorizedFlow_cong:
  "sv_registry s' = sv_registry s \<Longrightarrow> fst (authorizedFlow now fid i s') = fst (authorizedFlow now fid i s)"
  by (simp add: authorizedFlow_def service_lookup_def split: option.splits prod.splits)

lemma authorizedFlow_registry_cong:
  "sv_registry s' = sv_registry s \<Longrightarrow> sv_registry (snd (authorizedFlow now fid i s')) = sv_registry (snd (authorizedFlow now fid i s))"
  by (auto simp: authorizedFlow_def service_lookup_def split: option.splits prod.splits)

lemma entity_id [simp]: "fe_FlowID (flowEntityFromContext v) = cx_FlowID v"
  by (simp add: flowEntityFromContext_def)

text \<open>When the calls succeed: the Flow is the identity's, the tag is valid and the store takes the record.\<close>

lemma SetFlowTag_succeeds:
  assumes "fst (authorizedFlow now (tq_FlowID q) i s) = Inr v" and "TrimSpace (cx_FlowID v) \<noteq> []"
    and t: "validateTag now (sv_options s) q i True = Some (ns, key, tv, ex, p)" and "sv_store s = Some st"
    and "entity_row now (flowEntityFromContext v) \<noteq> None"
  shows "\<exists>tag s'. SetFlowTag True uuid now q i s = (Inr tag, s') \<and>
    sv_registry s' = sv_registry (snd (authorizedFlow now (tq_FlowID q) i s)) \<and> sv_options s' = sv_options s"
proof -
  obtain s1 where a: "authorizedFlow now (tq_FlowID q) i s = (Inr v, s1)" using assms(1) by (cases "authorizedFlow now (tq_FlowID q) i s") auto
  note f = authorizedFlow_frame [OF a] and p = validateTag_prefix [OF t]
  have "\<exists>st'. ApplyFlowTag True uuid now (flowEntityFromContext v) (tagEvent now v (formatTag ns key tv) ''set'' i ex ns key tv)
      (Some \<lparr>ot_Owner = cx_FlowID v, ot_Tag = formatTag ns key tv, ot_Source = ''flow-context'',
         ot_ExpiresAt = ex, ot_CreatedAt = now, ot_UpdatedAt = now\<rparr>) p st = (None, st')"
    using assms(2,5) p prefix_no_percent [of ns key] like_prefix_self [of p tv]
    by (intro apply_flow_tag_ok) (auto simp: tagEvent_def)
  then show ?thesis using f t assms(4) by (auto simp: SetFlowTag_def a Let_def stored_def)
qed

lemma UnsetFlowTag_succeeds:
  assumes "fst (authorizedFlow now (tq_FlowID q) i s) = Inr v" and "TrimSpace (cx_FlowID v) \<noteq> []"
    and t: "validateTag now (sv_options s) q i False = Some (ns, key, tv, ex, p)" and "sv_store s = Some st"
    and "entity_row now (flowEntityFromContext v) \<noteq> None"
  shows "\<exists>s'. UnsetFlowTag True uuid now q i s = (Inr (), s') \<and>
    sv_registry s' = sv_registry (snd (authorizedFlow now (tq_FlowID q) i s)) \<and> (\<exists>st'. sv_store s' = Some st')"
proof -
  obtain s1 where a: "authorizedFlow now (tq_FlowID q) i s = (Inr v, s1)" using assms(1) by (cases "authorizedFlow now (tq_FlowID q) i s") auto
  note f = authorizedFlow_frame [OF a] and p = validateTag_prefix [OF t]
  have "\<exists>st'. RemoveFlowTag True uuid now (flowEntityFromContext v) (tagEvent now v (formatTag ns key []) ''unset'' i None ns key []) p st = (None, st')"
    using assms(2,5) p by (intro remove_flow_tag_ok) (auto simp: tagEvent_def)
  then show ?thesis using f t assms(4) by (auto simp: UnsetFlowTag_def a stored_def)
qed

lemma ListFlowTags_succeeds:
  assumes "fst (authorizedFlow now fid i s) = Inr v" and "sv_store s = Some st"
  shows "\<exists>tags s'. ListFlowTags True now fid i s = (Inr tags, s')"
proof -
  obtain s1 where a: "authorizedFlow now fid i s = (Inr v, s1)" using assms(1) by (cases "authorizedFlow now fid i s") auto
  show ?thesis using authorizedFlow_frame [OF a] assms(2) by (auto simp: ListFlowTags_def a QueryFlowTags_def)
qed

text \<open>
  C10: a tag that was set is read back. The namespace and the key of the request form a prefix,
  and a tag falls under it when the SQL LIKE of the statement matches: an underscore stands for
  any character and letters match in either case, so that setting \<open>a_b:k\<close> replaces \<open>axb:k\<close> and
  \<open>A_B:k\<close> too. Listing the tags of the Flow after a \<open>SetFlowTag\<close> that succeeded gives, of the
  tags that LIKE matches, the tag that was set and no other, until it expires: every other tag
  that LIKE matches, of that namespace and key or not, is gone. The value is the trimmed value
  of the request and the expiry the requested number of seconds ahead, if any; and every tag
  that LIKE does not match is listed as it was before.
\<close>

theorem set_flow_tag_roundtrip:
  assumes "SetFlowTag db uuid now q i s = (Inr tag, s1)" and "ListFlowTags db' now' (tq_FlowID q) i s1 = (Inr tags, s2)"
    and "service_inv s" and p: "p = tag_prefix (TrimSpace (tq_Namespace q)) (TrimSpace (tq_Key q))"
  shows "ot_Tag tag = p @ TrimSpace (tq_Value q) \<and> ot_ExpiresAt tag = tag_expiry now q \<and>
         filter (\<lambda>t. like_prefix p (ot_Tag t)) tags =
           (if tag_live now' (tag_row now tag) then [tag_of_row (tag_row now tag)] else []) \<and>
         filter (\<lambda>t. \<not> like_prefix p (ot_Tag t)) tags =
           filter (\<lambda>t. \<not> like_prefix p (ot_Tag t))
             (owned_tags now' (TrimSpace (tq_FlowID q)) (au_flowTags (the (sv_store s))))"
proof -
  note st = SetFlowTag_stores [OF assms(1,3) p]
  obtain a b where ab: "sv_store s = Some a" "sv_store s1 = Some b"
      "au_flowTags b = delete_tags (ot_Owner tag) p (au_flowTags a) @ [tag_row now tag]"
    using st(6) by blast
  have tags: "tags = owned_tags now' (ot_Owner tag) (delete_tags (ot_Owner tag) p (au_flowTags a) @ [tag_row now tag])"
    using ListFlowTags_reads [OF assms(2) st(1) ab(2)] ab(3) st(4) by simp
  show ?thesis
    using replaced_tags [of p "tag_row now tag" "ot_Owner tag" now' "au_flowTags a"] st(2-5) ab(1) like_prefix_self
    by (simp add: tags tag_row_def)
qed


definition sample_tag_request :: "string \<Rightarrow> TagRequest" where
  "sample_tag_request ns = \<lparr>tq_FlowID = ''f'', tq_Namespace = ns, tq_Key = ''k'', tq_Value = ''v'', tq_TTLSeconds = 0\<rparr>"

definition sample_other :: Identity where
  "sample_other = sample_identity\<lparr>id_ID := ''b2'', id_Token := ''other'', id_Namespaces := [''axb'']\<rparr>"

lemma sample_flows:
  "fst (authorizedFlow 7 ''f'' sample_identity sample_service) = Inr sample_flow"
  "fst (authorizedFlow 8 ''f'' sample_identity (snd (authorizedFlow 7 ''f'' sample_identity sample_service))) = Inr sample_flow"
  "fst (authorizedFlow 7 ''f'' sample_other sample_service) = Inr sample_flow"
  "fst (authorizedFlow 8 ''f'' sample_identity (snd (authorizedFlow 7 ''f'' sample_other sample_service))) = Inr sample_flow"
  "fst (authorizedFlow 9 ''f'' sample_identity (snd (authorizedFlow 8 ''f'' sample_identity (snd (authorizedFlow 7 ''f'' sample_other sample_service))))) = Inr sample_flow"
  by code_simp+

lemma sample_recorded: "entity_row now (flowEntityFromContext sample_flow) \<noteq> None" and sample_named: "TrimSpace (cx_FlowID sample_flow) \<noteq> []"
proof -
  have "sql_uint (fe_Generation (flowEntityFromContext sample_flow)) = Some 0" "sql_uint (fe_BytesUp (flowEntityFromContext sample_flow)) = Some 0"
    "sql_uint (fe_BytesDown (flowEntityFromContext sample_flow)) = Some 0"
    by (simp_all add: sql_uint_def flowEntityFromContext_def sample_flow_def)
  then show "entity_row now (flowEntityFromContext sample_flow) \<noteq> None" by (simp add: entity_row_def Let_def)
  show "TrimSpace (cx_FlowID sample_flow) \<noteq> []" by code_simp
qed

lemma sample_service_inv: "service_inv sample_service"
proof -
  have "ctx_inv ((NewCtxRegistry DefaultOptions)\<lparr>fr_entries := [(''f'', \<lparr>en_context = sample_flow, en_hasTuple = False\<rparr>)]\<rparr>)"
    by (auto simp: ctx_inv_def mirror_def NewCtxRegistry_def normalized_def DefaultOptions_def Let_def sample_flow_def entry_key_def split: if_splits)
  moreover have "audit_inv empty_audit" by (simp add: audit_inv_def keys_ok_def refs_ok_def empty_audit_def)
  ultimately show ?thesis
    by (simp add: service_inv_def sample_service_def SetFlowController_def NewService_def Let_def NewCtxRegistry_def normalized_def DefaultOptions_def)
qed

lemma sample_validate:
  "validateTag 7 (sv_options sample_service) (sample_tag_request ''a_b'') sample_identity True =
     Some (''a_b'', ''k'', ''v'', None, tag_prefix ''a_b'' ''k'')"
  "validateTag 7 (sv_options sample_service) (sample_tag_request ''axb'') sample_other True =
     Some (''axb'', ''k'', ''v'', None, tag_prefix ''axb'' ''k'')"
  "validateTag 8 (sv_options sample_service) (sample_tag_request ''a_b'') sample_identity False =
     Some (''a_b'', ''k'', [], None, tag_prefix ''a_b'' ''k'')"
  by code_simp+

lemma sample_store: "sv_store sample_service = Some empty_audit"
  by (simp add: sample_service_def SetFlowController_def NewService_def Let_def)

lemma sample_tag_request_id [simp]: "tq_FlowID (sample_tag_request ns) = ''f''"
  by (simp add: sample_tag_request_def)

lemma sample_texts:
  "TrimSpace (tq_FlowID (sample_tag_request ns)) = ''f''"
  "tag_prefix (TrimSpace (tq_Namespace (sample_tag_request ''a_b''))) (TrimSpace (tq_Key (sample_tag_request ''a_b''))) = tag_prefix ''a_b'' ''k''"
  "tag_prefix (TrimSpace (tq_Namespace (sample_tag_request ''axb''))) (TrimSpace (tq_Key (sample_tag_request ''axb''))) @
     TrimSpace (tq_Value (sample_tag_request ''axb'')) = formatTag ''axb'' ''k'' ''v''"
  "TrimSpace ''f'' = ''f''"
  by code_simp+

theorem set_flow_tag_roundtrip_witness:
  "\<exists>s1 s2 tag t. SetFlowTag True ''u0'' 7 (sample_tag_request ''a_b'') sample_identity sample_service = (Inr tag, s1) \<and>
     ListFlowTags True 8 ''f'' sample_identity s1 = (Inr [t], s2) \<and> ot_Tag tag = ''a_b:k=v'' \<and> ot_Tag t = ''a_b:k=v''"
proof -
  obtain tag s1 where s1: "SetFlowTag True ''u0'' 7 (sample_tag_request ''a_b'') sample_identity sample_service = (Inr tag, s1)"
    and reg: "sv_registry s1 = sv_registry (snd (authorizedFlow 7 ''f'' sample_identity sample_service))"
    using SetFlowTag_succeeds [of 7 "sample_tag_request ''a_b''", OF _ sample_named sample_validate(1) sample_store sample_recorded]
      sample_flows(1) by fastforce
  obtain st where st: "sv_store s1 = Some st" using SetFlowTag_stores(6) [OF s1 sample_service_inv refl] by blast
  obtain tags s2 where s2: "ListFlowTags True 8 ''f'' sample_identity s1 = (Inr tags, s2)"
    using ListFlowTags_succeeds [of 8 "''f''" sample_identity s1, OF _ st] authorizedFlow_cong [OF reg] sample_flows(2) by fastforce
  define p where "p = tag_prefix (TrimSpace (tq_Namespace (sample_tag_request ''a_b''))) (TrimSpace (tq_Key (sample_tag_request ''a_b'')))"
  have texts: "p @ TrimSpace (tq_Value (sample_tag_request ''a_b'')) = ''a_b:k=v''"
    unfolding p_def by code_simp
  have r: "ot_Tag tag = p @ TrimSpace (tq_Value (sample_tag_request ''a_b''))"
     "filter (\<lambda>t. like_prefix p (ot_Tag t)) tags = (if tag_live 8 (tag_row 7 tag) then [tag_of_row (tag_row 7 tag)] else [])"
     "filter (\<lambda>t. \<not> like_prefix p (ot_Tag t)) tags = []"
    using set_flow_tag_roundtrip [OF s1 s2 [folded sample_tag_request_id [of "''a_b''"]] sample_service_inv refl]
    unfolding p_def by (simp_all add: sample_store empty_audit_def owned_tags_def stable_sort_def)
  have live: "tag_live 8 (tag_row 7 tag)"
    using set_flow_tag_roundtrip [OF s1 s2 [folded sample_tag_request_id [of "''a_b''"]] sample_service_inv refl]
    by (simp add: tag_live_def tag_row_def nullableTime_def tag_expiry_def sample_tag_request_def)
  have "filter (\<lambda>t. like_prefix p (ot_Tag t)) tags = tags" using r(3) by (simp add: filter_empty_conv)
  then have "tags = [tag_of_row (tag_row 7 tag)]" using r(2) live by simp
  with s2 have "ListFlowTags True 8 ''f'' sample_identity s1 = (Inr [tag_of_row (tag_row 7 tag)], s2)" by simp
  moreover have "ot_Tag (tag_of_row (tag_row 7 tag)) = ot_Tag tag" by (simp add: tag_of_row_def tag_row_def)
  ultimately show ?thesis using s1 r(1) texts by (metis (no_types, lifting))
qed


text \<open>
  What removing a tag removes. After an \<open>UnsetFlowTag\<close> that succeeded, the Flow has exactly
  the tags it had that do not match the prefix of the request by \<open>LIKE\<close>; an underscore of the
  prefix matches any character and letters match in both cases, so tags of namespaces that
  the identity does not have are removed with them.
\<close>

lemma unset_flow_tag_removes_like_matches:
  assumes "UnsetFlowTag db uuid now q i s = (Inr (), s1)" and "ListFlowTags db' now' (tq_FlowID q) i s1 = (Inr tags, s2)"
    and "service_inv s" and p: "p = tag_prefix (TrimSpace (tq_Namespace q)) (TrimSpace (tq_Key q))"
  shows "tags = filter (\<lambda>t. \<not> like_prefix p (ot_Tag t))
           (owned_tags now' (TrimSpace (tq_FlowID q)) (au_flowTags (the (sv_store s)))) \<and>
         like_prefix (tag_prefix ''a_b'' key) (formatTag ''axb'' key v) \<and>
         like_prefix (tag_prefix ''A'' key) (formatTag ''a'' key v)"
proof -
  obtain a b where ab: "service_inv s1" "sv_store s = Some a" "sv_store s1 = Some b" "CHR ''%'' \<notin> set p"
      "au_flowTags b = delete_tags (TrimSpace (tq_FlowID q)) p (au_flowTags a)"
    using UnsetFlowTag_stores [OF assms(1,3) p] by blast
  have like: "like_prefix (tag_prefix ns key) (formatTag ns' key v)"
    if "list_all2 like_char ns ns'" for ns ns'
    using that by (auto simp: like_prefix_def tag_prefix_def formatTag_def like_char_def list_all2_same
        list_all2_lengthD intro!: list_all2_appendI)
  have cases_same: "lower_char CHR ''A'' = lower_char CHR ''a''" by code_simp
  show ?thesis
    using ListFlowTags_reads [OF assms(2) ab(1,3)] ab(2,4,5) removed_tags like [of "''a_b''" "''axb''"] like [of "''A''" "''a''"] cases_same
    by (simp add: like_char_def)
qed

lemma unset_flow_tag_removes_like_matches_sample:
  "\<exists>s1 s2 s3 tag. SetFlowTag True ''u0'' 7 (sample_tag_request ''axb'') sample_other sample_service = (Inr tag, s1) \<and>
     UnsetFlowTag True ''u1'' 8 (sample_tag_request ''a_b'') sample_identity s1 = (Inr (), s2) \<and>
     ListFlowTags True 9 ''f'' sample_identity s2 = (Inr [], s3) \<and>
     owned_tags 9 ''f'' (au_flowTags (the (sv_store s1))) = [tag_of_row (tag_row 7 tag)]"
proof -
  obtain tag s1 where s1: "SetFlowTag True ''u0'' 7 (sample_tag_request ''axb'') sample_other sample_service = (Inr tag, s1)"
    and reg1: "sv_registry s1 = sv_registry (snd (authorizedFlow 7 ''f'' sample_other sample_service))"
    and op1: "sv_options s1 = sv_options sample_service"
    using SetFlowTag_succeeds [of 7 "sample_tag_request ''axb''", OF _ sample_named sample_validate(2) sample_store sample_recorded]
      sample_flows(3) by fastforce
  note t1 = SetFlowTag_stores [OF s1 sample_service_inv refl]
  obtain st where st: "sv_store s1 = Some st" "au_flowTags st = [tag_row 7 tag]"
    using t1(6) by (auto simp: sample_store empty_audit_def delete_tags_def)
  have cong: "fst (authorizedFlow now ''f'' i s1) = fst (authorizedFlow now ''f'' i (snd (authorizedFlow 7 ''f'' sample_other sample_service)))" for now i
    by (rule authorizedFlow_cong [OF reg1])
  have "\<exists>s2. UnsetFlowTag True ''u1'' 8 (sample_tag_request ''a_b'') sample_identity s1 = (Inr (), s2) \<and>
      sv_registry s2 = sv_registry (snd (authorizedFlow 8 (tq_FlowID (sample_tag_request ''a_b'')) sample_identity s1)) \<and>
      (\<exists>st'. sv_store s2 = Some st')"
    by (rule UnsetFlowTag_succeeds [OF _ sample_named _ st(1) sample_recorded])
      (simp_all add: cong sample_flows(4) op1 sample_validate(3))
  then obtain s2 st' where s2: "UnsetFlowTag True ''u1'' 8 (sample_tag_request ''a_b'') sample_identity s1 = (Inr (), s2)"
      "sv_store s2 = Some st'" "sv_registry s2 = sv_registry (snd (authorizedFlow 8 ''f'' sample_identity s1))"
    by auto
  have reg2: "sv_registry s2 = sv_registry (snd (authorizedFlow 8 ''f'' sample_identity (snd (authorizedFlow 7 ''f'' sample_other sample_service))))"
    unfolding s2(3) by (rule authorizedFlow_registry_cong [OF reg1])
  obtain tags s3 where s3: "ListFlowTags True 9 ''f'' sample_identity s2 = (Inr tags, s3)"
    using ListFlowTags_succeeds [OF _ s2(2)] authorizedFlow_cong [OF reg2] sample_flows(5) by metis
  have live: "tag_live 9 (tag_row 7 tag)" and own: "tg_Owner (tag_row 7 tag) = ''f''" and named: "ot_Tag tag = formatTag ''axb'' ''k'' ''v''"
    using t1(3-5) sample_texts by (simp_all add: tag_live_def tag_row_def nullableTime_def tag_expiry_def sample_tag_request_def)
  have before: "owned_tags 9 ''f'' (au_flowTags st) = [tag_of_row (tag_row 7 tag)]"
    using live own by (simp add: owned_tags_def st(2) stable_sort_def)
  have "tags = []"
    using unset_flow_tag_removes_like_matches [OF s2(1) s3 [folded sample_tag_request_id [of "''a_b''"]] t1(1) refl, of "''k''" "''v''"]
      before st(1) sample_texts named by (simp add: tag_of_row_def tag_row_def)
  then show ?thesis using s1 s2(1) s3 before st(1) by auto
qed

section \<open>Failing requests\<close>

text \<open>A call that reports an error leaves the audit store as it was.\<close>

lemma store_calls_atomic:
  "fst (ApplyFlowTag db uuid now e ev t p st) \<noteq> None \<Longrightarrow> snd (ApplyFlowTag db uuid now e ev t p st) = st"
  "fst (ApplyClientTag db uuid now e ev t p st) \<noteq> None \<Longrightarrow> snd (ApplyClientTag db uuid now e ev t p st) = st"
  "fst (RemoveFlowTag db uuid now e ev p st) \<noteq> None \<Longrightarrow> snd (RemoveFlowTag db uuid now e ev p st) = st"
  "fst (RemoveClientTag db uuid now e ev ip p st) \<noteq> None \<Longrightarrow> snd (RemoveClientTag db uuid now e ev ip p st) = st"
  by (auto simp: ApplyFlowTag_def ApplyClientTag_def RemoveFlowTag_def RemoveClientTag_def commit_def split: if_splits sum.splits)

lemma stored_failed: "fst (stored r v s) = Inl e \<Longrightarrow> fst r \<noteq> None"
  by (cases r) (auto simp: stored_def split: option.splits)

lemma tag_calls_keep_store:
  "fst (SetFlowTag db uuid now q i s) = Inl e \<Longrightarrow> sv_store (snd (SetFlowTag db uuid now q i s)) = sv_store s"
  "fst (UnsetFlowTag db uuid now q i s) = Inl e \<Longrightarrow> sv_store (snd (UnsetFlowTag db uuid now q i s)) = sv_store s"
  "fst (SetClientTag db uuid now q i s) = Inl e \<Longrightarrow> sv_store (snd (SetClientTag db uuid now q i s)) = sv_store s"
  "fst (UnsetClientTag db uuid now q i s) = Inl e \<Longrightarrow> sv_store (snd (UnsetClientTag db uuid now q i s)) = sv_store s"
  "sv_store (snd (ListFlowTags db now fid i s)) = sv_store s"
proof -
  obtain a s1 where a: "authorizedFlow now (tq_FlowID q) i s = (a, s1)" by fastforce
  have f: "sv_store s1 = sv_store s" using authorizedFlow_frame [OF a] by auto
  show "fst (SetFlowTag db uuid now q i s) = Inl e \<Longrightarrow> sv_store (snd (SetFlowTag db uuid now q i s)) = sv_store s"
    unfolding SetFlowTag_def a using f by (auto simp: Let_def store_calls_atomic dest!: stored_failed split: sum.splits option.splits)
  show "fst (UnsetFlowTag db uuid now q i s) = Inl e \<Longrightarrow> sv_store (snd (UnsetFlowTag db uuid now q i s)) = sv_store s"
    unfolding UnsetFlowTag_def a using f by (auto simp: Let_def store_calls_atomic dest!: stored_failed split: sum.splits option.splits)
  show "fst (SetClientTag db uuid now q i s) = Inl e \<Longrightarrow> sv_store (snd (SetClientTag db uuid now q i s)) = sv_store s"
    unfolding SetClientTag_def a using f by (auto simp: Let_def store_calls_atomic dest!: stored_failed split: sum.splits option.splits)
  show "fst (UnsetClientTag db uuid now q i s) = Inl e \<Longrightarrow> sv_store (snd (UnsetClientTag db uuid now q i s)) = sv_store s"
    unfolding UnsetClientTag_def a using f by (auto simp: Let_def store_calls_atomic dest!: stored_failed split: sum.splits option.splits)
  obtain b s2 where b: "authorizedFlow now fid i s = (b, s2)" by fastforce
  show "sv_store (snd (ListFlowTags db now fid i s)) = sv_store s"
    unfolding ListFlowTags_def b using authorizedFlow_frame [OF b] by (auto split: sum.splits option.splits)
qed

lemma control_call_store [simp]: "sv_store (snd (control_call f res s)) = sv_store s"
  by (simp add: control_call_def split: prod.splits)

lemma control_ops_store [simp]:
  "sv_store (snd (SetFlowLimit now q i s)) = sv_store s"
  "sv_store (snd (ClearFlowLimit now fid i s)) = sv_store s"
  "sv_store (snd (BlockFlow now q' i s)) = sv_store s"
  by (auto simp: SetFlowLimit_def ClearFlowLimit_def BlockFlow_def dest!: controlTarget_frame split: prod.splits sum.splits)

definition keeps_store :: "'w Service \<Rightarrow> (flow_error + rpc_result) option \<times> 'w Service \<Rightarrow> bool" where
  "keeps_store s p \<longleftrightarrow> (\<exists>v. fst p = Some (Inr v)) \<or> sv_store (snd p) = sv_store s"

lemma keeps_store_simps [simp]:
  "keeps_store s (x, s)"
  "(\<And>e. fst p = Inl e \<Longrightarrow> sv_store (snd p) = sv_store s) \<Longrightarrow> keeps_store s (map_result f p)"
  by (cases "fst p"; simp add: keeps_store_def)+

lemma keeps_store_resolve [simp]:
  "keeps_store s (case ResolveFlow now es q i s of (None, s') \<Rightarrow> (None, s')
     | (Some r, s') \<Rightarrow> (Some (map_sum id (FlowResult \<circ> newFlowResponse) r), s'))"
proof -
  obtain r s' where r: "ResolveFlow now es q i s = (r, s')" by fastforce
  show ?thesis using ResolveFlow_facts [OF r] by (cases r) (simp_all add: r keeps_store_def)
qed

lemma dispatch_keeps_store: "keeps_store s (dispatch js env method raw i s)"
proof -
  have opt: "keeps_store s (case d of None \<Rightarrow> (x, s) | Some q \<Rightarrow> f q)" if "\<And>q. keeps_store s (f q)" for d x f
    by (cases d) (simp_all add: that)
  show ?thesis
    unfolding dispatch_def Let_def
    by (simp only: opt keeps_store_resolve tag_calls_keep_store control_ops_store keeps_store_simps if_True if_False split: if_split) simp
qed

text \<open>
  What a request that fails does. When the reply is not a success, or there is none, the
  audit store is what it was before the request, whichever call was made and wherever it
  failed; and the status of the reply tells the client's mistakes (4xx) from the server's
  (500, 503).
\<close>

lemma failed_request_keeps_store:
  assumes "HandleRPC other js env r s = (resp, s')" and "\<And>res. resp \<noteq> Some (HttpOK res)"
  shows "sv_store s' = sv_store s \<and>
         (\<forall>status msg. resp = Some (HttpError status msg) \<longrightarrow> status \<in> {400, 401, 403, 404, 405, 409, 413, 429, 500, 503})"
proof -
  obtain x s1 where x: "admit_request (ce_now env) r s = (x, s1)" by fastforce
  have status: "flowErrorStatus e \<in> {400, 401, 403, 404, 405, 409, 413, 429, 500, 503}" for e
    by (simp add: flowErrorStatus_def split: flow_error.splits ctx_error.splits)
  have ad: "status \<in> {401, 405, 429}" if "x = Inl (HttpError status msg)" for status msg
    using x that by (auto simp: admit_request_def Let_def split: option.splits prod.splits if_splits)
  note f = admit_frame [OF x]
  show ?thesis
  proof (cases "\<exists>i mp. x = Inr i \<and> decodeBody (ho_MaxBodyBytes (sv_options s1)) r = Inr mp")
    case False
    then show ?thesis using assms f ad status by (auto simp: HandleRPC_def x split: sum.splits)
  next
    case True
    then obtain i name ps where i: "x = Inr i" "decodeBody (ho_MaxBodyBytes (sv_options s1)) r = Inr (name, ps)" by auto
    obtain d s2 where d: "dispatch js env (TrimSpace name) ps i s1 = (d, s2)" by fastforce
    have r: "s' = s2" "resp = map_option (respond other) d"
      using assms(1) by (auto simp: HandleRPC_def x i d split: option.splits)
    have "fst (d, s2) \<noteq> Some (Inr v)" for v using assms(2) [of v] by (auto simp: r respond_def)
    then have "sv_store s2 = sv_store s1" using dispatch_keeps_store [of s1 js env "TrimSpace name" ps i] by (auto simp: d keeps_store_def)
    moreover have "status \<in> {400, 401, 403, 404, 405, 409, 413, 429, 500, 503}" if h: "resp = Some (HttpError status msg)" for status msg
    proof -
      obtain z where z: "respond other z = HttpError status msg" using h by (auto simp: r)
      then obtain e where "status = flowErrorStatus e" by (cases z) (auto simp: respond_def)
      then show ?thesis using status by simp
    qed
    ultimately show ?thesis using f by (simp add: r(1))
  qed
qed

lemma failed_request_keeps_store_sample:
  "sv_store (snd (HandleRPC (\<lambda>_. []) sample_decoders sample_env (sample_request ''Bearer secret'' ''SetFlowTag'') sample_service)) =
   sv_store sample_service"
proof -
  obtain resp s' where h: "HandleRPC (\<lambda>_. []) sample_decoders sample_env (sample_request ''Bearer secret'' ''SetFlowTag'') sample_service = (resp, s')"
    by fastforce
  have "fst (HandleRPC (\<lambda>_. []) sample_decoders sample_env (sample_request ''Bearer secret'' ''SetFlowTag'') sample_service) =
    Some (HttpError 400 ''invalid params'')" by code_simp
  with h have e: "resp = Some (HttpError 400 ''invalid params'')" by simp
  show ?thesis using failed_request_keeps_store [OF h] by (simp add: h e)
qed

end
