(* ===== verification/AuditPipeline.thy ===== *)
theory AuditPipeline
  imports Flow Forwarding AuditStore
begin

text \<open>
  The audit pipeline (\<open>internal/audit/pipeline.go\<close>) and the audit counters of
  \<open>internal/metrics/metrics.go\<close>. The pipeline observes the Flows: what it is told becomes
  records that pass two bounded queues, the first before the GeoIP worker, the second before
  the worker that writes batches to the store. Nothing waits on the forwarding path: a record
  that finds a queue full is dropped and counted. The workers and the callers run
  concurrently; each of their critical sections is one step here, and a run is any sequence of
  steps. The GeoIP provider, an interface, is the argument \<open>geo\<close>: the system number, the
  organisation and the country of an address text. A write reads the clock and four outcomes of
  the database, one per table it writes (\<open>flush_env\<close>).
\<close>

section \<open>Data\<close>

record pipelineItem =
  pi_entity :: "FlowEntity option"
  pi_flow :: "FlowRecord option"
  pi_checkpoint :: "FlowCheckpoint option"
  pi_rejection :: "RejectionRow option"

definition empty_item :: pipelineItem where
  "empty_item = \<lparr>pi_entity = None, pi_flow = None, pi_checkpoint = None, pi_rejection = None\<rparr>"

definition present :: "'a option \<Rightarrow> nat" where
  "present x = (if x = None then 0 else 1)"

definition recordCount :: "pipelineItem \<Rightarrow> uint64" where
  "recordCount i = of_nat (present (pi_entity i) + present (pi_flow i) + present (pi_checkpoint i) + present (pi_rejection i))"

record activeFlow =
  af_meta :: Meta
  af_lastCounters :: Counters
  af_lastCheckpoint :: time

record auditCounters =
  ac_received :: uint64
  ac_written :: uint64
  ac_dropped :: uint64

datatype worker = NotStarted | Running | Done

text \<open>The four last fields are the batches the write worker keeps.\<close>

record Pipeline =
  pl_geoCh :: "pipelineItem list"
  pl_geoCap :: int
  pl_writeCh :: "pipelineItem list"
  pl_writeCap :: int
  pl_store :: "AuditStore option"
  pl_metrics :: "auditCounters option"
  pl_batchSize :: int
  pl_flushInterval :: duration
  pl_logRejections :: bool
  pl_active :: "(string, activeFlow) gomap"
  pl_closed :: bool
  pl_startOnce :: bool
  pl_geoWorker :: worker
  pl_writeWorker :: worker
  pl_recent :: "(string, time) gomap"
  pl_lastSweep :: time
  pl_entities :: "FlowEntity list"
  pl_flows :: "FlowRecord list"
  pl_checkpoints :: "FlowCheckpoint list"
  pl_rejections :: "RejectionRow list"

record IPLogConfig =
  il_Enabled :: bool
  il_LogRejections :: "bool option"
  il_GeoQueueSize :: int
  il_WriteQueueSize :: int
  il_BatchSize :: int
  il_FlushInterval :: duration

definition rejectionDedupeTTL :: duration where "rejectionDedupeTTL = minute"
definition rejectionDedupeCleanupInterval :: duration where "rejectionDedupeCleanupInterval = minute"
definition rejectionDedupeMaxEntries :: int where "rejectionDedupeMaxEntries = 4096"

definition BoolValue :: "bool option \<Rightarrow> bool \<Rightarrow> bool" where
  "BoolValue ptr fallback = (case ptr of None \<Rightarrow> fallback | Some b \<Rightarrow> b)"

definition positive_or :: "int \<Rightarrow> int \<Rightarrow> int" where
  "positive_or fallback v = (if v \<le> 0 then fallback else v)"

definition NewPipeline :: "IPLogConfig \<Rightarrow> AuditStore option \<Rightarrow> auditCounters option \<Rightarrow> Pipeline" where
  "NewPipeline cfg store metricSet =
     \<lparr>pl_geoCh = [], pl_geoCap = positive_or 256 (il_GeoQueueSize cfg), pl_writeCh = [],
      pl_writeCap = positive_or 256 (il_WriteQueueSize cfg), pl_store = store, pl_metrics = metricSet,
      pl_batchSize = positive_or 100 (il_BatchSize cfg), pl_flushInterval = positive_or (5 * second) (il_FlushInterval cfg),
      pl_logRejections = BoolValue (il_LogRejections cfg) (il_Enabled cfg), pl_active = [], pl_closed = False,
      pl_startOnce = False, pl_geoWorker = NotStarted, pl_writeWorker = NotStarted, pl_recent = [], pl_lastSweep = zero_time,
      pl_entities = [], pl_flows = [], pl_checkpoints = [], pl_rejections = []\<rparr>"

section \<open>The counters\<close>

definition AddAuditReceived :: "uint64 \<Rightarrow> auditCounters option \<Rightarrow> auditCounters option" where
  "AddAuditReceived n = map_option (\<lambda>m. if n = 0 then m else m\<lparr>ac_received := ac_received m + n\<rparr>)"

definition AddAuditDropped :: "uint64 \<Rightarrow> auditCounters option \<Rightarrow> auditCounters option" where
  "AddAuditDropped n = map_option (\<lambda>m. if n = 0 then m else m\<lparr>ac_dropped := ac_dropped m + n\<rparr>)"

definition AddAuditWritten :: "uint64 \<Rightarrow> auditCounters option \<Rightarrow> auditCounters option" where
  "AddAuditWritten n = map_option (\<lambda>m. if n = 0 then m else m\<lparr>ac_written := ac_written m + n\<rparr>)"

definition count_received :: "uint64 \<Rightarrow> Pipeline \<Rightarrow> Pipeline" where
  "count_received n p = p\<lparr>pl_metrics := AddAuditReceived n (pl_metrics p)\<rparr>"

definition count_dropped :: "uint64 \<Rightarrow> Pipeline \<Rightarrow> Pipeline" where
  "count_dropped n p = p\<lparr>pl_metrics := AddAuditDropped n (pl_metrics p)\<rparr>"

definition count_written :: "uint64 \<Rightarrow> Pipeline \<Rightarrow> Pipeline" where
  "count_written n p = p\<lparr>pl_metrics := AddAuditWritten n (pl_metrics p)\<rparr>"

section \<open>Callers\<close>

definition pipeline_Start :: "Pipeline \<Rightarrow> Pipeline" where
  "pipeline_Start p =
     (if pl_startOnce p then p
      else if pl_closed p then p\<lparr>pl_startOnce := True\<rparr>
      else p\<lparr>pl_startOnce := True, pl_geoWorker := Running, pl_writeWorker := Running\<rparr>)"

definition enqueue :: "pipelineItem \<Rightarrow> Pipeline \<Rightarrow> Pipeline" where
  "enqueue item p =
     (let p1 = count_received (recordCount item) p
      in if \<not> pl_closed p1 \<and> int (length (pl_geoCh p1)) < pl_geoCap p1 then p1\<lparr>pl_geoCh := pl_geoCh p1 @ [item]\<rparr>
         else count_dropped (recordCount item) p1)"

definition pipeline_Open :: "Meta \<Rightarrow> Pipeline \<Rightarrow> Pipeline" where
  "pipeline_Open m p =
     enqueue (empty_item\<lparr>pi_entity := Some
       \<lparr>fe_FlowID = meta_ID m, fe_Protocol = meta_Protocol m, fe_ClientIP = addr_text (ap_addr (meta_ClientAddr m)),
        fe_ClientPort = int (ap_port (meta_ClientAddr m)), fe_Listener = meta_Listener m, fe_Route = meta_Route m,
        fe_Upstream = meta_Upstream m, fe_BackendKey = [], fe_BackendProtocol = [], fe_BackendLocal = [], fe_BackendRemote = [],
        fe_CreatedAt = meta_StartedAt m, fe_EndedAt = None, fe_ResolveUntil = None, fe_State = ''active'', fe_Generation = 0,
        fe_LastActivity = meta_StartedAt m, fe_BytesUp = 0, fe_BytesDown = 0\<rparr>\<rparr>)
     (p\<lparr>pl_active := gput (meta_ID m) \<lparr>af_meta = m, af_lastCounters = zero_counters, af_lastCheckpoint = zero_time\<rparr> (pl_active p)\<rparr>)"

definition PublishEntity :: "FlowEntity \<Rightarrow> Pipeline \<Rightarrow> Pipeline" where
  "PublishEntity e p = enqueue (empty_item\<lparr>pi_entity := Some e\<rparr>) p"

definition pipeline_Update :: "time \<Rightarrow> string \<Rightarrow> Counters \<Rightarrow> Pipeline \<Rightarrow> Pipeline" where
  "pipeline_Update clock fid c p =
     (let now = defaultTime clock (ctr_LastActivity c)
      in case gget (pl_active p) fid of
           None \<Rightarrow> p
         | Some current \<Rightarrow>
             if pl_closed p then p
             else
               let current1 = current\<lparr>af_lastCounters := c\<rparr>
               in if is_zero_time (af_lastCheckpoint current1) \<or> time_sub now (af_lastCheckpoint current1) \<ge> pl_flushInterval p
                  then enqueue (empty_item\<lparr>pi_checkpoint := Some
                         \<lparr>cp_FlowID = fid, cp_RecordedAt = now, cp_LastActivity = ctr_LastActivity c, cp_BytesUp = ctr_BytesUp c,
                          cp_BytesDown = ctr_BytesDown c, cp_SegmentsUp = ctr_SegmentsUp c, cp_SegmentsDown = ctr_SegmentsDown c\<rparr>\<rparr>)
                       (p\<lparr>pl_active := gput fid (current1\<lparr>af_lastCheckpoint := now\<rparr>) (pl_active p)\<rparr>)
                  else p\<lparr>pl_active := gput fid current1 (pl_active p)\<rparr>)"

text \<open>A missing entry of a Go map reads as the zero value of its type.\<close>

definition zero_active :: activeFlow where
  "zero_active = \<lparr>af_meta = \<lparr>meta_ID = [], meta_Protocol = [], meta_ClientAddr = \<lparr>ap_addr = InvalidAddr, ap_port = 0\<rparr>,
     meta_Listener = [], meta_Route = [], meta_Upstream = [], meta_StartedAt = zero_time\<rparr>,
     af_lastCounters = zero_counters, af_lastCheckpoint = zero_time\<rparr>"

definition closed_item :: "time \<Rightarrow> activeFlow \<Rightarrow> Summary \<Rightarrow> pipelineItem" where
  "closed_item clock current s =
     (let m = sum_Meta s;
          ended = defaultTime clock (sum_EndedAt s);
          started = (if is_zero_time (meta_StartedAt m) then meta_StartedAt (af_meta current) else meta_StartedAt m);
          last0 = (if is_zero_time (sum_LastActivity s) then ctr_LastActivity (af_lastCounters current) else sum_LastActivity s);
          last1 = (if is_zero_time last0 then started else last0);
          ip = addr_text (ap_addr (meta_ClientAddr m)); port = int (ap_port (meta_ClientAddr m))
      in \<lparr>pi_entity = Some
            \<lparr>fe_FlowID = meta_ID m, fe_Protocol = meta_Protocol m, fe_ClientIP = ip, fe_ClientPort = port,
             fe_Listener = meta_Listener m, fe_Route = meta_Route m, fe_Upstream = meta_Upstream m, fe_BackendKey = [],
             fe_BackendProtocol = [], fe_BackendLocal = [], fe_BackendRemote = [], fe_CreatedAt = started, fe_EndedAt = Some ended,
             fe_ResolveUntil = None, fe_State = ''closed'', fe_Generation = 0, fe_LastActivity = last1,
             fe_BytesUp = sum_BytesUp s, fe_BytesDown = sum_BytesDown s\<rparr>,
          pi_flow = Some
            \<lparr>rc_FlowID = meta_ID m, rc_Protocol = meta_Protocol m, rc_ClientIP = ip, rc_ClientPort = port,
             rc_Listener = meta_Listener m, rc_Route = meta_Route m, rc_Upstream = meta_Upstream m, rc_StartedAt = started,
             rc_EndedAt = ended, rc_LastActivity = last1, rc_BytesUp = sum_BytesUp s, rc_BytesDown = sum_BytesDown s,
             rc_CloseReason = sum_CloseReason s, rc_Fingerprint = [], rc_PolicyVersion = [], rc_RuleID = [],
             rc_ASN = 0, rc_ASOrg = [], rc_Country = []\<rparr>,
          pi_checkpoint = Some
            \<lparr>cp_FlowID = meta_ID m, cp_RecordedAt = ended, cp_LastActivity = last1, cp_BytesUp = sum_BytesUp s,
             cp_BytesDown = sum_BytesDown s, cp_SegmentsUp = ctr_SegmentsUp (af_lastCounters current),
             cp_SegmentsDown = ctr_SegmentsDown (af_lastCounters current)\<rparr>,
          pi_rejection = None\<rparr>)"

definition pipeline_Close :: "time \<Rightarrow> Summary \<Rightarrow> Pipeline \<Rightarrow> Pipeline" where
  "pipeline_Close clock s p =
     enqueue (closed_item clock (gget_default zero_active (pl_active p) (meta_ID (sum_Meta s))) s)
       (p\<lparr>pl_active := gdel (meta_ID (sum_Meta s)) (pl_active p)\<rparr>)"

definition listenerPort :: "string \<Rightarrow> int" where
  "listenerPort listener =
     (case SplitHostPort listener of
        None \<Rightarrow> 0
      | Some (_, port) \<Rightarrow> (case Atoi port of None \<Rightarrow> 0 | Some v \<Rightarrow> v))"

definition allowRejection :: "string \<Rightarrow> time \<Rightarrow> Pipeline \<Rightarrow> bool \<times> Pipeline" where
  "allowRejection key now p =
     (let p1 = (if is_zero_time (pl_lastSweep p) \<or> time_sub now (pl_lastSweep p) \<ge> rejectionDedupeCleanupInterval
                then p\<lparr>pl_recent := filter (\<lambda>(k, seenAt). \<not> time_sub now seenAt \<ge> rejectionDedupeTTL) (pl_recent p), pl_lastSweep := now\<rparr>
                else p);
          seen = (case gget (pl_recent p1) key of None \<Rightarrow> False | Some seenAt \<Rightarrow> time_sub now seenAt < rejectionDedupeTTL)
      in if seen then (False, p1)
         else if int (length (pl_recent p1)) \<ge> rejectionDedupeMaxEntries then (False, p1)
         else (True, p1\<lparr>pl_recent := gput key now (pl_recent p1)\<rparr>))"

definition rejection_event :: "string \<Rightarrow> time \<Rightarrow> Rejection \<Rightarrow> RejectionRow" where
  "rejection_event uuid clock r =
     \<lparr>rr_EventID = uuid, rr_Protocol = rej_Protocol r, rr_ClientIP = addr_text (ap_addr (rej_ClientAddr r)),
      rr_ClientPort = int (ap_port (rej_ClientAddr r)), rr_Listener = rej_Listener r, rr_Port = listenerPort (rej_Listener r),
      rr_Reason = rej_Reason r, rr_MatchedRuleType = rej_MatchedRuleType r, rr_MatchedRuleValue = rej_MatchedRuleValue r,
      rr_PolicyVersion = [], rr_RuleID = [], rr_RecordedAt = defaultTime clock (rej_RecordedAt r),
      rr_ASN = 0, rr_ASOrg = [], rr_Country = []\<rparr>"

definition rejection_key :: "RejectionRow \<Rightarrow> string" where
  "rejection_key e = rr_ClientIP e @ ''|'' @ rr_Protocol e @ ''|'' @ rr_Reason e @ ''|'' @ rr_MatchedRuleType e @ ''|'' @ rr_MatchedRuleValue e"

definition pipeline_Reject :: "string \<Rightarrow> time \<Rightarrow> Rejection \<Rightarrow> Pipeline \<Rightarrow> Pipeline" where
  "pipeline_Reject uuid clock r p =
     (if \<not> pl_logRejections p then p
      else let e = rejection_event uuid clock r
           in case allowRejection (rejection_key e) (rr_RecordedAt e) p of
                (False, p1) \<Rightarrow> p1
              | (True, p1) \<Rightarrow> enqueue (empty_item\<lparr>pi_rejection := Some e\<rparr>) p1)"

text \<open>\<open>Shutdown\<close> then waits for the workers, or for the end of its context.\<close>

definition pipeline_Shutdown :: "Pipeline \<Rightarrow> Pipeline" where
  "pipeline_Shutdown p = p\<lparr>pl_closed := True\<rparr>"

definition workers_done :: "Pipeline \<Rightarrow> bool" where
  "workers_done p \<longleftrightarrow> pl_geoWorker p \<noteq> Running \<and> pl_writeWorker p \<noteq> Running"

section \<open>Workers\<close>

type_synonym enricher = "(string \<Rightarrow> int \<times> string \<times> string) option"

definition enrich_item :: "enricher \<Rightarrow> pipelineItem \<Rightarrow> pipelineItem" where
  "enrich_item geo i =
     (case geo of
        None \<Rightarrow> i
      | Some look \<Rightarrow>
          i\<lparr>pi_flow := map_option (\<lambda>f. case look (rc_ClientIP f) of (asn, org, country) \<Rightarrow>
               f\<lparr>rc_ASN := asn, rc_ASOrg := org, rc_Country := country\<rparr>) (pi_flow i),
            pi_rejection := map_option (\<lambda>r. case look (rr_ClientIP r) of (asn, org, country) \<Rightarrow>
               r\<lparr>rr_ASN := asn, rr_ASOrg := org, rr_Country := country\<rparr>) (pi_rejection i)\<rparr>)"

text \<open>
  One round of the GeoIP worker. It waits while its queue is empty and open; when the queue is
  closed and empty it ends and closes the second queue, so that queue is closed exactly when
  the worker is done.
\<close>

definition geo_round :: "enricher \<Rightarrow> Pipeline \<Rightarrow> Pipeline" where
  "geo_round geo p =
     (if pl_geoWorker p \<noteq> Running then p
      else case pl_geoCh p of
             [] \<Rightarrow> (if pl_closed p then p\<lparr>pl_geoWorker := Done\<rparr> else p)
           | i # rest \<Rightarrow>
               let p1 = p\<lparr>pl_geoCh := rest\<rparr>; item = enrich_item geo i
               in if int (length (pl_writeCh p1)) < pl_writeCap p1 then p1\<lparr>pl_writeCh := pl_writeCh p1 @ [item]\<rparr>
                  else count_dropped (recordCount item) p1)"

record flush_env =
  fv_now :: time
  fv_uuid :: "nat \<Rightarrow> string"
  fv_entities :: bool
  fv_flows :: bool
  fv_checkpoints :: bool
  fv_rejections :: bool

definition with_uuids :: "(nat \<Rightarrow> string) \<Rightarrow> 'a list \<Rightarrow> ('a \<times> string) list" where
  "with_uuids u xs = zip xs (map u [0..<length xs])"

definition recordResult :: "nat \<Rightarrow> audit_error option \<Rightarrow> Pipeline \<Rightarrow> Pipeline" where
  "recordResult n err p =
     (if n = 0 then p
      else case err of Some _ \<Rightarrow> count_dropped (of_nat n) p | None \<Rightarrow> count_written (of_nat n) p)"

definition pending :: "Pipeline \<Rightarrow> nat" where
  "pending p = length (pl_entities p) + length (pl_flows p) + length (pl_checkpoints p) + length (pl_rejections p)"

text \<open>One of the four writes of \<open>flush\<close>: the records, and the call of the store that writes them.\<close>

definition flush_table :: "nat \<Rightarrow> (AuditStore \<Rightarrow> audit_error option \<times> AuditStore) \<Rightarrow> Pipeline \<Rightarrow> Pipeline" where
  "flush_table n f p =
     (case pl_store p of
        None \<Rightarrow> p
      | Some st \<Rightarrow> if n > 0 then (case f st of (err, st') \<Rightarrow> recordResult n err (p\<lparr>pl_store := Some st'\<rparr>)) else p)"

definition flush :: "flush_env \<Rightarrow> Pipeline \<Rightarrow> Pipeline" where
  "flush v p =
     (if pl_store p = None
      then (count_dropped (of_nat (pending p)) p)\<lparr>pl_entities := [], pl_flows := [], pl_checkpoints := [], pl_rejections := []\<rparr>
      else
        let p1 = (flush_table (length (pl_entities p)) (InsertFlowEntities (fv_entities v) (fv_now v) (pl_entities p)) p)\<lparr>pl_entities := []\<rparr>;
            p2 = (flush_table (length (pl_flows p1)) (InsertFlows (fv_flows v) (fv_now v) (with_uuids (fv_uuid v) (pl_flows p1))) p1)\<lparr>pl_flows := []\<rparr>;
            p3 = (flush_table (length (pl_checkpoints p2)) (InsertCheckpoints (fv_checkpoints v) (fv_now v) (pl_checkpoints p2)) p2)\<lparr>pl_checkpoints := []\<rparr>
        in (flush_table (length (pl_rejections p3)) (InsertRejections (fv_rejections v) (fv_now v) (with_uuids (fv_uuid v) (pl_rejections p3))) p3)\<lparr>pl_rejections := []\<rparr>)"

definition option_list :: "'a option \<Rightarrow> 'a list" where
  "option_list x = (case x of None \<Rightarrow> [] | Some v \<Rightarrow> [v])"

definition batch_item :: "pipelineItem \<Rightarrow> Pipeline \<Rightarrow> Pipeline" where
  "batch_item i p =
     p\<lparr>pl_entities := pl_entities p @ option_list (pi_entity i), pl_flows := pl_flows p @ option_list (pi_flow i),
       pl_checkpoints := pl_checkpoints p @ option_list (pi_checkpoint i), pl_rejections := pl_rejections p @ option_list (pi_rejection i)\<rparr>"

definition write_round :: "flush_env \<Rightarrow> Pipeline \<Rightarrow> Pipeline" where
  "write_round v p =
     (if pl_writeWorker p \<noteq> Running then p
      else case pl_writeCh p of
             [] \<Rightarrow> (if pl_geoWorker p = Done then (flush v p)\<lparr>pl_writeWorker := Done\<rparr> else p)
           | i # rest \<Rightarrow>
               let p1 = batch_item i (p\<lparr>pl_writeCh := rest\<rparr>)
               in if int (pending p1) \<ge> pl_batchSize p1 then flush v p1 else p1)"

definition write_tick :: "flush_env \<Rightarrow> Pipeline \<Rightarrow> Pipeline" where
  "write_tick v p = (if pl_writeWorker p = Running then flush v p else p)"

section \<open>Runs\<close>

datatype pipeline_op =
    PlStart
  | PlOpen Meta
  | PlPublish FlowEntity
  | PlUpdate time string Counters
  | PlClose time Summary
  | PlReject string time Rejection
  | PlGeo enricher
  | PlWrite flush_env
  | PlTick flush_env
  | PlShutdown

fun pipeline_step :: "Pipeline \<Rightarrow> pipeline_op \<Rightarrow> Pipeline" where
  "pipeline_step p PlStart = pipeline_Start p"
| "pipeline_step p (PlOpen m) = pipeline_Open m p"
| "pipeline_step p (PlPublish e) = PublishEntity e p"
| "pipeline_step p (PlUpdate clock fid c) = pipeline_Update clock fid c p"
| "pipeline_step p (PlClose clock s) = pipeline_Close clock s p"
| "pipeline_step p (PlReject uuid clock r) = pipeline_Reject uuid clock r p"
| "pipeline_step p (PlGeo geo) = geo_round geo p"
| "pipeline_step p (PlWrite v) = write_round v p"
| "pipeline_step p (PlTick v) = write_tick v p"
| "pipeline_step p PlShutdown = pipeline_Shutdown p"

section \<open>Accounting\<close>

definition items_records :: "pipelineItem list \<Rightarrow> uint64" where
  "items_records is = sum_list (map recordCount is)"

text \<open>The records that are in a queue or in a batch.\<close>

definition in_flight :: "Pipeline \<Rightarrow> uint64" where
  "in_flight p = items_records (pl_geoCh p) + items_records (pl_writeCh p) + of_nat (pending p)"

definition balanced :: "Pipeline \<Rightarrow> bool" where
  "balanced p \<longleftrightarrow> (\<forall>m. pl_metrics p = Some m \<longrightarrow> ac_received m = ac_written m + ac_dropped m + in_flight p)"

definition phases_ok :: "Pipeline \<Rightarrow> bool" where
  "phases_ok p \<longleftrightarrow>
     (pl_geoWorker p = NotStarted \<and> pl_writeWorker p = NotStarted \<and> pl_writeCh p = [] \<and> pending p = 0) \<or>
     (pl_startOnce p \<and> pl_geoWorker p = Running \<and> pl_writeWorker p = Running) \<or>
     (pl_startOnce p \<and> pl_closed p \<and> pl_geoCh p = [] \<and> pl_geoWorker p = Done \<and>
       (pl_writeWorker p = Running \<or> pl_writeWorker p = Done \<and> pl_writeCh p = [] \<and> pending p = 0))"

definition bounds_ok :: "Pipeline \<Rightarrow> bool" where
  "bounds_ok p \<longleftrightarrow> 0 < pl_geoCap p \<and> 0 < pl_writeCap p \<and> 0 < pl_batchSize p \<and>
     int (length (pl_geoCh p)) \<le> pl_geoCap p \<and> int (length (pl_writeCh p)) \<le> pl_writeCap p \<and>
     int (pending p) < pl_batchSize p \<and> int (length (pl_recent p)) \<le> rejectionDedupeMaxEntries"

definition pipeline_inv :: "Pipeline \<Rightarrow> bool" where
  "pipeline_inv p \<longleftrightarrow> balanced p \<and> phases_ok p \<and> bounds_ok p"

lemma items_records_simps [simp]:
  "items_records [] = 0" "items_records (i # is) = recordCount i + items_records is"
  "items_records (is @ js) = items_records is + items_records js"
  by (simp_all add: items_records_def)

lemma counted [simp]:
  "pl_metrics (count_received n p) = map_option (\<lambda>m. m\<lparr>ac_received := ac_received m + n\<rparr>) (pl_metrics p)"
  "pl_metrics (count_dropped n p) = map_option (\<lambda>m. m\<lparr>ac_dropped := ac_dropped m + n\<rparr>) (pl_metrics p)"
  "pl_metrics (count_written n p) = map_option (\<lambda>m. m\<lparr>ac_written := ac_written m + n\<rparr>) (pl_metrics p)"
  by (auto simp: count_received_def count_dropped_def count_written_def AddAuditReceived_def AddAuditDropped_def AddAuditWritten_def
      intro!: map_option_cong)

lemmas count_defs = count_received_def count_dropped_def count_written_def

lemma present_map [simp]: "present (map_option f x) = present x"
  by (simp add: present_def)

lemma enrich_count [simp]: "recordCount (enrich_item geo i) = recordCount i"
  by (cases geo) (simp_all add: recordCount_def enrich_item_def)

text \<open>What the counters owe: the records received and neither written nor dropped.\<close>

definition owes :: "Pipeline \<Rightarrow> uint64 \<Rightarrow> bool" where
  "owes p n \<longleftrightarrow> (\<forall>m. pl_metrics p = Some m \<longrightarrow> ac_received m = ac_written m + ac_dropped m + n)"

lemma balanced_iff: "balanced p \<longleftrightarrow> owes p (in_flight p)"
  by (simp add: balanced_def owes_def)

lemma owes_counts [simp]:
  "owes (count_dropped k p) n \<longleftrightarrow> owes p (n + k)" "owes (count_written k p) n \<longleftrightarrow> owes p (n + k)"
  "owes (count_received k p) n \<longleftrightarrow> owes p (n - k)"
  by (auto simp: owes_def algebra_simps)

text \<open>Counting changes nothing else.\<close>

lemma count_frame [simp]:
  "in_flight (count_received n p) = in_flight p" "in_flight (count_dropped n p) = in_flight p" "in_flight (count_written n p) = in_flight p"
  "phases_ok (count_received n p) = phases_ok p" "phases_ok (count_dropped n p) = phases_ok p" "phases_ok (count_written n p) = phases_ok p"
  "bounds_ok (count_received n p) = bounds_ok p" "bounds_ok (count_dropped n p) = bounds_ok p" "bounds_ok (count_written n p) = bounds_ok p"
  by (simp_all add: count_defs in_flight_def phases_ok_def bounds_ok_def pending_def)

lemma count_fields [simp]:
  "pl_store (count_dropped n p) = pl_store p" "pl_store (count_written n p) = pl_store p"
  "pl_entities (count_dropped n p) = pl_entities p" "pl_entities (count_written n p) = pl_entities p"
  "pl_flows (count_dropped n p) = pl_flows p" "pl_flows (count_written n p) = pl_flows p"
  "pl_checkpoints (count_dropped n p) = pl_checkpoints p" "pl_checkpoints (count_written n p) = pl_checkpoints p"
  "pl_rejections (count_dropped n p) = pl_rejections p" "pl_rejections (count_written n p) = pl_rejections p"
  by (simp_all add: count_defs)

text \<open>The fields that writing and counting leave alone.\<close>

definition queues where
  "queues p = (pl_geoCh p, pl_geoCap p, pl_writeCh p, pl_writeCap p, pl_batchSize p, pl_closed p, pl_startOnce p,
     pl_geoWorker p, pl_writeWorker p, pl_recent p)"

lemma queues_iff:
  "queues q = queues p \<longleftrightarrow> pl_geoCh q = pl_geoCh p \<and> pl_geoCap q = pl_geoCap p \<and> pl_writeCh q = pl_writeCh p \<and>
     pl_writeCap q = pl_writeCap p \<and> pl_batchSize q = pl_batchSize p \<and> pl_closed q = pl_closed p \<and> pl_startOnce q = pl_startOnce p \<and>
     pl_geoWorker q = pl_geoWorker p \<and> pl_writeWorker q = pl_writeWorker p \<and> pl_recent q = pl_recent p"
  by (simp add: queues_def)

lemma queues_counts [simp]:
  "queues (count_received n p) = queues p" "queues (count_dropped n p) = queues p" "queues (count_written n p) = queues p"
  by (simp_all add: queues_def count_defs)

lemma inv_cong:
  assumes "pipeline_inv p" and "queues q = queues p" and "pending q = pending p" and "\<And>n. owes q n = owes p n"
  shows "pipeline_inv q"
  using assms by (simp add: pipeline_inv_def balanced_iff in_flight_def phases_ok_def bounds_ok_def queues_iff)

lemma inv_enqueue:
  assumes "pipeline_inv p"
  shows "pipeline_inv (enqueue i p)"
proof (cases "\<not> pl_closed p \<and> int (length (pl_geoCh p)) < pl_geoCap p")
  case True
  define p1 where "p1 = count_received (recordCount i) p"
  have e: "enqueue i p = p1\<lparr>pl_geoCh := pl_geoCh p1 @ [i]\<rparr>"
    using True by (simp add: enqueue_def p1_def count_defs)
  have q: "queues p1 = queues p" "pending p1 = pending p" by (simp_all add: p1_def) (simp add: count_defs pending_def)
  have o: "owes (p1\<lparr>pl_geoCh := x\<rparr>) n = owes p (n - recordCount i)" for x n unfolding p1_def owes_counts(3) [symmetric] by (simp add: owes_def)
  have pn: "pending (p1\<lparr>pl_geoCh := x\<rparr>) = pending p" for x using q(2) by (simp add: pending_def)
  have "phases_ok (p1\<lparr>pl_geoCh := pl_geoCh p1 @ [i]\<rparr>)"
    using assms True q(1) unfolding pipeline_inv_def phases_ok_def pn queues_iff by simp
  moreover have "bounds_ok (p1\<lparr>pl_geoCh := pl_geoCh p1 @ [i]\<rparr>)"
    using assms True q(1) unfolding pipeline_inv_def bounds_ok_def pn queues_iff by simp
  moreover have "owes (p1\<lparr>pl_geoCh := pl_geoCh p1 @ [i]\<rparr>) (in_flight (p1\<lparr>pl_geoCh := pl_geoCh p1 @ [i]\<rparr>))"
    using assms q(1) unfolding pipeline_inv_def balanced_iff o in_flight_def pn queues_iff by (simp add: algebra_simps)
  ultimately show ?thesis by (simp add: e pipeline_inv_def balanced_iff)
next
  case False
  then have e: "enqueue i p = count_dropped (recordCount i) (count_received (recordCount i) p)"
    by (auto simp: enqueue_def count_defs Let_def)
  show ?thesis using assms by (simp add: e pipeline_inv_def balanced_iff)
qed

text \<open>What a write leaves: the batches empty, their records counted, the queues as they were.\<close>

definition batches where "batches p = (pl_entities p, pl_flows p, pl_checkpoints p, pl_rejections p)"

lemma flush_table:
  assumes "pl_store p \<noteq> None"
  shows "owes (flush_table n f p) k \<longleftrightarrow> owes p (k + of_nat n)" and "pl_store (flush_table n f p) \<noteq> None"
    and "queues (flush_table n f p) = queues p" and "batches (flush_table n f p) = batches p"
proof -
  obtain st where st: "pl_store p = Some st" using assms by blast
  obtain e st' where f: "f st = (e, st')" by fastforce
  have o: "owes (p\<lparr>pl_store := x\<rparr>) j = owes p j" for x j by (simp add: owes_def)
  show "owes (flush_table n f p) k \<longleftrightarrow> owes p (k + of_nat n)"
    by (cases e) (simp_all add: flush_table_def st f recordResult_def o)
  show "pl_store (flush_table n f p) \<noteq> None" "queues (flush_table n f p) = queues p" "batches (flush_table n f p) = batches p"
    by (cases e; simp add: flush_table_def st f recordResult_def; simp add: queues_def batches_def)+
qed

lemma batches_iff:
  "batches q = batches p \<longleftrightarrow> pl_entities q = pl_entities p \<and> pl_flows q = pl_flows p \<and> pl_checkpoints q = pl_checkpoints p \<and>
     pl_rejections q = pl_rejections p"
  by (simp add: batches_def)

lemma emptied [simp]:
  "owes (p\<lparr>pl_entities := x1\<rparr>) n = owes p n" "queues (p\<lparr>pl_entities := x1\<rparr>) = queues p"
  "owes (p\<lparr>pl_flows := x2\<rparr>) n = owes p n" "queues (p\<lparr>pl_flows := x2\<rparr>) = queues p"
  "owes (p\<lparr>pl_checkpoints := x3\<rparr>) n = owes p n" "queues (p\<lparr>pl_checkpoints := x3\<rparr>) = queues p"
  "owes (p\<lparr>pl_rejections := x4\<rparr>) n = owes p n" "queues (p\<lparr>pl_rejections := x4\<rparr>) = queues p"
  by (simp_all add: owes_def queues_def)

lemma flush_spec:
  "owes (flush v p) k = owes p (k + of_nat (pending p)) \<and> queues (flush v p) = queues p \<and> pending (flush v p) = 0"
proof (cases "pl_store p = None")
  case True
  then show ?thesis by (simp add: flush_def) (simp add: pending_def)
next
  case False
  define p1 where "p1 = (flush_table (length (pl_entities p)) (InsertFlowEntities (fv_entities v) (fv_now v) (pl_entities p)) p)\<lparr>pl_entities := []\<rparr>"
  define p2 where "p2 = (flush_table (length (pl_flows p1)) (InsertFlows (fv_flows v) (fv_now v) (with_uuids (fv_uuid v) (pl_flows p1))) p1)\<lparr>pl_flows := []\<rparr>"
  define p3 where "p3 = (flush_table (length (pl_checkpoints p2)) (InsertCheckpoints (fv_checkpoints v) (fv_now v) (pl_checkpoints p2)) p2)\<lparr>pl_checkpoints := []\<rparr>"
  define p4 where "p4 = (flush_table (length (pl_rejections p3)) (InsertRejections (fv_rejections v) (fv_now v) (with_uuids (fv_uuid v) (pl_rejections p3))) p3)\<lparr>pl_rejections := []\<rparr>"
  have p4: "flush v p = p4" unfolding flush_def p1_def p2_def p3_def p4_def Let_def if_not_P [OF False] ..
  have 1: "pl_store p1 \<noteq> None" "owes p1 j = owes p (j + of_nat (length (pl_entities p)))" "queues p1 = queues p"
      "pl_entities p1 = []" "pl_flows p1 = pl_flows p" "pl_checkpoints p1 = pl_checkpoints p" "pl_rejections p1 = pl_rejections p" for j
    using flush_table [OF False, of "length (pl_entities p)" "InsertFlowEntities (fv_entities v) (fv_now v) (pl_entities p)"]
    by (simp_all add: p1_def batches_iff)
  have 2: "pl_store p2 \<noteq> None" "owes p2 j = owes p1 (j + of_nat (length (pl_flows p1)))" "queues p2 = queues p1"
      "pl_entities p2 = pl_entities p1" "pl_flows p2 = []" "pl_checkpoints p2 = pl_checkpoints p1" "pl_rejections p2 = pl_rejections p1" for j
    using flush_table [OF 1(1), of "length (pl_flows p1)" "InsertFlows (fv_flows v) (fv_now v) (with_uuids (fv_uuid v) (pl_flows p1))"]
    by (simp_all add: p2_def batches_iff)
  have 3: "pl_store p3 \<noteq> None" "owes p3 j = owes p2 (j + of_nat (length (pl_checkpoints p2)))" "queues p3 = queues p2"
      "pl_entities p3 = pl_entities p2" "pl_flows p3 = pl_flows p2" "pl_checkpoints p3 = []" "pl_rejections p3 = pl_rejections p2" for j
    using flush_table [OF 2(1), of "length (pl_checkpoints p2)" "InsertCheckpoints (fv_checkpoints v) (fv_now v) (pl_checkpoints p2)"]
    by (simp_all add: p3_def batches_iff)
  have 4: "owes p4 j = owes p3 (j + of_nat (length (pl_rejections p3)))" "queues p4 = queues p3"
      "pl_entities p4 = pl_entities p3" "pl_flows p4 = pl_flows p3" "pl_checkpoints p4 = pl_checkpoints p3" "pl_rejections p4 = []" for j
    using flush_table [OF 3(1), of "length (pl_rejections p3)" "InsertRejections (fv_rejections v) (fv_now v) (with_uuids (fv_uuid v) (pl_rejections p3))"]
    by (simp_all add: p4_def batches_iff)
  show ?thesis using 1 2 3 4 by (simp add: p4 pending_def algebra_simps)
qed

lemma inv_flush:
  assumes "owes p (in_flight p)" and "phases_ok p" and "bounds_ok (p\<lparr>pl_entities := [], pl_flows := [], pl_checkpoints := [], pl_rejections := []\<rparr>)"
  shows "pipeline_inv (flush v p)"
proof -
  have o: "owes (flush v p) k = owes p (k + of_nat (pending p))" for k using flush_spec by blast
  have "owes (flush v p) (in_flight (flush v p))"
    using assms(1) flush_spec [of v p] unfolding o in_flight_def queues_iff by simp
  moreover have "phases_ok (flush v p)"
    using assms(2) flush_spec [of v p] unfolding phases_ok_def queues_iff by auto
  moreover have "bounds_ok (flush v p)"
    using assms(3) flush_spec [of v p] unfolding bounds_ok_def queues_iff by (simp add: pending_def)
  ultimately show ?thesis by (simp add: pipeline_inv_def balanced_iff)
qed

lemma inv_update:
  assumes "pipeline_inv p" and "int (length xs) \<le> rejectionDedupeMaxEntries"
  shows "pipeline_inv (p\<lparr>pl_active := a\<rparr>)" and "pipeline_inv (p\<lparr>pl_recent := xs, pl_lastSweep := t\<rparr>)" and "pipeline_inv (p\<lparr>pl_recent := xs\<rparr>)"
  using assms by (simp_all add: pipeline_inv_def balanced_def in_flight_def phases_ok_def bounds_ok_def pending_def)

lemma inv_allow:
  assumes "pipeline_inv p"
  shows "pipeline_inv (snd (allowRejection key now p))"
proof -
  have le: "int (length (filter P (pl_recent p))) \<le> rejectionDedupeMaxEntries" for P
  proof -
    have "int (length (pl_recent p)) \<le> rejectionDedupeMaxEntries" using assms by (simp add: pipeline_inv_def bounds_ok_def)
    moreover have "int (length (filter P (pl_recent p))) \<le> int (length (pl_recent p))" by simp
    ultimately show ?thesis by linarith
  qed
  define p1 where "p1 = (if is_zero_time (pl_lastSweep p) \<or> time_sub now (pl_lastSweep p) \<ge> rejectionDedupeCleanupInterval
                then p\<lparr>pl_recent := filter (\<lambda>(k, seenAt). \<not> time_sub now seenAt \<ge> rejectionDedupeTTL) (pl_recent p), pl_lastSweep := now\<rparr>
                else p)"
  have inv: "pipeline_inv p1" using assms inv_update(2) [OF assms le] by (simp add: p1_def)
  have "snd (allowRejection key now p) = p1 \<or>
      snd (allowRejection key now p) = p1\<lparr>pl_recent := gput key now (pl_recent p1)\<rparr> \<and> int (length (pl_recent p1)) < rejectionDedupeMaxEntries"
    unfolding allowRejection_def Let_def p1_def [symmetric] by auto
  then show ?thesis using inv inv_update(3) [OF inv, of "gput key now (pl_recent p1)"] by (auto simp: length_gput)
qed

lemma inv_geo:
  assumes "pipeline_inv p"
  shows "pipeline_inv (geo_round geo p)"
proof (cases "pl_geoWorker p = Running \<and> pl_geoCh p \<noteq> []")
  case False
  then show ?thesis using assms
    by (auto simp: geo_round_def pipeline_inv_def balanced_def in_flight_def phases_ok_def bounds_ok_def pending_def split: list.splits)
next
  case True
  then obtain i rest where i: "pl_geoWorker p = Running" "pl_geoCh p = i # rest" by (cases "pl_geoCh p") auto
  define p1 where "p1 = p\<lparr>pl_geoCh := rest\<rparr>"
  have o: "owes p1 n = owes p n" "owes (p1\<lparr>pl_writeCh := x\<rparr>) n = owes p n" for n x by (simp_all add: owes_def p1_def)
  have w: "owes p (recordCount i + items_records rest + items_records (pl_writeCh p) + of_nat (pending p))"
    using assms by (simp add: pipeline_inv_def balanced_iff in_flight_def i)
  show ?thesis
  proof (cases "int (length (pl_writeCh p1)) < pl_writeCap p1")
    case True
    then have e: "geo_round geo p = p1\<lparr>pl_writeCh := pl_writeCh p1 @ [enrich_item geo i]\<rparr>" by (simp add: geo_round_def i p1_def)
    have "owes (geo_round geo p) (in_flight (geo_round geo p))"
      using w unfolding e o by (simp add: in_flight_def p1_def pending_def algebra_simps)
    then show ?thesis using assms i True
      by (simp add: pipeline_inv_def balanced_iff) (auto simp: e p1_def phases_ok_def bounds_ok_def pending_def)
  next
    case False
    then have e: "geo_round geo p = count_dropped (recordCount i) p1" by (simp add: geo_round_def i p1_def)
    have "in_flight p1 + recordCount i = recordCount i + items_records rest + items_records (pl_writeCh p) + of_nat (pending p)"
      by (simp add: in_flight_def p1_def pending_def)
    with w have "balanced (geo_round geo p)" by (simp only: e balanced_iff owes_counts count_frame o)
    then show ?thesis using assms i
      by (simp add: e pipeline_inv_def) (auto simp: p1_def phases_ok_def bounds_ok_def pending_def)
  qed
qed

lemma length_option_list: "length (option_list x) = present x"
  by (simp add: option_list_def present_def split: option.splits)

lemma batch_item_spec:
  "owes (batch_item i p) n = owes p n" "queues (batch_item i p) = queues p" "of_nat (pending (batch_item i p)) = recordCount i + of_nat (pending p)"
  by (simp_all add: batch_item_def owes_def queues_def pending_def recordCount_def length_option_list)

lemma inv_write:
  assumes "pipeline_inv p"
  shows "pipeline_inv (write_round v p)"
proof (cases "pl_writeWorker p = Running \<and> pl_writeCh p \<noteq> []")
  case False
  have d: "pipeline_inv ((flush v p)\<lparr>pl_writeWorker := Done\<rparr>)"
    if h: "pl_writeWorker p = Running" "pl_writeCh p = []" "pl_geoWorker p = Done"
  proof -
    have inv: "pipeline_inv (flush v p)"
      using assms by (intro inv_flush) (auto simp: pipeline_inv_def balanced_iff bounds_ok_def pending_def)
    then show ?thesis using flush_spec [of v p] h
      by (auto simp: pipeline_inv_def balanced_def in_flight_def phases_ok_def bounds_ok_def queues_iff pending_def)
  qed
  then show ?thesis using assms False by (auto simp: write_round_def split: list.splits)
next
  case True
  then obtain i rest where i: "pl_writeWorker p = Running" "pl_writeCh p = i # rest" by (cases "pl_writeCh p") auto
  define p1 where "p1 = batch_item i (p\<lparr>pl_writeCh := rest\<rparr>)"
  have e: "write_round v p = (if int (pending p1) \<ge> pl_batchSize p1 then flush v p1 else p1)" by (simp add: write_round_def i p1_def)
  have q: "pl_geoCh p1 = pl_geoCh p" "pl_geoCap p1 = pl_geoCap p" "pl_writeCh p1 = rest" "pl_writeCap p1 = pl_writeCap p"
      "pl_batchSize p1 = pl_batchSize p" "pl_closed p1 = pl_closed p" "pl_startOnce p1 = pl_startOnce p"
      "pl_geoWorker p1 = pl_geoWorker p" "pl_writeWorker p1 = pl_writeWorker p" "pl_recent p1 = pl_recent p"
    by (simp_all add: p1_def batch_item_def)
  have o: "owes p1 n = owes p n" for n unfolding p1_def batch_item_spec by (simp add: owes_def)
  have pn: "of_nat (pending p1) = recordCount i + of_nat (pending p)" unfolding p1_def batch_item_spec by (simp add: pending_def)
  have bal: "owes p1 (in_flight p1)"
    using assms unfolding pipeline_inv_def balanced_iff in_flight_def q o pn by (simp add: i algebra_simps)
  have ph: "phases_ok p1" using assms unfolding pipeline_inv_def phases_ok_def q i(1) by auto
  have bd: "bounds_ok p1 \<longleftrightarrow> int (pending p1) < pl_batchSize p"
    using assms unfolding pipeline_inv_def bounds_ok_def q by (auto simp: i)
  have "bounds_ok (p1\<lparr>pl_entities := [], pl_flows := [], pl_checkpoints := [], pl_rejections := []\<rparr>)"
    using assms q unfolding pipeline_inv_def bounds_ok_def by (auto simp: i pending_def)
  then show ?thesis using inv_flush [OF bal ph] bal ph bd by (simp add: e pipeline_inv_def balanced_iff q)
qed

lemma inv_tick: "pipeline_inv p \<Longrightarrow> pipeline_inv (write_tick v p)"
  by (auto simp: write_tick_def pipeline_inv_def [of p] balanced_iff bounds_ok_def pending_def intro!: inv_flush)

lemma inv_start: "pipeline_inv p \<Longrightarrow> pipeline_inv (pipeline_Start p)"
  by (auto simp: pipeline_Start_def pipeline_inv_def balanced_def in_flight_def phases_ok_def bounds_ok_def pending_def)

lemma inv_shutdown: "pipeline_inv p \<Longrightarrow> pipeline_inv (pipeline_Shutdown p)"
  by (auto simp: pipeline_Shutdown_def pipeline_inv_def balanced_def in_flight_def phases_ok_def bounds_ok_def pending_def)

lemma inv_active: "pipeline_inv p \<Longrightarrow> pipeline_inv (p\<lparr>pl_active := a\<rparr>)"
  by (rule inv_update(1) [where xs = "[]"]) (simp_all add: rejectionDedupeMaxEntries_def)

lemma inv_pipeline_step: "pipeline_inv p \<Longrightarrow> pipeline_inv (pipeline_step p e)"
proof (cases e)
  case (PlReject uuid clock r)
  assume "pipeline_inv p"
  then show ?thesis using inv_allow [of p "rejection_key (rejection_event uuid clock r)" "rr_RecordedAt (rejection_event uuid clock r)"]
    by (auto simp: PlReject pipeline_Reject_def Let_def inv_enqueue split: prod.splits bool.splits)
qed (auto simp: pipeline_Open_def PublishEntity_def pipeline_Update_def pipeline_Close_def Let_def
    intro: inv_enqueue inv_active inv_geo inv_write inv_tick inv_start inv_shutdown split: option.splits)

interpretation pipelines: event_system pipeline_step pipeline_inv
  by unfold_locales (rule inv_pipeline_step)

lemma inv_new: "pipeline_inv (NewPipeline cfg store (Some \<lparr>ac_received = 0, ac_written = 0, ac_dropped = 0\<rparr>))"
  by (simp add: pipeline_inv_def balanced_def in_flight_def phases_ok_def bounds_ok_def pending_def NewPipeline_def positive_or_def
      rejectionDedupeMaxEntries_def)

text \<open>
  C4: no audit record is lost without being counted. Whatever calls, worker rounds, failed
  writes and shutdown happen in whatever order, the records received are those written, those
  dropped and those still in a queue or a batch (in the arithmetic of the 64-bit counters);
  the queues and the batch stay within their bounds; and once the pipeline was started and
  its workers have ended nothing is left in them.
\<close>

theorem audit_records_accounted:
  "let p = foldl pipeline_step (NewPipeline cfg store (Some \<lparr>ac_received = 0, ac_written = 0, ac_dropped = 0\<rparr>)) ops
   in (\<forall>m. pl_metrics p = Some m \<longrightarrow> ac_received m = ac_written m + ac_dropped m + in_flight p) \<and>
      int (length (pl_geoCh p)) \<le> pl_geoCap p \<and> int (length (pl_writeCh p)) \<le> pl_writeCap p \<and>
      int (pending p) < pl_batchSize p \<and>
      (pl_geoWorker p = Done \<and> pl_writeWorker p = Done \<longrightarrow> in_flight p = 0)"
proof -
  define p where "p = foldl pipeline_step (NewPipeline cfg store (Some \<lparr>ac_received = 0, ac_written = 0, ac_dropped = 0\<rparr>)) ops"
  have inv: "pipeline_inv p" unfolding p_def by (rule pipelines.run_invar [OF inv_new])
  have "in_flight p = 0" if "pl_geoWorker p = Done" "pl_writeWorker p = Done"
    using inv that by (simp add: pipeline_inv_def phases_ok_def in_flight_def)
  with inv show ?thesis by (simp add: p_def [symmetric] pipeline_inv_def balanced_def bounds_ok_def)
qed

definition sample_audit_meta :: Meta where
  "sample_audit_meta = \<lparr>meta_ID = ''f'', meta_Protocol = ''tcp'', meta_ClientAddr = \<lparr>ap_addr = V4 167772161, ap_port = 9\<rparr>,
     meta_Listener = '':80'', meta_Route = ''web'', meta_Upstream = ''u'', meta_StartedAt = 5\<rparr>"

definition sample_log_config :: IPLogConfig where
  "sample_log_config = \<lparr>il_Enabled = True, il_LogRejections = None, il_GeoQueueSize = 1, il_WriteQueueSize = 4, il_BatchSize = 8,
     il_FlushInterval = 0\<rparr>"

definition sample_audit_flush :: flush_env where
  "sample_audit_flush = \<lparr>fv_now = 9, fv_uuid = (\<lambda>_. ''x''), fv_entities = True, fv_flows = True, fv_checkpoints = True, fv_rejections = True\<rparr>"

definition sample_audit_ops :: "pipeline_op list" where
  "sample_audit_ops = [PlStart, PlOpen sample_audit_meta, PlOpen sample_audit_meta, PlShutdown, PlGeo None, PlGeo None, PlWrite sample_audit_flush, PlWrite sample_audit_flush]"

text \<open>The first record passes both queues, the second finds the queue full; with no store the first is dropped at the end.\<close>

lemma sample_audit_run:
  "(let p = foldl pipeline_step (NewPipeline sample_log_config None (Some \<lparr>ac_received = 0, ac_written = 0, ac_dropped = 0\<rparr>)) sample_audit_ops
    in (pl_geoWorker p, pl_writeWorker p, map_option ac_received (pl_metrics p))) = (Done, Done, Some 2)"
  by (simp add: sample_audit_ops_def pipeline_Start_def pipeline_Open_def enqueue_def pipeline_Shutdown_def geo_round_def write_round_def
      NewPipeline_def positive_or_def sample_log_config_def count_defs Let_def AddAuditReceived_def AddAuditDropped_def recordCount_def
      present_def empty_item_def enrich_item_def batch_item_def option_list_def pending_def flush_def)

theorem audit_records_accounted_witness:
  "let p = foldl pipeline_step (NewPipeline sample_log_config None (Some \<lparr>ac_received = 0, ac_written = 0, ac_dropped = 0\<rparr>)) sample_audit_ops
   in \<exists>m. pl_metrics p = Some m \<and> ac_received m = 2 \<and> ac_written m + ac_dropped m = 2 \<and> in_flight p = 0"
  using audit_records_accounted [of sample_log_config None sample_audit_ops] sample_audit_run by (auto simp: Let_def)

section \<open>Repeated rejections\<close>

text \<open>The rejections, as keys and times, that pass the filter.\<close>

fun accepted :: "Pipeline \<Rightarrow> (string \<times> time) list \<Rightarrow> (string \<times> time) list" where
  "accepted p [] = []"
| "accepted p ((key, now) # calls) =
     (case allowRejection key now p of (ok, p') \<Rightarrow> (if ok then [(key, now)] else []) @ accepted p' calls)"

lemma below_minute: "time_sub t s < minute \<longleftrightarrow> t - s < minute"
  by (auto simp: time_sub_def min_duration_def max_duration_def)

lemma minute_reached: "minute \<le> time_sub t s \<longleftrightarrow> minute \<le> t - s"
  using below_minute [of t s] by linarith

lemmas dedupe_defs = rejectionDedupeTTL_def rejectionDedupeCleanupInterval_def

lemma allow_recent:
  assumes "gok (pl_recent p)" and "allowRejection k t p = (ok, p')"
  shows "gok (pl_recent p')" and "ok \<Longrightarrow> gget (pl_recent p') k = Some t"
    and "gget (pl_recent p) k' = Some s \<Longrightarrow> t - s < minute \<Longrightarrow> gget (pl_recent p') k' = Some s \<and> \<not> (ok \<and> k = k')"
    and "\<not> ok \<Longrightarrow> (\<exists>s. gget (pl_recent p) k = Some s \<and> t - s < minute) \<or> int (length (pl_recent p)) \<ge> rejectionDedupeMaxEntries"
proof -
  define p1 where "p1 = (if is_zero_time (pl_lastSweep p) \<or> time_sub t (pl_lastSweep p) \<ge> rejectionDedupeCleanupInterval
                then p\<lparr>pl_recent := filter (\<lambda>(k, seenAt). \<not> time_sub t seenAt \<ge> rejectionDedupeTTL) (pl_recent p), pl_lastSweep := t\<rparr>
                else p)"
  have r: "pl_recent p1 = pl_recent p \<or> pl_recent p1 = filter (\<lambda>(k, s). t - s < minute) (pl_recent p)"
    by (simp add: p1_def dedupe_defs minute_reached not_le split: prod.splits)
  have g: "gok (pl_recent p1)" using r assms(1) by auto
  have keep: "gget (pl_recent p1) k' = Some s" if "gget (pl_recent p) k' = Some s" "t - s < minute" for k' s
    using r that assms(1) by (auto simp: gget_filter)
  have before: "gget (pl_recent p) k' = Some s" if "gget (pl_recent p1) k' = Some s" for k' s
    using r that assms(1) by (auto simp: gget_filter split: option.splits if_splits)
  have len: "length (pl_recent p1) \<le> length (pl_recent p)" using r by auto
  have a: "(ok, p') = (if (case gget (pl_recent p1) k of None \<Rightarrow> False | Some s \<Rightarrow> t - s < minute) then (False, p1)
      else if int (length (pl_recent p1)) \<ge> rejectionDedupeMaxEntries then (False, p1)
      else (True, p1\<lparr>pl_recent := gput k t (pl_recent p1)\<rparr>))"
    using assms(2) unfolding allowRejection_def Let_def p1_def [symmetric] by (simp add: dedupe_defs below_minute cong: option.case_cong)
  show "gok (pl_recent p')" using a g by (auto split: if_splits)
  show "ok \<Longrightarrow> gget (pl_recent p') k = Some t" using a by (auto split: if_splits)
  show "gget (pl_recent p) k' = Some s \<Longrightarrow> t - s < minute \<Longrightarrow> gget (pl_recent p') k' = Some s \<and> \<not> (ok \<and> k = k')"
    using a keep [of k' s] by (auto split: if_splits)
  show "\<not> ok \<Longrightarrow> (\<exists>s. gget (pl_recent p) k = Some s \<and> t - s < minute) \<or> int (length (pl_recent p)) \<ge> rejectionDedupeMaxEntries"
    using a before len by (fastforce split: if_splits option.splits)
qed

text \<open>A key that was let through at \<open>s\<close> is not let through again within a minute of it.\<close>

lemma accepted_later:
  assumes "gok (pl_recent p)" and "gget (pl_recent p) k = Some s \<or> minute \<le> t0 - s"
    and "sorted (t0 # map snd calls)" and "(k, t) \<in> set (accepted p calls)"
  shows "minute \<le> t - s"
  using assms
proof (induction calls arbitrary: p t0)
  case (Cons c calls)
  obtain k1 t1 where c: "c = (k1, t1)" by fastforce
  obtain ok p' where a: "allowRejection k1 t1 p = (ok, p')" by fastforce
  note r = allow_recent [OF Cons.prems(1) a]
  have t1: "t0 \<le> t1" using Cons.prems(3) by (simp add: c)
  have next_ok: "gget (pl_recent p') k = Some s \<or> minute \<le> t1 - s" and now_ok: "ok \<Longrightarrow> k1 = k \<Longrightarrow> minute \<le> t1 - s"
    using Cons.prems(2) r(3) [of k s] t1 by fastforce+
  from Cons.prems(4) consider "ok" "k1 = k" "t = t1" | "(k, t) \<in> set (accepted p' calls)"
    by (auto simp: c a split: if_splits)
  then show ?case
  proof cases
    case 1
    then show ?thesis using now_ok by simp
  next
    case 2
    with Cons.prems(3) show ?thesis by (intro Cons.IH [OF r(1) next_ok]) (simp_all add: c)
  qed
qed simp

lemma accepted_spaced:
  "gok (pl_recent p) \<Longrightarrow> sorted (map snd calls) \<Longrightarrow>
   sorted_wrt (\<lambda>(k, t) (k', t'). k' = k \<longrightarrow> minute \<le> t' - t) (accepted p calls)"
proof (induction calls arbitrary: p)
  case (Cons c calls)
  obtain k1 t1 where c: "c = (k1, t1)" by fastforce
  obtain ok p' where a: "allowRejection k1 t1 p = (ok, p')" by fastforce
  note r = allow_recent [OF Cons.prems(1) a]
  have later: "minute \<le> t - t1" if "ok" "(k1, t) \<in> set (accepted p' calls)" for t
    using accepted_later [OF r(1), of k1 t1 t1 calls t] r(2) that Cons.prems(2) by (simp add: c)
  show ?case using Cons.IH [OF r(1)] Cons.prems(2) later by (auto simp: c a)
qed simp

text \<open>
  C5: of the rejections of one client for one reason at most one a minute is recorded. With
  times that do not go back, two rejections with the same key that pass the filter are a
  minute apart; and a rejection is held back only for that reason, or when 4096 keys are
  remembered.
\<close>

theorem rejections_spaced:
  assumes "sorted (map snd calls)"
  shows "sorted_wrt (\<lambda>(k, t) (k', t'). k' = k \<longrightarrow> minute \<le> t' - t) (accepted (NewPipeline cfg store counters) calls) \<and>
         (gok (pl_recent p) \<longrightarrow> \<not> fst (allowRejection key now p) \<longrightarrow>
            (\<exists>s. gget (pl_recent p) key = Some s \<and> now - s < minute) \<or> int (length (pl_recent p)) \<ge> rejectionDedupeMaxEntries)"
proof -
  have "gok (pl_recent (NewPipeline cfg store counters))" by (simp add: NewPipeline_def)
  moreover obtain ok p' where a: "allowRejection key now p = (ok, p')" by fastforce
  ultimately show ?thesis using accepted_spaced [OF _ assms] allow_recent(4) [OF _ a] by (simp add: a)
qed

theorem rejections_spaced_witness:
  "sorted_wrt (\<lambda>(k, t) (k', t'). k' = k \<longrightarrow> minute \<le> t' - t)
     (accepted (NewPipeline sample_log_config None None) [(''a'', 5), (''b'', 6), (''a'', 7), (''a'', 5 + minute)])"
  using rejections_spaced [of "[(''a'', 5), (''b'', 6), (''a'', 7), (''a'', 5 + minute)]"] by simp

section \<open>The record of a closed Flow\<close>

lemma flush_table_store:
  "pl_store p = Some st \<Longrightarrow> (n = 0 \<Longrightarrow> snd (f st) = st) \<Longrightarrow> pl_store (flush_table n f p) = Some (snd (f st))"
  by (cases "f st"; cases "fst (f st)") (auto simp: flush_table_def recordResult_def)

lemma flush_store:
  assumes "pl_store p = Some st"
  shows "pl_store (flush v p) = Some
    (snd (InsertRejections (fv_rejections v) (fv_now v) (with_uuids (fv_uuid v) (pl_rejections p))
      (snd (InsertCheckpoints (fv_checkpoints v) (fv_now v) (pl_checkpoints p)
        (snd (InsertFlows (fv_flows v) (fv_now v) (with_uuids (fv_uuid v) (pl_flows p))
          (snd (InsertFlowEntities (fv_entities v) (fv_now v) (pl_entities p) st))))))))"
proof -
  have ft: "batches (flush_table n f q) = batches q" if "pl_store q \<noteq> None" for n f q using flush_table(4) [OF that] .
  define p1 where "p1 = (flush_table (length (pl_entities p)) (InsertFlowEntities (fv_entities v) (fv_now v) (pl_entities p)) p)\<lparr>pl_entities := []\<rparr>"
  define p2 where "p2 = (flush_table (length (pl_flows p1)) (InsertFlows (fv_flows v) (fv_now v) (with_uuids (fv_uuid v) (pl_flows p1))) p1)\<lparr>pl_flows := []\<rparr>"
  define p3 where "p3 = (flush_table (length (pl_checkpoints p2)) (InsertCheckpoints (fv_checkpoints v) (fv_now v) (pl_checkpoints p2)) p2)\<lparr>pl_checkpoints := []\<rparr>"
  define p4 where "p4 = (flush_table (length (pl_rejections p3)) (InsertRejections (fv_rejections v) (fv_now v) (with_uuids (fv_uuid v) (pl_rejections p3))) p3)\<lparr>pl_rejections := []\<rparr>"
  have p4: "flush v p = p4" using assms unfolding flush_def p1_def p2_def p3_def p4_def Let_def by simp
  have 1: "pl_store p1 = Some (snd (InsertFlowEntities (fv_entities v) (fv_now v) (pl_entities p) st))"
      "pl_flows p1 = pl_flows p" "pl_checkpoints p1 = pl_checkpoints p" "pl_rejections p1 = pl_rejections p"
    using ft [of p] assms by (simp_all add: p1_def batches_iff) (rule flush_table_store; simp add: InsertFlowEntities_def)
  have 2: "pl_store p2 = Some (snd (InsertFlows (fv_flows v) (fv_now v) (with_uuids (fv_uuid v) (pl_flows p1)) (the (pl_store p1))))"
      "pl_checkpoints p2 = pl_checkpoints p1" "pl_rejections p2 = pl_rejections p1"
    using ft [of p1] 1(1) by (simp_all add: p2_def batches_iff) (rule flush_table_store; simp add: InsertFlows_def with_uuids_def)
  have 3: "pl_store p3 = Some (snd (InsertCheckpoints (fv_checkpoints v) (fv_now v) (pl_checkpoints p2) (the (pl_store p2))))"
      "pl_rejections p3 = pl_rejections p2"
    using ft [of p2] 2(1) by (simp_all add: p3_def batches_iff) (rule flush_table_store; simp add: InsertCheckpoints_def)
  have 4: "pl_store p4 = Some (snd (InsertRejections (fv_rejections v) (fv_now v) (with_uuids (fv_uuid v) (pl_rejections p3)) (the (pl_store p3))))"
    using 3(1) by (simp add: p4_def) (rule flush_table_store; simp add: InsertRejections_def with_uuids_def)
  show ?thesis using 1 2 3 4 by (simp add: p4)
qed

lemma flush_nothing: "pl_store p = Some st \<Longrightarrow> pending p = 0 \<Longrightarrow> pl_store (flush v p) = Some st"
  by (simp add: flush_store pending_def with_uuids_def InsertFlowEntities_def InsertFlows_def InsertCheckpoints_def InsertRejections_def)

text \<open>The tables of the later writes do not include the Flows.\<close>

lemma tx_all_keeps:
  assumes "\<And>x s s'. f x s = Inr s' \<Longrightarrow> g s' = g s" and "tx_all f xs s = Inr s'"
  shows "g s' = g s"
  using assms(2) by (induction xs arbitrary: s) (auto split: sum.splits dest: assms(1))

lemma commit_keeps:
  assumes "\<And>s'. r = Inr s' \<Longrightarrow> g s' = g s"
  shows "g (snd (commit db s r)) = g s"
  using assms by (cases r) (simp_all add: commit_def)

lemma later_writes_keep_flows [simp]:
  "au_flows (snd (InsertCheckpoints db now cs s)) = au_flows s" "au_flows (snd (InsertRejections db now rs s)) = au_flows s"
proof -
  have c: "au_flows s' = au_flows s" if "insertCheckpointTx now x s = Inr s'" for x s s'
    using that by (auto simp: insertCheckpointTx_def split: option.splits if_splits)
  have r: "au_flows s' = au_flows s" if "insertRejectionTx now x s = Inr s'" for x s s'
  proof -
    have "\<exists>t. insertRejectionTx now x s = Inr (s\<lparr>au_rejections := t\<rparr>)"
      unfolding insertRejectionTx_def Let_def split_beta by (rule exI, rule refl)
    with that show ?thesis by auto
  qed
  have "au_flows (snd (commit db s (tx_all (insertCheckpointTx now) cs s))) = au_flows s"
    by (rule commit_keeps, rule tx_all_keeps [OF c])
  then show "au_flows (snd (InsertCheckpoints db now cs s)) = au_flows s" by (simp add: InsertCheckpoints_def)
  have "au_flows (snd (commit db s (tx_all (insertRejectionTx now) rs s))) = au_flows s"
    by (rule commit_keeps, rule tx_all_keeps [OF r])
  then show "au_flows (snd (InsertRejections db now rs s)) = au_flows s" by (simp add: InsertRejections_def)
qed

lemma closed_entity_fields:
  "fe_FlowID (closed_entity now r) = rc_FlowID r" "fe_Generation (closed_entity now r) = 0"
  "fe_BytesUp (closed_entity now r) = rc_BytesUp r" "fe_BytesDown (closed_entity now r) = rc_BytesDown r"
  by (simp_all add: closed_entity_def split: prod.splits)

lemma closed_entity_row:
  assumes "sql_uint (rc_BytesUp r) = Some up" and "sql_uint (rc_BytesDown r) = Some down"
  shows "\<exists>e. entity_row now (closed_entity now r) = Some e"
proof -
  have "sql_uint 0 = Some 0" by (simp add: sql_uint_def)
  with assms show ?thesis by (simp add: entity_row_def closed_entity_fields Let_def)
qed

lemma flow_row_some:
  assumes "sql_uint (rc_BytesUp r) = Some up" and "sql_uint (rc_BytesDown r) = Some down"
  obtains row where "flow_row now r = Some row" and "fl_FlowID row = rc_FlowID r" and "fl_Protocol row = rc_Protocol r"
    and "fl_Route row = rc_Route r" and "fl_Upstream row = rc_Upstream r" and "fl_ClientIP row = rc_ClientIP r"
    and "fl_BytesUp row = up" and "fl_BytesDown row = down" and "fl_CloseReason row = rc_CloseReason r"
proof -
  obtain b f where 1: "optionalIPBytes (rc_ClientIP r) = (b, f)" by fastforce
  obtain x y z where 2: "normalizeFlowTimes now r = (x, y, z)" by (metis prod_cases3)
  obtain row where row: "flow_row now r = Some row" by (simp add: flow_row_def assms 1 2)
  show thesis using row by (intro that [OF row]) (auto simp: flow_row_def assms 1 2)
qed

lemma insert_one_flow:
  assumes "TrimSpace (rc_FlowID r) \<noteq> []" and "sql_uint (rc_BytesUp r) = Some up" and "sql_uint (rc_BytesDown r) = Some down"
  shows "\<exists>row. row \<in> set (au_flows (snd (InsertFlows True now [(r, uuid)] s))) \<and>
    flow_row now (r\<lparr>rc_Protocol := (if rc_Protocol r = [] then ''unknown'' else rc_Protocol r)\<rparr>) = Some row"
proof -
  define r' where "r' = r\<lparr>rc_Protocol := (if rc_Protocol r = [] then ''unknown'' else rc_Protocol r)\<rparr>"
  have id: "rc_FlowID r \<noteq> []" using assms(1) by auto
  obtain row where row: "flow_row now r' = Some row"
    using flow_row_some [of r' up down now] assms(2,3) by (auto simp: r'_def)
  obtain s1 where s1: "upsertFlowEntityTx now (closed_entity now r') s = Inr s1"
    using closed_entity_row [of r' up down now] assms by (auto simp: upsertFlowEntityTx_def closed_entity_fields r'_def)
  have "r\<lparr>rc_FlowID := rc_FlowID r, rc_Protocol := x\<rparr> = r\<lparr>rc_Protocol := x\<rparr>" for x by simp
  then have "insertFlowTx now (r, uuid) s = Inr (s1\<lparr>au_flows := sql_upsert fl_FlowID (\<lambda>old new. new) row (au_flows s1)\<rparr>)"
    using id s1 row unfolding insertFlowTx_def by (simp add: r'_def [symmetric])
  then have "au_flows (snd (InsertFlows True now [(r, uuid)] s)) = sql_upsert fl_FlowID (\<lambda>old new. new) row (au_flows s1)"
    by (simp add: InsertFlows_def commit_def)
  moreover have "row \<in> set (sql_upsert fl_FlowID (\<lambda>old new. new) row t)" for t by (auto simp: sql_upsert_def)
  ultimately show ?thesis using row r'_def by auto
qed

text \<open>A pipeline that has nothing to do.\<close>

definition idle :: "Pipeline \<Rightarrow> bool" where
  "idle p \<longleftrightarrow> pl_geoWorker p = Running \<and> pl_writeWorker p = Running \<and> \<not> pl_closed p \<and> pl_geoCh p = [] \<and> pl_writeCh p = [] \<and>
     pending p = 0 \<and> bounds_ok p"

lemma closed_flow_queued:
  assumes "idle p"
  shows "\<exists>q. foldl pipeline_step p [PlClose clock s, PlGeo geo] = q \<and> pl_writeWorker q = Running \<and> pl_store q = pl_store p \<and> pending q = 0 \<and>
    pl_writeCh q = [enrich_item geo (closed_item clock (gget_default zero_active (pl_active p) (meta_ID (sum_Meta s))) s)]"
  using assms
  by (simp add: idle_def bounds_ok_def pipeline_Close_def enqueue_def geo_round_def count_defs pending_def Let_def)

lemma closed_flow_stored:
  assumes "idle p" and st: "pl_store p = Some st" and "fv_flows v" and "fv_flows v'" and "TrimSpace (meta_ID (sum_Meta s)) \<noteq> []"
    and "sql_uint (sum_BytesUp s) = Some up" and "sql_uint (sum_BytesDown s) = Some down"
  obtains st' row where "pl_store (foldl pipeline_step p [PlClose clock s, PlGeo geo, PlWrite v, PlTick v']) = Some st'"
    and "row \<in> set (au_flows st')" and "fl_FlowID row = meta_ID (sum_Meta s)" and "fl_Route row = meta_Route (sum_Meta s)"
    and "fl_Upstream row = meta_Upstream (sum_Meta s)" and "fl_ClientIP row = addr_text (ap_addr (meta_ClientAddr (sum_Meta s)))"
    and "fl_BytesUp row = up" and "fl_BytesDown row = down" and "fl_CloseReason row = sum_CloseReason s"
proof -
  obtain q where q: "foldl pipeline_step p [PlClose clock s, PlGeo geo] = q" "pl_writeWorker q = Running" "pl_store q = Some st" "pending q = 0"
      "pl_writeCh q = [enrich_item geo (closed_item clock (gget_default zero_active (pl_active p) (meta_ID (sum_Meta s))) s)]"
    using closed_flow_queued [OF assms(1), of clock s geo] st by auto
  define i where "i = enrich_item geo (closed_item clock (gget_default zero_active (pl_active p) (meta_ID (sum_Meta s))) s)"
  define p1 where "p1 = batch_item i (q\<lparr>pl_writeCh := []\<rparr>)"
  obtain f where f: "pi_flow i = Some f" "rc_FlowID f = meta_ID (sum_Meta s)" "rc_Route f = meta_Route (sum_Meta s)"
      "rc_Upstream f = meta_Upstream (sum_Meta s)" "rc_ClientIP f = addr_text (ap_addr (meta_ClientAddr (sum_Meta s)))"
      "rc_BytesUp f = sum_BytesUp s" "rc_BytesDown f = sum_BytesDown s" "rc_CloseReason f = sum_CloseReason s"
    by (cases geo) (auto simp: i_def enrich_item_def closed_item_def Let_def split: prod.splits)
  have p1: "pl_flows p1 = [f]" "pl_store p1 = Some st" "pl_writeWorker p1 = Running"
    using q f(1) by (auto simp: p1_def batch_item_def option_list_def pending_def)
  have stored: "\<exists>st' row. pl_store (flush w p1) = Some st' \<and> row \<in> set (au_flows st') \<and> fl_FlowID row = meta_ID (sum_Meta s) \<and>
      fl_Route row = meta_Route (sum_Meta s) \<and> fl_Upstream row = meta_Upstream (sum_Meta s) \<and>
      fl_ClientIP row = addr_text (ap_addr (meta_ClientAddr (sum_Meta s))) \<and> fl_BytesUp row = up \<and> fl_BytesDown row = down \<and>
      fl_CloseReason row = sum_CloseReason s" if "fv_flows w" for w
  proof -
    define st1 where "st1 = snd (InsertFlowEntities (fv_entities w) (fv_now w) (pl_entities p1) st)"
    define f' where "f' = f\<lparr>rc_Protocol := (if rc_Protocol f = [] then ''unknown'' else rc_Protocol f)\<rparr>"
    obtain row where row: "row \<in> set (au_flows (snd (InsertFlows True (fv_now w) [(f, fv_uuid w 0)] st1)))" "flow_row (fv_now w) f' = Some row"
      using insert_one_flow [of f up down "fv_now w" "fv_uuid w 0" st1] assms(5-7) f by (auto simp: f'_def)
    have "sql_uint (rc_BytesUp f') = Some up" "sql_uint (rc_BytesDown f') = Some down" using assms(6,7) f by (simp_all add: f'_def)
    from flow_row_some [OF this, of "fv_now w"] row(2)
    have "fl_FlowID row = rc_FlowID f'" "fl_Route row = rc_Route f'" "fl_Upstream row = rc_Upstream f'" "fl_ClientIP row = rc_ClientIP f'"
        "fl_BytesUp row = up" "fl_BytesDown row = down" "fl_CloseReason row = rc_CloseReason f'" by (metis option.inject)+
    with row(1) f that show ?thesis
      unfolding flush_store [OF p1(2)] p1(1) by (intro exI [of _ row] exI conjI) (rule refl, simp_all add: with_uuids_def st1_def f'_def)
  qed
  have e: "foldl pipeline_step p [PlClose clock s, PlGeo geo, PlWrite v, PlTick v'] = write_tick v' (write_round v q)"
    using q(1) by simp
  have w: "write_round v q = (if int (pending p1) \<ge> pl_batchSize p1 then flush v p1 else p1)"
    using q by (simp add: write_round_def p1_def i_def)
  have "\<exists>u. fv_flows u \<and> pl_store (write_tick v' (write_round v q)) = pl_store (flush u p1)"
  proof (cases "int (pending p1) \<ge> pl_batchSize p1")
    case True
    obtain st2 where "pl_store (flush v p1) = Some st2" using stored [OF assms(3)] by blast
    then have "pl_store (flush v' (flush v p1)) = pl_store (flush v p1)" using flush_nothing flush_spec [of v p1] by auto
    moreover have "pl_writeWorker (flush v p1) = Running" using flush_spec [of v p1] p1(3) by (simp add: queues_iff)
    ultimately show ?thesis using True assms(3) by (auto simp: w write_tick_def)
  next
    case False
    then show ?thesis using assms(4) p1(3) by (auto simp: w write_tick_def)
  qed
  then show thesis using stored e that by metis
qed

section \<open>Where the rows come from\<close>

text \<open>
  A record in a queue or a batch was made from one of the summaries the pipeline was given,
  and a row of the table is an old one or was written from such a record; no schedule of the
  workers, no drop and no failed write makes another.
\<close>

definition record_of :: "Summary \<Rightarrow> FlowRecord \<Rightarrow> bool" where
  "record_of s f \<longleftrightarrow> rc_FlowID f = meta_ID (sum_Meta s) \<and> rc_Route f = meta_Route (sum_Meta s) \<and>
     rc_Upstream f = meta_Upstream (sum_Meta s) \<and> rc_BytesUp f = sum_BytesUp s \<and> rc_BytesDown f = sum_BytesDown s \<and>
     rc_CloseReason f = sum_CloseReason s"

definition row_of :: "Summary \<Rightarrow> FlowRow \<Rightarrow> bool" where
  "row_of s row \<longleftrightarrow> fl_FlowID row = meta_ID (sum_Meta s) \<and> fl_Route row = meta_Route (sum_Meta s) \<and>
     fl_Upstream row = meta_Upstream (sum_Meta s) \<and> sql_uint (sum_BytesUp s) = Some (fl_BytesUp row) \<and>
     sql_uint (sum_BytesDown s) = Some (fl_BytesDown row) \<and> fl_CloseReason row = sum_CloseReason s"

definition item_from :: "Summary set \<Rightarrow> pipelineItem \<Rightarrow> bool" where
  "item_from S i \<longleftrightarrow> (\<forall>f. pi_flow i = Some f \<longrightarrow> (\<exists>s \<in> S. record_of s f))"

definition rows_from :: "Summary set \<Rightarrow> FlowRow list \<Rightarrow> Pipeline \<Rightarrow> bool" where
  "rows_from S old p \<longleftrightarrow> list_all (item_from S) (pl_geoCh p) \<and> list_all (item_from S) (pl_writeCh p) \<and>
     (\<forall>f \<in> set (pl_flows p). \<exists>s \<in> S. record_of s f) \<and>
     (\<forall>st. pl_store p = Some st \<longrightarrow> (\<forall>row \<in> set (au_flows st). row \<in> set old \<or> (\<exists>s \<in> S. row_of s row)))"

fun given :: "Summary set \<Rightarrow> pipeline_op \<Rightarrow> bool" where
  "given S (PlClose clock s) \<longleftrightarrow> s \<in> S \<and> meta_ID (sum_Meta s) \<noteq> []"
| "given S _ \<longleftrightarrow> True"

lemma entity_writes_keep_flows [simp]: "au_flows (snd (InsertFlowEntities db now es s)) = au_flows s"
proof -
  have u: "au_flows s' = au_flows s" if "upsertFlowEntityTx now x s = Inr s'" for x s s'
    using that by (auto simp: upsertFlowEntityTx_def split: option.splits if_splits)
  have "au_flows (snd (commit db s (tx_all (upsertFlowEntityTx now) es s))) = au_flows s"
    by (rule commit_keeps, rule tx_all_keeps [OF u])
  then show ?thesis by (simp add: InsertFlowEntities_def)
qed

lemma flow_row_of:
  assumes "record_of s r" and "meta_ID (sum_Meta s) \<noteq> []" and "insertFlowTx now (r, uuid) st = Inr st'"
    and "row \<in> set (au_flows st')"
  shows "row \<in> set (au_flows st) \<or> row_of s row"
proof -
  define r' where "r' = r\<lparr>rc_Protocol := (if rc_Protocol r = [] then ''unknown'' else rc_Protocol r)\<rparr>"
  have id: "rc_FlowID r \<noteq> []" using assms(1,2) by (simp add: record_of_def)
  have same: "r\<lparr>rc_FlowID := rc_FlowID r, rc_Protocol := x\<rparr> = r\<lparr>rc_Protocol := x\<rparr>" for x by simp
  obtain s1 new where s1: "upsertFlowEntityTx now (closed_entity now r') st = Inr s1" "flow_row now r' = Some new"
      "st' = s1\<lparr>au_flows := sql_upsert fl_FlowID (\<lambda>old new. new) new (au_flows s1)\<rparr>"
    using assms(3) id same unfolding insertFlowTx_def
    by (simp add: r'_def [symmetric] Let_def split: sum.splits option.splits)
  have "au_flows s1 = au_flows st" using s1(1) by (auto simp: upsertFlowEntityTx_def split: option.splits if_splits)
  with assms(4) s1(3) have "row \<in> set (au_flows st) \<or> row = new" by (auto simp: sql_upsert_def split: if_splits)
  moreover have "row_of s new"
  proof -
    obtain up down where "sql_uint (rc_BytesUp r') = Some up" "sql_uint (rc_BytesDown r') = Some down"
      using s1(2) by (cases "sql_uint (rc_BytesUp r')"; cases "sql_uint (rc_BytesDown r')") (auto simp: flow_row_def split: prod.splits)
    from flow_row_some [OF this, of now] s1(2) this assms(1) show ?thesis
      by (auto simp: row_of_def record_of_def r'_def)
  qed
  ultimately show ?thesis by auto
qed

lemma insert_flows_from:
  assumes "\<forall>x \<in> set recs. \<exists>s \<in> S. record_of s (fst x)" and "\<forall>s \<in> S. meta_ID (sum_Meta s) \<noteq> []"
    and "row \<in> set (au_flows (snd (InsertFlows db now recs st)))"
  shows "row \<in> set (au_flows st) \<or> (\<exists>s \<in> S. row_of s row)"
proof -
  have tx: "row \<in> set (au_flows st') \<Longrightarrow> row \<in> set (au_flows st) \<or> (\<exists>s \<in> S. row_of s row)" if "tx_all (insertFlowTx now) recs st = Inr st'" for st'
    using that assms(1)
  proof (induction recs arbitrary: st)
    case (Cons x recs)
    obtain r u where x: "x = (r, u)" by (cases x)
    obtain st1 where st1: "insertFlowTx now (r, u) st = Inr st1" "tx_all (insertFlowTx now) recs st1 = Inr st'"
      using Cons.prems(2) x by (auto split: sum.splits)
    obtain s where "s \<in> S" "record_of s r" using Cons.prems(3) x by auto
    moreover have "row \<in> set (au_flows st1) \<or> (\<exists>s \<in> S. row_of s row)"
      using Cons.IH [OF Cons.prems(1) st1(2)] Cons.prems(3) by simp
    ultimately show ?case using flow_row_of [OF _ _ st1(1), of s row] assms(2) by blast
  qed simp
  show ?thesis
    using assms(3) tx by (cases "tx_all (insertFlowTx now) recs st") (auto simp: InsertFlows_def commit_def split: if_splits)
qed

lemma from_flush:
  assumes "rows_from S old p" and "\<forall>s \<in> S. meta_ID (sum_Meta s) \<noteq> []"
  shows "rows_from S old (flush v p)"
proof -
  have q: "pl_geoCh (flush v p) = pl_geoCh p" "pl_writeCh (flush v p) = pl_writeCh p" "pl_flows (flush v p) = []"
    using flush_spec [of v p] by (auto simp: queues_iff pending_def)
  have rows: "row \<in> set old \<or> (\<exists>s \<in> S. row_of s row)" if st: "pl_store (flush v p) = Some st'" "row \<in> set (au_flows st')" for st' row
  proof (cases "pl_store p")
    case None
    then show ?thesis using st(1) by (simp add: flush_def count_dropped_def)
  next
    case (Some st)
    have "row \<in> set (au_flows (snd (InsertFlows (fv_flows v) (fv_now v) (with_uuids (fv_uuid v) (pl_flows p))
        (snd (InsertFlowEntities (fv_entities v) (fv_now v) (pl_entities p) st)))))"
      using st flush_store [OF Some, of v] by auto
    moreover have "\<forall>x \<in> set (with_uuids (fv_uuid v) (pl_flows p)). \<exists>s \<in> S. record_of s (fst x)"
      using assms(1) by (auto simp: rows_from_def with_uuids_def dest: set_zip_leftD)
    ultimately have "row \<in> set (au_flows st) \<or> (\<exists>s \<in> S. row_of s row)"
      using insert_flows_from [OF _ assms(2)] by fastforce
    then show ?thesis using assms(1) Some by (auto simp: rows_from_def)
  qed
  then show ?thesis using assms(1) q by (simp add: rows_from_def)
qed

lemma from_enqueue: "rows_from S old p \<Longrightarrow> item_from S i \<Longrightarrow> rows_from S old (enqueue i p)"
  by (auto simp: rows_from_def enqueue_def count_defs Let_def)

lemma from_active: "rows_from S old p \<Longrightarrow> rows_from S old (p\<lparr>pl_active := a\<rparr>)"
  by (simp add: rows_from_def)

lemma from_step:
  assumes "rows_from S old p" and "given S e" and "\<forall>s \<in> S. meta_ID (sum_Meta s) \<noteq> []"
  shows "rows_from S old (pipeline_step p e)"
proof -
  have none: "item_from S (empty_item\<lparr>pi_entity := a\<rparr>)" "item_from S (empty_item\<lparr>pi_checkpoint := b\<rparr>)"
    "item_from S (empty_item\<lparr>pi_rejection := c\<rparr>)" for a b c by (simp_all add: item_from_def empty_item_def)
  note enq = from_enqueue [OF from_active [OF assms(1)]] from_enqueue [OF assms(1)]
  show ?thesis
  proof (cases e)
    case (PlClose clock s)
    have "item_from S (closed_item clock current s)" for current
      using assms(2) PlClose by (auto simp: item_from_def closed_item_def record_of_def Let_def)
    then show ?thesis using PlClose enq(1) by (simp add: pipeline_Close_def)
  next
    case (PlReject uuid clock r)
    have "rows_from S old (snd (allowRejection key t p))" for key t
      using assms(1) by (simp add: allowRejection_def rows_from_def Let_def)
    then have "rows_from S old p1" if "allowRejection key t p = (b, p1)" for key t b p1 using that by (metis snd_conv)
    then show ?thesis using PlReject assms(1) none
      by (auto simp: pipeline_Reject_def Let_def intro: from_enqueue split: prod.splits bool.splits)
  next
    case (PlGeo geo)
    have "record_of s (case look (rc_ClientIP f) of (asn, org, country) \<Rightarrow> f\<lparr>rc_ASN := asn, rc_ASOrg := org, rc_Country := country\<rparr>) = record_of s f"
      for s look f by (simp add: record_of_def split: prod.splits)
    then have "item_from S (enrich_item geo i)" if "item_from S i" for i
      using that by (cases geo) (auto simp: item_from_def enrich_item_def)
    then show ?thesis using PlGeo assms(1) by (auto simp: geo_round_def rows_from_def count_defs Let_def split: list.splits)
  next
    case (PlWrite v)
    show ?thesis
    proof (cases "pl_writeCh p")
      case Nil
      have "rows_from S old (q\<lparr>pl_writeWorker := w\<rparr>) = rows_from S old q" for q w by (simp add: rows_from_def)
      then show ?thesis using PlWrite Nil assms(1) from_flush [OF assms(1,3), of v] by (simp add: write_round_def)
    next
      case (Cons i rest)
      have "rows_from S old (batch_item i (p\<lparr>pl_writeCh := rest\<rparr>))"
        using assms(1) Cons by (auto simp: rows_from_def batch_item_def item_from_def option_list_def split: option.splits)
      then show ?thesis using PlWrite Cons assms(1) from_flush [OF _ assms(3), of old "batch_item i (p\<lparr>pl_writeCh := rest\<rparr>)" v]
        by (simp add: write_round_def Let_def)
    qed
  next
    case (PlTick v)
    then show ?thesis using assms(1) from_flush [OF assms(1,3), of v] by (simp add: write_tick_def)
  next
    case (PlUpdate clock fid c)
    then show ?thesis using assms(1) none enq from_active [OF assms(1)] by (auto simp: pipeline_Update_def Let_def split: option.splits)
  next
    case (PlOpen m)
    then show ?thesis using none enq(1) by (simp add: pipeline_Open_def)
  next
    case (PlPublish x)
    then show ?thesis using none enq(2) by (simp add: PublishEntity_def)
  qed (use assms(1) in \<open>auto simp: pipeline_Start_def pipeline_Shutdown_def rows_from_def\<close>)
qed

lemma stored_rows_from_summaries:
  assumes "pl_store (foldl pipeline_step (NewPipeline cfg (Some st0) metricSet) ops) = Some st" and "row \<in> set (au_flows st)"
    and "\<And>clock s. PlClose clock s \<in> set ops \<Longrightarrow> meta_ID (sum_Meta s) \<noteq> []"
  shows "row \<in> set (au_flows st0) \<or> (\<exists>clock s. PlClose clock s \<in> set ops \<and> row_of s row)"
proof -
  define S where "S = {s. \<exists>clock. PlClose clock s \<in> set ops}"
  have S: "\<forall>s \<in> S. meta_ID (sum_Meta s) \<noteq> []" using assms(3) by (auto simp: S_def)
  have "given S e" if "e \<in> set ops" for e
  proof (cases e)
    case (PlClose clock s)
    then have "s \<in> S" using that by (auto simp: S_def)
    then show ?thesis using PlClose S by simp
  qed auto
  moreover have "rows_from S (au_flows st0) (NewPipeline cfg (Some st0) metricSet)" by (simp add: rows_from_def NewPipeline_def)
  then have "rows_from S (au_flows st0) (foldl pipeline_step (NewPipeline cfg (Some st0) metricSet) xs)" if "\<forall>e \<in> set xs. given S e" for xs
    using that by (induction xs rule: rev_induct) (auto intro: from_step [OF _ _ S])
  ultimately have "rows_from S (au_flows st0) (foldl pipeline_step (NewPipeline cfg (Some st0) metricSet) ops)" by blast
  then show ?thesis using assms(1,2) by (auto simp: rows_from_def S_def)
qed

end
