(* ===== verification/AuditQuery.thy ===== *)
theory AuditQuery
  imports AuditStore "HOL-Library.Product_Lexorder"
begin

text \<open>
  The queries of the audit store (\<open>internal/audit/query.go\<close>, with the query types of
  \<open>model.go\<close> and the column maps of \<open>store.go\<close>): normalising the parameters, the conditions
  of the \<open>WHERE\<close> clauses, the byte range of a network, and the pages of Flows, rejections and
  both together. A \<open>WHERE\<close> clause is the list of its conditions as predicates on rows; a
  comparison with \<open>NULL\<close> selects nothing. \<open>ORDER BY\<close> is a stable sort by the values of its
  columns, in the order SQLite gives them. The row identifiers, which SQLite assigns, are
  arguments: the lists \<open>ids\<close> beside the rows. The texts of the errors are the constructors of
  \<open>query_error\<close>.
\<close>

unbundle bit_operations_syntax

section \<open>Values of SQLite\<close>

datatype sql_value = SqlNull | SqlInt int | SqlText string

text \<open>\<open>NULL\<close> comes before integers, integers before texts; texts compare byte by byte.\<close>

fun sql_key :: "sql_value \<Rightarrow> nat \<times> int \<times> nat list" where
  "sql_key SqlNull = (0, 0, [])"
| "sql_key (SqlInt i) = (1, i, [])"
| "sql_key (SqlText s) = (2, 0, map of_char s)"

lemma inj_of_char_map: "map of_char s = (map of_char t :: nat list) \<longleftrightarrow> s = t"
  by (induction s arbitrary: t) (auto simp: Cons_eq_map_conv)

lemma sql_key_inj: "sql_key a = sql_key b \<longleftrightarrow> a = b"
  by (cases a; cases b) (auto simp: inj_of_char_map)

instantiation sql_value :: linorder
begin

definition less_eq_sql_value :: "sql_value \<Rightarrow> sql_value \<Rightarrow> bool" where
  "less_eq_sql_value a b \<longleftrightarrow> sql_key a \<le> sql_key b"

definition less_sql_value :: "sql_value \<Rightarrow> sql_value \<Rightarrow> bool" where
  "less_sql_value a b \<longleftrightarrow> sql_key a < sql_key b"

instance
proof
  fix a b c :: sql_value
  show "a < b \<longleftrightarrow> a \<le> b \<and> \<not> b \<le> a" unfolding less_eq_sql_value_def less_sql_value_def by (rule less_le_not_le)
  show "a \<le> a" by (simp add: less_eq_sql_value_def)
  show "a \<le> b \<Longrightarrow> b \<le> c \<Longrightarrow> a \<le> c" unfolding less_eq_sql_value_def by (rule order_trans)
  show "a \<le> b \<Longrightarrow> b \<le> a \<Longrightarrow> a = b" unfolding less_eq_sql_value_def sql_key_inj [symmetric] by (rule antisym)
  show "a \<le> b \<or> b \<le> a" unfolding less_eq_sql_value_def by (rule linear)
qed

end

definition sql_int :: "int option \<Rightarrow> sql_value" where
  "sql_int v = (case v of None \<Rightarrow> SqlNull | Some i \<Rightarrow> SqlInt i)"

definition sql_text :: "string option \<Rightarrow> sql_value" where
  "sql_text v = (case v of None \<Rightarrow> SqlNull | Some s \<Rightarrow> SqlText s)"

text \<open>\<open>CAST(text AS INTEGER)\<close>: the longest prefix that is an integer, within 64 bits.\<close>

definition max_int64 :: int where "max_int64 = 9223372036854775807"
definition min_int64 :: int where "min_int64 = - 9223372036854775808"

definition wrap64 :: "int \<Rightarrow> int" where
  "wrap64 x = (x + 9223372036854775808) mod 18446744073709551616 - 9223372036854775808"

definition sql_cast_int :: "string \<Rightarrow> int" where
  "sql_cast_int s =
     (let t = dropWhile is_space s;
          neg = (t \<noteq> [] \<and> hd t = CHR ''-'');
          body = (if t \<noteq> [] \<and> (hd t = CHR ''-'' \<or> hd t = CHR ''+'') then tl t else t);
          v = int (digits_value (takeWhile is_digit body))
      in if neg then max min_int64 (- v) else min max_int64 v)"

text \<open>\<open>instr(s, t)\<close>: the position after which \<open>t\<close> occurs first.\<close>

fun find_text :: "string \<Rightarrow> string \<Rightarrow> nat option" where
  "find_text t [] = (if t = [] then Some 0 else None)"
| "find_text t (c # s) = (if take (length t) (c # s) = t then Some 0 else map_option Suc (find_text t s))"

definition listenerPortSQL :: "string \<Rightarrow> int" where
  "listenerPortSQL listener =
     sql_cast_int
       (case find_text '']:'' listener of
          Some i \<Rightarrow> drop (i + 2) listener
        | None \<Rightarrow> (case find_text '':'' listener of Some i \<Rightarrow> drop (i + 1) listener | None \<Rightarrow> ''0''))"

section \<open>Parameters\<close>

definition DefaultQueryLimit :: int where "DefaultQueryLimit = 200"
definition MaxQueryLimit :: int where "MaxQueryLimit = 1000"
definition EntryTypeAll :: string where "EntryTypeAll = ''all''"
definition EntryTypeFlow :: string where "EntryTypeFlow = ''flow''"
definition EntryTypeRejection :: string where "EntryTypeRejection = ''rejection''"

record QueryParams =
  qp_StartTime :: "int option"
  qp_EndTime :: "int option"
  qp_CIDR :: string
  qp_IP :: string
  qp_ASN :: "int option"
  qp_Country :: string
  qp_Tag :: string
  qp_Protocol :: string
  qp_Upstream :: string
  qp_SortBy :: string
  qp_SortOrder :: string
  qp_Limit :: int
  qp_Offset :: int

record RejectionQueryParams =
  rq_StartTime :: "int option"
  rq_EndTime :: "int option"
  rq_CIDR :: string
  rq_IP :: string
  rq_ASN :: "int option"
  rq_Country :: string
  rq_Tag :: string
  rq_Reason :: string
  rq_Protocol :: string
  rq_Port :: "int option"
  rq_MatchedRuleType :: string
  rq_MatchedRuleValue :: string
  rq_SortBy :: string
  rq_SortOrder :: string
  rq_Limit :: int
  rq_Offset :: int

record LogEventQueryParams =
  eq_StartTime :: "int option"
  eq_EndTime :: "int option"
  eq_CIDR :: string
  eq_IP :: string
  eq_ASN :: "int option"
  eq_Country :: string
  eq_Tag :: string
  eq_Protocol :: string
  eq_Upstream :: string
  eq_Port :: "int option"
  eq_Reason :: string
  eq_MatchedRuleType :: string
  eq_MatchedRuleValue :: string
  eq_EntryType :: string
  eq_SortBy :: string
  eq_SortOrder :: string
  eq_Limit :: int
  eq_Offset :: int

datatype query_error =
    CIDRNeedsTime
  | NegativeOffset
  | TimeRange
  | BadProtocol
  | BadPort
  | BadSortBy
  | BadSortOrder
  | BadEntryType
  | BadCIDR
  | QueryFailed

section \<open>Normalisation\<close>

definition clamp_limit :: "int \<Rightarrow> int" where
  "clamp_limit limit =
     (let l = (if limit \<le> 0 then DefaultQueryLimit else limit) in if l > MaxQueryLimit then MaxQueryLimit else l)"

definition bad_range :: "int option \<Rightarrow> int option \<Rightarrow> bool" where
  "bad_range start stop = (case (start, stop) of (Some a, Some b) \<Rightarrow> a > b | _ \<Rightarrow> False)"

definition bad_protocol :: "string \<Rightarrow> bool" where
  "bad_protocol p \<longleftrightarrow> p \<noteq> [] \<and> p \<noteq> ''tcp'' \<and> p \<noteq> ''udp''"

definition default_text :: "string \<Rightarrow> string \<Rightarrow> string" where
  "default_text fallback s = (if s = [] then fallback else s)"

definition bad_order :: "string \<Rightarrow> bool" where
  "bad_order p \<longleftrightarrow> p \<noteq> ''asc'' \<and> p \<noteq> ''desc''"

definition bad_port :: "int option \<Rightarrow> bool" where
  "bad_port p = (case p of None \<Rightarrow> False | Some n \<Rightarrow> n \<le> 0)"

definition flowSortKeys :: "string list" where
  "flowSortKeys = [''recorded_at'', ''bytes_up'', ''bytes_down'', ''bytes_total'', ''duration_ms'']"

definition rejectionSortKeys :: "string list" where
  "rejectionSortKeys = [''recorded_at'', ''ip'', ''asn'', ''country'', ''protocol'', ''port'', ''reason'', ''matched_rule_type'', ''matched_rule_value'']"

definition normalizeQuery :: "QueryParams \<Rightarrow> query_error + QueryParams" where
  "normalizeQuery p =
     (let country = ToUpper (TrimSpace (qp_Country p)); protocol = ToLower (TrimSpace (qp_Protocol p));
          sortBy = default_text ''recorded_at'' (qp_SortBy p);
          sortOrder = default_text ''desc'' (ToLower (TrimSpace (qp_SortOrder p)))
      in if qp_CIDR p \<noteq> [] \<and> qp_StartTime p = None \<and> qp_EndTime p = None then Inl CIDRNeedsTime
         else if qp_Offset p < 0 then Inl NegativeOffset
         else if bad_range (qp_StartTime p) (qp_EndTime p) then Inl TimeRange
         else if bad_protocol protocol then Inl BadProtocol
         else if sortBy \<notin> set flowSortKeys then Inl BadSortBy
         else if bad_order sortOrder then Inl BadSortOrder
         else Inr (p\<lparr>qp_Limit := clamp_limit (qp_Limit p), qp_Country := country, qp_Protocol := protocol,
                     qp_Tag := TrimSpace (qp_Tag p), qp_SortBy := sortBy, qp_SortOrder := sortOrder\<rparr>))"

definition normalizeRejectionQuery :: "RejectionQueryParams \<Rightarrow> query_error + RejectionQueryParams" where
  "normalizeRejectionQuery p =
     (let country = ToUpper (TrimSpace (rq_Country p)); protocol = ToLower (TrimSpace (rq_Protocol p));
          sortBy = default_text ''recorded_at'' (rq_SortBy p);
          sortOrder = default_text ''desc'' (ToLower (TrimSpace (rq_SortOrder p)))
      in if rq_CIDR p \<noteq> [] \<and> rq_StartTime p = None \<and> rq_EndTime p = None then Inl CIDRNeedsTime
         else if rq_Offset p < 0 then Inl NegativeOffset
         else if bad_range (rq_StartTime p) (rq_EndTime p) then Inl TimeRange
         else if bad_protocol protocol then Inl BadProtocol
         else if bad_port (rq_Port p) then Inl BadPort
         else if sortBy \<notin> set rejectionSortKeys then Inl BadSortBy
         else if bad_order sortOrder then Inl BadSortOrder
         else Inr (p\<lparr>rq_Limit := clamp_limit (rq_Limit p), rq_Country := country, rq_Protocol := protocol,
                     rq_Tag := TrimSpace (rq_Tag p), rq_SortBy := sortBy, rq_SortOrder := sortOrder\<rparr>))"

definition eventSortKeys :: "string \<Rightarrow> string list" where
  "eventSortKeys entryType =
     [''recorded_at'', ''ip'', ''asn'', ''country'', ''protocol'', ''port'', ''entry_type''] @
     (if entryType = EntryTypeFlow then [''upstream'', ''bytes_up'', ''bytes_down'', ''bytes_total'', ''duration_ms''] else []) @
     (if entryType = EntryTypeRejection then [''reason'', ''matched_rule_type'', ''matched_rule_value''] else [])"

definition normalizeLogEventQuery :: "LogEventQueryParams \<Rightarrow> query_error + LogEventQueryParams" where
  "normalizeLogEventQuery p =
     (let entryType = default_text EntryTypeAll (ToLower (TrimSpace (eq_EntryType p)));
          protocol = ToLower (TrimSpace (eq_Protocol p));
          sortBy = default_text ''recorded_at'' (eq_SortBy p);
          sortOrder = default_text ''desc'' (ToLower (TrimSpace (eq_SortOrder p)))
      in if entryType \<noteq> EntryTypeAll \<and> entryType \<noteq> EntryTypeFlow \<and> entryType \<noteq> EntryTypeRejection then Inl BadEntryType
         else if eq_Offset p < 0 then Inl NegativeOffset
         else if bad_range (eq_StartTime p) (eq_EndTime p) then Inl TimeRange
         else if bad_protocol protocol then Inl BadProtocol
         else if bad_port (eq_Port p) then Inl BadPort
         else if bad_order sortOrder then Inl BadSortOrder
         else if sortBy \<notin> set (eventSortKeys entryType) then Inl BadSortBy
         else Inr (p\<lparr>eq_EntryType := entryType, eq_Limit := clamp_limit (eq_Limit p), eq_Protocol := protocol,
                     eq_Country := ToUpper (TrimSpace (eq_Country p)), eq_Tag := TrimSpace (eq_Tag p),
                     eq_SortOrder := sortOrder, eq_SortBy := sortBy\<rparr>))"

section \<open>Conditions\<close>

definition cidrRange :: "string \<Rightarrow> (int \<times> byte list \<times> byte list) option" where
  "cidrRange raw =
     (case ParseCIDR raw of
        None \<Rightarrow> None
      | Some n \<Rightarrow>
          (case to4 (net_IP n) of
             Some start \<Rightarrow> Some (4, start, map2 (\<lambda>b m. b OR NOT m) start (take 4 (net_Mask n)))
           | None \<Rightarrow> Some (6, net_IP n, map2 (\<lambda>b m. b OR NOT m) (net_IP n) (net_Mask n))))"

text \<open>The comparison of two blobs: byte by byte, then by length.\<close>

fun blob_le :: "byte list \<Rightarrow> byte list \<Rightarrow> bool" where
  "blob_le [] ys = True"
| "blob_le (x # xs) [] = False"
| "blob_le (x # xs) (y # ys) = (x < y \<or> x = y \<and> blob_le xs ys)"

definition in_range :: "int \<times> byte list \<times> byte list \<Rightarrow> int \<Rightarrow> byte list \<Rightarrow> bool" where
  "in_range rg family blob =
     (case rg of (f, start, stop) \<Rightarrow> family = f \<and> blob_le start blob \<and> blob_le blob stop)"

definition sql_where :: "('r \<Rightarrow> bool) list \<Rightarrow> 'r \<Rightarrow> bool" where
  "sql_where conditions r = list_all (\<lambda>c. c r) conditions"

definition when_some :: "'a option \<Rightarrow> ('a \<Rightarrow> 'r \<Rightarrow> bool) \<Rightarrow> ('r \<Rightarrow> bool) list" where
  "when_some v c = (case v of None \<Rightarrow> [] | Some x \<Rightarrow> [c x])"

definition when_text :: "string \<Rightarrow> (string \<Rightarrow> 'r \<Rightarrow> bool) \<Rightarrow> ('r \<Rightarrow> bool) list" where
  "when_text s c = (if s = [] then [] else [c s])"

definition to_millis :: "int \<Rightarrow> int" where
  "to_millis t = wrap64 (t * 1000)"

text \<open>The two \<open>EXISTS\<close> subqueries of a tag condition.\<close>

definition flow_has_tag :: "time \<Rightarrow> AuditStore \<Rightarrow> string \<Rightarrow> FlowRow \<Rightarrow> bool" where
  "flow_has_tag now s tag r \<longleftrightarrow>
     list_ex (\<lambda>t. tg_Owner t = fl_FlowID r \<and> tg_Tag t = tag \<and> tag_live now t) (au_flowTags s) \<or>
     list_ex (\<lambda>t. tg_Owner t = fl_ClientIP r \<and> tg_Tag t = tag \<and> tag_live now t) (au_clientTags s)"

definition with_cidr :: "string \<Rightarrow> ('r \<Rightarrow> int) \<Rightarrow> ('r \<Rightarrow> byte list) \<Rightarrow> (query_error + ('r \<Rightarrow> bool) list)" where
  "with_cidr raw family blob =
     (if raw = [] then Inr []
      else case cidrRange raw of
             None \<Rightarrow> Inl BadCIDR
           | Some rg \<Rightarrow> Inr [\<lambda>r. in_range rg (family r) (blob r)])"

definition flowWhere :: "time \<Rightarrow> AuditStore \<Rightarrow> QueryParams \<Rightarrow> query_error + (FlowRow \<Rightarrow> bool) list" where
  "flowWhere now s p =
     (case with_cidr (qp_CIDR p) fl_Family fl_ClientBytes of
        Inl e \<Rightarrow> Inl e
      | Inr cidr \<Rightarrow> Inr
          (when_some (qp_StartTime p) (\<lambda>t r. fl_EndedAt r \<ge> to_millis t) @
           when_some (qp_EndTime p) (\<lambda>t r. fl_EndedAt r \<le> to_millis t) @
           when_some (qp_ASN p) (\<lambda>n r. fl_ASN r = Some n) @
           when_text (qp_Country p) (\<lambda>c r. fl_Country r = Some c) @
           when_text (qp_Protocol p) (\<lambda>c r. fl_Protocol r = c) @
           when_text (qp_Upstream p) (\<lambda>c r. fl_Upstream r = c) @
           when_text (qp_IP p) (\<lambda>c r. fl_ClientIP r = c) @
           cidr @
           when_text (qp_Tag p) (\<lambda>t r. flow_has_tag now s t r)))"

definition rejectionWhere :: "RejectionQueryParams \<Rightarrow> query_error + (RejectionEventRow \<Rightarrow> bool) list" where
  "rejectionWhere p =
     (case with_cidr (rq_CIDR p) re_Family re_ClientBytes of
        Inl e \<Rightarrow> Inl e
      | Inr cidr \<Rightarrow> Inr
          (when_some (rq_StartTime p) (\<lambda>t r. re_RecordedAt r \<ge> to_millis t) @
           when_some (rq_EndTime p) (\<lambda>t r. re_RecordedAt r \<le> to_millis t) @
           when_some (rq_ASN p) (\<lambda>n r. re_ASN r = Some n) @
           when_text (rq_Country p) (\<lambda>c r. re_Country r = Some c) @
           cidr @
           when_text (rq_Tag p) (\<lambda>t r. False) @
           when_text (rq_IP p) (\<lambda>c r. re_ClientIP r = c) @
           when_text (rq_Reason p) (\<lambda>c r. re_Reason r = c) @
           when_text (rq_Protocol p) (\<lambda>c r. re_Protocol r = c) @
           when_some (rq_Port p) (\<lambda>n r. re_Port r = n) @
           when_text (rq_MatchedRuleType p) (\<lambda>c r. re_MatchedRuleType r = c) @
           when_text (rq_MatchedRuleValue p) (\<lambda>c r. re_MatchedRuleValue r = c)))"

text \<open>\<open>eventWhere\<close> for the two tables; both check the network first, so both report its error.\<close>

definition event_cidr :: "LogEventQueryParams \<Rightarrow> ('r \<Rightarrow> int) \<Rightarrow> ('r \<Rightarrow> byte list) \<Rightarrow> query_error + ('r \<Rightarrow> bool) list" where
  "event_cidr p family blob =
     (if eq_CIDR p \<noteq> [] \<and> eq_StartTime p = None \<and> eq_EndTime p = None then Inl CIDRNeedsTime
      else with_cidr (eq_CIDR p) family blob)"

definition event_flow_where :: "time \<Rightarrow> AuditStore \<Rightarrow> LogEventQueryParams \<Rightarrow> query_error + (FlowRow \<Rightarrow> bool) list" where
  "event_flow_where now s p =
     (case event_cidr p fl_Family fl_ClientBytes of
        Inl e \<Rightarrow> Inl e
      | Inr cidr \<Rightarrow> Inr
          (when_some (eq_StartTime p) (\<lambda>t r. fl_EndedAt r \<ge> to_millis t) @
           when_some (eq_EndTime p) (\<lambda>t r. fl_EndedAt r \<le> to_millis t) @
           cidr @
           when_text (eq_Tag p) (\<lambda>t r. flow_has_tag now s t r) @
           when_some (eq_ASN p) (\<lambda>n r. fl_ASN r = Some n) @
           when_text (eq_Country p) (\<lambda>c r. fl_Country r = Some c) @
           when_text (eq_Protocol p) (\<lambda>c r. fl_Protocol r = c) @
           when_text (eq_IP p) (\<lambda>c r. fl_ClientIP r = c) @
           when_text (eq_Upstream p) (\<lambda>c r. fl_Upstream r = c) @
           when_some (eq_Port p) (\<lambda>n r. listenerPortSQL (fl_Listener r) = n) @
           (if eq_Reason p \<noteq> [] \<or> eq_MatchedRuleType p \<noteq> [] \<or> eq_MatchedRuleValue p \<noteq> [] then [\<lambda>r. False] else [])))"

definition event_rejection_where :: "LogEventQueryParams \<Rightarrow> query_error + (RejectionEventRow \<Rightarrow> bool) list" where
  "event_rejection_where p =
     (case event_cidr p re_Family re_ClientBytes of
        Inl e \<Rightarrow> Inl e
      | Inr cidr \<Rightarrow> Inr
          (when_some (eq_StartTime p) (\<lambda>t r. re_RecordedAt r \<ge> to_millis t) @
           when_some (eq_EndTime p) (\<lambda>t r. re_RecordedAt r \<le> to_millis t) @
           cidr @
           when_text (eq_Tag p) (\<lambda>t r. False) @
           when_some (eq_ASN p) (\<lambda>n r. re_ASN r = Some n) @
           when_text (eq_Country p) (\<lambda>c r. re_Country r = Some c) @
           when_text (eq_Protocol p) (\<lambda>c r. re_Protocol r = c) @
           when_text (eq_IP p) (\<lambda>c r. re_ClientIP r = c) @
           when_text (eq_Upstream p) (\<lambda>c r. False) @
           when_some (eq_Port p) (\<lambda>n r. re_Port r = n) @
           when_text (eq_Reason p) (\<lambda>c r. re_Reason r = c) @
           when_text (eq_MatchedRuleType p) (\<lambda>c r. re_MatchedRuleType r = c) @
           when_text (eq_MatchedRuleValue p) (\<lambda>c r. re_MatchedRuleValue r = c)))"

section \<open>Pages\<close>

text \<open>\<open>ORDER BY c order, id order LIMIT limit OFFSET offset\<close>.\<close>

definition before_by :: "bool \<Rightarrow> ('r \<Rightarrow> 'k::linorder) \<Rightarrow> 'r \<Rightarrow> 'r \<Rightarrow> bool" where
  "before_by desc key a b = (if desc then key b < key a else key a < key b)"

definition order_by :: "string \<Rightarrow> ('r \<Rightarrow> sql_value) \<Rightarrow> (int \<times> 'r) list \<Rightarrow> (int \<times> 'r) list" where
  "order_by sortOrder col rows = stable_sort (before_by (sortOrder = ''desc'') (\<lambda>(i, r). (col r, i))) rows"

definition page :: "int \<Rightarrow> int \<Rightarrow> 'r list \<Rightarrow> 'r list" where
  "page limit offset rows = take (nat limit) (drop (nat offset) rows)"

definition flowSortColumns :: "string \<Rightarrow> FlowRow \<Rightarrow> sql_value" where
  "flowSortColumns sortBy r =
     (if sortBy = ''bytes_up'' then SqlInt (fl_BytesUp r)
      else if sortBy = ''bytes_down'' then SqlInt (fl_BytesDown r)
      else if sortBy = ''bytes_total'' then SqlInt (fl_BytesUp r + fl_BytesDown r)
      else if sortBy = ''duration_ms'' then SqlInt (fl_EndedAt r - fl_StartedAt r)
      else SqlInt (fl_EndedAt r))"

definition rejectionSortColumns :: "string \<Rightarrow> RejectionEventRow \<Rightarrow> sql_value" where
  "rejectionSortColumns sortBy r =
     (if sortBy = ''ip'' then SqlText (re_ClientIP r)
      else if sortBy = ''asn'' then sql_int (re_ASN r)
      else if sortBy = ''country'' then sql_text (re_Country r)
      else if sortBy = ''protocol'' then SqlText (re_Protocol r)
      else if sortBy = ''port'' then SqlInt (re_Port r)
      else if sortBy = ''reason'' then SqlText (re_Reason r)
      else if sortBy = ''matched_rule_type'' then SqlText (re_MatchedRuleType r)
      else if sortBy = ''matched_rule_value'' then SqlText (re_MatchedRuleValue r)
      else SqlInt (re_RecordedAt r))"

record Record =
  qr_ID :: int
  qr_FlowID :: string
  qr_IP :: string
  qr_ASN :: int
  qr_ASOrg :: string
  qr_Country :: string
  qr_Protocol :: string
  qr_Upstream :: string
  qr_Listener :: string
  qr_Route :: string
  qr_Port :: int
  qr_BytesUp :: uint64
  qr_BytesDown :: uint64
  qr_DurationMs :: int
  qr_StartedAt :: int
  qr_EndedAt :: int
  qr_CloseReason :: string
  qr_RecordedAt :: int

definition null_int :: "int option \<Rightarrow> int" where
  "null_int v = (case v of None \<Rightarrow> 0 | Some i \<Rightarrow> i)"

definition null_text :: "string option \<Rightarrow> string" where
  "null_text v = (case v of None \<Rightarrow> [] | Some s \<Rightarrow> s)"

definition scanFlowRecord :: "int \<times> FlowRow \<Rightarrow> Record" where
  "scanFlowRecord p =
     (case p of (i, r) \<Rightarrow>
        \<lparr>qr_ID = i, qr_FlowID = fl_FlowID r, qr_IP = fl_ClientIP r, qr_ASN = null_int (fl_ASN r), qr_ASOrg = null_text (fl_ASOrg r),
         qr_Country = null_text (fl_Country r), qr_Protocol = fl_Protocol r, qr_Upstream = fl_Upstream r, qr_Listener = fl_Listener r,
         qr_Route = fl_Route r, qr_Port = listenerPortSQL (fl_Listener r), qr_BytesUp = word_of_int (fl_BytesUp r),
         qr_BytesDown = word_of_int (fl_BytesDown r), qr_DurationMs = fl_EndedAt r - fl_StartedAt r, qr_StartedAt = fl_StartedAt r,
         qr_EndedAt = fl_EndedAt r, qr_CloseReason = fl_CloseReason r, qr_RecordedAt = trunc_div (fl_EndedAt r) 1000\<rparr>)"

record RejectionRecord =
  jr_ID :: int
  jr_EventID :: string
  jr_IP :: string
  jr_ASN :: int
  jr_ASOrg :: string
  jr_Country :: string
  jr_Protocol :: string
  jr_Port :: int
  jr_Reason :: string
  jr_MatchedRuleType :: string
  jr_MatchedRuleValue :: string
  jr_RecordedAt :: int

definition scanRejectionRecord :: "int \<times> RejectionEventRow \<Rightarrow> RejectionRecord" where
  "scanRejectionRecord p =
     (case p of (i, r) \<Rightarrow>
        \<lparr>jr_ID = i, jr_EventID = re_EventID r, jr_IP = re_ClientIP r, jr_ASN = null_int (re_ASN r), jr_ASOrg = null_text (re_ASOrg r),
         jr_Country = null_text (re_Country r), jr_Protocol = re_Protocol r, jr_Port = re_Port r, jr_Reason = re_Reason r,
         jr_MatchedRuleType = re_MatchedRuleType r, jr_MatchedRuleValue = re_MatchedRuleValue r,
         jr_RecordedAt = trunc_div (re_RecordedAt r) 1000\<rparr>)"

text \<open>The rows of a table with their identifiers that satisfy a clause.\<close>

definition selected :: "int list \<Rightarrow> 'r list \<Rightarrow> ('r \<Rightarrow> bool) list \<Rightarrow> (int \<times> 'r) list" where
  "selected ids rows conditions = filter (\<lambda>(i, r). sql_where conditions r) (zip ids rows)"

definition Query :: "bool \<Rightarrow> time \<Rightarrow> int list \<Rightarrow> QueryParams \<Rightarrow> AuditStore \<Rightarrow> query_error + (int \<times> Record list)" where
  "Query db now ids params s =
     (case normalizeQuery params of
        Inl e \<Rightarrow> Inl e
      | Inr p \<Rightarrow>
          (case flowWhere now s p of
             Inl e \<Rightarrow> Inl e
           | Inr cs \<Rightarrow>
               if \<not> db then Inl QueryFailed
               else
                 let rows = selected ids (au_flows s) cs
                 in Inr (int (length rows),
                      map scanFlowRecord
                        (page (qp_Limit p) (qp_Offset p) (order_by (qp_SortOrder p) (flowSortColumns (qp_SortBy p)) rows)))))"

definition QueryRejections ::
    "bool \<Rightarrow> int list \<Rightarrow> RejectionQueryParams \<Rightarrow> AuditStore \<Rightarrow> query_error + (int \<times> RejectionRecord list)" where
  "QueryRejections db ids params s =
     (case normalizeRejectionQuery params of
        Inl e \<Rightarrow> Inl e
      | Inr p \<Rightarrow>
          (case rejectionWhere p of
             Inl e \<Rightarrow> Inl e
           | Inr cs \<Rightarrow>
               if \<not> db then Inl QueryFailed
               else
                 let rows = selected ids (au_rejections s) cs
                 in Inr (int (length rows),
                      map scanRejectionRecord
                        (page (rq_Limit p) (rq_Offset p) (order_by (rq_SortOrder p) (rejectionSortColumns (rq_SortBy p)) rows)))))"

section \<open>Flows and rejections together\<close>

datatype event_row = FlowEvent FlowRow | RejectionEvent RejectionEventRow

definition eventSortColumn :: "string \<Rightarrow> event_row \<Rightarrow> sql_value" where
  "eventSortColumn sortBy e =
     (case e of
        FlowEvent r \<Rightarrow>
          (if sortBy = ''ip'' then SqlText (fl_ClientIP r)
           else if sortBy = ''asn'' then sql_int (fl_ASN r)
           else if sortBy = ''country'' then sql_text (fl_Country r)
           else if sortBy = ''protocol'' then SqlText (fl_Protocol r)
           else if sortBy = ''port'' then SqlInt (listenerPortSQL (fl_Listener r))
           else if sortBy = ''entry_type'' then SqlText ''flow''
           else if sortBy = ''upstream'' then SqlText (fl_Upstream r)
           else if sortBy = ''bytes_up'' then SqlInt (fl_BytesUp r)
           else if sortBy = ''bytes_down'' then SqlInt (fl_BytesDown r)
           else if sortBy = ''bytes_total'' then SqlInt (fl_BytesUp r + fl_BytesDown r)
           else if sortBy = ''duration_ms'' then SqlInt (fl_EndedAt r - fl_StartedAt r)
           else if sortBy \<in> {''reason'', ''matched_rule_type'', ''matched_rule_value''} then SqlNull
           else SqlInt (fl_EndedAt r))
      | RejectionEvent r \<Rightarrow>
          (if sortBy = ''entry_type'' then SqlText ''rejection''
           else if sortBy \<in> {''upstream'', ''bytes_up'', ''bytes_down'', ''duration_ms''} then SqlNull
           else if sortBy = ''bytes_total'' then SqlInt 0
           else rejectionSortColumns sortBy r))"

record LogEventRecord =
  le_EntryType :: string
  le_IP :: string
  le_ASN :: int
  le_ASOrg :: string
  le_Country :: string
  le_Protocol :: string
  le_Port :: int
  le_RecordedAt :: int
  le_Upstream :: "string option"
  le_BytesUp :: "uint64 option"
  le_BytesDown :: "uint64 option"
  le_DurationMs :: "int option"
  le_Reason :: "string option"
  le_MatchedRuleType :: "string option"
  le_MatchedRuleValue :: "string option"
  le_FlowID :: "string option"
  le_Listener :: "string option"
  le_Route :: "string option"
  le_CloseReason :: "string option"
  le_Tags :: "string list"
  le_sourceID :: int

definition scanLogEvent :: "int \<times> event_row \<Rightarrow> LogEventRecord" where
  "scanLogEvent p =
     (case p of
        (i, FlowEvent r) \<Rightarrow>
          \<lparr>le_EntryType = ''flow'', le_IP = fl_ClientIP r, le_ASN = null_int (fl_ASN r), le_ASOrg = null_text (fl_ASOrg r),
           le_Country = null_text (fl_Country r), le_Protocol = fl_Protocol r, le_Port = listenerPortSQL (fl_Listener r),
           le_RecordedAt = trunc_div (fl_EndedAt r) 1000, le_Upstream = Some (fl_Upstream r),
           le_BytesUp = Some (word_of_int (fl_BytesUp r)), le_BytesDown = Some (word_of_int (fl_BytesDown r)),
           le_DurationMs = Some (fl_EndedAt r - fl_StartedAt r), le_Reason = None, le_MatchedRuleType = None,
           le_MatchedRuleValue = None, le_FlowID = Some (fl_FlowID r), le_Listener = Some (fl_Listener r),
           le_Route = Some (fl_Route r), le_CloseReason = Some (fl_CloseReason r), le_Tags = [], le_sourceID = i\<rparr>
      | (i, RejectionEvent r) \<Rightarrow>
          \<lparr>le_EntryType = ''rejection'', le_IP = re_ClientIP r, le_ASN = null_int (re_ASN r), le_ASOrg = null_text (re_ASOrg r),
           le_Country = null_text (re_Country r), le_Protocol = re_Protocol r, le_Port = re_Port r,
           le_RecordedAt = trunc_div (re_RecordedAt r) 1000, le_Upstream = None, le_BytesUp = None, le_BytesDown = None,
           le_DurationMs = None, le_Reason = Some (re_Reason r), le_MatchedRuleType = Some (re_MatchedRuleType r),
           le_MatchedRuleValue = Some (re_MatchedRuleValue r), le_FlowID = None, le_Listener = Some (re_Listener r),
           le_Route = None, le_CloseReason = None, le_Tags = [], le_sourceID = i\<rparr>)"

definition attachLogEventTags ::
    "bool \<Rightarrow> time \<Rightarrow> AuditStore \<Rightarrow> LogEventRecord list \<Rightarrow> query_error + LogEventRecord list" where
  "attachLogEventTags db now s records =
     (let lookups = concat (map (\<lambda>r. if le_EntryType r \<noteq> EntryTypeFlow then []
            else case le_FlowID r of None \<Rightarrow> [] | Some f \<Rightarrow> if f = [] then [] else [(f, le_IP r)]) records)
      in case QueryEffectiveTags db now lookups s of
           Inl _ \<Rightarrow> Inl QueryFailed
         | Inr tags \<Rightarrow> Inr (map (\<lambda>r. case le_FlowID r of None \<Rightarrow> r
             | Some f \<Rightarrow> r\<lparr>le_Tags := le_Tags r @ rev (remdups (rev (map et_Tag (gget_default [] tags f))))\<rparr>) records))"

definition QueryLogEvents ::
    "bool \<Rightarrow> time \<Rightarrow> int list \<Rightarrow> int list \<Rightarrow> LogEventQueryParams \<Rightarrow> AuditStore \<Rightarrow> query_error + (int \<times> LogEventRecord list)" where
  "QueryLogEvents db now flowIDs rejectionIDs params s =
     (case normalizeLogEventQuery params of
        Inl e \<Rightarrow> Inl e
      | Inr p \<Rightarrow>
          (case event_flow_where now s p of
             Inl e \<Rightarrow> Inl e
           | Inr fcs \<Rightarrow>
               (case event_rejection_where p of
                  Inl e \<Rightarrow> Inl e
                | Inr rcs \<Rightarrow>
                    if \<not> db then Inl QueryFailed
                    else
                      let flows = (if eq_EntryType p = EntryTypeAll \<or> eq_EntryType p = EntryTypeFlow
                                   then map (map_prod id FlowEvent) (selected flowIDs (au_flows s) fcs) else []);
                          rejections = (if eq_EntryType p = EntryTypeAll \<or> eq_EntryType p = EntryTypeRejection
                                        then map (map_prod id RejectionEvent) (selected rejectionIDs (au_rejections s) rcs) else []);
                          union = flows @ rejections
                      in (case attachLogEventTags db now s (map scanLogEvent
                                (page (eq_Limit p) (eq_Offset p) (order_by (eq_SortOrder p) (eventSortColumn (eq_SortBy p)) union))) of
                            Inl e \<Rightarrow> Inl e
                          | Inr records \<Rightarrow> Inr (int (length union), records)))))"

section \<open>The range of a network\<close>

lemma byte_lt: "unat (x :: byte) < 256"
  using unsigned_less [of x] by simp

lemma high_bits: "unat ((x :: byte) AND NOT (mask k)) = unat x div 2 ^ k * 2 ^ k"
proof -
  have "x AND NOT (mask k) = push_bit k (drop_bit k x)"
    by (rule bit_eqI) (auto simp: bit_simps)
  then have "unat (x AND NOT (mask k)) = take_bit 8 (push_bit k (drop_bit k (unat x)))"
    using byte_lt [of x] by (simp only: unsigned_push_bit_eq unsigned_drop_bit_eq) (simp add: take_bit_nat_eq_self)
  moreover have "unat x div 2 ^ k * 2 ^ k < 256" using byte_lt [of x] div_times_less_eq_dividend [of "unat x" "2 ^ k"] by linarith
  ultimately show ?thesis
    by (simp add: push_bit_eq_mult drop_bit_eq_div take_bit_eq_mod)
qed

lemma low_ones: "k \<le> 8 \<Longrightarrow> unat ((x :: byte) AND NOT (mask k) OR mask k) = unat x div 2 ^ k * 2 ^ k + (2 ^ k - 1)"
proof -
  assume k: "k \<le> 8"
  have m: "unat (mask k :: byte) = mask k"
    using k by (simp only: unat_eq_nat_uint uint_mask_eq) (simp add: min_absorb2 nat_mask_eq)
  have "unat (x AND NOT (mask k) OR mask k) = unat (x AND NOT (mask k)) OR unat (mask k :: byte)"
    by (simp add: unsigned_or_eq)
  also have "\<dots> = push_bit k (unat x div 2 ^ k) OR mask k"
    by (simp add: high_bits m push_bit_eq_mult)
  also have "\<dots> = push_bit k (unat x div 2 ^ k) + mask k"
    by (rule disjunctive_add_eq_or [symmetric]) (simp add: bit_eq_iff bit_simps)
  finally show ?thesis by (simp add: mask_eq_exp_minus_1 push_bit_eq_mult)
qed

lemma div_range: "(q :: nat) * p \<le> x \<and> x \<le> q * p + (p - 1) \<longleftrightarrow> x div p = q" if p: "0 < p"
proof
  assume "q * p \<le> x \<and> x \<le> q * p + (p - 1)"
  then show "x div p = q" using p by (intro div_nat_eqI) (auto simp: mult.commute)
next
  assume "x div p = q"
  then show "q * p \<le> x \<and> x \<le> q * p + (p - 1)"
    using p div_mult_mod_eq [of x p] mod_less_divisor [OF p, of x] by auto
qed

lemma byte_range:
  "k \<le> 8 \<Longrightarrow> (ip AND NOT (mask k)) \<le> x \<and> x \<le> (ip AND NOT (mask k) OR mask k) \<longleftrightarrow> (x :: byte) AND NOT (mask k) = ip AND NOT (mask k)"
proof -
  assume k: "k \<le> 8"
  have "(ip AND NOT (mask k)) \<le> x \<and> x \<le> (ip AND NOT (mask k) OR mask k) \<longleftrightarrow> unat x div 2 ^ k = unat ip div 2 ^ k"
    using div_range [of "2 ^ k" "unat ip div 2 ^ k" "unat x"] by (simp only: word_le_nat_alt high_bits low_ones [OF k]) simp
  also have "\<dots> \<longleftrightarrow> unat (x AND NOT (mask k)) = unat (ip AND NOT (mask k))" by (simp add: high_bits)
  also have "\<dots> \<longleftrightarrow> x AND NOT (mask k) = ip AND NOT (mask k)" by (simp only: word_unat_eq_iff)
  finally show ?thesis .
qed

lemma mask_byte_not: "mask_byte n = NOT (mask (8 - n))"
proof (cases "n \<ge> 8")
  case False
  then show ?thesis unfolding mask_byte_def by (intro bit_eqI) (auto simp: bit_simps)
qed (simp add: mask_byte_def)

text \<open>The mask with \<open>n\<close> ones as a list of \<open>l\<close> bytes.\<close>

fun mask_list :: "nat \<Rightarrow> nat \<Rightarrow> byte list" where
  "mask_list n 0 = []"
| "mask_list n (Suc l) = mask_byte n # mask_list (n - 8) l"

lemma cidr_mask_list: "cidr_mask n (8 * l) = mask_list n l"
proof -
  have "map (\<lambda>i. mask_byte (n - 8 * i)) [0..<l] = mask_list n l"
  proof (induction l arbitrary: n)
    case (Suc l)
    have "map (\<lambda>i. mask_byte (n - 8 * i)) [0..<Suc l] = mask_byte n # map (\<lambda>i. mask_byte (n - 8 - 8 * i)) [0..<l]"
      by (simp only: map_upt_Suc) (simp add: diff_diff_eq algebra_simps)
    then show ?case using Suc [of "n - 8"] by simp
  qed simp
  then show ?thesis by (simp add: cidr_mask_def)
qed

lemma length_mask_list [simp]: "length (mask_list n l) = l"
  by (induction l arbitrary: n) simp_all

lemma zero_masks: "length xs = l \<Longrightarrow> map2 (AND) xs (mask_list 0 l) = replicate l 0"
proof (induction l arbitrary: xs)
  case (Suc l)
  have "x AND mask_byte 0 = 0" for x :: byte by (rule bit_eqI) (auto simp: mask_byte_not bit_simps)
  with Suc show ?case by (cases xs) auto
qed simp

lemma blob_zeros: "length xs = l \<Longrightarrow> blob_le (replicate l 0) xs"
  by (induction l arbitrary: xs) (auto simp: length_Suc_conv word_neq_0_conv [symmetric])

lemma blob_ones: "length xs = l \<Longrightarrow> blob_le xs (map2 (\<lambda>b m. b OR NOT m) (replicate l 0) (mask_list 0 l))"
proof (induction l arbitrary: xs)
  case (Suc l)
  have "(0 :: byte) OR NOT (mask_byte 0) = - 1" by (rule bit_eqI) (auto simp: mask_byte_not bit_simps)
  moreover have "(x :: byte) < - 1 \<or> x = - 1" for x using word_order.extremum [of x] by (simp add: order_le_less)
  ultimately show ?case using Suc by (auto simp: length_Suc_conv)
qed simp

lemma masked_range:
  assumes "length ip = l" and "length xs = l"
  shows "blob_le (map2 (AND) ip (mask_list n l)) xs \<and>
         blob_le xs (map2 (\<lambda>b m. b OR NOT m) (map2 (AND) ip (mask_list n l)) (mask_list n l)) \<longleftrightarrow>
         map2 (AND) xs (mask_list n l) = map2 (AND) ip (mask_list n l)"
  using assms
proof (induction l arbitrary: n ip xs)
  case (Suc l)
  obtain i ip' x xs' where c: "ip = i # ip'" "xs = x # xs'" "length ip' = l" "length xs' = l"
    using Suc.prems by (auto simp: length_Suc_conv)
  let ?S = "map2 (AND) ip' (mask_list (n - 8) l)"
  let ?E = "map2 (\<lambda>b m. b OR NOT m) ?S (mask_list (n - 8) l)"
  note IH = Suc.IH [OF c(3,4), of "n - 8"]
  let ?s = "i AND NOT (mask (8 - n))" and ?e = "i AND NOT (mask (8 - n)) OR mask (8 - n)"
  have lex: "blob_le (map2 (AND) ip (mask_list n (Suc l))) xs \<and>
         blob_le xs (map2 (\<lambda>b m. b OR NOT m) (map2 (AND) ip (mask_list n (Suc l))) (mask_list n (Suc l))) \<longleftrightarrow>
      (?s < x \<or> ?s = x \<and> blob_le ?S xs') \<and> (x < ?e \<or> x = ?e \<and> blob_le xs' ?E)"
    by (simp add: c mask_byte_not)
  have tails: "blob_le ?S xs' \<and> blob_le xs' ?E \<and> map2 (AND) xs' (mask_list (n - 8) l) = ?S" if "n < 8"
    using that zero_masks [OF c(3)] zero_masks [OF c(4)] blob_zeros [OF c(4)] blob_ones [OF c(4)] by simp
  have goal: "map2 (AND) xs (mask_list n (Suc l)) = map2 (AND) ip (mask_list n (Suc l)) \<longleftrightarrow>
      x AND NOT (mask (8 - n)) = ?s \<and> map2 (AND) xs' (mask_list (n - 8) l) = ?S"
    by (simp add: c mask_byte_not)
  show ?case
  proof (cases "n < 8")
    case True
    have "(?s < x \<or> ?s = x \<and> blob_le ?S xs') \<and> (x < ?e \<or> x = ?e \<and> blob_le xs' ?E) \<longleftrightarrow> ?s \<le> x \<and> x \<le> ?e"
      using tails [OF True] by (auto simp: order_le_less)
    then show ?thesis unfolding lex goal using byte_range [of "8 - n" i x] tails [OF True] by simp
  next
    case False
    then have "?s = i" "?e = i" "x AND NOT (mask (8 - n)) = x" by simp_all
    then show ?thesis unfolding lex goal using IH by auto
  qed
qed simp

lemma ParseCIDR_shape:
  assumes "ParseCIDR raw = Some n"
  obtains bs ones l where "length bs = l" and "l = 4 \<or> l = 16" and "net_Mask n = mask_list ones l" and "net_IP n = map2 (AND) bs (mask_list ones l)"
proof -
  obtain ip m a where a: "ParseAddr ip = Some a"
    and n: "net_IP n = mask_bytes (the (as_slice a)) (cidr_mask (digits_value m) (bit_len a))" "net_Mask n = cidr_mask (digits_value m) (bit_len a)"
    using assms by (force simp: ParseCIDR_def Let_def split: option.splits if_splits prod.splits)
  have valid: "a \<noteq> InvalidAddr" using a by (auto simp: ParseAddr_def parse_v6_def Let_def split: option.splits if_splits list.splits prod.splits)
  have l: "length (the (as_slice a)) = bit_len a div 8" "bit_len a = 8 * (bit_len a div 8)" "bit_len a div 8 = 4 \<or> bit_len a div 8 = 16"
    using valid by (cases a; simp add: bytes_of_word_def)+
  have "cidr_mask (digits_value m) (bit_len a) = mask_list (digits_value m) (bit_len a div 8)"
    by (subst l(2)) (rule cidr_mask_list)
  then show thesis using that [OF l(1,3)] n by (simp add: mask_bytes_def)
qed

text \<open>A network written as an IPv6 network inside the range of the IPv4-mapped addresses.\<close>

definition mapped_net :: "IPNet \<Rightarrow> bool" where
  "mapped_net n \<longleftrightarrow> length (net_IP n) = 16 \<and> to4 (net_IP n) \<noteq> None"

lemma nth_mask_list: "i < l \<Longrightarrow> mask_list n l ! i = mask_byte (n - 8 * i)"
proof (induction l arbitrary: n i)
  case (Suc l)
  show ?case
  proof (cases i)
    case (Suc j)
    then show ?thesis using Suc.prems Suc.IH [of j "n - 8"] by (simp add: diff_diff_eq)
  qed simp
qed simp

lemma full_mask_byte: "mask_byte k = 255 \<longleftrightarrow> k \<ge> 8"
proof -
  have ones: "(255 :: byte) = NOT 0" by simp
  have "mask_byte k = 255 \<longleftrightarrow> (mask (8 - k) :: byte) = 0" unfolding mask_byte_not ones by (simp only: bit.compl_eq_compl_iff)
  then show ?thesis by simp
qed

lemma and_full: "a AND b = (255 :: byte) \<Longrightarrow> b = 255"
proof -
  assume h: "a AND b = 255"
  have ones: "(255 :: byte) = - 1" by simp
  have "b = b OR (a AND b)" by (rule bit_eqI) (auto simp: bit_simps)
  also have "\<dots> = - 1" unfolding h ones by simp
  finally show "b = 255" by simp
qed

text \<open>Such a network has at least 96 ones, so its first four mask bytes are full.\<close>

lemma mapped_mask:
  assumes "mapped_net n" and "net_Mask n = mask_list ones 16" and "net_IP n = map2 (AND) bs (mask_list ones 16)" and "length bs = 16"
  shows "take 4 (net_Mask n) = replicate 4 255"
proof -
  have "take 12 (net_IP n) = v4_in_v6_prefix" using assms(1) by (auto simp: mapped_net_def to4_def split: if_splits)
  then have "take 12 (net_IP n) ! 11 = v4_in_v6_prefix ! 11" by (rule arg_cong)
  then have "net_IP n ! 11 = v4_in_v6_prefix ! 11" by simp
  moreover have "net_IP n ! 11 = bs ! 11 AND mask_byte (ones - 88)" using assms(3,4) by (simp add: nth_mask_list)
  moreover have "v4_in_v6_prefix ! 11 = 255" by (simp add: v4_in_v6_prefix_def nth_append)
  ultimately have "bs ! 11 AND mask_byte (ones - 88) = 255" by metis
  then have "mask_byte (ones - 88) = 255" by (rule and_full)
  then have "96 \<le> ones" by (simp add: full_mask_byte)
  then show ?thesis unfolding assms(2) by (intro nth_equalityI) (auto simp: nth_mask_list full_mask_byte)
qed

lemma blob_le_antisym: "blob_le xs ys \<Longrightarrow> blob_le ys xs \<Longrightarrow> xs = ys"
proof (induction xs ys rule: blob_le.induct)
  case (1 ys)
  then show ?case by (cases ys) auto
qed auto

lemma blob_le_refl [simp]: "blob_le xs xs"
  by (induction xs) auto

lemma ipBytes_cases:
  assumes "ParseAddr (TrimSpace ip) = Some a"
  shows "optionalIPBytes ip = (the (as_slice a), if is4 a then 4 else 6) \<and> length (the (as_slice a)) = (if is4 a then 4 else 16)"
proof -
  have "a \<noteq> InvalidAddr" using assms by (auto simp: ParseAddr_def parse_v6_def Let_def split: option.splits if_splits list.splits prod.splits)
  then show ?thesis using assms by (cases a) (simp_all add: optionalIPBytes_def ipBytes_def bytes_of_word_def)
qed

lemma cidr_bytes:
  assumes "ParseCIDR raw = Some n"
  shows "\<exists>start stop. cidrRange raw = Some (if length (net_IP n) = 4 \<or> mapped_net n then 4 else 6, start, stop) \<and>
    (\<not> mapped_net n \<longrightarrow> length (net_IP n) \<in> {4, 16} \<and> (\<forall>blob. length blob = length (net_IP n) \<longrightarrow>
       (blob_le start blob \<and> blob_le blob stop \<longleftrightarrow> mask_bytes blob (net_Mask n) = net_IP n))) \<and>
    (mapped_net n \<longrightarrow> (\<forall>blob. blob_le start blob \<and> blob_le blob stop \<longleftrightarrow> blob = drop 12 (net_IP n)))"
proof -
  obtain bs ones l where n: "length bs = l" "l = 4 \<or> l = 16" "net_Mask n = mask_list ones l" "net_IP n = map2 (AND) bs (mask_list ones l)"
    using ParseCIDR_shape [OF assms] .
  have len: "length (net_IP n) = l" using n by simp
  show ?thesis
  proof (cases "mapped_net n")
    case True
    then have l16: "l = 16" using len by (simp add: mapped_net_def)
    have m: "take 4 (net_Mask n) = replicate 4 255" using mapped_mask [OF True] n l16 by simp
    have "to4 (net_IP n) = Some (drop 12 (net_IP n))" using True by (auto simp: mapped_net_def to4_def split: if_splits)
    moreover have "map2 (\<lambda>b m. b OR NOT m) (drop 12 (net_IP n)) (replicate 4 255) = drop 12 (net_IP n)"
    proof -
      have ones: "(255 :: byte) = - 1" by simp
      show ?thesis unfolding ones by (rule nth_equalityI) (simp_all add: len l16)
    qed
    ultimately show ?thesis using True assms m blob_le_antisym by (auto simp: cidrRange_def)
  next
    case False
    have e: "map2 (\<lambda>b m. b OR NOT m) (net_IP n) (net_Mask n) = map2 (\<lambda>b m. b OR NOT m) (map2 (AND) bs (mask_list ones l)) (mask_list ones l)"
      by (simp only: n(3,4))
    have r: "blob_le (net_IP n) blob \<and> blob_le blob (map2 (\<lambda>b m. b OR NOT m) (net_IP n) (net_Mask n)) \<longleftrightarrow>
        mask_bytes blob (net_Mask n) = net_IP n" if "length blob = l" for blob
      unfolding e using masked_range [OF n(1) that, of ones] by (simp only: n(3,4) mask_bytes_def)
    have t4: "take 4 (net_Mask n) = net_Mask n" "to4 (net_IP n) = Some (net_IP n)" if "l = 4" using n that by (simp_all add: to4_def)
    have t6: "to4 (net_IP n) = None" if "l = 16" using False len that by (simp add: mapped_net_def)
    show ?thesis using False assms r n(2) len t4 t6 by (auto simp: cidrRange_def)
  qed
qed

text \<open>
  C6: a query by network selects exactly the clients of the network. For a network that
  \<open>net.ParseCIDR\<close> accepts and a client address as the store keeps it, the byte range of the
  query holds the address exactly when both are of one family and the address is in the
  network; the exception are networks written in the IPv4-mapped IPv6 form, for which the
  range is the single IPv4 address at the start of the network, whatever the prefix length.
\<close>

theorem cidr_query_exact:
  assumes "ParseCIDR raw = Some n" and "ParseAddr (TrimSpace ip) = Some a"
  shows "\<exists>rg. cidrRange raw = Some rg \<and>
    (\<not> mapped_net n \<longrightarrow>
       (in_range rg (snd (optionalIPBytes ip)) (fst (optionalIPBytes ip)) \<longleftrightarrow>
        bit_len a = 8 * length (net_IP n) \<and> mask_bytes (the (as_slice a)) (net_Mask n) = net_IP n)) \<and>
    (mapped_net n \<longrightarrow>
       (in_range rg (snd (optionalIPBytes ip)) (fst (optionalIPBytes ip)) \<longleftrightarrow> is4 a \<and> the (as_slice a) = drop 12 (net_IP n)))"
proof -
  obtain start stop where rg: "cidrRange raw = Some (if length (net_IP n) = 4 \<or> mapped_net n then 4 else 6, start, stop)"
    and plain: "\<not> mapped_net n \<Longrightarrow> length (net_IP n) \<in> {4, 16} \<and> (\<forall>blob. length blob = length (net_IP n) \<longrightarrow>
       (blob_le start blob \<and> blob_le blob stop \<longleftrightarrow> mask_bytes blob (net_Mask n) = net_IP n))"
    and mapped: "mapped_net n \<Longrightarrow> (\<forall>blob. blob_le start blob \<and> blob_le blob stop \<longleftrightarrow> blob = drop 12 (net_IP n))"
    using cidr_bytes [OF assms(1)] by blast
  note ab = ipBytes_cases [OF assms(2)]
  have len: "length (net_IP n) = 16" if "mapped_net n" using that by (simp add: mapped_net_def)
  have bits: "bit_len a = (if is4 a then 32 else 128)" using ab assms(2)
    by (cases a) (auto simp: ParseAddr_def parse_v6_def Let_def split: option.splits if_splits list.splits prod.splits)
  show ?thesis
    using rg plain mapped [THEN spec, of "the (as_slice a)"] ab bits
    by (auto simp: in_range_def len dest!: spec [of _ "the (as_slice a)"])
qed


theorem cidr_query_exact_witness:
  "\<exists>rg. cidrRange ''10.1.0.0/16'' = Some rg \<and> in_range rg (snd (optionalIPBytes ''10.1.2.3'')) (fst (optionalIPBytes ''10.1.2.3''))"
proof -
  have h: "ParseCIDR ''10.1.0.0/16'' = Some \<lparr>net_IP = [10, 1, 0, 0], net_Mask = [255, 255, 0, 0]\<rparr>"
    "ParseAddr (TrimSpace ''10.1.2.3'') = Some (V4 167838211)" by code_simp+
  have "\<not> mapped_net \<lparr>net_IP = [10, 1, 0, 0], net_Mask = [255, 255, 0, 0]\<rparr>" by (simp add: mapped_net_def)
  moreover have "mask_bytes (the (as_slice (V4 167838211))) [255, 255, 0, 0] = [10, 1, 0, 0]" by code_simp
  ultimately show ?thesis using cidr_query_exact [OF h] by auto
qed

section \<open>Normalised parameters\<close>

text \<open>Normalising is idempotent, and what it lets through satisfies every bound the queries rely on.\<close>

definition query_ok :: "QueryParams \<Rightarrow> bool" where
  "query_ok p \<longleftrightarrow> 1 \<le> qp_Limit p \<and> qp_Limit p \<le> MaxQueryLimit \<and> 0 \<le> qp_Offset p \<and> qp_SortBy p \<in> set flowSortKeys \<and>
     qp_SortOrder p \<in> {''asc'', ''desc''} \<and> qp_Protocol p \<in> {[], ''tcp'', ''udp''} \<and> \<not> bad_range (qp_StartTime p) (qp_EndTime p)"

lemma clamp_limit_bounds: "1 \<le> clamp_limit n" "clamp_limit n \<le> MaxQueryLimit" "1 \<le> n \<Longrightarrow> n \<le> MaxQueryLimit \<Longrightarrow> clamp_limit n = n"
  by (simp_all add: clamp_limit_def DefaultQueryLimit_def MaxQueryLimit_def Let_def)

lemma normalizeQuery_ok: "normalizeQuery p = Inr q \<Longrightarrow> query_ok q"
  using clamp_limit_bounds(1,2) [of "qp_Limit p"]
  by (auto simp: normalizeQuery_def query_ok_def Let_def bad_protocol_def bad_order_def split: if_splits)

lemma normalizeQuery_offset:
  "normalizeQuery p = Inr q \<Longrightarrow> 0 \<le> k \<Longrightarrow> normalizeQuery (p\<lparr>qp_Offset := k\<rparr>) = Inr (q\<lparr>qp_Offset := k\<rparr>)"
  by (auto simp: normalizeQuery_def Let_def split: if_splits)

section \<open>Pages\<close>

interpretation row_order: strict_weak "before_by desc key" "\<lambda>_. True" for desc key
  by unfold_locales (auto simp: before_by_def)

lemma page_concat:
  assumes "0 < limit"
  shows "concat (map (\<lambda>k. page limit (int k * limit) xs) [0..<n]) = take (n * nat limit) xs"
proof (induction n)
  case (Suc n)
  have "nat (int n * limit) = n * nat limit" using assms by (simp add: nat_mult_distrib)
  moreover have "take (Suc n * nat limit) xs = take (n * nat limit) xs @ take (nat limit) (drop (n * nat limit) xs)"
    by (metis add.commute mult_Suc take_add)
  ultimately show ?case using Suc by (simp add: page_def)
qed simp

lemma flowWhere_offset: "flowWhere now s (p\<lparr>qp_Offset := k\<rparr>) = flowWhere now s p"
  by (simp add: flowWhere_def split: sum.split)

lemma order_by_facts:
  "set (order_by dir col rows) = set rows" "length (order_by dir col rows) = length rows"
  "distinct rows \<Longrightarrow> distinct (order_by dir col rows)"
  "sorted_wrt (\<lambda>x y. \<not> before_by (dir = ''desc'') (\<lambda>(i, r). (col r, i)) y x) (order_by dir col rows)"
proof -
  show "set (order_by dir col rows) = set rows" "length (order_by dir col rows) = length rows" by (simp_all add: order_by_def)
  show "distinct rows \<Longrightarrow> distinct (order_by dir col rows)"
    unfolding order_by_def by (metis mset_eq_imp_distinct_iff mset_stable_sort)
  show "sorted_wrt (\<lambda>x y. \<not> before_by (dir = ''desc'') (\<lambda>(i, r). (col r, i)) y x) (order_by dir col rows)"
    unfolding order_by_def by (rule row_order.sorted_stable_sort) simp
qed

text \<open>
  C7: paging through a query misses nothing and repeats nothing. The pages of a query, asked
  for with offsets that are multiples of its limit, are together the rows that satisfy its
  conditions, each once, in the order of the query, and every page reports their number.
\<close>

theorem query_pages_complete:
  assumes "normalizeQuery params = Inr p" and "flowWhere now s p = Inr cs" and "distinct ids" and "length ids = length (au_flows s)"
  shows "\<exists>rows pages. distinct rows \<and> set rows = {x \<in> set (zip ids (au_flows s)). sql_where cs (snd x)} \<and>
    sorted_wrt (\<lambda>x y. \<not> before_by (qp_SortOrder p = ''desc'') (\<lambda>(i, r). (flowSortColumns (qp_SortBy p) r, i)) y x) rows \<and>
    (\<forall>k. Query True now ids (params\<lparr>qp_Offset := int k * qp_Limit p\<rparr>) s = Inr (int (length rows), pages k)) \<and>
    (\<forall>n. length rows \<le> n * nat (qp_Limit p) \<longrightarrow> concat (map pages [0..<n]) = map scanFlowRecord rows)"
proof -
  define sel where "sel = selected ids (au_flows s) cs"
  define rows where "rows = order_by (qp_SortOrder p) (flowSortColumns (qp_SortBy p)) sel"
  define pages where "pages k = map scanFlowRecord (page (qp_Limit p) (int k * qp_Limit p) rows)" for k
  have lim: "0 < qp_Limit p" using normalizeQuery_ok [OF assms(1)] by (simp add: query_ok_def)
  have len: "length rows = length sel" by (simp add: rows_def order_by_facts)
  have q: "Query True now ids (params\<lparr>qp_Offset := int k * qp_Limit p\<rparr>) s = Inr (int (length rows), pages k)" for k
    using normalizeQuery_offset [OF assms(1), of "int k * qp_Limit p"] lim assms(2)
    by (simp add: Query_def flowWhere_offset Let_def sel_def [symmetric] rows_def [symmetric] len pages_def)
  have d: "distinct sel" unfolding sel_def selected_def by (rule distinct_filter, rule distinct_zipI1 [OF assms(3)])
  have c: "concat (map pages [0..<n]) = map scanFlowRecord rows" if "length rows \<le> n * nat (qp_Limit p)" for n
  proof -
    have "concat (map pages [0..<n]) = map scanFlowRecord (concat (map (\<lambda>k. page (qp_Limit p) (int k * qp_Limit p) rows) [0..<n]))"
      by (simp add: pages_def [abs_def] map_concat comp_def)
    then show ?thesis unfolding page_concat [OF lim] using that by simp
  qed
  have st: "set rows = {x \<in> set (zip ids (au_flows s)). sql_where cs (snd x)}"
    by (auto simp: rows_def order_by_facts sel_def selected_def)
  have o: "distinct rows" "sorted_wrt (\<lambda>x y. \<not> before_by (qp_SortOrder p = ''desc'') (\<lambda>(i, r). (flowSortColumns (qp_SortBy p) r, i)) y x) rows"
    unfolding rows_def by (rule order_by_facts(3) [OF d], rule order_by_facts(4))
  show ?thesis by (intro exI [of _ rows] exI [of _ pages] conjI allI impI o st q c)
qed

definition sample_query :: QueryParams where
  "sample_query = \<lparr>qp_StartTime = None, qp_EndTime = None, qp_CIDR = [], qp_IP = [], qp_ASN = None, qp_Country = [], qp_Tag = [],
     qp_Protocol = ''TCP'', qp_Upstream = [], qp_SortBy = ''bytes_up'', qp_SortOrder = [], qp_Limit = 1, qp_Offset = 0\<rparr>"

definition sample_row :: "string \<Rightarrow> string \<Rightarrow> int \<Rightarrow> FlowRow" where
  "sample_row fid proto up = \<lparr>fl_FlowID = fid, fl_Protocol = proto, fl_ClientIP = ''10.0.0.1'', fl_ClientPort = 9, fl_ClientBytes = [10, 0, 0, 1],
     fl_Family = 4, fl_Listener = '':80'', fl_Route = ''web'', fl_Upstream = ''u'', fl_StartedAt = 1000, fl_EndedAt = 2000,
     fl_LastActivity = 1500, fl_BytesUp = up, fl_BytesDown = 0, fl_CloseReason = ''eof'', fl_Fingerprint = [], fl_PolicyVersion = [],
     fl_RuleID = [], fl_ASN = None, fl_ASOrg = None, fl_Country = None\<rparr>"

definition sample_flows_store :: AuditStore where
  "sample_flows_store = empty_audit\<lparr>au_flows := [sample_row ''a'' ''tcp'' 5, sample_row ''b'' ''udp'' 9, sample_row ''c'' ''tcp'' 7]\<rparr>"

theorem query_pages_complete_witness:
  "\<exists>rows pages. distinct rows \<and> set rows = {(1, sample_row ''a'' ''tcp'' 5), (4, sample_row ''c'' ''tcp'' 7)} \<and>
     Query True 9 [1, 2, 4] (sample_query\<lparr>qp_Offset := 1\<rparr>) sample_flows_store = Inr (2, pages 1) \<and>
     concat (map pages [0..<2]) = map scanFlowRecord rows"
proof -
  define p where "p = sample_query\<lparr>qp_Protocol := ''tcp'', qp_SortOrder := ''desc''\<rparr>"
  define c where "c = (\<lambda>r :: FlowRow. fl_Protocol r = ''tcp'')"
  have n: "normalizeQuery sample_query = Inr p" unfolding p_def by code_simp
  have w: "flowWhere 9 sample_flows_store p = Inr [c]"
    by (simp add: flowWhere_def with_cidr_def when_some_def when_text_def p_def sample_query_def c_def)
  have z: "zip [1, 2, 4] (au_flows sample_flows_store) =
      [(1 :: int, sample_row ''a'' ''tcp'' 5), (2, sample_row ''b'' ''udp'' 9), (4, sample_row ''c'' ''tcp'' 7)]"
    by (simp add: sample_flows_store_def)
  obtain rows pages where r: "distinct rows" "set rows = {x \<in> set (zip [1, 2, 4] (au_flows sample_flows_store)). sql_where [c] (snd x)}"
      "\<And>k. Query True 9 [1, 2, 4] (sample_query\<lparr>qp_Offset := int k * qp_Limit p\<rparr>) sample_flows_store = Inr (int (length rows), pages k)"
      "\<And>n. length rows \<le> n * nat (qp_Limit p) \<Longrightarrow> concat (map pages [0..<n]) = map scanFlowRecord rows"
    using query_pages_complete [OF n w, of "[1, 2, 4]"] by (auto simp: sample_flows_store_def)
  have s: "set rows = {(1, sample_row ''a'' ''tcp'' 5), (4, sample_row ''c'' ''tcp'' 7)}"
    unfolding r(2) z by (auto simp: sql_where_def c_def sample_row_def)
  have two: "length rows = 2" using distinct_card [OF r(1)] by (simp add: s)
  have "qp_Limit p = 1" by (simp add: p_def sample_query_def)
  then show ?thesis using r(1) s r(3) [of 1] r(4) [of 2] two by auto
qed

end
