(* ===== verification/AuditTop.thy ===== *)
theory AuditTop
  imports AuditQuery
begin

text \<open>
  The aggregations of the audit store (\<open>internal/audit/query.go\<close>): \<open>GetTopTalkers\<close>,
  \<open>GetTopASNs\<close> and \<open>GetTopTags\<close>, with their validation and ordering. \<open>GROUP BY\<close> is the list
  of the distinct keys with the rows that have them; \<open>SUM\<close> fails outside 64 bits, as in
  SQLite, and a negative sum fails when it is scanned into an unsigned integer. A row whose two
  byte counts together leave 64 bits, which SQLite would add in floating point, is a failure.
\<close>

section \<open>Parameters\<close>

record TopTagParams =
  tp_StartTime :: "int option"
  tp_EndTime :: "int option"
  tp_Protocol :: string
  tp_Upstream :: string
  tp_SortBy :: string
  tp_SortOrder :: string
  tp_Limit :: int
  tp_Offset :: int

record TopTalkerParams = TopTagParams +
  tp_Tag :: string

type_synonym TopASNParams = TopTalkerParams

datatype top_error =
    TopTimeRange
  | TopProtocol
  | TopLimitRange
  | TopOffset
  | TopSortBy
  | TopSortOrder
  | TopFailed

definition validateTopQuery :: "int option \<Rightarrow> int option \<Rightarrow> string \<Rightarrow> int \<Rightarrow> int \<Rightarrow> top_error option" where
  "validateTopQuery start stop protocol limit offset =
     (if bad_range start stop then Some TopTimeRange
      else if bad_protocol (ToLower (TrimSpace protocol)) then Some TopProtocol
      else if limit < 0 \<or> limit > MaxQueryLimit then Some TopLimitRange
      else if offset < 0 then Some TopOffset
      else None)"

definition topSortKeys :: "string \<Rightarrow> string list" where
  "topSortKeys tieColumn = [''bytes_total'', ''bytes_up'', ''bytes_down'', ''flow_count''] @
     [if tieColumn = ''client_ip'' then ''client_ip'' else if tieColumn = ''asn'' then ''asn'' else ''tag'']"

text \<open>The column is named by its key; \<open>top_column\<close> below is its expression.\<close>

definition topSort :: "string \<Rightarrow> string \<Rightarrow> string \<Rightarrow> top_error + string \<times> string" where
  "topSort sortBy sortOrder tieColumn =
     (let by = default_text ''bytes_total'' (ToLower (TrimSpace sortBy));
          order = default_text ''desc'' (ToLower (TrimSpace sortOrder))
      in if by \<notin> set (topSortKeys tieColumn) then Inl TopSortBy
         else if bad_order order then Inl TopSortOrder
         else Inr (by, order))"

section \<open>Groups\<close>

record 'k aggregate =
  ag_Key :: 'k
  ag_BytesUp :: int
  ag_BytesDown :: int
  ag_BytesTotal :: int
  ag_FlowCount :: int

definition group_by :: "('r \<Rightarrow> 'k) \<Rightarrow> 'r list \<Rightarrow> ('k \<times> 'r list) list" where
  "group_by key rows = map (\<lambda>k. (k, filter (\<lambda>r. key r = k) rows)) (remdups (map key rows))"

definition aggregate_of :: "('r \<Rightarrow> int) \<Rightarrow> ('r \<Rightarrow> int) \<Rightarrow> 'k \<times> 'r list \<Rightarrow> 'k aggregate" where
  "aggregate_of up down g =
     (case g of (k, rows) \<Rightarrow>
        \<lparr>ag_Key = k, ag_BytesUp = sum_list (map up rows), ag_BytesDown = sum_list (map down rows),
         ag_BytesTotal = sum_list (map (\<lambda>r. up r + down r) rows), ag_FlowCount = int (length rows)\<rparr>)"

definition in_int64 :: "int \<Rightarrow> bool" where
  "in_int64 v \<longleftrightarrow> min_int64 \<le> v \<and> v \<le> max_int64"

definition sums_fit :: "'k aggregate \<Rightarrow> bool" where
  "sums_fit a \<longleftrightarrow> in_int64 (ag_BytesUp a) \<and> in_int64 (ag_BytesDown a) \<and> in_int64 (ag_BytesTotal a)"

definition scannable :: "'k aggregate \<Rightarrow> bool" where
  "scannable a \<longleftrightarrow> 0 \<le> ag_BytesUp a \<and> 0 \<le> ag_BytesDown a \<and> 0 \<le> ag_BytesTotal a"

definition top_column :: "('k \<Rightarrow> sql_value) \<Rightarrow> string \<Rightarrow> 'k aggregate \<Rightarrow> sql_value" where
  "top_column tie by a =
     (if by = ''bytes_total'' then SqlInt (ag_BytesUp a + ag_BytesDown a)
      else if by = ''bytes_up'' then SqlInt (ag_BytesUp a)
      else if by = ''bytes_down'' then SqlInt (ag_BytesDown a)
      else if by = ''flow_count'' then SqlInt (ag_FlowCount a)
      else tie (ag_Key a))"

text \<open>\<open>ORDER BY column order, tie ASC LIMIT limit OFFSET offset\<close>, then the scan.\<close>

definition top_before :: "('k \<Rightarrow> sql_value) \<Rightarrow> string \<Rightarrow> string \<Rightarrow> 'k aggregate \<Rightarrow> 'k aggregate \<Rightarrow> bool" where
  "top_before tie by order a b \<longleftrightarrow>
     before_by (order = ''desc'') (top_column tie by) a b \<or>
     (top_column tie by a = top_column tie by b \<and> tie (ag_Key a) < tie (ag_Key b))"

definition top_rows ::
    "bool \<Rightarrow> ('k \<Rightarrow> sql_value) \<Rightarrow> string \<Rightarrow> string \<Rightarrow> int \<Rightarrow> int \<Rightarrow> 'k aggregate list \<Rightarrow> top_error + 'k aggregate list" where
  "top_rows db tie by order limit offset groups =
     (if \<not> db \<or> \<not> list_all sums_fit groups then Inl TopFailed
      else let rows = page limit offset (stable_sort (top_before tie by order) groups)
           in if list_all scannable rows then Inr rows else Inl TopFailed)"

definition top_limit :: "int \<Rightarrow> int" where
  "top_limit limit = (if limit \<le> 0 then 10 else limit)"

text \<open>The conditions the three queries share, and the tag condition of two of them.\<close>

definition top_where :: "('a TopTagParams_scheme) \<Rightarrow> (FlowRow \<Rightarrow> bool) list" where
  "top_where p =
     when_some (tp_StartTime p) (\<lambda>t r. fl_EndedAt r \<ge> to_millis t) @
     when_some (tp_EndTime p) (\<lambda>t r. fl_EndedAt r \<le> to_millis t) @
     when_text (ToLower (TrimSpace (tp_Protocol p))) (\<lambda>c r. fl_Protocol r = c) @
     when_text (TrimSpace (tp_Upstream p)) (\<lambda>c r. fl_Upstream r = c)"

definition top_tag_where :: "time \<Rightarrow> AuditStore \<Rightarrow> TopTalkerParams \<Rightarrow> (FlowRow \<Rightarrow> bool) list" where
  "top_tag_where now s p = when_text (TrimSpace (tp_Tag p)) (\<lambda>t r. flow_has_tag now s t r)"

definition top_selected :: "time \<Rightarrow> AuditStore \<Rightarrow> TopTalkerParams \<Rightarrow> FlowRow list" where
  "top_selected now s p = filter (sql_where (top_where p @ top_tag_where now s p)) (au_flows s)"

section \<open>Clients\<close>

record TopTalker =
  tt_ClientIP :: string
  tt_BytesUp :: uint64
  tt_BytesDown :: uint64
  tt_BytesTotal :: uint64
  tt_FlowCount :: int

definition GetTopTalkers :: "bool \<Rightarrow> time \<Rightarrow> TopTalkerParams \<Rightarrow> AuditStore \<Rightarrow> top_error + TopTalker list" where
  "GetTopTalkers db now p s =
     (case validateTopQuery (tp_StartTime p) (tp_EndTime p) (tp_Protocol p) (tp_Limit p) (tp_Offset p) of
        Some e \<Rightarrow> Inl e
      | None \<Rightarrow>
          (case topSort (tp_SortBy p) (tp_SortOrder p) ''client_ip'' of
             Inl e \<Rightarrow> Inl e
           | Inr (by, order) \<Rightarrow>
               map_sum id (map (\<lambda>a. \<lparr>tt_ClientIP = ag_Key a, tt_BytesUp = word_of_int (ag_BytesUp a), tt_BytesDown = word_of_int (ag_BytesDown a),
                   tt_BytesTotal = word_of_int (ag_BytesTotal a), tt_FlowCount = ag_FlowCount a\<rparr>))
                 (top_rows db SqlText by order (top_limit (tp_Limit p)) (tp_Offset p)
                    (map (aggregate_of fl_BytesUp fl_BytesDown) (group_by fl_ClientIP (top_selected now s p))))))"

section \<open>Autonomous systems\<close>

record TopASN =
  ta_ASN :: int
  ta_ASOrg :: string
  ta_Country :: string
  ta_BytesUp :: uint64
  ta_BytesDown :: uint64
  ta_BytesTotal :: uint64
  ta_FlowCount :: int

text \<open>\<open>COALESCE(MAX(column), '')\<close> over the values that are not \<open>NULL\<close>.\<close>

definition max_text :: "string option list \<Rightarrow> string" where
  "max_text vs = (case scan_best (\<lambda>a b. SqlText b < SqlText a) None (concat (map (\<lambda>v. case v of None \<Rightarrow> [] | Some t \<Rightarrow> [t]) vs)) of
                    None \<Rightarrow> [] | Some t \<Rightarrow> t)"

definition one_country :: "string option list \<Rightarrow> string" where
  "one_country vs = (if length (remdups (filter (\<lambda>v. v \<noteq> None) vs)) = 1 then max_text vs else [])"

definition GetTopASNs :: "bool \<Rightarrow> time \<Rightarrow> TopASNParams \<Rightarrow> AuditStore \<Rightarrow> top_error + TopASN list" where
  "GetTopASNs db now p s =
     (case validateTopQuery (tp_StartTime p) (tp_EndTime p) (tp_Protocol p) (tp_Limit p) (tp_Offset p) of
        Some e \<Rightarrow> Inl e
      | None \<Rightarrow>
          (case topSort (tp_SortBy p) (tp_SortOrder p) ''asn'' of
             Inl e \<Rightarrow> Inl e
           | Inr (by, order) \<Rightarrow>
               let rows = top_selected now s p; having = (\<lambda>a. filter (\<lambda>r. fl_ASN r = ag_Key a) rows)
               in map_sum id (map (\<lambda>a. \<lparr>ta_ASN = null_int (ag_Key a), ta_ASOrg = max_text (map fl_ASOrg (having a)),
                      ta_Country = one_country (map fl_Country (having a)), ta_BytesUp = word_of_int (ag_BytesUp a),
                      ta_BytesDown = word_of_int (ag_BytesDown a), ta_BytesTotal = word_of_int (ag_BytesTotal a), ta_FlowCount = ag_FlowCount a\<rparr>))
                    (top_rows db sql_int by order (top_limit (tp_Limit p)) (tp_Offset p)
                       (map (aggregate_of fl_BytesUp fl_BytesDown) (group_by fl_ASN rows)))))"

section \<open>Tags\<close>

record TopTag =
  to_Tag :: string
  to_BytesUp :: uint64
  to_BytesDown :: uint64
  to_BytesTotal :: uint64
  to_FlowCount :: int

text \<open>The common table expressions of the query: \<open>tagged\<close> is a join for each tag table, \<open>dedup\<close> one row per Flow and tag.\<close>

record tagged_row =
  td_FlowID :: string
  td_Tag :: string
  td_BytesUp :: int
  td_BytesDown :: int

definition join_tags :: "time \<Rightarrow> (FlowRow \<Rightarrow> string) \<Rightarrow> FlowRow list \<Rightarrow> TagRow list \<Rightarrow> tagged_row list" where
  "join_tags now owner flows tags =
     concat (map (\<lambda>f. map (\<lambda>t. \<lparr>td_FlowID = fl_FlowID f, td_Tag = tg_Tag t, td_BytesUp = fl_BytesUp f, td_BytesDown = fl_BytesDown f\<rparr>)
                        (filter (\<lambda>t. tg_Owner t = owner f \<and> tag_live now t) tags)) flows)"

definition tagged :: "time \<Rightarrow> TopTagParams \<Rightarrow> AuditStore \<Rightarrow> tagged_row list" where
  "tagged now p s =
     (let flows = filter (sql_where (top_where p)) (au_flows s)
      in join_tags now fl_FlowID flows (au_flowTags s) @ join_tags now fl_ClientIP flows (au_clientTags s))"

definition dedup :: "tagged_row list \<Rightarrow> tagged_row list" where
  "dedup rows =
     map (\<lambda>((f, t), rs). \<lparr>td_FlowID = f, td_Tag = t, td_BytesUp = Max (set (map td_BytesUp rs)), td_BytesDown = Max (set (map td_BytesDown rs))\<rparr>)
         (group_by (\<lambda>r. (td_FlowID r, td_Tag r)) rows)"

definition GetTopTags :: "bool \<Rightarrow> time \<Rightarrow> TopTagParams \<Rightarrow> AuditStore \<Rightarrow> top_error + TopTag list" where
  "GetTopTags db now p s =
     (case validateTopQuery (tp_StartTime p) (tp_EndTime p) (tp_Protocol p) (tp_Limit p) (tp_Offset p) of
        Some e \<Rightarrow> Inl e
      | None \<Rightarrow>
          (case topSort (tp_SortBy p) (tp_SortOrder p) ''tag'' of
             Inl e \<Rightarrow> Inl e
           | Inr (by, order) \<Rightarrow>
               map_sum id (map (\<lambda>a. \<lparr>to_Tag = ag_Key a, to_BytesUp = word_of_int (ag_BytesUp a), to_BytesDown = word_of_int (ag_BytesDown a),
                   to_BytesTotal = word_of_int (ag_BytesTotal a), to_FlowCount = ag_FlowCount a\<rparr>))
                 (top_rows db SqlText by order (top_limit (tp_Limit p)) (tp_Offset p)
                    (map (aggregate_of td_BytesUp td_BytesDown) (group_by td_Tag (dedup (tagged now p s)))))))"

section \<open>Ranking\<close>

interpretation top_order: strict_weak "top_before tie col order" "\<lambda>_. True" for tie col order
proof unfold_locales
  fix x y z :: "'a aggregate"
  show "\<not> top_before tie col order x x" by (simp add: top_before_def before_by_def)
  show "top_before tie col order x z" if "top_before tie col order x y" "top_before tie col order y z"
    using that by (auto simp: top_before_def before_by_def split: if_splits)
  show "top_before tie col order x y \<or> top_before tie col order y z" if "top_before tie col order x z"
    using that by (auto simp: top_before_def before_by_def split: if_splits)
qed

lemma top_before_linear:
  "inj tie \<Longrightarrow> ag_Key a \<noteq> ag_Key b \<Longrightarrow> top_before tie col order a b \<or> top_before tie col order b a"
  using inj_eq [of tie "ag_Key a" "ag_Key b"] by (auto simp: top_before_def before_by_def not_less_iff_gr_or_eq)

lemma inj_sql_text: "inj SqlText" by (simp add: inj_def)

lemma inj_sql_int: "inj sql_int" by (auto simp: inj_def sql_int_def split: option.splits)

lemma page_facts:
  "set (page limit offset xs) \<subseteq> set xs" "distinct xs \<Longrightarrow> distinct (page limit offset xs)"
  "sorted_wrt P xs \<Longrightarrow> sorted_wrt P (page limit offset xs)" "0 \<le> limit \<Longrightarrow> int (length (page limit offset xs)) \<le> limit"
  by (auto simp: page_def dest!: in_set_takeD in_set_dropD intro: sorted_wrt_take sorted_wrt_drop)

lemma group_by_keys: "map fst (group_by key rows) = remdups (map key rows)"
  by (simp add: group_by_def comp_def)

text \<open>The groups the page leaves out come after the groups it shows.\<close>

lemma page_first_rest:
  assumes "sorted_wrt P xs" and "x \<in> set xs" and "x \<notin> set (page limit 0 xs)"
  shows "length (page limit 0 xs) = nat limit \<and> (\<forall>y\<in>set (page limit 0 xs). P y x)"
proof -
  have "x \<in> set (drop (nat limit) xs)" using assms(2,3) by (metis Un_iff append_take_drop_id drop0 nat_0 page_def set_append)
  moreover from this have "nat limit \<le> length xs" by (metis drop_all empty_iff empty_set nle_le)
  ultimately show ?thesis
    using assms(1) sorted_wrt_append [of P "take (nat limit) xs" "drop (nat limit) xs"] by (simp add: page_def)
qed

lemma sorted_strict:
  assumes "\<And>a b. k a \<noteq> k b \<Longrightarrow> lt a b \<or> lt b a"
  shows "sorted_wrt (\<lambda>x y. \<not> lt y x) xs \<Longrightarrow> distinct (map k xs) \<Longrightarrow> sorted_wrt lt xs"
proof (induction xs)
  case (Cons x xs)
  have "lt x y" if "y \<in> set xs" for y using that assms [of x y] Cons.prems by (auto simp: image_iff)
  then show ?case using Cons by simp
qed simp

lemma top_rows_spec:
  assumes "top_rows db tie col order limit offset groups = Inr rows" and "distinct (map ag_Key groups)" and "inj tie"
  shows "set rows \<subseteq> set groups" and "distinct (map ag_Key rows)" and "\<forall>a\<in>set rows. sums_fit a \<and> scannable a"
    and "sorted_wrt (top_before tie col order) rows" and "0 \<le> limit \<Longrightarrow> int (length rows) \<le> limit"
    and "offset = 0 \<Longrightarrow> a \<in> set groups \<Longrightarrow> a \<notin> set rows \<Longrightarrow> length rows = nat limit \<and> (\<forall>b\<in>set rows. top_before tie col order b a)"
proof -
  define xs where "xs = stable_sort (top_before tie col order) groups"
  have rows: "rows = page limit offset xs" and fit: "list_all sums_fit groups" "list_all scannable rows"
    using assms(1) by (auto simp: top_rows_def Let_def xs_def split: if_splits)
  have xs: "set xs = set groups" "distinct (map ag_Key xs)"
    using assms(2) mset_eq_imp_distinct_iff [of "map ag_Key xs" "map ag_Key groups"] by (simp_all add: xs_def)
  have "sorted_wrt (\<lambda>x y. \<not> top_before tie col order y x) xs"
    unfolding xs_def by (rule top_order.sorted_stable_sort) simp
  then have sorted: "sorted_wrt (top_before tie col order) xs"
    by (rule sorted_strict [where k = ag_Key, rotated]) (rule xs(2), rule top_before_linear [OF assms(3)])
  show "set rows \<subseteq> set groups" unfolding rows xs(1) [symmetric] by (rule page_facts(1))
  show "distinct (map ag_Key rows)"
    using page_facts(2) [OF xs(2), of limit offset] by (simp add: rows page_def drop_map take_map)
  show "\<forall>a\<in>set rows. sums_fit a \<and> scannable a"
    using fit page_facts(1) [of limit offset xs] rows xs(1) by (auto simp: list_all_iff)
  show "sorted_wrt (top_before tie col order) rows" unfolding rows by (rule page_facts(3) [OF sorted])
  show "0 \<le> limit \<Longrightarrow> int (length rows) \<le> limit" unfolding rows by (rule page_facts(4))
  show "offset = 0 \<Longrightarrow> a \<in> set groups \<Longrightarrow> a \<notin> set rows \<Longrightarrow> length rows = nat limit \<and> (\<forall>b\<in>set rows. top_before tie col order b a)"
    using page_first_rest [OF sorted, of a limit] rows xs(1) by simp
qed


text \<open>Reference definitions: the selected Flows of a client, and the Flows that carry a tag.\<close>

definition client_flows :: "time \<Rightarrow> AuditStore \<Rightarrow> TopTalkerParams \<Rightarrow> string \<Rightarrow> FlowRow list" where
  "client_flows now s p c = filter (\<lambda>r. fl_ClientIP r = c) (top_selected now s p)"

definition client_total :: "time \<Rightarrow> AuditStore \<Rightarrow> TopTalkerParams \<Rightarrow> string \<Rightarrow> string aggregate" where
  "client_total now s p c = aggregate_of fl_BytesUp fl_BytesDown (c, client_flows now s p c)"

lemma uint_scanned: "sums_fit a \<Longrightarrow> scannable a \<Longrightarrow>
  uint (word_of_int (ag_BytesUp a) :: uint64) = ag_BytesUp a \<and> uint (word_of_int (ag_BytesDown a) :: uint64) = ag_BytesDown a \<and>
  uint (word_of_int (ag_BytesTotal a) :: uint64) = ag_BytesTotal a"
  by (simp add: sums_fit_def scannable_def in_int64_def max_int64_def uint_word_of_int)

lemma talker_ranking:
  assumes "GetTopTalkers db now p s = Inr items" and "topSort (tp_SortBy p) (tp_SortOrder p) ''client_ip'' = Inr (col, order)"
  shows "distinct (map tt_ClientIP items)"
    and "\<forall>i\<in>set items. client_flows now s p (tt_ClientIP i) \<noteq> [] \<and>
           uint (tt_BytesUp i) = (\<Sum>r\<leftarrow>client_flows now s p (tt_ClientIP i). fl_BytesUp r) \<and>
           uint (tt_BytesDown i) = (\<Sum>r\<leftarrow>client_flows now s p (tt_ClientIP i). fl_BytesDown r) \<and>
           uint (tt_BytesTotal i) = uint (tt_BytesUp i) + uint (tt_BytesDown i) \<and>
           tt_FlowCount i = int (length (client_flows now s p (tt_ClientIP i)))"
    and "sorted_wrt (\<lambda>i j. top_before SqlText col order (client_total now s p (tt_ClientIP i)) (client_total now s p (tt_ClientIP j))) items"
    and "tp_Offset p = 0 \<Longrightarrow> client_flows now s p c \<noteq> [] \<Longrightarrow> c \<notin> tt_ClientIP ` set items \<Longrightarrow>
         length items = nat (top_limit (tp_Limit p)) \<and>
         (\<forall>i\<in>set items. top_before SqlText col order (client_total now s p (tt_ClientIP i)) (client_total now s p c))"
proof -
  define view where "view = (\<lambda>a :: string aggregate. \<lparr>tt_ClientIP = ag_Key a, tt_BytesUp = word_of_int (ag_BytesUp a), tt_BytesDown = word_of_int (ag_BytesDown a),
                   tt_BytesTotal = word_of_int (ag_BytesTotal a), tt_FlowCount = ag_FlowCount a\<rparr>)"
  define groups where "groups = map (aggregate_of fl_BytesUp fl_BytesDown) (group_by fl_ClientIP (top_selected now s p))"
  obtain rows where rows: "top_rows db SqlText col order (top_limit (tp_Limit p)) (tp_Offset p) groups = Inr rows" "items = map view rows"
    using assms unfolding GetTopTalkers_def view_def [symmetric] groups_def [symmetric]
    by (cases "top_rows db SqlText col order (top_limit (tp_Limit p)) (tp_Offset p) groups") (auto split: option.splits)
  have g: "groups = map (client_total now s p) (remdups (map fl_ClientIP (top_selected now s p)))"
    by (simp add: groups_def group_by_def client_total_def client_flows_def)
  have k: "ag_Key (client_total now s p c) = c" for c by (simp add: client_total_def aggregate_of_def)
  have mem: "c \<in> fl_ClientIP ` set (top_selected now s p) \<longleftrightarrow> client_flows now s p c \<noteq> []" for c
    by (auto simp: client_flows_def filter_empty_conv)
  have keys: "distinct (map ag_Key groups)" by (simp add: g comp_def k)
  have groups: "a \<in> set groups \<longleftrightarrow> a = client_total now s p (ag_Key a) \<and> client_flows now s p (ag_Key a) \<noteq> []" for a
    unfolding g set_map set_remdups using mem k by (metis (no_types, lifting) imageE image_eqI)
  note spec = top_rows_spec [OF rows(1) keys inj_sql_text]
  have view: "tt_ClientIP (view a) = ag_Key a" for a by (simp add: view_def)
  have total: "client_total now s p (ag_Key a) = a" if "a \<in> set rows" for a using that spec(1) groups [of a] by auto
  show "distinct (map tt_ClientIP items)" using spec(2) by (simp add: rows(2) view comp_def)
  show "sorted_wrt (\<lambda>i j. top_before SqlText col order (client_total now s p (tt_ClientIP i)) (client_total now s p (tt_ClientIP j))) items"
    using spec(4) unfolding rows(2) sorted_wrt_map view by (rule sorted_wrt_mono_rel [rotated]) (simp add: total)
  show "\<forall>i\<in>set items. client_flows now s p (tt_ClientIP i) \<noteq> [] \<and>
           uint (tt_BytesUp i) = (\<Sum>r\<leftarrow>client_flows now s p (tt_ClientIP i). fl_BytesUp r) \<and>
           uint (tt_BytesDown i) = (\<Sum>r\<leftarrow>client_flows now s p (tt_ClientIP i). fl_BytesDown r) \<and>
           uint (tt_BytesTotal i) = uint (tt_BytesUp i) + uint (tt_BytesDown i) \<and>
           tt_FlowCount i = int (length (client_flows now s p (tt_ClientIP i)))"
  proof
    fix i assume "i \<in> set items"
    then obtain a where a: "a \<in> set rows" "i = view a" using rows(2) by auto
    have n: "client_flows now s p (ag_Key a) \<noteq> []" using spec(1) groups a(1) by auto
    obtain k u d t n where ag: "a = \<lparr>ag_Key = k, ag_BytesUp = u, ag_BytesDown = d, ag_BytesTotal = t, ag_FlowCount = n\<rparr>" by (cases a)
    have "sums_fit a" "scannable a" using spec(3) a(1) by auto
    note u = uint_scanned [OF this]
    show "client_flows now s p (tt_ClientIP i) \<noteq> [] \<and>
           uint (tt_BytesUp i) = (\<Sum>r\<leftarrow>client_flows now s p (tt_ClientIP i). fl_BytesUp r) \<and>
           uint (tt_BytesDown i) = (\<Sum>r\<leftarrow>client_flows now s p (tt_ClientIP i). fl_BytesDown r) \<and>
           uint (tt_BytesTotal i) = uint (tt_BytesUp i) + uint (tt_BytesDown i) \<and>
           tt_FlowCount i = int (length (client_flows now s p (tt_ClientIP i)))"
      using u total [OF a(1)] n by (simp add: a(2) view_def ag client_total_def aggregate_of_def sum_list_addf)
  qed
  show "length items = nat (top_limit (tp_Limit p)) \<and>
         (\<forall>i\<in>set items. top_before SqlText col order (client_total now s p (tt_ClientIP i)) (client_total now s p c))"
    if h: "tp_Offset p = 0" "client_flows now s p c \<noteq> []" "c \<notin> tt_ClientIP ` set items"
  proof -
    have "client_total now s p c \<in> set groups" using groups [of "client_total now s p c"] h(2) k by simp
    moreover have "client_total now s p c \<notin> set rows"
    proof
      assume "client_total now s p c \<in> set rows"
      then have "tt_ClientIP (view (client_total now s p c)) \<in> tt_ClientIP ` set items" unfolding rows(2) set_map by (intro imageI)
      then show False using h(3) by (simp add: view k)
    qed
    ultimately show ?thesis using spec(6) [OF h(1)] rows(2) total by (auto simp: view)
  qed
qed

text \<open>
  The ranking of clients is right. The clients it lists are distinct, each with the sums
  over its own selected Flows, in the order asked for; and the first page leaves a client out
  only when it is full and every client on it ranks before that one.
\<close>

lemma top_clients_ranked:
  assumes "GetTopTalkers db now p s = Inr items" and "topSort (tp_SortBy p) (tp_SortOrder p) ''client_ip'' = Inr (col, order)"
  shows "distinct (map tt_ClientIP items) \<and>
    (\<forall>i\<in>set items. client_flows now s p (tt_ClientIP i) \<noteq> [] \<and>
       uint (tt_BytesUp i) = (\<Sum>r\<leftarrow>client_flows now s p (tt_ClientIP i). fl_BytesUp r) \<and>
       uint (tt_BytesDown i) = (\<Sum>r\<leftarrow>client_flows now s p (tt_ClientIP i). fl_BytesDown r) \<and>
       uint (tt_BytesTotal i) = uint (tt_BytesUp i) + uint (tt_BytesDown i) \<and>
       tt_FlowCount i = int (length (client_flows now s p (tt_ClientIP i)))) \<and>
    sorted_wrt (\<lambda>i j. top_before SqlText col order (client_total now s p (tt_ClientIP i)) (client_total now s p (tt_ClientIP j))) items \<and>
    (tp_Offset p = 0 \<longrightarrow> (\<forall>c. client_flows now s p c \<noteq> [] \<and> c \<notin> tt_ClientIP ` set items \<longrightarrow>
       length items = nat (top_limit (tp_Limit p)) \<and>
       (\<forall>i\<in>set items. top_before SqlText col order (client_total now s p (tt_ClientIP i)) (client_total now s p c))))"
proof (intro conjI impI allI)
  note ranking = talker_ranking [OF assms]
  show "distinct (map tt_ClientIP items)" by (rule ranking(1))
  show "\<forall>i\<in>set items. client_flows now s p (tt_ClientIP i) \<noteq> [] \<and>
       uint (tt_BytesUp i) = (\<Sum>r\<leftarrow>client_flows now s p (tt_ClientIP i). fl_BytesUp r) \<and>
       uint (tt_BytesDown i) = (\<Sum>r\<leftarrow>client_flows now s p (tt_ClientIP i). fl_BytesDown r) \<and>
       uint (tt_BytesTotal i) = uint (tt_BytesUp i) + uint (tt_BytesDown i) \<and>
       tt_FlowCount i = int (length (client_flows now s p (tt_ClientIP i)))" by (rule ranking(2))
  show "sorted_wrt (\<lambda>i j. top_before SqlText col order (client_total now s p (tt_ClientIP i)) (client_total now s p (tt_ClientIP j))) items"
    by (rule ranking(3))
  fix c assume "tp_Offset p = 0" "client_flows now s p c \<noteq> [] \<and> c \<notin> tt_ClientIP ` set items"
  then show "length items = nat (top_limit (tp_Limit p))"
    "\<forall>i\<in>set items. top_before SqlText col order (client_total now s p (tt_ClientIP i)) (client_total now s p c)"
    using ranking(4) [of c] by auto
qed

definition tag_carriers :: "time \<Rightarrow> AuditStore \<Rightarrow> TopTagParams \<Rightarrow> string \<Rightarrow> FlowRow list" where
  "tag_carriers now s p t = filter (\<lambda>f. sql_where (top_where p) f \<and> flow_has_tag now s t f) (au_flows s)"

definition tagged_as :: "string \<Rightarrow> FlowRow \<Rightarrow> tagged_row" where
  "tagged_as t f = \<lparr>td_FlowID = fl_FlowID f, td_Tag = t, td_BytesUp = fl_BytesUp f, td_BytesDown = fl_BytesDown f\<rparr>"

lemma tagged_rows: "r \<in> set (tagged now p s) \<longleftrightarrow> (\<exists>t. \<exists>f\<in>set (tag_carriers now s p t). r = tagged_as t f)"
proof -
  have j: "r \<in> set (join_tags now owner flows tags) \<longleftrightarrow>
      (\<exists>t. \<exists>f\<in>set flows. (\<exists>g\<in>set tags. tg_Owner g = owner f \<and> tg_Tag g = t \<and> tag_live now g) \<and> r = tagged_as t f)" for owner flows tags
    by (auto simp: join_tags_def tagged_as_def)
  show ?thesis by (simp add: tagged_def Let_def j tag_carriers_def flow_has_tag_def list_ex_iff) blast
qed

text \<open>Where rows with the same key are the same, one row per key is the set of the rows.\<close>

lemma dedup_functional:
  assumes "\<And>a b. a \<in> set rows \<Longrightarrow> b \<in> set rows \<Longrightarrow> td_FlowID a = td_FlowID b \<Longrightarrow> td_Tag a = td_Tag b \<Longrightarrow> a = b"
  shows "set (dedup rows) = set rows" and "distinct (dedup rows)"
proof -
  have one: "\<lparr>td_FlowID = td_FlowID r, td_Tag = td_Tag r, td_BytesUp = Max (set (map td_BytesUp rs)), td_BytesDown = Max (set (map td_BytesDown rs))\<rparr> = r"
    if "r \<in> set rows" "rs = filter (\<lambda>x. (td_FlowID x, td_Tag x) = (td_FlowID r, td_Tag r)) rows" for r rs
  proof -
    have "set rs = {r}" using that assms by auto
    then show ?thesis by simp
  qed
  define k where "k r = (td_FlowID r, td_Tag r)" for r :: tagged_row
  define build where "build x = (case x of ((f, t), rs) \<Rightarrow> \<lparr>td_FlowID = f, td_Tag = t, td_BytesUp = Max (set (map td_BytesUp rs)),
      td_BytesDown = Max (set (map td_BytesDown rs))\<rparr>)" for x :: "(string \<times> string) \<times> tagged_row list"
  have d: "dedup rows = map (\<lambda>x. build (x, filter (\<lambda>r. k r = x) rows)) (remdups (map k rows))"
    by (simp add: dedup_def group_by_def comp_def k_def [abs_def] build_def [abs_def] split_def)
  have b: "build (k r, filter (\<lambda>x. k x = k r) rows) = r" if "r \<in> set rows" for r
    using one [OF that refl] by (simp add: build_def k_def)
  show "set (dedup rows) = set rows" using b by (force simp: d image_image)
  have "map k (dedup rows) = remdups (map k rows)"
    using b by (auto simp: d comp_def build_def k_def intro!: map_idI)
  then show "distinct (dedup rows)" by (metis distinct_map distinct_remdups)
qed

lemma tag_group:
  fixes now p
  assumes "keys_ok s"
  defines "rows \<equiv> dedup (tagged now p s)"
  shows "set rows = set (tagged now p s)" and "distinct rows"
    and "mset (filter (\<lambda>r. td_Tag r = t) rows) = mset (map (tagged_as t) (tag_carriers now s p t))"
proof -
  have ids: "distinct (map fl_FlowID (au_flows s))" using assms(1) by (simp add: keys_ok_def)
  have same: "f = g" if "f \<in> set (au_flows s)" "g \<in> set (au_flows s)" "fl_FlowID f = fl_FlowID g" for f g
    using ids that by (meson inj_onD distinct_map)
  have fn: "a = b" if "a \<in> set (tagged now p s)" "b \<in> set (tagged now p s)" "td_FlowID a = td_FlowID b" "td_Tag a = td_Tag b" for a b
  proof -
    note h = that
    obtain t f u g where "f \<in> set (tag_carriers now s p t)" "a = tagged_as t f" "g \<in> set (tag_carriers now s p u)" "b = tagged_as u g"
      using h(1,2) unfolding tagged_rows by blast
    moreover from this have "f = g" using same [of f g] h(3) by (simp add: tag_carriers_def tagged_as_def)
    ultimately show ?thesis using h(4) by (simp add: tagged_as_def)
  qed
  show st: "set rows = set (tagged now p s)" and d: "distinct rows"
    unfolding rows_def using dedup_functional [of "tagged now p s"] fn by blast+
  have "set (filter (\<lambda>r. td_Tag r = t) rows) = set (map (tagged_as t) (tag_carriers now s p t))"
    by (auto simp: st tagged_rows tagged_as_def)
  moreover have "distinct (map (tagged_as t) (tag_carriers now s p t))"
    using same ids
    by (auto simp: distinct_map tag_carriers_def inj_on_def tagged_as_def)
  ultimately show "mset (filter (\<lambda>r. td_Tag r = t) rows) = mset (map (tagged_as t) (tag_carriers now s p t))"
    using d by (metis distinct_filter set_eq_iff_mset_eq_distinct)
qed

text \<open>
  C9: the ranking of tags counts a Flow once for each tag it carries, however many ways it
  carries it. In a store with unique keys, an entry has the sums over the selected Flows that
  have the tag themselves or through their client, and their number; the tags are distinct.
\<close>

theorem top_tags_count_each_flow_once:
  assumes "audit_inv s" and "GetTopTags db now p s = Inr items"
  shows "distinct (map to_Tag items) \<and>
    (\<forall>i\<in>set items. tag_carriers now s p (to_Tag i) \<noteq> [] \<and>
       uint (to_BytesUp i) = (\<Sum>f\<leftarrow>tag_carriers now s p (to_Tag i). fl_BytesUp f) \<and>
       uint (to_BytesDown i) = (\<Sum>f\<leftarrow>tag_carriers now s p (to_Tag i). fl_BytesDown f) \<and>
       uint (to_BytesTotal i) = uint (to_BytesUp i) + uint (to_BytesDown i) \<and>
       to_FlowCount i = int (length (tag_carriers now s p (to_Tag i))))"
proof -
  define view where "view = (\<lambda>a :: string aggregate. \<lparr>to_Tag = ag_Key a, to_BytesUp = word_of_int (ag_BytesUp a), to_BytesDown = word_of_int (ag_BytesDown a),
                   to_BytesTotal = word_of_int (ag_BytesTotal a), to_FlowCount = ag_FlowCount a\<rparr>)"
  define ded where "ded = dedup (tagged now p s)"
  define groups where "groups = map (aggregate_of td_BytesUp td_BytesDown) (group_by td_Tag ded)"
  obtain col order where "topSort (tp_SortBy p) (tp_SortOrder p) ''tag'' = Inr (col, order)"
    using assms(2) by (auto simp: GetTopTags_def split: option.splits sum.splits)
  then obtain rows where rows: "top_rows db SqlText col order (top_limit (tp_Limit p)) (tp_Offset p) groups = Inr rows" "items = map view rows"
    using assms(2) unfolding GetTopTags_def view_def [symmetric] ded_def [symmetric] groups_def [symmetric]
    by (cases "top_rows db SqlText col order (top_limit (tp_Limit p)) (tp_Offset p) groups") (auto split: option.splits)
  have keys: "distinct (map ag_Key groups)" by (simp add: groups_def group_by_def comp_def aggregate_of_def)
  note spec = top_rows_spec [OF rows(1) keys inj_sql_text]
  have "keys_ok s" using assms(1) by (simp add: audit_inv_def)
  note grp = tag_group [OF this, where now = now and p = p, folded ded_def]
  have entry: "tag_carriers now s p (to_Tag i) \<noteq> [] \<and>
       uint (to_BytesUp i) = (\<Sum>f\<leftarrow>tag_carriers now s p (to_Tag i). fl_BytesUp f) \<and>
       uint (to_BytesDown i) = (\<Sum>f\<leftarrow>tag_carriers now s p (to_Tag i). fl_BytesDown f) \<and>
       uint (to_BytesTotal i) = uint (to_BytesUp i) + uint (to_BytesDown i) \<and>
       to_FlowCount i = int (length (tag_carriers now s p (to_Tag i)))" if i: "i \<in> set items" for i
  proof -
    obtain a where a: "a \<in> set rows" "i = view a" using i rows(2) by auto
    then have "a \<in> set groups" using spec(1) by blast
    then obtain t where t: "t \<in> td_Tag ` set ded" "a = aggregate_of td_BytesUp td_BytesDown (t, filter (\<lambda>r. td_Tag r = t) ded)"
      by (auto simp: groups_def group_by_def)
    have ms: "sum_list (map h (filter (\<lambda>r. td_Tag r = t) ded)) = sum_list (map h (map (tagged_as t) (tag_carriers now s p t)))" for h :: "tagged_row \<Rightarrow> int"
      using arg_cong [OF grp(3) [where t = t], of "\<lambda>m. sum_mset (image_mset h m)"] by (simp only: mset_map [symmetric] sum_mset_sum_list)
    have len: "length (filter (\<lambda>r. td_Tag r = t) ded) = length (tag_carriers now s p t)"
      using mset_eq_length [OF grp(3) [where t = t]] by simp
    have ne: "filter (\<lambda>r. td_Tag r = t) ded \<noteq> []" using t(1) by (auto simp: filter_empty_conv)
    have "sums_fit a" "scannable a" using spec(3) a(1) by auto
    note u = uint_scanned [OF this]
    have "to_Tag i = t" by (simp add: a(2) view_def t(2) aggregate_of_def)
    then show ?thesis
      using u ms [of td_BytesUp] ms [of td_BytesDown] ms [of "\<lambda>r. td_BytesUp r + td_BytesDown r"] len ne
      by (auto simp: a(2) view_def t(2) aggregate_of_def comp_def tagged_as_def sum_list_addf)
  qed
  have "distinct (map to_Tag items)" using spec(2) by (simp add: rows(2) view_def comp_def)
  then show ?thesis using entry by blast
qed

section \<open>Samples\<close>

definition sample_top_store :: AuditStore where
  "sample_top_store = empty_audit\<lparr>
     au_entities := [], au_flows := [sample_row ''a'' ''tcp'' 5, sample_row ''b'' ''tcp'' 9],
     au_flowTags := [],
     au_clientTags := [\<lparr>tg_Owner = ''10.0.0.1'', tg_Tag = ''bot'', tg_Source = ''x'', tg_ExpiresAt = None, tg_CreatedAt = 1, tg_UpdatedAt = 1\<rparr>]\<rparr>"

definition sample_top :: TopTagParams where
  "sample_top = \<lparr>tp_StartTime = None, tp_EndTime = None, tp_Protocol = ''TCP'', tp_Upstream = [], tp_SortBy = [], tp_SortOrder = [],
     tp_Limit = 0, tp_Offset = 0\<rparr>"

definition sample_talkers :: TopTalkerParams where
  "sample_talkers = TopTagParams.extend sample_top \<lparr>tp_Tag = ''bot''\<rparr>"

lemma sample_top_tags:
  "GetTopTags True 9 sample_top sample_top_store =
     Inr [\<lparr>to_Tag = ''bot'', to_BytesUp = 14, to_BytesDown = 0, to_BytesTotal = 14, to_FlowCount = 2\<rparr>]"
  by code_simp

lemma sample_top_talkers:
  "GetTopTalkers True 9 sample_talkers sample_top_store =
     Inr [\<lparr>tt_ClientIP = ''10.0.0.1'', tt_BytesUp = 14, tt_BytesDown = 0, tt_BytesTotal = 14, tt_FlowCount = 2\<rparr>]"
  by code_simp

theorem top_tags_count_each_flow_once_witness:
  "int (length (tag_carriers 9 sample_top_store sample_top ''bot'')) = 2 \<and>
   (\<Sum>f\<leftarrow>tag_carriers 9 sample_top_store sample_top ''bot''. fl_BytesUp f) = 14"
proof -
  have "audit_inv sample_top_store"
    by (simp add: sample_top_store_def audit_inv_def keys_ok_def refs_ok_def empty_audit_def sample_row_def tag_key_def)
  from top_tags_count_each_flow_once [OF this sample_top_tags] show ?thesis by simp
qed

lemma top_clients_ranked_sample:
  "client_flows 9 sample_top_store sample_talkers ''10.0.0.2'' = [] \<and>
   (\<Sum>r\<leftarrow>client_flows 9 sample_top_store sample_talkers ''10.0.0.1''. fl_BytesUp r) = 14"
proof -
  have "topSort (tp_SortBy sample_talkers) (tp_SortOrder sample_talkers) ''client_ip'' = Inr (''bytes_total'', ''desc'')" by code_simp
  note ranked = top_clients_ranked [OF sample_top_talkers this]
  have "tp_Offset sample_talkers = 0" "top_limit (tp_Limit sample_talkers) = 10" by code_simp+
  then show ?thesis using ranked by (auto dest!: spec [of _ "''10.0.0.2''"])
qed

end
