(* ===== verification/AuditDsl.thy ===== *)
theory AuditDsl
  imports AuditTop
begin

text \<open>
  The query language of the audit page (\<open>internal/auditdsl/dsl.go\<close>): its tokens, its parser
  and its relative times; and how the control server turns a parsed query into parameters of
  the store (\<open>internal/control/audit_query_api.go\<close>). An error is its byte position (from 0) and
  a constructor for its text. \<open>strconv.Unquote\<close>, \<open>time.ParseDuration\<close> and \<open>time.Parse\<close> with
  the RFC 3339 layout are the argument \<open>lib\<close>; every theorem holds for all of them.

  The parser checks the filters in the order of a Go map, which is arbitrary; here the order is
  that of the query, so of several bad filters the first is reported. Which queries are
  accepted, and as what, does not depend on it.
\<close>

section \<open>Data\<close>

datatype Source = SourceFlows | SourceRejections | SourceEvents | SourceTopClients | SourceTopASNs | SourceTopTags

definition MaxQueryBytes :: nat where "MaxQueryBytes = 4096"
definition DefaultLimit :: int where "DefaultLimit = 200"
definition MaxLimit :: int where "MaxLimit = 1000"

record DslQuery =
  dq_Source :: Source
  dq_Filters :: "(string, string) gomap"
  dq_SortBy :: string
  dq_SortOrder :: string
  dq_Limit :: int
  dq_Offset :: int

definition commonFilters :: "string list" where
  "commonFilters = [''protocol'', ''cidr'', ''ip'', ''asn'', ''country'', ''upstream'', ''reason'', ''since'', ''until'', ''tag'']"

definition sourceFilters :: "Source \<Rightarrow> string list" where
  "sourceFilters src =
     (case src of
        SourceFlows \<Rightarrow> [''protocol'', ''cidr'', ''ip'', ''asn'', ''country'', ''upstream'', ''tag'', ''since'', ''until'']
      | SourceRejections \<Rightarrow> [''protocol'', ''cidr'', ''ip'', ''asn'', ''country'', ''reason'', ''since'', ''until'']
      | SourceEvents \<Rightarrow> commonFilters
      | SourceTopClients \<Rightarrow> [''protocol'', ''upstream'', ''tag'', ''since'', ''until'']
      | SourceTopASNs \<Rightarrow> [''protocol'', ''upstream'', ''tag'', ''since'', ''until'']
      | SourceTopTags \<Rightarrow> [''protocol'', ''upstream'', ''since'', ''until''])"

definition sortFields :: "Source \<Rightarrow> string list" where
  "sortFields src =
     (case src of
        SourceFlows \<Rightarrow> [''recorded_at'', ''bytes_up'', ''bytes_down'', ''bytes_total'', ''duration_ms'', ''ip'', ''asn'', ''country'', ''protocol'', ''upstream'']
      | SourceRejections \<Rightarrow> [''recorded_at'', ''ip'', ''asn'', ''country'', ''protocol'', ''port'', ''reason'']
      | SourceEvents \<Rightarrow> [''recorded_at'', ''ip'', ''asn'', ''country'', ''protocol'', ''port'', ''entry_type'']
      | SourceTopClients \<Rightarrow> [''bytes_total'', ''bytes_up'', ''bytes_down'', ''flow_count'', ''client_ip'']
      | SourceTopASNs \<Rightarrow> [''bytes_total'', ''bytes_up'', ''bytes_down'', ''flow_count'', ''asn'']
      | SourceTopTags \<Rightarrow> [''bytes_total'', ''bytes_up'', ''bytes_down'', ''flow_count'', ''tag''])"

record token =
  tk_value :: string
  tk_pos :: nat

datatype dsl_error =
    QuoteNotSeparated
  | InvalidQuoted
  | UnterminatedQuoted
  | InvalidToken
  | QueryLength
  | QueryEmpty
  | TopKind
  | UnknownSource string
  | FilterForm
  | FilterNotValid string Source
  | FilterRepeated string
  | ExpectedSeparator
  | StageMissing
  | SortRequires
  | SortFieldNotValid string Source
  | SortOrderInvalid
  | SortTwice
  | NumberRequired string
  | NumberInvalid string
  | LimitRange
  | LimitTwice
  | OffsetTwice
  | UnknownStage string
  | ProtocolInvalid
  | ASNInvalid
  | TimeInvalid
  | CIDRInvalid
  | IPInvalid
  | CountryInvalid
  | SinceAfterUntil

type_synonym 'a dsl_result = "(nat \<times> dsl_error) + 'a"

record dsl_lib =
  lb_Unquote :: "string \<Rightarrow> string option"
  lb_ParseDuration :: "string \<Rightarrow> duration option"
  lb_ParseRFC3339 :: "string \<Rightarrow> int option"

section \<open>Tokens\<close>

definition dsl_space :: "char \<Rightarrow> bool" where
  "dsl_space c \<longleftrightarrow> c = CHR '' '' \<or> c = CHR 0x09 \<or> c = CHR 0x0D \<or> c = CHR 0x0A"

text \<open>How far after an opening quote the closing one is; a backslash skips the character after it.\<close>

fun quote_end :: "string \<Rightarrow> nat option" where
  "quote_end [] = None"
| "quote_end [c] = (if c = CHR 0x5C then None else if c = CHR 0x22 then Some 0 else None)"
| "quote_end (c # d # s) =
     (if c = CHR 0x5C then map_option (\<lambda>n. n + 2) (quote_end s)
      else if c = CHR 0x22 then Some 0
      else map_option Suc (quote_end (d # s)))"

text \<open>One token: the value, the position after it and the rest of the input.\<close>

function (sequential) scan_token :: "dsl_lib \<Rightarrow> nat \<Rightarrow> bool \<Rightarrow> string \<Rightarrow> string \<Rightarrow> (string \<times> nat \<times> string) dsl_result" where
  "scan_token lib i closedQuote val [] = Inr (val, i, [])"
| "scan_token lib i closedQuote val (c # s) =
     (if dsl_space c \<or> c = CHR ''|'' then Inr (val, i, c # s)
      else if c = CHR 0x22 then
        (if closedQuote then Inl (i, QuoteNotSeparated)
         else case quote_end s of
                None \<Rightarrow> Inl (i, UnterminatedQuoted)
              | Some n \<Rightarrow>
                  (case lb_Unquote lib (c # take (Suc n) s) of
                     None \<Rightarrow> Inl (i, InvalidQuoted)
                   | Some raw \<Rightarrow> scan_token lib (i + n + 2) True (val @ raw) (drop (Suc n) s)))
      else scan_token lib (i + 1) closedQuote (val @ [c]) s)"
  by pat_completeness auto

termination
  by (relation "measure (\<lambda>(lib, i, q, v, s). length s)") auto

lemma scan_token_rest: "scan_token lib i q v s = Inr (v', j, r) \<Longrightarrow> length r \<le> length s"
proof (induction lib i q v s rule: scan_token.induct)
  case (2 lib i q v c s)
  show ?case
  proof (cases "c = CHR 0x22 \<and> \<not> dsl_space c")
    case True
    with "2.prems" obtain n raw where "quote_end s = Some n" "lb_Unquote lib (c # take (Suc n) s) = Some raw" "\<not> q"
        "scan_token lib (i + n + 2) True (v @ raw) (drop (Suc n) s) = Inr (v', j, r)"
      by (auto split: if_splits option.splits)
    then have "length r \<le> length (drop (Suc n) s)" using "2.IH"(1) True by auto
    then show ?thesis by simp
  next
    case False
    then show ?thesis using "2.prems" "2.IH"(2) by (auto split: if_splits)
  qed
qed simp

lemma scan_token_progress:
  "scan_token lib i False [] (c # s) = Inr (v', j, r) \<Longrightarrow> \<not> dsl_space c \<Longrightarrow> c \<noteq> CHR ''|'' \<Longrightarrow> length r \<le> length s"
  by (fastforce split: if_splits option.splits dest: scan_token_rest)

lemma dropWhile_shorter: "dropWhile P s = c # rest \<Longrightarrow> length rest < length s \<and> \<not> P c"
  using length_dropWhile_le [of P s] hd_dropWhile [of P s] by auto

text \<open>The loop of \<open>tokenize\<close>, from position \<open>i\<close> on.\<close>

function tokens_from :: "dsl_lib \<Rightarrow> nat \<Rightarrow> string \<Rightarrow> (token list) dsl_result" where
  "tokens_from lib i s =
     (let sp = length (takeWhile dsl_space s); j = i + sp; t = dropWhile dsl_space s
      in case t of
           [] \<Rightarrow> Inr []
         | c # rest \<Rightarrow>
             if c = CHR ''|'' then map_sum id (\<lambda>ts. \<lparr>tk_value = ''|'', tk_pos = j\<rparr> # ts) (tokens_from lib (j + 1) rest)
             else
               (case scan_token lib j False [] t of
                  Inl e \<Rightarrow> Inl e
                | Inr (val, k, rest') \<Rightarrow>
                    if val = [] then Inl (k, InvalidToken)
                    else map_sum id (\<lambda>ts. \<lparr>tk_value = val, tk_pos = j\<rparr> # ts) (tokens_from lib k rest')))"
  by pat_completeness auto

termination
proof (relation "measure (\<lambda>(lib, i, s). length s)")
  show "wf (measure (\<lambda>(lib, i, s :: string). length s))" by simp
next
  fix lib :: dsl_lib and i :: nat and s rest :: string and sp j :: nat and t :: string and c :: char
  assume "t = dropWhile dsl_space s" "t = c # rest"
  then show "((lib, j + 1, rest), (lib, i, s)) \<in> measure (\<lambda>(lib, i, s). length s)"
    using dropWhile_shorter [of dsl_space s c rest] by simp
next
  fix lib :: dsl_lib and i :: nat and s rest :: string and sp j :: nat and t :: string and c :: char and y val y' k rest'
  assume h: "t = dropWhile dsl_space s" "t = c # rest" "c \<noteq> CHR ''|''"
    "scan_token lib j False [] t = Inr y" "(val, y') = y" "(k, rest') = y'"
  have "length rest < length s" "\<not> dsl_space c" using dropWhile_shorter [of dsl_space s c rest] h by auto
  moreover have "scan_token lib j False [] (c # rest) = Inr (val, k, rest')" unfolding h(5,6) h(4) [symmetric] h(2) ..
  then have "length rest' \<le> length rest" using calculation(2) h(3) by (rule scan_token_progress)
  ultimately show "((lib, k, rest'), (lib, i, s)) \<in> measure (\<lambda>(lib, i, s). length s)" by simp
qed

declare tokens_from.simps [simp del]

definition tokenize :: "dsl_lib \<Rightarrow> string \<Rightarrow> (token list) dsl_result" where
  "tokenize lib input = tokens_from lib 0 input"

section \<open>Times\<close>

definition unix_seconds :: "time \<Rightarrow> int" where
  "unix_seconds t = (t - unix_epoch) div second"

text \<open>A number of days is multiplied in 64 bits.\<close>

definition ParseTime :: "dsl_lib \<Rightarrow> string \<Rightarrow> time \<Rightarrow> int option" where
  "ParseTime lib raw now =
     (let absolute = lb_ParseRFC3339 lib raw
      in if raw \<noteq> [] \<and> hd raw = CHR ''-'' then
           let v = tl raw;
               days = (if v \<noteq> [] \<and> last v = CHR ''d'' then Atoi (butlast v) else None)
           in (case days of
                 Some n \<Rightarrow> if n > 0 then Some (unix_seconds (time_add now (wrap64 (- n * 24 * hour))))
                           else (case lb_ParseDuration lib raw of
                                   Some d \<Rightarrow> if d < 0 then Some (unix_seconds (time_add now d)) else absolute
                                 | None \<Rightarrow> absolute)
               | None \<Rightarrow> (case lb_ParseDuration lib raw of
                            Some d \<Rightarrow> if d < 0 then Some (unix_seconds (time_add now d)) else absolute
                          | None \<Rightarrow> absolute))
         else absolute)"

definition Query_Time :: "dsl_lib \<Rightarrow> string \<Rightarrow> time \<Rightarrow> DslQuery \<Rightarrow> dsl_error + int option" where
  "Query_Time lib key now q =
     (case gget (dq_Filters q) key of
        None \<Rightarrow> Inr None
      | Some raw \<Rightarrow> (case ParseTime lib raw now of None \<Rightarrow> Inl TimeInvalid | Some t \<Rightarrow> Inr (Some t)))"

section \<open>The parser\<close>

definition parse_source :: "token list \<Rightarrow> (Source \<times> token list) dsl_result" where
  "parse_source tokens =
     (case tokens of
        [] \<Rightarrow> Inl (0, QueryEmpty)
      | t # ts \<Rightarrow>
          if tk_value t = ''flows'' then Inr (SourceFlows, ts)
          else if tk_value t = ''rejections'' then Inr (SourceRejections, ts)
          else if tk_value t = ''events'' then Inr (SourceEvents, ts)
          else if tk_value t = ''top'' then
            (case ts of
               [] \<Rightarrow> Inl (tk_pos t, TopKind)
             | k # ts' \<Rightarrow>
                 if tk_value k = ''clients'' then Inr (SourceTopClients, ts')
                 else if tk_value k = ''asns'' then Inr (SourceTopASNs, ts')
                 else if tk_value k = ''tags'' then Inr (SourceTopTags, ts')
                 else Inl (tk_pos t, TopKind))
          else Inl (tk_pos t, UnknownSource (tk_value t)))"

text \<open>The filters, each with the position of its token; the rest begins with a separator or is empty.\<close>

fun parse_filters ::
    "Source \<Rightarrow> (string, string \<times> nat) gomap \<Rightarrow> token list \<Rightarrow> ((string, string \<times> nat) gomap \<times> token list) dsl_result" where
  "parse_filters src fs [] = Inr (fs, [])"
| "parse_filters src fs (t # ts) =
     (if tk_value t = ''|'' then Inr (fs, t # ts)
      else case cut_first CHR ''='' (tk_value t) of
             None \<Rightarrow> Inl (tk_pos t, FilterForm)
           | Some (k, v) \<Rightarrow>
               if k = [] \<or> v = [] then Inl (tk_pos t, FilterForm)
               else let key = ToLower k
                    in if key \<notin> set (sourceFilters src) then Inl (tk_pos t, FilterNotValid key src)
                       else if gget fs key \<noteq> None then Inl (tk_pos t, FilterRepeated key)
                       else parse_filters src (gput key (v, tk_pos t) fs) ts)"

record stages =
  sg_sort :: "(string \<times> string) option"
  sg_limit :: "int option"
  sg_offset :: "int option"

fun parse_stages :: "Source \<Rightarrow> stages \<Rightarrow> token list \<Rightarrow> stages dsl_result" where
  "parse_stages src g [] = Inr g"
| "parse_stages src g (p # []) =
     (if tk_value p \<noteq> ''|'' then Inl (tk_pos p, ExpectedSeparator) else Inl (tk_pos p, StageMissing))"
| "parse_stages src g (p # t # ts) =
     (if tk_value p \<noteq> ''|'' then Inl (tk_pos p, ExpectedSeparator)
      else if tk_value t = ''sort'' then
        (case ts of
           f # d # rest \<Rightarrow>
             if tk_value f = ''|'' \<or> tk_value d = ''|'' then Inl (tk_pos t, SortRequires)
             else if tk_value f \<notin> set (sortFields src) then Inl (tk_pos f, SortFieldNotValid (tk_value f) src)
             else if ToLower (tk_value d) \<noteq> ''asc'' \<and> ToLower (tk_value d) \<noteq> ''desc'' then Inl (tk_pos d, SortOrderInvalid)
             else if sg_sort g \<noteq> None then Inl (tk_pos t, SortTwice)
             else parse_stages src (g\<lparr>sg_sort := Some (tk_value f, ToLower (tk_value d))\<rparr>) rest
         | _ \<Rightarrow> Inl (tk_pos t, SortRequires))
      else if tk_value t = ''limit'' \<or> tk_value t = ''offset'' then
        (case ts of
           n # rest \<Rightarrow>
             if tk_value n = ''|'' then Inl (tk_pos t, NumberRequired (tk_value t))
             else (case Atoi (tk_value n) of
                     None \<Rightarrow> Inl (tk_pos n, NumberInvalid (tk_value t))
                   | Some v \<Rightarrow>
                       if v < 0 then Inl (tk_pos n, NumberInvalid (tk_value t))
                       else if tk_value t = ''limit'' then
                         (if v = 0 \<or> v > MaxLimit then Inl (tk_pos n, LimitRange)
                          else if sg_limit g \<noteq> None then Inl (tk_pos t, LimitTwice)
                          else parse_stages src (g\<lparr>sg_limit := Some v\<rparr>) rest)
                       else
                         (if sg_offset g \<noteq> None then Inl (tk_pos t, OffsetTwice)
                          else parse_stages src (g\<lparr>sg_offset := Some v\<rparr>) rest))
         | [] \<Rightarrow> Inl (tk_pos t, NumberRequired (tk_value t)))
      else Inl (tk_pos t, UnknownStage (tk_value t)))"

definition isLetter :: "char \<Rightarrow> bool" where
  "isLetter c \<longleftrightarrow> char_in CHR ''A'' CHR ''Z'' c \<or> char_in CHR ''a'' CHR ''z'' c"

text \<open>The check of one filter: its value after the check.\<close>

definition check_filter :: "dsl_lib \<Rightarrow> time \<Rightarrow> string \<Rightarrow> string \<Rightarrow> dsl_error + string" where
  "check_filter lib now key v =
     (if key = ''protocol'' then
        (if ToLower v \<noteq> ''tcp'' \<and> ToLower v \<noteq> ''udp'' then Inl ProtocolInvalid else Inr (ToLower v))
      else if key = ''asn'' then
        (case Atoi v of None \<Rightarrow> Inl ASNInvalid | Some n \<Rightarrow> if n < 0 then Inl ASNInvalid else Inr v)
      else if key = ''since'' \<or> key = ''until'' then
        (case ParseTime lib v now of None \<Rightarrow> Inl TimeInvalid | Some _ \<Rightarrow> Inr v)
      else if key = ''cidr'' then
        (case ParsePrefix v of None \<Rightarrow> Inl CIDRInvalid | Some _ \<Rightarrow> Inr v)
      else if key = ''ip'' then
        (case ParseAddr v of None \<Rightarrow> Inl IPInvalid | Some _ \<Rightarrow> Inr v)
      else if key = ''country'' then
        (if length v \<noteq> 2 \<or> \<not> isLetter (v ! 0) \<or> \<not> isLetter (v ! 1) then Inl CountryInvalid else Inr (ToUpper v))
      else Inr v)"

fun check_filters :: "dsl_lib \<Rightarrow> time \<Rightarrow> (string, string \<times> nat) gomap \<Rightarrow> ((string, string) gomap) dsl_result" where
  "check_filters lib now [] = Inr []"
| "check_filters lib now ((key, v, pos) # fs) =
     (case check_filter lib now key v of
        Inl e \<Rightarrow> Inl (pos, e)
      | Inr v' \<Rightarrow> map_sum id (\<lambda>m. (key, v') # m) (check_filters lib now fs))"

definition is_top :: "Source \<Rightarrow> bool" where
  "is_top src \<longleftrightarrow> src = SourceTopClients \<or> src = SourceTopASNs \<or> src = SourceTopTags"

definition filter_time :: "dsl_lib \<Rightarrow> time \<Rightarrow> (string, string \<times> nat) gomap \<Rightarrow> string \<Rightarrow> int option" where
  "filter_time lib now fs key = (case gget fs key of None \<Rightarrow> None | Some (v, _) \<Rightarrow> ParseTime lib v now)"

definition filter_pos :: "(string, string \<times> nat) gomap \<Rightarrow> string \<Rightarrow> nat" where
  "filter_pos fs key = (case gget fs key of None \<Rightarrow> 0 | Some (_, pos) \<Rightarrow> pos)"

definition Parse :: "dsl_lib \<Rightarrow> time \<Rightarrow> string \<Rightarrow> DslQuery dsl_result" where
  "Parse lib now input =
     (if input = [] \<or> length input > MaxQueryBytes then Inl (0, QueryLength)
      else case tokenize lib input of
             Inl e \<Rightarrow> Inl e
           | Inr tokens \<Rightarrow>
               (case parse_source tokens of
                  Inl e \<Rightarrow> Inl e
                | Inr (src, ts) \<Rightarrow>
                    (case parse_filters src [] ts of
                       Inl e \<Rightarrow> Inl e
                     | Inr (fs, ts') \<Rightarrow>
                         (case parse_stages src \<lparr>sg_sort = None, sg_limit = None, sg_offset = None\<rparr> ts' of
                            Inl e \<Rightarrow> Inl e
                          | Inr g \<Rightarrow>
                              (case check_filters lib now fs of
                                 Inl e \<Rightarrow> Inl e
                               | Inr filters \<Rightarrow>
                                   if bad_range (filter_time lib now fs ''since'') (filter_time lib now fs ''until'')
                                   then Inl (filter_pos fs ''until'', SinceAfterUntil)
                                   else Inr \<lparr>dq_Source = src, dq_Filters = filters,
                                     dq_SortBy = (case sg_sort g of Some (f, _) \<Rightarrow> f
                                                  | None \<Rightarrow> if is_top src then ''bytes_total'' else ''recorded_at''),
                                     dq_SortOrder = (case sg_sort g of Some (_, d) \<Rightarrow> d | None \<Rightarrow> ''desc''),
                                     dq_Limit = (case sg_limit g of Some n \<Rightarrow> n | None \<Rightarrow> DefaultLimit),
                                     dq_Offset = (case sg_offset g of Some n \<Rightarrow> n | None \<Rightarrow> 0)\<rparr>)))))"

section \<open>Parameters of the store\<close>

definition auditQueryTimes :: "dsl_lib \<Rightarrow> time \<Rightarrow> DslQuery \<Rightarrow> dsl_error + int option \<times> int option" where
  "auditQueryTimes lib now q =
     (case Query_Time lib ''since'' now q of
        Inl e \<Rightarrow> Inl e
      | Inr start \<Rightarrow> (case Query_Time lib ''until'' now q of Inl e \<Rightarrow> Inl e | Inr stop \<Rightarrow> Inr (start, stop)))"

definition filter_text :: "DslQuery \<Rightarrow> string \<Rightarrow> string" where
  "filter_text q key = gget_default [] (dq_Filters q) key"

definition auditQueryASN :: "DslQuery \<Rightarrow> dsl_error + int option" where
  "auditQueryASN q =
     (if filter_text q ''asn'' = [] then Inr None
      else case Atoi (filter_text q ''asn'') of None \<Rightarrow> Inl ASNInvalid | Some n \<Rightarrow> Inr (Some n))"

text \<open>What \<open>rpcQueryAudit\<close> asks the store for a source that is not an aggregation.\<close>

definition audit_event_params :: "dsl_lib \<Rightarrow> time \<Rightarrow> DslQuery \<Rightarrow> dsl_error + LogEventQueryParams" where
  "audit_event_params lib now q =
     (case auditQueryTimes lib now q of
        Inl e \<Rightarrow> Inl e
      | Inr (start, stop) \<Rightarrow>
          (case auditQueryASN q of
             Inl e \<Rightarrow> Inl e
           | Inr asn \<Rightarrow> Inr
               \<lparr>eq_StartTime = start, eq_EndTime = stop, eq_CIDR = filter_text q ''cidr'', eq_IP = filter_text q ''ip'', eq_ASN = asn,
                eq_Country = filter_text q ''country'', eq_Tag = filter_text q ''tag'', eq_Protocol = filter_text q ''protocol'',
                eq_Upstream = filter_text q ''upstream'', eq_Port = None, eq_Reason = filter_text q ''reason'',
                eq_MatchedRuleType = [], eq_MatchedRuleValue = [],
                eq_EntryType = (if dq_Source q = SourceFlows then EntryTypeFlow
                                else if dq_Source q = SourceRejections then EntryTypeRejection else EntryTypeAll),
                eq_SortBy = dq_SortBy q, eq_SortOrder = dq_SortOrder q, eq_Limit = dq_Limit q, eq_Offset = dq_Offset q\<rparr>))"

definition audit_top_params :: "int option \<Rightarrow> int option \<Rightarrow> DslQuery \<Rightarrow> TopTagParams" where
  "audit_top_params start stop q =
     \<lparr>tp_StartTime = start, tp_EndTime = stop, tp_Protocol = filter_text q ''protocol'', tp_Upstream = filter_text q ''upstream'',
      tp_SortBy = dq_SortBy q, tp_SortOrder = dq_SortOrder q, tp_Limit = dq_Limit q, tp_Offset = dq_Offset q\<rparr>"

definition audit_talker_params :: "int option \<Rightarrow> int option \<Rightarrow> DslQuery \<Rightarrow> TopTalkerParams" where
  "audit_talker_params start stop q = TopTagParams.extend (audit_top_params start stop q) \<lparr>tp_Tag = filter_text q ''tag''\<rparr>"

datatype audit_result =
    TopClientsResult "TopTalker list"
  | TopTagsResult "TopTag list"
  | TopASNsResult "TopASN list"
  | EventsResult "int \<times> LogEventRecord list"

datatype audit_fault =
    StoreUnavailable
  | InvalidParams
  | SyntaxFault "nat \<times> dsl_error"
  | ParamFault dsl_error
  | TopFault top_error
  | EventFault query_error

text \<open>The HTTP status of a fault.\<close>

definition fault_status :: "audit_fault \<Rightarrow> int" where
  "fault_status f = (if f = StoreUnavailable then 503 else 400)"

text \<open>
  The handler. \<open>decoded\<close> is the query the JSON decoder found, or none when there are no
  parameters or they do not decode; \<open>now0\<close>, \<open>now\<close> and \<open>t\<close> are the clock as the parser, the
  handler and the store read it.
\<close>

definition decodeAuditQuery :: "string option \<Rightarrow> audit_fault + string" where
  "decodeAuditQuery decoded =
     (case decoded of None \<Rightarrow> Inl InvalidParams | Some query \<Rightarrow> if TrimSpace query = [] then Inl InvalidParams else Inr query)"

definition rpcQueryAudit ::
    "dsl_lib \<Rightarrow> bool \<Rightarrow> AuditStore option \<Rightarrow> string option \<Rightarrow> time \<Rightarrow> time \<Rightarrow> time \<Rightarrow> int list \<Rightarrow> int list \<Rightarrow> audit_fault + audit_result" where
  "rpcQueryAudit lib db store decoded now0 now t flowIDs rejectionIDs =
     (case store of
        None \<Rightarrow> Inl StoreUnavailable
      | Some s \<Rightarrow>
          (case decodeAuditQuery decoded of
             Inl f \<Rightarrow> Inl f
           | Inr input \<Rightarrow>
               (case Parse lib now0 input of
                  Inl e \<Rightarrow> Inl (SyntaxFault e)
                | Inr q \<Rightarrow>
                    if is_top (dq_Source q) then
                      (case auditQueryTimes lib now q of
                         Inl e \<Rightarrow> Inl (ParamFault e)
                       | Inr (start, stop) \<Rightarrow>
                           if dq_Source q = SourceTopClients then
                             map_sum TopFault TopClientsResult (GetTopTalkers db t (audit_talker_params start stop q) s)
                           else if dq_Source q = SourceTopTags then
                             map_sum TopFault TopTagsResult (GetTopTags db t (audit_top_params start stop q) s)
                           else map_sum TopFault TopASNsResult (GetTopASNs db t (audit_talker_params start stop q) s))
                    else
                      (case audit_event_params lib now q of
                         Inl e \<Rightarrow> Inl (ParamFault e)
                       | Inr p \<Rightarrow> map_sum EventFault EventsResult (QueryLogEvents db t flowIDs rejectionIDs p s)))))"

section \<open>Networks of the two parsers\<close>

text \<open>
  The language checks a network with \<open>netip.ParsePrefix\<close> and the store reads it with
  \<open>net.ParseCIDR\<close>: what the first accepts the second accepts.
\<close>

lemma split_on_chars: "x \<in> set s \<Longrightarrow> x = c \<or> x \<in> set (concat (split_on c s))"
  by (induction c s rule: split_on.induct) (auto split: list.splits)

lemma parse_v4_fields_chars: "parse_v4_fields s = Some fs \<Longrightarrow> x \<in> set s \<Longrightarrow> x = CHR ''.'' \<or> is_digit x"
  using split_on_chars [of x s "CHR ''.''"]
  by (fastforce simp: parse_v4_fields_def parse_octet_def Let_def list_all_iff image_iff split: if_splits)

lemma v6_groups_chars:
  "v6_groups bs ell s = Some (bs', ell', []) \<Longrightarrow> x \<in> set s \<Longrightarrow> x = CHR ''.'' \<or> x = CHR '':'' \<or> hex_val x \<noteq> None"
proof (induction bs ell s rule: v6_groups.induct)
  case (1 bs ell s)
  define h where "h = takeWhile (\<lambda>c. hex_val c \<noteq> None) s"
  define r where "r = drop (length h) s"
  have s: "s = h @ r" unfolding h_def r_def dropWhile_eq_drop [symmetric] by simp
  have hx: "x \<in> set h \<Longrightarrow> hex_val x \<noteq> None" unfolding h_def by (drule set_takeWhileD) simp
  have len: "\<not> length bs \<ge> 16"
  proof
    assume "length bs \<ge> 16"
    then have "v6_groups bs ell s = Some (bs, ell, s)" by (subst v6_groups.simps) simp
    then show False using "1.prems" by simp
  qed
  define bs2 where "bs2 = bs @ [hex_value h div 256, hex_value h mod 256]"
  have step: "v6_groups bs ell s =
     (if h = [] \<or> length h > 4 then None
      else if r \<noteq> [] \<and> hd r = CHR ''.'' then
        (if (ell = None \<and> length bs \<noteq> 12) \<or> length bs + 4 > 16 then None
         else case parse_v4_fields s of None \<Rightarrow> None | Some fs \<Rightarrow> Some (bs @ fs, ell, []))
      else if r = [] then Some (bs2, ell, [])
      else if hd r \<noteq> CHR '':'' \<or> length r = 1 then None
      else if hd (tl r) = CHR '':'' then
        (if ell \<noteq> None then None else if tl (tl r) = [] then Some (bs2, Some (length bs2), [])
         else v6_groups bs2 (Some (length bs2)) (tl (tl r)))
      else v6_groups bs2 ell (tl r))"
    unfolding bs2_def r_def h_def by (subst v6_groups.simps) (simp only: len Let_def if_False)
  then have nonempty: "h \<noteq> []" "\<not> 4 < length h" using "1.prems"(1) by auto
  show ?case
  proof (cases "r \<noteq> [] \<and> hd r = CHR ''.''")
    case True
    then obtain fs where "parse_v4_fields s = Some fs"
      using "1.prems"(1) step by (auto split: if_splits option.splits)
    then show ?thesis using parse_v4_fields_chars [of s fs x] "1.prems"(2) by (auto simp: hex_val_def)
  next
    case dot: False
    show ?thesis
    proof (cases "x \<in> set h")
      case False
      then have xr: "x \<in> set r" "r \<noteq> []" using "1.prems"(2) s by auto
      have colon: "hd r = CHR '':''" "length r \<noteq> 1" using "1.prems"(1) step dot nonempty xr by (auto split: if_splits)
      then obtain y ys where r: "r = CHR '':'' # y # ys" using xr(2) by (cases r; cases "tl r") auto
      show ?thesis
      proof (cases "y = CHR '':''")
        case True
        then show ?thesis
          using "1.prems"(1) step xr r "1.IH"(1) [OF len h_def r_def _ dot bs2_def] nonempty
          by (auto split: if_splits)
      next
        case False
        then show ?thesis
          using "1.prems"(1) step xr r "1.IH"(2) [OF len h_def r_def _ dot bs2_def] nonempty
          by (auto split: if_splits)
      qed
    qed (use hx in simp)
  qed
qed

lemma ParseAddr_no_slash:
  assumes "ParseAddr s = Some a" and "zone_of a = []"
  shows "CHR ''/'' \<notin> set s"
proof
  assume slash: "CHR ''/'' \<in> set s"
  have h: "hex_val CHR ''/'' = None" "\<not> is_digit CHR ''/''" by (simp_all add: hex_val_def is_digit_def char_in_def)
  show False
  proof (cases "\<exists>fs. parse_v4_fields s = Some fs")
    case True
    then show False using parse_v4_fields_chars [OF _ slash] h by auto
  next
    case False
    then have v6: "parse_v6 s = Some a" using assms(1) by (auto simp: ParseAddr_def split: list.splits if_splits)
    have np: "cut_first CHR ''%'' s = None"
      using v6 assms(2) by (auto simp: parse_v6_def Let_def split: option.splits if_splits prod.splits)
    define lead where "lead = (length s \<ge> 2 \<and> take 2 s = ''::'')"
    define s1 where "s1 = (if lead then drop 2 s else s)"
    have in1: "CHR ''/'' \<in> set s1"
    proof (cases lead)
      case True
      then obtain t where "s = ''::'' @ t" unfolding lead_def by (metis append_take_drop_id)
      then show ?thesis using slash True by (auto simp: s1_def)
    qed (use slash in \<open>simp add: s1_def\<close>)
    obtain bs ell where "v6_groups [] (if lead then Some 0 else None) s1 = Some (bs, ell, [])"
      using v6 np in1 by (auto simp: parse_v6_def Let_def lead_def [symmetric] s1_def [symmetric] split: option.splits if_splits prod.splits)
    then show False using v6_groups_chars [OF _ in1] h by auto
  qed
qed

lemma cut_last_split: "cut_last c s = Some (a, b) \<Longrightarrow> s = a @ c # b"
proof -
  assume "cut_last c s = Some (a, b)"
  then have "c \<in> set s" and ab: "b = rev (takeWhile (\<lambda>x. x \<noteq> c) (rev s))" "a = rev (tl (dropWhile (\<lambda>x. x \<noteq> c) (rev s)))"
    by (auto simp: cut_last_def cut_first_def split: if_splits)
  then have "dropWhile (\<lambda>x. x \<noteq> c) (rev s) \<noteq> []" by (auto simp: dropWhile_eq_Nil_conv)
  then have "dropWhile (\<lambda>x. x \<noteq> c) (rev s) = c # rev a" using hd_dropWhile [of "\<lambda>x. x \<noteq> c" "rev s"] ab(2) by (cases "dropWhile (\<lambda>x. x \<noteq> c) (rev s)") auto
  then have "rev s = rev b @ c # rev a" using takeWhile_dropWhile_id [of "\<lambda>x. x \<noteq> c" "rev s"] ab(1) by simp
  then show "s = a @ c # b" by (simp add: rev_eq_append_conv)
qed

lemma cut_first_split: "c \<notin> set a \<Longrightarrow> cut_first c (a @ c # b) = Some (a, b)"
  by (induction a) (auto simp: cut_first_def)

lemma ParsePrefix_ParseCIDR:
  assumes "ParsePrefix s = Some p"
  shows "ParseCIDR s \<noteq> None"
proof -
  obtain ip bits a n where cut: "cut_last CHR ''/'' s = Some (ip, bits)" and a: "ParseAddr ip = Some a" "zone_of a = []"
    and bits: "\<not> (length bits > 1 \<and> \<not> char_in CHR ''1'' CHR ''9'' (hd bits))" "Atoi bits = Some n" "0 \<le> n" "n \<le> int (bit_len a)"
    using assms by (auto simp: ParsePrefix_def not_less split: option.splits if_splits)
  have s: "cut_first CHR ''/'' s = Some (ip, bits)"
    using cut_first_split [OF ParseAddr_no_slash [OF a]] cut_last_split [OF cut] by simp
  have unsigned: "hd bits \<noteq> CHR ''-'' \<and> hd bits \<noteq> CHR ''+''"
  proof (cases "length bits > 1")
    case True
    then show ?thesis using bits(1) by (auto simp: char_in_def)
  next
    case False
    then show ?thesis using bits(2) by (cases bits) (auto simp: Atoi_def Let_def split: if_splits)
  qed
  then have "bits \<noteq> []" "list_all is_digit bits" "n = int (digits_value bits)"
    using bits(2) by (auto simp: Atoi_def Let_def split: if_splits)
  then show ?thesis using s a bits(4) by (simp add: ParseCIDR_def Let_def)
qed

section \<open>Accepted queries\<close>

lemma parse_filters_keys:
  "parse_filters src fs ts = Inr (fs', ts') \<Longrightarrow> gok fs \<Longrightarrow> set (gkeys fs) \<subseteq> set (sourceFilters src) \<Longrightarrow>
   gok fs' \<and> set (gkeys fs') \<subseteq> set (sourceFilters src)"
proof (induction src fs ts rule: parse_filters.induct)
  case (2 src fs t ts)
  show ?case
  proof (cases "tk_value t = ''|''")
    case True
    then show ?thesis using "2.prems" by simp
  next
    case False
    with "2.prems"(1) obtain k v where c: "cut_first CHR ''='' (tk_value t) = Some (k, v)" "\<not> (k = [] \<or> v = [])"
        "ToLower k \<in> set (sourceFilters src)" "gget fs (ToLower k) = None"
        "parse_filters src (gput (ToLower k) (v, tk_pos t) fs) ts = Inr (fs', ts')"
      by (auto simp: Let_def simp del: not_None_eq not_Some_eq split: if_splits option.splits)
    show ?thesis
      using "2.IH" [OF False c(1) refl c(2) refl] c(3-5) "2.prems" by (simp add: set_gkeys_gput del: set_map)
  qed
qed simp

lemma check_filters_spec:
  "check_filters lib now fs = Inr m \<Longrightarrow>
   gkeys m = gkeys fs \<and> (\<forall>k v. gget m k = Some v \<longrightarrow> (\<exists>u pos. gget fs k = Some (u, pos) \<and> check_filter lib now k u = Inr v))"
proof (induction lib now fs arbitrary: m rule: check_filters.induct)
  case (2 lib now key v pos fs)
  then obtain v' m' where "check_filter lib now key v = Inr v'" "check_filters lib now fs = Inr m'" "m = (key, v') # m'"
    by (cases "check_filters lib now fs") (auto split: sum.splits)
  then show ?case using "2.IH" by auto
qed simp

definition stages_ok :: "Source \<Rightarrow> stages \<Rightarrow> bool" where
  "stages_ok src g \<longleftrightarrow>
     (case sg_sort g of None \<Rightarrow> True | Some (f, d) \<Rightarrow> f \<in> set (sortFields src) \<and> (d = ''asc'' \<or> d = ''desc'')) \<and>
     (case sg_limit g of None \<Rightarrow> True | Some n \<Rightarrow> 1 \<le> n \<and> n \<le> MaxLimit) \<and>
     (case sg_offset g of None \<Rightarrow> True | Some n \<Rightarrow> 0 \<le> n)"

lemma parse_stages_ok: "parse_stages src g ts = Inr g' \<Longrightarrow> stages_ok src g \<Longrightarrow> stages_ok src g'"
proof (induction src g ts rule: parse_stages.induct)
  case (3 src g p t ts)
  consider (sort) "tk_value t = ''sort''" | (num) "tk_value t \<noteq> ''sort''" "tk_value t = ''limit'' \<or> tk_value t = ''offset''"
    | (other) "tk_value t \<noteq> ''sort''" "tk_value t \<noteq> ''limit''" "tk_value t \<noteq> ''offset''" by blast
  then show ?case
  proof cases
    case sort
    then show ?thesis using "3.prems" "3.IH"(1) by (auto simp: stages_ok_def split: if_splits list.splits)
  next
    case num
    then obtain n rest v where n: "ts = n # rest" "Atoi (tk_value n) = Some v" "0 \<le> v"
      using "3.prems"(1) by (auto split: if_splits list.splits option.splits)
    show ?thesis
    proof (cases "tk_value t = ''limit''")
      case True
      then show ?thesis using "3.prems" "3.IH"(2) n num by (auto simp: stages_ok_def split: if_splits)
    next
      case False
      then show ?thesis using "3.prems" "3.IH"(3) n num by (auto simp: stages_ok_def split: if_splits)
    qed
  next
    case other
    then show ?thesis using "3.prems" by (auto split: if_splits)
  qed
qed (auto split: if_splits)

lemma ParseTime_any_clock: "ParseTime lib raw now = None \<longleftrightarrow> ParseTime lib raw now' = None"
  by (auto simp: ParseTime_def Let_def split: option.splits)

definition dsl_ok :: "DslQuery \<Rightarrow> bool" where
  "dsl_ok q \<longleftrightarrow>
     gok (dq_Filters q) \<and> set (gkeys (dq_Filters q)) \<subseteq> set (sourceFilters (dq_Source q)) \<and>
     dq_SortBy q \<in> set (sortFields (dq_Source q)) \<and> (dq_SortOrder q = ''asc'' \<or> dq_SortOrder q = ''desc'') \<and>
     1 \<le> dq_Limit q \<and> dq_Limit q \<le> MaxLimit \<and> 0 \<le> dq_Offset q"

definition filters_ok :: "dsl_lib \<Rightarrow> DslQuery \<Rightarrow> bool" where
  "filters_ok lib q \<longleftrightarrow>
     filter_text q ''protocol'' \<in> {[], ''tcp'', ''udp''} \<and>
     (gget (dq_Filters q) ''asn'' = None \<or> Atoi (filter_text q ''asn'') \<noteq> None) \<and>
     (gget (dq_Filters q) ''cidr'' = None \<or> ParseCIDR (filter_text q ''cidr'') \<noteq> None) \<and>
     (\<forall>now key. key = ''since'' \<or> key = ''until'' \<longrightarrow> gget (dq_Filters q) key = None \<or> ParseTime lib (filter_text q key) now \<noteq> None)"

lemma Parse_cases:
  assumes "Parse lib now input = Inr q"
  obtains tokens src ts fs ts' g filters where
    "parse_source tokens = Inr (src, ts)" "parse_filters src [] ts = Inr (fs, ts')"
    "parse_stages src \<lparr>sg_sort = None, sg_limit = None, sg_offset = None\<rparr> ts' = Inr g"
    "check_filters lib now fs = Inr filters"
    "q = \<lparr>dq_Source = src, dq_Filters = filters,
          dq_SortBy = (case sg_sort g of Some (f, _) \<Rightarrow> f | None \<Rightarrow> if is_top src then ''bytes_total'' else ''recorded_at''),
          dq_SortOrder = (case sg_sort g of Some (_, d) \<Rightarrow> d | None \<Rightarrow> ''desc''),
          dq_Limit = (case sg_limit g of Some n \<Rightarrow> n | None \<Rightarrow> DefaultLimit),
          dq_Offset = (case sg_offset g of Some n \<Rightarrow> n | None \<Rightarrow> 0)\<rparr>"
  using assms by (auto simp: Parse_def split: if_splits sum.splits prod.splits)

lemma Parse_dsl_ok:
  assumes "Parse lib now input = Inr q"
  shows "dsl_ok q \<and> filters_ok lib q"
proof -
  obtain tokens src ts fs ts' g filters where h:
    "parse_filters src [] ts = Inr (fs, ts')"
    "parse_stages src \<lparr>sg_sort = None, sg_limit = None, sg_offset = None\<rparr> ts' = Inr g"
    "check_filters lib now fs = Inr filters"
    "q = \<lparr>dq_Source = src, dq_Filters = filters,
          dq_SortBy = (case sg_sort g of Some (f, _) \<Rightarrow> f | None \<Rightarrow> if is_top src then ''bytes_total'' else ''recorded_at''),
          dq_SortOrder = (case sg_sort g of Some (_, d) \<Rightarrow> d | None \<Rightarrow> ''desc''),
          dq_Limit = (case sg_limit g of Some n \<Rightarrow> n | None \<Rightarrow> DefaultLimit),
          dq_Offset = (case sg_offset g of Some n \<Rightarrow> n | None \<Rightarrow> 0)\<rparr>"
    using assms by (rule Parse_cases)
  have g: "stages_ok src g" using parse_stages_ok [OF h(2)] by (simp add: stages_ok_def)
  have keys: "gok filters \<and> set (gkeys filters) \<subseteq> set (sourceFilters src)"
    using parse_filters_keys [OF h(1)] check_filters_spec [OF h(3)] by simp
  have val: "\<exists>u. check_filter lib now k u = Inr v" if "gget filters k = Some v" for k v
    using check_filters_spec [OF h(3)] that by blast
  have "dsl_ok q"
    using keys g unfolding dsl_ok_def h(4)
    by (auto simp: stages_ok_def DefaultLimit_def MaxLimit_def sortFields_def is_top_def split: option.splits Source.splits)
  moreover have "filters_ok lib q"
    unfolding filters_ok_def h(4) filter_text_def gget_default_def DslQuery.select_convs
  proof (intro conjI allI impI)
    show "(case gget filters ''protocol'' of None \<Rightarrow> [] | Some v \<Rightarrow> v) \<in> {[], ''tcp'', ''udp''}"
      using val [of "''protocol''"] by (auto simp: check_filter_def split: option.splits if_splits)
    show "gget filters ''asn'' = None \<or> Atoi (case gget filters ''asn'' of None \<Rightarrow> [] | Some v \<Rightarrow> v) \<noteq> None"
      using val [of "''asn''"] by (auto simp: check_filter_def split: option.splits if_splits; blast)
    show "gget filters ''cidr'' = None \<or> ParseCIDR (case gget filters ''cidr'' of None \<Rightarrow> [] | Some v \<Rightarrow> v) \<noteq> None"
      using val [of "''cidr''"] ParsePrefix_ParseCIDR by (auto simp: check_filter_def split: option.splits if_splits)
    fix t key assume "key = ''since'' \<or> key = ''until''"
    then show "gget filters key = None \<or> ParseTime lib (case gget filters key of None \<Rightarrow> [] | Some v \<Rightarrow> v) t \<noteq> None"
      using val [of key] ParseTime_any_clock [of lib _ now t] by (auto simp: check_filter_def split: option.splits if_splits)
  qed
  ultimately show ?thesis ..
qed


section \<open>Answers\<close>

lemma ToLower_plain: "ToLower (TrimSpace s) = s" if "s \<in> {[], ''tcp'', ''udp'', ''asc'', ''desc'', ''flow'', ''rejection'', ''all''}"
  using that by (auto simp: TrimSpace_def is_space_def ToLower_def lower_char_def char_in_def)

lemma audit_event_params_ok:
  assumes "filters_ok lib q"
  obtains p where "audit_event_params lib now q = Inr p" "eq_Protocol p \<in> {[], ''tcp'', ''udp''}"
    "eq_CIDR p = filter_text q ''cidr''" "eq_SortBy p = dq_SortBy q" "eq_SortOrder p = dq_SortOrder q" "eq_Limit p = dq_Limit q"
    "eq_Offset p = dq_Offset q" "eq_Port p = None"
    "eq_EntryType p = (if dq_Source q = SourceFlows then EntryTypeFlow else if dq_Source q = SourceRejections then EntryTypeRejection else EntryTypeAll)"
    "eq_StartTime p = None \<longleftrightarrow> gget (dq_Filters q) ''since'' = None" "eq_EndTime p = None \<longleftrightarrow> gget (dq_Filters q) ''until'' = None"
proof -
  have time: "\<exists>t. Query_Time lib key now q = Inr t \<and> (t = None \<longleftrightarrow> gget (dq_Filters q) key = None)" if "key = ''since'' \<or> key = ''until''" for key
    using assms that unfolding filters_ok_def Query_Time_def filter_text_def gget_default_def
    by (cases "gget (dq_Filters q) key") (auto split: option.splits)
  obtain a where a: "Query_Time lib ''since'' now q = Inr a" "a = None \<longleftrightarrow> gget (dq_Filters q) ''since'' = None"
    using time [of "''since''"] by auto
  obtain b where b: "Query_Time lib ''until'' now q = Inr b" "b = None \<longleftrightarrow> gget (dq_Filters q) ''until'' = None"
    using time [of "''until''"] by auto
  have "filter_text q ''asn'' = [] \<or> Atoi (filter_text q ''asn'') \<noteq> None"
    using assms by (auto simp: filters_ok_def filter_text_def gget_default_def)
  then have "\<exists>n. auditQueryASN q = Inr n" by (auto simp: auditQueryASN_def)
  then obtain n where n: "auditQueryASN q = Inr n" ..
  have proto: "filter_text q ''protocol'' \<in> {[], ''tcp'', ''udp''}" using assms by (simp add: filters_ok_def)
  have times: "auditQueryTimes lib now q = Inr (a, b)" using a(1) b(1) by (simp add: auditQueryTimes_def)
  show thesis
    by (rule that [OF audit_event_params_def [of lib now q, unfolded times n sum.case prod.case]]) (simp_all add: a(2) b(2) proto del: insert_iff)
qed

lemma with_cidr_ok: "raw = [] \<or> ParseCIDR raw \<noteq> None \<Longrightarrow> \<exists>cs. with_cidr raw family blob = Inr cs"
  by (auto simp: with_cidr_def cidrRange_def split: option.splits)

lemma sort_fields_event_keys:
  "\<not> is_top src \<Longrightarrow> f \<in> set (sortFields src) \<Longrightarrow>
   f \<in> set (eventSortKeys (if src = SourceFlows then EntryTypeFlow else if src = SourceRejections then EntryTypeRejection else EntryTypeAll)) \<and> f \<noteq> []"
  by (cases src) (auto simp: is_top_def sortFields_def eventSortKeys_def EntryTypeFlow_def EntryTypeRejection_def EntryTypeAll_def)

lemma QueryLogEvents_outcome:
  assumes "normalizeLogEventQuery p0 = Inr p" and "eq_CIDR p = [] \<or> ParseCIDR (eq_CIDR p) \<noteq> None"
  shows "case QueryLogEvents db t flowIDs rejectionIDs p0 s of
      Inr (n, records) \<Rightarrow> length records \<le> nat (eq_Limit p)
    | Inl e \<Rightarrow> (e = QueryFailed \<and> \<not> db) \<or> (e = CIDRNeedsTime \<and> eq_CIDR p \<noteq> [] \<and> eq_StartTime p = None \<and> eq_EndTime p = None)"
proof (cases "eq_CIDR p \<noteq> [] \<and> eq_StartTime p = None \<and> eq_EndTime p = None")
  case True
  then have "event_flow_where t s p = Inl CIDRNeedsTime" by (simp add: event_flow_where_def event_cidr_def)
  then show ?thesis using assms(1) True by (simp add: QueryLogEvents_def)
next
  case False
  then have "\<exists>fcs. event_flow_where t s p = Inr fcs" "\<exists>rcs. event_rejection_where p = Inr rcs"
    using with_cidr_ok [OF assms(2), of "fl_Family :: FlowRow \<Rightarrow> int" fl_ClientBytes]
      with_cidr_ok [OF assms(2), of "re_Family :: RejectionEventRow \<Rightarrow> int" re_ClientBytes]
    by (auto simp: event_flow_where_def event_rejection_where_def event_cidr_def)
  then obtain fcs rcs where w: "event_flow_where t s p = Inr fcs" "event_rejection_where p = Inr rcs" by blast
  show ?thesis
  proof (cases db)
    case True
    have tags: "\<exists>rs'. attachLogEventTags True t s rs = Inr rs' \<and> length rs' = length rs" for rs
      by (simp add: attachLogEventTags_def QueryEffectiveTags_def Let_def)
    show ?thesis
      using assms(1) w True tags [of "map scanLogEvent (page (eq_Limit p) (eq_Offset p) (order_by (eq_SortOrder p) (eventSortColumn (eq_SortBy p))
          ((if eq_EntryType p = EntryTypeAll \<or> eq_EntryType p = EntryTypeFlow then map (map_prod id FlowEvent) (selected flowIDs (au_flows s) fcs) else []) @
           (if eq_EntryType p = EntryTypeAll \<or> eq_EntryType p = EntryTypeRejection
            then map (map_prod id RejectionEvent) (selected rejectionIDs (au_rejections s) rcs) else []))))"]
      by (auto simp: QueryLogEvents_def Let_def page_def)
  next
    case False
    then show ?thesis using assms(1) w by (simp add: QueryLogEvents_def)
  qed
qed

text \<open>A query on Flows, rejections or events that the parser accepts.\<close>

lemma accepted_query_answered:
  assumes "Parse lib now0 input = Inr q" and "\<not> is_top (dq_Source q)"
  shows "\<exists>p. audit_event_params lib now q = Inr p \<and> 1 \<le> dq_Limit q \<and> dq_Limit q \<le> MaxLimit \<and>
     (\<forall>db t flowIDs rejectionIDs s.
        case QueryLogEvents db t flowIDs rejectionIDs p s of
          Inr (n, records) \<Rightarrow> int (length records) \<le> dq_Limit q
        | Inl e \<Rightarrow> (e = QueryFailed \<and> \<not> db) \<or>
            (e = CIDRNeedsTime \<and> gget (dq_Filters q) ''cidr'' \<noteq> None \<and>
             gget (dq_Filters q) ''since'' = None \<and> gget (dq_Filters q) ''until'' = None) \<or>
            (e = TimeRange \<and> bad_range (eq_StartTime p) (eq_EndTime p)))"
proof -
  have ok: "dsl_ok q" "filters_ok lib q" using Parse_dsl_ok [OF assms(1)] by auto
  obtain p where p: "audit_event_params lib now q = Inr p" "eq_Protocol p \<in> {[], ''tcp'', ''udp''}"
    "eq_CIDR p = filter_text q ''cidr''" "eq_SortBy p = dq_SortBy q" "eq_SortOrder p = dq_SortOrder q" "eq_Limit p = dq_Limit q"
    "eq_Offset p = dq_Offset q" "eq_Port p = None"
    "eq_EntryType p = (if dq_Source q = SourceFlows then EntryTypeFlow else if dq_Source q = SourceRejections then EntryTypeRejection else EntryTypeAll)"
    "eq_StartTime p = None \<longleftrightarrow> gget (dq_Filters q) ''since'' = None" "eq_EndTime p = None \<longleftrightarrow> gget (dq_Filters q) ''until'' = None"
    using audit_event_params_ok [OF ok(2)] by metis
  have cidr: "eq_CIDR p = [] \<or> ParseCIDR (eq_CIDR p) \<noteq> None" and given: "eq_CIDR p \<noteq> [] \<Longrightarrow> gget (dq_Filters q) ''cidr'' \<noteq> None"
    using ok(2) p(3) by (auto simp: filters_ok_def filter_text_def gget_default_def split: option.splits)
  have lim: "1 \<le> dq_Limit q" "dq_Limit q \<le> MaxLimit" using ok(1) by (auto simp: dsl_ok_def)
  have entry: "ToLower (TrimSpace (eq_EntryType p)) = eq_EntryType p" "eq_EntryType p \<in> {EntryTypeAll, EntryTypeFlow, EntryTypeRejection}"
    "eq_EntryType p \<noteq> []"
    using ToLower_plain [of "eq_EntryType p"] p(9) by (auto simp: EntryTypeAll_def EntryTypeFlow_def EntryTypeRejection_def)
  have order: "ToLower (TrimSpace (eq_SortOrder p)) = eq_SortOrder p" "eq_SortOrder p \<noteq> []" "\<not> bad_order (eq_SortOrder p)"
    using ToLower_plain [of "eq_SortOrder p"] p(5) ok(1) by (auto simp: dsl_ok_def bad_order_def)
  have proto: "ToLower (TrimSpace (eq_Protocol p)) = eq_Protocol p" "\<not> bad_protocol (eq_Protocol p)"
    using ToLower_plain [of "eq_Protocol p"] p(2) by (auto simp: bad_protocol_def)
  have sort: "eq_SortBy p \<in> set (eventSortKeys (eq_EntryType p))" "eq_SortBy p \<noteq> []"
    using sort_fields_event_keys [OF assms(2)] ok(1) p(4,9) by (auto simp: dsl_ok_def)
  have offset: "\<not> eq_Offset p < 0" using ok(1) p(7) by (simp add: dsl_ok_def)
  have outcome: "case QueryLogEvents db t flowIDs rejectionIDs p s of
          Inr (n, records) \<Rightarrow> int (length records) \<le> dq_Limit q
        | Inl e \<Rightarrow> (e = QueryFailed \<and> \<not> db) \<or>
            (e = CIDRNeedsTime \<and> gget (dq_Filters q) ''cidr'' \<noteq> None \<and>
             gget (dq_Filters q) ''since'' = None \<and> gget (dq_Filters q) ''until'' = None) \<or>
            (e = TimeRange \<and> bad_range (eq_StartTime p) (eq_EndTime p))" for db t flowIDs rejectionIDs s
  proof (cases "bad_range (eq_StartTime p) (eq_EndTime p)")
    case True
    then have "normalizeLogEventQuery p = Inl TimeRange"
      using entry order proto sort offset by (auto simp: normalizeLogEventQuery_def Let_def default_text_def)
    then show ?thesis using True by (simp add: QueryLogEvents_def)
  next
    case False
    define p' where "p' = p\<lparr>eq_EntryType := eq_EntryType p, eq_Limit := clamp_limit (eq_Limit p), eq_Protocol := eq_Protocol p,
      eq_Country := ToUpper (TrimSpace (eq_Country p)), eq_Tag := TrimSpace (eq_Tag p), eq_SortOrder := eq_SortOrder p, eq_SortBy := eq_SortBy p\<rparr>"
    have "normalizeLogEventQuery p = Inr p'"
      unfolding p'_def using False entry order proto sort offset p(8)
      by (auto simp: normalizeLogEventQuery_def Let_def default_text_def bad_port_def)
    moreover have "eq_Limit p' = dq_Limit q" "eq_CIDR p' = eq_CIDR p" "eq_StartTime p' = eq_StartTime p" "eq_EndTime p' = eq_EndTime p"
      using lim p(6) clamp_limit_bounds(3) [of "dq_Limit q"] by (simp_all add: p'_def MaxLimit_def MaxQueryLimit_def)
    ultimately show ?thesis
      using QueryLogEvents_outcome [of p p' db t flowIDs rejectionIDs s] cidr given lim(1) p(10,11)
      by (fastforce split: sum.splits prod.splits)
  qed
  show ?thesis using p(1) lim outcome by blast
qed

definition sample_dsl_lib :: dsl_lib where
  "sample_dsl_lib = \<lparr>lb_Unquote = (\<lambda>s. if length s < 2 then None else Some (butlast (tl s))), lb_ParseDuration = (\<lambda>s. None),
     lb_ParseRFC3339 = (\<lambda>s. None)\<rparr>"

definition sample_dsl_query :: DslQuery where
  "sample_dsl_query = \<lparr>dq_Source = SourceFlows, dq_Filters = [(''protocol'', ''tcp''), (''cidr'', ''10.1.0.0/16''), (''since'', ''-2d'')],
     dq_SortBy = ''bytes_up'', dq_SortOrder = ''asc'', dq_Limit = 5, dq_Offset = 0\<rparr>"

lemma sample_dsl_query_parsed:
  "Parse sample_dsl_lib 63900000000000000000 ''flows Protocol=TCP cidr=10.1.0.0/16 since=-2d|sort bytes_up ASC | limit 5'' = Inr sample_dsl_query"
  by code_simp

text \<open>
  A count of days is multiplied in 64 bits: two hundred thousand days before a moment wrap
  around to a moment almost 37 years after it.
\<close>

lemma day_count_wraps:
  "ParseTime lib ''-200000d'' now = Some (unix_seconds (now + 1166744073709551616)) \<and> 36 * 365 * 24 * hour < (1166744073709551616 :: int)"
proof -
  have "Atoi ''200000'' = Some 200000" by (simp add: Atoi_def digits_value_def is_digit_def char_in_def digit_val_def)
  moreover have "wrap64 (- 200000 * 24 * hour) = 1166744073709551616"
    by (simp add: wrap64_def)
  ultimately show ?thesis by (simp add: ParseTime_def Let_def time_add_def)
qed

lemma sort_fields_top_keys:
  assumes "is_top src" and "f \<in> set (sortFields src)"
  shows "f \<in> set (topSortKeys (if src = SourceTopClients then ''client_ip'' else if src = SourceTopASNs then ''asn'' else ''tag''))"
    and "ToLower (TrimSpace f) = f" and "f \<noteq> []"
proof -
  show "f \<in> set (topSortKeys (if src = SourceTopClients then ''client_ip'' else if src = SourceTopASNs then ''asn'' else ''tag''))" "f \<noteq> []"
    using assms by (auto simp: is_top_def sortFields_def topSortKeys_def)
  have "f \<in> {''bytes_total'', ''bytes_up'', ''bytes_down'', ''flow_count'', ''client_ip'', ''asn'', ''tag''}"
    using assms by (auto simp: is_top_def sortFields_def)
  then show "ToLower (TrimSpace f) = f"
    by (auto simp: TrimSpace_def is_space_def ToLower_def lower_char_def char_in_def)
qed

lemma top_params_valid:
  assumes "dsl_ok q" and "filters_ok lib q"
  shows "validateTopQuery start stop (filter_text q ''protocol'') (dq_Limit q) (dq_Offset q) =
     (if bad_range start stop then Some TopTimeRange else None)" and "top_limit (dq_Limit q) = dq_Limit q"
proof -
  have "ToLower (TrimSpace (filter_text q ''protocol'')) = filter_text q ''protocol''" "\<not> bad_protocol (filter_text q ''protocol'')"
    using assms(2) ToLower_plain [of "filter_text q ''protocol''"] by (auto simp: filters_ok_def bad_protocol_def)
  then show "validateTopQuery start stop (filter_text q ''protocol'') (dq_Limit q) (dq_Offset q) =
     (if bad_range start stop then Some TopTimeRange else None)" "top_limit (dq_Limit q) = dq_Limit q"
    using assms(1) by (simp_all add: validateTopQuery_def dsl_ok_def MaxLimit_def MaxQueryLimit_def top_limit_def)
qed

lemma top_sort_valid:
  assumes "dsl_ok q" and "is_top (dq_Source q)"
  shows "topSort (dq_SortBy q) (dq_SortOrder q)
     (if dq_Source q = SourceTopClients then ''client_ip'' else if dq_Source q = SourceTopASNs then ''asn'' else ''tag'') = Inr (dq_SortBy q, dq_SortOrder q)"
  using sort_fields_top_keys [OF assms(2), of "dq_SortBy q"] assms(1) ToLower_plain [of "dq_SortOrder q"]
  by (auto simp: topSort_def Let_def default_text_def dsl_ok_def bad_order_def)

text \<open>What the handler of the query language answers, by the number of entries.\<close>

fun result_size :: "audit_result \<Rightarrow> int" where
  "result_size (TopClientsResult xs) = int (length xs)"
| "result_size (TopTagsResult xs) = int (length xs)"
| "result_size (TopASNsResult xs) = int (length xs)"
| "result_size (EventsResult r) = int (length (snd r))"

text \<open>
  What an aggregation needs of the stored byte counts: for every key the sums over the rows
  of that key are not negative and fit SQLite's integers.
\<close>

definition sums_ok :: "('r \<Rightarrow> 'k) \<Rightarrow> ('r \<Rightarrow> int) \<Rightarrow> ('r \<Rightarrow> int) \<Rightarrow> 'r list \<Rightarrow> bool" where
  "sums_ok key up down rows \<longleftrightarrow>
     (\<forall>r \<in> set rows. \<forall>count \<in> {up, down, \<lambda>x. up x + down x}.
        sum_list (map count (filter (\<lambda>x. key x = key r) rows)) \<in> {0..max_int64})"

definition top_sums_ok :: "time \<Rightarrow> int option \<Rightarrow> int option \<Rightarrow> DslQuery \<Rightarrow> AuditStore \<Rightarrow> bool" where
  "top_sums_ok t start stop q s =
     (if dq_Source q = SourceTopClients then sums_ok fl_ClientIP fl_BytesUp fl_BytesDown (top_selected t s (audit_talker_params start stop q))
      else if dq_Source q = SourceTopASNs then sums_ok fl_ASN fl_BytesUp fl_BytesDown (top_selected t s (audit_talker_params start stop q))
      else sums_ok td_Tag td_BytesUp td_BytesDown (dedup (tagged t (audit_top_params start stop q) s)))"

lemma sums_ok_groups:
  assumes "sums_ok key up down rows"
  shows "list_all (\<lambda>a. sums_fit a \<and> scannable a) (map (aggregate_of up down) (group_by key rows))"
  using assms
  by (auto simp: list_all_iff group_by_def aggregate_of_def sums_fit_def scannable_def sums_ok_def in_int64_def min_int64_def max_int64_def
      intro: order_trans [of _ 0])

lemma top_rows_outcome:
  assumes "0 \<le> limit" and "\<And>xs. result_size (K xs) = int (length xs)"
    and "\<not> sums_ok key up down rows \<Longrightarrow> P (TopFault TopFailed)"
  shows "case map_sum TopFault K (map_sum id (map view)
       (top_rows True tie col order limit offset (map (aggregate_of up down) (group_by key rows)))) of
     Inl f \<Rightarrow> P f | Inr result \<Rightarrow> result_size result \<le> limit"
proof (cases "sums_ok key up down rows")
  case True
  then have "list_all sums_fit (map (aggregate_of up down) (group_by key rows))"
    "list_all scannable (page limit offset (stable_sort (top_before tie col order) (map (aggregate_of up down) (group_by key rows))))"
    using sums_ok_groups [OF True] page_facts(1) [of limit offset "stable_sort (top_before tie col order) (map (aggregate_of up down) (group_by key rows))"]
    by (auto simp: list_all_iff)
  then show ?thesis using page_facts(4) [OF assms(1)] by (simp add: top_rows_def Let_def assms(2))
next
  case False
  then show ?thesis using page_facts(4) [OF assms(1)] assms(3) by (auto simp: top_rows_def Let_def assms(2))
qed

lemma accepted_top_answered:
  assumes "Parse lib now0 input = Inr q" and "is_top (dq_Source q)" and "TrimSpace input \<noteq> []"
  shows "case rpcQueryAudit lib True (Some s) (Some input) now0 now t flowIDs rejectionIDs of
      Inr result \<Rightarrow> result_size result \<le> dq_Limit q
    | Inl f \<Rightarrow> \<exists>start stop. auditQueryTimes lib now q = Inr (start, stop) \<and>
        (f = TopFault TopFailed \<and> \<not> top_sums_ok t start stop q s \<or> f = TopFault TopTimeRange \<and> bad_range start stop)"
proof -
  have ok: "dsl_ok q" "filters_ok lib q" using Parse_dsl_ok [OF assms(1)] by auto
  obtain p where "audit_event_params lib now q = Inr p" using audit_event_params_ok [OF ok(2)] by metis
  then obtain a b where times: "auditQueryTimes lib now q = Inr (a, b)"
    by (cases "auditQueryTimes lib now q") (auto simp: audit_event_params_def)
  have lim: "0 \<le> dq_Limit q" using ok(1) by (simp add: dsl_ok_def)
  note valid = top_params_valid [OF ok] and sort = top_sort_valid [OF ok(1) assms(2)] and rows = top_rows_outcome [OF lim]
  have rpc: "rpcQueryAudit lib True (Some s) (Some input) now0 now t flowIDs rejectionIDs =
      (if dq_Source q = SourceTopClients then map_sum TopFault TopClientsResult (GetTopTalkers True t (audit_talker_params a b q) s)
       else if dq_Source q = SourceTopTags then map_sum TopFault TopTagsResult (GetTopTags True t (audit_top_params a b q) s)
       else map_sum TopFault TopASNsResult (GetTopASNs True t (audit_talker_params a b q) s))"
    using assms times by (simp add: rpcQueryAudit_def decodeAuditQuery_def)
  consider "dq_Source q = SourceTopClients" | "dq_Source q = SourceTopASNs" | "dq_Source q = SourceTopTags"
    using assms(2) by (auto simp: is_top_def)
  then show ?thesis
  proof cases
    case 1
    then show ?thesis
      unfolding rpc using times sort valid
      by (cases "bad_range a b") (auto simp: GetTopTalkers_def audit_talker_params_def audit_top_params_def TopTagParams.extend_def top_sums_ok_def intro!: rows)
  next
    case 2
    then show ?thesis
      unfolding rpc using times sort valid
      by (cases "bad_range a b") (auto simp: GetTopASNs_def Let_def audit_talker_params_def audit_top_params_def TopTagParams.extend_def top_sums_ok_def intro!: rows)
  next
    case 3
    then show ?thesis
      unfolding rpc using times sort valid
      by (cases "bad_range a b") (auto simp: GetTopTags_def audit_top_params_def top_sums_ok_def intro!: rows)
  qed
qed

text \<open>
  C8: with the database working, a query of the audit page fails only for a reason of its own:
  it is blank, the parser refuses it, it has a network but no time bound, its relative times no
  longer form a range when they are read again, or it is an aggregation and for some key the
  stored byte counts of the rows it selects add up to a number that is negative or no 64-bit
  integer. In particular no sort field, filter, limit or offset that the parser accepts is
  refused by the store. Any other query, aggregations whose sums fit included, is answered,
  with at most the number of entries it asked for.
\<close>

theorem audit_query_outcome:
  "case rpcQueryAudit lib True (Some s) (Some input) now0 now t flowIDs rejectionIDs of
     Inr result \<Rightarrow> (\<exists>q. Parse lib now0 input = Inr q \<and> result_size result \<le> dq_Limit q \<and> dq_Limit q \<le> MaxLimit)
   | Inl f \<Rightarrow>
       (f = InvalidParams \<and> TrimSpace input = []) \<or>
       (\<exists>e. f = SyntaxFault e \<and> Parse lib now0 input = Inl e) \<or>
       (\<exists>q. Parse lib now0 input = Inr q \<and>
          ((f = TopFault TopFailed \<and> is_top (dq_Source q) \<and>
              (\<exists>start stop. auditQueryTimes lib now q = Inr (start, stop) \<and> \<not> top_sums_ok t start stop q s)) \<or>
           (f = EventFault CIDRNeedsTime \<and> gget (dq_Filters q) ''cidr'' \<noteq> None \<and>
              gget (dq_Filters q) ''since'' = None \<and> gget (dq_Filters q) ''until'' = None) \<or>
           ((f = TopFault TopTimeRange \<or> f = EventFault TimeRange) \<and>
              (\<exists>start stop. auditQueryTimes lib now q = Inr (start, stop) \<and> bad_range start stop))))"
proof (cases "TrimSpace input = []")
  case True
  then show ?thesis by (simp add: rpcQueryAudit_def decodeAuditQuery_def)
next
  case input: False
  show ?thesis
  proof (cases "Parse lib now0 input")
    case (Inl e)
    then show ?thesis using input by (simp add: rpcQueryAudit_def decodeAuditQuery_def)
  next
    case q: (Inr q)
    show ?thesis
    proof (cases "is_top (dq_Source q)")
      case True
      have "dq_Limit q \<le> MaxLimit" using Parse_dsl_ok [OF q] by (simp add: dsl_ok_def)
      then show ?thesis
        using accepted_top_answered [OF q True input, where s = s and now = now and t = t and flowIDs = flowIDs and rejectionIDs = rejectionIDs] q True by (auto split: sum.splits)
    next
      case False
      obtain p where p: "audit_event_params lib now q = Inr p" "dq_Limit q \<le> MaxLimit" and r: "case QueryLogEvents True t flowIDs rejectionIDs p s of
          Inr (n, records) \<Rightarrow> int (length records) \<le> dq_Limit q
        | Inl e \<Rightarrow> (e = QueryFailed \<and> \<not> True) \<or>
            (e = CIDRNeedsTime \<and> gget (dq_Filters q) ''cidr'' \<noteq> None \<and>
             gget (dq_Filters q) ''since'' = None \<and> gget (dq_Filters q) ''until'' = None) \<or>
            (e = TimeRange \<and> bad_range (eq_StartTime p) (eq_EndTime p))"
        using accepted_query_answered [OF q False, of now] by blast
      have t: "auditQueryTimes lib now q = Inr (eq_StartTime p, eq_EndTime p)"
        using p(1) by (auto simp: audit_event_params_def split: sum.splits)
      have rpc: "rpcQueryAudit lib True (Some s) (Some input) now0 now t flowIDs rejectionIDs =
          map_sum EventFault EventsResult (QueryLogEvents True t flowIDs rejectionIDs p s)"
        using input q False p(1) by (simp add: rpcQueryAudit_def decodeAuditQuery_def)
      show ?thesis
        unfolding rpc using r t q p(2) by (cases "QueryLogEvents True t flowIDs rejectionIDs p s") auto
    qed
  qed
qed

end
