(* ===== verification/Notify.thy ===== *)
theory Notify
  imports Prelude
begin

text \<open>
  Alerts about unusable upstreams: the policy that decides when to raise them
  (\<open>internal/notify/policy.go\<close>) and the client that delivers them to a webhook
  (\<open>internal/notify/client.go\<close>).

  \<open>time.AfterFunc\<close> is modelled with the state of the policy: a timer that is armed has its
  moment; when it expires, its callback starts and waits for the lock of the policy, and
  \<open>Stop\<close> no longer reaches it. So expiry and callback are two steps, between which other
  calls can come. Encoding and transport of the client (\<open>json.Marshal\<close>, \<open>url.Parse\<close>, the HTTP
  client, the format of times) are arguments; log events are left out.
\<close>

section \<open>Alerts\<close>

datatype Severity = SeverityInfo | SeverityWarn | SeverityCritical

type_synonym attributes = "(string, string) gomap"

record alert =
  al_At :: time
  al_Event :: string
  al_Severity :: Severity
  al_Attributes :: attributes

record PolicyConfig =
  pc_StartTime :: time
  pc_StartupGracePeriod :: duration
  pc_UnusableInterval :: duration
  pc_NotifyInterval :: duration

record armed_timer =
  tm_ID :: nat
  tm_Tag :: string
  tm_Due :: time

record unusableAlertState =
  us_reason :: string
  us_timer :: "nat option"

text \<open>
  \<open>np_timers\<close> are the armed timers, \<open>np_firing\<close> the tags of the callbacks that wait for the
  lock and \<open>np_alerts\<close> the calls the emitter has received, if there is one.
\<close>

record NotifyPolicy =
  np_emitter :: bool
  np_startupGracePeriod :: duration
  np_unusableInterval :: duration
  np_notifyInterval :: duration
  np_closed :: bool
  np_startTime :: time
  np_unusable :: "(string, unusableAlertState) gomap"
  np_timers :: "armed_timer list"
  np_nextTimer :: nat
  np_firing :: "(nat \<times> string) list"
  np_alerts :: "alert list"

definition defaultStartupGracePeriod :: duration where "defaultStartupGracePeriod = 5 * minute"
definition defaultUnusableInterval :: duration where "defaultUnusableInterval = 30 * second"
definition defaultNotifyInterval :: duration where "defaultNotifyInterval = 30 * minute"

definition positive_duration :: "duration \<Rightarrow> duration \<Rightarrow> duration" where
  "positive_duration d fallback = (if d \<le> 0 then fallback else d)"

definition NewPolicy :: "bool \<Rightarrow> time \<Rightarrow> PolicyConfig \<Rightarrow> NotifyPolicy" where
  "NewPolicy emitter now cfg =
     \<lparr>np_emitter = emitter,
      np_startupGracePeriod = positive_duration (pc_StartupGracePeriod cfg) defaultStartupGracePeriod,
      np_unusableInterval = positive_duration (pc_UnusableInterval cfg) defaultUnusableInterval,
      np_notifyInterval = positive_duration (pc_NotifyInterval cfg) defaultNotifyInterval,
      np_closed = False,
      np_startTime = (if is_zero_time (pc_StartTime cfg) then now else pc_StartTime cfg),
      np_unusable = [], np_timers = [], np_nextTimer = 0, np_firing = [], np_alerts = []\<rparr>"

section \<open>Timers\<close>

text \<open>\<open>p.after(delay, ...)\<close>, kept as the timer of the tag's state.\<close>

definition arm :: "time \<Rightarrow> duration \<Rightarrow> string \<Rightarrow> unusableAlertState \<Rightarrow> NotifyPolicy \<Rightarrow> NotifyPolicy" where
  "arm now delay tag st p =
     p\<lparr>np_timers := np_timers p @ [\<lparr>tm_ID = np_nextTimer p, tm_Tag = tag, tm_Due = time_add now delay\<rparr>],
       np_nextTimer := Suc (np_nextTimer p),
       np_unusable := gput tag (st\<lparr>us_timer := Some (np_nextTimer p)\<rparr>) (np_unusable p)\<rparr>"

definition timer_Stop :: "nat option \<Rightarrow> NotifyPolicy \<Rightarrow> NotifyPolicy" where
  "timer_Stop t p = (case t of None \<Rightarrow> p | Some i \<Rightarrow> p\<lparr>np_timers := filter (\<lambda>a. tm_ID a \<noteq> i) (np_timers p)\<rparr>)"

definition policy_Close :: "NotifyPolicy \<Rightarrow> NotifyPolicy" where
  "policy_Close p =
     (let p1 = foldl (\<lambda>q (tag, st). timer_Stop (us_timer st) q) p (np_unusable p)
      in p1\<lparr>np_closed := True, np_unusable := gmap_values (us_timer_update (\<lambda>_. None)) (np_unusable p)\<rparr>)"

definition clearUnusableLocked :: "string \<Rightarrow> NotifyPolicy \<Rightarrow> NotifyPolicy" where
  "clearUnusableLocked tag p =
     (case gget (np_unusable p) tag of
        None \<Rightarrow> p
      | Some st \<Rightarrow> let q = timer_Stop (us_timer st) p in q\<lparr>np_unusable := gdel tag (np_unusable q)\<rparr>)"

definition initialUnusableDelayLocked :: "time \<Rightarrow> NotifyPolicy \<Rightarrow> duration" where
  "initialUnusableDelayLocked now p =
     (let delay = np_unusableInterval p; uptime = time_sub now (np_startTime p)
      in if uptime < np_startupGracePeriod p \<and> np_startupGracePeriod p - uptime > delay
         then np_startupGracePeriod p - uptime else delay)"

definition HandleUsabilityChange :: "time \<Rightarrow> string \<Rightarrow> bool \<Rightarrow> string \<Rightarrow> NotifyPolicy \<Rightarrow> NotifyPolicy" where
  "HandleUsabilityChange now tag usable reason p =
     (if np_closed p then p
      else if usable then clearUnusableLocked tag p
      else
        let st = (case gget (np_unusable p) tag of None \<Rightarrow> \<lparr>us_reason = [], us_timer = None\<rparr> | Some s \<Rightarrow> s)\<lparr>us_reason := reason\<rparr>
        in if us_timer st \<noteq> None then p\<lparr>np_unusable := gput tag st (np_unusable p)\<rparr>
           else arm now (initialUnusableDelayLocked now p) tag st p)"

definition emitLocked :: "time \<Rightarrow> string \<Rightarrow> Severity \<Rightarrow> attributes \<Rightarrow> NotifyPolicy \<Rightarrow> NotifyPolicy" where
  "emitLocked now eventName severity attrs p =
     (if \<not> np_emitter p then p
      else p\<lparr>np_alerts := np_alerts p @ [\<lparr>al_At = now, al_Event = eventName, al_Severity = severity, al_Attributes = attrs\<rparr>]\<rparr>)"

definition fireUnusableAlert :: "time \<Rightarrow> string \<Rightarrow> NotifyPolicy \<Rightarrow> NotifyPolicy" where
  "fireUnusableAlert now tag p =
     (if np_closed p then p
      else case gget (np_unusable p) tag of
             None \<Rightarrow> p
           | Some st \<Rightarrow>
               let uptime = time_sub now (np_startTime p)
               in if uptime < np_startupGracePeriod p
                  then arm now (np_startupGracePeriod p - uptime) tag (st\<lparr>us_timer := None\<rparr>) p
                  else arm now (np_notifyInterval p) tag (st\<lparr>us_timer := None\<rparr>)
                         (emitLocked now ''upstream.unusable'' SeverityWarn
                            [(''upstream.tag'', tag), (''upstream.reason'', us_reason st)] p))"

section \<open>Steps\<close>

datatype notify_op =
    NpChange time string bool string
  | NpExpire time nat
  | NpFire time nat
  | NpClose

text \<open>An armed timer whose moment has come starts its callback; a callback gets the lock.\<close>

definition timer_expire :: "time \<Rightarrow> nat \<Rightarrow> NotifyPolicy \<Rightarrow> NotifyPolicy" where
  "timer_expire now i p =
     (case filter (\<lambda>a. tm_ID a = i \<and> tm_Due a \<le> now) (np_timers p) of
        [] \<Rightarrow> p
      | a # _ \<Rightarrow> p\<lparr>np_timers := filter (\<lambda>b. tm_ID b \<noteq> i) (np_timers p), np_firing := np_firing p @ [(i, tm_Tag a)]\<rparr>)"

definition callback :: "time \<Rightarrow> nat \<Rightarrow> NotifyPolicy \<Rightarrow> NotifyPolicy" where
  "callback now i p =
     (case gget (np_firing p) i of
        None \<Rightarrow> p
      | Some tag \<Rightarrow> fireUnusableAlert now tag (p\<lparr>np_firing := gdel i (np_firing p)\<rparr>))"

fun notify_step :: "NotifyPolicy \<Rightarrow> notify_op \<Rightarrow> NotifyPolicy" where
  "notify_step p (NpChange now tag usable reason) = HandleUsabilityChange now tag usable reason p"
| "notify_step p (NpExpire now i) = timer_expire now i p"
| "notify_step p (NpFire now i) = callback now i p"
| "notify_step p NpClose = policy_Close p"

section \<open>Any interleaving\<close>

lemma timer_Stop_view [simp]:
  "np_alerts (timer_Stop t p) = np_alerts p" "np_closed (timer_Stop t p) = np_closed p" "np_unusable (timer_Stop t p) = np_unusable p"
  "np_firing (timer_Stop t p) = np_firing p" "np_startTime (timer_Stop t p) = np_startTime p" "np_nextTimer (timer_Stop t p) = np_nextTimer p"
  "np_startupGracePeriod (timer_Stop t p) = np_startupGracePeriod p" "np_unusableInterval (timer_Stop t p) = np_unusableInterval p"
  "np_notifyInterval (timer_Stop t p) = np_notifyInterval p" "np_emitter (timer_Stop t p) = np_emitter p"
  by (simp_all add: timer_Stop_def split: option.split)

lemma stop_all_view [simp]:
  fixes sts :: "(string, unusableAlertState) gomap"
  shows "np_alerts (foldl (\<lambda>q (tag, st). timer_Stop (us_timer st) q) p sts) = np_alerts p"
    "np_firing (foldl (\<lambda>q (tag, st). timer_Stop (us_timer st) q) p sts) = np_firing p"
    "np_startTime (foldl (\<lambda>q (tag, st). timer_Stop (us_timer st) q) p sts) = np_startTime p"
    "np_startupGracePeriod (foldl (\<lambda>q (tag, st). timer_Stop (us_timer st) q) p sts) = np_startupGracePeriod p"
    "np_unusableInterval (foldl (\<lambda>q (tag, st). timer_Stop (us_timer st) q) p sts) = np_unusableInterval p"
    "np_notifyInterval (foldl (\<lambda>q (tag, st). timer_Stop (us_timer st) q) p sts) = np_notifyInterval p"
    "np_emitter (foldl (\<lambda>q (tag, st). timer_Stop (us_timer st) q) p sts) = np_emitter p"
  by (induction sts arbitrary: p) (auto split: prod.splits)

lemma stop_all_timers:
  "np_timers (foldl (\<lambda>q (tag, st). timer_Stop (us_timer st) q) p sts) =
   filter (\<lambda>a. \<forall>(tag, st)\<in>set sts. us_timer st \<noteq> Some (tm_ID a)) (np_timers p)"
proof (induction sts arbitrary: p)
  case (Cons s sts)
  obtain tag st where s: "s = (tag, st)" by (cases s)
  have "np_timers (timer_Stop (us_timer st) p) = filter (\<lambda>a. us_timer st \<noteq> Some (tm_ID a)) (np_timers p)"
    by (auto simp: timer_Stop_def split: option.split intro!: filter_cong)
  then show ?case by (simp add: s Cons.IH conj_commute)
qed simp

lemmas notify_defs = HandleUsabilityChange_def clearUnusableLocked_def arm_def fireUnusableAlert_def emitLocked_def timer_expire_def callback_def policy_Close_def

lemma notify_step_config:
  "np_startTime (notify_step p e) = np_startTime p \<and> np_startupGracePeriod (notify_step p e) = np_startupGracePeriod p \<and>
   np_unusableInterval (notify_step p e) = np_unusableInterval p \<and> np_notifyInterval (notify_step p e) = np_notifyInterval p \<and>
   np_emitter (notify_step p e) = np_emitter p"
  by (cases e) (auto simp: notify_defs Let_def split: option.splits list.splits)

definition quiet_inv :: "NotifyPolicy \<Rightarrow> bool" where
  "quiet_inv p \<longleftrightarrow> list_all (\<lambda>a. time_sub (al_At a) (np_startTime p) \<ge> np_startupGracePeriod p) (np_alerts p)"

interpretation notify_quiet: event_system notify_step quiet_inv
proof
  fix p e assume "quiet_inv p"
  then show "quiet_inv (notify_step p e)"
    by (cases e) (auto simp: quiet_inv_def notify_defs Let_def split: option.splits list.splits)
qed

lemma closed_step: "np_closed p \<Longrightarrow> np_closed (notify_step p e) \<and> np_alerts (notify_step p e) = np_alerts p"
  by (cases e) (auto simp: notify_defs Let_def split: option.splits list.splits)

lemma closed_run: "np_closed p \<Longrightarrow> np_alerts (foldl notify_step p es) = np_alerts p"
proof (induction es arbitrary: p)
  case (Cons e es)
  then show ?case using closed_step [of p e] by simp
qed simp

section \<open>Prompt callbacks\<close>

text \<open>
  Runs in which no call comes between the expiry of a timer and its callback. An episode of
  a tag begins when it is reported unusable and ends when it is reported usable; it has its
  beginning and the last reason reported.
\<close>

datatype prompt_op =
    PrChange time string bool string
  | PrTimer time nat
  | PrClose

fun prompt_ops :: "prompt_op \<Rightarrow> notify_op list" where
  "prompt_ops (PrChange now tag usable reason) = [NpChange now tag usable reason]"
| "prompt_ops (PrTimer now i) = [NpExpire now i, NpFire now i]"
| "prompt_ops PrClose = [NpClose]"

definition prompt_step :: "NotifyPolicy \<Rightarrow> prompt_op \<Rightarrow> NotifyPolicy" where
  "prompt_step p e = foldl notify_step p (prompt_ops e)"

fun prompt_time :: "prompt_op \<Rightarrow> time option" where
  "prompt_time (PrChange now tag usable reason) = Some now"
| "prompt_time (PrTimer now i) = Some now"
| "prompt_time PrClose = None"

fun episode_step :: "(string, time \<times> string) gomap \<Rightarrow> prompt_op \<Rightarrow> (string, time \<times> string) gomap" where
  "episode_step m (PrChange now tag usable reason) =
     (if usable then gdel tag m
      else case gget m tag of None \<Rightarrow> gput tag (now, reason) m | Some (since, _) \<Rightarrow> gput tag (since, reason) m)"
| "episode_step m e = m"

definition episodes :: "prompt_op list \<Rightarrow> (string, time \<times> string) gomap" where
  "episodes ops = foldl episode_step [] ops"

definition alert_tag :: "alert \<Rightarrow> string" where
  "alert_tag a = gget_default [] (al_Attributes a) ''upstream.tag''"

definition timers_ok :: "NotifyPolicy \<Rightarrow> bool" where
  "timers_ok p \<longleftrightarrow> np_firing p = [] \<and> distinct (map tm_ID (np_timers p)) \<and> (\<forall>a\<in>set (np_timers p). tm_ID a < np_nextTimer p) \<and>
     (\<forall>a\<in>set (np_timers p). \<exists>st. gget (np_unusable p) (tm_Tag a) = Some st \<and> us_timer st = Some (tm_ID a)) \<and>
     (np_closed p \<or> (\<forall>tag st. gget (np_unusable p) tag = Some st \<longrightarrow> (\<exists>a\<in>set (np_timers p). tm_Tag a = tag \<and> us_timer st = Some (tm_ID a)))) \<and>
     (\<not> np_closed p \<or> np_timers p = [])"

lemma timer_owner:
  "timers_ok p \<Longrightarrow> a \<in> set (np_timers p) \<Longrightarrow> \<exists>st. gget (np_unusable p) (tm_Tag a) = Some st \<and> us_timer st = Some (tm_ID a)"
  unfolding timers_ok_def by blast

lemma owner_timer:
  "timers_ok p \<Longrightarrow> \<not> np_closed p \<Longrightarrow> gget (np_unusable p) tag = Some st \<Longrightarrow> \<exists>a\<in>set (np_timers p). tm_Tag a = tag \<and> us_timer st = Some (tm_ID a)"
  unfolding timers_ok_def by blast

lemma same_tag:
  assumes "timers_ok p" and "a \<in> set (np_timers p)" and "b \<in> set (np_timers p)"
  shows "tm_Tag a = tm_Tag b \<longleftrightarrow> tm_ID a = tm_ID b"
proof
  assume "tm_Tag a = tm_Tag b"
  then show "tm_ID a = tm_ID b" using timer_owner [OF assms(1,2)] timer_owner [OF assms(1,3)] by auto
next
  assume "tm_ID a = tm_ID b"
  moreover have "distinct (map tm_ID (np_timers p))" using assms(1) by (simp add: timers_ok_def)
  ultimately have "a = b" using assms(2,3) by (meson distinct_map inj_onD)
  then show "tm_Tag a = tm_Tag b" by simp
qed

text \<open>Without the timers of one tag, which then is armed anew.\<close>

definition drop_tag :: "string \<Rightarrow> NotifyPolicy \<Rightarrow> NotifyPolicy" where
  "drop_tag tag p = p\<lparr>np_timers := filter (\<lambda>a. tm_Tag a \<noteq> tag) (np_timers p)\<rparr>"

lemma timers_ok_rearm:
  assumes "timers_ok p" and "\<not> np_closed p"
  shows "timers_ok (arm now d tag st (drop_tag tag p))"
proof -
  let ?q = "arm now d tag st (drop_tag tag p)"
  have fresh: "tm_ID a < np_nextTimer p" if "a \<in> set (np_timers p)" for a using assms(1) that by (simp add: timers_ok_def)
  have q: "np_firing ?q = []" "np_closed ?q = False" "np_nextTimer ?q = Suc (np_nextTimer p)"
    "np_unusable ?q = gput tag (st\<lparr>us_timer := Some (np_nextTimer p)\<rparr>) (np_unusable p)"
    "np_timers ?q = filter (\<lambda>a. tm_Tag a \<noteq> tag) (np_timers p) @ [\<lparr>tm_ID = np_nextTimer p, tm_Tag = tag, tm_Due = time_add now d\<rparr>]"
    using assms by (simp_all add: arm_def drop_tag_def timers_ok_def)
  have dist: "distinct (map tm_ID (np_timers ?q))"
    using assms(1) fresh by (force simp: q timers_ok_def distinct_map inj_on_def)
  have owner: "\<exists>s. gget (np_unusable ?q) (tm_Tag a) = Some s \<and> us_timer s = Some (tm_ID a)" if "a \<in> set (np_timers ?q)" for a
    using that timer_owner [OF assms(1), of a] by (auto simp: q)
  have owned: "\<exists>a\<in>set (np_timers ?q). tm_Tag a = t \<and> us_timer s = Some (tm_ID a)" if "gget (np_unusable ?q) t = Some s" for t s
  proof (cases "t = tag")
    case False
    then show ?thesis using that owner_timer [OF assms, of t s] by (auto simp: q)
  qed (use that in \<open>auto simp: q\<close>)
  have "\<forall>a\<in>set (np_timers ?q). tm_ID a < np_nextTimer ?q" using fresh by (auto simp: q less_Suc_eq)
  then show ?thesis unfolding timers_ok_def using q(1,2) dist owner owned by blast
qed

lemma timers_ok_alerts: "timers_ok (p\<lparr>np_alerts := x\<rparr>) = timers_ok p"
  by (simp add: timers_ok_def)

lemma drop_tag_id: "timers_ok p \<Longrightarrow> gget (np_unusable p) tag = None \<Longrightarrow> drop_tag tag p = p"
  using timer_owner [of p] by (fastforce simp: drop_tag_def filter_id_conv intro!: NotifyPolicy.equality)

lemma filter_one: "distinct (map f xs) \<Longrightarrow> x \<in> set xs \<Longrightarrow> P x \<Longrightarrow> filter (\<lambda>y. f y = f x \<and> P y) xs = [x]"
  by (induction xs) (auto simp: filter_empty_conv image_iff)

lemma expire_as_drop:
  assumes "timers_ok p" and "a \<in> set (np_timers p)" and "tm_Due a \<le> now"
  shows "callback now (tm_ID a) (timer_expire now (tm_ID a) p) = fireUnusableAlert now (tm_Tag a) (drop_tag (tm_Tag a) p)"
proof -
  have "distinct (map tm_ID (np_timers p))" "np_firing p = []" using assms(1) by (auto simp: timers_ok_def)
  then have "filter (\<lambda>b. tm_ID b = tm_ID a \<and> tm_Due b \<le> now) (np_timers p) = [a]"
    using filter_one [of tm_ID "np_timers p" a "\<lambda>b. tm_Due b \<le> now"] assms(2,3) by simp
  moreover have "filter (\<lambda>b. tm_ID b \<noteq> tm_ID a) (np_timers p) = filter (\<lambda>b. tm_Tag b \<noteq> tm_Tag a) (np_timers p)"
    using same_tag [OF assms(1) _ assms(2)] by (intro filter_cong) auto
  ultimately show ?thesis
    using \<open>np_firing p = []\<close> by (cases p) (simp add: timer_expire_def callback_def drop_tag_def)
qed


text \<open>What a step of a prompt run does, over the timers of one tag.\<close>

lemma prompt_timer_cases:
  assumes "timers_ok p"
  obtains "prompt_step p (PrTimer now i) = p"
    | a where "a \<in> set (np_timers p)" "tm_Due a \<le> now" "\<not> np_closed p"
        "prompt_step p (PrTimer now i) = fireUnusableAlert now (tm_Tag a) (drop_tag (tm_Tag a) p)"
proof (cases "\<exists>a\<in>set (np_timers p). tm_ID a = i \<and> tm_Due a \<le> now")
  case True
  then obtain a where a: "a \<in> set (np_timers p)" "tm_ID a = i" "tm_Due a \<le> now" by blast
  moreover have "\<not> np_closed p" using a(1) assms by (auto simp: timers_ok_def)
  ultimately show ?thesis using that(2) [of a] expire_as_drop [OF assms a(1,3)] by (simp add: prompt_step_def)
next
  case False
  then have "timer_expire now i p = p" by (auto simp: timer_expire_def filter_empty_conv split: list.splits)
  moreover have "np_firing p = []" using assms by (simp add: timers_ok_def)
  ultimately show ?thesis using that(1) by (simp add: prompt_step_def callback_def)
qed

lemma stop_as_drop:
  assumes "timers_ok p" and "gget (np_unusable p) tag = Some st" and "\<not> np_closed p"
  shows "timer_Stop (us_timer st) p = drop_tag tag p"
proof -
  obtain a where a: "a \<in> set (np_timers p)" "tm_Tag a = tag" "us_timer st = Some (tm_ID a)" using owner_timer [OF assms(1,3,2)] by blast
  have "filter (\<lambda>b. tm_ID b \<noteq> tm_ID a) (np_timers p) = filter (\<lambda>b. tm_Tag b \<noteq> tag) (np_timers p)"
    using same_tag [OF assms(1) _ a(1)] a(2) by (intro filter_cong) auto
  then show ?thesis by (simp add: timer_Stop_def a(3) drop_tag_def)
qed

lemma timers_ok_forget:
  assumes "timers_ok p" and "\<not> np_closed p"
  shows "timers_ok ((drop_tag tag p)\<lparr>np_unusable := gdel tag (np_unusable p)\<rparr>)"
proof -
  have "distinct (map tm_ID (filter (\<lambda>a. tm_Tag a \<noteq> tag) (np_timers p)))"
    using assms(1) by (auto simp: timers_ok_def distinct_map inj_on_def)
  then show ?thesis using assms by (auto simp: timers_ok_def drop_tag_def) blast
qed

lemma change_cases:
  assumes "timers_ok p" and "\<not> np_closed p"
  shows "prompt_step p (PrChange now tag usable reason) =
     (if usable then (drop_tag tag p)\<lparr>np_unusable := gdel tag (np_unusable p)\<rparr>
      else case gget (np_unusable p) tag of
             None \<Rightarrow> arm now (initialUnusableDelayLocked now p) tag \<lparr>us_reason = reason, us_timer = None\<rparr> (drop_tag tag p)
           | Some st \<Rightarrow> p\<lparr>np_unusable := gput tag (st\<lparr>us_reason := reason\<rparr>) (np_unusable p)\<rparr>)"
proof (cases "gget (np_unusable p) tag")
  case None
  then have del: "gdel tag (np_unusable p) = np_unusable p" by (intro gdel_notin) (simp add: gget_None_iff)
  show ?thesis using assms(2) None del drop_tag_id [OF assms(1) None]
    by (simp add: prompt_step_def HandleUsabilityChange_def clearUnusableLocked_def Let_def)
next
  case (Some st)
  then have "us_timer st \<noteq> None" using owner_timer [OF assms Some] by auto
  then show ?thesis using assms Some stop_as_drop [OF assms(1) Some assms(2)]
    by (simp add: prompt_step_def HandleUsabilityChange_def clearUnusableLocked_def Let_def drop_tag_def)
qed

lemma timers_ok_reason:
  "timers_ok p \<Longrightarrow> gget (np_unusable p) tag = Some st \<Longrightarrow> timers_ok (p\<lparr>np_unusable := gput tag (st\<lparr>us_reason := r\<rparr>) (np_unusable p)\<rparr>)"
  unfolding timers_ok_def by (auto split: if_splits)

lemma fire_cases:
  assumes "timers_ok p" and "\<not> np_closed p" and "a \<in> set (np_timers p)"
  obtains st where "gget (np_unusable p) (tm_Tag a) = Some st"
    and "fireUnusableAlert now (tm_Tag a) (drop_tag (tm_Tag a) p) =
      (if time_sub now (np_startTime p) < np_startupGracePeriod p
       then arm now (np_startupGracePeriod p - time_sub now (np_startTime p)) (tm_Tag a) st (drop_tag (tm_Tag a) p)
       else arm now (np_notifyInterval p) (tm_Tag a) st (drop_tag (tm_Tag a)
              (emitLocked now ''upstream.unusable'' SeverityWarn [(''upstream.tag'', tm_Tag a), (''upstream.reason'', us_reason st)] p)))"
proof -
  obtain st where st: "gget (np_unusable p) (tm_Tag a) = Some st" using timer_owner [OF assms(1,3)] by blast
  show thesis
    by (rule that [OF st]) (use assms(2) st in \<open>auto simp: fireUnusableAlert_def Let_def arm_def drop_tag_def emitLocked_def\<close>)
qed

lemma timers_ok_close: "timers_ok p \<Longrightarrow> timers_ok (policy_Close p)"
proof -
  assume ok: "timers_ok p"
  have "filter (\<lambda>a. \<forall>(tag, st)\<in>set (np_unusable p). us_timer st \<noteq> Some (tm_ID a)) (np_timers p) = []"
    using timer_owner [OF ok] by (fastforce simp: filter_empty_conv dest: gget_in_set)
  then show ?thesis using ok by (simp add: timers_ok_def policy_Close_def Let_def stop_all_timers)
qed

lemma timers_ok_step: "timers_ok p \<Longrightarrow> timers_ok (prompt_step p e)"
proof (cases e)
  case (PrChange now tag usable reason)
  assume ok: "timers_ok p"
  show ?thesis
  proof (cases "np_closed p")
    case True
    then show ?thesis using ok by (simp add: PrChange prompt_step_def HandleUsabilityChange_def)
  next
    case False
    then show ?thesis
      unfolding PrChange change_cases [OF ok False]
      using ok timers_ok_forget timers_ok_rearm timers_ok_reason by (auto split: option.split)
  qed
next
  case (PrTimer now i)
  assume ok: "timers_ok p"
  from ok show ?thesis
  proof (cases rule: prompt_timer_cases [of p now i])
    case (2 a)
    obtain st where "gget (np_unusable p) (tm_Tag a) = Some st"
      and f: "fireUnusableAlert now (tm_Tag a) (drop_tag (tm_Tag a) p) =
      (if time_sub now (np_startTime p) < np_startupGracePeriod p
       then arm now (np_startupGracePeriod p - time_sub now (np_startTime p)) (tm_Tag a) st (drop_tag (tm_Tag a) p)
       else arm now (np_notifyInterval p) (tm_Tag a) st (drop_tag (tm_Tag a)
              (emitLocked now ''upstream.unusable'' SeverityWarn [(''upstream.tag'', tm_Tag a), (''upstream.reason'', us_reason st)] p)))"
      using fire_cases [OF ok 2(3,1)] by blast
    show ?thesis unfolding PrTimer 2(4) f using ok 2(3) timers_ok_rearm by (auto simp: emitLocked_def timers_ok_alerts)
  qed (use ok PrTimer in simp)
next
  case PrClose
  assume "timers_ok p"
  then show ?thesis using timers_ok_close by (simp add: PrClose prompt_step_def)
qed

section \<open>When alerts come\<close>

text \<open>
  The armed timer of a tag is not due before the tag has been unusable for the interval, nor
  before the interval after the last alert of its episode; the reasons are those last reported.
\<close>

definition due_after :: "NotifyPolicy \<Rightarrow> (string, time \<times> string) gomap \<Rightarrow> armed_timer \<Rightarrow> bool" where
  "due_after p m a \<longleftrightarrow> (\<exists>since reason. gget m (tm_Tag a) = Some (since, reason) \<and> since + np_unusableInterval p \<le> tm_Due a \<and>
     (\<forall>al\<in>set (np_alerts p). alert_tag al = tm_Tag a \<and> since < al_At al \<longrightarrow> al_At al + np_notifyInterval p \<le> tm_Due a))"

definition timing_ok :: "time \<Rightarrow> NotifyPolicy \<Rightarrow> (string, time \<times> string) gomap \<Rightarrow> bool" where
  "timing_ok clock p m \<longleftrightarrow>
     (\<forall>a\<in>set (np_timers p). due_after p m a) \<and>
     (np_closed p \<or> (\<forall>tag. map_option us_reason (gget (np_unusable p) tag) = map_option snd (gget m tag))) \<and>
     (\<forall>tag since reason. gget m tag = Some (since, reason) \<longrightarrow> since \<le> clock) \<and>
     (\<forall>al\<in>set (np_alerts p). al_At al \<le> clock) \<and> 0 < np_unusableInterval p \<and> 0 < np_notifyInterval p"

lemma initial_delay: "np_unusableInterval p \<le> initialUnusableDelayLocked now p"
  by (simp add: initialUnusableDelayLocked_def Let_def)

lemma arm_view [simp]:
  "np_alerts (arm now d tag st p) = np_alerts p" "np_closed (arm now d tag st p) = np_closed p"
  "np_unusableInterval (arm now d tag st p) = np_unusableInterval p" "np_notifyInterval (arm now d tag st p) = np_notifyInterval p"
  "np_timers (arm now d tag st p) = np_timers p @ [\<lparr>tm_ID = np_nextTimer p, tm_Tag = tag, tm_Due = now + d\<rparr>]"
  "np_unusable (arm now d tag st p) = gput tag (st\<lparr>us_timer := Some (np_nextTimer p)\<rparr>) (np_unusable p)"
  by (simp_all add: arm_def time_add_def)

lemma drop_tag_view [simp]:
  "np_alerts (drop_tag tag p) = np_alerts p" "np_closed (drop_tag tag p) = np_closed p"
  "np_unusableInterval (drop_tag tag p) = np_unusableInterval p" "np_notifyInterval (drop_tag tag p) = np_notifyInterval p"
  "np_timers (drop_tag tag p) = filter (\<lambda>a. tm_Tag a \<noteq> tag) (np_timers p)" "np_unusable (drop_tag tag p) = np_unusable p"
  by (simp_all add: drop_tag_def)

lemma due_after_other:
  "due_after p m a \<Longrightarrow> np_alerts q = np_alerts p \<Longrightarrow> np_unusableInterval q = np_unusableInterval p \<Longrightarrow> np_notifyInterval q = np_notifyInterval p \<Longrightarrow>
   gget m' (tm_Tag a) = gget m (tm_Tag a) \<or> (\<exists>since r r'. gget m (tm_Tag a) = Some (since, r) \<and> gget m' (tm_Tag a) = Some (since, r')) \<Longrightarrow> due_after q m' a"
  unfolding due_after_def by auto

lemma timing_change:
  assumes "timing_ok clock p m" and "timers_ok p" and "\<not> np_closed p" and "clock \<le> now"
  shows "timing_ok now (prompt_step p (PrChange now tag usable reason)) (episode_step m (PrChange now tag usable reason))"
proof -
  have t: "due_after p m a" if "a \<in> set (np_timers p)" for a using assms(1) that by (simp add: timing_ok_def)
  have r: "map_option us_reason (gget (np_unusable p) k) = map_option snd (gget m k)" for k using assms(1,3) by (auto simp: timing_ok_def)
  have c: "since \<le> now" if "gget m k = Some (since, why)" for k since why using assms(1,4) that by (fastforce simp: timing_ok_def)
  have al: "al_At al \<le> now" if "al \<in> set (np_alerts p)" for al using assms(1,4) that by (fastforce simp: timing_ok_def)
  have pos: "0 < np_unusableInterval p" "0 < np_notifyInterval p" using assms(1) by (simp_all add: timing_ok_def)
  consider (clear) usable | (new) "\<not> usable" "gget (np_unusable p) tag = None" | (again) st where "\<not> usable" "gget (np_unusable p) tag = Some st" by fastforce
  then show ?thesis
  proof cases
    case clear
    have "due_after ((drop_tag tag p)\<lparr>np_unusable := gdel tag (np_unusable p)\<rparr>) (gdel tag m) a" if "a \<in> set (np_timers p)" "tm_Tag a \<noteq> tag" for a
      using t [OF that(1)] by (rule due_after_other) (use that in simp_all)
    then show ?thesis
      unfolding change_cases [OF assms(2,3)] using clear r c al pos by (auto simp: timing_ok_def split: if_splits)
  next
    case new
    then have m: "gget m tag = None" using r [of tag] by simp
    define q where "q = arm now (initialUnusableDelayLocked now p) tag \<lparr>us_reason = reason, us_timer = None\<rparr> (drop_tag tag p)"
    have o: "due_after q (gput tag (now, reason) m) a" if "a \<in> set (np_timers p)" "tm_Tag a \<noteq> tag" for a
      using t [OF that(1)] by (rule due_after_other) (use that in \<open>simp_all add: q_def\<close>)
    have "\<not> now < al_At al" if "al \<in> set (np_alerts p)" for al using al [OF that] by simp
    then have "due_after q (gput tag (now, reason) m) \<lparr>tm_ID = n, tm_Tag = tag, tm_Due = now + initialUnusableDelayLocked now p\<rparr>" for n
      using initial_delay [of p now] by (auto simp: due_after_def q_def)
    then show ?thesis
      unfolding change_cases [OF assms(2,3)] using new m o r c al pos by (auto simp: timing_ok_def q_def [symmetric]) (auto simp: q_def)
  next
    case (again st)
    obtain since old where m: "gget m tag = Some (since, old)" using r [of tag] again(2) by (cases "gget m tag") auto
    define q where "q = p\<lparr>np_unusable := gput tag (st\<lparr>us_reason := reason\<rparr>) (np_unusable p)\<rparr>"
    have "due_after q (gput tag (since, reason) m) a" if "a \<in> set (np_timers p)" for a
      using t [OF that] by (rule due_after_other) (use m in \<open>auto simp: q_def\<close>)
    then show ?thesis
      unfolding change_cases [OF assms(2,3)] using again m r c al pos by (auto simp: timing_ok_def q_def)
  qed
qed

lemma timing_arm:
  assumes "timing_ok clock p m" and "\<not> np_closed p" and "gget (np_unusable p) tag = Some st"
    and "due_after p m \<lparr>tm_ID = np_nextTimer p, tm_Tag = tag, tm_Due = now + d\<rparr>"
  shows "timing_ok clock (arm now d tag st (drop_tag tag p)) m"
proof -
  define q where "q = arm now d tag st (drop_tag tag p)"
  have same: "due_after q m a" if "due_after p m a" for a using that by (rule due_after_other) (simp_all add: q_def)
  have "\<forall>a\<in>set (np_timers q). due_after q m a"
    using assms(1,4) same by (auto simp: timing_ok_def q_def [symmetric]) (auto simp: q_def drop_tag_def)
  moreover have "map_option us_reason (gget (np_unusable p) tag) = map_option snd (gget m tag)" using assms(1,2) by (auto simp: timing_ok_def)
  ultimately show ?thesis
    unfolding q_def [symmetric] using assms(1-3) by (auto simp: timing_ok_def q_def split: if_splits)
qed

lemma timing_emit:
  assumes "timing_ok clock p m" and "clock \<le> now" and "\<not> np_closed p"
    and w: "w = drop_tag tag (emitLocked now ''upstream.unusable'' SeverityWarn [(''upstream.tag'', tag), (''upstream.reason'', r)] p)"
  shows "timing_ok now w m"
proof -
  have "due_after w m a" if "a \<in> set (np_timers p)" "tm_Tag a \<noteq> tag" for a
  proof -
    have "due_after p m a" using assms(1) that(1) by (simp add: timing_ok_def)
    then show ?thesis using that(2) by (auto simp: due_after_def w emitLocked_def alert_tag_def gget_default_def)
  qed
  moreover have "set (np_timers w) \<subseteq> {a \<in> set (np_timers p). tm_Tag a \<noteq> tag}" by (auto simp: w emitLocked_def)
  ultimately show ?thesis using assms(1-3) by (fastforce simp: timing_ok_def w emitLocked_def)
qed

lemma timing_later: "timing_ok clock p m \<Longrightarrow> clock \<le> now \<Longrightarrow> timing_ok now p m"
  by (fastforce simp: timing_ok_def)

lemma timing_timer:
  assumes "timing_ok clock p m" and ok: "timers_ok p" and "clock \<le> now"
  shows "timing_ok now (prompt_step p (PrTimer now i)) m"
  using ok
proof (cases rule: prompt_timer_cases [of p now i])
  case 1
  then show ?thesis using timing_later [OF assms(1,3)] by simp
next
  case (2 a)
  define tag where "tag = tm_Tag a"
  obtain st where st: "gget (np_unusable p) tag = Some st" and f: "fireUnusableAlert now tag (drop_tag tag p) =
      (if time_sub now (np_startTime p) < np_startupGracePeriod p
       then arm now (np_startupGracePeriod p - time_sub now (np_startTime p)) tag st (drop_tag tag p)
       else arm now (np_notifyInterval p) tag st (drop_tag tag
              (emitLocked now ''upstream.unusable'' SeverityWarn [(''upstream.tag'', tag), (''upstream.reason'', us_reason st)] p)))"
    using fire_cases [OF ok 2(3,1)] unfolding tag_def by blast
  have d: "due_after p m a" using assms(1) 2(1) by (simp add: timing_ok_def)
  have step: "prompt_step p (PrTimer now i) = fireUnusableAlert now tag (drop_tag tag p)" using 2(4) by (simp add: tag_def)
  show ?thesis
  proof (cases "time_sub now (np_startTime p) < np_startupGracePeriod p")
    case True
    have "due_after p m \<lparr>tm_ID = np_nextTimer p, tm_Tag = tag, tm_Due = now + (np_startupGracePeriod p - time_sub now (np_startTime p))\<rparr>"
      using d 2(2) True unfolding due_after_def tag_def by fastforce
    then show ?thesis unfolding step f using True timing_arm [OF timing_later [OF assms(1,3)] 2(3) st] by simp
  next
    case False
    define q where "q = emitLocked now ''upstream.unusable'' SeverityWarn [(''upstream.tag'', tag), (''upstream.reason'', us_reason st)] p"
    have q: "timing_ok now (drop_tag tag q) m" unfolding q_def using timing_emit [OF assms(1,3) 2(3)] by blast
    have al: "al_At al \<le> now" if "al \<in> set (np_alerts (drop_tag tag q))" for al using q that by (simp add: timing_ok_def)
    have iv: "np_notifyInterval (drop_tag tag q) = np_notifyInterval p" "np_unusableInterval (drop_tag tag q) = np_unusableInterval p" "0 < np_notifyInterval p"
      using assms(1) by (simp_all add: q_def emitLocked_def timing_ok_def)
    have "due_after (drop_tag tag q) m \<lparr>tm_ID = np_nextTimer (drop_tag tag q), tm_Tag = tag, tm_Due = now + np_notifyInterval p\<rparr>"
      using d 2(2) al iv unfolding due_after_def tag_def by fastforce
    from timing_arm [OF q _ _ this] have "timing_ok now (arm now (np_notifyInterval p) tag st (drop_tag tag (drop_tag tag q))) m"
      using 2(3) st by (simp add: q_def emitLocked_def)
    moreover have "drop_tag tag (drop_tag tag q) = drop_tag tag q" by (simp add: drop_tag_def)
    ultimately show ?thesis unfolding step f using False by (simp add: q_def)
  qed
qed

lemma timing_step:
  assumes "timing_ok clock p m" and "timers_ok p" and "case prompt_time e of None \<Rightarrow> True | Some t \<Rightarrow> clock \<le> t"
  shows "timing_ok (case prompt_time e of None \<Rightarrow> clock | Some t \<Rightarrow> t) (prompt_step p e) (episode_step m e)"
proof (cases e)
  case (PrChange now tag usable reason)
  show ?thesis
  proof (cases "np_closed p")
    case True
    then have "np_timers p = []" using assms(2) by (auto simp: timers_ok_def)
    then show ?thesis using assms(1,3) True
      by (fastforce simp: PrChange prompt_step_def HandleUsabilityChange_def timing_ok_def split: option.splits if_splits prod.splits)
  next
    case False
    then show ?thesis using timing_change [OF assms(1,2)] assms(3) by (simp add: PrChange)
  qed
next
  case (PrTimer now i)
  then show ?thesis using timing_timer [OF assms(1,2)] assms(3) by simp
next
  case PrClose
  have "np_timers (policy_Close p) = []" using timers_ok_close [OF assms(2)] by (auto simp: timers_ok_def policy_Close_def)
  then show ?thesis using assms(1) by (auto simp: PrClose prompt_step_def timing_ok_def policy_Close_def Let_def)
qed

lemma timing_run:
  assumes "timing_ok clock p m" and "timers_ok p" and "sorted (clock # List.map_filter prompt_time ops)"
  shows "timing_ok (last (clock # List.map_filter prompt_time ops)) (foldl prompt_step p ops) (foldl episode_step m ops) \<and> timers_ok (foldl prompt_step p ops)"
  using assms
proof (induction ops arbitrary: clock p m)
  case (Cons e ops)
  define c where "c = (case prompt_time e of None \<Rightarrow> clock | Some t \<Rightarrow> t)"
  have "timing_ok c (prompt_step p e) (episode_step m e)"
    unfolding c_def by (rule timing_step [OF Cons.prems(1,2)]) (use Cons.prems(3) in \<open>auto simp: map_filter_simps split: option.splits\<close>)
  moreover have "sorted (c # List.map_filter prompt_time ops)" "last (clock # List.map_filter prompt_time (e # ops)) = last (c # List.map_filter prompt_time ops)"
    using Cons.prems(3) by (auto simp: c_def map_filter_simps split: option.splits)
  ultimately show ?case using Cons.IH [of c "prompt_step p e" "episode_step m e"] timers_ok_step [OF Cons.prems(2)] by simp
qed (simp add: map_filter_simps)

lemma prompt_config: "np_startTime (foldl prompt_step p ops) = np_startTime p \<and> np_startupGracePeriod (foldl prompt_step p ops) = np_startupGracePeriod p \<and>
   np_unusableInterval (foldl prompt_step p ops) = np_unusableInterval p \<and> np_notifyInterval (foldl prompt_step p ops) = np_notifyInterval p"
proof (induction ops arbitrary: p)
  case (Cons e ops)
  have run: "np_startTime (foldl notify_step p es) = np_startTime p \<and> np_startupGracePeriod (foldl notify_step p es) = np_startupGracePeriod p \<and>
     np_unusableInterval (foldl notify_step p es) = np_unusableInterval p \<and> np_notifyInterval (foldl notify_step p es) = np_notifyInterval p" for es
    by (induction es arbitrary: p) (simp_all add: notify_step_config)
  show ?case using Cons.IH [of "prompt_step p e"] run [of "prompt_ops e"] by (simp add: prompt_step_def)
qed simp

lemma alert_of_step:
  assumes "timers_ok p" and "np_alerts (prompt_step p e) = np_alerts p @ [al]"
  obtains now i a st where "e = PrTimer now i" "a \<in> set (np_timers p)" "tm_Due a \<le> now" "\<not> np_closed p" "gget (np_unusable p) (tm_Tag a) = Some st"
    "np_startupGracePeriod p \<le> time_sub now (np_startTime p)"
    "al = \<lparr>al_At = now, al_Event = ''upstream.unusable'', al_Severity = SeverityWarn,
       al_Attributes = [(''upstream.tag'', tm_Tag a), (''upstream.reason'', us_reason st)]\<rparr>"
proof (cases e)
  case (PrChange now tag usable reason)
  have "np_alerts (prompt_step p e) = np_alerts p"
    by (auto simp: PrChange prompt_step_def notify_defs Let_def split: option.split)
  then show thesis using assms(2) by simp
next
  case (PrTimer now i)
  from assms(1) show thesis
  proof (cases rule: prompt_timer_cases [of p now i])
    case 1
    then show thesis using assms(2) PrTimer by simp
  next
    case (2 a)
    obtain st where st: "gget (np_unusable p) (tm_Tag a) = Some st"
      and f: "fireUnusableAlert now (tm_Tag a) (drop_tag (tm_Tag a) p) =
      (if time_sub now (np_startTime p) < np_startupGracePeriod p
       then arm now (np_startupGracePeriod p - time_sub now (np_startTime p)) (tm_Tag a) st (drop_tag (tm_Tag a) p)
       else arm now (np_notifyInterval p) (tm_Tag a) st (drop_tag (tm_Tag a)
              (emitLocked now ''upstream.unusable'' SeverityWarn [(''upstream.tag'', tm_Tag a), (''upstream.reason'', us_reason st)] p)))"
      using fire_cases [OF assms(1) 2(3,1)] by blast
    show thesis
      by (rule that [OF PrTimer 2(1-3) st]) (use assms(2) 2(4) f PrTimer in \<open>auto simp: emitLocked_def split: if_splits\<close>)
  qed
next
  case PrClose
  then show thesis using assms(2) by (simp add: prompt_step_def policy_Close_def Let_def)
qed

lemma NewPolicy_ok:
  "timers_ok (NewPolicy emitter now cfg)" "timing_ok clock (NewPolicy emitter now cfg) []"
  by (simp_all add: timers_ok_def timing_ok_def NewPolicy_def positive_duration_def defaultUnusableInterval_def defaultNotifyInterval_def)

text \<open>
  C33: an alert is due. When callbacks run as soon as their timers expire and the clock does
  not go back, an alert about an upstream is raised only after the start-up grace period, only
  while the upstream is unusable and has been so for the configured interval, with the reason
  last reported, and no sooner after the previous alert of the same episode than the
  configured interval.
\<close>

theorem alerts_are_due:
  assumes "p = foldl prompt_step (NewPolicy emitter start cfg) ops"
    and "sorted (List.map_filter prompt_time ops)"
    and "np_alerts (prompt_step p e) = np_alerts p @ [al]"
  shows "\<exists>since reason. gget (episodes ops) (alert_tag al) = Some (since, reason) \<and>
    np_unusableInterval p \<le> al_At al - since \<and> np_startupGracePeriod p \<le> time_sub (al_At al) (np_startTime p) \<and>
    gget (al_Attributes al) ''upstream.reason'' = Some reason \<and>
    (\<forall>b\<in>set (np_alerts p). alert_tag b = alert_tag al \<and> since < al_At b \<longrightarrow> np_notifyInterval p \<le> al_At al - al_At b)"
proof -
  define c where "c = (case List.map_filter prompt_time ops of [] \<Rightarrow> 0 | t # _ \<Rightarrow> t)"
  have "sorted (c # List.map_filter prompt_time ops)" using assms(2) by (auto simp: c_def split: list.splits)
  from timing_run [OF NewPolicy_ok(2,1) this] have ok: "timers_ok p" "timing_ok (last (c # List.map_filter prompt_time ops)) p (episodes ops)"
    by (auto simp: assms(1) episodes_def)
  obtain now i a st where a: "e = PrTimer now i" "a \<in> set (np_timers p)" "tm_Due a \<le> now" "\<not> np_closed p" "gget (np_unusable p) (tm_Tag a) = Some st"
    "np_startupGracePeriod p \<le> time_sub now (np_startTime p)"
    "al = \<lparr>al_At = now, al_Event = ''upstream.unusable'', al_Severity = SeverityWarn,
       al_Attributes = [(''upstream.tag'', tm_Tag a), (''upstream.reason'', us_reason st)]\<rparr>"
    using alert_of_step [OF ok(1) assms(3)] by metis
  have tag: "alert_tag al = tm_Tag a" by (simp add: a(7) alert_tag_def gget_default_def)
  have "due_after p (episodes ops) a" and r: "map_option us_reason (gget (np_unusable p) (tm_Tag a)) = map_option snd (gget (episodes ops) (tm_Tag a))"
    using ok(2) a(2,4) by (auto simp: timing_ok_def)
  then obtain since reason where s: "gget (episodes ops) (tm_Tag a) = Some (since, reason)" "since + np_unusableInterval p \<le> tm_Due a"
      "\<forall>al\<in>set (np_alerts p). alert_tag al = tm_Tag a \<and> since < al_At al \<longrightarrow> al_At al + np_notifyInterval p \<le> tm_Due a"
    unfolding due_after_def by blast
  have "reason = us_reason st" using r a(5) s(1) by simp
  then show ?thesis using s a(3,6) unfolding tag by (intro exI [of _ since] exI [of _ reason]) (fastforce simp: a(7))
qed

section \<open>Samples\<close>

definition sample_notify_config :: PolicyConfig where
  "sample_notify_config = \<lparr>pc_StartTime = 1, pc_StartupGracePeriod = 5, pc_UnusableInterval = 3, pc_NotifyInterval = 10\<rparr>"

definition sample_notify_ops :: "prompt_op list" where
  "sample_notify_ops = [PrChange 10 ''a'' False ''refused'', PrTimer 13 0, PrChange 14 ''a'' False ''timeout'']"

definition sample_notify :: NotifyPolicy where
  "sample_notify = foldl prompt_step (NewPolicy True 1 sample_notify_config) sample_notify_ops"

theorem alerts_are_due_witness:
  "\<exists>since reason. gget (episodes sample_notify_ops) ''a'' = Some (since, reason) \<and> np_unusableInterval sample_notify \<le> 23 - since \<and>
     reason = ''timeout'' \<and> map al_At (np_alerts sample_notify) = [13] \<and> np_notifyInterval sample_notify \<le> 23 - 13"
proof -
  define al where "al = \<lparr>al_At = 23, al_Event = ''upstream.unusable'', al_Severity = SeverityWarn,
    al_Attributes = [(''upstream.tag'', ''a''), (''upstream.reason'', ''timeout'')]\<rparr>"
  have run: "np_alerts (prompt_step sample_notify (PrTimer 23 1)) = np_alerts sample_notify @ [al]" unfolding al_def by code_simp
  have times: "List.map_filter prompt_time sample_notify_ops = [10, 13, 14]" by code_simp
  have "sorted (List.map_filter prompt_time sample_notify_ops)" unfolding times by simp
  note due = alerts_are_due [OF sample_notify_def this run]
  have alerts: "np_alerts sample_notify = [al\<lparr>al_At := 13, al_Attributes := [(''upstream.tag'', ''a''), (''upstream.reason'', ''refused'')]\<rparr>]"
    unfolding al_def by code_simp
  have ep: "gget (episodes sample_notify_ops) ''a'' = Some (10, ''timeout'')" by code_simp
  have tag: "alert_tag al = ''a''" "al_At al = 23" by (simp_all add: al_def alert_tag_def gget_default_def)
  show ?thesis using due unfolding tag ep alerts by (auto simp: alert_tag_def gget_default_def al_def ep)
qed

text \<open>
  A callback that has started cannot be stopped. When the upstream recovers and fails again
  while the callback waits for the lock, the callback finds the new episode: it alerts at once,
  without the interval, and forgets the timer of the new episode, so that two timers are armed
  for one upstream from then on.
\<close>

lemma stale_callback_alerts_early:
  "map (\<lambda>a. (al_At a, alert_tag a)) (np_alerts (foldl notify_step (NewPolicy True 1 sample_notify_config)
     [NpChange 10 ''a'' False ''refused'', NpExpire 13 0, NpChange 13 ''a'' True [], NpChange 13 ''a'' False ''refused'', NpFire 13 0])) = [(13, ''a'')] \<and>
   map tm_Tag (np_timers (foldl notify_step (NewPolicy True 1 sample_notify_config)
     [NpChange 10 ''a'' False ''refused'', NpExpire 13 0, NpChange 13 ''a'' True [], NpChange 13 ''a'' False ''refused'', NpFire 13 0])) = [''a'', ''a'']"
  by code_simp

text \<open>Whatever the interleaving, nothing is raised during the grace period or after the policy is closed.\<close>

lemma alerts_outside_grace:
  "al \<in> set (np_alerts (foldl notify_step (NewPolicy emitter now cfg) es)) \<Longrightarrow>
   np_startupGracePeriod (foldl notify_step (NewPolicy emitter now cfg) es) \<le> time_sub (al_At al) (np_startTime (foldl notify_step (NewPolicy emitter now cfg) es))"
proof -
  have "quiet_inv (NewPolicy emitter now cfg)" by (simp add: quiet_inv_def NewPolicy_def)
  from notify_quiet.run_invar [OF this, of es]
  show "al \<in> set (np_alerts (foldl notify_step (NewPolicy emitter now cfg) es)) \<Longrightarrow>
   np_startupGracePeriod (foldl notify_step (NewPolicy emitter now cfg) es) \<le> time_sub (al_At al) (np_startTime (foldl notify_step (NewPolicy emitter now cfg) es))"
    by (simp add: quiet_inv_def list_all_iff)
qed

lemma closed_policy_silent: "np_alerts (foldl notify_step (policy_Close p) es) = np_alerts p"
  using closed_run [of "policy_Close p" es] by (simp add: policy_Close_def Let_def)

section \<open>Delivery\<close>

definition defaultQueueSize :: int where "defaultQueueSize = 256"
definition defaultTimeout :: duration where "defaultTimeout = 3 * second"
definition maxAttempts :: nat where "maxAttempts = 3"

record Event =
  ev_Event :: string
  ev_OccurredAt :: string
  ev_Instance :: string
  ev_Attributes :: attributes

record notify_Config =
  cf_Endpoint :: string
  cf_BearerToken :: string
  cf_SourceInstance :: string
  cf_QueueSize :: int
  cf_Timeout :: duration

text \<open>What \<open>url.Parse\<close> finds in an endpoint.\<close>

record endpoint =
  ep_Host :: string
  ep_Scheme :: string
  ep_String :: string

text \<open>
  The client; \<open>nc_sending\<close> is the event its worker has taken from the queue, and the last
  fields count what happened to the events: the telemetry counters for deliveries and drops,
  and the events that were accepted or could not be encoded.
\<close>

record notify_Client =
  nc_endpoint :: string
  nc_bearerToken :: string
  nc_sourceInstance :: string
  nc_timeout :: duration
  nc_closed :: bool
  nc_queue :: "Event list"
  nc_queueCap :: int
  nc_sending :: "Event option"
  nc_workerDone :: bool
  nc_succeeded :: nat
  nc_failed :: nat
  nc_dropped :: nat
  nc_accepted :: nat
  nc_unencoded :: nat

datatype endpoint_error = EndpointUnparsable | EndpointNoHost | EndpointScheme string

definition NewClient :: "(string \<Rightarrow> endpoint option) \<Rightarrow> notify_Config \<Rightarrow> endpoint_error + notify_Client" where
  "NewClient urlParse cfg =
     (case urlParse (cf_Endpoint cfg) of
        None \<Rightarrow> Inl EndpointUnparsable
      | Some u \<Rightarrow>
          if ep_Host u = [] then Inl EndpointNoHost
          else if ep_Scheme u \<noteq> ''http'' \<and> ep_Scheme u \<noteq> ''https'' then Inl (EndpointScheme (ep_Scheme u))
          else Inr \<lparr>nc_endpoint = ep_String u, nc_bearerToken = cf_BearerToken cfg, nc_sourceInstance = cf_SourceInstance cfg,
                 nc_timeout = positive_duration (cf_Timeout cfg) defaultTimeout, nc_closed = False, nc_queue = [],
                 nc_queueCap = (if cf_QueueSize cfg \<le> 0 then defaultQueueSize else cf_QueueSize cfg), nc_sending = None, nc_workerDone = False,
                 nc_succeeded = 0, nc_failed = 0, nc_dropped = 0, nc_accepted = 0, nc_unencoded = 0\<rparr>)"

definition Submit :: "Event \<Rightarrow> notify_Client \<Rightarrow> bool \<times> notify_Client" where
  "Submit event c =
     (if nc_closed c then (False, c)
      else if int (length (nc_queue c)) < nc_queueCap c
      then (True, c\<lparr>nc_queue := nc_queue c @ [event], nc_accepted := Suc (nc_accepted c)\<rparr>)
      else (False, c\<lparr>nc_dropped := Suc (nc_dropped c)\<rparr>))"

definition Emit :: "(time \<Rightarrow> string) \<Rightarrow> time \<Rightarrow> string \<Rightarrow> Severity \<Rightarrow> attributes \<Rightarrow> notify_Client \<Rightarrow> bool \<times> notify_Client" where
  "Emit format now eventName severity attrs c =
     Submit \<lparr>ev_Event = eventName, ev_OccurredAt = format now, ev_Instance = nc_sourceInstance c, ev_Attributes = attrs\<rparr> c"

definition client_Close :: "notify_Client \<Rightarrow> notify_Client" where
  "client_Close c = c\<lparr>nc_closed := True\<rparr>"

text \<open>
  One attempt: the status of the response, or none when the transport failed. The waits
  between attempts end with the timer (\<open>True\<close>) or with the deadline of the delivery.
\<close>

datatype send_result = SendSucceeded nat | SendFailed nat

fun send_attempts :: "nat \<Rightarrow> nat \<Rightarrow> (nat \<Rightarrow> int option) \<Rightarrow> (nat \<Rightarrow> bool) \<Rightarrow> send_result" where
  "send_attempts 0 attempt respond wait = SendFailed (attempt - 1)"
| "send_attempts (Suc n) attempt respond wait =
     (case respond attempt of
        Some status \<Rightarrow>
          if 200 \<le> status \<and> status < 300 then SendSucceeded attempt
          else if status < 500 then SendFailed attempt
          else if attempt < maxAttempts \<and> \<not> wait attempt then SendFailed attempt
          else send_attempts n (attempt + 1) respond wait
      | None \<Rightarrow>
          if attempt < maxAttempts \<and> \<not> wait attempt then SendFailed attempt
          else send_attempts n (attempt + 1) respond wait)"

definition send_event :: "bool \<Rightarrow> bool \<Rightarrow> (nat \<Rightarrow> int option) \<Rightarrow> (nat \<Rightarrow> bool) \<Rightarrow> notify_Client \<Rightarrow> notify_Client" where
  "send_event marshals requestBuilds respond wait c =
     (if \<not> marshals then c\<lparr>nc_unencoded := Suc (nc_unencoded c)\<rparr>
      else if \<not> requestBuilds then c\<lparr>nc_failed := Suc (nc_failed c)\<rparr>
      else case send_attempts maxAttempts 1 respond wait of
             SendSucceeded _ \<Rightarrow> c\<lparr>nc_succeeded := Suc (nc_succeeded c)\<rparr>
           | SendFailed _ \<Rightarrow> c\<lparr>nc_failed := Suc (nc_failed c)\<rparr>)"

text \<open>The worker: it takes an event, and it sends the one it has taken; it ends when the closed queue is empty.\<close>

definition worker_take :: "notify_Client \<Rightarrow> notify_Client" where
  "worker_take c =
     (if nc_workerDone c \<or> nc_sending c \<noteq> None then c
      else case nc_queue c of
             [] \<Rightarrow> if nc_closed c then c\<lparr>nc_workerDone := True\<rparr> else c
           | ev # rest \<Rightarrow> c\<lparr>nc_queue := rest, nc_sending := Some ev\<rparr>)"

definition worker_send :: "bool \<Rightarrow> bool \<Rightarrow> (nat \<Rightarrow> int option) \<Rightarrow> (nat \<Rightarrow> bool) \<Rightarrow> notify_Client \<Rightarrow> notify_Client" where
  "worker_send marshals requestBuilds respond wait c =
     (case nc_sending c of None \<Rightarrow> c | Some _ \<Rightarrow> send_event marshals requestBuilds respond wait (c\<lparr>nc_sending := None\<rparr>))"

datatype client_op =
    ClSubmit Event
  | ClClose
  | ClTake
  | ClSend bool bool "nat \<Rightarrow> int option" "nat \<Rightarrow> bool"

fun client_step :: "notify_Client \<Rightarrow> client_op \<Rightarrow> notify_Client" where
  "client_step c (ClSubmit e) = snd (Submit e c)"
| "client_step c ClClose = client_Close c"
| "client_step c ClTake = worker_take c"
| "client_step c (ClSend m b respond wait) = worker_send m b respond wait c"

definition client_inv :: "notify_Client \<Rightarrow> bool" where
  "client_inv c \<longleftrightarrow>
     nc_accepted c = nc_succeeded c + nc_failed c + nc_unencoded c + length (nc_queue c) + (if nc_sending c = None then 0 else 1) \<and>
     int (length (nc_queue c)) \<le> nc_queueCap c \<and> 0 < nc_queueCap c \<and>
     (\<not> nc_workerDone c \<or> nc_closed c \<and> nc_queue c = [] \<and> nc_sending c = None)"

interpretation client_events: event_system client_step client_inv
proof
  fix c e assume "client_inv c"
  then show "client_inv (client_step c e)"
    by (cases e) (auto simp: client_inv_def Submit_def client_Close_def worker_take_def worker_send_def send_event_def
        split: option.splits list.splits send_result.splits)
qed

text \<open>A delivery takes at most the allowed attempts, and it succeeds only by a response that says so.\<close>

lemma send_attempts_cases:
  "send_attempts (Suc n) k respond wait = SendFailed k \<or> send_attempts (Suc n) k respond wait = send_attempts n (k + 1) respond wait \<or>
   (send_attempts (Suc n) k respond wait = SendSucceeded k \<and> (\<exists>st. respond k = Some st \<and> 200 \<le> st \<and> st < 300))"
  by (cases "respond k") simp_all

lemma send_succeeded:
  "send_attempts n k respond wait = SendSucceeded a \<Longrightarrow> k \<le> a \<and> a < k + n \<and> (\<exists>st. respond a = Some st \<and> 200 \<le> st \<and> st < 300)"
proof (induction n arbitrary: k)
  case (Suc n)
  show ?case using send_attempts_cases [of n k respond wait] Suc.prems Suc.IH [of "k + 1"] by (auto simp del: send_attempts.simps)
qed simp

lemma send_failed: "send_attempts n k respond wait = SendFailed a \<Longrightarrow> 1 \<le> k \<Longrightarrow> a < k + n"
proof (induction n arbitrary: k)
  case (Suc n)
  show ?case using send_attempts_cases [of n k respond wait] Suc.prems Suc.IH [of "k + 1"] by (auto simp del: send_attempts.simps)
qed auto

text \<open>
  Alerts that were accepted for delivery are accounted for: at every moment each of them
  was delivered, has failed, could not be encoded, waits in the queue or is being sent; the
  queue stays within its capacity; and once the worker has ended nothing waits.
\<close>

lemma webhook_events_accounted:
  assumes "NewClient urlParse cfg = Inr c0" and "c = foldl client_step c0 ops"
  shows "nc_accepted c = nc_succeeded c + nc_failed c + nc_unencoded c + length (nc_queue c) + (if nc_sending c = None then 0 else 1) \<and>
    int (length (nc_queue c)) \<le> nc_queueCap c \<and>
    (nc_workerDone c \<longrightarrow> nc_accepted c = nc_succeeded c + nc_failed c + nc_unencoded c)"
proof -
  have "client_inv c0" using assms(1) by (auto simp: NewClient_def client_inv_def defaultQueueSize_def split: option.splits if_splits)
  from client_events.run_invar [OF this, of ops] show ?thesis by (auto simp: assms(2) client_inv_def)
qed

definition sample_urlParse :: "string \<Rightarrow> endpoint option" where
  "sample_urlParse s = Some \<lparr>ep_Host = ''hook'', ep_Scheme = ''https'', ep_String = s\<rparr>"

definition sample_client_ops :: "client_op list" where
  "sample_client_ops = (let e = \<lparr>ev_Event = ''upstream.unusable'', ev_OccurredAt = [], ev_Instance = [], ev_Attributes = []\<rparr>
     in [ClSubmit e, ClSubmit e, ClTake, ClSubmit e, ClSend True True (\<lambda>n. if n = 1 then Some 503 else Some 204) (\<lambda>n. True), ClClose, ClTake,
         ClSend True True (\<lambda>n. Some 404) (\<lambda>n. True), ClTake])"

lemma webhook_events_accounted_sample:
  "\<exists>c0 c. NewClient sample_urlParse \<lparr>cf_Endpoint = ''x'', cf_BearerToken = [], cf_SourceInstance = [], cf_QueueSize = 1, cf_Timeout = 0\<rparr> = Inr c0 \<and>
     c = foldl client_step c0 sample_client_ops \<and> nc_accepted c = 2 \<and> nc_succeeded c + nc_failed c + nc_unencoded c = 2"
proof -
  let ?cfg = "\<lparr>cf_Endpoint = ''x'', cf_BearerToken = [], cf_SourceInstance = [], cf_QueueSize = 1, cf_Timeout = 0\<rparr>"
  define c0 where "c0 = projr (NewClient sample_urlParse ?cfg)"
  have c0: "NewClient sample_urlParse ?cfg = Inr c0" by (simp add: c0_def NewClient_def sample_urlParse_def)
  define c where "c = foldl client_step c0 sample_client_ops"
  have "nc_workerDone c" "nc_accepted c = 2" unfolding c_def c0_def by code_simp+
  then show ?thesis using webhook_events_accounted [OF c0 c_def] c0 c_def by auto
qed

end
