(* ===== verification/Fbmeasure.thy ===== *)
theory Fbmeasure
  imports Netip
begin

text \<open>
  The round-trip measurement: its frames (\<open>pkg/fbmeasure/protocol.go\<close>), the client that probes
  an endpoint (\<open>pkg/fbmeasure/client.go\<close>) and the server that echoes
  (\<open>pkg/fbmeasure/server.go\<close>). What the network and the clock give to a probe (the outcome of
  the dial, of every write and read, the readings of the clock, the random bytes) are
  arguments; the system errors are the constructors of \<open>probe_error\<close>. The sockets the server
  listens on are not modelled, what it does with a connection or a packet is.
\<close>

unbundle bit_operations_syntax

section \<open>Frames\<close>

definition frameSize :: nat where "frameSize = 32"
definition frameVersion :: byte where "frameVersion = 1"
definition frameKind :: byte where "frameKind = 1"
definition frameMagic :: "byte list" where "frameMagic = [70, 66, 77, 49]"

datatype frame_error = BadFrameSize | BadFrameMagic | BadFrameVersion | BadFrameKind | ReservedNotZero

text \<open>A frame is its 32 bytes; \<open>entropy\<close> is what \<open>rand.Read\<close> writes after the header, or none when it fails.\<close>

type_synonym frame = "byte list"

definition newProbeFrame :: "uint64 \<Rightarrow> (byte list) option \<Rightarrow> frame option" where
  "newProbeFrame seqno entropy =
     (case entropy of
        None \<Rightarrow> None
      | Some r \<Rightarrow> Some (frameMagic @ [frameVersion, frameKind, 0, 0] @ bytes_of_word 8 seqno @ r))"

definition parseFrame :: "byte list \<Rightarrow> frame_error + frame" where
  "parseFrame bs =
     (if length bs \<noteq> frameSize then Inl BadFrameSize
      else if take 4 bs \<noteq> frameMagic then Inl BadFrameMagic
      else if bs ! 4 \<noteq> frameVersion then Inl BadFrameVersion
      else if bs ! 5 \<noteq> frameKind then Inl BadFrameKind
      else if bs ! 6 \<noteq> 0 \<or> bs ! 7 \<noteq> 0 then Inl ReservedNotZero
      else Inr bs)"

definition frame_sequence :: "frame \<Rightarrow> uint64" where
  "frame_sequence f = word_of_bytes (take 8 (drop 8 f))"

section \<open>The client\<close>

definition defaultTimeout :: duration where "defaultTimeout = 2 * second"
definition minTimeout :: duration where "minTimeout = 100 * millisecond"
definition maxTimeout :: duration where "maxTimeout = 10 * second"
definition sampleCount :: nat where "sampleCount = 3"

datatype Protocol = ProtocolTCP | ProtocolUDP

record Result =
  rs_Protocol :: Protocol
  rs_Reachable :: bool
  rs_RTT :: duration
  rs_ObservedAt :: time

datatype probe_error =
    EmptyAddress
  | TimeoutRange
  | ClientClosed
  | DialFailed
  | EntropyFailed
  | DeadlineFailed
  | WriteFailed
  | ReadFailed
  | FrameRejected frame_error
  | EchoMismatch
  | ContextEnded

record ClientConfig =
  cc_Address :: string
  cc_Timeout :: duration

record Client =
  cl_address :: string
  cl_timeout :: duration
  cl_closed :: bool

definition NewClient :: "ClientConfig \<Rightarrow> probe_error + Client" where
  "NewClient cfg =
     (if cc_Address cfg = [] then Inl EmptyAddress
      else
        let timeout = (if cc_Timeout cfg = 0 then defaultTimeout else cc_Timeout cfg)
        in if timeout < minTimeout \<or> timeout > maxTimeout then Inl TimeoutRange
           else Inr \<lparr>cl_address = cc_Address cfg, cl_timeout = timeout, cl_closed = False\<rparr>)"

definition client_Close :: "Client \<Rightarrow> Client" where
  "client_Close c = c\<lparr>cl_closed := True\<rparr>"

text \<open>What one sample of a TCP probe meets: an echo is the 32 bytes \<open>io.ReadFull\<close> filled, if it did.\<close>

record tcp_sample =
  ts_entropy :: "(byte list) option"
  ts_deadlineSet :: bool
  ts_started :: time
  ts_written :: bool
  ts_echo :: "(byte list) option"
  ts_ended :: time

definition shorter_rtt :: "duration \<Rightarrow> duration \<Rightarrow> duration" where
  "shorter_rtt minRTT rtt = (if minRTT = 0 \<or> rtt < minRTT then rtt else minRTT)"

text \<open>The result of the loop: an error that ends the probe at once, or the least time and the last error.\<close>

fun tcp_loop :: "uint64 \<Rightarrow> duration \<Rightarrow> tcp_sample list \<Rightarrow> probe_error + duration \<times> probe_error option" where
  "tcp_loop seqno minRTT [] = Inr (minRTT, None)"
| "tcp_loop seqno minRTT (x # xs) =
     (case newProbeFrame seqno (ts_entropy x) of
        None \<Rightarrow> Inl EntropyFailed
      | Some probe \<Rightarrow>
          if \<not> ts_deadlineSet x then Inl DeadlineFailed
          else if \<not> ts_written x then Inr (minRTT, Some WriteFailed)
          else case ts_echo x of
                 None \<Rightarrow> Inr (minRTT, Some ReadFailed)
               | Some response \<Rightarrow>
                   (case parseFrame response of
                      Inl e \<Rightarrow> Inr (minRTT, Some (FrameRejected e))
                    | Inr decoded \<Rightarrow>
                        if decoded \<noteq> probe then Inr (minRTT, Some EchoMismatch)
                        else tcp_loop (seqno + 1) (shorter_rtt minRTT (time_sub (ts_ended x) (ts_started x))) xs))"

text \<open>The end of both probes; \<open>ctxErr\<close> says that the context has ended.\<close>

definition finish_probe :: "Protocol \<Rightarrow> time \<Rightarrow> time \<Rightarrow> bool \<Rightarrow> probe_error + duration \<times> probe_error option \<Rightarrow> Result \<times> probe_error option" where
  "finish_probe proto t0 t1 ctxErr r =
     (let result = \<lparr>rs_Protocol = proto, rs_Reachable = False, rs_RTT = 0, rs_ObservedAt = t0\<rparr>
      in case r of
           Inl e \<Rightarrow> (result, Some e)
         | Inr (minRTT, lastErr) \<Rightarrow>
             if minRTT > 0 then (result\<lparr>rs_Reachable := True, rs_RTT := minRTT, rs_ObservedAt := t1\<rparr>, None)
             else (result, if lastErr = None then (if ctxErr then Some ContextEnded else None) else lastErr))"

definition ProbeTCP :: "time \<Rightarrow> time \<Rightarrow> bool \<Rightarrow> bool \<Rightarrow> tcp_sample list \<Rightarrow> Client \<Rightarrow> Result \<times> probe_error option" where
  "ProbeTCP t0 t1 dialed ctxErr samples c =
     finish_probe ProtocolTCP t0 t1 ctxErr
       (if cl_closed c then Inl ClientClosed
        else if \<not> dialed then Inl DialFailed
        else tcp_loop 0 0 (take sampleCount samples))"

text \<open>
  What one sample of a UDP probe meets: the datagrams that arrive, each with the clock after
  it, until a read fails; then whether the context has ended.
\<close>

record udp_sample =
  us_entropy :: "(byte list) option"
  us_started :: time
  us_written :: bool
  us_datagrams :: "(byte list \<times> time) list"
  us_ctxDone :: bool

text \<open>The reads of one sample: the time of the echo, if it came, and the last error.\<close>

fun udp_reads :: "frame \<Rightarrow> time \<Rightarrow> probe_error option \<Rightarrow> (byte list \<times> time) list \<Rightarrow> duration option \<times> probe_error option" where
  "udp_reads probe started lastErr [] = (None, Some ReadFailed)"
| "udp_reads probe started lastErr ((bs, t) # ds) =
     (case parseFrame bs of
        Inl e \<Rightarrow> udp_reads probe started (Some (FrameRejected e)) ds
      | Inr decoded \<Rightarrow>
          if decoded \<noteq> probe then udp_reads probe started (Some EchoMismatch) ds
          else (Some (time_sub t started), lastErr))"

fun udp_loop :: "uint64 \<Rightarrow> duration \<Rightarrow> probe_error option \<Rightarrow> udp_sample list \<Rightarrow> probe_error + duration \<times> probe_error option" where
  "udp_loop seqno minRTT lastErr [] = Inr (minRTT, lastErr)"
| "udp_loop seqno minRTT lastErr (x # xs) =
     (case newProbeFrame seqno (us_entropy x) of
        None \<Rightarrow> Inl EntropyFailed
      | Some probe \<Rightarrow>
          if \<not> us_written x then Inr (minRTT, Some WriteFailed)
          else
            let (rtt, err) = udp_reads probe (us_started x) lastErr (us_datagrams x);
                m = (case rtt of None \<Rightarrow> minRTT | Some d \<Rightarrow> shorter_rtt minRTT d)
            in if us_ctxDone x then Inr (m, err) else udp_loop (seqno + 1) m err xs)"

definition ProbeUDP :: "time \<Rightarrow> time \<Rightarrow> bool \<Rightarrow> bool \<Rightarrow> bool \<Rightarrow> udp_sample list \<Rightarrow> Client \<Rightarrow> Result \<times> probe_error option" where
  "ProbeUDP t0 t1 dialed deadlineSet ctxErr samples c =
     finish_probe ProtocolUDP t0 t1 ctxErr
       (if cl_closed c then Inl ClientClosed
        else if \<not> dialed then Inl DialFailed
        else if \<not> deadlineSet then Inl DeadlineFailed
        else udp_loop 0 0 None (take sampleCount samples))"

text \<open>\<open>writeFull\<close>: each write takes some bytes or fails; \<open>ns\<close> are the counts the writes return.\<close>

datatype write_result = WroteAll | WriteError | ShortWrite

fun writeFull :: "nat option list \<Rightarrow> byte list \<Rightarrow> write_result \<times> byte list" where
  "writeFull ns [] = (WroteAll, [])"
| "writeFull [] (b # bs) = (WriteError, [])"
| "writeFull (None # ns) (b # bs) = (WriteError, [])"
| "writeFull (Some n # ns) (b # bs) =
     (if n = 0 then (ShortWrite, [])
      else let (r, sent) = writeFull ns (drop n (b # bs)) in (r, take n (b # bs) @ sent))"

section \<open>The server\<close>

definition defaultListenAddress :: string where "defaultListenAddress = ''127.0.0.1:9876''"
definition maxTCPConnections :: nat where "maxTCPConnections = 64"
definition maxTCPFrames :: nat where "maxTCPFrames = 3"
definition udpPacketsPerSecond :: int where "udpPacketsPerSecond = 100"

text \<open>\<open>sr_handlers\<close> are the connections whose goroutine runs and holds a slot of \<open>connSem\<close>.\<close>

record Server =
  sr_connSem :: nat
  sr_handlers :: "nat list"
  sr_conns :: "nat list"
  sr_closed :: bool
  sr_serveStarted :: bool
  sr_udpWindowStart :: time
  sr_udpWindowCount :: int

definition NewServer :: Server where
  "NewServer = \<lparr>sr_connSem = 0, sr_handlers = [], sr_conns = [], sr_closed = False, sr_serveStarted = False, sr_udpWindowStart = 0, sr_udpWindowCount = 0\<rparr>"

datatype serve_error = ServeClosed | AlreadyServing

definition server_Serve :: "Server \<Rightarrow> serve_error option \<times> Server" where
  "server_Serve s =
     (if sr_closed s then (Some ServeClosed, s)
      else if sr_serveStarted s then (Some AlreadyServing, s)
      else (None, s\<lparr>sr_serveStarted := True\<rparr>))"

text \<open>\<open>Close\<close> works once; it closes the registered connections, which it returns here.\<close>

definition server_Close :: "Server \<Rightarrow> nat list \<times> Server" where
  "server_Close s = (if sr_closed s then ([], s) else (sr_conns s, s\<lparr>sr_closed := True\<rparr>))"

text \<open>
  An accepted connection takes a slot and is registered, or is closed. Its goroutine gives the
  slot back at its end, and only then, in another critical section, unregisters it: for a
  moment more connections may be registered than are served.
\<close>

definition server_accept :: "nat \<Rightarrow> Server \<Rightarrow> bool \<times> Server" where
  "server_accept conn s =
     (if sr_connSem s < maxTCPConnections
      then (True, s\<lparr>sr_connSem := Suc (sr_connSem s), sr_handlers := conn # sr_handlers s, sr_conns := conn # sr_conns s\<rparr>)
      else (False, s))"

definition server_release :: "nat \<Rightarrow> Server \<Rightarrow> Server" where
  "server_release conn s =
     (if conn \<in> set (sr_handlers s) then s\<lparr>sr_connSem := sr_connSem s - 1, sr_handlers := remove1 conn (sr_handlers s)\<rparr> else s)"

definition server_unregister :: "nat \<Rightarrow> Server \<Rightarrow> Server" where
  "server_unregister conn s =
     (if conn \<in> set (sr_handlers s) then s else s\<lparr>sr_conns := remove1 conn (sr_conns s)\<rparr>)"

text \<open>
  The frames a connection echoes: \<open>reads\<close> are the blocks \<open>io.ReadFull\<close> filled before the first
  error, and \<open>live\<close> and \<open>writes\<close> say for each round whether the context lives and the write
  succeeds.
\<close>

fun handle_frames :: "nat \<Rightarrow> (nat \<Rightarrow> bool) \<Rightarrow> (nat \<Rightarrow> bool) \<Rightarrow> (byte list) list \<Rightarrow> frame list" where
  "handle_frames 0 live writes reads = []"
| "handle_frames (Suc n) live writes [] = []"
| "handle_frames (Suc n) live writes (r # rs) =
     (if \<not> live n then []
      else case parseFrame r of
             Inl _ \<Rightarrow> []
           | Inr decoded \<Rightarrow> if \<not> writes n then [] else decoded # handle_frames n live writes rs)"

definition handleTCP :: "(nat \<Rightarrow> bool) \<Rightarrow> (nat \<Rightarrow> bool) \<Rightarrow> (byte list) list \<Rightarrow> frame list" where
  "handleTCP live writes reads = handle_frames maxTCPFrames live writes reads"

definition allowUDPPacket :: "time \<Rightarrow> Server \<Rightarrow> bool \<times> Server" where
  "allowUDPPacket now s =
     (let s1 = (if is_zero_time (sr_udpWindowStart s) \<or> time_sub now (sr_udpWindowStart s) \<ge> second
                then s\<lparr>sr_udpWindowStart := now, sr_udpWindowCount := 0\<rparr> else s)
      in if sr_udpWindowCount s1 \<ge> udpPacketsPerSecond then (False, s1)
         else (True, s1\<lparr>sr_udpWindowCount := sr_udpWindowCount s1 + 1\<rparr>))"

text \<open>One packet: the buffer holds one byte more than a frame, so a longer packet is cut and refused.\<close>

definition udp_packet :: "time \<Rightarrow> byte list \<Rightarrow> Server \<Rightarrow> frame option \<times> Server" where
  "udp_packet now bs s =
     (case parseFrame (take (frameSize + 1) bs) of
        Inl _ \<Rightarrow> (None, s)
      | Inr decoded \<Rightarrow> (case allowUDPPacket now s of (ok, s') \<Rightarrow> (if ok then Some decoded else None, s')))"

section \<open>Frames go round\<close>

lemma length_bytes_of_word [simp]: "length (bytes_of_word n w) = n"
  by (simp add: bytes_of_word_def)

lemma word_of_bytes_append1: "word_of_bytes (bs @ [b]) = push_bit 8 (word_of_bytes bs) OR ucast b"
  by (simp add: word_of_bytes_def)

lemma bytes_of_word_Suc: "bytes_of_word (Suc n) w = bytes_of_word n (drop_bit 8 w) @ [ucast w]"
proof -
  have "rev [0..<Suc n] = map Suc (rev [0..<n]) @ [0]" by (simp add: rev_map [symmetric] map_Suc_upt upt_conv_Cons del: upt_Suc)
  then show ?thesis by (simp add: bytes_of_word_def comp_def algebra_simps del: upt_Suc)
qed

lemma word_of_bytes_of_word:
  fixes w :: "'a::len word"
  shows "word_of_bytes (bytes_of_word n w) = take_bit (8 * n) w"
proof (induction n arbitrary: w)
  case (Suc n)
  have "push_bit 8 (take_bit (8 * n) (drop_bit 8 w)) OR ucast (ucast w :: byte) = take_bit (8 * Suc n) w"
    by (rule bit_eqI) (auto simp: bit_simps)
  then show ?case by (simp add: bytes_of_word_Suc word_of_bytes_append1 Suc)
qed (simp add: bytes_of_word_def word_of_bytes_def)

lemma parseFrame_exact: "parseFrame bs = Inr f \<Longrightarrow> f = bs \<and> length bs = frameSize"
  by (auto simp: parseFrame_def split: if_splits)

lemma probe_frame_parses:
  assumes "newProbeFrame n (Some r) = Some f" and "length r = 16"
  shows "parseFrame f = Inr f" and "frame_sequence f = n"
proof -
  have f: "f = [70, 66, 77, 49, 1, 1, 0, 0] @ bytes_of_word 8 n @ r"
    using assms(1) by (simp add: newProbeFrame_def frameMagic_def frameVersion_def frameKind_def)
  show "parseFrame f = Inr f"
    using assms(2) by (simp add: parseFrame_def f frameSize_def frameMagic_def frameVersion_def frameKind_def)
  have "take 8 (drop 8 f) = bytes_of_word 8 n" by (simp add: f)
  moreover have "take_bit 64 n = n" using take_bit_length_eq [of n] by simp
  ultimately show "frame_sequence f = n" by (simp add: frame_sequence_def word_of_bytes_of_word)
qed


section \<open>What a probe reports\<close>

text \<open>The times of the echoes a TCP probe gets before its first failure.\<close>

fun echo_times :: "uint64 \<Rightarrow> tcp_sample list \<Rightarrow> duration list" where
  "echo_times n [] = []"
| "echo_times n (x # xs) =
     (case newProbeFrame n (ts_entropy x) of
        None \<Rightarrow> []
      | Some probe \<Rightarrow>
          if ts_written x \<and> ts_echo x = Some probe then time_sub (ts_ended x) (ts_started x) # echo_times (n + 1) xs else [])"

definition sample_ready :: "tcp_sample \<Rightarrow> bool" where
  "sample_ready x \<longleftrightarrow> ts_deadlineSet x \<and> (case ts_entropy x of None \<Rightarrow> False | Some r \<Rightarrow> length r = 16)"

lemma tcp_loop_echoes:
  assumes "list_all sample_ready xs"
  shows "\<exists>err. tcp_loop n m xs = Inr (foldl shorter_rtt m (echo_times n xs), err) \<and> (err = None \<longleftrightarrow> length (echo_times n xs) = length xs)"
  using assms
proof (induction n m xs rule: tcp_loop.induct)
  case (2 n m x xs)
  obtain r f where r: "ts_entropy x = Some r" "length r = 16" "newProbeFrame n (ts_entropy x) = Some f" "ts_deadlineSet x"
    using "2.prems" by (auto simp: sample_ready_def newProbeFrame_def split: option.splits)
  have p: "parseFrame f = Inr f" using probe_frame_parses(1) [of n r f] r by simp
  show ?case
  proof (cases "ts_written x \<and> ts_echo x = Some f")
    case True
    then have "\<exists>err. tcp_loop (n + 1) (shorter_rtt m (time_sub (ts_ended x) (ts_started x))) xs =
        Inr (foldl shorter_rtt (shorter_rtt m (time_sub (ts_ended x) (ts_started x))) (echo_times (n + 1) xs), err) \<and>
        (err = None \<longleftrightarrow> length (echo_times (n + 1) xs) = length xs)"
      using "2.IH" [OF r(3)] r p "2.prems" by auto
    then show ?thesis using True r p by simp
  next
    case False
    then show ?thesis using r by (auto split: option.split sum.split dest: parseFrame_exact)
  qed
qed simp

lemma shorter_rtt_min: "0 < m \<Longrightarrow> list_all (\<lambda>d. 0 < d) ds \<Longrightarrow> foldl shorter_rtt m ds = Min (insert m (set ds))"
proof (induction ds arbitrary: m)
  case (Cons d ds)
  have "shorter_rtt m d = min m d" using Cons.prems by (simp add: shorter_rtt_def min_def)
  then have "foldl shorter_rtt (shorter_rtt m d) ds = Min (insert (min m d) (set ds))"
    using Cons.IH [of "min m d"] Cons.prems by simp
  also have "\<dots> = Min (insert m (insert d (set ds)))" by (cases "ds = []") (simp_all add: min.assoc)
  finally show ?case by simp
qed simp

lemma least_rtt:
  assumes "list_all (\<lambda>d. 0 < d) ds"
  shows "foldl shorter_rtt 0 ds = (if ds = [] then 0 else Min (set ds))"
proof (cases ds)
  case (Cons d ds')
  then show ?thesis using assms shorter_rtt_min [of d ds'] by (simp add: shorter_rtt_def)
qed simp

text \<open>
  A TCP probe reports what it saw. On a connection, with times that are not zero, it
  reports the endpoint reachable exactly when the first frame came back unchanged, with the
  least of the times of the frames that came back before the first failure; otherwise it
  returns an error.
\<close>

lemma tcp_probe_reports_echoes:
  assumes "\<not> cl_closed c" and "list_all sample_ready samples" and "length samples = sampleCount"
    and "list_all (\<lambda>d. 0 < d) (echo_times 0 samples)"
  shows "case ProbeTCP t0 t1 True ctxErr samples c of (result, err) \<Rightarrow>
     (rs_Reachable result \<longleftrightarrow> echo_times 0 samples \<noteq> []) \<and>
     (rs_Reachable result \<longrightarrow> rs_RTT result = Min (set (echo_times 0 samples)) \<and> rs_ObservedAt result = t1 \<and> err = None) \<and>
     (\<not> rs_Reachable result \<longrightarrow> rs_RTT result = 0 \<and> err \<noteq> None)"
proof -
  obtain err where loop: "tcp_loop 0 0 samples = Inr (foldl shorter_rtt 0 (echo_times 0 samples), err)"
      "err = None \<longleftrightarrow> length (echo_times 0 samples) = length samples"
    using tcp_loop_echoes [OF assms(2), of 0 0] by blast
  have "0 < foldl shorter_rtt 0 (echo_times 0 samples) \<longleftrightarrow> echo_times 0 samples \<noteq> []"
    using least_rtt [OF assms(4)] assms(4) by (simp add: list_all_iff)
  then show ?thesis
    using loop assms(1,3) least_rtt [OF assms(4)] by (auto simp: ProbeTCP_def finish_probe_def Let_def sampleCount_def)
qed

section \<open>Against the server\<close>

text \<open>The frames a probe sends.\<close>

fun probe_frames :: "uint64 \<Rightarrow> (byte list) list \<Rightarrow> frame list" where
  "probe_frames n [] = []"
| "probe_frames n (r # rs) = the (newProbeFrame n (Some r)) # probe_frames (n + 1) rs"

definition answered_sample :: "byte list \<Rightarrow> time \<times> time \<Rightarrow> frame \<Rightarrow> tcp_sample" where
  "answered_sample r t echo = \<lparr>ts_entropy = Some r, ts_deadlineSet = True, ts_started = fst t, ts_written = True, ts_echo = Some echo, ts_ended = snd t\<rparr>"

lemma echo_times_answered:
  "length ts = length rs \<Longrightarrow>
   echo_times n (map (\<lambda>(r, t, e). answered_sample r t e) (zip rs (zip ts (probe_frames n rs)))) = map (\<lambda>t. time_sub (snd t) (fst t)) ts"
proof (induction n rs arbitrary: ts rule: probe_frames.induct)
  case (2 n r rs)
  then obtain t ts' where "ts = t # ts'" "length ts' = length rs" by (cases ts) auto
  then show ?case using "2.IH" [of ts'] by (simp add: answered_sample_def newProbeFrame_def)
qed simp

lemma handle_frames_echo:
  "list_all (\<lambda>f. parseFrame f = Inr f) fs \<Longrightarrow> length fs \<le> k \<Longrightarrow> handle_frames k (\<lambda>_. True) (\<lambda>_. True) fs = fs"
  by (induction k "\<lambda>_ :: nat. True" "\<lambda>_ :: nat. True" fs rule: handle_frames.induct) auto

lemma probe_frames_parse: "list_all (\<lambda>r. length r = 16) rs \<Longrightarrow> list_all (\<lambda>f. parseFrame f = Inr f) (probe_frames n rs)"
proof (induction n rs rule: probe_frames.induct)
  case (2 n r rs)
  have "newProbeFrame n (Some r) = Some (the (newProbeFrame n (Some r)))" by (simp add: newProbeFrame_def)
  from probe_frame_parses(1) [OF this] 2 show ?case by simp
qed simp

lemma length_probe_frames [simp]: "length (probe_frames n rs) = length rs"
  by (induction n rs rule: probe_frames.induct) auto

lemma server_probe:
  assumes "\<not> cl_closed c" and "length rs = sampleCount" and "list_all (\<lambda>r. length r = 16) rs"
    and "length ts = sampleCount" and "list_all (\<lambda>t. 0 < time_sub (snd t) (fst t)) ts"
  shows "handleTCP (\<lambda>_. True) (\<lambda>_. True) (probe_frames 0 rs) = probe_frames 0 rs \<and>
    ProbeTCP t0 t1 True ctxErr
      (map (\<lambda>(r, t, e). answered_sample r t e) (zip rs (zip ts (handleTCP (\<lambda>_. True) (\<lambda>_. True) (probe_frames 0 rs))))) c =
    (\<lparr>rs_Protocol = ProtocolTCP, rs_Reachable = True, rs_RTT = Min ((\<lambda>t. time_sub (snd t) (fst t)) ` set ts), rs_ObservedAt = t1\<rparr>, None)"
proof -
  let ?fs = "probe_frames 0 rs"
  let ?xs = "map (\<lambda>(r, t, e). answered_sample r t e) (zip rs (zip ts ?fs))"
  have h: "handleTCP (\<lambda>_. True) (\<lambda>_. True) ?fs = ?fs"
    unfolding handleTCP_def using handle_frames_echo [OF probe_frames_parse [OF assms(3)], of 0 maxTCPFrames] assms(2)
    by (simp add: maxTCPFrames_def sampleCount_def)
  have e: "echo_times 0 ?xs = map (\<lambda>t. time_sub (snd t) (fst t)) ts" using echo_times_answered [of ts rs 0] assms(2,4) by simp
  have ready: "list_all sample_ready ?xs"
    using assms(3) by (auto simp: list_all_iff sample_ready_def answered_sample_def dest!: set_zip_leftD)
  obtain err where loop: "tcp_loop 0 0 ?xs = Inr (foldl shorter_rtt 0 (echo_times 0 ?xs), err)"
    using tcp_loop_echoes [OF ready, of 0 0] by blast
  have pos: "list_all (\<lambda>d. 0 < d) (echo_times 0 ?xs)" using assms(5) by (simp add: e list_all_iff)
  have ne: "ts \<noteq> []" using assms(4) by (auto simp: sampleCount_def)
  have min: "foldl shorter_rtt 0 (echo_times 0 ?xs) = Min ((\<lambda>t. time_sub (snd t) (fst t)) ` set ts)"
    using least_rtt [OF pos] ne by (simp add: e)
  have "0 < Min ((\<lambda>t. time_sub (snd t) (fst t)) ` set ts)" using assms(5) ne by (simp add: list_all_iff)
  moreover have "take sampleCount ?xs = ?xs" using assms(2) by simp
  ultimately have "ProbeTCP t0 t1 True ctxErr ?xs c =
      (\<lparr>rs_Protocol = ProtocolTCP, rs_Reachable = True, rs_RTT = Min ((\<lambda>t. time_sub (snd t) (fst t)) ` set ts), rs_ObservedAt = t1\<rparr>, None)"
    using assms(1) loop min by (simp add: ProbeTCP_def finish_probe_def Let_def)
  then show ?thesis unfolding h by simp
qed

text \<open>
  A probe of a live server finds it. The server's handler sends the three frames of a
  probe back unchanged, within its limit of frames; and the probe that gets them back reports
  the endpoint reachable with the least of the three times.
\<close>

lemma probe_of_server_reaches:
  assumes "\<not> cl_closed c" and "length rs = sampleCount" and "list_all (\<lambda>r. length r = 16) rs"
    and "length ts = sampleCount" and "list_all (\<lambda>t. 0 < time_sub (snd t) (fst t)) ts"
  shows "handleTCP (\<lambda>_. True) (\<lambda>_. True) (probe_frames 0 rs) = probe_frames 0 rs \<and>
    ProbeTCP t0 t1 True ctxErr
      (map (\<lambda>(r, t, e). answered_sample r t e) (zip rs (zip ts (handleTCP (\<lambda>_. True) (\<lambda>_. True) (probe_frames 0 rs))))) c =
    (\<lparr>rs_Protocol = ProtocolTCP, rs_Reachable = True, rs_RTT = Min ((\<lambda>t. time_sub (snd t) (fst t)) ` set ts), rs_ObservedAt = t1\<rparr>, None)"
  using assms by (rule server_probe)

section \<open>Limits of the server\<close>

datatype server_op =
    SrServe
  | SrAccept nat
  | SrRelease nat
  | SrUnregister nat
  | SrPacket time "byte list"
  | SrClose

fun server_step :: "Server \<Rightarrow> server_op \<Rightarrow> Server" where
  "server_step s SrServe = snd (server_Serve s)"
| "server_step s (SrAccept conn) = (if conn \<in> set (sr_conns s) then s else snd (server_accept conn s))"
| "server_step s (SrRelease conn) = server_release conn s"
| "server_step s (SrUnregister conn) = server_unregister conn s"
| "server_step s (SrPacket now bs) = snd (udp_packet now bs s)"
| "server_step s SrClose = snd (server_Close s)"

definition server_inv :: "Server \<Rightarrow> bool" where
  "server_inv s \<longleftrightarrow> distinct (sr_handlers s) \<and> distinct (sr_conns s) \<and> set (sr_handlers s) \<subseteq> set (sr_conns s) \<and>
     sr_connSem s = length (sr_handlers s) \<and> sr_connSem s \<le> maxTCPConnections \<and>
     0 \<le> sr_udpWindowCount s \<and> sr_udpWindowCount s \<le> udpPacketsPerSecond"

interpretation measure_server: event_system server_step server_inv
proof
  fix s e assume "server_inv s"
  then show "server_inv (server_step s e)"
    by (cases e) (auto simp: server_inv_def server_Serve_def server_accept_def server_release_def server_unregister_def server_Close_def
        udp_packet_def allowUDPPacket_def Let_def udpPacketsPerSecond_def length_remove1 in_set_remove1 split: sum.splits)
qed

fun udp_passed :: "Server \<Rightarrow> time list \<Rightarrow> nat" where
  "udp_passed s [] = 0"
| "udp_passed s (t # ts) = (case allowUDPPacket t s of (ok, s') \<Rightarrow> (if ok then 1 else 0) + udp_passed s' ts)"

lemma passed_same_window:
  assumes "sr_udpWindowStart s \<noteq> 0" and "list_all (\<lambda>t. t - sr_udpWindowStart s < second) ts" and "sr_udpWindowCount s \<le> udpPacketsPerSecond"
  shows "int (udp_passed s ts) \<le> udpPacketsPerSecond - sr_udpWindowCount s"
  using assms
proof (induction s ts rule: udp_passed.induct)
  case (2 s t ts)
  then have open_window: "\<not> time_sub t (sr_udpWindowStart s) \<ge> second"
    by (auto simp: time_sub_def max_duration_def min_duration_def)
  show ?case
  proof (cases "sr_udpWindowCount s \<ge> udpPacketsPerSecond")
    case True
    then show ?thesis using 2 open_window by (simp add: allowUDPPacket_def Let_def)
  next
    case False
    then show ?thesis using "2.IH" [of True "s\<lparr>sr_udpWindowCount := sr_udpWindowCount s + 1\<rparr>"] "2.prems" open_window
      by (simp add: allowUDPPacket_def Let_def)
  qed
qed simp

lemma passed_two_windows:
  assumes "0 \<le> sr_udpWindowCount s" and "sr_udpWindowCount s \<le> udpPacketsPerSecond" and "list_all (\<lambda>t. a \<le> t \<and> t < a + second) ts" and "0 < a"
  shows "int (udp_passed s ts) \<le> 2 * udpPacketsPerSecond - sr_udpWindowCount s"
  using assms
proof (induction s ts rule: udp_passed.induct)
  case (2 s t ts)
  show ?case
  proof (cases "is_zero_time (sr_udpWindowStart s) \<or> time_sub t (sr_udpWindowStart s) \<ge> second")
    case True
    define s' where "s' = s\<lparr>sr_udpWindowStart := t, sr_udpWindowCount := 1\<rparr>"
    have step: "allowUDPPacket t s = (True, s')"
      using True by (simp add: s'_def allowUDPPacket_def Let_def udpPacketsPerSecond_def)
    have "t' - t < second" if "t' \<in> set ts" for t'
    proof -
      have "t' < a + second" "a \<le> t" using that "2.prems"(3) by (auto simp: list_all_iff)
      then show ?thesis by simp
    qed
    then have "int (udp_passed s' ts) \<le> udpPacketsPerSecond - 1"
      using passed_same_window [of s' ts] "2.prems"(3,4) by (simp add: s'_def list_all_iff udpPacketsPerSecond_def)
    then show ?thesis using step "2.prems"(1,2) by simp
  next
    case False
    then show ?thesis
    proof (cases "sr_udpWindowCount s \<ge> udpPacketsPerSecond")
      case full: True
      then show ?thesis using False "2.IH" [of False s] "2.prems" by (simp add: allowUDPPacket_def Let_def)
    next
      case room: False
      then show ?thesis using False "2.IH" [of True "s\<lparr>sr_udpWindowCount := sr_udpWindowCount s + 1\<rparr>"] "2.prems"
        by (simp add: allowUDPPacket_def Let_def)
    qed
  qed
qed simp

text \<open>
  The echo server bounds its work: whatever connections come and go and whatever packets
  arrive, it serves at most 64 connections at a time, all of
  them among those that closing it closes, and in any time shorter than a second it
  answers at most two hundred packets.
\<close>

lemma measure_server_limits:
  assumes "s = foldl server_step NewServer ops" and "list_all (\<lambda>t. a \<le> t \<and> t < a + second) ts" and "0 < a"
  shows "length (sr_handlers s) \<le> 64 \<and> set (sr_handlers s) \<subseteq> set (sr_conns s) \<and> udp_passed s ts \<le> 200"
proof -
  have "server_inv NewServer" by (simp add: server_inv_def NewServer_def udpPacketsPerSecond_def)
  from measure_server.run_invar [OF this, of ops] have inv: "server_inv s" by (simp add: assms(1))
  then show ?thesis
    using passed_two_windows [of s a ts] assms(2,3) by (simp add: server_inv_def maxTCPConnections_def udpPacketsPerSecond_def)
qed

section \<open>Samples\<close>

definition sample_probe_client :: Client where
  "sample_probe_client = \<lparr>cl_address = ''192.0.2.1:9876'', cl_timeout = 2000000000, cl_closed = False\<rparr>"

definition sample_entropy :: "byte list" where "sample_entropy = replicate 16 7"

lemma measure_server_limits_sample:
  "length (sr_handlers (foldl server_step NewServer [SrServe, SrAccept 1, SrAccept 2, SrRelease 1, SrPacket 5 []])) \<le> 64 \<and>
   udp_passed (foldl server_step NewServer [SrServe, SrAccept 1, SrAccept 2, SrRelease 1, SrPacket 5 []]) [6, 7, 8] \<le> 200"
proof -
  have "list_all (\<lambda>t. 6 \<le> t \<and> t < 6 + second) [6, 7, 8]" by simp
  from measure_server_limits [OF refl this, of "[SrServe, SrAccept 1, SrAccept 2, SrRelease 1, SrPacket 5 []]"]
  show ?thesis by (simp only: zero_less_numeral simp_thms)
qed

lemma probe_of_server_reaches_sample:
  "ProbeTCP 1 9 True False
      (map (\<lambda>(r, t, e). answered_sample r t e) (zip (replicate 3 sample_entropy) (zip [(10, 15), (20, 23), (30, 34)]
         (handleTCP (\<lambda>_. True) (\<lambda>_. True) (probe_frames 0 (replicate 3 sample_entropy)))))) sample_probe_client =
    (\<lparr>rs_Protocol = ProtocolTCP, rs_Reachable = True, rs_RTT = 3, rs_ObservedAt = 9\<rparr>, None)"
proof -
  have h: "\<not> cl_closed sample_probe_client" "length (replicate 3 sample_entropy) = sampleCount" "list_all (\<lambda>r. length r = 16) (replicate 3 sample_entropy)"
    "length [(10 :: time, 15 :: time), (20, 23), (30, 34)] = sampleCount"
    "list_all (\<lambda>t. 0 < time_sub (snd t) (fst t)) [(10 :: time, 15 :: time), (20, 23), (30, 34)]"
    by (simp_all add: sample_probe_client_def sampleCount_def sample_entropy_def numeral_3_eq_3 time_sub_def max_duration_def min_duration_def)
  have least: "Min ((\<lambda>t. time_sub (snd t) (fst t)) ` set [(10 :: time, 15 :: time), (20, 23), (30, 34)]) = 3"
    by (simp add: time_sub_def max_duration_def min_duration_def)
  show ?thesis using conjunct2 [OF probe_of_server_reaches [OF h, of 1 9 False]] unfolding least .
qed

lemma tcp_probe_reports_echoes_sample:
  "\<exists>err. ProbeTCP 1 9 True False (replicate 3 \<lparr>ts_entropy = Some sample_entropy, ts_deadlineSet = True, ts_started = 3, ts_written = True,
       ts_echo = Some [1], ts_ended = 5\<rparr>) sample_probe_client = (\<lparr>rs_Protocol = ProtocolTCP, rs_Reachable = False, rs_RTT = 0, rs_ObservedAt = 1\<rparr>, Some err)"
proof -
  define xs where "xs = replicate 3 \<lparr>ts_entropy = Some sample_entropy, ts_deadlineSet = True, ts_started = 3, ts_written = True, ts_echo = Some [1 :: byte], ts_ended = 5\<rparr>"
  have e: "echo_times 0 xs = []"
    by (simp add: xs_def numeral_3_eq_3 newProbeFrame_def frameMagic_def)
  have h: "\<not> cl_closed sample_probe_client" "list_all sample_ready xs" "length xs = sampleCount" "list_all (\<lambda>d. 0 < d) (echo_times 0 xs)"
    by (simp_all only: e) (simp_all add: sample_probe_client_def xs_def sampleCount_def sample_ready_def sample_entropy_def list_all_iff)
  show ?thesis
    using tcp_probe_reports_echoes [OF h, of 1 9 False] e
    by (cases "ProbeTCP 1 9 True False xs sample_probe_client") (auto simp: xs_def [symmetric] ProbeTCP_def finish_probe_def Let_def split: sum.splits if_splits)
qed

end
