(* ===== verification/Config.thy ===== *)
theory Config
  imports Routes Firewall AuditPipeline FlowService Notify Fbmeasure
begin

text \<open>
  The configuration (\<open>internal/config/config.go\<close>, \<open>internal/config/topology.go\<close>): its defaults,
  the normalisation of its topology and its validation, which also normalises the texts it
  checks. The YAML decoder, the parser of URLs, the file and the name of the host are
  arguments. An error is the message the code returns; those of the standard library are
  constructors. The decoder of durations is part of the YAML decoder and is not modelled.
\<close>

section \<open>Data\<close>

record ListenerConfig =
  ln_Name :: string
  ln_BindAddr :: string
  ln_BindPort :: int
  ln_Protocol :: string
  ln_Route :: string

record ListenerSpec =
  sp_Name :: string
  sp_Bind :: string
  sp_Protocol :: string
  sp_Route :: string

record ForwardingLimitsConfig =
  lm_MaxTCPConnections :: int
  lm_MaxUDPMappings :: int

record IdleTimeoutConfig =
  it_TCP :: duration
  it_UDP :: duration

record ForwardingConfig =
  fwd_Listeners :: "ListenerConfig list"
  fwd_Limits :: ForwardingLimitsConfig
  fwd_IdleTimeout :: IdleTimeoutConfig

record DestinationConfig =
  ds_Host :: string

record UpstreamMeasurementConfig =
  um_Host :: string
  um_Port :: int

record UpstreamConfig =
  cu_Tag :: string
  cu_Destination :: DestinationConfig
  cu_Measurement :: UpstreamMeasurementConfig
  cu_Priority :: float64

record DNSConfig =
  dns_Servers :: "string list"
  dns_Strategy :: string

record MeasurementIntervalConfig =
  mi_Min :: duration
  mi_Max :: duration

record MeasurementScheduleConfig =
  ms_Interval :: MeasurementIntervalConfig
  ms_UpstreamGap :: duration

record MeasurementProtocolConfig =
  mp_Enabled :: "bool option"

record MeasurementProtocolsConfig =
  mps_TCP :: MeasurementProtocolConfig
  mps_UDP :: MeasurementProtocolConfig

record MeasurementConfig =
  mc_Schedule :: MeasurementScheduleConfig
  mc_ProbeTimeout :: duration
  mc_Protocols :: MeasurementProtocolsConfig

record ControlMetricsConfig =
  cm_Enabled :: "bool option"

record ControlConfig =
  ct_BindAddr :: string
  ct_BindPort :: int
  ct_AuthToken :: string
  ct_Metrics :: ControlMetricsConfig

record NotifyConfig =
  nf_Enabled :: bool
  nf_Endpoint :: string
  nf_BearerToken :: string
  nf_SourceInstance :: string
  nf_Timeout :: duration
  nf_StartupGracePeriod :: duration
  nf_UnusableInterval :: duration
  nf_NotifyInterval :: duration

record LoggingConfig =
  lg_Level :: string
  lg_Format :: string

record GeoIPConfig =
  geo_Enabled :: bool
  geo_ASNDBURL :: string
  geo_ASNDBPath :: string
  geo_CountryDBURL :: string
  geo_CountryDBPath :: string

text \<open>The audit section: what the pipeline reads and what the store and the retention need.\<close>

record IPLogSection = IPLogConfig +
  il_DBPath :: string
  il_Retention :: duration
  il_PruneInterval :: duration

record FlowContextIdentity =
  fi_ID :: string
  fi_Token :: string
  fi_Routes :: "string list"
  fi_Upstreams :: "string list"
  fi_Namespaces :: "string list"

record FlowContextConfig =
  fx_Enabled :: bool
  fx_MaxTTL :: duration
  fx_Identities :: "FlowContextIdentity list"

record Config =
  cfg_Hostname :: string
  cfg_Listeners :: "ListenerSpec list"
  cfg_Routes :: "RouteConfig list"
  cfg_Forwarding :: ForwardingConfig
  cfg_Upstreams :: "UpstreamConfig list"
  cfg_DNS :: DNSConfig
  cfg_Measurement :: MeasurementConfig
  cfg_Health :: HealthConfig
  cfg_Control :: ControlConfig
  cfg_Notify :: NotifyConfig
  cfg_Logging :: LoggingConfig
  cfg_GeoIP :: GeoIPConfig
  cfg_IPLog :: IPLogSection
  cfg_FlowContext :: FlowContextConfig
  cfg_Firewall :: FirewallConfig
  cfg_Warnings :: "string list"
  cfg_topologyMode :: string
  cfg_topologyNormalized :: bool
  cfg_configLoaded :: bool

datatype config_error =
    CfgMessage string
  | CfgReadFailed
  | CfgDecodeFailed
  | CfgRemovedKeys "string list"
  | CfgBind nat
  | CfgHostname

definition bind_ok :: "'e + 'a \<Rightarrow> ('a \<Rightarrow> 'e + 'b) \<Rightarrow> 'e + 'b" where
  "bind_ok r f = (case r of Inl e \<Rightarrow> Inl e | Inr x \<Rightarrow> f x)"

section \<open>Defaults\<close>

definition or_default :: "int \<Rightarrow> int \<Rightarrow> int" where
  "or_default v d = (if v = 0 then d else v)"

definition or_text :: "string \<Rightarrow> string \<Rightarrow> string" where
  "or_text v d = (if v = [] then d else v)"

definition IsEnabled :: "ControlMetricsConfig \<Rightarrow> bool" where
  "IsEnabled m = BoolValue (cm_Enabled m) True"

text \<open>Both defaults are true.\<close>

definition setProtocolDefaults :: "MeasurementProtocolConfig \<Rightarrow> MeasurementProtocolConfig" where
  "setProtocolDefaults p = (if mp_Enabled p = None then p\<lparr>mp_Enabled := Some True\<rparr> else p)"

definition forwarding_defaults :: "ForwardingConfig \<Rightarrow> ForwardingConfig" where
  "forwarding_defaults f =
     f\<lparr>fwd_Limits := (fwd_Limits f)\<lparr>lm_MaxTCPConnections := or_default (lm_MaxTCPConnections (fwd_Limits f)) 50,
                                  lm_MaxUDPMappings := or_default (lm_MaxUDPMappings (fwd_Limits f)) 500\<rparr>,
       fwd_IdleTimeout := (fwd_IdleTimeout f)\<lparr>it_TCP := or_default (it_TCP (fwd_IdleTimeout f)) (60 * second),
                                            it_UDP := or_default (it_UDP (fwd_IdleTimeout f)) (30 * second)\<rparr>\<rparr>"

definition measurement_defaults :: "MeasurementConfig \<Rightarrow> MeasurementConfig" where
  "measurement_defaults m =
     (let s = mc_Schedule m; i = ms_Interval s
      in m\<lparr>mc_Schedule := s\<lparr>ms_Interval := i\<lparr>mi_Min := or_default (mi_Min i) (15 * minute), mi_Max := or_default (mi_Max i) (45 * minute)\<rparr>,
                         ms_UpstreamGap := or_default (ms_UpstreamGap s) (5 * second)\<rparr>,
           mc_ProbeTimeout := or_default (mc_ProbeTimeout m) (2 * second),
           mc_Protocols := (mc_Protocols m)\<lparr>mps_TCP := setProtocolDefaults (mps_TCP (mc_Protocols m)),
                                          mps_UDP := setProtocolDefaults (mps_UDP (mc_Protocols m))\<rparr>\<rparr>)"

definition health_defaults :: "HealthConfig \<Rightarrow> HealthConfig" where
  "health_defaults h =
     h\<lparr>hc_RTTEWMAAlpha := (if hc_RTTEWMAAlpha h = 0 then 1 / 4 else hc_RTTEWMAAlpha h),
       hc_FailureThreshold := or_default (hc_FailureThreshold h) 3,
       hc_RecoveryThreshold := or_default (hc_RecoveryThreshold h) 2,
       hc_StaleThreshold := or_default (hc_StaleThreshold h) (60 * second)\<rparr>"

definition control_defaults :: "ControlConfig \<Rightarrow> ControlConfig" where
  "control_defaults c =
     c\<lparr>ct_BindAddr := or_text (ct_BindAddr c) ''127.0.0.1'', ct_BindPort := or_default (ct_BindPort c) 8080,
       ct_Metrics := (if cm_Enabled (ct_Metrics c) = None then (ct_Metrics c)\<lparr>cm_Enabled := Some True\<rparr> else ct_Metrics c)\<rparr>"

definition notify_defaults :: "NotifyConfig \<Rightarrow> NotifyConfig" where
  "notify_defaults n =
     n\<lparr>nf_StartupGracePeriod := or_default (nf_StartupGracePeriod n) (5 * minute),
       nf_UnusableInterval := or_default (nf_UnusableInterval n) (30 * second),
       nf_NotifyInterval := or_default (nf_NotifyInterval n) (30 * minute)\<rparr>"

definition iplog_defaults :: "IPLogSection \<Rightarrow> IPLogSection" where
  "iplog_defaults l =
     l\<lparr>il_GeoQueueSize := or_default (il_GeoQueueSize l) 4096, il_WriteQueueSize := or_default (il_WriteQueueSize l) 4096,
       il_BatchSize := or_default (il_BatchSize l) 100, il_FlushInterval := or_default (il_FlushInterval l) (5 * second),
       il_PruneInterval := or_default (il_PruneInterval l) hour,
       il_LogRejections := (if il_LogRejections l = None \<and> il_Enabled l then Some True else il_LogRejections l)\<rparr>"

definition upstream_defaults :: "UpstreamConfig \<Rightarrow> UpstreamConfig" where
  "upstream_defaults up =
     up\<lparr>cu_Measurement := (cu_Measurement up)\<lparr>um_Host := or_text (um_Host (cu_Measurement up)) (ds_Host (cu_Destination up)),
                                            um_Port := or_default (um_Port (cu_Measurement up)) 9876\<rparr>\<rparr>"

definition setDefaults :: "Config \<Rightarrow> Config" where
  "setDefaults c =
     c\<lparr>cfg_Forwarding := forwarding_defaults (cfg_Forwarding c),
       cfg_Measurement := measurement_defaults (cfg_Measurement c),
       cfg_Health := health_defaults (cfg_Health c),
       cfg_Control := control_defaults (cfg_Control c),
       cfg_Notify := notify_defaults (cfg_Notify c),
       cfg_Logging := (cfg_Logging c)\<lparr>lg_Level := or_text (lg_Level (cfg_Logging c)) ''info'', lg_Format := or_text (lg_Format (cfg_Logging c)) ''text''\<rparr>,
       cfg_IPLog := iplog_defaults (cfg_IPLog c),
       cfg_FlowContext := (cfg_FlowContext c)\<lparr>fx_MaxTTL := or_default (fx_MaxTTL (cfg_FlowContext c)) (24 * hour)\<rparr>,
       cfg_Firewall := (cfg_Firewall c)\<lparr>fc_Default := or_text (fc_Default (cfg_Firewall c)) ''allow''\<rparr>,
       cfg_Upstreams := map upstream_defaults (cfg_Upstreams c)\<rparr>"

section \<open>Topology\<close>

definition normalizeListenerSpec :: "nat \<Rightarrow> ListenerSpec \<Rightarrow> config_error + ListenerConfig" where
  "normalizeListenerSpec i spec =
     (let name = TrimSpace (sp_Name spec); b = TrimSpace (sp_Bind spec)
      in if name = [] then Inl (CfgMessage (''listeners['' @ nat_text i @ ''].name must not be empty''))
         else if b = [] then Inl (CfgMessage (''listeners['' @ nat_text i @ ''].bind must not be empty''))
         else case SplitHostPort b of
                None \<Rightarrow> Inl (CfgBind i)
              | Some (host, portText) \<Rightarrow>
                  (case Atoi portText of
                     None \<Rightarrow> Inl (CfgMessage (''listeners['' @ nat_text i @ ''].bind port must be numeric''))
                   | Some port \<Rightarrow>
                       Inr \<lparr>ln_Name = name, ln_BindAddr = host, ln_BindPort = port,
                            ln_Protocol = ToLower (TrimSpace (sp_Protocol spec)), ln_Route = TrimSpace (sp_Route spec)\<rparr>))"

fun normalize_specs :: "nat \<Rightarrow> ListenerSpec list \<Rightarrow> config_error + ListenerConfig list" where
  "normalize_specs i [] = Inr []"
| "normalize_specs i (spec # specs) =
     bind_ok (normalizeListenerSpec i spec) (\<lambda>l. bind_ok (normalize_specs (Suc i) specs) (\<lambda>ls. Inr (l # ls)))"

definition listener_spec :: "ListenerConfig \<Rightarrow> ListenerSpec" where
  "listener_spec l =
     \<lparr>sp_Name = ln_Name l, sp_Bind = JoinHostPort (ln_BindAddr l) (Itoa (ln_BindPort l)), sp_Protocol = ln_Protocol l, sp_Route = ln_Route l\<rparr>"

definition host_port_text :: "ListenerConfig \<Rightarrow> string" where
  "host_port_text l = ln_BindAddr l @ '':'' @ Itoa (ln_BindPort l)"

definition legacy_listener :: "ListenerConfig \<Rightarrow> ListenerConfig" where
  "legacy_listener l =
     (let route = TrimSpace (ln_Route l); name = TrimSpace (ln_Name l)
      in l\<lparr>ln_Name := (if name = []
             then ToLower (ln_Protocol l) @ ''-'' @ map (\<lambda>c. if c = CHR '':'' then CHR ''-'' else c) (JoinHostPort (ln_BindAddr l) (Itoa (ln_BindPort l)))
             else name),
           ln_Route := (if route = [] then host_port_text l else route)\<rparr>)"

definition legacy_route :: "string list \<Rightarrow> string \<Rightarrow> RouteConfig" where
  "legacy_route upstreams name =
     \<lparr>rtc_Name = name, rtc_Strategy = (if length upstreams = 1 then ''static'' else ''adaptive''), rtc_Upstreams = upstreams,
      rtc_DefaultUpstream = (if length upstreams = 1 then hd upstreams else [])\<rparr>"

fun legacy_routes :: "string list \<Rightarrow> string list \<Rightarrow> string list \<Rightarrow> RouteConfig list" where
  "legacy_routes upstreams seen [] = []"
| "legacy_routes upstreams seen (r # rs) =
     (if r \<in> set seen then legacy_routes upstreams seen rs else legacy_route upstreams r # legacy_routes upstreams (r # seen) rs)"

definition normalizeTopology :: "Config \<Rightarrow> config_error + Config" where
  "normalizeTopology c =
     (if cfg_topologyNormalized c then Inr c
      else if cfg_topologyMode c = ''modern'' \<or> cfg_Listeners c \<noteq> [] \<or> cfg_Routes c \<noteq> [] then
        if fwd_Listeners (cfg_Forwarding c) \<noteq> [] then Inl (CfgMessage ''top-level listeners cannot be combined with forwarding.listeners'')
        else if cfg_Listeners c = [] \<or> cfg_Routes c = [] then Inl (CfgMessage ''listeners and routes must both be provided'')
        else bind_ok (normalize_specs 0 (cfg_Listeners c)) (\<lambda>ls.
          Inr (c\<lparr>cfg_topologyMode := ''modern'', cfg_Listeners := map listener_spec ls,
                 cfg_Forwarding := (cfg_Forwarding c)\<lparr>fwd_Listeners := ls\<rparr>, cfg_topologyNormalized := True\<rparr>))
      else
        let c1 = (if cfg_topologyMode c = [] then c\<lparr>cfg_topologyMode := ''legacy''\<rparr> else c)
        in if fwd_Listeners (cfg_Forwarding c) = [] then Inr c1
           else
             let ls = map legacy_listener (fwd_Listeners (cfg_Forwarding c))
             in Inr (c1\<lparr>cfg_Forwarding := (cfg_Forwarding c)\<lparr>fwd_Listeners := ls\<rparr>, cfg_Listeners := map listener_spec ls,
                        cfg_Routes := legacy_routes (map (\<lambda>u. TrimSpace (cu_Tag u)) (cfg_Upstreams c)) [] (map ln_Route ls),
                        cfg_Warnings := (if cfg_configLoaded c
                          then cfg_Warnings c @ [''forwarding.listeners is deprecated; use top-level listeners and routes''] else cfg_Warnings c),
                        cfg_topologyNormalized := True\<rparr>))"

section \<open>Validation\<close>

abbreviation (input) cfg_fail :: "string \<Rightarrow> config_error + 'a" where
  "cfg_fail msg \<equiv> Inl (CfgMessage msg)"

definition maxListeners :: nat where "maxListeners = 45"

definition validateAuthTokenField :: "string \<Rightarrow> string \<Rightarrow> config_error + unit" where
  "validateAuthTokenField token field =
     (if EqualFold token ''change-me'' then cfg_fail (field @ '' must not use the default placeholder value'')
      else if length token < 16 then cfg_fail (field @ '' must be at least 16 characters long'')
      else Inr ())"

definition identifier_char :: "char \<Rightarrow> bool" where
  "identifier_char ch \<longleftrightarrow> char_in CHR ''a'' CHR ''z'' ch \<or> char_in CHR ''A'' CHR ''Z'' ch \<or> char_in CHR ''0'' CHR ''9'' ch \<or>
     ch \<in> set ''._:-''"

definition validateNotifyIdentifier :: "string \<Rightarrow> string \<Rightarrow> config_error + unit" where
  "validateNotifyIdentifier value field =
     (let trimmed = TrimSpace value
      in if trimmed = [] then cfg_fail (field @ '' must not be empty'')
         else if length trimmed > 128 then cfg_fail (field @ '' must be at most 128 characters'')
         else if \<not> list_all identifier_char trimmed then cfg_fail (field @ '' contains unsupported characters'')
         else Inr ())"

definition validateGeoDBConfig :: "string \<Rightarrow> string \<Rightarrow> string \<Rightarrow> config_error + unit" where
  "validateGeoDBConfig prefix url path =
     (if TrimSpace url \<noteq> [] then cfg_fail (prefix @ '' remote urls are no longer supported; update the local path externally'') else Inr ())"

definition validate_sizes :: "Config \<Rightarrow> config_error + Config" where
  "validate_sizes c =
     (let n = length (fwd_Listeners (cfg_Forwarding c)); lim = fwd_Limits (cfg_Forwarding c); idle = fwd_IdleTimeout (cfg_Forwarding c)
      in if n = 0 then cfg_fail ''forwarding.listeners must not be empty''
         else if n > maxListeners then cfg_fail (''too many listeners: '' @ nat_text n @ '' (max '' @ nat_text maxListeners @ '')'')
         else if cfg_Upstreams c = [] then cfg_fail ''upstreams must not be empty''
         else if lm_MaxTCPConnections lim \<le> 0 \<or> lm_MaxUDPMappings lim \<le> 0
         then cfg_fail ''forwarding.limits.max_tcp_connections and max_udp_mappings must be > 0''
         else if it_TCP idle \<le> 0 \<or> it_UDP idle \<le> 0 then cfg_fail ''forwarding.idle_timeout.tcp and udp must be > 0''
         else Inr c)"

text \<open>
  The two fractional numbers of a configuration are float64 values, and a YAML file can also
  say \<open>.inf\<close> and \<open>.nan\<close>. The comparisons of the two range checks are those of IEEE 754,
  where every comparison with NaN is false; in the rest of the model the numbers are finite.
\<close>

datatype yaml_float = YFinite float64 | YInf bool | YNaN

fun yf_less :: "yaml_float \<Rightarrow> float64 \<Rightarrow> bool" where
  "yf_less (YFinite x) q \<longleftrightarrow> x < q"
| "yf_less (YInf negative) q \<longleftrightarrow> negative"
| "yf_less YNaN q \<longleftrightarrow> False"

fun yf_le :: "yaml_float \<Rightarrow> float64 \<Rightarrow> bool" where
  "yf_le (YFinite x) q \<longleftrightarrow> x \<le> q"
| "yf_le (YInf negative) q \<longleftrightarrow> negative"
| "yf_le YNaN q \<longleftrightarrow> False"

fun yf_greater :: "yaml_float \<Rightarrow> float64 \<Rightarrow> bool" where
  "yf_greater (YFinite x) q \<longleftrightarrow> x > q"
| "yf_greater (YInf negative) q \<longleftrightarrow> \<not> negative"
| "yf_greater YNaN q \<longleftrightarrow> False"

definition priority_refused :: "yaml_float \<Rightarrow> bool" where
  "priority_refused x \<longleftrightarrow> yf_less x 0"

definition alpha_refused :: "yaml_float \<Rightarrow> bool" where
  "alpha_refused x \<longleftrightarrow> yf_le x 0 \<or> yf_greater x 1"

lemma finite_checks [simp]:
  "priority_refused (YFinite x) \<longleftrightarrow> x < 0" "alpha_refused (YFinite x) \<longleftrightarrow> x \<le> 0 \<or> x > 1"
  by (simp_all add: priority_refused_def alpha_refused_def)

fun validate_upstreams :: "string list \<Rightarrow> UpstreamConfig list \<Rightarrow> config_error + UpstreamConfig list" where
  "validate_upstreams seen [] = Inr []"
| "validate_upstreams seen (up # ups) =
     (let tag = TrimSpace (cu_Tag up); host = TrimSpace (ds_Host (cu_Destination up))
      in if tag = [] then cfg_fail ''upstreams.tag must not be empty''
         else if tag \<in> set seen then cfg_fail (''duplicate upstream tag: '' @ tag)
         else if host = [] then cfg_fail (''upstreams['' @ tag @ ''].destination.host must not be empty'')
         else if um_Port (cu_Measurement up) \<le> 0 \<or> um_Port (cu_Measurement up) > 65535
         then cfg_fail (''upstreams['' @ tag @ ''].measurement.port must be in 1..65535'')
         else if priority_refused (YFinite (cu_Priority up)) then cfg_fail (''upstreams['' @ tag @ ''].priority must be >= 0'')
         else bind_ok (validate_upstreams (tag # seen) ups) (\<lambda>r.
           Inr (up\<lparr>cu_Tag := tag, cu_Destination := (cu_Destination up)\<lparr>ds_Host := host\<rparr>\<rparr> # r)))"

definition listener_key :: "ListenerConfig \<Rightarrow> string" where
  "listener_key l = host_port_text l @ '':'' @ ln_Protocol l"

fun validate_listeners :: "bool \<Rightarrow> nat \<Rightarrow> string list \<Rightarrow> string list \<Rightarrow> ListenerConfig list \<Rightarrow> config_error + ListenerConfig list" where
  "validate_listeners modern i seenNames seen [] = Inr []"
| "validate_listeners modern i seenNames seen (l # ls) =
     (let name = TrimSpace (ln_Name l); route = TrimSpace (ln_Route l)
      in if name = [] \<and> modern then cfg_fail (''forwarding.listeners['' @ nat_text i @ ''].name must not be empty'')
         else if name \<noteq> [] \<and> name \<in> set seenNames then cfg_fail (''duplicate listener name: '' @ name)
         else if route = [] \<and> modern then cfg_fail (''listeners['' @ nat_text i @ ''].route must not be empty'')
         else
           let l' = l\<lparr>ln_Name := name, ln_Route := (if route = [] then host_port_text l else route), ln_Protocol := ToLower (TrimSpace (ln_Protocol l))\<rparr>;
               key = listener_key l'
           in if key \<in> set seen then cfg_fail (''duplicate listener: '' @ key)
              else if ln_BindPort l \<le> 0 \<or> ln_BindPort l > 65535 then cfg_fail (''listener '' @ host_port_text l @ '' bind_port must be in 1..65535'')
              else if ln_Protocol l' \<noteq> ''tcp'' \<and> ln_Protocol l' \<noteq> ''udp'' then cfg_fail (''listener '' @ host_port_text l @ '' protocol must be tcp or udp'')
              else bind_ok (validate_listeners modern (Suc i) (if name = [] then seenNames else name # seenNames) (key # seen) ls) (\<lambda>r. Inr (l' # r)))"

fun validate_route_upstreams :: "string list \<Rightarrow> string \<Rightarrow> string list \<Rightarrow> string list \<Rightarrow> config_error + string list" where
  "validate_route_upstreams known name seen [] = Inr []"
| "validate_route_upstreams known name seen (t # ts) =
     (let tag = TrimSpace t
      in if tag = [] then cfg_fail (''routes['' @ name @ ''].upstreams must not contain empty tags'')
         else if tag \<in> set seen then cfg_fail (''duplicate upstream '' @ tag @ '' in route '' @ name)
         else if tag \<notin> set known then cfg_fail (''routes['' @ name @ ''].upstreams references unknown upstream '' @ tag)
         else bind_ok (validate_route_upstreams known name (tag # seen) ts) (\<lambda>r. Inr (tag # r)))"

definition check_strategy :: "string \<Rightarrow> string \<Rightarrow> RouteConfig \<Rightarrow> config_error + unit" where
  "check_strategy name strategy r =
     (if strategy = ''static''
      then (if rtc_Upstreams r = [] then cfg_fail (''routes['' @ name @ ''].upstreams must contain at least one upstream for static strategy'') else Inr ())
      else if strategy = ''adaptive''
      then (if length (rtc_Upstreams r) < 2 then cfg_fail (''routes['' @ name @ ''].upstreams must contain at least two upstreams for adaptive strategy'')
            else if TrimSpace (rtc_DefaultUpstream r) \<noteq> [] then cfg_fail (''routes['' @ name @ ''].default_upstream is only valid for static strategy'')
            else Inr ())
      else cfg_fail (''routes['' @ name @ ''].strategy must be static or adaptive''))"

definition static_default :: "string \<Rightarrow> string list \<Rightarrow> string \<Rightarrow> config_error + string" where
  "static_default name tags d =
     (let def = TrimSpace d
      in if def = []
         then (if length tags > 1 then cfg_fail (''routes['' @ name @ ''] with multiple static upstreams must explicitly set default_upstream'')
               else Inr (hd tags))
         else if def \<notin> set tags then cfg_fail (''routes['' @ name @ ''].default_upstream '' @ def @ '' is not in route upstreams'')
         else Inr def)"

fun validate_routes :: "string list \<Rightarrow> nat \<Rightarrow> string list \<Rightarrow> RouteConfig list \<Rightarrow> config_error + RouteConfig list" where
  "validate_routes known i seen [] = Inr []"
| "validate_routes known i seen (r # rs) =
     (let name = TrimSpace (rtc_Name r); strategy = ToLower (TrimSpace (rtc_Strategy r))
      in if name = [] then cfg_fail (''routes['' @ nat_text i @ ''].name must not be empty'')
         else if name \<in> set seen then cfg_fail (''duplicate route name: '' @ name)
         else bind_ok (check_strategy name strategy r) (\<lambda>_.
           bind_ok (validate_route_upstreams known name [] (rtc_Upstreams r)) (\<lambda>tags.
           bind_ok (if strategy = ''static'' then static_default name tags (rtc_DefaultUpstream r) else Inr (rtc_DefaultUpstream r)) (\<lambda>def.
           bind_ok (validate_routes known (Suc i) (name # seen) rs) (\<lambda>r'.
             Inr (r\<lparr>rtc_Name := name, rtc_Strategy := strategy, rtc_Upstreams := tags, rtc_DefaultUpstream := def\<rparr> # r'))))))"

fun check_listener_routes :: "string list \<Rightarrow> ListenerConfig list \<Rightarrow> config_error + unit" where
  "check_listener_routes known [] = Inr ()"
| "check_listener_routes known (l # ls) =
     (if ln_Route l \<notin> set known then cfg_fail (''listener '' @ ln_Name l @ '' references unknown route '' @ ln_Route l)
      else check_listener_routes known ls)"

definition validate_topology :: "Config \<Rightarrow> config_error + Config" where
  "validate_topology c =
     bind_ok (validate_upstreams [] (cfg_Upstreams c)) (\<lambda>ups.
     bind_ok (validate_listeners (cfg_topologyMode c = ''modern'') 0 [] [] (fwd_Listeners (cfg_Forwarding c))) (\<lambda>ls.
     bind_ok (validate_routes (map cu_Tag ups) 0 [] (cfg_Routes c)) (\<lambda>rs.
     bind_ok (check_listener_routes (map rtc_Name rs) ls) (\<lambda>_.
       Inr (c\<lparr>cfg_Upstreams := ups, cfg_Forwarding := (cfg_Forwarding c)\<lparr>fwd_Listeners := ls\<rparr>, cfg_Routes := rs\<rparr>)))))"

definition validate_control :: "ControlConfig \<Rightarrow> config_error + ControlConfig" where
  "validate_control c =
     (let token = TrimSpace (ct_AuthToken c)
      in if token = [] then cfg_fail ''control.auth_token must not be empty''
         else bind_ok (validateAuthTokenField token ''control.auth_token'') (\<lambda>_.
           if ct_BindPort c \<le> 0 \<or> ct_BindPort c > 65535 then cfg_fail ''control.bind_port must be in 1..65535''
           else Inr (c\<lparr>ct_AuthToken := token\<rparr>)))"

text \<open>\<open>osHostname\<close> is what \<open>os.Hostname\<close> returns, none when it fails.\<close>

definition source_instance :: "string option \<Rightarrow> string \<Rightarrow> string \<Rightarrow> config_error + string" where
  "source_instance osHostname hostname instance =
     (if instance \<noteq> [] then Inr instance
      else if TrimSpace hostname \<noteq> [] then Inr (TrimSpace hostname)
      else case osHostname of None \<Rightarrow> Inl CfgHostname | Some h \<Rightarrow> Inr (TrimSpace h))"

definition validate_notify ::
    "(string \<Rightarrow> endpoint option) \<Rightarrow> string option \<Rightarrow> string \<Rightarrow> NotifyConfig \<Rightarrow> config_error + NotifyConfig" where
  "validate_notify urlParse osHostname hostname n0 =
     (let n = n0\<lparr>nf_Endpoint := TrimSpace (nf_Endpoint n0), nf_BearerToken := TrimSpace (nf_BearerToken n0), nf_SourceInstance := TrimSpace (nf_SourceInstance n0)\<rparr>
      in if \<not> nf_Enabled n then Inr n
         else if nf_StartupGracePeriod n \<le> 0 then cfg_fail ''webhook startup grace period must be > 0''
         else if nf_UnusableInterval n \<le> 0 then cfg_fail ''webhook unusable interval must be > 0''
         else if nf_NotifyInterval n \<le> 0 then cfg_fail ''webhook notify interval must be > 0''
         else if nf_Endpoint n = [] then cfg_fail ''webhook.endpoint is required when webhook.enabled is true''
         else case urlParse (nf_Endpoint n) of
                None \<Rightarrow> cfg_fail ''webhook.endpoint must be a valid URL''
              | Some u \<Rightarrow>
                  if ep_Host u = [] then cfg_fail ''webhook.endpoint must be a valid URL''
                  else if ep_Scheme u \<noteq> ''http'' \<and> ep_Scheme u \<noteq> ''https'' then cfg_fail ''webhook.endpoint must use http or https''
                  else bind_ok (if nf_BearerToken n \<noteq> [] then validateAuthTokenField (nf_BearerToken n) ''webhook.bearer_token'' else Inr ()) (\<lambda>_.
                    bind_ok (source_instance osHostname hostname (nf_SourceInstance n)) (\<lambda>inst.
                    bind_ok (validateNotifyIdentifier inst ''webhook.source_instance'') (\<lambda>_.
                      Inr (n\<lparr>nf_SourceInstance := inst\<rparr>)))))"

definition validate_logging :: "LoggingConfig \<Rightarrow> config_error + LoggingConfig" where
  "validate_logging l =
     (let level = ToLower (TrimSpace (lg_Level l)); format = ToLower (TrimSpace (lg_Format l))
      in if level \<notin> {''debug'', ''info'', ''warn'', ''error''} then cfg_fail ''logging.level must be debug, info, warn, or error''
         else if format \<notin> {''text'', ''json''} then cfg_fail ''logging.format must be text or json''
         else Inr (l\<lparr>lg_Level := level, lg_Format := format\<rparr>))"

definition validate_measurement :: "MeasurementConfig \<Rightarrow> config_error + unit" where
  "validate_measurement m =
     (let i = ms_Interval (mc_Schedule m)
      in if mi_Min i \<le> 0 then cfg_fail ''measurement.schedule.interval.min must be > 0''
         else if mi_Max i \<le> 0 then cfg_fail ''measurement.schedule.interval.max must be > 0''
         else if mi_Max i < mi_Min i then cfg_fail ''measurement.schedule.interval.max must be >= min''
         else if ms_UpstreamGap (mc_Schedule m) < 0 then cfg_fail ''measurement.schedule.upstream_gap must be >= 0''
         else if \<not> BoolValue (mp_Enabled (mps_TCP (mc_Protocols m))) True \<and> \<not> BoolValue (mp_Enabled (mps_UDP (mc_Protocols m))) True
         then cfg_fail ''measurement requires at least one protocol enabled''
         else if mc_ProbeTimeout m < 100 * millisecond \<or> mc_ProbeTimeout m > 10 * second
         then cfg_fail ''measurement.probe_timeout must be between 100ms and 10s''
         else Inr ())"

definition validate_health :: "HealthConfig \<Rightarrow> config_error + unit" where
  "validate_health h =
     (if alpha_refused (YFinite (hc_RTTEWMAAlpha h)) then cfg_fail ''health.rtt_ewma_alpha must be in (0,1]''
      else if hc_FailureThreshold h \<le> 0 then cfg_fail ''health.failure_threshold must be > 0''
      else if hc_RecoveryThreshold h \<le> 0 then cfg_fail ''health.recovery_threshold must be > 0''
      else if hc_StaleThreshold h \<le> 0 then cfg_fail ''health.stale_threshold must be > 0''
      else Inr ())"

definition validate_dns :: "DNSConfig \<Rightarrow> config_error + DNSConfig" where
  "validate_dns d =
     (let strategy = ToLower (TrimSpace (dns_Strategy d))
      in if strategy \<notin> {[], ''ipv4_only'', ''prefer_ipv6''} then cfg_fail ''dns.strategy must be ipv4_only or prefer_ipv6''
         else Inr (d\<lparr>dns_Strategy := strategy\<rparr>))"

definition validate_geoip :: "GeoIPConfig \<Rightarrow> config_error + GeoIPConfig" where
  "validate_geoip g0 =
     (let g = g0\<lparr>geo_ASNDBURL := TrimSpace (geo_ASNDBURL g0), geo_ASNDBPath := TrimSpace (geo_ASNDBPath g0),
                 geo_CountryDBURL := TrimSpace (geo_CountryDBURL g0), geo_CountryDBPath := TrimSpace (geo_CountryDBPath g0)\<rparr>
      in if \<not> geo_Enabled g then Inr g
         else if geo_ASNDBPath g = [] \<and> geo_CountryDBPath g = [] then cfg_fail ''geoip.enabled requires at least one local database path''
         else bind_ok (validateGeoDBConfig ''geoip.asn_db'' [] (geo_ASNDBPath g)) (\<lambda>_.
           bind_ok (validateGeoDBConfig ''geoip.country_db'' [] (geo_CountryDBPath g)) (\<lambda>_. Inr g)))"

definition validate_iplog :: "IPLogSection \<Rightarrow> config_error + IPLogSection" where
  "validate_iplog l0 =
     (let l = l0\<lparr>il_DBPath := TrimSpace (il_DBPath l0)\<rparr>
      in if \<not> il_Enabled l then Inr l
         else if il_DBPath l = [] then cfg_fail ''ip_log.db_path is required when ip_log.enabled is true''
         else if il_GeoQueueSize l \<le> 0 then cfg_fail ''ip_log.geo_queue_size must be > 0''
         else if il_WriteQueueSize l \<le> 0 then cfg_fail ''ip_log.write_queue_size must be > 0''
         else if il_BatchSize l \<le> 0 then cfg_fail ''ip_log.batch_size must be > 0''
         else if il_FlushInterval l \<le> 0 then cfg_fail ''ip_log.flush_interval must be > 0''
         else if il_Retention l < 0 then cfg_fail ''ip_log.retention must be >= 0''
         else if il_Retention l > 0 \<and> il_PruneInterval l \<le> 0 then cfg_fail ''ip_log.prune_interval must be > 0 when retention is enabled''
         else Inr l)"

fun scope_values :: "string \<Rightarrow> nat \<Rightarrow> nat \<Rightarrow> string list \<Rightarrow> string list \<Rightarrow> config_error + string list" where
  "scope_values field index i seen [] = Inr []"
| "scope_values field index i seen (v # vs) =
     (let value = TrimSpace v
      in if value = [] then cfg_fail (''flow_context.identities['' @ nat_text index @ ''].'' @ field @ ''['' @ nat_text i @ ''] must not be empty'')
         else if value \<in> set seen then cfg_fail (''duplicate flow_context identity '' @ field @ '': '' @ value)
         else bind_ok (scope_values field index (Suc i) (value # seen) vs) (\<lambda>r. Inr (value # r)))"

definition normalizeFlowContextScope :: "string \<Rightarrow> nat \<Rightarrow> string list \<Rightarrow> config_error + string list" where
  "normalizeFlowContextScope field index values =
     (if values = [] then cfg_fail (''flow_context.identities['' @ nat_text index @ ''].'' @ field @ '' must not be empty'')
      else scope_values field index 0 [] values)"

fun validate_identities ::
    "string \<Rightarrow> nat \<Rightarrow> string list \<Rightarrow> string list \<Rightarrow> FlowContextIdentity list \<Rightarrow> config_error + FlowContextIdentity list" where
  "validate_identities authToken i seenIDs seenTokens [] = Inr []"
| "validate_identities authToken i seenIDs seenTokens (d # ds) =
     (let ident = TrimSpace (fi_ID d); token = TrimSpace (fi_Token d); item = ''flow_context.identities['' @ nat_text i @ ''].''
      in if ident = [] then cfg_fail (item @ ''id must not be empty'')
         else if ident \<in> set seenIDs then cfg_fail (''duplicate flow_context identity: '' @ ident)
         else if token = [] then cfg_fail (item @ ''token must not be empty'')
         else bind_ok (validateAuthTokenField token (item @ ''token'')) (\<lambda>_.
           if token = authToken then cfg_fail (item @ ''token must differ from control.auth_token'')
           else if token \<in> set seenTokens then cfg_fail ''duplicate flow_context identity token''
           else bind_ok (normalizeFlowContextScope ''routes'' i (fi_Routes d)) (\<lambda>rs.
             bind_ok (normalizeFlowContextScope ''upstreams'' i (fi_Upstreams d)) (\<lambda>us.
             bind_ok (normalizeFlowContextScope ''namespaces'' i (fi_Namespaces d)) (\<lambda>ns.
             bind_ok (validate_identities authToken (Suc i) (ident # seenIDs) (token # seenTokens) ds) (\<lambda>r.
               Inr (d\<lparr>fi_ID := ident, fi_Token := token, fi_Routes := rs, fi_Upstreams := us, fi_Namespaces := ns\<rparr> # r)))))))"

definition validate_flow_context :: "bool \<Rightarrow> string \<Rightarrow> FlowContextConfig \<Rightarrow> config_error + FlowContextConfig" where
  "validate_flow_context iplogEnabled authToken f =
     (if \<not> fx_Enabled f then Inr f
      else if \<not> iplogEnabled then cfg_fail ''flow_context.enabled requires ip_log.enabled''
      else if fx_Identities f = [] then cfg_fail ''flow_context.identities must not be empty''
      else if fx_MaxTTL f \<le> 0 then cfg_fail ''flow_context.max_ttl must be > 0''
      else bind_ok (validate_identities authToken 0 [] [] (fx_Identities f)) (\<lambda>ds. Inr (f\<lparr>fx_Identities := ds\<rparr>)))"

fun validate_firewall_rules :: "nat \<Rightarrow> FirewallRule list \<Rightarrow> config_error + FirewallRule list" where
  "validate_firewall_rules i [] = Inr []"
| "validate_firewall_rules i (r # rs) =
     (let action = ToLower (TrimSpace (fwr_Action r)); country = ToUpper (TrimSpace (fwr_Country r));
          matcherCount = (if TrimSpace (fwr_CIDR r) \<noteq> [] then 1 else 0) + (if fwr_ASN r \<noteq> 0 then 1 else 0) + (if country \<noteq> [] then 1 else (0 :: nat))
      in if action \<noteq> ''allow'' \<and> action \<noteq> ''deny'' then cfg_fail (''firewall.rules['' @ nat_text i @ ''].action must be allow or deny'')
         else if matcherCount \<noteq> 1 then cfg_fail (''firewall.rules['' @ nat_text i @ ''] must specify exactly one matcher'')
         else bind_ok (validate_firewall_rules (Suc i) rs) (\<lambda>r'.
           Inr (r\<lparr>fwr_Action := action, fwr_Country := country, fwr_CIDR := (if TrimSpace (fwr_CIDR r) \<noteq> [] then TrimSpace (fwr_CIDR r) else fwr_CIDR r)\<rparr> # r')))"

definition firewall_warning :: string where
  "firewall_warning = ''firewall.default/rules are deprecated; use firewall.policy_file''"

definition validate_firewall :: "FirewallConfig \<Rightarrow> config_error + FirewallConfig \<times> string list" where
  "validate_firewall f =
     (let policyFile = TrimSpace (fc_PolicyFile f); def = ToLower (TrimSpace (fc_Default f));
          warnings = (if policyFile = [] \<and> fc_Enabled f then [firewall_warning] else []);
          f' = f\<lparr>fc_PolicyFile := policyFile, fc_Default := def\<rparr>
      in if policyFile \<noteq> [] \<and> fc_Rules f \<noteq> [] then cfg_fail ''firewall.policy_file cannot be combined with legacy firewall.rules''
         else if \<not> fc_Enabled f then Inr (f', warnings)
         else if def \<noteq> ''allow'' \<and> def \<noteq> ''deny'' then cfg_fail ''firewall.default must be allow or deny''
         else bind_ok (validate_firewall_rules 0 (fc_Rules f)) (\<lambda>rs. Inr (f'\<lparr>fc_Rules := rs\<rparr>, warnings)))"

definition validate_sections :: "(string \<Rightarrow> endpoint option) \<Rightarrow> string option \<Rightarrow> Config \<Rightarrow> config_error + Config" where
  "validate_sections urlParse osHostname c =
     bind_ok (validate_control (cfg_Control c)) (\<lambda>ctl.
     bind_ok (validate_notify urlParse osHostname (cfg_Hostname c) (cfg_Notify c)) (\<lambda>nf.
     bind_ok (validate_logging (cfg_Logging c)) (\<lambda>lg.
     bind_ok (validate_measurement (cfg_Measurement c)) (\<lambda>_.
     bind_ok (validate_health (cfg_Health c)) (\<lambda>_.
     bind_ok (validate_dns (cfg_DNS c)) (\<lambda>dns.
     bind_ok (validate_geoip (cfg_GeoIP c)) (\<lambda>geo.
     bind_ok (validate_iplog (cfg_IPLog c)) (\<lambda>il.
     bind_ok (validate_flow_context (il_Enabled il) (ct_AuthToken ctl) (cfg_FlowContext c)) (\<lambda>fx.
     bind_ok (validate_firewall (cfg_Firewall c)) (\<lambda>(fw, warnings).
       Inr (c\<lparr>cfg_Control := ctl, cfg_Notify := nf, cfg_Logging := lg, cfg_DNS := dns, cfg_GeoIP := geo, cfg_IPLog := il,
              cfg_FlowContext := fx, cfg_Firewall := fw, cfg_Warnings := cfg_Warnings c @ warnings\<rparr>)))))))))))"

definition validate :: "(string \<Rightarrow> endpoint option) \<Rightarrow> string option \<Rightarrow> Config \<Rightarrow> config_error + Config" where
  "validate urlParse osHostname c =
     bind_ok (normalizeTopology (c\<lparr>cfg_Warnings := []\<rparr>)) (\<lambda>c1.
     bind_ok (validate_sizes c1) (\<lambda>c2.
     bind_ok (validate_topology c2) (\<lambda>c3. validate_sections urlParse osHostname c3)))"

section \<open>Loading\<close>

text \<open>
  A document as \<open>yaml.Unmarshal\<close> decodes it into an untyped value: mappings, whose keys may be
  no texts, and everything else.
\<close>

datatype yaml_key = KeyText string | KeyOther nat

datatype yaml_node = YamlMap "(yaml_key \<times> yaml_node) list" | YamlLeaf

fun asMap :: "yaml_node \<Rightarrow> (string, yaml_node) gomap option" where
  "asMap (YamlMap entries) = Some (concat (map (\<lambda>(k, v). case k of KeyText t \<Rightarrow> [(t, v)] | KeyOther _ \<Rightarrow> []) entries))"
| "asMap YamlLeaf = None"

fun lookupPath :: "yaml_node \<Rightarrow> string list \<Rightarrow> yaml_node option" where
  "lookupPath node [] = Some node"
| "lookupPath node (seg # path) =
     (case asMap node of
        None \<Rightarrow> None
      | Some m \<Rightarrow> (case gget m seg of None \<Rightarrow> None | Some next \<Rightarrow> lookupPath next path))"

lemma asMap_size: "asMap node = Some m \<Longrightarrow> (k, v) \<in> set m \<Longrightarrow> size v < size node"
proof (cases node)
  case (YamlMap entries)
  moreover assume "asMap node = Some m" "(k, v) \<in> set m"
  ultimately obtain key where "(key, v) \<in> set entries" by (auto split: yaml_key.splits)
  then have "size v < size_list (size_prod (\<lambda>_. 0) size) entries"
    using size_list_estimation [of "(key, v)" entries "size v" "size_prod (\<lambda>_. 0) size"] by simp
  then show ?thesis using YamlMap by simp
qed simp

definition sorted_entries :: "(string, yaml_node) gomap \<Rightarrow> (string, yaml_node) gomap" where
  "sorted_entries m = stable_sort (\<lambda>a b. str_less (fst a) (fst b)) m"

definition dotted :: "string list \<Rightarrow> string" where
  "dotted path = join ''.'' path"

definition collectSpecificRemovedKeys :: "yaml_node \<Rightarrow> string list \<Rightarrow> string list \<Rightarrow> string list" where
  "collectSpecificRemovedKeys doc base keys =
     (case lookupPath doc base of
        None \<Rightarrow> []
      | Some node \<Rightarrow>
          (case asMap node of
             None \<Rightarrow> []
           | Some m \<Rightarrow> map (\<lambda>key. dotted base @ ''.'' @ key) (filter (\<lambda>key. gget m key \<noteq> None) keys)))"

function collectLeafPaths :: "yaml_node \<Rightarrow> string \<Rightarrow> string list" where
  "collectLeafPaths node prefix =
     (case asMap node of
        None \<Rightarrow> [prefix]
      | Some m \<Rightarrow>
          if m = [] then [prefix]
          else concat (map (\<lambda>e. collectLeafPaths (snd e) (prefix @ ''.'' @ fst e)) (sorted_entries m)))"
  by pat_completeness auto
termination
  by (relation "measure (\<lambda>(node, prefix). size node)") (auto simp: sorted_entries_def intro: asMap_size)

definition collectRemovedTree :: "yaml_node \<Rightarrow> string list \<Rightarrow> string list" where
  "collectRemovedTree doc path =
     (case lookupPath doc path of None \<Rightarrow> [] | Some node \<Rightarrow> collectLeafPaths node (dotted path))"

text \<open>\<open>unmarshal\<close> is the document as a mapping, none when it is no mapping with texts as keys.\<close>

definition detectRemovedConfigPaths :: "yaml_node option \<Rightarrow> string list" where
  "detectRemovedConfigPaths unmarshal =
     (case unmarshal of
        None \<Rightarrow> []
      | Some doc \<Rightarrow>
          stable_sort str_less
            (collectRemovedTree doc [''measurement'', ''schedule'', ''headroom''] @
             collectRemovedTree doc [''measurement'', ''protocols'', ''tcp'', ''target_bandwidth''] @
             collectRemovedTree doc [''measurement'', ''protocols'', ''udp'', ''target_bandwidth''] @
             collectSpecificRemovedKeys doc [''measurement'', ''protocols'', ''tcp''] [''alternate'', ''chunk_size'', ''sample_size'', ''sample_count''] @
             collectSpecificRemovedKeys doc [''measurement'', ''protocols'', ''udp''] [''chunk_size'', ''sample_size'', ''sample_count''] @
             collectSpecificRemovedKeys doc [''notify''] [''token_env'']))"

definition hasModernTopology :: "yaml_node option \<Rightarrow> bool" where
  "hasModernTopology unmarshal =
     (case unmarshal of
        None \<Rightarrow> False
      | Some doc \<Rightarrow>
          (case asMap doc of None \<Rightarrow> False | Some m \<Rightarrow> gget m ''listeners'' \<noteq> None \<or> gget m ''routes'' \<noteq> None))"

text \<open>
  The strict decoder of one file: what it makes of the first document, given a configuration
  to fill, and what follows the document.
\<close>

datatype config_rest = NoMoreDocument | MoreDocument | MoreError

definition decodeConfig :: "(Config \<Rightarrow> Config option) \<Rightarrow> config_rest \<Rightarrow> Config \<Rightarrow> config_error + Config" where
  "decodeConfig decode rest cfg =
     (case decode cfg of
        None \<Rightarrow> Inl CfgDecodeFailed
      | Some c \<Rightarrow>
          (case rest of
             NoMoreDocument \<Rightarrow> Inr c
           | MoreDocument \<Rightarrow> cfg_fail ''configuration must contain exactly one YAML document''
           | MoreError \<Rightarrow> Inl CfgDecodeFailed))"

definition zero_config :: Config where
  "zero_config =
     \<lparr>cfg_Hostname = [], cfg_Listeners = [], cfg_Routes = [],
      cfg_Forwarding = \<lparr>fwd_Listeners = [], fwd_Limits = \<lparr>lm_MaxTCPConnections = 0, lm_MaxUDPMappings = 0\<rparr>, fwd_IdleTimeout = \<lparr>it_TCP = 0, it_UDP = 0\<rparr>\<rparr>,
      cfg_Upstreams = [], cfg_DNS = \<lparr>dns_Servers = [], dns_Strategy = []\<rparr>,
      cfg_Measurement = \<lparr>mc_Schedule = \<lparr>ms_Interval = \<lparr>mi_Min = 0, mi_Max = 0\<rparr>, ms_UpstreamGap = 0\<rparr>, mc_ProbeTimeout = 0,
         mc_Protocols = \<lparr>mps_TCP = \<lparr>mp_Enabled = None\<rparr>, mps_UDP = \<lparr>mp_Enabled = None\<rparr>\<rparr>\<rparr>,
      cfg_Health = \<lparr>hc_RTTEWMAAlpha = 0, hc_FailureThreshold = 0, hc_RecoveryThreshold = 0, hc_StaleThreshold = 0\<rparr>,
      cfg_Control = \<lparr>ct_BindAddr = [], ct_BindPort = 0, ct_AuthToken = [], ct_Metrics = \<lparr>cm_Enabled = None\<rparr>\<rparr>,
      cfg_Notify = \<lparr>nf_Enabled = False, nf_Endpoint = [], nf_BearerToken = [], nf_SourceInstance = [], nf_Timeout = 0, nf_StartupGracePeriod = 0,
         nf_UnusableInterval = 0, nf_NotifyInterval = 0\<rparr>,
      cfg_Logging = \<lparr>lg_Level = [], lg_Format = []\<rparr>,
      cfg_GeoIP = \<lparr>geo_Enabled = False, geo_ASNDBURL = [], geo_ASNDBPath = [], geo_CountryDBURL = [], geo_CountryDBPath = []\<rparr>,
      cfg_IPLog = \<lparr>il_Enabled = False, il_LogRejections = None, il_GeoQueueSize = 0, il_WriteQueueSize = 0, il_BatchSize = 0, il_FlushInterval = 0,
         il_DBPath = [], il_Retention = 0, il_PruneInterval = 0\<rparr>,
      cfg_FlowContext = \<lparr>fx_Enabled = False, fx_MaxTTL = 0, fx_Identities = []\<rparr>,
      cfg_Firewall = \<lparr>fc_Enabled = False, fc_Default = [], fc_PolicyFile = [], fc_FailOnInitialLoad = None, fc_Rules = []\<rparr>,
      cfg_Warnings = [], cfg_topologyMode = [], cfg_topologyNormalized = False, cfg_configLoaded = False\<rparr>"

record config_file =
  fl_unmarshal :: "yaml_node option"
  fl_decode :: "Config \<Rightarrow> Config option"
  fl_rest :: config_rest

text \<open>\<open>read\<close> is the file and what the YAML library makes of it, none when it cannot be read.\<close>

definition LoadConfig :: "(string \<Rightarrow> endpoint option) \<Rightarrow> string option \<Rightarrow> config_file option \<Rightarrow> config_error + Config" where
  "LoadConfig urlParse osHostname read =
     (case read of
        None \<Rightarrow> Inl CfgReadFailed
      | Some f \<Rightarrow>
          let removed = detectRemovedConfigPaths (fl_unmarshal f)
          in if removed \<noteq> [] then Inl (CfgRemovedKeys removed)
             else
               bind_ok (decodeConfig (fl_decode f) (fl_rest f)
                          (zero_config\<lparr>cfg_configLoaded := True, cfg_topologyMode := (if hasModernTopology (fl_unmarshal f) then ''modern'' else ''legacy'')\<rparr>))
                 (\<lambda>c. validate urlParse osHostname (setDefaults c)))"

section \<open>Texts that are normalised\<close>

lemma bind_ok_Inr [simp]: "bind_ok r f = Inr y \<longleftrightarrow> (\<exists>x. r = Inr x \<and> f x = Inr y)"
  by (cases r) (auto simp: bind_ok_def)

lemma bind_ok_apply [simp]: "bind_ok (Inr x) f = f x"
  by (simp add: bind_ok_def)

lemma fail_else [simp]: "(if b then Inl e else r) = Inr y \<longleftrightarrow> \<not> b \<and> r = Inr y"
  by simp

lemma ToLower_Nil [simp]: "ToLower [] = []"
  by (simp add: ToLower_def)

lemma is_space_code: "is_space c \<longleftrightarrow> of_char c \<in> {9, 10, 11, 12, 13, 32 :: nat}"
  unfolding is_space_def by (simp add: of_char_eq_iff [where ?'a = nat, symmetric])

lemma is_space_lower [simp]: "is_space (lower_char c) = is_space c"
  by (cases "char_in CHR ''A'' CHR ''Z'' c") (auto simp: is_space_code lower_char_def char_in_def)

lemma is_space_upper [simp]: "is_space (upper_char c) = is_space c"
  by (cases "char_in CHR ''a'' CHR ''z'' c") (auto simp: is_space_code upper_char_def char_in_def)

lemma TrimSpace_ToLower [simp]: "TrimSpace (ToLower s) = ToLower (TrimSpace s)"
  by (simp add: TrimSpace_def ToLower_def dropWhile_map rev_map comp_def)

lemma TrimSpace_ToUpper [simp]: "TrimSpace (ToUpper s) = ToUpper (TrimSpace s)"
  by (simp add: TrimSpace_def ToUpper_def dropWhile_map rev_map comp_def)

lemma tag_ok_TrimSpace [simp]: "TrimSpace s \<noteq> [] \<Longrightarrow> tag_ok (TrimSpace s)"
  by (simp add: tag_ok_def)

section \<open>What the loops guarantee\<close>

definition upstream_wf :: "UpstreamConfig \<Rightarrow> bool" where
  "upstream_wf u \<longleftrightarrow> tag_ok (cu_Tag u) \<and> tag_ok (ds_Host (cu_Destination u)) \<and>
     1 \<le> um_Port (cu_Measurement u) \<and> um_Port (cu_Measurement u) \<le> 65535"

lemma validate_upstreams_ok:
  "validate_upstreams seen ups = Inr ups' \<Longrightarrow>
   list_all upstream_wf ups' \<and> distinct (map cu_Tag ups') \<and> set (map cu_Tag ups') \<inter> set seen = {} \<and>
   map cu_Measurement ups' = map cu_Measurement ups \<and> validate_upstreams seen ups' = Inr ups'"
proof (induction ups arbitrary: seen ups')
  case (Cons up ups)
  from Cons.prems obtain r where r: "validate_upstreams (TrimSpace (cu_Tag up) # seen) ups = Inr r"
      "ups' = up\<lparr>cu_Tag := TrimSpace (cu_Tag up), cu_Destination := (cu_Destination up)\<lparr>ds_Host := TrimSpace (ds_Host (cu_Destination up))\<rparr>\<rparr> # r"
    and c: "TrimSpace (cu_Tag up) \<noteq> []" "TrimSpace (cu_Tag up) \<notin> set seen" "TrimSpace (ds_Host (cu_Destination up)) \<noteq> []"
      "\<not> um_Port (cu_Measurement up) \<le> 0" "\<not> um_Port (cu_Measurement up) > 65535" "\<not> cu_Priority up < 0"
    by (auto simp: Let_def split: if_splits)
  with Cons.IH [OF r(1)] show ?case by (auto simp: upstream_wf_def Let_def)
qed simp

definition listener_wf :: "ListenerConfig \<Rightarrow> bool" where
  "listener_wf l \<longleftrightarrow> 1 \<le> ln_BindPort l \<and> ln_BindPort l \<le> 65535 \<and> ln_Protocol l \<in> {''tcp'', ''udp''} \<and> TrimSpace (ln_Name l) = ln_Name l"

lemma host_port_text_update [simp]:
  "host_port_text (l\<lparr>ln_Name := n\<rparr>) = host_port_text l" "host_port_text (l\<lparr>ln_Route := r\<rparr>) = host_port_text l"
  "host_port_text (l\<lparr>ln_Protocol := p\<rparr>) = host_port_text l"
  by (simp_all add: host_port_text_def)

lemma listener_key_update [simp]:
  "listener_key (l\<lparr>ln_Name := n\<rparr>) = listener_key l" "listener_key (l\<lparr>ln_Route := r\<rparr>) = listener_key l"
  by (simp_all add: listener_key_def)

lemma protocol_text [simp]: "ToLower (TrimSpace ''tcp'') = ''tcp''" "ToLower (TrimSpace ''udp'') = ''udp''"
  by (simp_all add: ToLower_def TrimSpace_def is_space_def lower_char_def char_in_def)

lemma validate_listeners_ok:
  "validate_listeners modern i names seen ls = Inr ls' \<Longrightarrow>
   list_all listener_wf ls' \<and> distinct (map listener_key ls') \<and> set (map listener_key ls') \<inter> set seen = {} \<and>
   distinct (filter (\<lambda>n. n \<noteq> []) (map ln_Name ls')) \<and> set (filter (\<lambda>n. n \<noteq> []) (map ln_Name ls')) \<inter> set names = {} \<and>
   (list_all (\<lambda>l. tag_ok (ln_Route l)) ls' \<longrightarrow> validate_listeners modern i names seen ls' = Inr ls') \<and> length ls' = length ls"
proof (induction ls arbitrary: i names seen ls')
  case (Cons l ls)
  define name where "name = TrimSpace (ln_Name l)"
  define l' where "l' = l\<lparr>ln_Name := name, ln_Route := (if TrimSpace (ln_Route l) = [] then host_port_text l else TrimSpace (ln_Route l)),
    ln_Protocol := ToLower (TrimSpace (ln_Protocol l))\<rparr>"
  from Cons.prems obtain r where r: "validate_listeners modern (Suc i) (if name = [] then names else name # names) (listener_key l' # seen) ls = Inr r"
      "ls' = l' # r"
    and c: "\<not> (name = [] \<and> modern)" "\<not> (name \<noteq> [] \<and> name \<in> set names)" "listener_key l' \<notin> set seen"
      "\<not> ln_BindPort l \<le> 0" "\<not> ln_BindPort l > 65535" "ln_Protocol l' = ''tcp'' \<or> ln_Protocol l' = ''udp''"
    unfolding validate_listeners.simps Let_def name_def [symmetric] l'_def [symmetric] by (auto split: if_splits)
  have fields: "ln_Name l' = name" "TrimSpace name = name" "ln_BindPort l' = ln_BindPort l" "ToLower (TrimSpace (ln_Protocol l')) = ln_Protocol l'"
    by (simp_all add: l'_def name_def)
  have again: "validate_listeners modern i names seen (l' # r) = Inr (l' # r)" if "tag_ok (ln_Route l')" "list_all (\<lambda>l. tag_ok (ln_Route l)) r"
  proof -
    have "l'\<lparr>ln_Name := name, ln_Route := ln_Route l', ln_Protocol := ln_Protocol l'\<rparr> = l'" by (simp add: l'_def)
    with that c fields Cons.IH [OF r(1)] show ?thesis by (simp add: Let_def tag_ok_def)
  qed
  from Cons.IH [OF r(1)] c fields again r(2) show ?case
    by (auto simp: listener_wf_def split: if_splits)
qed simp

lemma validate_route_upstreams_ok:
  "validate_route_upstreams known name seen ts = Inr ts' \<Longrightarrow>
   list_all tag_ok ts' \<and> distinct ts' \<and> set ts' \<inter> set seen = {} \<and> set ts' \<subseteq> set known \<and> length ts' = length ts \<and>
   validate_route_upstreams known name seen ts' = Inr ts'"
proof (induction ts arbitrary: seen ts')
  case (Cons t ts)
  then obtain r where r: "validate_route_upstreams known name (TrimSpace t # seen) ts = Inr r" "ts' = TrimSpace t # r"
    and c: "TrimSpace t \<noteq> []" "TrimSpace t \<notin> set seen" "TrimSpace t \<in> set known"
    by (auto simp: Let_def split: if_splits)
  with Cons.IH [OF r(1)] show ?case by (auto simp: Let_def)
qed simp

lemma check_strategy_ok:
  "check_strategy name strategy r = Inr u \<longleftrightarrow>
   strategy = ''static'' \<and> rtc_Upstreams r \<noteq> [] \<or>
   strategy = ''adaptive'' \<and> 2 \<le> length (rtc_Upstreams r) \<and> TrimSpace (rtc_DefaultUpstream r) = []"
  by (auto simp: check_strategy_def)

lemma static_default_ok:
  assumes "static_default name tags d = Inr d'" and "tags \<noteq> []" and "list_all tag_ok tags"
  shows "d' \<in> set tags \<and> static_default name tags d' = Inr d'"
proof (cases "TrimSpace d = []")
  case True
  then have "d' = hd tags" using assms(1) by (auto simp: static_default_def split: if_splits)
  then have "d' \<in> set tags" using assms(2) by simp
  then show ?thesis using assms(3) by (auto simp: static_default_def tag_ok_def list_all_iff Let_def)
next
  case False
  then show ?thesis using assms(1) by (auto simp: static_default_def Let_def split: if_splits)
qed

definition route_wf :: "string list \<Rightarrow> RouteConfig \<Rightarrow> bool" where
  "route_wf known r \<longleftrightarrow> route_config_ok r \<and> distinct (rtc_Upstreams r) \<and> set (rtc_Upstreams r) \<subseteq> set known \<and>
     (rtc_Strategy r = ''static'' \<or> rtc_Strategy r = ''adaptive'' \<and> 2 \<le> length (rtc_Upstreams r))"

lemma strategy_text [simp]: "ToLower (TrimSpace ''static'') = ''static''" "ToLower (TrimSpace ''adaptive'') = ''adaptive''"
  by (simp_all add: ToLower_def TrimSpace_def is_space_def lower_char_def char_in_def)

lemma validate_routes_ok:
  "validate_routes known i seen rs = Inr rs' \<Longrightarrow>
   list_all (route_wf known) rs' \<and> distinct (map rtc_Name rs') \<and> set (map rtc_Name rs') \<inter> set seen = {} \<and>
   validate_routes known i seen rs' = Inr rs'"
proof (induction rs arbitrary: i seen rs')
  case (Cons r rs)
  define name where "name = TrimSpace (rtc_Name r)"
  define strategy where "strategy = ToLower (TrimSpace (rtc_Strategy r))"
  from Cons.prems obtain tags def r' where
      c: "name \<noteq> []" "name \<notin> set seen" and st: "check_strategy name strategy r = Inr ()"
    and tags: "validate_route_upstreams known name [] (rtc_Upstreams r) = Inr tags"
    and def: "(if strategy = ''static'' then static_default name tags (rtc_DefaultUpstream r) else Inr (rtc_DefaultUpstream r)) = Inr def"
    and rest: "validate_routes known (Suc i) (name # seen) rs = Inr r'"
    and rs': "rs' = r\<lparr>rtc_Name := name, rtc_Strategy := strategy, rtc_Upstreams := tags, rtc_DefaultUpstream := def\<rparr> # r'"
    by (auto simp: Let_def name_def [symmetric] strategy_def [symmetric])
  define q where "q = r\<lparr>rtc_Name := name, rtc_Strategy := strategy, rtc_Upstreams := tags, rtc_DefaultUpstream := def\<rparr>"
  note t = validate_route_upstreams_ok [OF tags]
  have ne: "tags \<noteq> []" using st t by (auto simp: check_strategy_ok)
  have norm: "TrimSpace name = name" "ToLower (TrimSpace strategy) = strategy" by (simp_all add: name_def strategy_def)
  have d: "strategy = ''static'' \<Longrightarrow> def \<in> set tags \<and> static_default name tags def = Inr def"
    using def static_default_ok [of name tags _ def] ne t by (auto split: if_splits)
  have wf: "route_wf known q" using c norm st t ne d by (auto simp: q_def route_wf_def route_config_ok_def tag_ok_def check_strategy_ok)
  have "check_strategy name strategy q = Inr ()" using st t def by (auto simp: q_def check_strategy_ok)
  moreover have "(if strategy = ''static'' then static_default name tags def else Inr def) = Inr def" using d by simp
  moreover have "q\<lparr>rtc_Name := name, rtc_Strategy := strategy, rtc_Upstreams := tags, rtc_DefaultUpstream := def\<rparr> = q" by (simp add: q_def)
  ultimately have "validate_routes known i seen (q # r') = Inr (q # r')"
    using c norm t Cons.IH [OF rest] by (auto simp: Let_def q_def)
  with wf Cons.IH [OF rest] c show ?case unfolding rs' q_def [symmetric] by (auto simp: q_def)
qed simp

lemma check_listener_routes_ok: "check_listener_routes known ls = Inr u \<longleftrightarrow> (\<forall>l \<in> set ls. ln_Route l \<in> set known)"
  by (induction ls) auto

lemma validate_topology_ok:
  assumes "validate_topology c = Inr c'"
  shows "list_all upstream_wf (cfg_Upstreams c')" and "distinct (map cu_Tag (cfg_Upstreams c'))"
    and "list_all listener_wf (fwd_Listeners (cfg_Forwarding c'))" and "distinct (map listener_key (fwd_Listeners (cfg_Forwarding c')))"
    and "list_all (route_wf (map cu_Tag (cfg_Upstreams c'))) (cfg_Routes c')" and "distinct (map rtc_Name (cfg_Routes c'))"
    and "\<forall>l \<in> set (fwd_Listeners (cfg_Forwarding c')). ln_Route l \<in> set (map rtc_Name (cfg_Routes c'))"
    and "validate_topology c' = Inr c'"
proof -
  from assms obtain ups ls rs where
      u: "validate_upstreams [] (cfg_Upstreams c) = Inr ups"
    and l: "validate_listeners (cfg_topologyMode c = ''modern'') 0 [] [] (fwd_Listeners (cfg_Forwarding c)) = Inr ls"
    and r: "validate_routes (map cu_Tag ups) 0 [] (cfg_Routes c) = Inr rs"
    and k: "check_listener_routes (map rtc_Name rs) ls = Inr ()"
    and c': "c' = c\<lparr>cfg_Upstreams := ups, cfg_Forwarding := (cfg_Forwarding c)\<lparr>fwd_Listeners := ls\<rparr>, cfg_Routes := rs\<rparr>"
    by (auto simp: validate_topology_def)
  note U = validate_upstreams_ok [OF u] and L = validate_listeners_ok [OF l] and R = validate_routes_ok [OF r]
  have K: "\<forall>l \<in> set ls. ln_Route l \<in> set (map rtc_Name rs)" using k by (simp add: check_listener_routes_ok)
  have names: "tag_ok (ln_Route x)" if x: "x \<in> set ls" for x
  proof -
    from K x obtain q where "q \<in> set rs" "ln_Route x = rtc_Name q" by auto
    with R show ?thesis by (auto simp: list_all_iff route_wf_def route_config_ok_def)
  qed
  then have "list_all (\<lambda>l. tag_ok (ln_Route l)) ls" by (simp add: list_all_iff)
  with L have again: "validate_listeners (cfg_topologyMode c = ''modern'') 0 [] [] ls = Inr ls" by blast
  show "list_all upstream_wf (cfg_Upstreams c')" "distinct (map cu_Tag (cfg_Upstreams c'))" using U by (auto simp: c')
  show "list_all listener_wf (fwd_Listeners (cfg_Forwarding c'))" "distinct (map listener_key (fwd_Listeners (cfg_Forwarding c')))"
    using L by (auto simp: c')
  show "list_all (route_wf (map cu_Tag (cfg_Upstreams c'))) (cfg_Routes c')" "distinct (map rtc_Name (cfg_Routes c'))" using R by (auto simp: c')
  show "\<forall>l \<in> set (fwd_Listeners (cfg_Forwarding c')). ln_Route l \<in> set (map rtc_Name (cfg_Routes c'))" using K by (simp add: c')
  show "validate_topology c' = Inr c'"
    using U R k again by (simp add: validate_topology_def c')
qed

section \<open>What the sections guarantee\<close>

lemma auth_token_ok: "validateAuthTokenField token field = Inr u \<longleftrightarrow> \<not> EqualFold token ''change-me'' \<and> 16 \<le> length token"
  by (auto simp: validateAuthTokenField_def)

lemma validate_control_ok:
  assumes "validate_control c = Inr c'"
  shows "16 \<le> length (ct_AuthToken c') \<and> 1 \<le> ct_BindPort c' \<and> ct_BindPort c' \<le> 65535 \<and> validate_control c' = Inr c'"
  using assms by (auto simp: validate_control_def auth_token_ok Let_def split: if_splits)

lemma validate_notify_idem:
  assumes "validate_notify url host hn n = Inr n'"
  shows "validate_notify url host hn n' = Inr n'"
proof (cases "nf_Enabled n")
  case False
  with assms show ?thesis by (auto simp: validate_notify_def)
next
  case True
  obtain inst where i: "source_instance host hn (TrimSpace (nf_SourceInstance n)) = Inr inst"
    and v: "validateNotifyIdentifier inst ''webhook.source_instance'' = Inr ()"
    and n': "n' = n\<lparr>nf_Endpoint := TrimSpace (nf_Endpoint n), nf_BearerToken := TrimSpace (nf_BearerToken n), nf_SourceInstance := inst\<rparr>"
    using assms True by (auto simp: validate_notify_def Let_def split: if_splits option.splits)
  have "TrimSpace inst = inst" using i by (auto simp: source_instance_def split: if_splits option.splits)
  moreover have "inst \<noteq> []" using v by (auto simp: validateNotifyIdentifier_def)
  ultimately have "source_instance host hn (TrimSpace inst) = Inr inst" "TrimSpace inst = inst" by (simp_all add: source_instance_def)
  with assms v show ?thesis by (auto simp: validate_notify_def Let_def n' split: if_splits option.splits)
qed

lemma validate_notify_endpoint:
  "validate_notify url host hn n = Inr n' \<Longrightarrow> nf_Enabled n' \<Longrightarrow>
   \<exists>u. url (nf_Endpoint n') = Some u \<and> ep_Host u \<noteq> [] \<and> ep_Scheme u \<in> {''http'', ''https''}"
  by (auto simp: validate_notify_def Let_def split: if_splits option.splits)

lemma validate_logging_idem:
  assumes "validate_logging l = Inr l'"
  shows "validate_logging l' = Inr l'"
proof -
  have "l' = l\<lparr>lg_Level := ToLower (TrimSpace (lg_Level l)), lg_Format := ToLower (TrimSpace (lg_Format l))\<rparr>"
    using assms by (simp add: validate_logging_def Let_def del: insert_iff)
  with assms show ?thesis by (simp add: validate_logging_def Let_def del: insert_iff)
qed

lemma validate_dns_idem:
  assumes "validate_dns d = Inr d'"
  shows "validate_dns d' = Inr d'"
proof -
  have "d' = d\<lparr>dns_Strategy := ToLower (TrimSpace (dns_Strategy d))\<rparr>"
    using assms by (simp add: validate_dns_def Let_def del: insert_iff)
  with assms show ?thesis by (simp add: validate_dns_def Let_def del: insert_iff)
qed

lemma validate_geoip_idem: "validate_geoip g = Inr g' \<Longrightarrow> validate_geoip g' = Inr g'"
  by (cases "geo_Enabled g") (auto simp: validate_geoip_def Let_def validateGeoDBConfig_def)

lemma validate_iplog_idem: "validate_iplog l = Inr l' \<Longrightarrow> validate_iplog l' = Inr l'"
  by (cases "il_Enabled l") (auto simp: validate_iplog_def Let_def)

lemma scope_values_ok:
  "scope_values field index i seen vs = Inr vs' \<Longrightarrow>
   scope_values field index i seen vs' = Inr vs' \<and> length vs' = length vs"
proof (induction vs arbitrary: i seen vs')
  case (Cons v vs)
  then obtain r where r: "scope_values field index (Suc i) (TrimSpace v # seen) vs = Inr r" "vs' = TrimSpace v # r"
    and "TrimSpace v \<noteq> []" "TrimSpace v \<notin> set seen" by (auto simp: Let_def)
  with Cons.IH [OF r(1)] show ?case by (simp add: Let_def)
qed simp

lemma scope_idem: "normalizeFlowContextScope field i vs = Inr vs' \<Longrightarrow> normalizeFlowContextScope field i vs' = Inr vs'"
  using scope_values_ok [of field i 0 "[]" vs vs'] by (auto simp: normalizeFlowContextScope_def)

definition identity_wf :: "string \<Rightarrow> FlowContextIdentity \<Rightarrow> bool" where
  "identity_wf authToken d \<longleftrightarrow> tag_ok (fi_ID d) \<and> tag_ok (fi_Token d) \<and> 16 \<le> length (fi_Token d) \<and> fi_Token d \<noteq> authToken"

lemma validate_identities_ok:
  "validate_identities auth i ids tokens ds = Inr ds' \<Longrightarrow>
   list_all (identity_wf auth) ds' \<and> distinct (map fi_ID ds') \<and> set (map fi_ID ds') \<inter> set ids = {} \<and>
   distinct (map fi_Token ds') \<and> set (map fi_Token ds') \<inter> set tokens = {} \<and>
   validate_identities auth i ids tokens ds' = Inr ds' \<and> length ds' = length ds"
proof (induction ds arbitrary: i ids tokens ds')
  case (Cons d ds)
  define ident where "ident = TrimSpace (fi_ID d)"
  define token where "token = TrimSpace (fi_Token d)"
  from Cons.prems obtain rs us ns r where
      c: "ident \<noteq> []" "ident \<notin> set ids" "token \<noteq> []" "token \<noteq> auth" "token \<notin> set tokens"
    and t: "\<And>field u. validateAuthTokenField token field = Inr u"
    and s: "normalizeFlowContextScope ''routes'' i (fi_Routes d) = Inr rs" "normalizeFlowContextScope ''upstreams'' i (fi_Upstreams d) = Inr us"
      "normalizeFlowContextScope ''namespaces'' i (fi_Namespaces d) = Inr ns"
    and rest: "validate_identities auth (Suc i) (ident # ids) (token # tokens) ds = Inr r"
    and ds': "ds' = d\<lparr>fi_ID := ident, fi_Token := token, fi_Routes := rs, fi_Upstreams := us, fi_Namespaces := ns\<rparr> # r"
    by (auto simp: Let_def ident_def [symmetric] token_def [symmetric] auth_token_ok)
  have norm: "TrimSpace ident = ident" "TrimSpace token = token" by (simp_all add: ident_def token_def)
  have "validate_identities auth i ids tokens ds' = Inr ds'"
    using c norm s [THEN scope_idem] Cons.IH [OF rest] by (simp add: ds' Let_def t)
  moreover have "16 \<le> length token" using t by (simp add: auth_token_ok)
  ultimately show ?case using Cons.IH [OF rest] c norm by (auto simp: ds' identity_wf_def tag_ok_def)
qed simp

lemma validate_flow_context_ok:
  assumes "validate_flow_context en auth f = Inr f'"
  shows "validate_flow_context en auth f' = Inr f'"
    and "fx_Enabled f' \<Longrightarrow> en \<and> fx_Identities f' \<noteq> [] \<and> list_all (identity_wf auth) (fx_Identities f') \<and>
      distinct (map fi_ID (fx_Identities f')) \<and> distinct (map fi_Token (fx_Identities f'))"
proof -
  have "validate_flow_context en auth f' = Inr f' \<and> (fx_Enabled f' \<longrightarrow> en \<and> fx_Identities f' \<noteq> [] \<and> list_all (identity_wf auth) (fx_Identities f') \<and>
      distinct (map fi_ID (fx_Identities f')) \<and> distinct (map fi_Token (fx_Identities f')))"
  proof (cases "fx_Enabled f")
    case False
    with assms show ?thesis by (simp add: validate_flow_context_def)
  next
    case True
    with assms obtain ds where ds: "validate_identities auth 0 [] [] (fx_Identities f) = Inr ds" "f' = f\<lparr>fx_Identities := ds\<rparr>"
      and c: "en" "fx_Identities f \<noteq> []" "\<not> fx_MaxTTL f \<le> 0" by (auto simp: validate_flow_context_def)
    note v = validate_identities_ok [OF ds(1)]
    from v c(2) have "ds \<noteq> []" by auto
    with v c ds True show ?thesis by (simp add: validate_flow_context_def)
  qed
  then show "validate_flow_context en auth f' = Inr f'"
    and "fx_Enabled f' \<Longrightarrow> en \<and> fx_Identities f' \<noteq> [] \<and> list_all (identity_wf auth) (fx_Identities f') \<and>
      distinct (map fi_ID (fx_Identities f')) \<and> distinct (map fi_Token (fx_Identities f'))"
    by blast+
qed

lemma validate_firewall_rules_idem:
  "validate_firewall_rules i rs = Inr rs' \<Longrightarrow> validate_firewall_rules i rs' = Inr rs' \<and> length rs' = length rs"
proof (induction rs arbitrary: i rs')
  case (Cons r rs)
  define a where "a = ToLower (TrimSpace (fwr_Action r))"
  define k where "k = ToUpper (TrimSpace (fwr_Country r))"
  define cidr where "cidr = (if TrimSpace (fwr_CIDR r) \<noteq> [] then TrimSpace (fwr_CIDR r) else fwr_CIDR r)"
  from Cons.prems obtain r' where rest: "validate_firewall_rules (Suc i) rs = Inr r'"
    and c: "a = ''allow'' \<or> a = ''deny''"
      "(if TrimSpace (fwr_CIDR r) \<noteq> [] then 1 else 0) + (if fwr_ASN r \<noteq> 0 then 1 else 0) + (if k \<noteq> [] then 1 else (0 :: nat)) = 1"
    and rs': "rs' = r\<lparr>fwr_Action := a, fwr_Country := k, fwr_CIDR := cidr\<rparr> # r'"
    unfolding validate_firewall_rules.simps Let_def a_def [symmetric] k_def [symmetric] cidr_def [symmetric] fail_else bind_ok_Inr by blast
  have norm: "ToLower (TrimSpace a) = a" "ToUpper (TrimSpace k) = k" "TrimSpace cidr = TrimSpace (fwr_CIDR r)"
    by (simp_all add: a_def k_def cidr_def)
  have "(if TrimSpace cidr \<noteq> [] then TrimSpace cidr else cidr) = cidr" by (simp add: cidr_def)
  with c norm Cons.IH [OF rest] show ?case unfolding rs'
    by (simp only: validate_firewall_rules.simps Let_def fail_else bind_ok_Inr FirewallRule.select_convs FirewallRule.update_convs) auto
qed simp

lemma validate_firewall_idem:
  assumes "validate_firewall f = Inr (f', w)"
  shows "validate_firewall f' = Inr (f', w)" and "set w \<subseteq> {firewall_warning}"
proof -
  have "validate_firewall f' = Inr (f', w) \<and> set w \<subseteq> {firewall_warning}"
  proof (cases "fc_Enabled f")
    case False
    with assms show ?thesis by (auto simp: validate_firewall_def Let_def)
  next
    case True
    with assms obtain rs where rs: "validate_firewall_rules 0 (fc_Rules f) = Inr rs"
      and f': "f' = f\<lparr>fc_PolicyFile := TrimSpace (fc_PolicyFile f), fc_Default := ToLower (TrimSpace (fc_Default f)), fc_Rules := rs\<rparr>"
      by (auto simp: validate_firewall_def Let_def)
    note v = validate_firewall_rules_idem [OF rs]
    then have "fc_Rules f' = [] \<longleftrightarrow> fc_Rules f = []" by (auto simp: f')
    with v assms True show ?thesis by (auto simp: validate_firewall_def Let_def f')
  qed
  then show "validate_firewall f' = Inr (f', w)" and "set w \<subseteq> {firewall_warning}" by blast+
qed

section \<open>Validation as a whole\<close>

lemma validate_sizes_ok:
  "validate_sizes c = Inr c' \<longleftrightarrow> c' = c \<and> 0 < length (fwd_Listeners (cfg_Forwarding c)) \<and> length (fwd_Listeners (cfg_Forwarding c)) \<le> maxListeners \<and>
     cfg_Upstreams c \<noteq> [] \<and> 0 < lm_MaxTCPConnections (fwd_Limits (cfg_Forwarding c)) \<and> 0 < lm_MaxUDPMappings (fwd_Limits (cfg_Forwarding c)) \<and>
     0 < it_TCP (fwd_IdleTimeout (cfg_Forwarding c)) \<and> 0 < it_UDP (fwd_IdleTimeout (cfg_Forwarding c))"
  by (auto simp: validate_sizes_def Let_def)

lemma normalizeTopology_normalized:
  "normalizeTopology c = Inr c' \<Longrightarrow> fwd_Listeners (cfg_Forwarding c') \<noteq> [] \<Longrightarrow> cfg_topologyNormalized c'"
  by (auto simp: normalizeTopology_def Let_def split: if_splits)

lemma normalizeTopology_idem: "cfg_topologyNormalized c \<Longrightarrow> normalizeTopology c = Inr c"
  by (simp add: normalizeTopology_def)

lemma validate_topology_frame:
  assumes "validate_topology c = Inr c'"
  shows "length (cfg_Upstreams c') = length (cfg_Upstreams c)" and "length (fwd_Listeners (cfg_Forwarding c')) = length (fwd_Listeners (cfg_Forwarding c))"
    and "fwd_Limits (cfg_Forwarding c') = fwd_Limits (cfg_Forwarding c)" and "fwd_IdleTimeout (cfg_Forwarding c') = fwd_IdleTimeout (cfg_Forwarding c)"
    and "cfg_topologyNormalized c' = cfg_topologyNormalized c" and "cfg_Warnings c' = cfg_Warnings c"
proof -
  from assms obtain ups ls rs where
      u: "validate_upstreams [] (cfg_Upstreams c) = Inr ups"
    and l: "validate_listeners (cfg_topologyMode c = ''modern'') 0 [] [] (fwd_Listeners (cfg_Forwarding c)) = Inr ls"
    and c': "c' = c\<lparr>cfg_Upstreams := ups, cfg_Forwarding := (cfg_Forwarding c)\<lparr>fwd_Listeners := ls\<rparr>, cfg_Routes := rs\<rparr>"
    by (auto simp: validate_topology_def)
  from validate_upstreams_ok [OF u] have "length ups = length (cfg_Upstreams c)" by (metis length_map)
  then show "length (cfg_Upstreams c') = length (cfg_Upstreams c)" by (simp add: c')
  show "length (fwd_Listeners (cfg_Forwarding c')) = length (fwd_Listeners (cfg_Forwarding c))"
    using validate_listeners_ok [OF l] by (simp add: c')
qed (use assms in \<open>auto simp: validate_topology_def\<close>)

lemma sections_frame:
  assumes "validate_sections url host c = Inr c'"
  shows "cfg_Upstreams c' = cfg_Upstreams c" "cfg_Forwarding c' = cfg_Forwarding c" "cfg_Routes c' = cfg_Routes c"
    "cfg_topologyNormalized c' = cfg_topologyNormalized c" "cfg_topologyMode c' = cfg_topologyMode c"
    "cfg_Measurement c' = cfg_Measurement c" "cfg_Health c' = cfg_Health c"
  using assms by (auto simp: validate_sections_def)

lemma validate_topology_sections:
  assumes "validate_topology c = Inr c" and "cfg_Upstreams c' = cfg_Upstreams c" and "cfg_Forwarding c' = cfg_Forwarding c"
    and "cfg_Routes c' = cfg_Routes c" and "cfg_topologyMode c' = cfg_topologyMode c"
  shows "validate_topology c' = Inr c'"
proof -
  from assms(1) obtain ups ls rs where
      v: "validate_upstreams [] (cfg_Upstreams c) = Inr ups"
      "validate_listeners (cfg_topologyMode c = ''modern'') 0 [] [] (fwd_Listeners (cfg_Forwarding c)) = Inr ls"
      "validate_routes (map cu_Tag ups) 0 [] (cfg_Routes c) = Inr rs" "check_listener_routes (map rtc_Name rs) ls = Inr ()"
    and c: "c = c\<lparr>cfg_Upstreams := ups, cfg_Forwarding := (cfg_Forwarding c)\<lparr>fwd_Listeners := ls\<rparr>, cfg_Routes := rs\<rparr>"
    unfolding validate_topology_def by auto
  have "cfg_Upstreams c = ups" "cfg_Routes c = rs" "cfg_Forwarding c = (cfg_Forwarding c)\<lparr>fwd_Listeners := ls\<rparr>"
    by (subst c, simp)+
  moreover from this(3) have "(cfg_Forwarding c)\<lparr>fwd_Listeners := ls\<rparr> = cfg_Forwarding c" by simp
  ultimately show ?thesis using v assms(2-5) by (auto simp: validate_topology_def)
qed

lemma sections_parts:
  assumes "validate_sections url host c = Inr c'"
  obtains ctl nf lg dns geo il fx fw w where
    "validate_control (cfg_Control c) = Inr ctl" "validate_notify url host (cfg_Hostname c) (cfg_Notify c) = Inr nf"
    "validate_logging (cfg_Logging c) = Inr lg" "validate_measurement (cfg_Measurement c) = Inr ()" "validate_health (cfg_Health c) = Inr ()"
    "validate_dns (cfg_DNS c) = Inr dns" "validate_geoip (cfg_GeoIP c) = Inr geo" "validate_iplog (cfg_IPLog c) = Inr il"
    "validate_flow_context (il_Enabled il) (ct_AuthToken ctl) (cfg_FlowContext c) = Inr fx" "validate_firewall (cfg_Firewall c) = Inr (fw, w)"
    "c' = c\<lparr>cfg_Control := ctl, cfg_Notify := nf, cfg_Logging := lg, cfg_DNS := dns, cfg_GeoIP := geo, cfg_IPLog := il,
       cfg_FlowContext := fx, cfg_Firewall := fw, cfg_Warnings := cfg_Warnings c @ w\<rparr>"
proof -
  from assms show thesis
    unfolding validate_sections_def bind_ok_Inr
    apply (elim exE conjE)
    subgoal for ctl nf lg u1 u2 dns geo il fx p
      using that [of ctl nf lg dns geo il fx "fst p" "snd p"] by (cases p) simp
    done
qed

lemma sections_again:
  assumes "validate_sections url host c = Inr c'" and "cfg_Warnings c = w0"
  shows "validate_sections url host (c'\<lparr>cfg_Warnings := []\<rparr>) = Inr (c'\<lparr>cfg_Warnings := filter (\<lambda>w. w = firewall_warning) (drop (length w0) (cfg_Warnings c'))\<rparr>)"
proof -
  from sections_parts [OF assms(1)] obtain ctl nf lg dns geo il fx fw w where
      s: "validate_control (cfg_Control c) = Inr ctl" "validate_notify url host (cfg_Hostname c) (cfg_Notify c) = Inr nf"
      "validate_logging (cfg_Logging c) = Inr lg" "validate_measurement (cfg_Measurement c) = Inr ()" "validate_health (cfg_Health c) = Inr ()"
      "validate_dns (cfg_DNS c) = Inr dns" "validate_geoip (cfg_GeoIP c) = Inr geo" "validate_iplog (cfg_IPLog c) = Inr il"
      "validate_flow_context (il_Enabled il) (ct_AuthToken ctl) (cfg_FlowContext c) = Inr fx" "validate_firewall (cfg_Firewall c) = Inr (fw, w)"
    and c': "c' = c\<lparr>cfg_Control := ctl, cfg_Notify := nf, cfg_Logging := lg, cfg_DNS := dns, cfg_GeoIP := geo, cfg_IPLog := il,
              cfg_FlowContext := fx, cfg_Firewall := fw, cfg_Warnings := cfg_Warnings c @ w\<rparr>" .
  have w: "filter (\<lambda>x. x = firewall_warning) w = w" using validate_firewall_idem(2) [OF s(10)] by (auto simp: filter_id_conv)
  show ?thesis
    using conjunct2 [OF conjunct2 [OF conjunct2 [OF validate_control_ok [OF s(1)]]]] validate_notify_idem [OF s(2)] validate_logging_idem [OF s(3)] s(4,5)
      validate_dns_idem [OF s(6)] validate_geoip_idem [OF s(7)] validate_iplog_idem [OF s(8)] validate_flow_context_ok(1) [OF s(9)]
      validate_firewall_idem(1) [OF s(10)] w assms(2)
    by (simp add: validate_sections_def c')
qed

lemma topology_warnings:
  assumes "normalizeTopology c = Inr c'" and "cfg_Warnings c = []"
  shows "filter (\<lambda>w. w = firewall_warning) (cfg_Warnings c') = []"
  using assms by (auto simp: normalizeTopology_def Let_def firewall_warning_def split: if_splits)

lemma validate_parts:
  assumes "validate url host c = Inr c'"
  obtains c1 c3 where "normalizeTopology (c\<lparr>cfg_Warnings := []\<rparr>) = Inr c1" "validate_sizes c1 = Inr c1"
    "validate_topology c1 = Inr c3" "validate_sections url host c3 = Inr c'"
  using assms by (auto simp: validate_def validate_sizes_ok)

text \<open>
  Validation is stable. A configuration that was accepted is accepted again without any
  change, and validating it again repeats the warnings about the firewall and drops the one
  about the topology, which by then has been converted.
\<close>

lemma validation_stable:
  assumes "validate url host c = Inr c'"
  shows "validate url host c' = Inr (c'\<lparr>cfg_Warnings := filter (\<lambda>w. w = firewall_warning) (cfg_Warnings c')\<rparr>)"
proof -
  from validate_parts [OF assms] obtain c1 c3 where
      p: "normalizeTopology (c\<lparr>cfg_Warnings := []\<rparr>) = Inr c1" "validate_sizes c1 = Inr c1"
        "validate_topology c1 = Inr c3" "validate_sections url host c3 = Inr c'" .
  note t = validate_topology_ok [OF p(3)] and f = validate_topology_frame [OF p(3)] and g = sections_frame [OF p(4)]
  let ?d = "c'\<lparr>cfg_Warnings := []\<rparr>"
  have "fwd_Listeners (cfg_Forwarding c1) \<noteq> []" using p(2) by (auto simp: validate_sizes_ok)
  from normalizeTopology_normalized [OF p(1) this] have "cfg_topologyNormalized ?d" using f g by simp
  then have n: "normalizeTopology ?d = Inr ?d" by (rule normalizeTopology_idem)
  have "cfg_Upstreams c3 \<noteq> [] \<longleftrightarrow> cfg_Upstreams c1 \<noteq> []" using f(1) by (metis length_0_conv)
  then have z: "validate_sizes ?d = Inr ?d" using p(2) f g by (simp add: validate_sizes_ok)
  have v: "validate_topology ?d = Inr ?d" by (rule validate_topology_sections [OF t(8)]) (simp_all add: g)
  have "filter (\<lambda>w. w = firewall_warning) (cfg_Warnings c') =
      filter (\<lambda>w. w = firewall_warning) (drop (length (cfg_Warnings c3)) (cfg_Warnings c'))"
  proof -
    have "\<exists>w. cfg_Warnings c' = cfg_Warnings c3 @ w" using p(4) by (auto simp: validate_sections_def)
    then show ?thesis using topology_warnings [OF p(1)] f(6) by auto
  qed
  then show ?thesis using n z v sections_again [OF p(4) refl] by (simp add: validate_def)
qed

section \<open>What an accepted configuration is\<close>

definition config_wf :: "Config \<Rightarrow> bool" where
  "config_wf c \<longleftrightarrow>
     list_all upstream_wf (cfg_Upstreams c) \<and> distinct (map cu_Tag (cfg_Upstreams c)) \<and> cfg_Upstreams c \<noteq> [] \<and>
     list_all listener_wf (fwd_Listeners (cfg_Forwarding c)) \<and>
     distinct (map (\<lambda>l. (ln_BindAddr l, ln_BindPort l, ln_Protocol l)) (fwd_Listeners (cfg_Forwarding c))) \<and>
     1 \<le> length (fwd_Listeners (cfg_Forwarding c)) \<and> length (fwd_Listeners (cfg_Forwarding c)) \<le> 45 \<and>
     list_all (route_wf (map cu_Tag (cfg_Upstreams c))) (cfg_Routes c) \<and> distinct (map rtc_Name (cfg_Routes c)) \<and>
     list_all (\<lambda>l. ln_Route l \<in> set (map rtc_Name (cfg_Routes c))) (fwd_Listeners (cfg_Forwarding c)) \<and>
     0 < lm_MaxTCPConnections (fwd_Limits (cfg_Forwarding c)) \<and> 0 < lm_MaxUDPMappings (fwd_Limits (cfg_Forwarding c)) \<and>
     0 < it_TCP (fwd_IdleTimeout (cfg_Forwarding c)) \<and> 0 < it_UDP (fwd_IdleTimeout (cfg_Forwarding c)) \<and>
     0 < hc_FailureThreshold (cfg_Health c) \<and> 0 < hc_RecoveryThreshold (cfg_Health c) \<and> 0 < hc_StaleThreshold (cfg_Health c) \<and>
     0 < mi_Min (ms_Interval (mc_Schedule (cfg_Measurement c))) \<and>
     mi_Min (ms_Interval (mc_Schedule (cfg_Measurement c))) \<le> mi_Max (ms_Interval (mc_Schedule (cfg_Measurement c))) \<and>
     0 \<le> ms_UpstreamGap (mc_Schedule (cfg_Measurement c)) \<and>
     (BoolValue (mp_Enabled (mps_TCP (mc_Protocols (cfg_Measurement c)))) True \<or> BoolValue (mp_Enabled (mps_UDP (mc_Protocols (cfg_Measurement c)))) True) \<and>
     100 * millisecond \<le> mc_ProbeTimeout (cfg_Measurement c) \<and> mc_ProbeTimeout (cfg_Measurement c) \<le> 10 * second \<and>
     16 \<le> length (ct_AuthToken (cfg_Control c)) \<and>
     (\<not> fx_Enabled (cfg_FlowContext c) \<or> il_Enabled (cfg_IPLog c) \<and>
        list_all (identity_wf (ct_AuthToken (cfg_Control c))) (fx_Identities (cfg_FlowContext c)) \<and>
        distinct (map fi_ID (fx_Identities (cfg_FlowContext c))) \<and> distinct (map fi_Token (fx_Identities (cfg_FlowContext c))))"

text \<open>The range checks of the fractional numbers let NaN through, and an infinite priority.\<close>

lemma nan_passes_checks:
  "\<not> alpha_refused YNaN \<and> \<not> priority_refused YNaN \<and> \<not> priority_refused (YInf False)"
  by (simp add: alpha_refused_def priority_refused_def)

lemma validate_measurement_ok:
  "validate_measurement m = Inr u \<longleftrightarrow> 0 < mi_Min (ms_Interval (mc_Schedule m)) \<and> mi_Min (ms_Interval (mc_Schedule m)) \<le> mi_Max (ms_Interval (mc_Schedule m)) \<and>
     0 \<le> ms_UpstreamGap (mc_Schedule m) \<and>
     (BoolValue (mp_Enabled (mps_TCP (mc_Protocols m))) True \<or> BoolValue (mp_Enabled (mps_UDP (mc_Protocols m))) True) \<and>
     100 * millisecond \<le> mc_ProbeTimeout m \<and> mc_ProbeTimeout m \<le> 10 * second"
  by (auto simp: validate_measurement_def Let_def)

lemma validate_health_ok:
  "validate_health h = Inr u \<longleftrightarrow> 0 < hc_RTTEWMAAlpha h \<and> hc_RTTEWMAAlpha h \<le> 1 \<and> 0 < hc_FailureThreshold h \<and> 0 < hc_RecoveryThreshold h \<and> 0 < hc_StaleThreshold h"
  by (auto simp: validate_health_def)

lemma distinct_listener_keys:
  "distinct (map listener_key ls) \<Longrightarrow> distinct (map (\<lambda>l. (ln_BindAddr l, ln_BindPort l, ln_Protocol l)) ls)"
  unfolding distinct_map by (auto simp: inj_on_def listener_key_def host_port_text_def)

lemma sections_wf:
  assumes "validate_sections url host c = Inr c'"
  shows "16 \<le> length (ct_AuthToken (cfg_Control c'))" and "validate_measurement (cfg_Measurement c') = Inr ()" and "validate_health (cfg_Health c') = Inr ()"
    and "fx_Enabled (cfg_FlowContext c') \<Longrightarrow> il_Enabled (cfg_IPLog c') \<and>
        list_all (identity_wf (ct_AuthToken (cfg_Control c'))) (fx_Identities (cfg_FlowContext c')) \<and>
        distinct (map fi_ID (fx_Identities (cfg_FlowContext c'))) \<and> distinct (map fi_Token (fx_Identities (cfg_FlowContext c')))"
    and "nf_Enabled (cfg_Notify c') \<Longrightarrow> \<exists>u. url (nf_Endpoint (cfg_Notify c')) = Some u \<and> ep_Host u \<noteq> [] \<and> ep_Scheme u \<in> {''http'', ''https''}"
proof -
  from sections_parts [OF assms] obtain ctl nf lg dns geo il fx fw w where
      s: "validate_control (cfg_Control c) = Inr ctl" "validate_notify url host (cfg_Hostname c) (cfg_Notify c) = Inr nf"
      "validate_logging (cfg_Logging c) = Inr lg" "validate_measurement (cfg_Measurement c) = Inr ()" "validate_health (cfg_Health c) = Inr ()"
      "validate_dns (cfg_DNS c) = Inr dns" "validate_geoip (cfg_GeoIP c) = Inr geo" "validate_iplog (cfg_IPLog c) = Inr il"
      "validate_flow_context (il_Enabled il) (ct_AuthToken ctl) (cfg_FlowContext c) = Inr fx" "validate_firewall (cfg_Firewall c) = Inr (fw, w)"
    and c': "c' = c\<lparr>cfg_Control := ctl, cfg_Notify := nf, cfg_Logging := lg, cfg_DNS := dns, cfg_GeoIP := geo, cfg_IPLog := il,
              cfg_FlowContext := fx, cfg_Firewall := fw, cfg_Warnings := cfg_Warnings c @ w\<rparr>" .
  show "16 \<le> length (ct_AuthToken (cfg_Control c'))" using validate_control_ok [OF s(1)] by (simp add: c')
  show "validate_measurement (cfg_Measurement c') = Inr ()" "validate_health (cfg_Health c') = Inr ()" using s(4,5) by (simp_all add: c')
  show "il_Enabled (cfg_IPLog c') \<and> list_all (identity_wf (ct_AuthToken (cfg_Control c'))) (fx_Identities (cfg_FlowContext c')) \<and>
      distinct (map fi_ID (fx_Identities (cfg_FlowContext c'))) \<and> distinct (map fi_Token (fx_Identities (cfg_FlowContext c')))"
    if "fx_Enabled (cfg_FlowContext c')" using validate_flow_context_ok(2) [OF s(9)] that by (simp add: c')
  show "\<exists>u. url (nf_Endpoint (cfg_Notify c')) = Some u \<and> ep_Host u \<noteq> [] \<and> ep_Scheme u \<in> {''http'', ''https''}"
    if "nf_Enabled (cfg_Notify c')" using validate_notify_endpoint [OF s(2)] that by (simp add: c')
qed

lemma validated_config_wf:
  assumes "validate url host c = Inr c'"
  shows "config_wf c'"
proof -
  from validate_parts [OF assms] obtain c1 c3 where
      p: "validate_sizes c1 = Inr c1" "validate_topology c1 = Inr c3" "validate_sections url host c3 = Inr c'" .
  note t = validate_topology_ok [OF p(2)] and f = validate_topology_frame [OF p(2)] and g = sections_frame [OF p(3)] and w = sections_wf [OF p(3)]
  have "cfg_Upstreams c3 \<noteq> []" using p(1) f(1) by (auto simp: validate_sizes_ok)
  moreover have "1 \<le> length (fwd_Listeners (cfg_Forwarding c3)) \<and> length (fwd_Listeners (cfg_Forwarding c3)) \<le> 45"
    using p(1) f(2) by (auto simp: validate_sizes_ok maxListeners_def Suc_le_eq)
  ultimately show ?thesis
    using t(1,2,3,5,6,7) distinct_listener_keys [OF t(4)] f(3,4) p(1) g w(1-4)
    by (simp add: config_wf_def list_all_iff validate_sizes_ok validate_measurement_ok validate_health_ok)
qed

lemma LoadConfig_validated:
  assumes "LoadConfig url host file = Inr c"
  obtains c0 where "validate url host c0 = Inr c"
  using assms by (auto simp: LoadConfig_def Let_def split: option.splits)


text \<open>A file with a key that was removed is refused, whatever else it says.\<close>

lemma stable_sort_Nil [simp]: "stable_sort before xs = [] \<longleftrightarrow> xs = []"
  by (metis set_empty set_stable_sort)

lemma removed_headroom_refused:
  assumes "fl_unmarshal f = Some doc" and "lookupPath doc [''measurement'', ''schedule'', ''headroom''] = Some node"
  shows "\<exists>paths. LoadConfig url host (Some f) = Inl (CfgRemovedKeys paths)"
proof -
  have "collectLeafPaths n p \<noteq> []" for n p
  proof (induction n p rule: collectLeafPaths.induct)
    case (1 n p)
    show ?case
    proof (cases "asMap n")
      case (Some m)
      show ?thesis
      proof (cases m)
        case (Cons e es)
        then have "sorted_entries m \<noteq> []" by (simp add: sorted_entries_def)
        then obtain e' es' where "sorted_entries m = e' # es'" by (cases "sorted_entries m") auto
        with "1" [OF Some, of e'] Cons Some show ?thesis by (subst collectLeafPaths.simps) simp
      qed (use Some in \<open>subst collectLeafPaths.simps, simp\<close>)
    qed (subst collectLeafPaths.simps, simp)
  qed
  then have "collectRemovedTree doc [''measurement'', ''schedule'', ''headroom''] \<noteq> []" using assms(2) by (simp add: collectRemovedTree_def)
  then have "detectRemovedConfigPaths (fl_unmarshal f) \<noteq> []" by (simp add: assms(1) detectRemovedConfigPaths_def)
  then show ?thesis by (simp add: LoadConfig_def Let_def)
qed

section \<open>Samples\<close>

definition sample_loaded :: "Config \<Rightarrow> Config" where
  "sample_loaded c =
     c\<lparr>cfg_Listeners := [\<lparr>sp_Name = ''web'', sp_Bind = ''0.0.0.0:80'', sp_Protocol = ''TCP'', sp_Route = ''main''\<rparr>],
       cfg_Routes := [\<lparr>rtc_Name = ''main'', rtc_Strategy = ''adaptive'', rtc_Upstreams = ['' a'', ''b''], rtc_DefaultUpstream = []\<rparr>],
       cfg_Upstreams := [\<lparr>cu_Tag = ''a'', cu_Destination = \<lparr>ds_Host = ''a.test''\<rparr>, cu_Measurement = \<lparr>um_Host = [], um_Port = 0\<rparr>, cu_Priority = 1\<rparr>,
                          \<lparr>cu_Tag = ''b '', cu_Destination = \<lparr>ds_Host = ''b.test''\<rparr>, cu_Measurement = \<lparr>um_Host = [], um_Port = 0\<rparr>, cu_Priority = 2\<rparr>],
       cfg_Control := (cfg_Control c)\<lparr>ct_AuthToken := ''0123456789abcdef''\<rparr>\<rparr>"

definition sample_file :: config_file where
  "sample_file = \<lparr>fl_unmarshal = Some (YamlMap [(KeyText ''listeners'', YamlLeaf), (KeyText ''routes'', YamlLeaf)]),
     fl_decode = (\<lambda>c. Some (sample_loaded c)), fl_rest = NoMoreDocument\<rparr>"

definition sample_facts :: "Config \<Rightarrow> bool" where
  "sample_facts c \<longleftrightarrow> map (\<lambda>u. ds_Host (cu_Destination u)) (cfg_Upstreams c) = [''a.test'', ''b.test''] \<and> dns_Strategy (cfg_DNS c) = [] \<and>
     \<not> geo_Enabled (cfg_GeoIP c) \<and> \<not> il_Enabled (cfg_IPLog c) \<and> \<not> fc_Enabled (cfg_Firewall c) \<and>
     map rtc_Name (filter (\<lambda>r. rtc_Strategy r = ''adaptive'' \<and> ''a'' \<in> set (rtc_Upstreams r)) (cfg_Routes c)) = [''main'']"

lemma sample_loads: "\<exists>c. LoadConfig (\<lambda>_. None) None (Some sample_file) = Inr c \<and> sample_facts c"
proof -
  have "case LoadConfig (\<lambda>_. None) None (Some sample_file) of Inl _ \<Rightarrow> False | Inr c \<Rightarrow> sample_facts c" by code_simp
  then show ?thesis by (auto split: sum.splits)
qed


lemma validation_stable_sample:
  "\<exists>c c'. validate (\<lambda>_. None) None c = Inr c' \<and>
     validate (\<lambda>_. None) None c' = Inr (c'\<lparr>cfg_Warnings := filter (\<lambda>w. w = firewall_warning) (cfg_Warnings c')\<rparr>)"
proof -
  from sample_loads obtain c' where "LoadConfig (\<lambda>_. None) None (Some sample_file) = Inr c'" by blast
  from LoadConfig_validated [OF this] obtain c where v: "validate (\<lambda>_. None) None c = Inr c'" .
  from v validation_stable [OF v] show ?thesis by blast
qed

end
