(* ===== verification/Measure.thy ===== *)
theory Measure
  imports Config
begin

text \<open>
  The measurement of upstreams: the scheduler of probes (\<open>internal/measure/scheduler.go\<close>) and
  the collector that runs them and reports to the upstream manager
  (\<open>internal/measure/collector.go\<close>).

  \<open>sort.Slice\<close> is not stable, so the sorting of the queue is an argument, about which the
  properties assume only that it returns a sorted permutation. What a probe finds is an argument
  as well: a function from the client to the result, which is \<open>ProbeTCP\<close> or \<open>ProbeUDP\<close> of the
  theory \<open>Fbmeasure\<close> with what the network does. The calls the collector makes to the metrics and to
  the hook of finished tests are lists in its state; log events are left out.
\<close>

section \<open>The scheduler\<close>

record SchedulerConfig =
  sc_MinInterval :: duration
  sc_MaxInterval :: duration
  sc_InterUpstreamGap :: duration
  sc_Protocols :: "string list"

record scheduledMeasurement =
  sm_upstream :: Upstream
  sm_protocol :: string
  sm_dueAt :: time

record Scheduler =
  sd_cfg :: SchedulerConfig
  sd_upstreams :: "Upstream list"
  sd_queue :: "scheduledMeasurement list"
  sd_lastRun :: "(string, time) gomap"
  sd_nextAvailable :: time

record PendingItem =
  pi_Upstream :: string
  pi_Protocol :: string
  pi_ScheduledAt :: time

record SchedulerStatus =
  ss_QueueLength :: nat
  ss_NextScheduled :: time
  ss_LastRun :: "(string, time) gomap"
  ss_Pending :: "PendingItem list"

type_synonym queue_sort = "scheduledMeasurement list \<Rightarrow> scheduledMeasurement list"

definition NewScheduler :: "SchedulerConfig \<Rightarrow> Upstream list \<Rightarrow> Scheduler" where
  "NewScheduler cfg ups = \<lparr>sd_cfg = cfg, sd_upstreams = ups, sd_queue = [], sd_lastRun = [], sd_nextAvailable = 0\<rparr>"

definition sched_key :: "string \<Rightarrow> string \<Rightarrow> string" where
  "sched_key tag protocol = tag @ '':'' @ protocol"

definition item_key :: "scheduledMeasurement \<Rightarrow> string" where
  "item_key m = sched_key (up_Tag (sm_upstream m)) (sm_protocol m)"

text \<open>The two loops of \<open>Schedule\<close>: every upstream with every protocol, unless it is queued.\<close>

fun schedule_missing :: "time \<Rightarrow> (Upstream \<times> string) list \<Rightarrow> string list \<Rightarrow> scheduledMeasurement list" where
  "schedule_missing now [] queued = []"
| "schedule_missing now ((up, proto) # rest) queued =
     (let key = sched_key (up_Tag up) proto
      in if key \<in> set queued then schedule_missing now rest queued
         else \<lparr>sm_upstream = up, sm_protocol = proto, sm_dueAt = now\<rparr> # schedule_missing now rest (key # queued))"

definition Schedule :: "queue_sort \<Rightarrow> time \<Rightarrow> Scheduler \<Rightarrow> Scheduler" where
  "Schedule srt now s =
     s\<lparr>sd_queue := srt (sd_queue s @ schedule_missing now (List.product (sd_upstreams s) (sc_Protocols (sd_cfg s))) (map item_key (sd_queue s)))\<rparr>"

definition NextReady :: "time \<Rightarrow> Scheduler \<Rightarrow> scheduledMeasurement option \<times> Scheduler" where
  "NextReady now s =
     (case sd_queue s of
        [] \<Rightarrow> (None, s)
      | next # rest \<Rightarrow>
          if time_before now (sd_nextAvailable s) then (None, s)
          else if time_before now (sm_dueAt next) then (None, s)
          else (Some next, s\<lparr>sd_queue := rest,
                            sd_nextAvailable := (if sc_InterUpstreamGap (sd_cfg s) > 0 then time_add now (sc_InterUpstreamGap (sd_cfg s)) else sd_nextAvailable s)\<rparr>))"

text \<open>\<open>rng.Int63n(n)\<close> is a number below \<open>n\<close>: \<open>rnd\<close> modulo \<open>n\<close>, where \<open>rnd\<close> is any number.\<close>

definition nextInterval :: "int \<Rightarrow> SchedulerConfig \<Rightarrow> duration" where
  "nextInterval rnd cfg =
     (if sc_MaxInterval cfg \<le> sc_MinInterval cfg then sc_MinInterval cfg
      else sc_MinInterval cfg + rnd mod (sc_MaxInterval cfg - sc_MinInterval cfg))"

definition MarkRun :: "queue_sort \<Rightarrow> time \<Rightarrow> int \<Rightarrow> scheduledMeasurement \<Rightarrow> Scheduler \<Rightarrow> Scheduler" where
  "MarkRun srt now rnd m s =
     s\<lparr>sd_lastRun := gput (item_key m) now (sd_lastRun s),
       sd_queue := srt (sd_queue s @ [m\<lparr>sm_dueAt := time_add now (nextInterval rnd (sd_cfg s))\<rparr>])\<rparr>"

definition Requeue :: "queue_sort \<Rightarrow> time \<Rightarrow> scheduledMeasurement \<Rightarrow> duration \<Rightarrow> Scheduler \<Rightarrow> Scheduler" where
  "Requeue srt now m delay s = s\<lparr>sd_queue := srt (sd_queue s @ [m\<lparr>sm_dueAt := time_add now delay\<rparr>])\<rparr>"

definition sched_Status :: "Scheduler \<Rightarrow> SchedulerStatus" where
  "sched_Status s =
     \<lparr>ss_QueueLength = length (sd_queue s),
      ss_NextScheduled = (case sd_queue s of [] \<Rightarrow> 0 | m # _ \<Rightarrow> sm_dueAt m),
      ss_LastRun = sd_lastRun s,
      ss_Pending = map (\<lambda>m. \<lparr>pi_Upstream = up_Tag (sm_upstream m), pi_Protocol = sm_protocol m, pi_ScheduledAt = sm_dueAt m\<rparr>) (sd_queue s)\<rparr>"

section \<open>The collector\<close>

definition retryDelay :: duration where "retryDelay = 30 * second"
definition defaultProbeTimeout :: duration where "defaultProbeTimeout = 2 * second"

datatype measure_error = UnsupportedProtocol string | ProbeFailed probe_error

record RunningTest =
  rt_Upstream :: string
  rt_Protocol :: string
  rt_StartTime :: time

record test_complete =
  tc_Upstream :: string
  tc_Protocol :: string
  tc_StartTime :: time
  tc_Success :: bool
  tc_RTTMs :: float64
  tc_Error :: "probe_error option"

datatype metrics_call =
    MetricsProbe string string bool
  | MetricsUpstream string UpstreamStats

text \<open>The hook may be absent; \<open>co_completed\<close> are the calls it received, \<open>co_metrics\<close> those of the metrics.\<close>

record Collector =
  co_cfg :: MeasurementConfig
  co_hook :: bool
  co_running :: "(string, RunningTest) gomap"
  co_nextCycleID :: uint64
  co_completed :: "test_complete list"
  co_metrics :: "metrics_call list"

definition NewCollector :: "MeasurementConfig \<Rightarrow> bool \<Rightarrow> Collector" where
  "NewCollector cfg hook =
     \<lparr>co_cfg = cfg, co_hook = hook, co_running = [], co_nextCycleID = 0, co_completed = [], co_metrics = []\<rparr>"

definition protocolConfig :: "Collector \<Rightarrow> string \<Rightarrow> measure_error + MeasurementProtocolConfig" where
  "protocolConfig c network =
     (if ToLower (TrimSpace network) = ''tcp'' then Inr (mps_TCP (mc_Protocols (co_cfg c)))
      else if ToLower (TrimSpace network) = ''udp'' then Inr (mps_UDP (mc_Protocols (co_cfg c)))
      else Inl (UnsupportedProtocol network))"

definition setRunning :: "time \<Rightarrow> string \<Rightarrow> string \<Rightarrow> Collector \<Rightarrow> Collector" where
  "setRunning now tag protocol c =
     c\<lparr>co_running := gput (sched_key tag protocol) \<lparr>rt_Upstream = tag, rt_Protocol = protocol, rt_StartTime = now\<rparr> (co_running c)\<rparr>"

definition clearRunning :: "string \<Rightarrow> string \<Rightarrow> Collector \<Rightarrow> Collector" where
  "clearRunning tag protocol c = c\<lparr>co_running := gdel (sched_key tag protocol) (co_running c)\<rparr>"

definition RunningTests :: "Collector \<Rightarrow> RunningTest list" where
  "RunningTests c = map snd (co_running c)"

definition newCycleID :: "Collector \<Rightarrow> Collector" where
  "newCycleID c = c\<lparr>co_nextCycleID := co_nextCycleID c + 1\<rparr>"

definition measure_address :: "Upstream \<Rightarrow> string" where
  "measure_address up =
     JoinHostPort (if up_MeasureHost up = [] then up_Host up else up_MeasureHost up) (Itoa (if up_MeasurePort up = 0 then 9876 else up_MeasurePort up))"

definition test_completed :: "test_complete \<Rightarrow> Collector \<Rightarrow> Collector" where
  "test_completed t c = (if co_hook c then c\<lparr>co_completed := co_completed c @ [t]\<rparr> else c)"

text \<open>What a probe of a client finds: \<open>ProbeTCP\<close> and \<open>ProbeUDP\<close> on the network of this round.\<close>

record probes =
  pb_TCP :: "Client \<Rightarrow> Result \<times> probe_error option"
  pb_UDP :: "Client \<Rightarrow> Result \<times> probe_error option"

definition runMeasurement ::
    "probes \<Rightarrow> time \<Rightarrow> Upstream \<Rightarrow> string \<Rightarrow> duration \<Rightarrow> Collector \<Rightarrow> (measure_error + ProbeObservation) \<times> Collector" where
  "runMeasurement net startTime up network timeout c =
     (let c1 = setRunning startTime (up_Tag up) network (newCycleID c);
          done = (\<lambda>success rtt err. clearRunning (up_Tag up) network (test_completed
            \<lparr>tc_Upstream = up_Tag up, tc_Protocol = network, tc_StartTime = startTime, tc_Success = success, tc_RTTMs = rtt, tc_Error = err\<rparr> c1))
      in case Fbmeasure.NewClient \<lparr>cc_Address = measure_address up, cc_Timeout = timeout\<rparr> of
           Inl e \<Rightarrow> (Inl (ProbeFailed e), done False 0 (Some e))
         | Inr client \<Rightarrow>
             (case (if network = ''tcp'' then pb_TCP net client else pb_UDP net client) of
                (_, Some e) \<Rightarrow> (Inl (ProbeFailed e), done False 0 (Some e))
              | (r, None) \<Rightarrow>
                  (Inr \<lparr>po_Success = rs_Reachable r, po_RTT = rs_RTT r, po_ObservedAt = rs_ObservedAt r\<rparr>,
                   done True (of_int (rs_RTT r) / of_int millisecond) None)))"

text \<open>The clock readings of one round of the loop, the random number and the probes.\<close>

record round =
  rd_scheduled :: time
  rd_ready :: time
  rd_started :: time
  rd_recorded :: time
  rd_finished :: time
  rd_rnd :: int
  rd_probes :: probes

record measure_state =
  me_scheduler :: Scheduler
  me_collector :: Collector
  me_manager :: UpstreamManager

definition metrics_calls :: "metrics_call list \<Rightarrow> Collector \<Rightarrow> Collector" where
  "metrics_calls calls c = c\<lparr>co_metrics := co_metrics c @ calls\<rparr>"

definition handleMeasurementFailure :: "time \<Rightarrow> string \<Rightarrow> string \<Rightarrow> Collector \<Rightarrow> UpstreamManager \<Rightarrow> Collector \<times> UpstreamManager" where
  "handleMeasurementFailure now tag protocol c m =
     (case RecordProbeFailure now tag now m of
        (stats, m') \<Rightarrow> (metrics_calls [MetricsProbe tag protocol False, MetricsUpstream tag stats] c, m'))"

definition handleMeasurementSuccess ::
    "time \<Rightarrow> string \<Rightarrow> string \<Rightarrow> ProbeObservation \<Rightarrow> Collector \<Rightarrow> UpstreamManager \<Rightarrow> Collector \<times> UpstreamManager" where
  "handleMeasurementSuccess now tag protocol result c m =
     (case RecordProbe now tag result m of
        (stats, m') \<Rightarrow> (metrics_calls [MetricsProbe tag protocol True, MetricsUpstream tag stats] c, m'))"

definition RunProtocol ::
    "round \<Rightarrow> Upstream \<Rightarrow> string \<Rightarrow> Collector \<Rightarrow> UpstreamManager \<Rightarrow> measure_error option \<times> Collector \<times> UpstreamManager" where
  "RunProtocol r up network c m =
     (case protocolConfig c network of
        Inl e \<Rightarrow> (Some e, c, m)
      | Inr _ \<Rightarrow>
          let probeTimeout = (if mc_ProbeTimeout (co_cfg c) \<le> 0 then defaultProbeTimeout else mc_ProbeTimeout (co_cfg c))
          in case runMeasurement (rd_probes r) (rd_started r) up network probeTimeout c of
               (Inl e, c1) \<Rightarrow> (Some e, handleMeasurementFailure (rd_recorded r) (up_Tag up) network c1 m)
             | (Inr result, c1) \<Rightarrow> (None, handleMeasurementSuccess (rd_recorded r) (up_Tag up) network result c1 m))"

definition syncUpstreamMetrics :: "time \<Rightarrow> measure_state \<Rightarrow> measure_state" where
  "syncUpstreamMetrics now st =
     (case StatsSnapshot now (me_manager st) of
        (stats, m) \<Rightarrow> st\<lparr>me_manager := m, me_collector := metrics_calls (map (\<lambda>(tag, s). MetricsUpstream tag s) stats) (me_collector st)\<rparr>)"

text \<open>The measurement that was run, if one was, and whether it succeeded.\<close>

definition runReady :: "queue_sort \<Rightarrow> round \<Rightarrow> measure_state \<Rightarrow> (scheduledMeasurement \<times> bool) option \<times> measure_state" where
  "runReady srt r st =
     (case NextReady (rd_ready r) (me_scheduler st) of
        (None, _) \<Rightarrow> (None, st)
      | (Some m, s1) \<Rightarrow>
          (case RunProtocol r (sm_upstream m) (sm_protocol m) (me_collector st) (me_manager st) of
             (err, c1, m1) \<Rightarrow>
               let s2 = (if err \<noteq> None then Requeue srt (rd_finished r) m retryDelay s1 else MarkRun srt (rd_finished r) (rd_rnd r) m s1)
               in (Some (m, err = None), syncUpstreamMetrics (rd_finished r) (st\<lparr>me_scheduler := s2, me_collector := c1, me_manager := m1\<rparr>))))"

text \<open>One round of \<open>RunLoop\<close>: the first, or one of the ticker.\<close>

definition loop_round :: "queue_sort \<Rightarrow> round \<Rightarrow> measure_state \<Rightarrow> (scheduledMeasurement \<times> bool) option \<times> measure_state" where
  "loop_round srt r st =
     runReady srt r (syncUpstreamMetrics (rd_scheduled r) (st\<lparr>me_scheduler := Schedule srt (rd_scheduled r) (me_scheduler st)\<rparr>))"

record probe_run =
  pr_key :: string
  pr_started :: time
  pr_succeeded :: bool
  pr_finished :: time

fun RunLoop :: "queue_sort \<Rightarrow> round list \<Rightarrow> measure_state \<Rightarrow> probe_run list \<times> measure_state" where
  "RunLoop srt [] st = ([], st)"
| "RunLoop srt (r # rs) st =
     (case loop_round srt r st of
        (run, st1) \<Rightarrow>
          (case RunLoop srt rs st1 of
             (runs, st2) \<Rightarrow>
               ((case run of None \<Rightarrow> [] | Some (m, ok) \<Rightarrow> [\<lparr>pr_key = item_key m, pr_started = rd_ready r, pr_succeeded = ok, pr_finished = rd_finished r\<rparr>]) @ runs, st2)))"

section \<open>Sorting\<close>

text \<open>What the scheduler needs of \<open>sort.Slice\<close>.\<close>

locale queue_sorter =
  fixes srt :: queue_sort
  assumes perm: "mset (srt q) = mset q"
    and ordered: "sorted (map sm_dueAt (srt q))"
begin

lemma set_srt [simp]: "set (srt q) = set q"
  using perm by (metis set_mset_mset)

lemma keys_srt [simp]: "distinct (map item_key (srt q)) \<longleftrightarrow> distinct (map item_key q)"
  using perm by (metis mset_eq_imp_distinct_iff mset_map)

end

definition sortQueueLocked :: queue_sort where
  "sortQueueLocked q = stable_sort (\<lambda>a b. time_before (sm_dueAt a) (sm_dueAt b)) q"

interpretation due_order: strict_weak "\<lambda>a b. time_before (sm_dueAt a) (sm_dueAt b)" "\<lambda>_ :: scheduledMeasurement. True"
  by unfold_locales (auto simp: time_before_def)

interpretation stable_queue: queue_sorter sortQueueLocked
proof
  fix q
  show "mset (sortQueueLocked q) = mset q" by (simp add: sortQueueLocked_def)
  show "sorted (map sm_dueAt (sortQueueLocked q))"
    using due_order.sorted_stable_sort [of q] by (simp add: sortQueueLocked_def sorted_map time_before_def not_less)
qed

section \<open>Pacing\<close>

definition all_keys :: "Upstream list \<Rightarrow> string list \<Rightarrow> string set" where
  "all_keys ups protocols = (\<lambda>(u, p). sched_key (up_Tag u) p) ` (set ups \<times> set protocols)"

lemma schedule_missing_keys:
  "distinct (map item_key (schedule_missing now ps queued)) \<and>
   set (map item_key (schedule_missing now ps queued)) = (\<lambda>(u, p). sched_key (up_Tag u) p) ` set ps - set queued"
proof (induction now ps queued rule: schedule_missing.induct)
  case (2 now up proto rest queued)
  show ?case
  proof (cases "sched_key (up_Tag up) proto \<in> set queued")
    case True
    then show ?thesis using "2.IH"(1) [OF refl] by auto
  next
    case False
    then show ?thesis using "2.IH"(2) [OF refl] by (auto simp: item_key_def Let_def)
  qed
qed simp

definition probe_wait :: "SchedulerConfig \<Rightarrow> probe_run \<Rightarrow> duration" where
  "probe_wait cfg e = (if pr_succeeded e then sc_MinInterval cfg else retryDelay)"

definition paced :: "SchedulerConfig \<Rightarrow> probe_run \<Rightarrow> probe_run \<Rightarrow> bool" where
  "paced cfg e e' \<longleftrightarrow>
     (0 < sc_InterUpstreamGap cfg \<longrightarrow> pr_started e + sc_InterUpstreamGap cfg \<le> pr_started e') \<and>
     (pr_key e = pr_key e' \<longrightarrow> pr_finished e + probe_wait cfg e \<le> pr_started e')"

definition sched_inv :: "SchedulerConfig \<Rightarrow> Upstream list \<Rightarrow> probe_run list \<Rightarrow> Scheduler \<Rightarrow> bool" where
  "sched_inv cfg ups runs s \<longleftrightarrow>
     sd_cfg s = cfg \<and> sd_upstreams s = ups \<and> sorted (map sm_dueAt (sd_queue s)) \<and> distinct (map item_key (sd_queue s)) \<and>
     item_key ` set (sd_queue s) \<subseteq> all_keys ups (sc_Protocols cfg) \<and>
     pr_key ` set runs \<subseteq> item_key ` set (sd_queue s) \<and>
     (\<forall>e \<in> set runs. \<forall>m \<in> set (sd_queue s). pr_key e = item_key m \<longrightarrow> pr_finished e + probe_wait cfg e \<le> sm_dueAt m) \<and>
     (0 < sc_InterUpstreamGap cfg \<longrightarrow> (\<forall>e \<in> set runs. pr_started e + sc_InterUpstreamGap cfg \<le> sd_nextAvailable s))"

lemma nextInterval_ge: "sc_MinInterval cfg \<le> nextInterval rnd cfg"
  by (simp add: nextInterval_def)

lemma nextInterval_bounds:
  "sc_MinInterval cfg < sc_MaxInterval cfg \<Longrightarrow> sc_MinInterval cfg \<le> nextInterval rnd cfg \<and> nextInterval rnd cfg < sc_MaxInterval cfg"
  by (simp add: nextInterval_def) (metis add.commute diff_gt_0_iff_gt less_diff_eq pos_mod_bound)

context queue_sorter
begin

lemma Schedule_inv:
  assumes "sched_inv cfg ups runs s"
  shows "sched_inv cfg ups runs (Schedule srt now s)"
    and "item_key ` set (sd_queue (Schedule srt now s)) = all_keys ups (sc_Protocols cfg)"
proof -
  define new where "new = schedule_missing now (List.product ups (sc_Protocols cfg)) (map item_key (sd_queue s))"
  have s: "sd_cfg s = cfg" "sd_upstreams s = ups" using assms by (auto simp: sched_inv_def)
  have new: "distinct (map item_key new)" "item_key ` set new = all_keys ups (sc_Protocols cfg) - item_key ` set (sd_queue s)"
    using schedule_missing_keys [of now "List.product ups (sc_Protocols cfg)" "map item_key (sd_queue s)"]
    by (simp_all add: new_def all_keys_def)
  have q: "sd_queue (Schedule srt now s) = srt (sd_queue s @ new)" by (simp add: Schedule_def new_def s)
  have fresh: "item_key m \<notin> pr_key ` set runs" if "m \<in> set new" for m
  proof -
    have "item_key m \<notin> item_key ` set (sd_queue s)" using imageI [OF that, of item_key] unfolding new(2) by blast
    then show ?thesis using assms by (auto simp: sched_inv_def)
  qed
  show "item_key ` set (sd_queue (Schedule srt now s)) = all_keys ups (sc_Protocols cfg)"
    using assms new(2) by (auto simp: q sched_inv_def)
  note keys = this
  have old: "item_key ` set (sd_queue s) \<subseteq> all_keys ups (sc_Protocols cfg)" "pr_key ` set runs \<subseteq> item_key ` set (sd_queue s)"
    using assms by (auto simp: sched_inv_def)
  show "sched_inv cfg ups runs (Schedule srt now s)"
    unfolding sched_inv_def
  proof (intro conjI)
    show "sd_cfg (Schedule srt now s) = cfg" "sd_upstreams (Schedule srt now s) = ups" by (simp_all add: Schedule_def s)
    show "sorted (map sm_dueAt (sd_queue (Schedule srt now s)))" using ordered by (simp add: q)
    show "distinct (map item_key (sd_queue (Schedule srt now s)))"
      unfolding q keys_srt using assms new by (auto simp: sched_inv_def)
    show "item_key ` set (sd_queue (Schedule srt now s)) \<subseteq> all_keys ups (sc_Protocols cfg)" using keys by simp
    show "pr_key ` set runs \<subseteq> item_key ` set (sd_queue (Schedule srt now s))" unfolding keys using old by blast
    show "\<forall>e \<in> set runs. \<forall>m \<in> set (sd_queue (Schedule srt now s)). pr_key e = item_key m \<longrightarrow> pr_finished e + probe_wait cfg e \<le> sm_dueAt m"
    proof (intro ballI impI)
      fix e m assume e: "e \<in> set runs" and m: "m \<in> set (sd_queue (Schedule srt now s))" and k: "pr_key e = item_key m"
      from fresh k e have "m \<notin> set new" by (metis imageI)
      with m have "m \<in> set (sd_queue s)" by (simp add: q)
      with assms e k show "pr_finished e + probe_wait cfg e \<le> sm_dueAt m" by (simp add: sched_inv_def)
    qed
    show "0 < sc_InterUpstreamGap cfg \<longrightarrow> (\<forall>e \<in> set runs. pr_started e + sc_InterUpstreamGap cfg \<le> sd_nextAvailable (Schedule srt now s))"
      using assms by (simp add: Schedule_def sched_inv_def)
  qed
qed

lemma requeue_inv:
  assumes inv: "sched_inv cfg ups runs s" and ready: "NextReady now s = (Some m, s1)" and "now \<le> t" and "0 \<le> sc_MinInterval cfg"
    and e: "e = \<lparr>pr_key = item_key m, pr_started = now, pr_succeeded = ok, pr_finished = t\<rparr>" and due: "t + probe_wait cfg e \<le> due"
    and s2: "sd_queue s2 = srt (sd_queue s1 @ [m\<lparr>sm_dueAt := due\<rparr>])" "sd_cfg s2 = cfg" "sd_upstreams s2 = ups" "sd_nextAvailable s2 = sd_nextAvailable s1"
  shows "sched_inv cfg ups (runs @ [e]) s2" and "list_all (\<lambda>e0. paced cfg e0 e) runs"
proof -
  from ready obtain rest where q: "sd_queue s = m # rest" "sd_queue s1 = rest" and now: "sd_nextAvailable s \<le> now" "sm_dueAt m \<le> now"
    and av: "sd_nextAvailable s1 = (if sc_InterUpstreamGap (sd_cfg s) > 0 then now + sc_InterUpstreamGap (sd_cfg s) else sd_nextAvailable s)"
    by (auto simp: NextReady_def time_before_def time_add_def split: list.splits if_splits)
  have cfg: "sd_cfg s = cfg" using inv by (simp add: sched_inv_def)
  have key: "item_key (m\<lparr>sm_dueAt := due\<rparr>) = item_key m" by (simp add: item_key_def)
  have past: "pr_finished e0 + probe_wait cfg e0 \<le> now" if "e0 \<in> set runs" "pr_key e0 = item_key m" for e0
    using inv q now that by (auto simp: sched_inv_def)
  show "list_all (\<lambda>e0. paced cfg e0 e) runs"
    using inv now past by (auto simp: list_all_iff paced_def e sched_inv_def)
  have wait: "0 \<le> probe_wait cfg e" using assms(4) by (simp add: probe_wait_def retryDelay_def)
  have dues: "pr_finished e0 + probe_wait cfg e0 \<le> due" if "e0 \<in> set (runs @ [e])" "pr_key e0 = item_key m" for e0
    using past [of e0] that \<open>now \<le> t\<close> due wait by (auto simp: e)
  have others: "item_key x \<noteq> item_key m" if "x \<in> set rest" for x
    using inv q imageI [OF that, of item_key] by (simp add: sched_inv_def) metis
  show "sched_inv cfg ups (runs @ [e]) s2"
    unfolding sched_inv_def
  proof (intro conjI)
    show "sorted (map sm_dueAt (sd_queue s2))" using ordered by (simp add: s2)
    show "distinct (map item_key (sd_queue s2))" using inv q others key by (auto simp: s2 sched_inv_def)
    show "item_key ` set (sd_queue s2) \<subseteq> all_keys ups (sc_Protocols cfg)" using inv q key by (auto simp: s2 sched_inv_def)
    show "pr_key ` set (runs @ [e]) \<subseteq> item_key ` set (sd_queue s2)" using inv q key by (auto simp: s2 sched_inv_def e)
    show "\<forall>e0 \<in> set (runs @ [e]). \<forall>x \<in> set (sd_queue s2). pr_key e0 = item_key x \<longrightarrow> pr_finished e0 + probe_wait cfg e0 \<le> sm_dueAt x"
      using inv q key dues others by (auto simp: s2 sched_inv_def e)
    show "0 < sc_InterUpstreamGap cfg \<longrightarrow> (\<forall>e0 \<in> set (runs @ [e]). pr_started e0 + sc_InterUpstreamGap cfg \<le> sd_nextAvailable s2)"
      using inv now by (auto simp: s2 av cfg sched_inv_def e)
  qed (simp_all add: s2)
qed

end

lemma syncUpstreamMetrics_scheduler [simp]: "me_scheduler (syncUpstreamMetrics now st) = me_scheduler st"
  by (simp add: syncUpstreamMetrics_def split: prod.split)

definition run_log :: "round \<Rightarrow> (scheduledMeasurement \<times> bool) option \<Rightarrow> probe_run list" where
  "run_log r run =
     (case run of None \<Rightarrow> [] | Some (m, ok) \<Rightarrow> [\<lparr>pr_key = item_key m, pr_started = rd_ready r, pr_succeeded = ok, pr_finished = rd_finished r\<rparr>])"

context queue_sorter
begin

lemma runReady_inv:
  assumes inv: "sched_inv cfg ups runs (me_scheduler st)" and run: "runReady srt r st = (run, st')"
    and clock: "rd_ready r \<le> rd_finished r" and min: "0 \<le> sc_MinInterval cfg"
  shows "sched_inv cfg ups (runs @ run_log r run) (me_scheduler st')" and "\<forall>e \<in> set runs. \<forall>e' \<in> set (run_log r run). paced cfg e e'"
    and "item_key ` set (sd_queue (me_scheduler st')) = item_key ` set (sd_queue (me_scheduler st))"
proof -
  define s where "s = me_scheduler st"
  have "sched_inv cfg ups (runs @ run_log r run) (me_scheduler st') \<and> (\<forall>e \<in> set runs. \<forall>e' \<in> set (run_log r run). paced cfg e e') \<and>
      item_key ` set (sd_queue (me_scheduler st')) = item_key ` set (sd_queue (me_scheduler st))"
  proof (cases "NextReady (rd_ready r) s")
    case (Pair mo s1)
    show ?thesis
    proof (cases mo)
      case None
      then show ?thesis using Pair run inv by (auto simp: runReady_def s_def [symmetric] run_log_def)
    next
      case (Some m)
      obtain err c1 m1 where p: "RunProtocol r (sm_upstream m) (sm_protocol m) (me_collector st) (me_manager st) = (err, c1, m1)"
        by (cases "RunProtocol r (sm_upstream m) (sm_protocol m) (me_collector st) (me_manager st)") auto
      define s2 where "s2 = (if err \<noteq> None then Requeue srt (rd_finished r) m retryDelay s1 else MarkRun srt (rd_finished r) (rd_rnd r) m s1)"
      have st': "me_scheduler st' = s2" and ok: "run = Some (m, err = None)"
        using run Pair Some p by (auto simp: runReady_def s_def [symmetric] s2_def Let_def)
      define e where "e = \<lparr>pr_key = item_key m, pr_started = rd_ready r, pr_succeeded = (err = None), pr_finished = rd_finished r\<rparr>"
      define due where "due = rd_finished r + (if err \<noteq> None then retryDelay else nextInterval (rd_rnd r) cfg)"
      have s1: "sd_cfg s1 = cfg" "sd_upstreams s1 = ups" "sd_queue s = m # sd_queue s1"
        using Pair Some inv by (auto simp: NextReady_def s_def [symmetric] sched_inv_def split: list.splits if_splits)
      have s2: "sd_queue s2 = srt (sd_queue s1 @ [m\<lparr>sm_dueAt := due\<rparr>])" "sd_cfg s2 = cfg" "sd_upstreams s2 = ups" "sd_nextAvailable s2 = sd_nextAvailable s1"
        by (simp_all add: s2_def due_def Requeue_def MarkRun_def time_add_def s1)
      have "rd_finished r + probe_wait cfg e \<le> due"
        using nextInterval_ge [of cfg "rd_rnd r"] by (simp add: due_def probe_wait_def e_def)
      note step = requeue_inv [OF inv [folded s_def] Pair [unfolded Some] clock min e_def this s2]
      have log: "run_log r run = [e]" by (simp add: ok run_log_def e_def)
      have "item_key ` set (sd_queue s2) = item_key ` set (sd_queue s)" by (simp add: s2 s1 item_key_def)
      then show ?thesis using step by (simp add: log st' s_def [symmetric] list_all_iff)
    qed
  qed
  then show "sched_inv cfg ups (runs @ run_log r run) (me_scheduler st')" and "\<forall>e \<in> set runs. \<forall>e' \<in> set (run_log r run). paced cfg e e'"
    and "item_key ` set (sd_queue (me_scheduler st')) = item_key ` set (sd_queue (me_scheduler st))" by blast+
qed

lemma RunLoop_inv:
  assumes "sched_inv cfg ups before (me_scheduler st)" and "sorted_wrt (paced cfg) before"
    and "RunLoop srt rounds st = (runs, st')" and "\<forall>r \<in> set rounds. rd_ready r \<le> rd_finished r" and "0 \<le> sc_MinInterval cfg"
  shows "sched_inv cfg ups (before @ runs) (me_scheduler st') \<and> sorted_wrt (paced cfg) (before @ runs) \<and>
     (rounds \<noteq> [] \<longrightarrow> item_key ` set (sd_queue (me_scheduler st')) = all_keys ups (sc_Protocols cfg))"
  using assms
proof (induction rounds arbitrary: before st runs)
  case (Cons r rs)
  obtain run st1 where round: "loop_round srt r st = (run, st1)" by (cases "loop_round srt r st")
  obtain rest where rest: "RunLoop srt rs st1 = (rest, st')" "runs = run_log r run @ rest"
    using Cons.prems(3) round by (auto simp: run_log_def split: prod.splits)
  define st0 where "st0 = syncUpstreamMetrics (rd_scheduled r) (st\<lparr>me_scheduler := Schedule srt (rd_scheduled r) (me_scheduler st)\<rparr>)"
  have st0: "me_scheduler st0 = Schedule srt (rd_scheduled r) (me_scheduler st)" by (simp add: st0_def)
  note sch = Schedule_inv [OF Cons.prems(1), of "rd_scheduled r", folded st0]
  have rr: "runReady srt r st0 = (run, st1)" using round by (simp add: loop_round_def st0_def)
  have clock: "rd_ready r \<le> rd_finished r" using Cons.prems(4) by simp
  note step = runReady_inv [OF sch(1) rr clock Cons.prems(5)]
  have "sorted_wrt (paced cfg) (before @ run_log r run)"
    using Cons.prems(2) step(2) by (auto simp: sorted_wrt_append run_log_def split: option.split prod.split)
  from Cons.IH [OF step(1) this rest(1)] Cons.prems(4,5) have
    IH: "sched_inv cfg ups ((before @ run_log r run) @ rest) (me_scheduler st')" "sorted_wrt (paced cfg) ((before @ run_log r run) @ rest)"
    "rs \<noteq> [] \<longrightarrow> item_key ` set (sd_queue (me_scheduler st')) = all_keys ups (sc_Protocols cfg)" by auto
  moreover have "item_key ` set (sd_queue (me_scheduler st')) = all_keys ups (sc_Protocols cfg)" if "rs = []"
    using that rest(1) step(3) sch(2) by simp
  ultimately show ?case unfolding rest(2) by auto
qed simp

lemma new_scheduler_inv: "sched_inv cfg ups [] (NewScheduler cfg ups)"
  by (simp add: sched_inv_def NewScheduler_def)

end

text \<open>
  C35: probes are paced and none is forgotten. However the queue is sorted, and whatever the
  probes find, two probes start at least the configured gap apart, a pair of an upstream and a
  protocol that was probed is probed again only after the least interval, or after thirty seconds when the
  probe failed, and after every round of the loop every pair is queued exactly once.
\<close>

theorem probes_paced:
  assumes "queue_sorter srt" and "me_scheduler st = NewScheduler cfg ups" and "RunLoop srt rounds st = (runs, st')"
    and "\<forall>r \<in> set rounds. rd_ready r \<le> rd_finished r" and "0 \<le> sc_MinInterval cfg" and "rounds \<noteq> []"
  shows "sorted_wrt (\<lambda>e e'.
       (0 < sc_InterUpstreamGap cfg \<longrightarrow> pr_started e + sc_InterUpstreamGap cfg \<le> pr_started e') \<and>
       (pr_key e = pr_key e' \<longrightarrow> pr_finished e + (if pr_succeeded e then sc_MinInterval cfg else retryDelay) \<le> pr_started e')) runs \<and>
     distinct (map item_key (sd_queue (me_scheduler st'))) \<and>
     set (map item_key (sd_queue (me_scheduler st'))) = {sched_key (up_Tag u) p |u p. u \<in> set ups \<and> p \<in> set (sc_Protocols cfg)}"
proof -
  have "sched_inv cfg ups [] (me_scheduler st)" using queue_sorter.new_scheduler_inv [OF assms(1)] by (simp add: assms(2))
  from queue_sorter.RunLoop_inv [OF assms(1) this _ assms(3-5)]
  have h: "sched_inv cfg ups runs (me_scheduler st')" "sorted_wrt (paced cfg) runs"
    "item_key ` set (sd_queue (me_scheduler st')) = all_keys ups (sc_Protocols cfg)" using assms(6) by auto
  then show ?thesis
    by (auto simp: paced_def [abs_def] probe_wait_def sched_inv_def all_keys_def simp del: if_split)
qed

section \<open>A round with a live server\<close>

lemma configured_client:
  assumes "config_wf cfg"
  shows "Fbmeasure.NewClient \<lparr>cc_Address = measure_address up, cc_Timeout = mc_ProbeTimeout (cfg_Measurement cfg)\<rparr> =
    Inr \<lparr>cl_address = measure_address up, cl_timeout = mc_ProbeTimeout (cfg_Measurement cfg), cl_closed = False\<rparr>"
proof -
  have "measure_address up \<noteq> []" by (simp add: measure_address_def JoinHostPort_def)
  moreover have "100 * millisecond \<le> mc_ProbeTimeout (cfg_Measurement cfg)" "mc_ProbeTimeout (cfg_Measurement cfg) \<le> 10 * second"
    using assms by (simp_all add: config_wf_def)
  ultimately show ?thesis by (simp add: Fbmeasure.NewClient_def minTimeout_def maxTimeout_def)
qed

lemma record_healthy:
  assumes "gget (um_upstreams m) tag = Some up" and "hs_State (up_health up) \<noteq> HealthDown"
  shows "\<exists>up'. gget (um_upstreams (snd (RecordProbe now tag \<lparr>po_Success = True, po_RTT = d, po_ObservedAt = t\<rparr> m))) tag = Some up' \<and>
     hs_State (up_health up') = HealthHealthy"
proof -
  let ?ob = "\<lparr>po_Success = True, po_RTT = d, po_ObservedAt = t\<rparr>"
  let ?up = "refreshStatsLocked now (um_healthConfig m) (up\<lparr>up_health := ApplyObservation now (up_health up) ?ob (um_healthConfig m)\<rparr>)"
  have "gget (um_upstreams (snd (RecordProbe now tag ?ob m))) tag = Some ?up"
    using assms(1) by (auto simp: RecordProbe_def Let_def update_upstream_def)
  moreover have "hs_State (up_health ?up) = HealthHealthy"
    using assms(2) by (simp add: refreshStatsLocked_def Let_def ApplyObservation_def)
  ultimately show ?thesis by blast
qed

text \<open>
  C32: the measurement finds a live upstream, end to end. With a configuration that loads, a
  TCP round against a server that runs the echo handler makes a client with the configured
  timeout, gets its three frames back and records a success with the least of their times; an
  upstream that was not down is healthy from then on.
\<close>

theorem live_upstream_recorded:
  assumes "config_wf cfg" and "co_cfg c = cfg_Measurement cfg"
    and "length rs = sampleCount" and "list_all (\<lambda>b. length b = 16) rs"
    and "length ts = sampleCount" and "list_all (\<lambda>t. 0 < time_sub (snd t) (fst t)) ts"
    and "pb_TCP (rd_probes r) = ProbeTCP t0 t1 True False
      (map (\<lambda>(b, t, e). answered_sample b t e) (zip rs (zip ts (handleTCP (\<lambda>_. True) (\<lambda>_. True) (probe_frames 0 rs)))))"
    and "gget (um_upstreams m) (up_Tag up) = Some u" and "hs_State (up_health u) \<noteq> HealthDown"
  shows "\<exists>c' m' u'. RunProtocol r up ''tcp'' c m = (None, c', m') \<and>
     m' = snd (RecordProbe (rd_recorded r) (up_Tag up)
            \<lparr>po_Success = True, po_RTT = Min ((\<lambda>t. time_sub (snd t) (fst t)) ` set ts), po_ObservedAt = t1\<rparr> m) \<and>
     gget (um_upstreams m') (up_Tag up) = Some u' \<and> hs_State (up_health u') = HealthHealthy"
proof -
  let ?d = "Min ((\<lambda>t. time_sub (snd t) (fst t)) ` set ts)"
  let ?ob = "\<lparr>po_Success = True, po_RTT = ?d, po_ObservedAt = t1\<rparr>"
  let ?cl = "\<lparr>cl_address = measure_address up, cl_timeout = mc_ProbeTimeout (cfg_Measurement cfg), cl_closed = False\<rparr>"
  have probe: "pb_TCP (rd_probes r) ?cl = (\<lparr>rs_Protocol = ProtocolTCP, rs_Reachable = True, rs_RTT = ?d, rs_ObservedAt = t1\<rparr>, None)"
    unfolding assms(7) using conjunct2 [OF server_probe [OF _ assms(3-6), of ?cl t0 t1 False]] by simp
  have timeout: "\<not> mc_ProbeTimeout (cfg_Measurement cfg) \<le> 0" using assms(1) by (simp add: config_wf_def)
  have net: "protocolConfig c ''tcp'' = Inr (mps_TCP (mc_Protocols (co_cfg c)))" by (simp add: protocolConfig_def)
  obtain c1 where run: "runMeasurement (rd_probes r) (rd_started r) up ''tcp'' (mc_ProbeTimeout (cfg_Measurement cfg)) c = (Inr ?ob, c1)"
    using configured_client [OF assms(1), of up] probe by (simp add: runMeasurement_def Let_def)
  obtain c2 where "RunProtocol r up ''tcp'' c m = (None, c2, snd (RecordProbe (rd_recorded r) (up_Tag up) ?ob m))"
    using net timeout run assms(2) by (simp add: RunProtocol_def Let_def handleMeasurementSuccess_def split_beta)
  then show ?thesis using record_healthy [OF assms(8,9)] by blast
qed

section \<open>Samples\<close>

definition sample_round :: "probes \<Rightarrow> round" where
  "sample_round net = \<lparr>rd_scheduled = 1, rd_ready = 2, rd_started = 3, rd_recorded = 4, rd_finished = 5, rd_rnd = 0, rd_probes = net\<rparr>"

definition sample_probes :: probes where
  "sample_probes = \<lparr>pb_TCP = ProbeTCP 3 5 False False [], pb_UDP = ProbeUDP 3 5 False False False []\<rparr>"

definition sample_schedule :: SchedulerConfig where
  "sample_schedule = \<lparr>sc_MinInterval = 15 * minute, sc_MaxInterval = 45 * minute, sc_InterUpstreamGap = 5 * second, sc_Protocols = [''tcp'', ''udp'']\<rparr>"

definition sample_measured :: Upstream where
  "sample_measured = make_upstream ''a'' ''a.test'' ''a.test'' 9876 1 [sample_ip]"

definition sample_measure_state :: measure_state where
  "sample_measure_state = \<lparr>me_scheduler = NewScheduler sample_schedule [sample_measured],
     me_collector = NewCollector \<lparr>mc_Schedule = \<lparr>ms_Interval = \<lparr>mi_Min = 15 * minute, mi_Max = 45 * minute\<rparr>, ms_UpstreamGap = 5 * second\<rparr>,
       mc_ProbeTimeout = 2 * second, mc_Protocols = \<lparr>mps_TCP = \<lparr>mp_Enabled = None\<rparr>, mps_UDP = \<lparr>mp_Enabled = None\<rparr>\<rparr>\<rparr> False,
     me_manager = sample_manager\<rparr>"

lemma make_upstream_view [simp]:
  "up_Tag (make_upstream tag host mhost mport prio ips) = tag" "up_health (make_upstream tag host mhost mport prio ips) = zero_snapshot"
  by (simp_all add: make_upstream_def SetActiveIP_def split: option.split)

lemma sample_measured_tag: "up_Tag sample_measured = ''a''"
  by (simp add: sample_measured_def)

theorem probes_paced_witness:
  "set (map item_key (sd_queue (me_scheduler (snd (RunLoop sortQueueLocked [sample_round sample_probes, sample_round sample_probes] sample_measure_state))))) =
     {''a:tcp'', ''a:udp''}"
proof -
  obtain runs st' where run: "RunLoop sortQueueLocked [sample_round sample_probes, sample_round sample_probes] sample_measure_state = (runs, st')"
    by (cases "RunLoop sortQueueLocked [sample_round sample_probes, sample_round sample_probes] sample_measure_state")
  have "me_scheduler sample_measure_state = NewScheduler sample_schedule [sample_measured]" by (simp add: sample_measure_state_def)
  from probes_paced [OF stable_queue.queue_sorter_axioms this run]
  have "set (map item_key (sd_queue (me_scheduler st'))) = {sched_key (up_Tag u) p |u p. u \<in> set [sample_measured] \<and> p \<in> set [''tcp'', ''udp'']}"
    by (simp add: sample_round_def sample_schedule_def)
  also have "\<dots> = {''a:tcp'', ''a:udp''}" by (auto simp: sample_measured_tag sched_key_def)
  finally show ?thesis unfolding run snd_conv .
qed

definition sample_echoes :: probes where
  "sample_echoes = \<lparr>pb_TCP = ProbeTCP 3 5 True False
      (map (\<lambda>(b, t, e). answered_sample b t e) (zip (replicate 3 sample_entropy) (zip [(10, 15), (20, 23), (30, 34)]
         (handleTCP (\<lambda>_. True) (\<lambda>_. True) (probe_frames 0 (replicate 3 sample_entropy)))))),
     pb_UDP = ProbeUDP 3 5 False False False []\<rparr>"

theorem live_upstream_recorded_witness:
  "\<exists>cfg c' m' u'. config_wf cfg \<and>
     RunProtocol (sample_round sample_echoes) sample_measured ''tcp'' (NewCollector (cfg_Measurement cfg) False) sample_manager = (None, c', m') \<and>
     gget (um_upstreams m') ''a'' = Some u' \<and> hs_State (up_health u') = HealthHealthy"
proof -
  from sample_loads obtain cfg where "LoadConfig (\<lambda>_. None) None (Some sample_file) = Inr cfg" by blast
  from LoadConfig_validated [OF this] obtain c0 where "validate (\<lambda>_. None) None c0 = Inr cfg" .
  then have wf: "config_wf cfg" by (rule validated_config_wf)
  have h: "length (replicate 3 sample_entropy) = sampleCount" "list_all (\<lambda>b. length b = 16) (replicate 3 sample_entropy)"
    "length [(10 :: time, 15 :: time), (20, 23), (30, 34)] = sampleCount"
    "list_all (\<lambda>t. 0 < time_sub (snd t) (fst t)) [(10 :: time, 15 :: time), (20, 23), (30, 34)]"
    by (simp_all add: sampleCount_def sample_entropy_def numeral_3_eq_3 time_sub_def max_duration_def min_duration_def)
  have up: "case gget (um_upstreams sample_manager) ''a'' of None \<Rightarrow> False | Some u \<Rightarrow> hs_State (up_health u) \<noteq> HealthDown"
    by code_simp
  then obtain u where u: "gget (um_upstreams sample_manager) (up_Tag sample_measured) = Some u" "hs_State (up_health u) \<noteq> HealthDown"
    by (auto simp: sample_measured_tag split: option.splits)
  have co: "co_cfg (NewCollector (cfg_Measurement cfg) False) = cfg_Measurement cfg" by (simp add: NewCollector_def)
  have net: "pb_TCP (rd_probes (sample_round sample_echoes)) = ProbeTCP 3 5 True False
      (map (\<lambda>(b, t, e). answered_sample b t e) (zip (replicate 3 sample_entropy) (zip [(10, 15), (20, 23), (30, 34)]
         (handleTCP (\<lambda>_. True) (\<lambda>_. True) (probe_frames 0 (replicate 3 sample_entropy))))))"
    by (simp only: sample_round_def sample_echoes_def round.select_convs probes.select_convs)
  from live_upstream_recorded [OF wf co h net u] wf show ?thesis unfolding sample_measured_tag by blast
qed

end
