(* ===== verification/Runtime.thy ===== *)
theory Runtime
  imports Measure UdpForward Admission
begin

text \<open>
  The runtime: the resolver of the upstream hosts (\<open>internal/resolver/resolver.go\<close>), how a
  configuration is turned into the components and how they are connected
  (\<open>internal/app/runtime.go\<close>), and the supervisor that starts, restarts and stops it
  (\<open>internal/app/supervisor.go\<close>). Name servers, the databases, the policy file and the sockets
  are arguments. The control server, the metrics and the order of the shutdown are not part of this model.
\<close>

section \<open>The resolver\<close>

definition ParseIP :: "string \<Rightarrow> netIP" where
  "ParseIP s =
     (case ParseAddr s of
        None \<Rightarrow> None
      | Some a \<Rightarrow>
          if zone_of a \<noteq> [] then None
          else case as_slice a of None \<Rightarrow> None | Some bs \<Rightarrow> Some (if length bs = 4 then v4_in_v6_prefix @ bs else bs))"

record Resolver =
  rv_servers :: "string list"
  rv_custom :: bool
  rv_next :: "32 word"
  rv_strategy :: string

fun resolver_servers :: "string list \<Rightarrow> string list" where
  "resolver_servers [] = []"
| "resolver_servers (s # ss) =
     (let server = TrimSpace s
      in if server = [] then resolver_servers ss
         else (case SplitHostPort server of None \<Rightarrow> JoinHostPort server ''53'' | Some _ \<Rightarrow> server) # resolver_servers ss)"

definition NewResolver :: "DNSConfig \<Rightarrow> Resolver" where
  "NewResolver cfg =
     \<lparr>rv_servers = resolver_servers (dns_Servers cfg), rv_custom = (dns_Servers cfg \<noteq> []), rv_next = 0, rv_strategy = ToLower (TrimSpace (dns_Strategy cfg))\<rparr>"

text \<open>The server the next query goes to, none for the address the library chose.\<close>

definition resolver_dial :: "Resolver \<Rightarrow> string option \<times> Resolver" where
  "resolver_dial r =
     (if rv_servers r = [] then (None, r)
      else let idx = rv_next r + 1 in (Some (rv_servers r ! (unat idx mod length (rv_servers r))), r\<lparr>rv_next := idx\<rparr>))"

definition filterIPv4 :: "netIP list \<Rightarrow> netIP list" where
  "filterIPv4 ips = filter (\<lambda>ip. case ip of None \<Rightarrow> False | Some bs \<Rightarrow> to4 bs \<noteq> None) ips"

definition filterIPv6 :: "netIP list \<Rightarrow> netIP list" where
  "filterIPv6 ips = filter (\<lambda>ip. case ip of None \<Rightarrow> False | Some bs \<Rightarrow> to4 bs = None) ips"

definition applyResolverStrategy :: "netIP list \<Rightarrow> string \<Rightarrow> netIP list" where
  "applyResolverStrategy ips strategy =
     (if ips = [] then ips
      else if strategy = ''ipv4_only'' then filterIPv4 ips
      else if strategy = ''prefer_ipv6'' then (if filterIPv6 ips \<noteq> [] then filterIPv6 ips else filterIPv4 ips)
      else ips)"

datatype resolve_error = IPv6NotAllowed | LookupFailed | NoIPs string

text \<open>\<open>lookup\<close> is what \<open>LookupIPAddr\<close> returns for the host, none when it fails.\<close>

definition ResolveHost :: "(string \<Rightarrow> netIP list option) \<Rightarrow> string \<Rightarrow> Resolver \<Rightarrow> resolve_error + netIP list" where
  "ResolveHost lookup host r =
     (case ParseIP host of
        Some bs \<Rightarrow> if rv_strategy r = ''ipv4_only'' \<and> to4 bs = None then Inl IPv6NotAllowed else Inr [Some bs]
      | None \<Rightarrow>
          (case lookup host of
             None \<Rightarrow> Inl LookupFailed
           | Some addrs \<Rightarrow>
               let ips = applyResolverStrategy (filter (\<lambda>ip. ip \<noteq> None) addrs) (rv_strategy r)
               in if ips = [] then Inl (NoIPs host) else Inr ips))"

section \<open>From the configuration to the components\<close>

datatype runtime_error =
    RtResolve resolve_error
  | RtGeoIP
  | RtPolicy policy_error
  | RtAuditStore
  | RtOnline online_error
  | RtNotify endpoint_error

fun resolveUpstreams :: "(string \<Rightarrow> netIP list option) \<Rightarrow> Resolver \<Rightarrow> UpstreamConfig list \<Rightarrow> runtime_error + Upstream list" where
  "resolveUpstreams lookup r [] = Inr []"
| "resolveUpstreams lookup r (item # items) =
     (case ResolveHost lookup (ds_Host (cu_Destination item)) r of
        Inl e \<Rightarrow> Inl (RtResolve e)
      | Inr ips \<Rightarrow>
          bind_ok (resolveUpstreams lookup r items) (\<lambda>ups.
            Inr (make_upstream (cu_Tag item) (ds_Host (cu_Destination item)) (um_Host (cu_Measurement item)) (um_Port (cu_Measurement item))
                   (cu_Priority item) ips # ups)))"

definition flow_identity :: "FlowContextIdentity \<Rightarrow> Identity" where
  "flow_identity d = \<lparr>id_ID = fi_ID d, id_Token = fi_Token d, id_Routes = fi_Routes d, id_Upstreams = fi_Upstreams d, id_Namespaces = fi_Namespaces d\<rparr>"

definition notify_client_config :: "NotifyConfig \<Rightarrow> notify_Config" where
  "notify_client_config n =
     \<lparr>cf_Endpoint = nf_Endpoint n, cf_BearerToken = nf_BearerToken n, cf_SourceInstance = nf_SourceInstance n, cf_QueueSize = 0, cf_Timeout = nf_Timeout n\<rparr>"

definition notify_policy_config :: "time \<Rightarrow> NotifyConfig \<Rightarrow> PolicyConfig" where
  "notify_policy_config now n =
     \<lparr>pc_StartTime = now, pc_StartupGracePeriod = nf_StartupGracePeriod n, pc_UnusableInterval = nf_UnusableInterval n, pc_NotifyInterval = nf_NotifyInterval n\<rparr>"

text \<open>What the runtime finds outside: an audit database that cannot be opened is none.\<close>

record surroundings =
  en_now :: time
  en_lookup :: "string \<Rightarrow> netIP list option"
  en_geoip :: "geo_lookup option"
  en_policyLib :: policy_lib
  en_policyFile :: "string option"
  en_auditStore :: "AuditStore option"
  en_onlineReadable :: bool
  en_urlParse :: "string \<Rightarrow> endpoint option"

record Runtime =
  rt_cfg :: Config
  rt_upstreams :: "Upstream list"
  rt_manager :: UpstreamManager
  rt_picker :: RouteSelector
  rt_firewall :: Provider
  rt_flowContext :: CtxRegistry
  rt_auditPipeline :: "Pipeline option"
  rt_onlinePolicy :: "OnlineProvider option"
  rt_flowContextService :: "unit Service option"
  rt_notifier :: "notify_Client option"
  rt_notifyPolicy :: "NotifyPolicy option"

definition open_geoip :: "surroundings \<Rightarrow> Config \<Rightarrow> runtime_error + geo_lookup" where
  "open_geoip env cfg =
     (if geo_Enabled (cfg_GeoIP cfg) then (case en_geoip env of None \<Rightarrow> Inl RtGeoIP | Some g \<Rightarrow> Inr g) else Inr None)"

definition open_audit ::
    "surroundings \<Rightarrow> Config \<Rightarrow> UpstreamManager \<Rightarrow> runtime_error + (AuditStore \<times> Pipeline \<times> OnlineProvider) option" where
  "open_audit env cfg manager =
     (if \<not> il_Enabled (cfg_IPLog cfg) then Inr None
      else case en_auditStore env of
             None \<Rightarrow> Inl RtAuditStore
           | Some store \<Rightarrow>
               (case NewOnlineProvider (au_online store) 0 (en_onlineReadable env) (en_now env) (Some (\<lambda>tag. Manager_Get tag manager \<noteq> None)) of
                  Inl e \<Rightarrow> Inl (RtOnline e)
                | Inr online \<Rightarrow> Inr (Some (store, NewPipeline (IPLogConfig.truncate (cfg_IPLog cfg)) (Some store) (Some \<lparr>ac_received = 0, ac_written = 0, ac_dropped = 0\<rparr>), online))))"

definition open_notifier :: "surroundings \<Rightarrow> Config \<Rightarrow> runtime_error + (notify_Client \<times> NotifyPolicy) option" where
  "open_notifier env cfg =
     (if \<not> nf_Enabled (cfg_Notify cfg) then Inr None
      else case Notify.NewClient (en_urlParse env) (notify_client_config (cfg_Notify cfg)) of
             Inl e \<Rightarrow> Inl (RtNotify e)
           | Inr c \<Rightarrow> Inr (Some (c, NewPolicy True (en_now env) (notify_policy_config (en_now env) (cfg_Notify cfg)))))"

definition NewRuntime :: "surroundings \<Rightarrow> Config \<Rightarrow> runtime_error + Runtime" where
  "NewRuntime env cfg =
     bind_ok (resolveUpstreams (en_lookup env) (NewResolver (cfg_DNS cfg)) (cfg_Upstreams cfg)) (\<lambda>ups.
       let manager0 = SetHealthConfig (en_now env) (cfg_Health cfg) (NewUpstreamManager (map Some ups))
       in bind_ok (open_geoip env cfg) (\<lambda>geo.
          bind_ok (case NewProvider (en_policyLib env) (cfg_Firewall cfg) geo (en_now env) (en_policyFile env) of Inl e \<Rightarrow> Inl (RtPolicy e) | Inr p \<Rightarrow> Inr p) (\<lambda>fw.
          bind_ok (open_audit env cfg manager0) (\<lambda>audit.
          let registry = SetSnapshotSink (audit \<noteq> None) (NewCtxRegistry DefaultOptions);
              service = (if fx_Enabled (cfg_FlowContext cfg)
                then Some (SetFlowController (Some (registry_controller (Some NewFlowRegistry)))
                       (NewService (Some registry) (map_option fst audit)
                          \<lparr>ho_Identities = map flow_identity (fx_Identities (cfg_FlowContext cfg)), ho_MaxTTL = fx_MaxTTL (cfg_FlowContext cfg),
                           ho_ResolveTimeout = 0, ho_MaxBodyBytes = 0, ho_MaxKeyLength = 0, ho_MaxValueLength = 0, ho_RateLimitBurst = 0, ho_RateLimitWindow = 0\<rparr> ()))
                else None)
          in bind_ok (open_notifier env cfg) (\<lambda>notifier.
            Inr \<lparr>rt_cfg = cfg, rt_upstreams = ups, rt_manager = SetAuto (SetCallbacks False True manager0), rt_picker = NewRouteSelector (cfg_Routes cfg),
                 rt_firewall = fw, rt_flowContext = registry,
                 rt_auditPipeline = map_option (\<lambda>(_, p, _). p) audit, rt_onlinePolicy = map_option (\<lambda>(_, _, online). online) audit,
                 rt_flowContextService = service, rt_notifier = map_option fst notifier, rt_notifyPolicy = map_option snd notifier\<rparr>)))))"

section \<open>Starting\<close>

definition measurementUpstreams :: "Runtime \<Rightarrow> Upstream list" where
  "measurementUpstreams rt =
     (let needed = concat (map rtc_Upstreams (filter (\<lambda>r. rtc_Strategy r = ''adaptive'') (cfg_Routes (rt_cfg rt))))
      in if needed = [] then [] else filter (\<lambda>up. up_Tag up \<in> set needed) (rt_upstreams rt))"

definition measurement_protocols :: "Config \<Rightarrow> string list" where
  "measurement_protocols cfg =
     (let p = mc_Protocols (cfg_Measurement cfg)
      in (if BoolValue (mp_Enabled (mps_TCP p)) True then [''tcp''] else []) @ (if BoolValue (mp_Enabled (mps_UDP p)) True then [''udp''] else []))"

definition scheduler_config :: "Config \<Rightarrow> SchedulerConfig" where
  "scheduler_config cfg =
     (let s = mc_Schedule (cfg_Measurement cfg)
      in \<lparr>sc_MinInterval = mi_Min (ms_Interval s), sc_MaxInterval = mi_Max (ms_Interval s), sc_InterUpstreamGap = ms_UpstreamGap s,
          sc_Protocols = measurement_protocols cfg\<rparr>)"

text \<open>The state the measurement loop starts with, if there is anything to measure.\<close>

definition startMeasurement :: "Runtime \<Rightarrow> measure_state option" where
  "startMeasurement rt =
     (if measurementUpstreams rt = [] \<or> measurement_protocols (rt_cfg rt) = [] then None
      else Some \<lparr>me_scheduler = NewScheduler (scheduler_config (rt_cfg rt)) (measurementUpstreams rt),
                 me_collector = NewCollector (cfg_Measurement (rt_cfg rt)) False, me_manager = rt_manager rt\<rparr>)"

text \<open>The listeners that were opened, and whether all did; \<open>listen\<close> says whether a socket can be opened.\<close>

fun start_listeners :: "(ListenerConfig \<Rightarrow> bool) \<Rightarrow> ListenerConfig list \<Rightarrow> ListenerConfig list \<times> bool" where
  "start_listeners listen [] = ([], True)"
| "start_listeners listen (l # ls) =
     (if ln_Protocol l = ''tcp'' \<or> ln_Protocol l = ''udp''
      then if listen l then (let (begun, ok) = start_listeners listen ls in (l # begun, ok)) else ([], False)
      else start_listeners listen ls)"

definition startListeners :: "(ListenerConfig \<Rightarrow> bool) \<Rightarrow> Runtime \<Rightarrow> ListenerConfig list \<times> bool" where
  "startListeners listen rt = start_listeners listen (fwd_Listeners (cfg_Forwarding (rt_cfg rt)))"

definition runtime_udp_listener :: "Runtime \<Rightarrow> ListenerConfig \<Rightarrow> UDPListener" where
  "runtime_udp_listener rt l =
     NewUDPListener (ln_BindAddr l) (ln_BindPort l) (ln_Route l) (nat (lm_MaxUDPMappings (fwd_Limits (cfg_Forwarding (rt_cfg rt)))))
       (it_UDP (fwd_IdleTimeout (cfg_Forwarding (rt_cfg rt)))) True (Some NewFlowRegistry) True"

text \<open>The callback the runtime gives the manager for changes of usability.\<close>

definition on_usability_change :: "time \<Rightarrow> UsabilityChange \<Rightarrow> NotifyPolicy option \<Rightarrow> NotifyPolicy option" where
  "on_usability_change now change np =
     map_option (HandleUsabilityChange now (uc_Tag change) (uc_Usable change) (uc_Reason change)) np"

text \<open>One tick of the goroutine that refreshes the addresses of an upstream; a host that is an address has none.\<close>

definition dns_refresh :: "(string \<Rightarrow> netIP list option) \<Rightarrow> Resolver \<Rightarrow> Upstream \<Rightarrow> UpstreamManager \<Rightarrow> UpstreamManager" where
  "dns_refresh lookup r up m =
     (if ParseIP (up_Host up) \<noteq> None then m
      else case ResolveHost lookup (up_Host up) r of
             Inl _ \<Rightarrow> m
           | Inr ips \<Rightarrow> snd (UpdateResolved (up_Tag up) ips m))"

section \<open>The supervisor\<close>

text \<open>
  The runtimes of the process, by number: the one the supervisor holds, and those that run. A
  restart takes the runtime and stops it in one step and starts the new one in another;
  between them, which is as long as the start takes, any other call can come.
\<close>

record Supervisor =
  sv_runtime :: "nat option"
  sv_live :: "nat list"
  sv_nextID :: nat

definition NewSupervisor :: Supervisor where
  "NewSupervisor = \<lparr>sv_runtime = None, sv_live = [], sv_nextID = 0\<rparr>"

definition startConfig :: "bool \<Rightarrow> Supervisor \<Rightarrow> bool \<times> Supervisor" where
  "startConfig begun s =
     (if \<not> begun then (False, s)
      else (True, s\<lparr>sv_runtime := Some (sv_nextID s), sv_live := sv_nextID s # sv_live s, sv_nextID := Suc (sv_nextID s)\<rparr>))"

definition take_and_stop :: "Supervisor \<Rightarrow> Supervisor" where
  "take_and_stop s =
     (case sv_runtime s of None \<Rightarrow> s | Some i \<Rightarrow> s\<lparr>sv_runtime := None, sv_live := filter (\<lambda>j. j \<noteq> i) (sv_live s)\<rparr>)"

datatype supervisor_op =
    SvStart bool bool
  | SvRestartTake bool
  | SvRestartStart bool
  | SvStop

text \<open>The first argument says whether the configuration loads; a restart with one that does not leaves the runtime alone.\<close>

fun supervisor_step :: "Supervisor \<Rightarrow> supervisor_op \<Rightarrow> Supervisor" where
  "supervisor_step s (SvStart loads begun) = (if loads then snd (startConfig begun s) else s)"
| "supervisor_step s (SvRestartTake loads) = (if loads then take_and_stop s else s)"
| "supervisor_step s (SvRestartStart begun) = snd (startConfig begun s)"
| "supervisor_step s SvStop = take_and_stop s"

section \<open>A configuration that loads starts\<close>

lemma ResolveHost_nonempty: "ResolveHost lookup host r = Inr ips \<Longrightarrow> ips \<noteq> []"
  by (auto simp: ResolveHost_def Let_def split: option.splits if_splits)

text \<open>With the strategy for IPv4 every address of an upstream is an IPv4 address.\<close>

lemma resolve_ipv4_only:
  assumes "ResolveHost lookup host r = Inr ips" and "rv_strategy r = ''ipv4_only''"
  shows "list_all (\<lambda>ip. case ip of None \<Rightarrow> False | Some bs \<Rightarrow> to4 bs \<noteq> None) ips"
  using assms by (auto simp: ResolveHost_def Let_def applyResolverStrategy_def filterIPv4_def list_all_iff split: option.splits if_splits)

text \<open>The configured servers take turns.\<close>

lemma resolver_dial_in_servers:
  assumes "rv_servers r \<noteq> []"
  shows "\<exists>s. fst (resolver_dial r) = Some s \<and> s \<in> set (rv_servers r)"
  using assms by (simp add: resolver_dial_def Let_def)

lemma resolveUpstreams_ok:
  "resolveUpstreams lookup r items = Inr ups \<Longrightarrow> map up_Tag ups = map cu_Tag items"
  by (induction items arbitrary: ups) (auto split: sum.splits)

lemma resolveUpstreams_total:
  "\<forall>u \<in> set items. \<exists>ips. ResolveHost lookup (ds_Host (cu_Destination u)) r = Inr ips \<Longrightarrow> \<exists>ups. resolveUpstreams lookup r items = Inr ups"
proof (induction items)
  case (Cons i items)
  then obtain ips ups where "ResolveHost lookup (ds_Host (cu_Destination i)) r = Inr ips" "resolveUpstreams lookup r items = Inr ups" by auto
  then show ?case by simp
qed simp

lemma route_lookup:
  assumes "distinct (map rtc_Name rs)" and "r \<in> set rs"
  shows "gget (foldl (\<lambda>m route. gput (rtc_Name route) (route_definition route) m) m rs) (rtc_Name r) = Some (route_definition r)"
  using assms
proof (induction rs arbitrary: m)
  case (Cons q rs)
  show ?case
  proof (cases "r = q")
    case True
    have "gget (foldl (\<lambda>m route. gput (rtc_Name route) (route_definition route) m) m' rs) n = gget m' n" if "n \<notin> rtc_Name ` set rs" for m' n
      using that by (induction rs arbitrary: m') auto
    with True Cons.prems(1) show ?thesis by simp
  qed (use Cons in auto)
qed simp

lemma listener_route_found:
  assumes "config_wf cfg" and "l \<in> set (fwd_Listeners (cfg_Forwarding cfg))"
  shows "\<exists>r \<in> set (cfg_Routes cfg). rtc_Name r = ln_Route l \<and> find_route (ln_Route l) (NewRouteSelector (cfg_Routes cfg)) = Some (route_definition r) \<and>
     set (rtc_Upstreams r) \<subseteq> set (map cu_Tag (cfg_Upstreams cfg))"
proof -
  from assms obtain r where r: "r \<in> set (cfg_Routes cfg)" "rtc_Name r = ln_Route l" by (auto simp: config_wf_def list_all_iff)
  with assms(1) have "route_wf (map cu_Tag (cfg_Upstreams cfg)) r" "distinct (map rtc_Name (cfg_Routes cfg))"
    by (auto simp: config_wf_def list_all_iff)
  then show ?thesis
    using r route_lookup [of "cfg_Routes cfg" r "[]"]
    by (intro bexI [of _ r]) (auto simp: find_route_def NewRouteSelector_def route_wf_def route_config_ok_def tag_ok_def)
qed

lemma start_listeners_all:
  "list_all listener_wf ls \<Longrightarrow> start_listeners opens ls = (takeWhile opens ls, list_all opens ls)"
  by (induction ls) (auto simp: listener_wf_def)

lemma notifier_opens:
  assumes "nf_Enabled (cfg_Notify cfg) \<Longrightarrow> \<exists>u. en_urlParse env (nf_Endpoint (cfg_Notify cfg)) = Some u \<and> ep_Host u \<noteq> [] \<and> ep_Scheme u \<in> {''http'', ''https''}"
  shows "\<exists>n. open_notifier env cfg = Inr n \<and> (n \<noteq> None \<longleftrightarrow> nf_Enabled (cfg_Notify cfg))"
  using assms by (cases "nf_Enabled (cfg_Notify cfg)") (auto simp: open_notifier_def Notify.NewClient_def notify_client_config_def)

lemma loaded_notifier:
  assumes "LoadConfig url host file = Inr cfg" and "nf_Enabled (cfg_Notify cfg)"
  shows "\<exists>u. url (nf_Endpoint (cfg_Notify cfg)) = Some u \<and> ep_Host u \<noteq> [] \<and> ep_Scheme u \<in> {''http'', ''https''}"
proof -
  from LoadConfig_validated [OF assms(1)] obtain c0 where "validate url host c0 = Inr cfg" .
  from validate_parts [OF this] obtain c3 where "validate_sections url host c3 = Inr cfg" .
  from sections_wf(5) [OF this assms(2)] show ?thesis .
qed

lemma policy_outcome [simp]: "(case x of Inl e \<Rightarrow> Inl (RtPolicy e) | Inr p \<Rightarrow> Inr p) = Inr y \<longleftrightarrow> x = Inr y"
  by (cases x) auto

text \<open>
  C30: a configuration that loads starts, as far as the configuration is concerned: when the
  names resolve, the databases open and the policy is accepted, the runtime is built, with
  exactly the configured upstreams, every listener's route known to the picker with upstreams
  that exist, and the alerts on exactly when they are enabled. Whatever sockets can then be
  opened, the listeners start in their order up to the first whose socket cannot, and the
  start succeeds exactly when the sockets of all of them can.
\<close>

theorem loaded_config_starts:
  assumes "LoadConfig (en_urlParse env) host file = Inr cfg"
    and "\<forall>u \<in> set (cfg_Upstreams cfg). \<exists>ips. ResolveHost (en_lookup env) (ds_Host (cu_Destination u)) (NewResolver (cfg_DNS cfg)) = Inr ips"
    and "open_geoip env cfg = Inr geo"
    and "NewProvider (en_policyLib env) (cfg_Firewall cfg) geo (en_now env) (en_policyFile env) = Inr fw"
    and "\<forall>m. \<exists>a. open_audit env cfg m = Inr a"
  shows "\<exists>rt. NewRuntime env cfg = Inr rt \<and> map up_Tag (rt_upstreams rt) = map cu_Tag (cfg_Upstreams cfg) \<and>
     (\<forall>opens. startListeners opens rt =
        (takeWhile opens (fwd_Listeners (cfg_Forwarding cfg)), \<forall>l \<in> set (fwd_Listeners (cfg_Forwarding cfg)). opens l)) \<and>
     (\<forall>l \<in> set (fwd_Listeners (cfg_Forwarding cfg)). \<exists>r. find_route (ln_Route l) (rt_picker rt) = Some r \<and>
        rd_upstreams r \<noteq> [] \<and> set (rd_upstreams r) \<subseteq> up_Tag ` set (rt_upstreams rt)) \<and>
     (rt_notifier rt \<noteq> None \<longleftrightarrow> nf_Enabled (cfg_Notify cfg))"
proof -
  from LoadConfig_validated [OF assms(1)] obtain c0 where "validate (en_urlParse env) host c0 = Inr cfg" .
  then have wf: "config_wf cfg" by (rule validated_config_wf)
  obtain ups where ups: "resolveUpstreams (en_lookup env) (NewResolver (cfg_DNS cfg)) (cfg_Upstreams cfg) = Inr ups"
    using resolveUpstreams_total [OF assms(2)] by blast
  note tags = resolveUpstreams_ok [OF ups]
  define m where "m = SetHealthConfig (en_now env) (cfg_Health cfg) (NewUpstreamManager (map Some ups))"
  obtain audit where audit: "open_audit env cfg m = Inr audit"
    using assms(5) by blast
  obtain n where n: "open_notifier env cfg = Inr n" "n \<noteq> None \<longleftrightarrow> nf_Enabled (cfg_Notify cfg)"
    using notifier_opens [of cfg env] loaded_notifier [OF assms(1)] by blast
  obtain rt where rt: "NewRuntime env cfg = Inr rt" "rt_cfg rt = cfg" "rt_upstreams rt = ups" "rt_picker rt = NewRouteSelector (cfg_Routes cfg)"
      "rt_notifier rt = map_option fst n"
    using ups assms(3,4) audit n(1) by (simp add: NewRuntime_def m_def [symmetric] Let_def)
  have set_tags: "set (map cu_Tag (cfg_Upstreams cfg)) = up_Tag ` set ups" using tags by (metis list.set_map)
  have "\<exists>r. find_route (ln_Route l) (rt_picker rt) = Some r \<and> rd_upstreams r \<noteq> [] \<and> set (rd_upstreams r) \<subseteq> up_Tag ` set (rt_upstreams rt)"
    if l: "l \<in> set (fwd_Listeners (cfg_Forwarding cfg))" for l
  proof -
    from listener_route_found [OF wf l] obtain r where r: "r \<in> set (cfg_Routes cfg)"
        "find_route (ln_Route l) (NewRouteSelector (cfg_Routes cfg)) = Some (route_definition r)" "set (rtc_Upstreams r) \<subseteq> up_Tag ` set ups"
      unfolding set_tags by blast
    moreover have "rtc_Upstreams r \<noteq> []" using wf r(1) by (auto simp: config_wf_def list_all_iff route_wf_def route_config_ok_def)
    ultimately show ?thesis by (simp add: rt route_definition_def)
  qed
  moreover have "startListeners opens rt =
      (takeWhile opens (fwd_Listeners (cfg_Forwarding cfg)), \<forall>l \<in> set (fwd_Listeners (cfg_Forwarding cfg)). opens l)" for opens
    using wf by (simp add: startListeners_def rt start_listeners_all config_wf_def list_all_iff)
  ultimately show ?thesis using rt tags n(2) by auto
qed

section \<open>Adaptive routes are measured\<close>

lemma NewRuntime_fields:
  assumes "NewRuntime env cfg = Inr rt"
  shows "rt_cfg rt = cfg" and "map up_Tag (rt_upstreams rt) = map cu_Tag (cfg_Upstreams cfg)"
    and "um_onStateChange (rt_manager rt)"
proof -
  from assms obtain ups where ups: "resolveUpstreams (en_lookup env) (NewResolver (cfg_DNS cfg)) (cfg_Upstreams cfg) = Inr ups"
    and rt: "rt_cfg rt = cfg" "rt_upstreams rt = ups"
      "rt_manager rt = SetAuto (SetCallbacks False True (SetHealthConfig (en_now env) (cfg_Health cfg) (NewUpstreamManager (map Some ups))))"
    by (auto simp: NewRuntime_def Let_def)
  show "rt_cfg rt = cfg" by (fact rt)
  show "map up_Tag (rt_upstreams rt) = map cu_Tag (cfg_Upstreams cfg)" using resolveUpstreams_ok [OF ups] by (simp add: rt)
  show "um_onStateChange (rt_manager rt)" by (simp add: rt SetAuto_def SetCallbacks_def setActiveLocked_def Let_def)
qed

text \<open>
  C31: every upstream an adaptive route can choose is measured. With a configuration that loads and
  has an adaptive route, the measurement starts, and after every round of its loop each upstream of
  the route has its probe by every enabled protocol in the queue.
\<close>

theorem adaptive_upstreams_probed:
  assumes "LoadConfig (en_urlParse env) host file = Inr cfg" and "NewRuntime env cfg = Inr rt"
    and "r \<in> set (cfg_Routes cfg)" and "rtc_Strategy r = ''adaptive''" and "tag \<in> set (rtc_Upstreams r)"
  shows "\<exists>st. startMeasurement rt = Some st \<and> measurement_protocols cfg \<noteq> [] \<and>
    (\<forall>srt rounds runs st'. queue_sorter srt \<and> rounds \<noteq> [] \<and> (\<forall>x \<in> set rounds. rd_ready x \<le> rd_finished x) \<and> RunLoop srt rounds st = (runs, st') \<longrightarrow>
       (\<forall>p \<in> set (measurement_protocols cfg). sched_key tag p \<in> set (map item_key (sd_queue (me_scheduler st')))))"
proof -
  from LoadConfig_validated [OF assms(1)] obtain c0 where "validate (en_urlParse env) host c0 = Inr cfg" .
  then have wf: "config_wf cfg" by (rule validated_config_wf)
  note rt = NewRuntime_fields [OF assms(2)]
  have "tag \<in> set (map cu_Tag (cfg_Upstreams cfg))"
    using wf assms(3,5) by (auto simp: config_wf_def list_all_iff route_wf_def)
  then obtain up where up: "up \<in> set (rt_upstreams rt)" "up_Tag up = tag" unfolding rt(2) [symmetric] by auto
  define needed where "needed = concat (map rtc_Upstreams (filter (\<lambda>r. rtc_Strategy r = ''adaptive'') (cfg_Routes cfg)))"
  have "tag \<in> set needed" using assms(3-5) by (auto simp: needed_def)
  then have m: "up \<in> set (measurementUpstreams rt)" using up by (auto simp: measurementUpstreams_def rt(1) needed_def [symmetric] Let_def)
  then have "measurementUpstreams rt \<noteq> []" by auto
  moreover have p: "measurement_protocols cfg \<noteq> []" using wf by (auto simp: measurement_protocols_def Let_def config_wf_def)
  ultimately obtain st where st: "startMeasurement rt = Some st" "me_scheduler st = NewScheduler (scheduler_config cfg) (measurementUpstreams rt)"
    by (simp add: startMeasurement_def rt(1))
  have min: "0 \<le> sc_MinInterval (scheduler_config cfg)" using wf by (simp add: scheduler_config_def Let_def config_wf_def)
  have "sched_key tag q \<in> set (map item_key (sd_queue (me_scheduler st')))"
    if h: "queue_sorter srt" "rounds \<noteq> []" "\<forall>x \<in> set rounds. rd_ready x \<le> rd_finished x" "RunLoop srt rounds st = (runs, st')"
      and q: "q \<in> set (measurement_protocols cfg)" for srt rounds runs st' q
  proof -
    have "sched_inv (scheduler_config cfg) (measurementUpstreams rt) [] (me_scheduler st)"
      using queue_sorter.new_scheduler_inv [OF h(1)] by (simp add: st(2))
    from queue_sorter.RunLoop_inv [OF h(1) this _ h(4,3) min] h(2)
    have "item_key ` set (sd_queue (me_scheduler st')) = all_keys (measurementUpstreams rt) (sc_Protocols (scheduler_config cfg))" by simp
    moreover have "sched_key tag q \<in> all_keys (measurementUpstreams rt) (sc_Protocols (scheduler_config cfg))"
      using m up q by (force simp: all_keys_def scheduler_config_def Let_def)
    ultimately show ?thesis by simp
  qed
  then show ?thesis using st(1) p by blast
qed

section \<open>From an outage to the alert\<close>

lemma failed_probe_reports:
  assumes "gget (um_upstreams m) tag = Some u" and "um_onStateChange m" and "us_HealthState (up_stats u) \<noteq> HealthDown"
    and "hc_FailureThreshold (probe_config (um_healthConfig m)) \<le> hs_ConsecutiveFailures (up_health u) + 1"
  shows "um_calls (snd (RecordProbeFailure now tag observedAt m)) =
    um_calls m @ [OnStateChange \<lparr>uc_Tag = tag, uc_Usable = False, uc_Reason = health_text HealthDown\<rparr>]"
  using assms by (simp add: RecordProbeFailure_def RecordProbe_def Let_def refreshStatsLocked_def ApplyObservation_def EffectiveHealth_def update_upstream_def)

lemma run_failed_manager:
  assumes "RunProtocol r up network c m = (Some (ProbeFailed e), c', m')"
  shows "m' = snd (RecordProbeFailure (rd_recorded r) (up_Tag up) (rd_recorded r) m)"
  using assms by (auto simp: RunProtocol_def protocolConfig_def Let_def handleMeasurementFailure_def split: sum.splits prod.splits if_splits)

text \<open>The delay before the first alert, as an instant: the later of the end of the interval and the end of the grace period.\<close>

lemma initial_due:
  assumes "np_startTime np \<le> now" "np_startupGracePeriod np \<le> max_duration" "0 < np_unusableInterval np"
  shows "now + initialUnusableDelayLocked now np = max (now + np_unusableInterval np) (np_startTime np + np_startupGracePeriod np)"
  using assms by (auto simp: initialUnusableDelayLocked_def Let_def time_sub_def min_duration_def max_def min_def)

lemma alert_follows_change:
  assumes ok: "timers_ok np" and np: "\<not> np_closed np" "np_emitter np" "gget (np_unusable np) tag = None"
    and clock: "np_startTime np \<le> now" "np_startupGracePeriod np \<le> max_duration" "0 < np_unusableInterval np"
    and i: "i = np_nextTimer np" and due: "due = max (now + np_unusableInterval np) (np_startTime np + np_startupGracePeriod np)"
    and "expires \<le> fires"
  shows "np_alerts (foldl notify_step (HandleUsabilityChange now tag False reason np) [NpExpire expires i, NpFire fires i]) =
    np_alerts np @ (if due \<le> expires then [\<lparr>al_At = fires, al_Event = ''upstream.unusable'', al_Severity = SeverityWarn,
      al_Attributes = [(''upstream.tag'', tag), (''upstream.reason'', reason)]\<rparr>] else [])"
proof -
  define p1 where "p1 = HandleUsabilityChange now tag False reason np"
  define st where "st = \<lparr>us_reason = reason, us_timer = Some i\<rparr>"
  have p1: "np_timers p1 = np_timers np @ [\<lparr>tm_ID = i, tm_Tag = tag, tm_Due = due\<rparr>]" "np_firing p1 = []"
    "np_unusable p1 = gput tag st (np_unusable np)" "np_alerts p1 = np_alerts np" "\<not> np_closed p1" "np_emitter p1"
    "np_startTime p1 = np_startTime np" "np_startupGracePeriod p1 = np_startupGracePeriod np"
    using np ok initial_due [OF clock] by (simp_all add: p1_def HandleUsabilityChange_def arm_def Let_def st_def i due time_add_def timers_ok_def)
  have none: "filter (\<lambda>a. tm_ID a = i \<and> tm_Due a \<le> expires) (np_timers np) = []"
    using ok by (auto simp: filter_empty_conv timers_ok_def i)
  define p2 where "p2 = timer_expire expires i p1"
  have p2: "np_firing p2 = (if due \<le> expires then [(i, tag)] else [])" "np_unusable p2 = np_unusable p1" "np_alerts p2 = np_alerts p1"
    "np_closed p2 = np_closed p1" "np_emitter p2 = np_emitter p1" "np_startTime p2 = np_startTime p1"
    "np_startupGracePeriod p2 = np_startupGracePeriod p1"
    using none by (simp_all add: p2_def timer_expire_def p1)
  have "np_startupGracePeriod np \<le> time_sub fires (np_startTime np)" if "due \<le> expires"
    using that clock(2) assms(10) by (auto simp: due time_sub_def min_duration_def)
  then have "np_alerts (callback fires i p2) = np_alerts np @ (if due \<le> expires then
      [\<lparr>al_At = fires, al_Event = ''upstream.unusable'', al_Severity = SeverityWarn,
        al_Attributes = [(''upstream.tag'', tag), (''upstream.reason'', reason)]\<rparr>] else [])"
    by (auto simp: callback_def p2 p1 fireUnusableAlert_def Let_def emitLocked_def st_def)
  then show ?thesis by (simp add: p1_def [symmetric] p2_def [symmetric])
qed


section \<open>The supervisor\<close>

text \<open>Without overlapping calls the supervisor holds the only runtime.\<close>

definition one_runtime :: "Supervisor \<Rightarrow> bool" where
  "one_runtime s \<longleftrightarrow> sv_live s = (case sv_runtime s of None \<Rightarrow> [] | Some i \<Rightarrow> [i])"

lemma restart_keeps_one: "one_runtime s \<Longrightarrow> one_runtime (foldl supervisor_step s [SvRestartTake True, SvRestartStart runs])"
  by (auto simp: one_runtime_def take_and_stop_def startConfig_def split: option.splits)

lemma stop_leaves_none: "one_runtime s \<Longrightarrow> sv_live (supervisor_step s SvStop) = []"
  by (auto simp: one_runtime_def take_and_stop_def split: option.splits)

text \<open>A stop that comes while a restart is between its two steps stops nothing, and the new runtime runs on.\<close>

lemma stop_during_restart_survives:
  "sv_live (foldl supervisor_step NewSupervisor [SvStart True True, SvRestartTake True, SvStop, SvRestartStart True]) = [1]"
  by code_simp

text \<open>A restart whose new runtime does not start leaves none.\<close>

lemma failed_restart_stops: "one_runtime s \<Longrightarrow> sv_live (foldl supervisor_step s [SvRestartTake True, SvRestartStart False]) = []"
  by (auto simp: one_runtime_def take_and_stop_def startConfig_def split: option.splits)

section \<open>Samples\<close>

definition sample_surroundings :: surroundings where
  "sample_surroundings = \<lparr>en_now = 7, en_lookup = (\<lambda>_. Some [Some [192, 0, 2, 1]]), en_geoip = None, en_policyLib = sample_lib, en_policyFile = None,
     en_auditStore = None, en_onlineReadable = True, en_urlParse = (\<lambda>_. None)\<rparr>"

lemma sample_config:
  obtains c where "LoadConfig (en_urlParse sample_surroundings) None (Some sample_file) = Inr c" and "sample_facts c"
  using sample_loads that by (auto simp: sample_surroundings_def)

lemma sample_resolves:
  assumes "sample_facts c" and "u \<in> set (cfg_Upstreams c)"
  shows "ResolveHost (en_lookup sample_surroundings) (ds_Host (cu_Destination u)) (NewResolver (cfg_DNS c)) = Inr [Some [192, 0, 2, 1]]"
proof -
  have hosts: "map (\<lambda>u. ds_Host (cu_Destination u)) (cfg_Upstreams c) = [''a.test'', ''b.test'']" using assms(1) by (simp only: sample_facts_def)
  have "ds_Host (cu_Destination u) \<in> set (map (\<lambda>u. ds_Host (cu_Destination u)) (cfg_Upstreams c))" using assms(2) by simp
  then have "ds_Host (cu_Destination u) \<in> {''a.test'', ''b.test''}" unfolding hosts by simp
  moreover have "ParseIP ''a.test'' = None" "ParseIP ''b.test'' = None" by code_simp+
  ultimately have "ParseIP (ds_Host (cu_Destination u)) = None" by auto
  moreover have "dns_Strategy (cfg_DNS c) = []" using assms(1) by (simp add: sample_facts_def)
  ultimately show ?thesis
    by (simp add: ResolveHost_def sample_surroundings_def NewResolver_def applyResolverStrategy_def)
qed

lemma disabled_provider: "\<not> fc_Enabled cfg \<Longrightarrow> \<exists>p. NewProvider lib cfg lookup now file = Inr p"
  by (auto simp: NewProvider_def Let_def Compile_def plain_document_def Validate_def SchemaVersion_def TrimSpace_def ToLower_def is_space_def
      lower_char_def char_in_def NewEngine_def split: sum.splits)

lemma sample_runtime:
  assumes "sample_facts c" and "LoadConfig (en_urlParse sample_surroundings) None (Some sample_file) = Inr c"
  obtains fw where "\<forall>u \<in> set (cfg_Upstreams c). \<exists>ips. ResolveHost (en_lookup sample_surroundings) (ds_Host (cu_Destination u)) (NewResolver (cfg_DNS c)) = Inr ips"
    and "open_geoip sample_surroundings c = Inr None"
    and "NewProvider (en_policyLib sample_surroundings) (cfg_Firewall c) None (en_now sample_surroundings) (en_policyFile sample_surroundings) = Inr fw"
    and "\<forall>m. \<exists>a. open_audit sample_surroundings c m = Inr a"
proof -
  obtain fw where "NewProvider (en_policyLib sample_surroundings) (cfg_Firewall c) None (en_now sample_surroundings) (en_policyFile sample_surroundings) = Inr fw"
    using disabled_provider [of "cfg_Firewall c" "en_policyLib sample_surroundings" None "en_now sample_surroundings" "en_policyFile sample_surroundings"] assms(1)
    unfolding sample_facts_def by blast
  moreover have "\<forall>u \<in> set (cfg_Upstreams c). \<exists>ips. ResolveHost (en_lookup sample_surroundings) (ds_Host (cu_Destination u)) (NewResolver (cfg_DNS c)) = Inr ips"
    using sample_resolves [OF assms(1)] by blast
  ultimately show thesis using that [of fw] assms(1) by (simp add: open_geoip_def open_audit_def sample_facts_def)
qed

theorem loaded_config_starts_witness:
  "\<exists>c rt. LoadConfig (en_urlParse sample_surroundings) None (Some sample_file) = Inr c \<and> NewRuntime sample_surroundings c = Inr rt \<and>
     startListeners (\<lambda>_. True) rt = (fwd_Listeners (cfg_Forwarding c), True)"
proof -
  obtain c where c: "LoadConfig (en_urlParse sample_surroundings) None (Some sample_file) = Inr c" "sample_facts c" by (rule sample_config)
  obtain fw where h: "\<forall>u \<in> set (cfg_Upstreams c). \<exists>ips. ResolveHost (en_lookup sample_surroundings) (ds_Host (cu_Destination u)) (NewResolver (cfg_DNS c)) = Inr ips"
    "open_geoip sample_surroundings c = Inr None"
    "NewProvider (en_policyLib sample_surroundings) (cfg_Firewall c) None (en_now sample_surroundings) (en_policyFile sample_surroundings) = Inr fw"
    "\<forall>m. \<exists>a. open_audit sample_surroundings c m = Inr a"
    by (rule sample_runtime [OF c(2,1)])
  from loaded_config_starts [OF c(1) h] obtain rt where "NewRuntime sample_surroundings c = Inr rt"
      "startListeners (\<lambda>_. True) rt = (takeWhile (\<lambda>_. True) (fwd_Listeners (cfg_Forwarding c)), True)" by auto
  with c(1) show ?thesis by (simp add: takeWhile_eq_all_conv [THEN iffD2])
qed

theorem adaptive_upstreams_probed_witness:
  "\<exists>c rt st. LoadConfig (en_urlParse sample_surroundings) None (Some sample_file) = Inr c \<and> NewRuntime sample_surroundings c = Inr rt \<and> startMeasurement rt = Some st"
proof -
  obtain c where c: "LoadConfig (en_urlParse sample_surroundings) None (Some sample_file) = Inr c" "sample_facts c" by (rule sample_config)
  obtain fw where h: "\<forall>u \<in> set (cfg_Upstreams c). \<exists>ips. ResolveHost (en_lookup sample_surroundings) (ds_Host (cu_Destination u)) (NewResolver (cfg_DNS c)) = Inr ips"
    "open_geoip sample_surroundings c = Inr None"
    "NewProvider (en_policyLib sample_surroundings) (cfg_Firewall c) None (en_now sample_surroundings) (en_policyFile sample_surroundings) = Inr fw"
    "\<forall>m. \<exists>a. open_audit sample_surroundings c m = Inr a"
    by (rule sample_runtime [OF c(2,1)])
  obtain ups where ups: "resolveUpstreams (en_lookup sample_surroundings) (NewResolver (cfg_DNS c)) (cfg_Upstreams c) = Inr ups"
    using resolveUpstreams_total [OF h(1)] by blast
  obtain n where n: "open_notifier sample_surroundings c = Inr n"
    using notifier_opens [of c sample_surroundings] loaded_notifier [OF c(1)] by blast
  obtain a where "open_audit sample_surroundings c (SetHealthConfig (en_now sample_surroundings) (cfg_Health c) (NewUpstreamManager (map Some ups))) = Inr a"
    using h(4) by blast
  then obtain rt where rt: "NewRuntime sample_surroundings c = Inr rt" using ups h(2,3) n by (simp add: NewRuntime_def Let_def)
  have "map rtc_Name (filter (\<lambda>r. rtc_Strategy r = ''adaptive'' \<and> ''a'' \<in> set (rtc_Upstreams r)) (cfg_Routes c)) = [''main'']"
    using c(2) by (simp only: sample_facts_def)
  then obtain r rs where "filter (\<lambda>r. rtc_Strategy r = ''adaptive'' \<and> ''a'' \<in> set (rtc_Upstreams r)) (cfg_Routes c) = r # rs" by blast
  then have "r \<in> set (filter (\<lambda>r. rtc_Strategy r = ''adaptive'' \<and> ''a'' \<in> set (rtc_Upstreams r)) (cfg_Routes c))" by simp
  then have r: "r \<in> set (cfg_Routes c)" "rtc_Strategy r = ''adaptive''" "''a'' \<in> set (rtc_Upstreams r)" by auto
  from adaptive_upstreams_probed [OF c(1) rt r] c(1) rt show ?thesis by blast
qed

definition failing_manager :: UpstreamManager where
  "failing_manager = SetHealthConfig 1 \<lparr>hc_RTTEWMAAlpha = 1 / 4, hc_FailureThreshold = 1, hc_RecoveryThreshold = 1, hc_StaleThreshold = minute\<rparr>
     (SetCallbacks False True sample_manager)"

lemma failing_manager_view:
  "case gget (um_upstreams failing_manager) ''a'' of None \<Rightarrow> False
   | Some u \<Rightarrow> us_HealthState (up_stats u) \<noteq> HealthDown \<and> hs_ConsecutiveFailures (up_health u) = 0"
  "um_onStateChange failing_manager" "hc_FailureThreshold (probe_config (um_healthConfig failing_manager)) = 1"
  by code_simp+


end
