(* ===== verification/Metrics.thy ===== *)
theory Metrics
  imports Measure
begin

text \<open>
  The metrics of the program (\<open>internal/metrics/metrics.go\<close>) and the observer that turns the
  cumulative counters of Flows into them (\<open>internal/metrics/flow_observer.go\<close>).

  The atomic gauges are integers and the counters 64-bit words, which wrap; a method called on nil
  metrics does nothing and is left out, as is the lock. The two loops that copy a map before it is
  rendered are the identity. \<open>strconv.FormatFloat\<close> is an argument of \<open>Render\<close>. Texts are valid
  UTF-8, of which \<open>writeEscaped\<close> changes single-byte characters only.
\<close>

declare map_of_eq_Some_iff [simp del] Some_eq_map_of_iff [simp del]

section \<open>Data\<close>

record UpstreamMetrics =
  mu_HealthState :: HealthState
  mu_RTTMs :: float64
  mu_LastSuccess :: time

record trafficCounters =
  tc_tcpUp :: uint64
  tc_tcpDown :: uint64
  tc_udpUp :: uint64
  tc_udpDown :: uint64

record upstreamState =
  ms_metrics :: UpstreamMetrics
  ms_traffic :: trafficCounters

record flowEventKey =
  fk_protocol :: string
  fk_event :: string
  fk_reason :: string

record probeKey =
  pk_upstream :: string
  pk_protocol :: string
  pk_result :: string

record Metrics =
  me_upstreams :: "(string, upstreamState) gomap"
  me_routes :: "(string, string) gomap"
  me_tcpActive :: int
  me_udpActive :: int
  me_flowEvents :: "(flowEventKey, uint64) gomap"
  me_probes :: "(probeKey, uint64) gomap"
  me_audit :: auditCounters
  me_rateLimitDrops :: uint64
  me_onlineRules :: int
  me_onlineRuleErrors :: uint64
  me_webhook :: "(string, uint64) gomap"
  me_firewallDenied :: "(string, uint64) gomap"
  me_startedAt :: time

definition new_upstream_state :: upstreamState where
  "new_upstream_state =
     \<lparr>ms_metrics = \<lparr>mu_HealthState = HealthUnknown, mu_RTTMs = 0, mu_LastSuccess = 0\<rparr>,
      ms_traffic = \<lparr>tc_tcpUp = 0, tc_tcpDown = 0, tc_udpUp = 0, tc_udpDown = 0\<rparr>\<rparr>"

definition NewMetrics :: "time \<Rightarrow> string list \<Rightarrow> Metrics" where
  "NewMetrics now tags =
     \<lparr>me_upstreams = foldl (\<lambda>ups tag. if tag = [] then ups else gput tag new_upstream_state ups) [] tags,
      me_routes = [], me_tcpActive = 0, me_udpActive = 0, me_flowEvents = [], me_probes = [],
      me_audit = \<lparr>ac_received = 0, ac_written = 0, ac_dropped = 0\<rparr>, me_rateLimitDrops = 0, me_onlineRules = 0,
      me_onlineRuleErrors = 0, me_webhook = [], me_firewallDenied = [], me_startedAt = now\<rparr>"

section \<open>Labels\<close>

definition normalizeProtocol :: "string \<Rightarrow> string" where
  "normalizeProtocol p = (let q = ToLower (TrimSpace p) in if q = ''tcp'' \<or> q = ''udp'' then q else ''other'')"

definition normalizeReason :: "string \<Rightarrow> string" where
  "normalizeReason reason =
     (let r = ToLower (TrimSpace reason)
      in if r = ''eof'' then ''eof''
         else if r = ''idle_timeout'' \<or> r = ''timeout'' then ''timeout''
         else if r = ''firewall_deny'' \<or> r = ''backend_blocked'' \<or> r = ''policy'' then ''policy''
         else if r = ''tcp_connection_limit'' \<or> r = ''udp_mapping_limit'' \<or> r = ''udp_per_ip_mapping_limit'' \<or> r = ''capacity'' then ''capacity''
         else if r = ''read_error'' \<or> r = ''write_error'' \<or> r = ''upstream_write_error'' \<or> r = ''upstream_read_error'' \<or>
                 r = ''client_write_error'' \<or> r = ''io_error'' then ''io_error''
         else if r = ''context_done'' \<or> r = ''canceled'' then ''canceled''
         else if r = ''upstream_unusable'' then ''upstream_unusable''
         else if r = ''dial_failed'' then ''dial_failed''
         else if r = ''shutdown'' then ''shutdown''
         else if r = ''none'' then ''none''
         else ''other'')"

definition normalizeWebhookResult :: "string \<Rightarrow> string option" where
  "normalizeWebhookResult r = (if r = ''success'' \<or> r = ''failed'' \<or> r = ''dropped'' then Some r else None)"

definition normalizeRuleType :: "string \<Rightarrow> string" where
  "normalizeRuleType t =
     (let r = ToLower (TrimSpace t)
      in if r = ''ip'' \<or> r = ''cidr'' \<or> r = ''asn'' \<or> r = ''country'' \<or> r = ''protocol'' then r else ''other'')"

section \<open>Operations\<close>

text \<open>\<open>m[k]++\<close>\<close>

definition count_up :: "'k \<Rightarrow> ('k, uint64) gomap \<Rightarrow> ('k, uint64) gomap" where
  "count_up k m = gput k (gget_default 0 m k + 1) m"

definition SetUpstreamMetrics :: "string \<Rightarrow> UpstreamStats \<Rightarrow> Metrics \<Rightarrow> Metrics" where
  "SetUpstreamMetrics tag stats m =
     (case gget (me_upstreams m) tag of
        None \<Rightarrow> m
      | Some st \<Rightarrow> m\<lparr>me_upstreams := gput tag (st\<lparr>ms_metrics :=
          \<lparr>mu_HealthState = us_HealthState stats, mu_RTTMs = us_RTTMs stats, mu_LastSuccess = us_LastReachable stats\<rparr>\<rparr>) (me_upstreams m)\<rparr>)"

definition metrics_RecordProbe :: "string \<Rightarrow> string \<Rightarrow> bool \<Rightarrow> Metrics \<Rightarrow> Metrics" where
  "metrics_RecordProbe tag protocol0 success m =
     (let protocol = normalizeProtocol protocol0; result = (if success then ''success'' else ''failure'')
      in if protocol = ''other'' then m
         else case gget (me_upstreams m) tag of
                None \<Rightarrow> m
              | Some _ \<Rightarrow> m\<lparr>me_probes := count_up \<lparr>pk_upstream = tag, pk_protocol = protocol, pk_result = result\<rparr> (me_probes m)\<rparr>)"

definition SetRouteSelected :: "string \<Rightarrow> string \<Rightarrow> Metrics \<Rightarrow> Metrics" where
  "SetRouteSelected route tag m = (if route = [] \<or> tag = [] then m else m\<lparr>me_routes := gput route tag (me_routes m)\<rparr>)"

definition IncActive :: "string \<Rightarrow> Metrics \<Rightarrow> Metrics" where
  "IncActive protocol m =
     (let p = normalizeProtocol protocol
      in if p = ''tcp'' then m\<lparr>me_tcpActive := me_tcpActive m + 1\<rparr>
         else if p = ''udp'' then m\<lparr>me_udpActive := me_udpActive m + 1\<rparr> else m)"

definition decrementNonNegative :: "int \<Rightarrow> int" where
  "decrementNonNegative v = (if v \<le> 0 then v else v - 1)"

definition DecActive :: "string \<Rightarrow> Metrics \<Rightarrow> Metrics" where
  "DecActive protocol m =
     (let p = normalizeProtocol protocol
      in if p = ''tcp'' then m\<lparr>me_tcpActive := decrementNonNegative (me_tcpActive m)\<rparr>
         else if p = ''udp'' then m\<lparr>me_udpActive := decrementNonNegative (me_udpActive m)\<rparr> else m)"

definition RecordFlowEvent :: "string \<Rightarrow> string \<Rightarrow> string \<Rightarrow> Metrics \<Rightarrow> Metrics" where
  "RecordFlowEvent protocol0 event reason0 m =
     (let protocol = normalizeProtocol protocol0
      in if protocol \<noteq> ''tcp'' \<and> protocol \<noteq> ''udp'' then m
         else if event \<noteq> ''open'' \<and> event \<noteq> ''close'' \<and> event \<noteq> ''reject'' then m
         else m\<lparr>me_flowEvents := count_up
           \<lparr>fk_protocol = protocol, fk_event = event, fk_reason = (if event = ''open'' then ''none'' else normalizeReason reason0)\<rparr> (me_flowEvents m)\<rparr>)"

definition add_traffic :: "string \<Rightarrow> string \<Rightarrow> uint64 \<Rightarrow> trafficCounters \<Rightarrow> trafficCounters" where
  "add_traffic protocol direction n t =
     (if protocol = ''tcp'' then
        if EqualFold direction ''up'' then t\<lparr>tc_tcpUp := tc_tcpUp t + n\<rparr>
        else if EqualFold direction ''down'' then t\<lparr>tc_tcpDown := tc_tcpDown t + n\<rparr> else t
      else if protocol = ''udp'' then
        if EqualFold direction ''up'' then t\<lparr>tc_udpUp := tc_udpUp t + n\<rparr>
        else if EqualFold direction ''down'' then t\<lparr>tc_udpDown := tc_udpDown t + n\<rparr> else t
      else t)"

definition AddTraffic :: "string \<Rightarrow> string \<Rightarrow> string \<Rightarrow> uint64 \<Rightarrow> Metrics \<Rightarrow> Metrics" where
  "AddTraffic tag protocol direction n m =
     (if n = 0 then m
      else case gget (me_upstreams m) tag of
             None \<Rightarrow> m
           | Some st \<Rightarrow> m\<lparr>me_upstreams := gput tag (st\<lparr>ms_traffic := add_traffic (normalizeProtocol protocol) direction n (ms_traffic st)\<rparr>) (me_upstreams m)\<rparr>)"

text \<open>The three counters of the audit are those the pipeline updates (theory \<open>AuditPipeline\<close>).\<close>

definition on_audit :: "(auditCounters option \<Rightarrow> auditCounters option) \<Rightarrow> Metrics \<Rightarrow> Metrics" where
  "on_audit f m = (case f (Some (me_audit m)) of None \<Rightarrow> m | Some a \<Rightarrow> m\<lparr>me_audit := a\<rparr>)"

definition RecordRateLimitDrop :: "Metrics \<Rightarrow> Metrics" where
  "RecordRateLimitDrop m = m\<lparr>me_rateLimitDrops := me_rateLimitDrops m + 1\<rparr>"

definition SetOnlineRulesActive :: "int \<Rightarrow> Metrics \<Rightarrow> Metrics" where
  "SetOnlineRulesActive n m = m\<lparr>me_onlineRules := (if n < 0 then 0 else n)\<rparr>"

definition IncOnlineRuleExpiryError :: "Metrics \<Rightarrow> Metrics" where
  "IncOnlineRuleExpiryError m = m\<lparr>me_onlineRuleErrors := me_onlineRuleErrors m + 1\<rparr>"

definition IncWebhookDelivery :: "string \<Rightarrow> Metrics \<Rightarrow> Metrics" where
  "IncWebhookDelivery result m =
     (case normalizeWebhookResult result of None \<Rightarrow> m | Some r \<Rightarrow> m\<lparr>me_webhook := count_up r (me_webhook m)\<rparr>)"

definition IncWebhookDropped :: "Metrics \<Rightarrow> Metrics" where
  "IncWebhookDropped = IncWebhookDelivery ''dropped''"

definition IncFirewallDenied :: "string \<Rightarrow> Metrics \<Rightarrow> Metrics" where
  "IncFirewallDenied ruleType m = m\<lparr>me_firewallDenied := count_up (normalizeRuleType ruleType) (me_firewallDenied m)\<rparr>"

section \<open>The observer of Flows\<close>

record flowMetricState =
  fm_protocol :: string
  fm_upstream :: string
  fm_bytesUp :: uint64
  fm_bytesDown :: uint64

record FlowObserver =
  fo_metrics :: Metrics
  fo_flows :: "(string, flowMetricState) gomap"

definition NewFlowObserver :: "Metrics \<Rightarrow> FlowObserver" where
  "NewFlowObserver m = \<lparr>fo_metrics = m, fo_flows = []\<rparr>"

definition addBytes :: "flowMetricState \<Rightarrow> uint64 \<Rightarrow> uint64 \<Rightarrow> Metrics \<Rightarrow> Metrics" where
  "addBytes st upDelta downDelta m =
     (let m1 = (if upDelta > 0 then AddTraffic (fm_upstream st) (fm_protocol st) ''up'' upDelta m else m)
      in if downDelta > 0 then AddTraffic (fm_upstream st) (fm_protocol st) ''down'' downDelta m1 else m1)"

definition byte_delta :: "uint64 \<Rightarrow> uint64 \<Rightarrow> uint64" where
  "byte_delta new old = (if new > old then new - old else 0)"

definition observer_Open :: "Meta \<Rightarrow> FlowObserver \<Rightarrow> FlowObserver" where
  "observer_Open meta ob =
     \<lparr>fo_metrics = RecordFlowEvent (meta_Protocol meta) ''open'' [] (IncActive (meta_Protocol meta) (fo_metrics ob)),
      fo_flows = gput (meta_ID meta) \<lparr>fm_protocol = meta_Protocol meta, fm_upstream = meta_Upstream meta, fm_bytesUp = 0, fm_bytesDown = 0\<rparr> (fo_flows ob)\<rparr>"

definition observer_Update :: "string \<Rightarrow> Counters \<Rightarrow> FlowObserver \<Rightarrow> FlowObserver" where
  "observer_Update fid c ob =
     (case gget (fo_flows ob) fid of
        None \<Rightarrow> ob
      | Some st0 \<Rightarrow>
          let upDelta = byte_delta (ctr_BytesUp c) (fm_bytesUp st0); downDelta = byte_delta (ctr_BytesDown c) (fm_bytesDown st0);
              st = st0\<lparr>fm_bytesUp := ctr_BytesUp c, fm_bytesDown := ctr_BytesDown c\<rparr>
          in \<lparr>fo_metrics = addBytes st upDelta downDelta (fo_metrics ob), fo_flows = gput fid st (fo_flows ob)\<rparr>)"

definition observer_Close :: "Summary \<Rightarrow> FlowObserver \<Rightarrow> FlowObserver" where
  "observer_Close s ob =
     (let fid = meta_ID (sum_Meta s)
      in case gget (fo_flows ob) fid of
           None \<Rightarrow> ob
         | Some st \<Rightarrow>
             let upDelta = byte_delta (sum_BytesUp s) (fm_bytesUp st); downDelta = byte_delta (sum_BytesDown s) (fm_bytesDown st)
             in \<lparr>fo_metrics = RecordFlowEvent (fm_protocol st) ''close'' (sum_CloseReason s)
                    (DecActive (fm_protocol st) (addBytes st upDelta downDelta (fo_metrics ob))),
                 fo_flows = gdel fid (fo_flows ob)\<rparr>)"

definition observer_Reject :: "Rejection \<Rightarrow> FlowObserver \<Rightarrow> FlowObserver" where
  "observer_Reject r ob = ob\<lparr>fo_metrics := RecordFlowEvent (rej_Protocol r) ''reject'' (rej_Reason r) (fo_metrics ob)\<rparr>"

fun observer_step :: "FlowObserver \<Rightarrow> obs_call \<Rightarrow> FlowObserver" where
  "observer_step ob (ObsOpen meta) = observer_Open meta ob"
| "observer_step ob (ObsUpdate fid c) = observer_Update fid c ob"
| "observer_step ob (ObsClose s) = observer_Close s ob"
| "observer_step ob (ObsReject r) = observer_Reject r ob"

section \<open>The exposition text\<close>

definition newline :: string where "newline = [CHR 0x0A]"

definition writeType :: "string \<Rightarrow> string \<Rightarrow> string" where
  "writeType name kind = ''# TYPE '' @ name @ '' '' @ kind @ newline"

fun writeEscaped :: "string \<Rightarrow> string" where
  "writeEscaped [] = []"
| "writeEscaped (c # cs) =
     (if c = CHR 0x5C then [CHR 0x5C, CHR 0x5C]
      else if c = CHR 0x22 then [CHR 0x5C, CHR 0x22]
      else if c = CHR 0x0A then [CHR 0x5C, CHR ''n'']
      else [c]) @ writeEscaped cs"

definition write_label :: "string \<times> string \<Rightarrow> string" where
  "write_label l = fst l @ ''='' @ [CHR 0x22] @ writeEscaped (snd l) @ [CHR 0x22]"

fun write_labels :: "(string \<times> string) list \<Rightarrow> string" where
  "write_labels [] = []"
| "write_labels [l] = write_label l"
| "write_labels (l # ls) = write_label l @ '','' @ write_labels ls"

definition writeSample :: "string \<Rightarrow> (string \<times> string) list \<Rightarrow> string \<Rightarrow> string" where
  "writeSample name labels value =
     name @ (if labels = [] then [] else ''{'' @ write_labels labels @ ''}'') @ '' '' @ value @ newline"

definition uint_text :: "uint64 \<Rightarrow> string" where
  "uint_text n = nat_text (unat n)"

definition sortedKeys :: "(string, 'v) gomap \<Rightarrow> string list" where
  "sortedKeys m = stable_sort string_less (gkeys m)"

definition flow_event_less :: "flowEventKey \<Rightarrow> flowEventKey \<Rightarrow> bool" where
  "flow_event_less a b =
     (if fk_protocol a \<noteq> fk_protocol b then string_less (fk_protocol a) (fk_protocol b)
      else if fk_event a \<noteq> fk_event b then string_less (fk_event a) (fk_event b)
      else string_less (fk_reason a) (fk_reason b))"

definition probe_less :: "probeKey \<Rightarrow> probeKey \<Rightarrow> bool" where
  "probe_less a b =
     (if pk_upstream a \<noteq> pk_upstream b then string_less (pk_upstream a) (pk_upstream b)
      else if pk_protocol a \<noteq> pk_protocol b then string_less (pk_protocol a) (pk_protocol b)
      else string_less (pk_result a) (pk_result b))"

definition sortedFlowEventKeys :: "(flowEventKey, uint64) gomap \<Rightarrow> flowEventKey list" where
  "sortedFlowEventKeys m = stable_sort flow_event_less (gkeys m)"

definition sortedProbeKeys :: "(probeKey, uint64) gomap \<Rightarrow> probeKey list" where
  "sortedProbeKeys m = stable_sort probe_less (gkeys m)"

definition unix_nanos :: "time \<Rightarrow> int" where
  "unix_nanos t = t - unix_epoch"

text \<open>One sample: the name, the labels and the value.\<close>

type_synonym sample = "string \<times> (string \<times> string) list \<times> string"

definition flow_samples :: "Metrics \<Rightarrow> sample list" where
  "flow_samples m =
     map (\<lambda>k. (''fbforward_flow_events_total'', [(''protocol'', fk_protocol k), (''event'', fk_event k), (''reason'', fk_reason k)],
               uint_text (gget_default 0 (me_flowEvents m) k))) (sortedFlowEventKeys (me_flowEvents m))"

definition route_samples :: "Metrics \<Rightarrow> sample list" where
  "route_samples m =
     map (\<lambda>r. (''fbforward_route_selected_upstream'', [(''route'', r), (''upstream'', gget_default [] (me_routes m) r)], ''1''))
       (sortedKeys (me_routes m))"

definition upstream_of :: "Metrics \<Rightarrow> string \<Rightarrow> upstreamState" where
  "upstream_of m tag = (case gget (me_upstreams m) tag of None \<Rightarrow> new_upstream_state | Some st \<Rightarrow> st)"

definition health_samples :: "Metrics \<Rightarrow> sample list" where
  "health_samples m =
     concat (map (\<lambda>tag. map (\<lambda>st. (''fbforward_upstream_health_state'', [(''upstream'', tag), (''state'', st)],
               if health_text (mu_HealthState (ms_metrics (upstream_of m tag))) = st then ''1'' else ''0''))
         [''healthy'', ''stale'', ''unknown'', ''down'']) (sortedKeys (me_upstreams m)))"

definition rtt_samples :: "(float64 \<Rightarrow> string) \<Rightarrow> Metrics \<Rightarrow> sample list" where
  "rtt_samples formatFloat m =
     map (\<lambda>tag. (''fbforward_upstream_rtt_seconds'', [(''upstream'', tag)], formatFloat (mu_RTTMs (ms_metrics (upstream_of m tag)) / 1000)))
       (sortedKeys (me_upstreams m))"

definition success_samples :: "(float64 \<Rightarrow> string) \<Rightarrow> Metrics \<Rightarrow> sample list" where
  "success_samples formatFloat m =
     map (\<lambda>tag. let t = mu_LastSuccess (ms_metrics (upstream_of m tag))
        in (''fbforward_upstream_last_success_timestamp_seconds'', [(''upstream'', tag)],
            formatFloat (if is_zero_time t then 0 else of_int (unix_nanos t) / 1000000000)))
       (sortedKeys (me_upstreams m))"

definition probe_samples :: "Metrics \<Rightarrow> sample list" where
  "probe_samples m =
     map (\<lambda>k. (''fbforward_upstream_probes_total'', [(''upstream'', pk_upstream k), (''protocol'', pk_protocol k), (''result'', pk_result k)],
               uint_text (gget_default 0 (me_probes m) k))) (sortedProbeKeys (me_probes m))"

definition traffic_samples :: "Metrics \<Rightarrow> sample list" where
  "traffic_samples m =
     concat (map (\<lambda>tag. let t = ms_traffic (upstream_of m tag)
        in map (\<lambda>(p, d, v). (''fbforward_traffic_bytes_total'', [(''upstream'', tag), (''protocol'', p), (''direction'', d)], uint_text v))
             [(''tcp'', ''up'', tc_tcpUp t), (''tcp'', ''down'', tc_tcpDown t), (''udp'', ''up'', tc_udpUp t), (''udp'', ''down'', tc_udpDown t)])
       (sortedKeys (me_upstreams m)))"

definition webhook_samples :: "Metrics \<Rightarrow> sample list" where
  "webhook_samples m =
     map (\<lambda>r. (''fbforward_webhook_deliveries_total'', [(''result'', r)], uint_text (gget_default 0 (me_webhook m) r)))
       [''success'', ''failed'', ''dropped'']"

definition denied_samples :: "Metrics \<Rightarrow> sample list" where
  "denied_samples m =
     map (\<lambda>r. (''fbforward_firewall_denied_total'', [(''rule_type'', r)], uint_text (gget_default 0 (me_firewallDenied m) r)))
       (sortedKeys (me_firewallDenied m))"

text \<open>The families of \<open>Render\<close>, each with its name, its kind and its samples.\<close>

definition families :: "(float64 \<Rightarrow> string) \<Rightarrow> time \<Rightarrow> Metrics \<Rightarrow> (string \<times> string \<times> sample list) list" where
  "families formatFloat now m =
     [(''fbforward_uptime_seconds'', ''gauge'', [(''fbforward_uptime_seconds'', [], formatFloat (seconds (time_sub now (me_startedAt m))))]),
      (''fbforward_flows_active'', ''gauge'',
         [(''fbforward_flows_active'', [(''protocol'', ''tcp'')], Itoa (me_tcpActive m)),
          (''fbforward_flows_active'', [(''protocol'', ''udp'')], Itoa (me_udpActive m))]),
      (''fbforward_flow_events_total'', ''counter'', flow_samples m),
      (''fbforward_route_selected_upstream'', ''gauge'', route_samples m),
      (''fbforward_upstream_health_state'', ''gauge'', health_samples m),
      (''fbforward_upstream_rtt_seconds'', ''gauge'', rtt_samples formatFloat m),
      (''fbforward_upstream_last_success_timestamp_seconds'', ''gauge'', success_samples formatFloat m),
      (''fbforward_upstream_probes_total'', ''counter'', probe_samples m),
      (''fbforward_traffic_bytes_total'', ''counter'', traffic_samples m),
      (''fbforward_audit_records_total'', ''counter'',
         [(''fbforward_audit_records_total'', [(''result'', ''received'')], uint_text (ac_received (me_audit m))),
          (''fbforward_audit_records_total'', [(''result'', ''written'')], uint_text (ac_written (me_audit m))),
          (''fbforward_audit_records_total'', [(''result'', ''dropped'')], uint_text (ac_dropped (me_audit m)))]),
      (''fbforward_udp_rate_limit_drops_total'', ''counter'', [(''fbforward_udp_rate_limit_drops_total'', [], uint_text (me_rateLimitDrops m))]),
      (''fbforward_online_rules_active'', ''gauge'', [(''fbforward_online_rules_active'', [], Itoa (me_onlineRules m))]),
      (''fbforward_online_rule_errors_total'', ''counter'',
         [(''fbforward_online_rule_errors_total'', [(''operation'', ''expire'')], uint_text (me_onlineRuleErrors m))]),
      (''fbforward_webhook_deliveries_total'', ''counter'', webhook_samples m),
      (''fbforward_firewall_denied_total'', ''counter'', denied_samples m)]"

definition write_family :: "string \<times> string \<times> sample list \<Rightarrow> string" where
  "write_family f = (case f of (name, kind, samples) \<Rightarrow>
     writeType name kind @ concat (map (\<lambda>(n, ls, v). writeSample n ls v) samples))"

definition Render :: "(float64 \<Rightarrow> string) \<Rightarrow> time \<Rightarrow> Metrics \<Rightarrow> string" where
  "Render formatFloat now m = concat (map write_family (families formatFloat now m))"

section \<open>Bounded series\<close>

text \<open>The calls the components make, in any order and with any texts.\<close>

datatype metrics_op =
    MeUpstream string UpstreamStats
  | MeProbe string string bool
  | MeRoute string string
  | MeInc string
  | MeDec string
  | MeEvent string string string
  | MeTraffic string string string uint64
  | MeReceived uint64
  | MeWritten uint64
  | MeDropped uint64
  | MeRateLimitDrop
  | MeOnlineRules int
  | MeExpiryError
  | MeWebhook string
  | MeDenied string

fun metrics_step :: "Metrics \<Rightarrow> metrics_op \<Rightarrow> Metrics" where
  "metrics_step m (MeUpstream tag stats) = SetUpstreamMetrics tag stats m"
| "metrics_step m (MeProbe tag protocol success) = metrics_RecordProbe tag protocol success m"
| "metrics_step m (MeRoute route tag) = SetRouteSelected route tag m"
| "metrics_step m (MeInc protocol) = IncActive protocol m"
| "metrics_step m (MeDec protocol) = DecActive protocol m"
| "metrics_step m (MeEvent protocol event reason) = RecordFlowEvent protocol event reason m"
| "metrics_step m (MeTraffic tag protocol direction n) = AddTraffic tag protocol direction n m"
| "metrics_step m (MeReceived n) = on_audit (AddAuditReceived n) m"
| "metrics_step m (MeWritten n) = on_audit (AddAuditWritten n) m"
| "metrics_step m (MeDropped n) = on_audit (AddAuditDropped n) m"
| "metrics_step m MeRateLimitDrop = RecordRateLimitDrop m"
| "metrics_step m (MeOnlineRules n) = SetOnlineRulesActive n m"
| "metrics_step m MeExpiryError = IncOnlineRuleExpiryError m"
| "metrics_step m (MeWebhook result) = IncWebhookDelivery result m"
| "metrics_step m (MeDenied ruleType) = IncFirewallDenied ruleType m"

text \<open>The vocabulary of the labels.\<close>

definition reasons :: "string list" where
  "reasons = [''eof'', ''timeout'', ''policy'', ''capacity'', ''io_error'', ''canceled'', ''upstream_unusable'', ''dial_failed'', ''shutdown'', ''none'', ''other'']"

definition flow_labels :: "flowEventKey list" where
  "flow_labels =
     concat (map (\<lambda>p. \<lparr>fk_protocol = p, fk_event = ''open'', fk_reason = ''none''\<rparr> #
        concat (map (\<lambda>e. map (\<lambda>r. \<lparr>fk_protocol = p, fk_event = e, fk_reason = r\<rparr>) reasons) [''close'', ''reject'']))
       [''tcp'', ''udp''])"

definition probe_labels :: "string list \<Rightarrow> probeKey list" where
  "probe_labels tags =
     concat (map (\<lambda>t. concat (map (\<lambda>p. map (\<lambda>r. \<lparr>pk_upstream = t, pk_protocol = p, pk_result = r\<rparr>) [''success'', ''failure'']) [''tcp'', ''udp''])) tags)"

definition rule_types :: "string list" where
  "rule_types = [''ip'', ''cidr'', ''asn'', ''country'', ''protocol'', ''other'']"

definition label_inv :: "string list \<Rightarrow> Metrics \<Rightarrow> bool" where
  "label_inv tags m \<longleftrightarrow>
     gok (me_upstreams m) \<and> set (gkeys (me_upstreams m)) \<subseteq> set tags \<and>
     gok (me_flowEvents m) \<and> set (gkeys (me_flowEvents m)) \<subseteq> set flow_labels \<and>
     gok (me_probes m) \<and> set (gkeys (me_probes m)) \<subseteq> set (probe_labels tags) \<and>
     gok (me_firewallDenied m) \<and> set (gkeys (me_firewallDenied m)) \<subseteq> set rule_types \<and> gok (me_routes m)"

lemma if_in: "a \<in> A \<Longrightarrow> b \<in> A \<Longrightarrow> (if c then a else b) \<in> A"
  by simp

lemma normalizeReason_in: "normalizeReason r \<in> set reasons"
  unfolding normalizeReason_def Let_def by (intro if_in) (simp_all add: reasons_def)

lemma normalizeRuleType_in: "normalizeRuleType r \<in> set rule_types"
  by (auto simp: normalizeRuleType_def rule_types_def Let_def)

lemma normalizeProtocol_cases: "normalizeProtocol p = ''tcp'' \<or> normalizeProtocol p = ''udp'' \<or> normalizeProtocol p = ''other''"
  by (simp add: normalizeProtocol_def Let_def)

lemma map_in_set: "x \<in> set xs \<Longrightarrow> f x \<in> set (map f xs)"
  by simp

lemma in_concat_map: "x \<in> set xs \<Longrightarrow> y \<in> set (f x) \<Longrightarrow> y \<in> set (concat (map f xs))"
  by auto

lemma flow_label_in:
  assumes p: "p \<in> set [''tcp'', ''udp'']"
  shows "\<lparr>fk_protocol = p, fk_event = ''open'', fk_reason = ''none''\<rparr> \<in> set flow_labels"
    and "e \<in> set [''close'', ''reject''] \<Longrightarrow> r \<in> set reasons \<Longrightarrow> \<lparr>fk_protocol = p, fk_event = e, fk_reason = r\<rparr> \<in> set flow_labels"
  unfolding flow_labels_def
  by (rule in_concat_map [OF p], rule list.set_intros(1))
    (rule in_concat_map [OF p], rule list.set_intros(2), rule in_concat_map, assumption, rule map_in_set)

lemma probe_label_in:
  assumes "t \<in> set tags" "p \<in> set [''tcp'', ''udp'']" "r \<in> set [''success'', ''failure'']"
  shows "\<lparr>pk_upstream = t, pk_protocol = p, pk_result = r\<rparr> \<in> set (probe_labels tags)"
  unfolding probe_labels_def
  by (rule in_concat_map [OF assms(1)], rule in_concat_map [OF assms(2)], rule map_in_set [OF assms(3)])

lemma gget_key: "gget m k = Some v \<Longrightarrow> k \<in> set (gkeys m)"
  by (force dest: gget_in_set)

lemma keys_gput [simp]: "fst ` set (gput k v m) = insert k (fst ` set m)"
  using set_gkeys_gput [of k v m] by simp

lemma label_inv_event:
  assumes "label_inv tags m"
  shows "label_inv tags (RecordFlowEvent p e r m)"
proof (cases "(normalizeProtocol p = ''tcp'' \<or> normalizeProtocol p = ''udp'') \<and> (e = ''open'' \<or> e = ''close'' \<or> e = ''reject'')")
  case True
  define k where "k = \<lparr>fk_protocol = normalizeProtocol p, fk_event = e, fk_reason = (if e = ''open'' then ''none'' else normalizeReason r)\<rparr>"
  have p: "normalizeProtocol p \<in> set [''tcp'', ''udp'']" using True by simp
  have "k \<in> set flow_labels"
    using True flow_label_in(1) [OF p] flow_label_in(2) [OF p _ normalizeReason_in [of r], of e]
    by (cases "e = ''open''") (simp_all add: k_def)
  moreover have "RecordFlowEvent p e r m = m\<lparr>me_flowEvents := count_up k (me_flowEvents m)\<rparr>"
    unfolding RecordFlowEvent_def Let_def k_def using True by presburger
  ultimately show ?thesis using assms by (simp add: label_inv_def count_up_def)
next
  case False
  then have "RecordFlowEvent p e r m = m" unfolding RecordFlowEvent_def Let_def by presburger
  with assms show ?thesis by simp
qed

lemma label_inv_probe:
  assumes "label_inv tags m"
  shows "label_inv tags (metrics_RecordProbe tag p ok m)"
proof (cases "normalizeProtocol p = ''other'' \<or> gget (me_upstreams m) tag = None")
  case False
  define k where "k = \<lparr>pk_upstream = tag, pk_protocol = normalizeProtocol p, pk_result = (if ok then ''success'' else ''failure'')\<rparr>"
  have "tag \<in> set tags" using False assms gget_key [of "me_upstreams m" tag] by (auto simp: label_inv_def)
  then have "k \<in> set (probe_labels tags)"
    unfolding k_def using False normalizeProtocol_cases [of p] by (intro probe_label_in) (simp_all split: if_split)
  moreover have "metrics_RecordProbe tag p ok m = m\<lparr>me_probes := count_up k (me_probes m)\<rparr>"
    unfolding metrics_RecordProbe_def Let_def k_def using False by (auto split: option.splits)
  ultimately show ?thesis using assms by (simp add: label_inv_def count_up_def)
qed (use assms in \<open>auto simp: metrics_RecordProbe_def Let_def\<close>)

lemma label_inv_put:
  "label_inv tags m \<Longrightarrow> gget (me_upstreams m) tag = Some st \<Longrightarrow> label_inv tags (m\<lparr>me_upstreams := gput tag st' (me_upstreams m)\<rparr>)"
  using gget_key [of "me_upstreams m" tag st] by (auto simp: label_inv_def)

lemma label_inv_same:
  "label_inv tags m \<Longrightarrow> me_upstreams m' = me_upstreams m \<Longrightarrow> me_flowEvents m' = me_flowEvents m \<Longrightarrow> me_probes m' = me_probes m \<Longrightarrow>
     me_firewallDenied m' = me_firewallDenied m \<Longrightarrow> me_routes m' = me_routes m \<Longrightarrow> label_inv tags m'"
  by (simp add: label_inv_def)

lemma label_inv_step: "label_inv tags m \<Longrightarrow> label_inv tags (metrics_step m e)"
proof (cases e)
  case (MeUpstream tag stats)
  assume "label_inv tags m"
  then show ?thesis unfolding MeUpstream metrics_step.simps SetUpstreamMetrics_def by (auto split: option.splits intro: label_inv_put)
next
  case (MeTraffic tag p d n)
  assume "label_inv tags m"
  then show ?thesis unfolding MeTraffic metrics_step.simps AddTraffic_def by (auto split: option.splits intro: label_inv_put)
next
  case (MeDenied r)
  assume "label_inv tags m"
  then show ?thesis using normalizeRuleType_in [of r] by (simp add: MeDenied IncFirewallDenied_def label_inv_def count_up_def)
next
  case (MeRoute r t)
  assume "label_inv tags m"
  then show ?thesis by (simp add: MeRoute SetRouteSelected_def label_inv_def)
qed (auto simp: label_inv_event label_inv_probe IncActive_def DecActive_def on_audit_def RecordRateLimitDrop_def SetOnlineRulesActive_def
      IncOnlineRuleExpiryError_def IncWebhookDelivery_def Let_def split: option.splits elim!: label_inv_same)

interpretation metric_calls: event_system metrics_step "label_inv tags" for tags
  by unfold_locales (rule label_inv_step)

lemma new_upstreams:
  "gok ups \<Longrightarrow> set (gkeys ups) \<subseteq> T \<Longrightarrow> set tags \<subseteq> T \<Longrightarrow>
     gok (foldl (\<lambda>ups tag. if tag = [] then ups else gput tag st ups) ups tags) \<and>
     set (gkeys (foldl (\<lambda>ups tag. if tag = [] then ups else gput tag st ups) ups tags)) \<subseteq> T"
  by (induction tags arbitrary: ups) simp_all

lemma label_inv_new: "label_inv tags (NewMetrics now tags)"
  using new_upstreams [of "[]" "set tags" tags new_upstream_state] by (simp add: label_inv_def NewMetrics_def)

text \<open>The routes a sequence of calls selects an upstream for.\<close>

fun op_routes :: "metrics_op list \<Rightarrow> string list" where
  "op_routes [] = []"
| "op_routes (e # es) = (case e of MeRoute route tag \<Rightarrow> [route] | _ \<Rightarrow> []) @ op_routes es"

lemma routes_step:
  "set (gkeys (me_routes (metrics_step m e))) \<subseteq> set (gkeys (me_routes m)) \<union> set (op_routes [e])"
  by (cases e) (auto simp: SetUpstreamMetrics_def metrics_RecordProbe_def SetRouteSelected_def IncActive_def DecActive_def RecordFlowEvent_def
      AddTraffic_def on_audit_def RecordRateLimitDrop_def SetOnlineRulesActive_def IncOnlineRuleExpiryError_def IncWebhookDelivery_def
      IncFirewallDenied_def Let_def split: option.splits)

lemma routes_run: "set (gkeys (me_routes (foldl metrics_step m es))) \<subseteq> set (gkeys (me_routes m)) \<union> set (op_routes es)"
proof (induction es arbitrary: m)
  case (Cons e es)
  from Cons [of "metrics_step m e"] routes_step [of m e] show ?case by auto
qed simp

lemma distinct_bound: "distinct xs \<Longrightarrow> set xs \<subseteq> set ys \<Longrightarrow> length xs \<le> length ys"
  by (metis List.finite_set card_length card_mono distinct_card order_trans)

lemma length_flow_labels: "length flow_labels = 46"
  by (simp add: flow_labels_def reasons_def)

lemma length_probe_labels: "length (probe_labels tags) = 4 * length tags"
  by (induction tags) (simp_all add: probe_labels_def)

lemma length_concat_const: "(\<And>x. length (f x) = n) \<Longrightarrow> length (concat (map f xs)) = n * length xs"
  by (induction xs) simp_all

definition series :: "(float64 \<Rightarrow> string) \<Rightarrow> time \<Rightarrow> Metrics \<Rightarrow> sample list" where
  "series formatFloat now m = concat (map (\<lambda>(name, kind, samples). samples) (families formatFloat now m))"

lemma length_series:
  "length (series f now m) = 12 + length (me_flowEvents m) + length (me_routes m) + 10 * length (me_upstreams m) + length (me_probes m) +
     length (me_firewallDenied m)"
  by (simp add: series_def families_def flow_samples_def route_samples_def health_samples_def rtt_samples_def success_samples_def
      probe_samples_def traffic_samples_def webhook_samples_def denied_samples_def sortedKeys_def sortedFlowEventKeys_def
      sortedProbeKeys_def length_concat_const [where n = 4] Let_def del: length_concat)

text \<open>
  C38: a peer cannot grow the metrics. Whatever texts the components report, reasons of closes and
  types of rules included, the number of series a scrape returns is bounded by the upstreams the
  metrics were made for and the routes an upstream was selected for.
\<close>

theorem metric_series_bounded:
  "length (series f now (foldl metrics_step (NewMetrics t tags) ops)) \<le> 64 + 14 * length tags + card (set (op_routes ops))"
proof -
  let ?m = "foldl metrics_step (NewMetrics t tags) ops"
  have inv: "label_inv tags ?m" by (rule metric_calls.run_invar) (rule label_inv_new)
  have "length (me_upstreams ?m) \<le> length tags" "length (me_flowEvents ?m) \<le> 46" "length (me_probes ?m) \<le> 4 * length tags"
    "length (me_firewallDenied ?m) \<le> 6"
    using inv distinct_bound [of "gkeys (me_upstreams ?m)" tags] distinct_bound [of "gkeys (me_flowEvents ?m)" flow_labels]
      distinct_bound [of "gkeys (me_probes ?m)" "probe_labels tags"] distinct_bound [of "gkeys (me_firewallDenied ?m)" rule_types]
    by (simp_all add: label_inv_def length_flow_labels length_probe_labels rule_types_def)
  moreover have "length (me_routes ?m) \<le> card (set (op_routes ops))"
  proof -
    have "me_routes (NewMetrics t tags) = []" by (simp add: NewMetrics_def)
    with routes_run [of "NewMetrics t tags" ops] have "set (gkeys (me_routes ?m)) \<subseteq> set (op_routes ops)" by simp
    with inv show ?thesis using card_mono [of "set (op_routes ops)"] distinct_card [of "gkeys (me_routes ?m)"]
      by (metis List.finite_set label_inv_def length_map)
  qed
  ultimately show ?thesis unfolding length_series by simp
qed

section \<open>Traffic and active Flows\<close>

text \<open>
  What the Flows reported: the last counters of each Flow, open or closed. A sequence of calls is
  in order when a Flow is opened once and the counters of an open Flow do not decrease.
\<close>

record booked =
  bk_protocol :: string
  bk_upstream :: string
  bk_up :: uint64
  bk_down :: uint64
  bk_open :: bool

definition book_counters :: "string \<Rightarrow> uint64 \<Rightarrow> uint64 \<Rightarrow> bool \<Rightarrow> (string, booked) gomap \<Rightarrow> (string, booked) gomap" where
  "book_counters fid up down still b =
     (case gget b fid of
        None \<Rightarrow> b
      | Some e \<Rightarrow> if bk_open e then gput fid (e\<lparr>bk_up := up, bk_down := down, bk_open := still\<rparr>) b else b)"

fun book_step :: "(string, booked) gomap \<Rightarrow> obs_call \<Rightarrow> (string, booked) gomap" where
  "book_step b (ObsOpen meta) =
     gput (meta_ID meta) \<lparr>bk_protocol = meta_Protocol meta, bk_upstream = meta_Upstream meta, bk_up = 0, bk_down = 0, bk_open = True\<rparr> b"
| "book_step b (ObsUpdate fid c) = book_counters fid (ctr_BytesUp c) (ctr_BytesDown c) True b"
| "book_step b (ObsClose s) = book_counters (meta_ID (sum_Meta s)) (sum_BytesUp s) (sum_BytesDown s) False b"
| "book_step b (ObsReject r) = b"

definition counters_grow :: "string \<Rightarrow> uint64 \<Rightarrow> uint64 \<Rightarrow> (string, booked) gomap \<Rightarrow> bool" where
  "counters_grow fid up down b =
     (case gget b fid of None \<Rightarrow> True | Some e \<Rightarrow> bk_open e \<longrightarrow> bk_up e \<le> up \<and> bk_down e \<le> down)"

fun call_in_order :: "(string, booked) gomap \<Rightarrow> obs_call \<Rightarrow> bool" where
  "call_in_order b (ObsOpen meta) \<longleftrightarrow> gget b (meta_ID meta) = None"
| "call_in_order b (ObsUpdate fid c) \<longleftrightarrow> counters_grow fid (ctr_BytesUp c) (ctr_BytesDown c) b"
| "call_in_order b (ObsClose s) \<longleftrightarrow> counters_grow (meta_ID (sum_Meta s)) (sum_BytesUp s) (sum_BytesDown s) b"
| "call_in_order b (ObsReject r) \<longleftrightarrow> True"

fun calls_in_order :: "(string, booked) gomap \<Rightarrow> obs_call list \<Rightarrow> bool" where
  "calls_in_order b [] = True"
| "calls_in_order b (c # cs) \<longleftrightarrow> call_in_order b c \<and> calls_in_order (book_step b c) cs"

definition counter_of :: "string \<Rightarrow> bool \<Rightarrow> trafficCounters \<Rightarrow> uint64" where
  "counter_of protocol up t =
     (if protocol = ''tcp'' then (if up then tc_tcpUp t else tc_tcpDown t) else if up then tc_udpUp t else tc_udpDown t)"

definition traffic_of :: "Metrics \<Rightarrow> string \<Rightarrow> string \<Rightarrow> bool \<Rightarrow> uint64" where
  "traffic_of m tag protocol up = counter_of protocol up (ms_traffic (upstream_of m tag))"

definition booked_bytes :: "string \<Rightarrow> string \<Rightarrow> bool \<Rightarrow> booked \<Rightarrow> uint64" where
  "booked_bytes tag protocol up e =
     (if bk_upstream e = tag \<and> normalizeProtocol (bk_protocol e) = protocol then (if up then bk_up e else bk_down e) else 0)"

definition total_bytes :: "string \<Rightarrow> string \<Rightarrow> bool \<Rightarrow> (string, booked) gomap \<Rightarrow> uint64" where
  "total_bytes tag protocol up b = (\<Sum>(k, e) \<leftarrow> b. booked_bytes tag protocol up e)"

definition open_on :: "string \<Rightarrow> booked \<Rightarrow> bool" where
  "open_on protocol e \<longleftrightarrow> bk_open e \<and> normalizeProtocol (bk_protocol e) = protocol"

lemma sum_gput:
  "gok m \<Longrightarrow> (\<Sum>(k, e) \<leftarrow> gput k v m. f e) = (\<Sum>(k, e) \<leftarrow> m. f e) + f v - (case gget m k of None \<Rightarrow> 0 | Some w \<Rightarrow> (f w :: 'b :: ring_1))"
  by (induction m) (auto simp: algebra_simps split: option.splits)

lemma not_fold [simp]: "\<not> EqualFold ''down'' ''up''"
  by code_simp

lemma traffic_AddTraffic:
  assumes "protocol = ''tcp'' \<or> protocol = ''udp''" and "gget (me_upstreams m) tag \<noteq> None"
  shows "traffic_of (AddTraffic tag' p (if d then ''up'' else ''down'') n m) tag protocol up =
     traffic_of m tag protocol up + (if tag' = tag \<and> normalizeProtocol p = protocol \<and> d = up then n else 0)"
  using assms normalizeProtocol_cases [of p]
  by (auto simp: traffic_of_def upstream_of_def AddTraffic_def add_traffic_def counter_of_def split: option.splits)

lemma upstreams_AddTraffic [simp]: "(gget (me_upstreams (AddTraffic tag' p d n m)) tag = None) = (gget (me_upstreams m) tag = None)"
  by (auto simp: AddTraffic_def split: option.splits)

lemma traffic_addBytes:
  assumes "protocol = ''tcp'' \<or> protocol = ''udp''" and "gget (me_upstreams m) tag \<noteq> None"
  shows "traffic_of (addBytes st u d m) tag protocol up =
     traffic_of m tag protocol up + (if fm_upstream st = tag \<and> normalizeProtocol (fm_protocol st) = protocol then (if up then u else d) else 0)"
proof -
  have a: "traffic_of (if u > 0 then AddTraffic (fm_upstream st) (fm_protocol st) ''up'' u m else m) tag protocol up =
      traffic_of m tag protocol up + (if fm_upstream st = tag \<and> normalizeProtocol (fm_protocol st) = protocol \<and> up then u else 0)"
    using traffic_AddTraffic [OF assms, of "fm_upstream st" "fm_protocol st" True u up] by (cases "u = 0") (auto simp: word_neq_0_conv)
  let ?m = "if u > 0 then AddTraffic (fm_upstream st) (fm_protocol st) ''up'' u m else m"
  have "gget (me_upstreams ?m) tag \<noteq> None" using assms(2) by (simp del: not_None_eq)
  from traffic_AddTraffic [OF assms(1) this, of "fm_upstream st" "fm_protocol st" False d up] a
  show ?thesis by (cases "d = 0") (auto simp: addBytes_def Let_def word_neq_0_conv)
qed

text \<open>The observer and the book agree.\<close>

definition observed :: "booked \<Rightarrow> flowMetricState" where
  "observed e = \<lparr>fm_protocol = bk_protocol e, fm_upstream = bk_upstream e, fm_bytesUp = bk_up e, fm_bytesDown = bk_down e\<rparr>"

definition agrees_with :: "FlowObserver \<Rightarrow> (string, booked) gomap \<Rightarrow> bool" where
  "agrees_with ob b \<longleftrightarrow> gok b \<and>
     (\<forall>fid. gget (fo_flows ob) fid = (case gget b fid of None \<Rightarrow> None | Some e \<Rightarrow> if bk_open e then Some (observed e) else None)) \<and>
     me_tcpActive (fo_metrics ob) = int (gcount (open_on ''tcp'') b) \<and> me_udpActive (fo_metrics ob) = int (gcount (open_on ''udp'') b)"

lemma active_event [simp]:
  "me_tcpActive (RecordFlowEvent p e r m) = me_tcpActive m" "me_udpActive (RecordFlowEvent p e r m) = me_udpActive m"
  "me_upstreams (RecordFlowEvent p e r m) = me_upstreams m"
  by (auto simp: RecordFlowEvent_def Let_def)

lemma active_addBytes [simp]:
  "me_tcpActive (addBytes st u d m) = me_tcpActive m" "me_udpActive (addBytes st u d m) = me_udpActive m"
  "(gget (me_upstreams (addBytes st u d m)) tag = None) = (gget (me_upstreams m) tag = None)"
  by (auto simp: addBytes_def AddTraffic_def Let_def split: option.splits)

lemma active_Inc [simp]:
  "me_tcpActive (IncActive p m) = me_tcpActive m + of_bool (normalizeProtocol p = ''tcp'')"
  "me_udpActive (IncActive p m) = me_udpActive m + of_bool (normalizeProtocol p = ''udp'')"
  "me_upstreams (IncActive p m) = me_upstreams m"
  by (auto simp: IncActive_def Let_def)

lemma active_Dec [simp]:
  "me_tcpActive (DecActive p m) = (if normalizeProtocol p = ''tcp'' then decrementNonNegative (me_tcpActive m) else me_tcpActive m)"
  "me_udpActive (DecActive p m) = (if normalizeProtocol p = ''udp'' then decrementNonNegative (me_udpActive m) else me_udpActive m)"
  "me_upstreams (DecActive p m) = me_upstreams m"
  by (auto simp: DecActive_def Let_def)

lemma traffic_same: "me_upstreams m' = me_upstreams m \<Longrightarrow> traffic_of m' tag protocol up = traffic_of m tag protocol up"
  by (simp add: traffic_of_def upstream_of_def)

lemma byte_delta_le: "old \<le> new \<Longrightarrow> byte_delta new old = new - old"
  by (auto simp: byte_delta_def)

lemma gcount_fresh: "gok b \<Longrightarrow> gget b k = None \<Longrightarrow> gcount P (gput k v b) = gcount P b + of_bool (P v)"
  using gcount_gput [of b P k v] by simp

lemma gcount_known: "gok b \<Longrightarrow> gget b k = Some e \<Longrightarrow> gcount P (gput k v b) + of_bool (P e) = gcount P b + of_bool (P v)"
  using gcount_gput [of b P k v] by simp

lemma agrees_step: "agrees_with ob b \<Longrightarrow> call_in_order b c \<Longrightarrow> agrees_with (observer_step ob c) (book_step b c)"
proof (cases c)
  case (ObsOpen meta)
  assume "agrees_with ob b" "call_in_order b c"
  then show ?thesis
    by (auto simp: ObsOpen agrees_with_def observer_Open_def gcount_fresh open_on_def observed_def)
next
  case (ObsUpdate fid cs)
  assume a: "agrees_with ob b" "call_in_order b c"
  show ?thesis
  proof (cases "\<exists>e. gget b fid = Some e \<and> bk_open e")
    case True
    then obtain e where e: "gget b fid = Some e" "bk_open e" by blast
    have "gcount (open_on p) (gput fid (e\<lparr>bk_up := x, bk_down := y, bk_open := True\<rparr>) b) = gcount (open_on p) b" for p x y
      using gcount_known [OF _ e(1), of "open_on p" "e\<lparr>bk_up := x, bk_down := y, bk_open := True\<rparr>"] a(1) e(2)
      by (auto simp: agrees_with_def open_on_def)
    with a e show ?thesis
      by (simp add: ObsUpdate agrees_with_def observer_Update_def book_counters_def Let_def observed_def)
  next
    case False
    with a have "gget (fo_flows ob) fid = None" "book_step b c = b"
      by (auto simp: ObsUpdate agrees_with_def book_counters_def split: option.splits)
    with a show ?thesis by (simp add: ObsUpdate observer_Update_def)
  qed
next
  case (ObsClose s)
  let ?fid = "meta_ID (sum_Meta s)"
  assume a: "agrees_with ob b" "call_in_order b c"
  show ?thesis
  proof (cases "\<exists>e. gget b ?fid = Some e \<and> bk_open e")
    case True
    then obtain e where e: "gget b ?fid = Some e" "bk_open e" by blast
    have g: "gcount (open_on p) (gput ?fid (e\<lparr>bk_up := x, bk_down := y, bk_open := False\<rparr>) b) + of_bool (normalizeProtocol (bk_protocol e) = p)
        = gcount (open_on p) b" for p x y
      using gcount_known [OF _ e(1), of "open_on p" "e\<lparr>bk_up := x, bk_down := y, bk_open := False\<rparr>"] a(1) e(2)
      by (auto simp: agrees_with_def open_on_def)
    from g [of "''tcp''" "sum_BytesDown s" "sum_BytesUp s"] g [of "''udp''" "sum_BytesDown s" "sum_BytesUp s"] a e show ?thesis
      by (auto simp: ObsClose agrees_with_def observer_Close_def book_counters_def Let_def observed_def decrementNonNegative_def)
  next
    case False
    with a have "gget (fo_flows ob) ?fid = None" "book_step b c = b"
      by (auto simp: ObsClose agrees_with_def book_counters_def split: option.splits)
    with a show ?thesis by (simp add: ObsClose observer_Close_def)
  qed
next
  case (ObsReject r)
  assume "agrees_with ob b"
  then show ?thesis by (simp add: ObsReject agrees_with_def observer_Reject_def)
qed

lemma upstreams_step [simp]:
  "(gget (me_upstreams (fo_metrics (observer_step ob c))) tag = None) = (gget (me_upstreams (fo_metrics ob)) tag = None)"
  by (cases c) (auto simp: observer_Open_def observer_Update_def observer_Close_def observer_Reject_def Let_def split: option.splits)

lemma total_put:
  "gok b \<Longrightarrow> total_bytes tag p up (gput k v b) =
     total_bytes tag p up b + booked_bytes tag p up v - (case gget b k of None \<Rightarrow> 0 | Some w \<Rightarrow> booked_bytes tag p up w)"
  unfolding total_bytes_def by (rule sum_gput)

lemma traffic_step:
  assumes a: "agrees_with ob b" "call_in_order b c" and p: "protocol = ''tcp'' \<or> protocol = ''udp''" and t: "gget (me_upstreams (fo_metrics ob)) tag \<noteq> None"
  shows "traffic_of (fo_metrics (observer_step ob c)) tag protocol up - traffic_of (fo_metrics ob) tag protocol up =
     total_bytes tag protocol up (book_step b c) - total_bytes tag protocol up b"
proof (cases c)
  case (ObsOpen meta)
  with a show ?thesis
    by (simp add: observer_Open_def agrees_with_def total_put booked_bytes_def traffic_same [of "RecordFlowEvent _ _ _ _" "fo_metrics ob"])
next
  case (ObsUpdate fid cs)
  show ?thesis
  proof (cases "gget (fo_flows ob) fid")
    case None
    with a show ?thesis by (auto simp: ObsUpdate observer_Update_def agrees_with_def book_counters_def split: option.splits if_splits)
  next
    case (Some st)
    with a(1) obtain e where e: "gget b fid = Some e" "bk_open e" "st = observed e" by (auto simp: agrees_with_def split: option.splits if_splits)
    with a(2) have "bk_up e \<le> ctr_BytesUp cs" "bk_down e \<le> ctr_BytesDown cs" by (simp_all add: ObsUpdate counters_grow_def)
    with e Some a(1) show ?thesis
      by (simp add: ObsUpdate observer_Update_def Let_def traffic_addBytes [OF p t] book_counters_def agrees_with_def total_put booked_bytes_def
          observed_def byte_delta_le)
  qed
next
  case (ObsClose s)
  let ?fid = "meta_ID (sum_Meta s)"
  show ?thesis
  proof (cases "gget (fo_flows ob) ?fid")
    case None
    with a show ?thesis by (auto simp: ObsClose observer_Close_def agrees_with_def book_counters_def split: option.splits if_splits)
  next
    case (Some st)
    with a(1) obtain e where e: "gget b ?fid = Some e" "bk_open e" "st = observed e" by (auto simp: agrees_with_def split: option.splits if_splits)
    with a(2) have "bk_up e \<le> sum_BytesUp s" "bk_down e \<le> sum_BytesDown s" by (simp_all add: ObsClose counters_grow_def)
    moreover have "traffic_of (RecordFlowEvent x y z (DecActive x m)) tag protocol up = traffic_of m tag protocol up" for x y z m
      by (rule traffic_same) simp
    ultimately show ?thesis using e Some a(1)
      by (simp add: ObsClose observer_Close_def Let_def traffic_addBytes [OF p t] book_counters_def agrees_with_def total_put booked_bytes_def
          observed_def byte_delta_le)
  qed
next
  case (ObsReject r)
  then show ?thesis by (simp add: observer_Reject_def traffic_same [of "RecordFlowEvent _ _ _ _" "fo_metrics ob"])
qed

lemma observer_run:
  assumes "agrees_with ob b" "calls_in_order b cs" "protocol = ''tcp'' \<or> protocol = ''udp''" "gget (me_upstreams (fo_metrics ob)) tag \<noteq> None"
  shows "agrees_with (foldl observer_step ob cs) (foldl book_step b cs) \<and>
     traffic_of (fo_metrics (foldl observer_step ob cs)) tag protocol up - traffic_of (fo_metrics ob) tag protocol up =
     total_bytes tag protocol up (foldl book_step b cs) - total_bytes tag protocol up b"
  using assms
proof (induction cs arbitrary: ob b)
  case (Cons c cs)
  have s: "agrees_with (observer_step ob c) (book_step b c)" using Cons.prems by (auto intro: agrees_step)
  have i: "agrees_with (foldl observer_step ob (c # cs)) (foldl book_step b (c # cs)) \<and>
      traffic_of (fo_metrics (foldl observer_step ob (c # cs))) tag protocol up - traffic_of (fo_metrics (observer_step ob c)) tag protocol up =
      total_bytes tag protocol up (foldl book_step b (c # cs)) - total_bytes tag protocol up (book_step b c)"
    using Cons.IH [OF s] Cons.prems by simp
  moreover have "traffic_of (fo_metrics (observer_step ob c)) tag protocol up - traffic_of (fo_metrics ob) tag protocol up =
      total_bytes tag protocol up (book_step b c) - total_bytes tag protocol up b"
    using Cons.prems by (intro traffic_step) auto
  ultimately show ?case by (metis (no_types, lifting) add_diff_cancel_right diff_add_cancel diff_diff_eq2)
qed simp

lemma new_upstream_known:
  "tag \<in> set tags \<Longrightarrow> tag \<noteq> [] \<Longrightarrow> gget (foldl (\<lambda>ups t. if t = [] then ups else gput t new_upstream_state ups) ups tags) tag = Some new_upstream_state"
proof (induction tags arbitrary: ups rule: rev_induct)
  case (snoc t ts)
  then show ?case by (cases "tag \<in> set ts") auto
qed simp

lemma traffic_new: "tag \<in> set tags \<Longrightarrow> tag \<noteq> [] \<Longrightarrow> traffic_of (NewMetrics t tags) tag protocol up = 0"
  by (simp add: traffic_of_def upstream_of_def NewMetrics_def new_upstream_known new_upstream_state_def counter_of_def)

lemma agrees_new: "agrees_with (NewFlowObserver (NewMetrics t tags)) []"
  by (simp add: agrees_with_def NewFlowObserver_def NewMetrics_def gcount_def)

text \<open>
  C36: the metrics account for the forwarded bytes. After any interleaving of the calls of Flows,
  each opened once and with counters that do not decrease, the traffic counter of an upstream, a
  protocol and a direction is the sum, modulo two to the 64, of the last counters of the Flows on it,
  open and closed, and the gauges of active Flows are the numbers of open Flows.
\<close>

theorem traffic_accounts_bytes:
  assumes "calls_in_order [] calls" and "tag \<in> set tags" and "tag \<noteq> []" and "protocol = ''tcp'' \<or> protocol = ''udp''"
  shows "let m = fo_metrics (foldl observer_step (NewFlowObserver (NewMetrics t tags)) calls); b = foldl book_step [] calls
     in traffic_of m tag protocol up = total_bytes tag protocol up b \<and>
        me_tcpActive m = int (gcount (open_on ''tcp'') b) \<and> me_udpActive m = int (gcount (open_on ''udp'') b)"
proof -
  have "gget (me_upstreams (fo_metrics (NewFlowObserver (NewMetrics t tags)))) tag \<noteq> None"
    using assms(2,3) by (simp add: NewFlowObserver_def NewMetrics_def new_upstream_known)
  from observer_run [OF agrees_new assms(1,4) this, of up] show ?thesis
    by (simp add: agrees_with_def Let_def traffic_new [OF assms(2,3)] NewFlowObserver_def total_bytes_def)
qed

definition sample_meta :: "string \<Rightarrow> Meta" where
  "sample_meta fid = \<lparr>meta_ID = fid, meta_Protocol = ''tcp'', meta_ClientAddr = zero_addr_port, meta_Listener = '':80'', meta_Route = ''web'',
     meta_Upstream = ''u'', meta_StartedAt = 5\<rparr>"

definition sample_counters :: "uint64 \<Rightarrow> Counters" where
  "sample_counters n = zero_counters\<lparr>ctr_BytesUp := n\<rparr>"

definition sample_observed :: "obs_call list" where
  "sample_observed =
     [ObsOpen (sample_meta ''f''), ObsUpdate ''f'' (sample_counters 4), ObsOpen (sample_meta ''g''), ObsUpdate ''g'' (sample_counters 2),
      ObsClose \<lparr>sum_Meta = sample_meta ''f'', sum_EndedAt = 9, sum_LastActivity = 8, sum_BytesUp = 7, sum_BytesDown = 1, sum_CloseReason = ''eof''\<rparr>]"

theorem traffic_accounts_bytes_witness:
  "traffic_of (fo_metrics (foldl observer_step (NewFlowObserver (NewMetrics 0 [''u''])) sample_observed)) ''u'' ''tcp'' True = 9 \<and>
   me_tcpActive (fo_metrics (foldl observer_step (NewFlowObserver (NewMetrics 0 [''u''])) sample_observed)) = 1"
proof -
  have ok: "calls_in_order [] sample_observed" by code_simp
  have b: "total_bytes ''u'' ''tcp'' True (foldl book_step [] sample_observed) = 9" "gcount (open_on ''tcp'') (foldl book_step [] sample_observed) = 1"
    by code_simp+
  show ?thesis using traffic_accounts_bytes [OF ok, of "''u''" "[''u'']" "''tcp''" 0 True] by (simp add: b Let_def)
qed

section \<open>A scrape reads the series\<close>

text \<open>
  A reader of the text format: a line that begins with \<open>#\<close> is skipped; a sample has a name, labels
  in braces with quoted values, in which a backslash escapes, and a value up to the end of the line.
\<close>

fun read_value :: "string \<Rightarrow> (string \<times> string) option" where
  "read_value [] = None"
| "read_value (c # cs) =
     (if c = CHR 0x22 then Some ([], cs)
      else if c = CHR 0x5C then
        (case cs of [] \<Rightarrow> None | d # ds \<Rightarrow> map_option (\<lambda>(v, r). ((if d = CHR ''n'' then CHR 0x0A else d) # v, r)) (read_value ds))
      else map_option (\<lambda>(v, r). (c # v, r)) (read_value cs))"

lemma read_value_shorter: "read_value s = Some (v, r) \<Longrightarrow> length r < length s"
  by (induction s arbitrary: v r rule: read_value.induct) (fastforce split: if_splits list.splits)+

function read_labels :: "string \<Rightarrow> ((string \<times> string) list \<times> string) option" where
  "read_labels s =
     (case dropWhile (\<lambda>c. c \<noteq> CHR ''='') s of
        e # q # r \<Rightarrow>
          (case read_value r of
             Some (v, d # r') \<Rightarrow>
               if d = CHR '','' then map_option (\<lambda>(ls, r''). ((takeWhile (\<lambda>c. c \<noteq> CHR ''='') s, v) # ls, r'')) (read_labels r')
               else Some ([(takeWhile (\<lambda>c. c \<noteq> CHR ''='') s, v)], r')
           | _ \<Rightarrow> None)
      | _ \<Rightarrow> None)"
  by auto
termination
proof (relation "measure length")
  fix s e x2 q r v y v' d r'
  assume "dropWhile (\<lambda>c. c \<noteq> CHR ''='') s = e # x2" "x2 = q # r" "read_value r = Some y" "(v, v') = y" "v' = d # r'"
  moreover have "length (dropWhile (\<lambda>c. c \<noteq> CHR ''='') s) \<le> length s" by (rule length_dropWhile_le)
  ultimately show "(r', s) \<in> measure length" using read_value_shorter [of r v v'] by auto
qed simp

declare read_labels.simps [simp del]

definition in_name :: "char \<Rightarrow> bool" where
  "in_name c \<longleftrightarrow> c \<noteq> CHR ''{'' \<and> c \<noteq> CHR '' ''"

definition read_rest :: "string \<Rightarrow> (string \<times> string) list \<Rightarrow> string \<Rightarrow> (sample \<times> string) option" where
  "read_rest name labels s =
     (case s of
        c # s' \<Rightarrow> if c = CHR '' '' then Some ((name, labels, takeWhile (\<lambda>c. c \<noteq> CHR 0x0A) s'), tl (dropWhile (\<lambda>c. c \<noteq> CHR 0x0A) s')) else None
      | [] \<Rightarrow> None)"

definition read_sample :: "string \<Rightarrow> (sample \<times> string) option" where
  "read_sample s =
     (let name = takeWhile in_name s
      in case dropWhile in_name s of
           [] \<Rightarrow> None
         | c # r \<Rightarrow> if c = CHR ''{'' then (case read_labels r of None \<Rightarrow> None | Some (ls, r') \<Rightarrow> read_rest name ls r') else read_rest name [] (c # r))"

lemma read_labels_shorter: "read_labels s = Some (ls, r) \<Longrightarrow> length r < length s"
proof (induction s arbitrary: ls r rule: read_labels.induct)
  case (1 s)
  obtain e q t where d: "dropWhile (\<lambda>c. c \<noteq> CHR ''='') s = e # q # t"
    using "1.prems" by (subst (asm) read_labels.simps) (auto split: list.splits)
  obtain v x t' where v: "read_value t = Some (v, x # t')"
    using "1.prems" by (subst (asm) read_labels.simps) (auto simp: d split: option.splits list.splits)
  have l: "length t' < length s"
    using read_value_shorter [OF v] length_dropWhile_le [of "\<lambda>c. c \<noteq> CHR ''=''" s] by (simp add: d)
  show ?case
  proof (cases "x = CHR '',''")
    case True
    then obtain ls' where "read_labels t' = Some (ls', r)"
      using "1.prems" by (subst (asm) read_labels.simps) (auto simp: d v)
    with "1.IH" [OF d refl v refl refl True] l show ?thesis by fastforce
  next
    case False
    with "1.prems" have "r = t'" by (subst (asm) read_labels.simps) (auto simp: d v)
    with l show ?thesis by simp
  qed
qed

lemma read_rest_shorter: "read_rest n ls s = Some (x, r) \<Longrightarrow> length r < length s"
  using length_dropWhile_le [of "\<lambda>c. c \<noteq> CHR 0x0A" "tl s"]
  by (cases s) (auto simp: read_rest_def le_imp_less_Suc split: if_splits)

lemma read_sample_shorter: "read_sample s = Some (x, r) \<Longrightarrow> length r < length s"
  using length_dropWhile_le [of in_name s]
  by (auto simp: read_sample_def Let_def split: list.splits if_splits option.splits dest!: read_rest_shorter read_labels_shorter)

function scrape :: "string \<Rightarrow> (sample list) option" where
  "scrape s =
     (case s of
        [] \<Rightarrow> Some []
      | c # cs \<Rightarrow>
          if c = CHR ''#'' then scrape (tl (dropWhile (\<lambda>c. c \<noteq> CHR 0x0A) cs))
          else (case read_sample s of None \<Rightarrow> None | Some (x, r) \<Rightarrow> map_option (\<lambda>xs. x # xs) (scrape r)))"
  by auto
termination
proof (relation "measure length")
  fix c :: char and cs
  have "length (tl (dropWhile (\<lambda>c. c \<noteq> CHR 0x0A) cs)) \<le> length cs"
    using length_dropWhile_le [of "\<lambda>c. c \<noteq> CHR 0x0A" cs] by simp
  then show "s = c # cs \<Longrightarrow> (tl (dropWhile (\<lambda>c. c \<noteq> CHR 0x0A) cs), s) \<in> measure length" for s by auto
qed (auto dest: read_sample_shorter)

declare scrape.simps [simp del]

lemma read_value_escaped: "read_value (writeEscaped v @ CHR 0x22 # r) = Some (v, r)"
  by (induction v) simp_all

text \<open>Names without the characters that end them.\<close>

definition label_ok :: "string \<times> string \<Rightarrow> bool" where
  "label_ok l \<longleftrightarrow> CHR ''='' \<notin> set (fst l)"

lemma takeWhile_stop: "c \<notin> set xs \<Longrightarrow> takeWhile (\<lambda>x. x \<noteq> c) (xs @ c # ys) = xs"
  by (induction xs) auto

lemma dropWhile_stop: "c \<notin> set xs \<Longrightarrow> dropWhile (\<lambda>x. x \<noteq> c) (xs @ c # ys) = c # ys"
  by (induction xs) auto

lemma read_one_label:
  assumes "label_ok l" "d \<noteq> CHR '',''"
  shows "read_labels (write_label l @ d # r) = Some ([l], r)"
    and "read_labels (write_label l @ CHR '','' # r) = map_option (\<lambda>(ls, r'). (l # ls, r')) (read_labels r)"
  using assms by (subst read_labels.simps, simp add: write_label_def label_ok_def takeWhile_stop dropWhile_stop read_value_escaped)+

lemma read_written_labels:
  "ls \<noteq> [] \<Longrightarrow> list_all label_ok ls \<Longrightarrow> read_labels (write_labels ls @ CHR ''}'' # r) = Some (ls, r)"
  by (induction ls rule: write_labels.induct) (simp_all add: read_one_label(1) read_one_label(2) [where d = "CHR ''}''"])

definition sample_ok :: "sample \<Rightarrow> bool" where
  "sample_ok x = (case x of (name, labels, value) \<Rightarrow>
     list_all in_name name \<and> name \<noteq> [] \<and> hd name \<noteq> CHR ''#'' \<and> list_all label_ok labels \<and> CHR 0x0A \<notin> set value)"

lemma name_stop:
  "list_all in_name name \<Longrightarrow> \<not> in_name c \<Longrightarrow> takeWhile in_name (name @ c # r) = name \<and> dropWhile in_name (name @ c # r) = c # r"
  by (induction name) auto

lemma read_written_sample:
  assumes "sample_ok (name, labels, value)"
  shows "read_sample (writeSample name labels value @ r) = Some ((name, labels, value), r)"
proof -
  note s = assms [unfolded sample_ok_def, simplified]
  have rest: "read_rest name ls (CHR '' '' # value @ CHR 0x0A # r) = Some ((name, ls, value), r)" for ls
    using s by (simp add: read_rest_def takeWhile_stop dropWhile_stop)
  have nl: "newline = [CHR 0x0A]" by (simp add: newline_def)
  show ?thesis
  proof (cases "labels = []")
    case True
    have "\<not> in_name (CHR '' '')" by (simp add: in_name_def)
    with name_stop [of name "CHR '' ''" "value @ CHR 0x0A # r"] s rest show ?thesis
      by (simp add: writeSample_def read_sample_def True nl Let_def)
  next
    case False
    have "\<not> in_name (CHR ''{'')" by (simp add: in_name_def)
    with name_stop [of name "CHR ''{''" "write_labels labels @ CHR ''}'' # CHR '' '' # value @ CHR 0x0A # r"] s rest
      read_written_labels [OF False, of "CHR '' '' # value @ CHR 0x0A # r"] show ?thesis
      by (simp add: writeSample_def read_sample_def False nl Let_def)
  qed
qed

lemma scrape_sample:
  assumes "sample_ok (name, labels, value)"
  shows "scrape (writeSample name labels value @ r) = map_option (\<lambda>xs. (name, labels, value) # xs) (scrape r)"
proof -
  obtain c cs where n: "name = c # cs" "c \<noteq> CHR ''#''" using assms by (cases name) (auto simp: sample_ok_def)
  obtain s where s: "writeSample name labels value @ r = c # s" by (simp add: writeSample_def n)
  show ?thesis using read_written_sample [OF assms, of r] unfolding s by (subst scrape.simps) (simp add: n(2))
qed

lemma scrape_samples:
  "list_all sample_ok xs \<Longrightarrow> scrape (concat (map (\<lambda>(n, ls, v). writeSample n ls v) xs) @ r) = map_option (\<lambda>ys. xs @ ys) (scrape r)"
proof (induction xs)
  case Nil
  show ?case by (cases "scrape r") simp_all
next
  case (Cons x xs)
  then show ?case by (cases x; cases "scrape r") (simp_all add: scrape_sample)
qed

lemma scrape_type:
  "CHR 0x0A \<notin> set name \<Longrightarrow> CHR 0x0A \<notin> set kind \<Longrightarrow> scrape (writeType name kind @ r) = scrape r"
  using dropWhile_stop [of "CHR 0x0A" "'' TYPE '' @ name @ '' '' @ kind" r]
  by (subst scrape.simps) (simp add: writeType_def newline_def)

definition family_ok :: "string \<times> string \<times> sample list \<Rightarrow> bool" where
  "family_ok f = (case f of (name, kind, xs) \<Rightarrow> CHR 0x0A \<notin> set name \<and> CHR 0x0A \<notin> set kind \<and> list_all sample_ok xs)"

lemma scrape_families:
  "list_all family_ok fs \<Longrightarrow> scrape (concat (map write_family fs)) = Some (concat (map (\<lambda>(name, kind, xs). xs) fs))"
proof (induction fs)
  case (Cons f fs)
  then show ?case by (cases f) (simp add: write_family_def family_ok_def scrape_type scrape_samples)
qed (simp add: scrape.simps)

lemma nat_text_line [simp]: "CHR 0x0A \<notin> set (nat_text n)"
proof (induction n rule: nat_text.induct)
  case (1 n)
  have d: "digit_char k \<noteq> CHR 0x0A" if "k < 10" for k
  proof -
    have "k \<in> {0, 1, 2, 3, 4, 5, 6, 7, 8, 9}" using that by auto
    then show ?thesis by (auto simp: digit_char_def char_of_eq_iff)
  qed
  show ?case using 1 d [of n] d [of "n mod 10"] by (subst nat_text.simps) auto
qed

lemma number_lines [simp]: "CHR 0x0A \<notin> set (uint_text w)" "CHR 0x0A \<notin> set (Itoa i)"
  by (simp_all add: uint_text_def Itoa_def)

lemmas sample_defs = sample_ok_def label_ok_def in_name_def list_all_iff

lemma families_ok:
  assumes "\<And>x. CHR 0x0A \<notin> set (f x)"
  shows "list_all family_ok (families f now m)"
proof -
  have "list_all sample_ok (flow_samples m)" by (auto simp: flow_samples_def sample_defs)
  moreover have "list_all sample_ok (route_samples m)" by (auto simp: route_samples_def sample_defs)
  moreover have "list_all sample_ok (health_samples m)" by (auto simp: health_samples_def sample_defs)
  moreover have "list_all sample_ok (rtt_samples f m)" by (auto simp: rtt_samples_def sample_defs assms)
  moreover have "list_all sample_ok (success_samples f m)" by (auto simp: success_samples_def sample_defs assms Let_def)
  moreover have "list_all sample_ok (probe_samples m)" by (auto simp: probe_samples_def sample_defs)
  moreover have "list_all sample_ok (traffic_samples m)" by (auto simp: traffic_samples_def sample_defs Let_def)
  moreover have "list_all sample_ok (webhook_samples m)" by (auto simp: webhook_samples_def sample_defs)
  moreover have "list_all sample_ok (denied_samples m)" by (auto simp: denied_samples_def sample_defs)
  ultimately show ?thesis by (simp add: families_def family_ok_def) (simp add: sample_defs assms)
qed

text \<open>
  C37: a scrape reads what the metrics hold. Reading the rendered text gives back every series with
  its name, its labels and its value, whatever characters the names of routes and upstreams
  contain: no label can end its quotes, its line or its sample.
\<close>

theorem scrape_reads_series:
  assumes "\<And>x. CHR 0x0A \<notin> set (f x)"
  shows "scrape (Render f now m) = Some (series f now m)"
  unfolding Render_def series_def by (rule scrape_families) (rule families_ok [OF assms])

theorem scrape_reads_series_witness:
  "scrape (Render (\<lambda>_. ''0.000000'') 7 (SetRouteSelected (''w'' @ [CHR 0x22, CHR 0x0A, CHR 0x5C]) ''u'' (NewMetrics 0 [''u'']))) =
     Some (series (\<lambda>_. ''0.000000'') 7 (SetRouteSelected (''w'' @ [CHR 0x22, CHR 0x0A, CHR 0x5C]) ''u'' (NewMetrics 0 [''u''])))"
  by (rule scrape_reads_series) simp
end
