(* ===== verification/GeoIP.thy ===== *)
theory GeoIP
  imports Firewall Config
begin

text \<open>
  The GeoIP databases (\<open>internal/geoip/manager.go\<close>). The reader of a database file is a third-party
  package: what opening a file gives, nothing or a reader with the answers it will give, is an
  argument of the operations, as is what \<open>os.Stat\<close> says of a path. A reader carries the number it
  was opened under, which is its identity, so that the state can record which readers are closed.
  The manager is never nil and its readers are loaded by \<open>NewManager\<close>; the swap under the atomic
  value is one step. \<open>Lookup\<close> takes the readers and then asks them, which are two steps because a
  reload may come between them.
\<close>

section \<open>Data\<close>

text \<open>A reader answers, or fails, for an address.\<close>

record 'a reader =
  rd_id :: nat
  rd_Lookup :: "netIP \<Rightarrow> 'a option"

record readerSet =
  rs_asn :: "(int \<times> string) reader option"
  rs_country :: "string reader option"

record GeoManager =
  gm_cfg :: GeoIPConfig
  gm_readers :: readerSet
  gm_opened :: nat
  gm_closed :: "nat list"

datatype geo_error = GeoCanceled | OpenASN | OpenCountry

text \<open>\<open>os.Stat\<close>: the file is missing, cannot be read, or has a modification time and a size.\<close>

datatype file_stat = NotExist | StatFailed | FileInfo int int

record Availability =
  av_ASNDBAvailable :: bool
  av_CountryAvailable :: bool

record DBStatus =
  db_Configured :: bool
  db_Available :: bool
  db_Path :: string
  db_FileModTime :: int
  db_FileSize :: int

record GeoStatus =
  gs_ASNDB :: DBStatus
  gs_CountryDB :: DBStatus

section \<open>Operations\<close>

definition no_readers :: readerSet where
  "no_readers = \<lparr>rs_asn = None, rs_country = None\<rparr>"

text \<open>Opening numbers the new reader.\<close>

definition open_reader :: "(netIP \<Rightarrow> 'a option) option \<Rightarrow> GeoManager \<Rightarrow> 'a reader option \<times> GeoManager" where
  "open_reader found m =
     (case found of
        None \<Rightarrow> (None, m)
      | Some f \<Rightarrow> (Some \<lparr>rd_id = gm_opened m, rd_Lookup = f\<rparr>, m\<lparr>gm_opened := Suc (gm_opened m)\<rparr>))"

definition close_reader :: "'a reader \<Rightarrow> GeoManager \<Rightarrow> GeoManager" where
  "close_reader r m = m\<lparr>gm_closed := rd_id r # gm_closed m\<rparr>"

definition close_old :: "'a reader option \<Rightarrow> 'a reader option \<Rightarrow> GeoManager \<Rightarrow> GeoManager" where
  "close_old old new m =
     (case old of None \<Rightarrow> m | Some r \<Rightarrow> if map_option rd_id new \<noteq> Some (rd_id r) then close_reader r m else m)"

definition swapReaders :: "(int \<times> string) reader option \<Rightarrow> string reader option \<Rightarrow> GeoManager \<Rightarrow> GeoManager" where
  "swapReaders asn country m =
     (let old = gm_readers m; m1 = m\<lparr>gm_readers := \<lparr>rs_asn = asn, rs_country = country\<rparr>\<rparr>
      in close_old (rs_country old) country (close_old (rs_asn old) asn m1))"

text \<open>The inner \<open>None\<close> of the result is no reader, the outer one an error.\<close>

definition openIfExists :: "string \<Rightarrow> file_stat \<Rightarrow> (netIP \<Rightarrow> 'a option) option \<Rightarrow> GeoManager \<Rightarrow> 'a reader option option \<times> GeoManager" where
  "openIfExists path stat found m =
     (if path = [] then (Some None, m)
      else case stat of
             NotExist \<Rightarrow> (Some None, m)
           | StatFailed \<Rightarrow> (None, m)
           | FileInfo _ _ \<Rightarrow> (case open_reader found m of (None, m') \<Rightarrow> (None, m') | (Some r, m') \<Rightarrow> (Some (Some r), m')))"

text \<open>What the files hold when they are opened.\<close>

record geo_files =
  gf_asnStat :: file_stat
  gf_asn :: "(netIP \<Rightarrow> (int \<times> string) option) option"
  gf_countryStat :: file_stat
  gf_country :: "(netIP \<Rightarrow> string option) option"

definition load_one :: "string \<Rightarrow> file_stat \<Rightarrow> (netIP \<Rightarrow> 'a option) option \<Rightarrow> GeoManager \<Rightarrow> 'a reader option \<times> GeoManager" where
  "load_one path stat found m =
     (if path = [] then (None, m)
      else case openIfExists path stat found m of (None, m') \<Rightarrow> (None, m') | (Some r, m') \<Rightarrow> (r, m'))"

definition loadLocalReaders :: "geo_files \<Rightarrow> GeoManager \<Rightarrow> GeoManager" where
  "loadLocalReaders fs m =
     (case load_one (geo_ASNDBPath (gm_cfg m)) (gf_asnStat fs) (gf_asn fs) m of
        (asn, m1) \<Rightarrow>
          (case load_one (geo_CountryDBPath (gm_cfg m)) (gf_countryStat fs) (gf_country fs) m1 of
             (country, m2) \<Rightarrow> swapReaders asn country m2))"

definition NewManager :: "GeoIPConfig \<Rightarrow> geo_files \<Rightarrow> GeoManager" where
  "NewManager cfg fs = loadLocalReaders fs \<lparr>gm_cfg = cfg, gm_readers = no_readers, gm_opened = 0, gm_closed = []\<rparr>"

definition geo_Reload :: "bool \<Rightarrow> geo_files \<Rightarrow> GeoManager \<Rightarrow> geo_error option \<times> GeoManager" where
  "geo_Reload canceled fs m =
     (if canceled then (Some GeoCanceled, m)
      else
        case (if geo_ASNDBPath (gm_cfg m) \<noteq> [] then open_reader (gf_asn fs) m else (None, m)) of
          (asn, m1) \<Rightarrow>
            if geo_ASNDBPath (gm_cfg m) \<noteq> [] \<and> asn = None then (Some OpenASN, m1)
            else
              (case (if geo_CountryDBPath (gm_cfg m) \<noteq> [] then open_reader (gf_country fs) m1 else (None, m1)) of
                 (country, m2) \<Rightarrow>
                   if geo_CountryDBPath (gm_cfg m) \<noteq> [] \<and> country = None
                   then (Some OpenCountry, case asn of None \<Rightarrow> m2 | Some r \<Rightarrow> close_reader r m2)
                   else (None, swapReaders asn country m2)))"

definition geo_Close :: "GeoManager \<Rightarrow> GeoManager" where
  "geo_Close m = swapReaders None None m"

text \<open>The whole result; the firewall reads all but the organisation. What \<open>Lookup\<close> computes from the readers it took.\<close>

record GeoResult = LookupResult +
  lk_ASOrg :: string

definition lookup_in :: "readerSet \<Rightarrow> netIP \<Rightarrow> GeoResult" where
  "lookup_in rs ip =
     (case ip of
        None \<Rightarrow> LookupResult.extend zero_lookup \<lparr>lk_ASOrg = []\<rparr>
      | Some _ \<Rightarrow>
          let (asn, org) = (case rs_asn rs of None \<Rightarrow> (0, []) | Some r \<Rightarrow> (case rd_Lookup r ip of None \<Rightarrow> (0, []) | Some p \<Rightarrow> p));
              country = (case rs_country rs of None \<Rightarrow> [] | Some r \<Rightarrow> (case rd_Lookup r ip of None \<Rightarrow> [] | Some c \<Rightarrow> c))
          in \<lparr>lk_ASN = asn, lk_Country = country, lk_ASNDBAvailable = (rs_asn rs \<noteq> None), lk_CountryAvailable = (rs_country rs \<noteq> None), lk_ASOrg = org\<rparr>)"

definition geo_Lookup :: "GeoManager \<Rightarrow> netIP \<Rightarrow> GeoResult" where
  "geo_Lookup m ip = lookup_in (gm_readers m) ip"

definition geo_Availability :: "GeoManager \<Rightarrow> Availability" where
  "geo_Availability m = \<lparr>av_ASNDBAvailable = (rs_asn (gm_readers m) \<noteq> None), av_CountryAvailable = (rs_country (gm_readers m) \<noteq> None)\<rparr>"

definition fileStat :: "string \<Rightarrow> file_stat \<Rightarrow> int \<times> int" where
  "fileStat path stat = (if path = [] then (0, 0) else case stat of FileInfo modTime bytes \<Rightarrow> (modTime, bytes) | _ \<Rightarrow> (0, 0))"

definition buildDBStatus :: "string \<Rightarrow> file_stat \<Rightarrow> bool \<Rightarrow> DBStatus" where
  "buildDBStatus path stat available =
     (case fileStat path stat of (modTime, bytes) \<Rightarrow>
        \<lparr>db_Configured = (path \<noteq> []), db_Available = available, db_Path = path, db_FileModTime = modTime, db_FileSize = bytes\<rparr>)"

definition geo_Status :: "geo_files \<Rightarrow> GeoManager \<Rightarrow> GeoStatus" where
  "geo_Status fs m =
     \<lparr>gs_ASNDB = buildDBStatus (geo_ASNDBPath (gm_cfg m)) (gf_asnStat fs) (rs_asn (gm_readers m) \<noteq> None),
      gs_CountryDB = buildDBStatus (geo_CountryDBPath (gm_cfg m)) (gf_countryStat fs) (rs_country (gm_readers m) \<noteq> None)\<rparr>"

section \<open>Readers are served or closed\<close>

datatype geo_op = GeoReload bool geo_files | GeoClose

fun geo_step :: "GeoManager \<Rightarrow> geo_op \<Rightarrow> GeoManager" where
  "geo_step m (GeoReload canceled fs) = snd (geo_Reload canceled fs m)"
| "geo_step m GeoClose = geo_Close m"

definition served_ids :: "readerSet \<Rightarrow> nat list" where
  "served_ids rs = (case rs_asn rs of None \<Rightarrow> [] | Some r \<Rightarrow> [rd_id r]) @ (case rs_country rs of None \<Rightarrow> [] | Some r \<Rightarrow> [rd_id r])"

text \<open>Every reader ever opened is either served, once, or closed, once.\<close>

definition geo_inv :: "GeoManager \<Rightarrow> bool" where
  "geo_inv m \<longleftrightarrow> mset (served_ids (gm_readers m) @ gm_closed m) = mset [0..<gm_opened m]"

definition fresh_ids :: "readerSet \<Rightarrow> GeoManager \<Rightarrow> bool" where
  "fresh_ids rs m \<longleftrightarrow> set (served_ids rs) \<inter> set (served_ids (gm_readers m)) = {}"

lemma swap_ids:
  assumes "fresh_ids \<lparr>rs_asn = asn, rs_country = country\<rparr> m"
  shows "mset (served_ids (gm_readers (swapReaders asn country m)) @ gm_closed (swapReaders asn country m)) =
     mset (served_ids \<lparr>rs_asn = asn, rs_country = country\<rparr>) + mset (served_ids (gm_readers m)) + mset (gm_closed m)"
  and "gm_opened (swapReaders asn country m) = gm_opened m"
  and "gm_readers (swapReaders asn country m) = \<lparr>rs_asn = asn, rs_country = country\<rparr>"
  using assms
  by (auto simp: swapReaders_def close_old_def close_reader_def served_ids_def fresh_ids_def Let_def split: option.splits)

lemma mset_upt_Suc [simp]: "mset_set {0..<Suc n} = add_mset n (mset_set {0..<n})"
  by (simp add: atLeast0_lessThan_Suc)

lemma open_ids:
  assumes "open_reader found m = (r, m')"
  shows "mset [0..<gm_opened m'] = mset [0..<gm_opened m] + mset (case r of None \<Rightarrow> [] | Some x \<Rightarrow> [rd_id x])"
    and "gm_readers m' = gm_readers m" and "gm_closed m' = gm_closed m" and "gm_cfg m' = gm_cfg m"
    and "r = Some x \<Longrightarrow> rd_id x = gm_opened m" and "gm_opened m \<le> gm_opened m'"
  using assms by (auto simp: open_reader_def split: option.splits)

lemma geo_inv_served: "geo_inv m \<Longrightarrow> i \<in> set (served_ids (gm_readers m)) \<Longrightarrow> i < gm_opened m \<and> i \<notin> set (gm_closed m)"
proof -
  assume inv: "geo_inv m" and i: "i \<in> set (served_ids (gm_readers m))"
  have "distinct (served_ids (gm_readers m) @ gm_closed m)"
    using inv by (metis distinct_upt geo_inv_def mset_eq_imp_distinct_iff)
  moreover have "set (served_ids (gm_readers m) @ gm_closed m) = {0..<gm_opened m}"
    using inv by (metis atLeastLessThan_upt geo_inv_def mset_eq_setD)
  ultimately show ?thesis using i by auto
qed

lemma geo_inv_disjoint: "geo_inv m \<Longrightarrow> set (served_ids (gm_readers m)) \<inter> set (gm_closed m) = {}"
  using geo_inv_served [of m] by auto

text \<open>The readers of what the files hold; their numbers do not matter to a lookup.\<close>

definition files_read :: "geo_files \<Rightarrow> GeoIPConfig \<Rightarrow> readerSet" where
  "files_read fs cfg =
     \<lparr>rs_asn = map_option (\<lambda>f. \<lparr>rd_id = 0, rd_Lookup = f\<rparr>) (if geo_ASNDBPath cfg = [] then None else gf_asn fs),
      rs_country = map_option (\<lambda>f. \<lparr>rd_id = 0, rd_Lookup = f\<rparr>) (if geo_CountryDBPath cfg = [] then None else gf_country fs)\<rparr>"

lemma lookup_answers:
  "lookup_in \<lparr>rs_asn = asn, rs_country = country\<rparr> ip = lookup_in
     \<lparr>rs_asn = map_option (\<lambda>f. \<lparr>rd_id = 0, rd_Lookup = f\<rparr>) (map_option rd_Lookup asn),
      rs_country = map_option (\<lambda>f. \<lparr>rd_id = 0, rd_Lookup = f\<rparr>) (map_option rd_Lookup country)\<rparr> ip"
  by (cases ip; cases asn; cases country) (simp_all add: lookup_in_def)

text \<open>A reload either serves what the files held when they were opened, or keeps the old readers.\<close>

lemma reload_cases:
  assumes "geo_inv m"
  obtains (failed) e m' where "geo_Reload canceled fs m = (Some e, m')" "gm_readers m' = gm_readers m" "geo_inv m'"
  | (reloaded) asn country m' where "geo_Reload canceled fs m = (None, m')" "gm_readers m' = \<lparr>rs_asn = asn, rs_country = country\<rparr>" "geo_inv m'"
      "map_option rd_Lookup asn = (if geo_ASNDBPath (gm_cfg m) = [] then None else gf_asn fs)"
      "map_option rd_Lookup country = (if geo_CountryDBPath (gm_cfg m) = [] then None else gf_country fs)"
proof (cases canceled)
  case True
  with assms show thesis by (intro failed) (auto simp: geo_Reload_def)
next
  case notCanceled: False
  define found1 where "found1 = (if geo_ASNDBPath (gm_cfg m) = [] then None else gf_asn fs)"
  obtain asn m1 where a: "open_reader found1 m = (asn, m1)" by fastforce
  define found2 where "found2 = (if geo_CountryDBPath (gm_cfg m) = [] then None else gf_country fs)"
  obtain country m2 where c: "open_reader found2 m1 = (country, m2)" by fastforce
  note o1 = open_ids [OF a] and o2 = open_ids [OF c]
  have none: "open_reader None m' = (None, m')" for m' :: GeoManager by (simp add: open_reader_def)
  have r: "geo_Reload canceled fs m =
      (if geo_ASNDBPath (gm_cfg m) \<noteq> [] \<and> asn = None then (Some OpenASN, m1)
       else if geo_CountryDBPath (gm_cfg m) \<noteq> [] \<and> country = None then (Some OpenCountry, case asn of None \<Rightarrow> m2 | Some r \<Rightarrow> close_reader r m2)
       else (None, swapReaders asn country m2))"
    using a c notCanceled unfolding geo_Reload_def found1_def found2_def by (auto simp: open_reader_def split: if_splits)
  have inv1: "geo_inv m1" if "asn = None" using o1 that assms by (simp add: geo_inv_def)
  have f: "fresh_ids \<lparr>rs_asn = asn, rs_country = country\<rparr> m2"
    using geo_inv_served [OF assms] o1 o2 by (fastforce simp: fresh_ids_def served_ids_def split: option.splits)
  have inv2: "geo_inv (swapReaders asn country m2)"
    using assms o1(1-3) o2(1-3) unfolding geo_inv_def swap_ids(1) [OF f] swap_ids(2) [OF f]
    by (simp add: served_ids_def ac_simps split: option.splits)
  show thesis
  proof (cases "geo_ASNDBPath (gm_cfg m) \<noteq> [] \<and> asn = None")
    case True
    then show thesis using r inv1 o1 by (intro failed [of OpenASN m1]) auto
  next
    case False
    show thesis
    proof (cases "geo_CountryDBPath (gm_cfg m) \<noteq> [] \<and> country = None")
      case True
      have "geo_inv (case asn of None \<Rightarrow> m2 | Some r \<Rightarrow> close_reader r m2)"
        using assms o1(1-3) o2(1-3) True by (auto simp: geo_inv_def close_reader_def ac_simps split: option.splits)
      then show thesis using False True r o1 o2
        by (intro failed [of OpenCountry "case asn of None \<Rightarrow> m2 | Some r \<Rightarrow> close_reader r m2"]) (auto simp: close_reader_def split: option.splits)
    next
      case ok: False
      have l: "map_option rd_Lookup asn = found1" "map_option rd_Lookup country = found2"
        using a c by (auto simp: open_reader_def split: option.splits)
      show thesis
        by (rule reloaded [of "swapReaders asn country m2" asn country])
          (use r False ok swap_ids(3) [OF f] inv2 l found1_def found2_def in auto)
    qed
  qed
qed

lemma geo_inv_close: "geo_inv m \<Longrightarrow> geo_inv (geo_Close m)"
  using swap_ids [of None None m] by (simp add: geo_inv_def geo_Close_def fresh_ids_def served_ids_def ac_simps)

lemma geo_inv_step: "geo_inv m \<Longrightarrow> geo_inv (geo_step m e)"
proof (cases e)
  case (GeoReload canceled fs)
  assume "geo_inv m"
  then show ?thesis by (cases rule: reload_cases [of m canceled fs]) (simp_all add: GeoReload)
qed (simp add: geo_inv_close)

interpretation geo_calls: event_system geo_step geo_inv
  by unfold_locales (rule geo_inv_step)

lemma load_ids:
  assumes "load_one path stat found m = (r, m')"
  shows "mset [0..<gm_opened m'] = mset [0..<gm_opened m] + mset (case r of None \<Rightarrow> [] | Some x \<Rightarrow> [rd_id x])"
    and "gm_readers m' = gm_readers m" and "gm_closed m' = gm_closed m" and "gm_cfg m' = gm_cfg m"
  using assms by (auto simp: load_one_def openIfExists_def open_reader_def split: if_splits option.splits file_stat.splits)

lemma geo_inv_new: "geo_inv (NewManager cfg fs)"
proof -
  define m0 where "m0 = \<lparr>gm_cfg = cfg, gm_readers = no_readers, gm_opened = 0, gm_closed = []\<rparr>"
  obtain asn m1 where a: "load_one (geo_ASNDBPath cfg) (gf_asnStat fs) (gf_asn fs) m0 = (asn, m1)" by fastforce
  obtain country m2 where c: "load_one (geo_CountryDBPath cfg) (gf_countryStat fs) (gf_country fs) m1 = (country, m2)" by fastforce
  note o1 = load_ids [OF a] and o2 = load_ids [OF c]
  have f: "fresh_ids \<lparr>rs_asn = asn, rs_country = country\<rparr> m2" by (simp add: fresh_ids_def o1 o2 m0_def no_readers_def served_ids_def)
  have n: "NewManager cfg fs = swapReaders asn country m2"
    using a c by (simp add: NewManager_def loadLocalReaders_def m0_def)
  show ?thesis unfolding n geo_inv_def swap_ids(1) [OF f] swap_ids(2) [OF f]
    using o1 o2 by (simp add: m0_def no_readers_def served_ids_def ac_simps split: option.splits)
qed

text \<open>
  C39: reloading the GeoIP databases is all or nothing and leaks nothing. After any sequence of reloads
  and closes the readers in use are open and every other reader ever opened is closed; a further
  reload that fails, because it was canceled or one of the files does not open, leaves every lookup
  as it was, and one that succeeds answers every lookup from both new files.
\<close>

theorem geoip_reload_atomic:
  "let m = foldl geo_step (NewManager cfg fs0) ops
   in set (served_ids (gm_readers m)) \<inter> set (gm_closed m) = {} \<and>
      set (served_ids (gm_readers m)) \<union> set (gm_closed m) = {0..<gm_opened m} \<and>
      (case geo_Reload canceled fs m of
         (Some e, m') \<Rightarrow> geo_Lookup m' = geo_Lookup m \<and> set (served_ids (gm_readers m')) \<inter> set (gm_closed m') = {}
       | (None, m') \<Rightarrow> geo_Lookup m' = lookup_in (files_read fs (gm_cfg m)))"
proof -
  define m where "m = foldl geo_step (NewManager cfg fs0) ops"
  have inv: "geo_inv m" unfolding m_def by (rule geo_calls.run_invar) (rule geo_inv_new)
  have "set (served_ids (gm_readers m)) \<union> set (gm_closed m) = {0..<gm_opened m}"
    using inv by (metis atLeastLessThan_upt geo_inv_def mset_eq_setD set_append)
  moreover from inv have "case geo_Reload canceled fs m of
         (Some e, m') \<Rightarrow> geo_Lookup m' = geo_Lookup m \<and> set (served_ids (gm_readers m')) \<inter> set (gm_closed m') = {}
       | (None, m') \<Rightarrow> geo_Lookup m' = lookup_in (files_read fs (gm_cfg m))"
  proof (cases rule: reload_cases [of m canceled fs])
    case (failed e m')
    with geo_inv_disjoint [OF failed(3)] show ?thesis by (simp add: geo_Lookup_def fun_eq_iff)
  next
    case (reloaded asn country m')
    then show ?thesis using lookup_answers [of asn country] by (simp add: geo_Lookup_def files_read_def fun_eq_iff)
  qed
  ultimately show ?thesis unfolding m_def [symmetric] Let_def using geo_inv_disjoint [OF inv] by blast
qed

text \<open>
  A lookup that took its readers before a reload asks a reader the reload has closed: nothing
  makes \<open>swapReaders\<close> wait for the lookups in flight.
\<close>

lemma lookup_races_reload:
  assumes "geo_inv m" and "geo_Reload False fs m = (None, m')"
  shows "set (served_ids (gm_readers m)) \<subseteq> set (gm_closed m')"
proof
  fix i assume i: "i \<in> set (served_ids (gm_readers m))"
  with geo_inv_served [OF assms(1)] have "i < gm_opened m" by simp
  with i assms(2) show "i \<in> set (gm_closed m')"
    unfolding geo_Reload_def swapReaders_def close_old_def close_reader_def open_reader_def served_ids_def Let_def
    by (auto split: if_splits option.splits)
qed

end
