(* ===== verification/ControlGate.thy ===== *)
theory ControlGate
  imports Metrics
begin

text \<open>
  What stands before the handlers of the control API (\<open>internal/control/middleware.go\<close>): the token
  bucket of each client, the token of the operator and the context of a request. Headers are texts,
  the empty text when they are absent; \<open>url.Parse\<close> is an argument. The log of requests is left out
  but for the class of the result it reports.
\<close>

declare map_of_eq_Some_iff [simp del] Some_eq_map_of_iff [simp del]

section \<open>Requests\<close>

record web_request =
  wr_Method :: string
  wr_Path :: string
  wr_RemoteAddr :: string
  wr_Host :: string
  wr_Authorization :: string
  wr_RequestID :: string
  wr_Origin :: string
  wr_UserAgent :: string

record requestCtx =
  rx_id :: string
  rx_start :: time
  rx_protocol :: string
  rx_method :: string
  rx_path :: string
  rx_clientAddr :: string
  rx_clientIP :: string
  rx_userAgent :: string
  rx_authMethod :: string
  rx_authOK :: bool

definition clientIP :: "web_request \<Rightarrow> string" where
  "clientIP r = (case SplitHostPort (wr_RemoteAddr r) of Some (host, _) \<Rightarrow> host | None \<Rightarrow> wr_RemoteAddr r)"

definition bearerToken :: "string \<Rightarrow> string \<times> bool" where
  "bearerToken auth =
     (if take 7 auth \<noteq> ''Bearer '' then ([], False) else let token = TrimSpace (drop 7 auth) in (token, token \<noteq> []))"

definition secureTokenEqual :: "string \<Rightarrow> string \<Rightarrow> bool" where
  "secureTokenEqual a b \<longleftrightarrow> length a = length b \<and> a = b"

definition checkAuth :: "string \<Rightarrow> web_request \<Rightarrow> bool" where
  "checkAuth authToken r = (case bearerToken (wr_Authorization r) of (token, ok) \<Rightarrow> ok \<and> secureTokenEqual token authToken)"

definition authMethodForRequest :: "web_request \<Rightarrow> string" where
  "authMethodForRequest r =
     (if TrimSpace (wr_Authorization r) \<noteq> [] then (if snd (bearerToken (wr_Authorization r)) then ''bearer'' else ''unknown'') else ''none'')"

text \<open>The counter of identifiers is a 64-bit word; a new identifier is the counter after the increment.\<close>

definition request_number :: "uint64 \<Rightarrow> string" where
  "request_number n = ''r-'' @ uint_text n"

definition newRequestCtx :: "time \<Rightarrow> web_request \<Rightarrow> string \<Rightarrow> bool \<Rightarrow> uint64 \<Rightarrow> requestCtx \<times> uint64" where
  "newRequestCtx now r protocol authOK next =
     (let given = TrimSpace (wr_RequestID r);
          (rid, next') = (if given = [] then (request_number (next + 1), next + 1) else (given, next))
      in (\<lparr>rx_id = rid, rx_start = now, rx_protocol = protocol, rx_method = wr_Method r, rx_path = wr_Path r, rx_clientAddr = wr_RemoteAddr r,
           rx_clientIP = clientIP r, rx_userAgent = wr_UserAgent r, rx_authMethod = authMethodForRequest r, rx_authOK = authOK\<rparr>, next'))"

text \<open>The middleware gives every request an identifier of at most 128 bytes; the response repeats the header.\<close>

definition httpMiddleware :: "web_request \<Rightarrow> uint64 \<Rightarrow> web_request \<times> uint64" where
  "httpMiddleware r next =
     (let given = TrimSpace (wr_RequestID r)
      in if given = [] \<or> length given > 128 then (r\<lparr>wr_RequestID := request_number (next + 1)\<rparr>, next + 1) else (r, next))"

definition originAllowed :: "(string \<Rightarrow> string option) \<Rightarrow> web_request \<Rightarrow> bool" where
  "originAllowed urlHost r =
     (if wr_Origin r = [] then True
      else case urlHost (wr_Origin r) of None \<Rightarrow> False | Some host \<Rightarrow> host \<noteq> [] \<and> EqualFold host (wr_Host r))"

definition completionResult :: "int \<Rightarrow> string" where
  "completionResult code =
     (if 200 \<le> code \<and> code < 300 then ''success''
      else if code = 401 \<or> code = 403 \<or> code = 429 then ''denied''
      else if code = 400 \<or> code = 404 \<or> code = 405 then ''rejected''
      else ''failed'')"

section \<open>The rate of a client\<close>

record clientLimiter =
  cb_tokens :: float64
  cb_last :: time

record rateLimiter =
  rt_clients :: "(string, clientLimiter) gomap"
  rt_rate :: float64
  rt_burst :: float64
  rt_ttl :: duration

definition newRateLimiter :: "float64 \<Rightarrow> int \<Rightarrow> duration \<Rightarrow> rateLimiter" where
  "newRateLimiter rate burst ttl = \<lparr>rt_clients = [], rt_rate = rate, rt_burst = of_int burst, rt_ttl = ttl\<rparr>"

definition minFloat :: "float64 \<Rightarrow> float64 \<Rightarrow> float64" where
  "minFloat a b = (if a < b then a else b)"

definition expired_client :: "time \<Rightarrow> rateLimiter \<Rightarrow> clientLimiter \<Rightarrow> bool" where
  "expired_client now l c \<longleftrightarrow> time_sub now (cb_last c) > rt_ttl l"

definition client_Allow :: "time \<Rightarrow> string \<Rightarrow> rateLimiter \<Rightarrow> bool \<times> rateLimiter" where
  "client_Allow now key l =
     (if key = [] then (False, l)
      else
        case (case gget (rt_clients l) key of None \<Rightarrow> None | Some c \<Rightarrow> if expired_client now l c then None else Some c) of
          None \<Rightarrow> (True, l\<lparr>rt_clients := gput key \<lparr>cb_tokens = rt_burst l - 1, cb_last = now\<rparr> (rt_clients l)\<rparr>)
        | Some c \<Rightarrow>
            let tokens = minFloat (rt_burst l) (cb_tokens c + seconds (time_sub now (cb_last c)) * rt_rate l)
            in if tokens < 1 then (False, l\<lparr>rt_clients := gput key \<lparr>cb_tokens = tokens, cb_last = now\<rparr> (rt_clients l)\<rparr>)
               else (True, l\<lparr>rt_clients := gput key \<lparr>cb_tokens = tokens - 1, cb_last = now\<rparr> (rt_clients l)\<rparr>))"

definition SweepExpired :: "time \<Rightarrow> rateLimiter \<Rightarrow> rateLimiter" where
  "SweepExpired now l = l\<lparr>rt_clients := filter (\<lambda>(k, c). \<not> expired_client now l c) (rt_clients l)\<rparr>"

definition rpcRatePerSecond :: float64 where "rpcRatePerSecond = 5"
definition rpcRateBurst :: int where "rpcRateBurst = 10"
definition rpcRateTTL :: duration where "rpcRateTTL = 5 * minute"

text \<open>The limiter of the server.\<close>

definition server_limiter :: rateLimiter where
  "server_limiter = newRateLimiter rpcRatePerSecond rpcRateBurst rpcRateTTL"

text \<open>What a limiter sees: requests, and the sweeps of \<open>RunCleanup\<close>, at the clock readings given.\<close>

datatype limiter_call = LimAllow time string | LimSweep time

fun call_time :: "limiter_call \<Rightarrow> time" where
  "call_time (LimAllow t k) = t"
| "call_time (LimSweep t) = t"

fun limited_step :: "rateLimiter \<Rightarrow> limiter_call \<Rightarrow> rateLimiter" where
  "limited_step l (LimAllow t k) = snd (client_Allow t k l)"
| "limited_step l (LimSweep t) = SweepExpired t l"

fun let_through :: "string \<Rightarrow> rateLimiter \<Rightarrow> limiter_call list \<Rightarrow> nat" where
  "let_through key l [] = 0"
| "let_through key l (c # cs) =
     (case c of LimAllow t k \<Rightarrow> if k = key \<and> fst (client_Allow t k l) then 1 else 0 | LimSweep t \<Rightarrow> 0) + let_through key (limited_step l c) cs"

text \<open>
  The tokens a client has at a time; a client the limiter does not know has a full bucket, and
  because the bucket refills within the time to live, so has one it would forget.
\<close>

definition level :: "string \<Rightarrow> time \<Rightarrow> rateLimiter \<Rightarrow> float64" where
  "level key now l =
     (case gget (rt_clients l) key of None \<Rightarrow> rt_burst l | Some c \<Rightarrow> min (rt_burst l) (cb_tokens c + seconds (now - cb_last c) * rt_rate l))"

definition bucket_inv :: "time \<Rightarrow> rateLimiter \<Rightarrow> bool" where
  "bucket_inv now l \<longleftrightarrow> gok (rt_clients l) \<and> 1 \<le> rt_burst l \<and> 0 \<le> rt_rate l \<and> 0 \<le> rt_ttl l \<and> rt_ttl l < max_duration \<and>
     rt_burst l \<le> seconds (rt_ttl l) * rt_rate l \<and>
     (\<forall>k c. gget (rt_clients l) k = Some c \<longrightarrow> 0 \<le> cb_tokens c \<and> cb_last c \<le> now)"

lemma seconds_add: "seconds (a + b) = seconds a + seconds b"
  by (simp add: seconds_def add_divide_distrib)

lemma seconds_nonneg: "0 \<le> a \<Longrightarrow> 0 \<le> seconds a"
  by (simp add: seconds_def)

lemma bucket_inv_later: "bucket_inv t l \<Longrightarrow> t \<le> now \<Longrightarrow> bucket_inv now l"
  unfolding bucket_inv_def by (meson order_trans)

lemma level_nonneg: "bucket_inv t l \<Longrightarrow> t \<le> now \<Longrightarrow> 0 \<le> level key now l"
  by (auto simp: level_def bucket_inv_def seconds_nonneg split: option.splits intro!: add_nonneg_nonneg mult_nonneg_nonneg seconds_nonneg)
     (meson order_trans diff_ge_0_iff_ge)+

lemma level_grows:
  assumes "bucket_inv t l" "t \<le> now"
  shows "level key now l \<le> level key t l + seconds (now - t) * rt_rate l"
proof (cases "gget (rt_clients l) key")
  case None
  then show ?thesis using assms by (simp add: level_def bucket_inv_def seconds_nonneg)
next
  case (Some c)
  have "seconds (now - cb_last c) = seconds (t - cb_last c) + seconds (now - t)"
    using seconds_add [of "t - cb_last c" "now - t"] by simp
  moreover have "0 \<le> seconds (now - t) * rt_rate l" using assms by (simp add: bucket_inv_def seconds_nonneg)
  ultimately show ?thesis using Some by (simp add: level_def min_def algebra_simps)
qed

lemma level_expired:
  assumes "bucket_inv now l" "gget (rt_clients l) key = Some c" "expired_client now l c"
  shows "level key now l = rt_burst l"
proof -
  have "rt_ttl l < now - cb_last c"
    using assms by (simp add: expired_client_def bucket_inv_def time_sub_gt_iff)
  then have "seconds (rt_ttl l) * rt_rate l \<le> seconds (now - cb_last c) * rt_rate l"
    using assms(1) by (intro mult_right_mono seconds_mono) (auto simp: bucket_inv_def)
  moreover have "rt_burst l \<le> seconds (rt_ttl l) * rt_rate l" "0 \<le> cb_tokens c" using assms by (auto simp: bucket_inv_def)
  ultimately show ?thesis using assms(2) by (simp add: level_def)
qed

lemma unexpired_elapsed:
  assumes "bucket_inv now l" "gget (rt_clients l) key = Some c" "\<not> expired_client now l c"
  shows "time_sub now (cb_last c) = now - cb_last c"
proof -
  have "rt_ttl l < max_duration" "0 \<le> now - cb_last c" "0 \<le> rt_ttl l" using assms(1,2) by (auto simp: bucket_inv_def)
  with assms(3) show ?thesis by (simp add: expired_client_def time_sub_def min_duration_def max_duration_def)
qed

text \<open>A request takes a token, and is let through exactly when there is one.\<close>

lemma Allow_level:
  assumes inv: "bucket_inv now l" and key: "key \<noteq> []" and a: "client_Allow now key l = (ok, l')"
  shows "ok \<longleftrightarrow> 1 \<le> level key now l" and "level key now l' = level key now l - of_bool ok"
    and "k \<noteq> key \<Longrightarrow> level k t l' = level k t l" and "bucket_inv now l'"
    and "rt_rate l' = rt_rate l" "rt_burst l' = rt_burst l"
proof -
  note b = inv [unfolded bucket_inv_def]
  have put: "bucket_inv now (l\<lparr>rt_clients := gput key \<lparr>cb_tokens = n, cb_last = now\<rparr> (rt_clients l)\<rparr>) \<and>
      level key now (l\<lparr>rt_clients := gput key \<lparr>cb_tokens = n, cb_last = now\<rparr> (rt_clients l)\<rparr>) = n \<and>
      (k \<noteq> key \<longrightarrow> level k t (l\<lparr>rt_clients := gput key \<lparr>cb_tokens = n, cb_last = now\<rparr> (rt_clients l)\<rparr>) = level k t l)"
    if "0 \<le> n" "n \<le> rt_burst l" for n
    using b that by (simp add: bucket_inv_def level_def split: option.splits)
  have "(ok \<longleftrightarrow> 1 \<le> level key now l) \<and> level key now l' = level key now l - of_bool ok \<and> (k \<noteq> key \<longrightarrow> level k t l' = level k t l) \<and>
      bucket_inv now l' \<and> rt_rate l' = rt_rate l \<and> rt_burst l' = rt_burst l"
  proof (cases "\<exists>c. gget (rt_clients l) key = Some c \<and> \<not> expired_client now l c")
    case False
    then have full: "level key now l = rt_burst l"
      using level_expired [OF inv] by (cases "gget (rt_clients l) key") (auto simp: level_def)
    have "client_Allow now key l = (True, l\<lparr>rt_clients := gput key \<lparr>cb_tokens = rt_burst l - 1, cb_last = now\<rparr> (rt_clients l)\<rparr>)"
      using False key by (auto simp: client_Allow_def split: option.splits)
    with a full b put [of "rt_burst l - 1"] show ?thesis by auto
  next
    case True
    then obtain c where c: "gget (rt_clients l) key = Some c" "\<not> expired_client now l c" by blast
    define n where "n = level key now l"
    have n: "minFloat (rt_burst l) (cb_tokens c + seconds (time_sub now (cb_last c)) * rt_rate l) = n"
      using unexpired_elapsed [OF inv c] c(1) by (simp add: n_def level_def minFloat_def min_def)
    have n0: "0 \<le> n" "n \<le> rt_burst l" using level_nonneg [OF inv, of now key] c(1) by (simp_all add: n_def level_def)
    have "client_Allow now key l =
        (if n < 1 then (False, l\<lparr>rt_clients := gput key \<lparr>cb_tokens = n, cb_last = now\<rparr> (rt_clients l)\<rparr>)
         else (True, l\<lparr>rt_clients := gput key \<lparr>cb_tokens = n - 1, cb_last = now\<rparr> (rt_clients l)\<rparr>))"
      using c key by (simp add: client_Allow_def n Let_def)
    with a n0 put [of n] put [of "n - 1"] show ?thesis unfolding n_def [symmetric] by (cases "n < 1") auto
  qed
  then show "ok \<longleftrightarrow> 1 \<le> level key now l" "level key now l' = level key now l - of_bool ok"
    "k \<noteq> key \<Longrightarrow> level k t l' = level k t l" "bucket_inv now l'" "rt_rate l' = rt_rate l" "rt_burst l' = rt_burst l" by blast+
qed

lemma Sweep_level:
  assumes "bucket_inv now l"
  shows "level key now (SweepExpired now l) = level key now l" "bucket_inv now (SweepExpired now l)"
    "rt_rate (SweepExpired now l) = rt_rate l" "rt_burst (SweepExpired now l) = rt_burst l"
proof -
  have g: "gget (filter (\<lambda>(k, c). \<not> expired_client now l c) (rt_clients l)) k =
      (case gget (rt_clients l) k of None \<Rightarrow> None | Some c \<Rightarrow> if expired_client now l c then None else Some c)" for k
    using assms gget_filter [of "rt_clients l" "\<lambda>(k, c). \<not> expired_client now l c" k] by (auto simp: bucket_inv_def split: option.splits)
  show "level key now (SweepExpired now l) = level key now l"
    using level_expired [OF assms, of key] by (auto simp: level_def SweepExpired_def g split: option.splits)
  show "bucket_inv now (SweepExpired now l)" using assms unfolding bucket_inv_def by (auto simp: SweepExpired_def g split: option.splits if_splits)
qed (simp_all add: SweepExpired_def)

lemma limited_level:
  assumes inv: "bucket_inv now l" and c: "call_time c = now"
  shows "level key now (limited_step l c) + of_nat (let_through key l [c]) = level key now l" and "bucket_inv now (limited_step l c)"
    and "rt_rate (limited_step l c) = rt_rate l"
proof -
  have "level key now (limited_step l c) + of_nat (let_through key l [c]) = level key now l \<and> bucket_inv now (limited_step l c) \<and> rt_rate (limited_step l c) = rt_rate l"
  proof (cases c)
    case (LimAllow t k)
    then have t: "t = now" using c by simp
    obtain ok l' where a: "client_Allow now k l = (ok, l')" by fastforce
    show ?thesis
    proof (cases "k = []")
      case True
      then show ?thesis using inv by (simp add: LimAllow client_Allow_def)
    next
      case False
      note step = Allow_level [OF inv False a]
      have "level key now l' + of_nat (if k = key \<and> ok then 1 else 0) = level key now l"
        using step(2) step(3) [of key now] by (cases "k = key") auto
      with step(4,5) show ?thesis by (simp add: LimAllow t a)
    qed
  next
    case (LimSweep t)
    with Sweep_level [OF inv] c show ?thesis by simp
  qed
  then show "level key now (limited_step l c) + of_nat (let_through key l [c]) = level key now l" "bucket_inv now (limited_step l c)"
    "rt_rate (limited_step l c) = rt_rate l" by blast+
qed

lemma let_through_level:
  assumes "bucket_inv t l" "sorted (map call_time cs)" "\<forall>c \<in> set cs. t \<le> call_time c \<and> call_time c \<le> stop" "t \<le> stop"
  shows "of_nat (let_through key l cs) \<le> level key t l + seconds (stop - t) * rt_rate l"
  using assms
proof (induction cs arbitrary: t l)
  case Nil
  then show ?case using level_nonneg [of t l t key] by (simp add: bucket_inv_def seconds_nonneg)
next
  case (Cons c cs)
  define now where "now = call_time c"
  have le: "t \<le> now" "now \<le> stop" using Cons.prems by (simp_all add: now_def)
  have inv: "bucket_inv now l" using Cons.prems(1) le(1) by (rule bucket_inv_later)
  note step = limited_level [OF inv now_def [symmetric]]
  have "of_nat (let_through key (limited_step l c) cs) \<le> level key now (limited_step l c) + seconds (stop - now) * rt_rate l"
    using Cons.IH [OF step(2)] Cons.prems le step(3) by (auto simp: now_def)
  moreover have "level key now l \<le> level key t l + seconds (now - t) * rt_rate l" using Cons.prems(1) le(1) by (rule level_grows)
  moreover have "seconds (stop - t) = seconds (stop - now) + seconds (now - t)" using seconds_add [of "stop - now" "now - t"] by simp
  moreover have "let_through key l (c # cs) = let_through key l [c] + let_through key (limited_step l c) cs" by simp
  ultimately show ?case using step(1) [of key] by (simp add: algebra_simps)
qed

lemma server_bucket: "bucket_inv t server_limiter" "level key t server_limiter = 10" "rt_rate server_limiter = 5"
  by (simp_all add: bucket_inv_def level_def server_limiter_def newRateLimiter_def rpcRatePerSecond_def rpcRateBurst_def rpcRateTTL_def seconds_def
      max_duration_def)

text \<open>
  C40: the rate of the control API. Of the requests of one client address, at clock readings that do
  not go back and with sweeps and requests of other clients between them, at most ten and five more
  for every second of the period are let through to the handlers.
\<close>

theorem rpc_rate_bounded:
  assumes "sorted (map call_time calls)" and "\<forall>c \<in> set calls. start \<le> call_time c \<and> call_time c \<le> stop" and "start \<le> stop"
  shows "of_nat (let_through key server_limiter calls) \<le> (10 + 5 * seconds (stop - start) :: float64)"
  using let_through_level [OF server_bucket(1) assms, of key] by (simp add: server_bucket algebra_simps)

theorem rpc_rate_bounded_witness:
  "of_nat (let_through ''h'' server_limiter [LimAllow 5 ''h'', LimAllow 7 ''i'', LimSweep 8, LimAllow 9 ''h'']) \<le> (10 + 5 * seconds 4 :: float64)"
  using rpc_rate_bounded [of "[LimAllow 5 ''h'', LimAllow 7 ''i'', LimSweep 8, LimAllow 9 ''h'']" 5 9 "''h''"] by simp

end
