(* ===== verification/Spec2Isabelle.thy ===== *)
theory Spec2Isabelle
  imports UdpForward TcpForward Admission FlowTags AuditPipeline AuditDsl Notify Fbmeasure Config Measure Runtime Metrics GeoIP ControlGate
begin

text \<open>
  A model of fbforward, a TCP and UDP port forwarder written in Go, and its correctness.

  \<^bold>\<open>The program.\<close> A configuration names listeners, routes and upstreams. For each client a
  forwarder (\<open>internal/forwarding\<close>) asks the firewall and the online rules whether the client may pass,
  asks the route selector for an upstream, and moves bytes between the two, within limits on
  connections, mappings and rates. Each connection or mapping is a Flow (\<open>internal/flow\<close>), whose
  lifecycle reports to observers: the metrics, the audit pipeline, which writes to an SQLite store,
  and the registry of Flow Contexts, through which backends look up, tag and control their own Flows.
  A scheduler probes the upstreams (\<open>internal/measure\<close>, \<open>pkg/fbmeasure\<close>); the results drive their health,
  which drives selection and, through webhooks, alerts. A runtime builds all of it from a loaded
  configuration and a supervisor restarts it. The operator uses a control API.

  \<^bold>\<open>The theories\<close>, in the order of their dependence, with the files they model under \<open>src/\<close>:
  \<^item> \<open>Prelude\<close>: time, maps, strings, sorting and counting as the code uses them, with their facts; the
    locales \<open>strict_weak\<close> (orders that sorts and scans rely on) and \<open>event_system\<close> (an invariant kept by
    every call holds after any sequence of calls), which the components interpret.
  \<^item> \<open>Netip\<close>: addresses, prefixes, their texts and parsers (Go's \<open>net\<close> and \<open>net/netip\<close>).
  \<^item> \<open>Flow\<close>: \<open>internal/flow\<close>. Registry, lifecycle and identifiers; a Flow is opened, updated and closed
    in order, once.
  \<^item> \<open>Health\<close>, \<open>Upstreams\<close>, \<open>Routes\<close>: \<open>internal/upstream\<close>. Hysteresis of health, the ranking of upstreams,
    cooldowns, manual and adaptive choice, overrides of routes; a pick stays in its route and is optimal.
  \<^item> \<open>RateLimit\<close>, \<open>Forwarding\<close>, \<open>UdpForward\<close>, \<open>TcpForward\<close>: \<open>internal/forwarding\<close>. The byte limiter and its waits,
    the interfaces of the forwarders, the table of UDP mappings with its reservations and counts, the
    copies of a TCP connection and what ends them.
  \<^item> \<open>Firewall\<close>, \<open>Policy\<close>: \<open>internal/firewall\<close> and the persistent policy of \<open>internal/policy\<close>; a compiled policy
    decides like its document and the last good policy stays in force.
  \<^item> \<open>OnlineStore\<close>, \<open>OnlineRules\<close>: the rules an operator adds at run time, in memory and in the database;
    the two agree. \<open>Admission\<close>: \<open>internal/app/forwarding_adapters.go\<close>, which joins both policies and the selector.
  \<^item> \<open>FlowContext\<close>, \<open>FlowService\<close>, \<open>FlowTags\<close>: \<open>internal/flowcontext\<close> and its HTTP service; identities, authorisation,
    tags and controls. A backend reaches only its own Flows.
  \<^item> \<open>AuditStore\<close>, \<open>AuditPipeline\<close>, \<open>AuditQuery\<close>, \<open>AuditTop\<close>, \<open>AuditDsl\<close>: \<open>internal/audit\<close>, \<open>internal/auditdsl\<close> and the
    handler of audit queries. SQL tables are lists with the constraints of the schema.
  \<^item> \<open>Notify\<close>: \<open>internal/notify\<close>, alerts and their delivery. \<open>Fbmeasure\<close>: \<open>pkg/fbmeasure\<close>, frames, client and
    server. \<open>Config\<close>: \<open>internal/config\<close>. \<open>Measure\<close>: \<open>internal/measure\<close>. \<open>Runtime\<close>: \<open>internal/app\<close> and
    \<open>internal/resolver\<close>.
  \<^item> \<open>Metrics\<close>: \<open>internal/metrics\<close>, counters, the observer of Flows and the text a scrape reads. \<open>GeoIP\<close>:
    \<open>internal/geoip\<close>, the readers of the databases and their reload. \<open>ControlGate\<close>: the authentication and
    the rate limiter of \<open>internal/control/middleware.go\<close>.

  \<^bold>\<open>How the code is modelled.\<close> A struct is a record whose fields carry a prefix of their own, an enum or
  interface with known cases a datatype, a method a function from the state to its result and the new
  state, an error a value of a datatype. A time is an integer of nanoseconds since Go's zero time and a
  duration an integer; a reading of the clock is an argument. Byte counters and identifiers are 64-bit
  words and wrap. \<open>float64\<close> values are exact rationals, without rounding, infinities or NaN, but for the
  two fractional numbers of the configuration, whose range checks are modelled with NaN and infinities
  (\<open>yaml_float\<close> in \<open>Config\<close>). Case and white space of texts are those of ASCII. A Go map is an association list with distinct
  keys. A critical section under a lock is one step; where calls interleave, a component has a datatype
  of its calls and a step function, and its properties hold for every sequence of calls. Sockets,
  databases, clocks, random identifiers and decoders of the standard library are arguments that give
  what they return. Names and functions are those of the source where the logic allows it.

  \<^bold>\<open>What is coarser than the code.\<close> A database transaction is the semantics of SQLite, not its calls: what
  is not committed is never visible, so an operation that fails leaves the tables as they were and a
  forgotten rollback cannot be told apart (\<open>commit\<close> in \<open>AuditStore\<close>, \<open>CreateOnlineRule\<close> in \<open>OnlineStore\<close>). In
  \<open>AuditPipeline\<close> the send to a queue with its counters, and a round of a worker, are one step each
  (\<open>enqueue\<close>, \<open>geo_round\<close>). \<open>accept_step\<close> of \<open>TcpForward\<close> takes \<open>handleConn\<close> as one step. \<open>tcp_start\<close> and
  \<open>open_mapping\<close> leave out \<open>SetControls\<close>, and register a Flow with the
  identity as its close function: a close through the registry is a call of its own on the connection.
  \<open>swapReaders\<close> of \<open>GeoIP\<close> is one step. Where the source reads the clock twice in a row, \<open>selectUpstreamFrom\<close> and
  the first pass of \<open>Resolve\<close> take one reading; the start of a probe in \<open>RunLoop\<close> is the reading with which it
  was taken from the queue. The column \<open>bytes_total\<close> that \<open>AuditQuery\<close> sorts by is an unbounded sum, where
  SQLite goes over to floating point beyond 63 bits.

  \<^bold>\<open>What is shown.\<close> Each component has an invariant that every call keeps, and the properties that make
  it correct: what its operations return on every branch, its limits (capacities, rates, series of
  metrics, pages), refinement of a simple specification (rules in memory against the table, effective
  tags, ranges of networks, first-match evaluation), round trips (frames, tags, the metrics text), and
  that its loops end. \<open>Runtime\<close> and this theory compose them: a loaded configuration starts, its adaptive
  upstreams are probed, an outage raises an alert when the unusable interval and the grace period have
  passed, and a row of the audit log shows exactly the bytes its Flow moved, under any schedule of the
  pipeline: it can be missing, but not be wrong.

  \<^bold>\<open>Loops and bounds.\<close> No definition uses fuel. Loops over data are structural recursions or have a
  termination proof (scanners of texts, parsers, the text of numbers). A loop that waits is a function of
  the events it receives: \<open>Resolve\<close> of Flow Contexts keeps the instant its timer is armed for and ends when
  the clock reaches its deadline; a wait for tokens ends, after any history, within three passes per byte
  once it is left alone; a TCP connection is closed by the first event that must end it; a delivery ends
  after its three attempts; and the loop of the measurements runs over any list of rounds.

  \<^bold>\<open>Not modelled.\<close> The control server, the metrics endpoint and the shutdown in \<open>NewRuntime\<close>; the handlers of
  the control API but for audit queries, because each decodes parameters, calls one operation that is
  modelled and encodes what it returns; the schema migrations and the backup
  of the database (DDL and file copies); the client library \<open>pkg/flowcontextclient\<close>, which the daemon does
  not use; the commands, the web interface and log output. Log events are left out everywhere.
\<close>

section \<open>Across the components\<close>

text \<open>
  The row of a Flow in the audit log: its identity, its close reason and the bytes that
  \<open>mid\<close>, the calls between its open and its close, added.
\<close>

definition shows_flow :: "Meta \<Rightarrow> lifecycle_op list \<Rightarrow> string \<Rightarrow> FlowRow \<Rightarrow> bool" where
  "shows_flow meta mid why row \<longleftrightarrow> fl_FlowID row = meta_ID meta \<and> fl_Route row = meta_Route meta \<and> fl_Upstream row = meta_Upstream meta \<and>
     sql_uint (added_up mid) = Some (fl_BytesUp row) \<and> sql_uint (added_down mid) = Some (fl_BytesDown row) \<and> fl_CloseReason row = why"

lemma one_summary:
  assumes "list_all is_add pre" and "list_all (\<lambda>e. \<forall>t why. e \<noteq> OpClose t why) mid"
    and "calls = snd (snd (foldl lifecycle_step (NewLifecycle now meta True cf, r, []) (pre @ OpOpen # mid @ OpClose t why # rest)))"
  obtains s where "filter is_close calls = [ObsClose s]" and "meta_ID (sum_Meta s) = meta_ID meta" and "\<And>row. row_of s row \<Longrightarrow> shows_flow meta mid why row"
    and "sum_BytesUp s = added_up mid" and "sum_BytesDown s = added_down mid" and "sum_CloseReason s = why"
    and "meta_Route (sum_Meta s) = meta_Route meta" and "meta_Upstream (sum_Meta s) = meta_Upstream meta"
proof -
  obtain s where s: "filter is_close calls = [ObsClose s]"
      "sum_BytesUp s = added_up mid" "sum_BytesDown s = added_down mid" "sum_CloseReason s = why" "sum_Meta s = lc_meta (NewLifecycle now meta True cf)"
    using lifecycle_summary [OF assms(1,2), of now meta cf r t why rest] assms(3) by blast
  have m: "meta_ID (sum_Meta s) = meta_ID meta" "meta_Route (sum_Meta s) = meta_Route meta" "meta_Upstream (sum_Meta s) = meta_Upstream meta"
    by (simp_all add: s(5) NewLifecycle_def)
  show thesis by (rule that [OF s(1) m(1) _ s(2-4) m(2,3)]) (simp add: row_of_def shows_flow_def s(2-4) m)
qed

text \<open>Whatever the schedule, a row that appears shows its Flow.\<close>

lemma recorded_rows_accurate:
  assumes "list_all is_add pre" and "list_all (\<lambda>e. \<forall>t why. e \<noteq> OpClose t why) mid"
    and "calls = snd (snd (foldl lifecycle_step (NewLifecycle now meta True cf, r, []) (pre @ OpOpen # mid @ OpClose t why # rest)))"
    and "\<forall>clock s. PlClose clock s \<in> set ops \<longrightarrow> meta_ID (sum_Meta s) \<noteq> [] \<and> (meta_ID (sum_Meta s) = meta_ID meta \<longrightarrow> ObsClose s \<in> set calls)"
    and "pl_store (foldl pipeline_step (NewPipeline cfg (Some st0) metricSet) ops) = Some st"
    and "row \<in> set (au_flows st)" and "row \<notin> set (au_flows st0)" and "fl_FlowID row = meta_ID meta"
  shows "shows_flow meta mid why row"
proof -
  obtain s where s: "filter is_close calls = [ObsClose s]" "\<And>row. row_of s row \<Longrightarrow> shows_flow meta mid why row"
    using one_summary [OF assms(1-3)] by metis
  from stored_rows_from_summaries [OF assms(5,6)] assms(4,7) obtain clock s' where s': "PlClose clock s' \<in> set ops" "row_of s' row" by blast
  then have "ObsClose s' \<in> set (filter is_close calls)" using assms(4,8) by (auto simp: row_of_def)
  then have "s' = s" by (simp add: s(1))
  with s' s(2) show ?thesis by simp
qed

text \<open>An idle pipeline whose writes succeed stores the summary after one round of each worker and a tick.\<close>

lemma idle_pipeline_records:
  assumes "list_all is_add pre" and "list_all (\<lambda>e. \<forall>t why. e \<noteq> OpClose t why) mid"
    and "calls = snd (snd (foldl lifecycle_step (NewLifecycle now meta True cf, r, []) (pre @ OpOpen # mid @ OpClose t why # rest)))"
    and "idle p" and "pl_store p = Some st" and "fv_flows v" and "fv_flows v'" and "TrimSpace (meta_ID meta) \<noteq> []"
    and "sql_uint (added_up mid) \<noteq> None" and "sql_uint (added_down mid) \<noteq> None"
  shows "\<exists>s st' row. ObsClose s \<in> set calls \<and> meta_ID (sum_Meta s) = meta_ID meta \<and>
     pl_store (foldl pipeline_step p [PlClose clock s, PlGeo geo, PlWrite v, PlTick v']) = Some st' \<and> row \<in> set (au_flows st') \<and>
     shows_flow meta mid why row"
proof -
  obtain s where s: "filter is_close calls = [ObsClose s]" "meta_ID (sum_Meta s) = meta_ID meta"
      "sum_BytesUp s = added_up mid" "sum_BytesDown s = added_down mid" "sum_CloseReason s = why"
      "meta_Route (sum_Meta s) = meta_Route meta" "meta_Upstream (sum_Meta s) = meta_Upstream meta"
    using one_summary [OF assms(1-3)] by metis
  obtain up down where n: "sql_uint (added_up mid) = Some up" "sql_uint (added_down mid) = Some down" using assms(9,10) by blast
  have id: "TrimSpace (meta_ID (sum_Meta s)) \<noteq> []" "sql_uint (sum_BytesUp s) = Some up" "sql_uint (sum_BytesDown s) = Some down"
    using assms(8) n by (simp_all add: s)
  obtain st' row where "pl_store (foldl pipeline_step p [PlClose clock s, PlGeo geo, PlWrite v, PlTick v']) = Some st'"
      "row \<in> set (au_flows st')" "fl_FlowID row = meta_ID (sum_Meta s)" "fl_Route row = meta_Route (sum_Meta s)"
      "fl_Upstream row = meta_Upstream (sum_Meta s)" "fl_BytesUp row = up" "fl_BytesDown row = down" "fl_CloseReason row = sum_CloseReason s"
    by (rule closed_flow_stored [OF assms(4-7) id, of clock geo]) blast
  moreover have "ObsClose s \<in> set (filter is_close calls)" by (simp add: s(1))
  ultimately show ?thesis using n by (intro exI [of _ s] exI [of _ st'] exI [of _ row]) (simp add: s(2,5-) shows_flow_def)
qed

text \<open>
  C28: the audit log shows what was forwarded. Take a Flow that is opened, moves bytes and is
  closed, and what its lifecycle reports. Whatever calls and rounds of its workers a pipeline
  makes from its start, with full queues, failing writes and a shutdown among them, provided
  closes of that Flow reach it only as the lifecycle reported them: when the table has a row
  of that Flow that it did not have before, the row shows the route and the upstream of the
  Flow, the reason of its close and exactly the bytes that were added while it was open. So a
  record can be lost, but not be wrong; and it is not lost when the pipeline is idle with a
  store, its next writes succeed and the byte counts fit the 63 bits of the table.
\<close>

theorem forwarded_bytes_recorded:
  assumes "list_all is_add pre" and "list_all (\<lambda>e. \<forall>t why. e \<noteq> OpClose t why) mid"
    and "calls = snd (snd (foldl lifecycle_step (NewLifecycle now meta True cf, r, []) (pre @ OpOpen # mid @ OpClose t why # rest)))"
  shows "(\<forall>cfg st0 metricSet ops st row.
      (\<forall>clock s. PlClose clock s \<in> set ops \<longrightarrow> meta_ID (sum_Meta s) \<noteq> [] \<and> (meta_ID (sum_Meta s) = meta_ID meta \<longrightarrow> ObsClose s \<in> set calls)) \<and>
      pl_store (foldl pipeline_step (NewPipeline cfg (Some st0) metricSet) ops) = Some st \<and>
      row \<in> set (au_flows st) \<and> row \<notin> set (au_flows st0) \<and> fl_FlowID row = meta_ID meta \<longrightarrow>
      shows_flow meta mid why row) \<and>
    (\<forall>p st clock geo v v'.
      idle p \<and> pl_store p = Some st \<and> fv_flows v \<and> fv_flows v' \<and> TrimSpace (meta_ID meta) \<noteq> [] \<and>
      sql_uint (added_up mid) \<noteq> None \<and> sql_uint (added_down mid) \<noteq> None \<longrightarrow>
      (\<exists>s st' row. ObsClose s \<in> set calls \<and> meta_ID (sum_Meta s) = meta_ID meta \<and>
         pl_store (foldl pipeline_step p [PlClose clock s, PlGeo geo, PlWrite v, PlTick v']) = Some st' \<and> row \<in> set (au_flows st') \<and>
         shows_flow meta mid why row))"
  using recorded_rows_accurate [OF assms] idle_pipeline_records [OF assms] by blast

text \<open>A Flow of fifteen and five bytes, and a schedule after which its row is in the table.\<close>

definition sample_flow_ops :: "lifecycle_op list" where
  "sample_flow_ops = [OpAddAt 7 10 2 1 1, OpAddAt 8 5 3 1 1]"

theorem forwarded_bytes_recorded_witness:
  "\<exists>s st row. pl_store (foldl pipeline_step (NewPipeline sample_log_config (Some empty_audit) None)
       [PlStart, PlClose 9 s, PlGeo None, PlWrite sample_audit_flush, PlTick sample_audit_flush]) = Some st \<and>
     row \<in> set (au_flows st) \<and> shows_flow sample_audit_meta sample_flow_ops ''eof'' row"
proof -
  define p where "p = pipeline_Start (NewPipeline sample_log_config (Some empty_audit) None)"
  have p: "idle p" "pl_store p = Some empty_audit" and v: "fv_flows sample_audit_flush" and id: "TrimSpace (meta_ID sample_audit_meta) \<noteq> []"
    and n: "sql_uint (added_up sample_flow_ops) \<noteq> None" "sql_uint (added_down sample_flow_ops) \<noteq> None"
    by (simp_all add: p_def idle_def bounds_ok_def pending_def pipeline_Start_def NewPipeline_def sample_log_config_def positive_or_def
        sample_audit_flush_def sample_audit_meta_def sample_flow_ops_def TrimSpace_def is_space_def sql_uint_def rejectionDedupeMaxEntries_def)
  have "list_all is_add []" and "list_all (\<lambda>e. \<forall>t why. e \<noteq> OpClose t why) sample_flow_ops" by (simp_all add: sample_flow_ops_def)
  note recorded = forwarded_bytes_recorded [where now = 5 and meta = sample_audit_meta and cf = "None :: (unit \<Rightarrow> unit) option" and r = None and t = 9
      and why = "''eof''" and rest = "[]", OF this refl]
  let ?calls = "snd (snd (foldl lifecycle_step (NewLifecycle 5 sample_audit_meta True (None :: (unit \<Rightarrow> unit) option), None, [])
       ([] @ OpOpen # sample_flow_ops @ OpClose 9 ''eof'' # [])))"
  obtain s st row where s: "ObsClose s \<in> set ?calls" "meta_ID (sum_Meta s) = meta_ID sample_audit_meta"
    and st: "pl_store (foldl pipeline_step p [PlClose 9 s, PlGeo None, PlWrite sample_audit_flush, PlTick sample_audit_flush]) = Some st"
      "row \<in> set (au_flows st)" "fl_FlowID row = meta_ID sample_audit_meta"
    using conjunct2 [OF recorded] p v id n unfolding shows_flow_def by metis
  let ?ops = "[PlStart, PlClose 9 s, PlGeo None, PlWrite sample_audit_flush, PlTick sample_audit_flush]"
  have run: "pl_store (foldl pipeline_step (NewPipeline sample_log_config (Some empty_audit) None) ?ops) = Some st"
    using st(1) by (simp add: p_def)
  have "meta_ID sample_audit_meta \<noteq> []" using id by (auto simp: TrimSpace_def)
  then have "\<forall>clock s. PlClose clock s \<in> set ?ops \<longrightarrow>
      meta_ID (sum_Meta s) \<noteq> [] \<and> (meta_ID (sum_Meta s) = meta_ID sample_audit_meta \<longrightarrow> ObsClose s \<in> set ?calls)"
    using s by auto
  moreover have "row \<notin> set (au_flows empty_audit)" by (simp add: empty_audit_def)
  ultimately have "shows_flow sample_audit_meta sample_flow_ops ''eof'' row"
    using conjunct1 [OF recorded] run st(2,3) by blast
  with run st(2) show ?thesis by blast
qed

end
